(* ===== verification/Prelude.thy ===== *)
theory Prelude
  imports Complex_Main "HOL-Library.Sublist" "HOL-Library.Multiset"
begin

text \<open>
  What every component shares: the model's reading of JavaScript values, the list operations of
  the source (\<open>slice\<close>, \<open>splice\<close>, an index-wise \<open>map\<close>), and the collections of facts the component
  proofs use.

  Reading of JavaScript values.  A number is a \<open>real\<close> where the source computes with coordinates and
  times (rounding of floating point is not modelled) and an \<open>int\<close> or \<open>nat\<close> where it counts or indexes.
  A string is a list of code units below 256, HOL's \<open>string\<close>.  A \<open>Record\<close> or \<open>Map\<close> keyed by strings is a
  partial function; the order of its keys is not observed by the code modelled here.  An optional
  property, \<open>null\<close> and \<open>undefined\<close> are \<open>None\<close>.
\<close>

named_theorems doc_simps \<open>how the operations on a board change its fields\<close>
named_theorems store_defs \<open>definitions of the editor operations\<close>
named_theorems inv_intros \<open>preservation of a component's invariant\<close>

type_synonym vec2 = "real \<times> real"
type_synonym ident = string

section \<open>Lists as the source uses them\<close>

text \<open>\<open>s.slice(-n)\<close> for a positive \<open>n\<close>: the last \<open>n\<close> entries, or all of them.\<close>

definition last_n :: "nat \<Rightarrow> 'a list \<Rightarrow> 'a list" where
  "last_n n xs = drop (length xs - n) xs"

lemma length_last_n [simp]: "length (last_n n xs) = min n (length xs)"
  by (simp add: last_n_def)

lemma last_n_all [simp]: "length xs \<le> n \<Longrightarrow> last_n n xs = xs"
  by (simp add: last_n_def)

lemma set_last_n_subset: "set (last_n n xs) \<subseteq> set xs"
  by (simp add: last_n_def set_drop_subset)

text \<open>\<open>xs.splice(i, 0, x)\<close>: an insertion; past the end it appends.\<close>

definition insert_at :: "nat \<Rightarrow> 'a \<Rightarrow> 'a list \<Rightarrow> 'a list" where
  "insert_at i x xs = take i xs @ x # drop i xs"

text \<open>\<open>xs.filter((_, n) => n !== i)\<close>: the list without its entry at \<open>i\<close>.\<close>

definition remove_at :: "nat \<Rightarrow> 'a list \<Rightarrow> 'a list" where
  "remove_at i xs = take i xs @ drop (Suc i) xs"

text \<open>\<open>xs.map((x, n) => (n === i ? f(x) : x))\<close>.\<close>

definition modify_at :: "nat \<Rightarrow> ('a \<Rightarrow> 'a) \<Rightarrow> 'a list \<Rightarrow> 'a list" where
  "modify_at i f xs = (if i < length xs then xs[i := f (xs ! i)] else xs)"

lemma length_insert_at [simp]: "length (insert_at i x xs) = Suc (length xs)"
  by (simp add: insert_at_def)

lemma length_remove_at [simp]:
  "i < length xs \<Longrightarrow> length (remove_at i xs) = length xs - 1"
  by (simp add: remove_at_def)

lemma length_modify_at [simp]: "length (modify_at i f xs) = length xs"
  by (simp add: modify_at_def)

lemma nth_insert_at:
  "i \<le> length xs \<Longrightarrow> k \<le> length xs \<Longrightarrow>
   insert_at i x xs ! k = (if k < i then xs ! k else if k = i then x else xs ! (k - 1))"
  by (auto simp: insert_at_def nth_append nth_Cons' min_def)

lemma nth_remove_at:
  "i < length xs \<Longrightarrow> k < length xs - 1 \<Longrightarrow>
   remove_at i xs ! k = (if k < i then xs ! k else xs ! Suc k)"
  by (auto simp: remove_at_def nth_append min_def)

lemma nth_modify_at:
  "k < length xs \<Longrightarrow> modify_at i f xs ! k = (if k = i then f (xs ! k) else xs ! k)"
  by (simp add: modify_at_def nth_list_update)

lemma modify_at_Nil_iff [simp]: "modify_at i f xs = [] \<longleftrightarrow> xs = []"
  by (simp add: modify_at_def)

lemma insert_at_not_Nil [simp]: "insert_at i x xs \<noteq> []"
  by (simp add: insert_at_def)

lemma modify_at_as_map:
  "modify_at i f xs = map (\<lambda>(n, x). if n = i then f x else x) (enumerate 0 xs)"
proof (rule nth_equalityI)
  show "length (modify_at i f xs) = length (map (\<lambda>(n, x). if n = i then f x else x) (enumerate 0 xs))"
    by simp
next
  fix k
  assume "k < length (modify_at i f xs)"
  then have k: "k < length xs" by simp
  then show "modify_at i f xs ! k =
    map (\<lambda>(n, x). if n = i then f x else x) (enumerate 0 xs) ! k"
    by (simp add: nth_modify_at nth_enumerate_eq)
qed

lemma set_insert_at: "set (insert_at i x xs) = insert x (set xs)"
proof -
  have "set (take i xs) \<union> set (drop i xs) = set xs"
    by (metis append_take_drop_id set_append)
  then show ?thesis by (auto simp: insert_at_def)
qed

lemma mset_like_remove_insert:
  "i < length xs \<Longrightarrow> insert_at i (xs ! i) (remove_at i xs) = xs"
  by (simp add: insert_at_def remove_at_def id_take_nth_drop[symmetric])

text \<open>
  \<open>order.splice(to, 0, ...order.splice(from, 1))\<close>: take one entry out and put it back elsewhere.
\<close>

definition move_elem :: "nat \<Rightarrow> nat \<Rightarrow> 'a list \<Rightarrow> 'a list" where
  "move_elem from to xs = insert_at to (xs ! from) (remove_at from xs)"

lemma length_move_elem [simp]: "from < length xs \<Longrightarrow> length (move_elem from to xs) = length xs"
  by (simp add: move_elem_def)

lemma set_move_elem: "from < length xs \<Longrightarrow> set (move_elem from to xs) = set xs"
proof -
  assume a: "from < length xs"
  have "set (insert_at from (xs ! from) (remove_at from xs)) = set xs"
    using mset_like_remove_insert [OF a] by simp
  then show ?thesis by (simp add: move_elem_def set_insert_at)
qed

lemma nth_move_elem:
  assumes "from < length xs" "to < length xs" "k < length xs"
  shows "move_elem from to xs ! k =
    (if k = to then xs ! from
     else if from \<le> k \<and> k < to then xs ! Suc k
     else if to < k \<and> k \<le> from then xs ! (k - 1)
     else xs ! k)"
  using assms unfolding move_elem_def
  by (subst nth_insert_at) (auto simp: nth_remove_at)

lemma set_filter_subset: "set (filter p xs) \<subseteq> set xs"
  by auto

text \<open>\<open>xs[i]\<close>, which is \<open>undefined\<close> out of range.\<close>

definition nth_opt :: "'a list \<Rightarrow> int \<Rightarrow> 'a option" where
  "nth_opt xs i = (if 0 \<le> i \<and> i < int (length xs) then Some (xs ! nat i) else None)"

lemma nth_opt_int [simp]: "k < length xs \<Longrightarrow> nth_opt xs (int k) = Some (xs ! k)"
  by (simp add: nth_opt_def)

lemma nth_opt_Suc_int [simp]: "Suc k < length xs \<Longrightarrow> nth_opt xs (1 + int k) = Some (xs ! Suc k)"
  by (simp add: nth_opt_def nat_add_distrib)

section \<open>Errors\<close>

text \<open>What the source raises when it reads a property of \<open>undefined\<close>.\<close>

datatype js_error = TypeError

text \<open>Running a fallible operation over a list, stopping at the first error.\<close>

fun mapE :: "('a \<Rightarrow> 'e + 'b) \<Rightarrow> 'a list \<Rightarrow> 'e + 'b list" where
  "mapE f [] = Inr []"
| "mapE f (x # xs) =
     (case f x of Inl e \<Rightarrow> Inl e
      | Inr y \<Rightarrow> (case mapE f xs of Inl e \<Rightarrow> Inl e | Inr ys \<Rightarrow> Inr (y # ys)))"

fun foldE :: "('s \<Rightarrow> 'a \<Rightarrow> 'e + 's) \<Rightarrow> 's \<Rightarrow> 'a list \<Rightarrow> 'e + 's" where
  "foldE f s [] = Inr s"
| "foldE f s (x # xs) = (case f s x of Inl e \<Rightarrow> Inl e | Inr t \<Rightarrow> foldE f t xs)"

lemma mapE_InrD: "mapE f xs = Inr ys \<Longrightarrow> \<forall>x\<in>set xs. \<exists>y. f x = Inr y"
  by (induction xs arbitrary: ys) (auto split: sum.splits)

lemma mapE_Inr: "(\<And>x. x \<in> set xs \<Longrightarrow> f x = Inr (g x)) \<Longrightarrow> mapE f xs = Inr (map g xs)"
  by (induction xs) auto

section \<open>Clamping\<close>

text \<open>\<open>Math.max(lo, Math.min(hi, x))\<close>.\<close>

definition clamp :: "'a::linorder \<Rightarrow> 'a \<Rightarrow> 'a \<Rightarrow> 'a" where
  "clamp lo hi x = max lo (min hi x)"

lemma clamp_bounds: "lo \<le> hi \<Longrightarrow> lo \<le> clamp lo hi x \<and> clamp lo hi x \<le> hi"
  by (auto simp: clamp_def)

lemma clamp_id [simp]: "lo \<le> x \<Longrightarrow> x \<le> hi \<Longrightarrow> clamp lo hi x = x"
  by (simp add: clamp_def min_def max_def)

section \<open>Rounding and printing of numbers\<close>

text \<open>\<open>Math.round\<close>: ties go towards positive infinity.\<close>

definition js_round :: "real \<Rightarrow> int" where
  "js_round x = \<lfloor>x + 1 / 2\<rfloor>"

lemma js_round_bounds:
  "x - 1 / 2 \<le> of_int (js_round x)" "of_int (js_round x) \<le> x + 1 / 2"
  unfolding js_round_def by linarith+

lemma js_round_of_int [simp]: "js_round (of_int i) = i"
  unfolding js_round_def by linarith

text \<open>\<open>String(n)\<close> for a natural number: its decimal digits.\<close>

definition digit_char :: "nat \<Rightarrow> char" where
  "digit_char d = char_of (48 + d)"

fun nat_to_string :: "nat \<Rightarrow> string" where
  "nat_to_string n =
     (if n < 10 then [digit_char n] else nat_to_string (n div 10) @ [digit_char (n mod 10)])"

declare nat_to_string.simps [simp del]

lemma digit_chars:
  "digit_char 0 = CHR ''0''" "digit_char 1 = CHR ''1''" "digit_char 2 = CHR ''2''"
  "digit_char 3 = CHR ''3''" "digit_char 4 = CHR ''4''" "digit_char 5 = CHR ''5''"
  "digit_char 6 = CHR ''6''" "digit_char 7 = CHR ''7''" "digit_char 8 = CHR ''8''"
  "digit_char 9 = CHR ''9''"
  by code_simp+

lemma nat_to_string_small: "n < 10 \<Longrightarrow> nat_to_string n = [digit_char n]"
  by (simp add: nat_to_string.simps [of n])

definition is_digit :: "char \<Rightarrow> bool" where
  "is_digit c \<longleftrightarrow> 48 \<le> (of_char c :: nat) \<and> (of_char c :: nat) \<le> 57"

definition digit_val :: "char \<Rightarrow> nat" where
  "digit_val c = of_char c - 48"

text \<open>\<open>Number(s)\<close> for a string of decimal digits.\<close>

definition digits_to_nat :: "string \<Rightarrow> nat" where
  "digits_to_nat s = foldl (\<lambda>n c. 10 * n + digit_val c) 0 s"

lemma digit_char_props [simp]:
  "d < 10 \<Longrightarrow> is_digit (digit_char d)"
  "d < 10 \<Longrightarrow> digit_val (digit_char d) = d"
  by (auto simp: digit_char_def is_digit_def digit_val_def)

lemma digits_to_nat_snoc [simp]:
  "digits_to_nat (s @ [c]) = 10 * digits_to_nat s + digit_val c"
  by (simp add: digits_to_nat_def)

lemma nat_to_string_digits: "list_all is_digit (nat_to_string n)"
proof (induction n rule: nat_to_string.induct)
  case (1 n)
  show ?case
  proof (cases "n < 10")
    case True
    then show ?thesis by (simp add: nat_to_string.simps [of n])
  next
    case False
    with "1.IH" show ?thesis by (simp add: nat_to_string.simps [of n])
  qed
qed

lemma digits_nat_to_string [simp]: "digits_to_nat (nat_to_string n) = n"
proof (induction n rule: nat_to_string.induct)
  case (1 n)
  show ?case
  proof (cases "n < 10")
    case True
    then show ?thesis
      by (simp add: nat_to_string.simps [of n] digits_to_nat_def)
  next
    case False
    with "1.IH" show ?thesis by (simp add: nat_to_string.simps [of n])
  qed
qed

lemma nat_to_string_inj: "nat_to_string m = nat_to_string n \<Longrightarrow> m = n"
  by (metis digits_nat_to_string)

lemma nat_to_string_not_Nil [simp]: "nat_to_string n \<noteq> []"
  by (subst nat_to_string.simps) simp

section \<open>Strings\<close>

text \<open>The white space of \<open>trim\<close> and of \<open>\s\<close>, below code unit 256.\<close>

definition is_ws :: "char \<Rightarrow> bool" where
  "is_ws c \<longleftrightarrow> (of_char c :: nat) \<in> {9, 10, 11, 12, 13, 32, 160}"

definition trim :: "string \<Rightarrow> string" where
  "trim s = rev (dropWhile is_ws (rev (dropWhile is_ws s)))"

lemma trim_no_ws [simp]: "list_all (\<lambda>c. \<not> is_ws c) s \<Longrightarrow> trim s = s"
proof -
  have aux: "list_all (\<lambda>c. \<not> is_ws c) t \<Longrightarrow> dropWhile is_ws t = t" for t
    by (cases t) auto
  assume "list_all (\<lambda>c. \<not> is_ws c) s"
  then show ?thesis by (simp add: trim_def aux list_all_rev)
qed

lemma set_trim_subset: "set (trim s) \<subseteq> set s"
  unfolding trim_def by (metis set_dropWhileD set_rev subsetI)

lemma trim_ends:
  "s \<noteq> [] \<Longrightarrow> \<not> is_ws (hd s) \<Longrightarrow> \<not> is_ws (last s) \<Longrightarrow> trim s = s"
proof -
  assume s: "s \<noteq> []" "\<not> is_ws (hd s)" "\<not> is_ws (last s)"
  have d: "t \<noteq> [] \<Longrightarrow> \<not> is_ws (hd t) \<Longrightarrow> dropWhile is_ws t = t" for t by (cases t) simp_all
  show ?thesis using d [of s] d [of "rev s"] s by (simp add: trim_def hd_rev)
qed

lemma trim_Nil [simp]: "trim [] = []"
  by (simp add: trim_def)

lemma trim_trimmed: "trim s \<noteq> [] \<Longrightarrow> \<not> is_ws (hd (trim s)) \<and> \<not> is_ws (last (trim s))"
proof -
  let ?d = "dropWhile is_ws s"
  assume ne: "trim s \<noteq> []"
  have last: "last (trim s) = hd (dropWhile is_ws (rev ?d))" using ne by (simp add: trim_def last_rev)
  have "dropWhile is_ws (rev ?d) \<noteq> []" using ne by (simp add: trim_def)
  from hd_dropWhile [OF this] last have 1: "\<not> is_ws (last (trim s))" by simp
  have "rev ?d = takeWhile is_ws (rev ?d) @ dropWhile is_ws (rev ?d)" by simp
  then have "?d = trim s @ rev (takeWhile is_ws (rev ?d))" unfolding trim_def by (metis rev_append rev_rev_ident)
  then have hd: "hd (trim s) = hd ?d" using ne by (metis hd_append2)
  have d: "?d \<noteq> []" using ne unfolding trim_def by (metis dropWhile.simps(1) rev.simps(1))
  from hd_dropWhile [OF d] hd 1 show ?thesis by simp
qed

lemma trim_trim [simp]: "trim (trim s) = trim s"
  using trim_trimmed [of s] trim_ends [of "trim s"] by (cases "trim s = []") simp_all

lemma length_trim: "length (trim x) \<le> length x"
  by (metis trim_def length_dropWhile_le length_rev order_trans)

lemma is_digit_not_ws: "is_digit c \<Longrightarrow> \<not> is_ws c"
  by (auto simp: is_digit_def is_ws_def)

text \<open>\<open>raw.split(c)\<close> at one separator character.\<close>

fun split_on :: "char \<Rightarrow> string \<Rightarrow> string list" where
  "split_on c [] = [[]]"
| "split_on c (x # xs) =
     (if x = c then [] # split_on c xs
      else (case split_on c xs of [] \<Rightarrow> [[x]] | y # ys \<Rightarrow> (x # y) # ys))"

lemma split_on_not_Nil [simp]: "split_on c xs \<noteq> []"
  by (induction xs) (auto split: list.splits)

lemma split_on_no_sep: "s \<in> set (split_on c xs) \<Longrightarrow> c \<notin> set s"
proof (induction xs arbitrary: s)
  case Nil
  then show ?case by simp
next
  case (Cons x xs)
  show ?case
  proof (cases "x = c")
    case True
    with Cons show ?thesis by auto
  next
    case False
    obtain y ys where s: "split_on c xs = y # ys"
      by (metis neq_Nil_conv split_on_not_Nil)
    with Cons.prems False have "s = x # y \<or> s \<in> set ys" by simp
    then show ?thesis
    proof
      assume "s = x # y"
      moreover have "c \<notin> set y" using Cons.IH [of y] s by simp
      ultimately show ?thesis using False by simp
    next
      assume "s \<in> set ys"
      then show ?thesis using Cons.IH [of s] s by simp
    qed
  qed
qed

lemma split_on_plain: "c \<notin> set x \<Longrightarrow> split_on c x = [x]"
  by (induction x) auto

lemma split_on_first: "c \<notin> set x \<Longrightarrow> split_on c (x @ c # r) = x # split_on c r"
  by (induction x) auto

text \<open>\<open>v ?? ''\<close>.\<close>

definition or_empty :: "string option \<Rightarrow> string" where
  "or_empty v = (case v of None \<Rightarrow> [] | Some s \<Rightarrow> s)"

text \<open>\<open>xs.join(sep)\<close>.\<close>

fun join :: "string \<Rightarrow> string list \<Rightarrow> string" where
  "join sep [] = []"
| "join sep [x] = x"
| "join sep (x # y # ys) = x @ sep @ join sep (y # ys)"

lemma split_join: "xs \<noteq> [] \<Longrightarrow> \<forall>x\<in>set xs. c \<notin> set x \<Longrightarrow> split_on c (join [c] xs) = xs"
  by (induction "[c]" xs rule: join.induct) (simp_all add: split_on_plain split_on_first)

lemma option_case_None_Some [simp]:
  "(case x of None \<Rightarrow> None | Some y \<Rightarrow> Some y) = x"
  by (cases x) auto

section \<open>Sorting and letters\<close>

text \<open>\<open>Array.prototype.sort\<close> with a comparison function: a stable sort.\<close>

fun insert_cmp :: "('a \<Rightarrow> 'a \<Rightarrow> int) \<Rightarrow> 'a \<Rightarrow> 'a list \<Rightarrow> 'a list" where
  "insert_cmp c x [] = [x]"
| "insert_cmp c x (y # ys) = (if c x y \<le> 0 then x # y # ys else y # insert_cmp c x ys)"

definition js_sort :: "('a \<Rightarrow> 'a \<Rightarrow> int) \<Rightarrow> 'a list \<Rightarrow> 'a list" where
  "js_sort c xs = foldr (insert_cmp c) xs []"

lemma set_insert_cmp [simp]: "set (insert_cmp c x xs) = insert x (set xs)"
  by (induction xs) auto

lemma set_js_sort [simp]: "set (js_sort c xs) = set xs"
  by (induction xs) (simp_all add: js_sort_def)

lemma length_js_sort [simp]: "length (js_sort c xs) = length xs"
proof -
  have "length (insert_cmp c x ys) = Suc (length ys)" for x and ys :: "'a list"
    by (induction ys) auto
  then show ?thesis by (induction xs) (simp_all add: js_sort_def)
qed

lemma mset_js_sort [simp]: "mset (js_sort c xs) = mset xs"
proof (induction xs)
  case (Cons x xs)
  have "mset (insert_cmp c x ys) = add_mset x (mset ys)" for ys by (induction ys) auto
  with Cons show ?case by (simp add: js_sort_def)
qed (simp add: js_sort_def)

lemma js_sort_Nil [simp]: "js_sort c xs = [] \<longleftrightarrow> xs = []"
  using length_js_sort [of c xs] by (metis length_0_conv)

lemma js_sort_sorted:
  assumes total: "\<And>x y. c x y \<le> 0 \<or> c y x \<le> (0 :: int)"
    and trans: "\<And>x y z. c x y \<le> 0 \<Longrightarrow> c y z \<le> 0 \<Longrightarrow> c x z \<le> 0"
  shows "sorted_wrt (\<lambda>x y. c x y \<le> 0) (js_sort c xs)"
proof -
  have ins: "sorted_wrt (\<lambda>x y. c x y \<le> 0) (insert_cmp c x ys)"
    if "sorted_wrt (\<lambda>x y. c x y \<le> 0) ys" for x ys
    using that by (induction ys) (auto dest: trans total [THEN disjE], use total in blast)
  then show ?thesis by (induction xs) (simp_all add: js_sort_def)
qed

text \<open>Stability: entries that count as equal keep their order.\<close>

lemma filter_insert_cmp:
  "(\<And>y. P x \<Longrightarrow> P y \<Longrightarrow> c x y \<le> 0) \<Longrightarrow> filter P (insert_cmp c x ys) = (if P x then x # filter P ys else filter P ys)"
  by (induction ys) auto

lemma filter_js_sort: "(\<And>x y. P x \<Longrightarrow> P y \<Longrightarrow> c x y \<le> 0) \<Longrightarrow> filter P (js_sort c xs) = filter P xs"
proof (induction xs)
  case (Cons x xs)
  have "filter P (insert_cmp c x (js_sort c xs)) = (if P x then x # filter P (js_sort c xs) else filter P (js_sort c xs))"
    by (rule filter_insert_cmp) (rule Cons.prems)
  with Cons show ?case by (simp add: js_sort_def)
qed (simp add: js_sort_def)

text \<open>\<open>toLowerCase\<close>, on the letters the source looks for.\<close>

definition lower :: "char \<Rightarrow> char" where
  "lower c = (let n = (of_char c :: nat) in if 65 \<le> n \<and> n \<le> 90 then char_of (n + 32) else c)"

end
