(* ===== verification/Board_Model.thy ===== *)
theory Board_Model
  imports Prelude
begin

text \<open>
  The tactics board document: \<open>apps/frontend/src/app/features/tactics/board/model.ts\<close>.

  The interfaces of the source are records, its string unions datatypes, its optional properties
  options.  \<open>positionAt\<close> is the loop of the source (scanning back from a step to the latest one that
  placed the object); \<open>standing\<close> is the abstract reading, the position maps overlaid in order, and
  \<open>positionAt_standing\<close> is the refinement between the two that the editor proofs use.  The locale
  \<open>carried_positions\<close> is the contract the playback and the editor rely on.  \<open>normalizeDoc\<close>, which
  works on untyped JSON, is in \<open>Board_Json\<close>.
\<close>

section \<open>The document\<close>

datatype team_id = Home | Away | Third
datatype kit_pattern = Solid | Stripes | Hoops | Halves | Sash

record kit =
  kit_name :: string
  primary :: string
  secondary :: string
  kit_pattern :: kit_pattern
  numbers :: string
  kit_keeper :: string

datatype equipment_kind =
  Ball | Cone | Disc | Pole | Mannequin | Hurdle | Ladder | Ring | Minigoal | Goal | Popup | Flag

datatype object_kind = PlayerKind | Equip equipment_kind

record board_object =
  obj_id :: ident
  kind :: object_kind
  team :: "team_id option"
  keeper :: "bool option"
  number :: "string option"
  obj_name :: "string option"
  bib :: "string option"
  color :: "string option"
  color2 :: "string option"
  pattern :: "kit_pattern option"
  obj_size :: "real option"
  rotation :: "real option"

datatype drawing_kind = Arrow | Line | Pen | Rect | Ellipse | Polygon | TextLabel
datatype stroke_style = SolidStroke | Dashed | Wavy

record drawing =
  drawing_id :: ident
  drawing_kind :: drawing_kind
  points :: "vec2 list"
  control :: "vec2 option"
  style :: "stroke_style option"
  drawing_color :: "string option"
  stroke_width :: "real option"
  drawing_text :: "string option"
  fill :: "real option"

record step =
  step_id :: ident
  duration :: real
  hold :: real
  caption :: string
  pos :: "ident \<rightharpoonup> vec2"
  bend :: "(ident \<rightharpoonup> vec2) option"
  air :: "ident list option"
  highlight :: "ident list option"
  drawings :: "drawing list"

datatype pitch_layout = Full | Half | ThirdOf | Box | Drill
datatype pitch_markings = Standard | NoMarkings | Grid
datatype pitch_style = Day | Night | Chalk

record pitch_settings =
  layout :: pitch_layout
  markings :: pitch_markings
  pitch_style :: pitch_style
  stadium :: bool

record tactic_doc =
  pitch :: pitch_settings
  teams :: "team_id \<Rightarrow> kit"
  objects :: "board_object list"
  steps :: "step list"

definition PITCH_LENGTH :: real where "PITCH_LENGTH = 105"
definition PITCH_WIDTH :: real where "PITCH_WIDTH = 68"
definition HALF_LENGTH :: real where "HALF_LENGTH = PITCH_LENGTH / 2"
definition HALF_WIDTH :: real where "HALF_WIDTH = PITCH_WIDTH / 2"
definition RUNOFF :: real where "RUNOFF = 6"
definition DEFAULT_STROKE :: real where "DEFAULT_STROKE = 32 / 100"

lemmas pitch_consts = PITCH_LENGTH_def PITCH_WIDTH_def HALF_LENGTH_def HALF_WIDTH_def RUNOFF_def

section \<open>Defaults\<close>

fun DEFAULT_KITS :: "team_id \<Rightarrow> kit" where
  "DEFAULT_KITS Home = \<lparr>kit_name = ''Home'', primary = ''#c8102e'', secondary = ''#ffffff'',
     kit_pattern = Solid, numbers = ''#ffffff'', kit_keeper = ''#1f9d55''\<rparr>"
| "DEFAULT_KITS Away = \<lparr>kit_name = ''Away'', primary = ''#1d4ed8'', secondary = ''#0b1f4d'',
     kit_pattern = Solid, numbers = ''#ffffff'', kit_keeper = ''#f59e0b''\<rparr>"
| "DEFAULT_KITS Third = \<lparr>kit_name = ''Neutral'', primary = ''#facc15'', secondary = ''#111827'',
     kit_pattern = Solid, numbers = ''#111827'', kit_keeper = ''#a855f7''\<rparr>"

fun EQUIPMENT_COLORS :: "equipment_kind \<Rightarrow> string" where
  "EQUIPMENT_COLORS Ball = ''#ffffff''"
| "EQUIPMENT_COLORS Cone = ''#ff7a1a''"
| "EQUIPMENT_COLORS Disc = ''#facc15''"
| "EQUIPMENT_COLORS Pole = ''#f43f5e''"
| "EQUIPMENT_COLORS Mannequin = ''#2563eb''"
| "EQUIPMENT_COLORS Hurdle = ''#f97316''"
| "EQUIPMENT_COLORS Ladder = ''#fde047''"
| "EQUIPMENT_COLORS Ring = ''#22d3ee''"
| "EQUIPMENT_COLORS Minigoal = ''#f8fafc''"
| "EQUIPMENT_COLORS Goal = ''#f8fafc''"
| "EQUIPMENT_COLORS Popup = ''#f97316''"
| "EQUIPMENT_COLORS Flag = ''#facc15''"

text \<open>
  \<open>newId\<close> draws six random bytes and writes each modulo 36 in base 36.  The bytes are its argument;
  an operation that makes ids takes the ids it makes as arguments.
\<close>

definition base36_char :: "nat \<Rightarrow> char" where
  "base36_char d = (if d < 10 then char_of (48 + d) else char_of (87 + d))"

definition newId :: "nat list \<Rightarrow> ident" where
  "newId bytes = map (\<lambda>b. base36_char (b mod 36)) (take 6 bytes)"

definition newStep :: "ident \<Rightarrow> step" where
  "newStep nid = \<lparr>step_id = nid, duration = 16 / 10, hold = 6 / 10, caption = '''', pos = Map.empty,
     bend = None, air = None, highlight = None, drawings = []\<rparr>"

definition emptyDoc :: "ident \<Rightarrow> tactic_doc" where
  "emptyDoc nid = \<lparr>pitch = \<lparr>layout = Full, markings = Standard, pitch_style = Day, stadium = True\<rparr>,
     teams = DEFAULT_KITS, objects = [], steps = [newStep nid]\<rparr>"

lemma newStep_simps [simp]:
  "pos (newStep nid) = Map.empty" "drawings (newStep nid) = []" "step_id (newStep nid) = nid"
  "bend (newStep nid) = None" "air (newStep nid) = None" "highlight (newStep nid) = None"
  by (simp_all add: newStep_def)

lemma emptyDoc_simps [simp]: "steps (emptyDoc nid) = [newStep nid]" "objects (emptyDoc nid) = []"
  by (simp_all add: emptyDoc_def)

section \<open>Reading positions\<close>

text \<open>\<open>scan_back ss k\<close> is the loop of \<open>positionAt\<close> with \<open>k\<close> steps left to look at.\<close>

primrec scan_back :: "step list \<Rightarrow> nat \<Rightarrow> ident \<Rightarrow> vec2 option" where
  "scan_back ss 0 i = None"
| "scan_back ss (Suc k) i = (case pos (ss ! k) i of Some p \<Rightarrow> Some p | None \<Rightarrow> scan_back ss k i)"

definition positionAt :: "tactic_doc \<Rightarrow> int \<Rightarrow> ident \<Rightarrow> vec2 option" where
  "positionAt doc stepIndex i =
     scan_back (steps doc) (nat (min stepIndex (int (length (steps doc)) - 1) + 1)) i"

definition object_ids :: "tactic_doc \<Rightarrow> ident set" where
  "object_ids doc = obj_id ` set (objects doc)"

definition positionsAt :: "tactic_doc \<Rightarrow> int \<Rightarrow> (ident \<rightharpoonup> vec2)" where
  "positionsAt doc stepIndex =
     (\<lambda>i. if i \<in> set (map obj_id (objects doc)) then positionAt doc stepIndex i else None)"

definition hypot :: "real \<Rightarrow> real \<Rightarrow> real" where
  "hypot x y = sqrt (x\<^sup>2 + y\<^sup>2)"

definition movedInto :: "tactic_doc \<Rightarrow> int \<Rightarrow> ident \<Rightarrow> js_error + vec2 option" where
  "movedInto doc stepIndex i =
     (if stepIndex = 0 then Inr None
      else case nth_opt (steps doc) stepIndex of
        None \<Rightarrow> Inl TypeError
      | Some s \<Rightarrow>
          (case (pos s i, positionAt doc (stepIndex - 1) i) of
             (Some now, Some before) \<Rightarrow>
               Inr (if hypot (fst now - fst before) (snd now - snd before) > 5 / 100
                    then Some before else None)
           | _ \<Rightarrow> Inr None))"

subsection \<open>The abstract reading: position maps overlaid in order\<close>

definition standing :: "(ident \<rightharpoonup> vec2) list \<Rightarrow> nat \<Rightarrow> (ident \<rightharpoonup> vec2)" where
  "standing ps k = foldl (++) Map.empty (take k ps)"

lemma standing_0 [simp]: "standing ps 0 = Map.empty"
  by (simp add: standing_def)

lemma standing_Suc: "k < length ps \<Longrightarrow> standing ps (Suc k) = standing ps k ++ (ps ! k)"
  by (simp add: standing_def take_Suc_conv_app_nth)

lemma standing_cong: "take k ps = take k qs \<Longrightarrow> standing ps k = standing qs k"
  by (simp add: standing_def)

lemma scan_back_standing:
  "k \<le> length ss \<Longrightarrow> scan_back ss k i = standing (map pos ss) k i"
  by (induction k) (auto simp: standing_Suc map_add_def split: option.splits)

lemma positionAt_neg [simp]: "i < 0 \<Longrightarrow> positionAt doc i x = None"
  by (simp add: positionAt_def min_def)

lemma positionAt_standing:
  "0 \<le> i \<Longrightarrow> i < int (length (steps doc)) \<Longrightarrow>
   positionAt doc i x = standing (map pos (steps doc)) (Suc (nat i)) x"
  by (simp add: positionAt_def scan_back_standing min_def nat_add_distrib del: scan_back.simps)

lemma positionAt_nat:
  "k < length (steps doc) \<Longrightarrow>
   positionAt doc (int k) x = standing (map pos (steps doc)) (Suc k) x"
  by (simp add: positionAt_standing)

lemma positionAt_beyond:
  "int (length (steps doc)) \<le> i \<Longrightarrow>
   positionAt doc i x = positionAt doc (int (length (steps doc)) - 1) x"
  by (simp add: positionAt_def min_def)

lemma positionAt_step:
  "0 \<le> i \<Longrightarrow> i < int (length (steps doc)) \<Longrightarrow>
   positionAt doc i x =
     (case pos (steps doc ! nat i) x of Some p \<Rightarrow> Some p | None \<Rightarrow> positionAt doc (i - 1) x)"
  by (cases "i = 0")
    (auto simp: positionAt_def min_def nat_diff_distrib nat_add_distrib split: option.splits)

text \<open>
  The contract of a board's positions, as playback and the editor rely on it: what a step places is
  where the object stands there, what it does not place stays where it stood, nothing stands before
  the first step, and after the last step nothing changes.
\<close>

locale carried_positions =
  fixes stands :: "int \<Rightarrow> ident \<Rightarrow> vec2 option"
    and own :: "nat \<Rightarrow> ident \<rightharpoonup> vec2"
    and n :: nat
  assumes at_before: "i < 0 \<Longrightarrow> stands i x = None"
    and at_own: "k < n \<Longrightarrow>
      stands (int k) x = (case own k x of Some p \<Rightarrow> Some p | None \<Rightarrow> stands (int k - 1) x)"
    and at_after: "int n \<le> i \<Longrightarrow> stands i x = stands (int n - 1) x"
begin

lemma at_Some_latest:
  assumes "k < n"
  shows "stands (int k) x = Some p \<longleftrightarrow>
    (\<exists>j\<le>k. own j x = Some p \<and> (\<forall>m. j < m \<and> m \<le> k \<longrightarrow> own m x = None))"
  using assms
proof (induction k)
  case 0
  then show ?case using at_own [of 0 x] by (auto simp: at_before split: option.splits)
next
  case (Suc k)
  show ?case
  proof (cases "own (Suc k) x")
    case None
    with Suc at_own [of "Suc k" x] have "stands (int (Suc k)) x = stands (int k) x" by simp
    with Suc None show ?thesis
      by simp (metis le_Suc_eq option.distinct(1))
  next
    case (Some q)
    with Suc.prems at_own [of "Suc k" x] have "stands (int (Suc k)) x = Some q" by simp
    with Some show ?thesis
      by (auto simp: le_Suc_eq)
  qed
qed

lemma at_None_iff: "k < n \<Longrightarrow> stands (int k) x = None \<longleftrightarrow> (\<forall>j\<le>k. own j x = None)"
proof (induction k)
  case 0
  then show ?case using at_own [of 0 x] by (auto simp: at_before split: option.splits)
next
  case (Suc k)
  then show ?case using at_own [of "Suc k" x] by (auto simp: le_Suc_eq split: option.splits)
qed

lemma at_stays: "k < n \<Longrightarrow> own k x = None \<Longrightarrow> stands (int k) x = stands (int k - 1) x"
  by (simp add: at_own)

lemma at_appeared_stays:
  "j \<le> k \<Longrightarrow> k < n \<Longrightarrow> stands (int j) x \<noteq> None \<Longrightarrow> stands (int k) x \<noteq> None"
  by (metis at_None_iff le_trans order_le_less_trans)

end

interpretation board: carried_positions
  "positionAt doc" "\<lambda>k. pos (steps doc ! k)" "length (steps doc)" for doc
  by unfold_locales (auto simp: positionAt_step positionAt_beyond)

section \<open>Looks, numbers and the area\<close>

record look =
  look_primary :: string
  look_secondary :: string
  look_pattern :: kit_pattern
  look_numbers :: string

definition is_keeper :: "board_object \<Rightarrow> bool" where
  "is_keeper obj \<longleftrightarrow> keeper obj = Some True"

definition playerLook :: "tactic_doc \<Rightarrow> board_object \<Rightarrow> look" where
  "playerLook doc obj =
     (let k = teams doc (case team obj of Some t \<Rightarrow> t | None \<Rightarrow> Home) in
      \<lparr>look_primary = (case color obj of Some c \<Rightarrow> c
          | None \<Rightarrow> if is_keeper obj then kit_keeper k else primary k),
       look_secondary = (case color2 obj of Some c \<Rightarrow> c | None \<Rightarrow> secondary k),
       look_pattern = (case pattern obj of Some p \<Rightarrow> p
          | None \<Rightarrow> if is_keeper obj then Solid else kit_pattern k),
       look_numbers = numbers k\<rparr>)"

definition used_numbers :: "tactic_doc \<Rightarrow> team_id \<Rightarrow> string option list" where
  "used_numbers doc t =
     map number (filter (\<lambda>o'. kind o' = PlayerKind \<and> team o' = Some t) (objects doc))"

definition nextNumber :: "tactic_doc \<Rightarrow> team_id \<Rightarrow> string" where
  "nextNumber doc t =
     (case find (\<lambda>n. Some (nat_to_string n) \<notin> set (used_numbers doc t)) [1..<100] of
        Some n \<Rightarrow> nat_to_string n | None \<Rightarrow> '''')"

definition clampToArea :: "vec2 \<Rightarrow> vec2" where
  "clampToArea p =
     (clamp (- (HALF_LENGTH + RUNOFF)) (HALF_LENGTH + RUNOFF) (fst p),
      clamp (- (HALF_WIDTH + RUNOFF)) (HALF_WIDTH + RUNOFF) (snd p))"

definition in_area :: "vec2 \<Rightarrow> bool" where
  "in_area p \<longleftrightarrow> \<bar>fst p\<bar> \<le> HALF_LENGTH + RUNOFF \<and> \<bar>snd p\<bar> \<le> HALF_WIDTH + RUNOFF"

lemma clampToArea_in_area: "in_area (clampToArea p)"
  by (auto simp: in_area_def clampToArea_def clamp_def pitch_consts)

lemma clampToArea_id: "in_area p \<Longrightarrow> clampToArea p = p"
  by (cases p) (auto simp: in_area_def clampToArea_def pitch_consts)

section \<open>Formations\<close>

datatype side = LeftSide | RightSide

text \<open>\<open>shape\<close>: the rows of spots, defence first, and the shirt numbers in the same order.\<close>

definition shape :: "vec2 list list \<Rightarrow> string list \<Rightarrow> (string option \<times> vec2) list" where
  "shape rows nums =
     (let spots = concat rows in
      map (\<lambda>(i, spot). (nth_opt nums (int i), spot)) (enumerate 0 spots))"

definition pct :: "nat \<Rightarrow> nat \<Rightarrow> vec2" where
  "pct a b = (real a / 100, real b / 100)"

definition back_four :: "vec2 list" where
  "back_four = [pct 82 12, pct 80 37, pct 80 63, pct 82 88]"

definition back_three :: "vec2 list" where
  "back_three = [pct 80 25, pct 82 50, pct 80 75]"

definition FORMATIONS :: "(string \<times> (string option \<times> vec2) list) list" where
  "FORMATIONS =
    [(''4-4-2'', shape [back_four,
        [pct 45 12, pct 42 38, pct 42 62, pct 45 88], [pct 12 38, pct 12 62]]
        [''2'', ''5'', ''6'', ''3'', ''7'', ''4'', ''8'', ''11'', ''9'', ''10'']),
     (''4-3-3'', shape [back_four,
        [pct 55 50, pct 40 30, pct 40 70], [pct 14 15, pct 8 50, pct 14 85]]
        [''2'', ''5'', ''4'', ''3'', ''6'', ''8'', ''10'', ''7'', ''9'', ''11'']),
     (''4-2-3-1'', shape [back_four,
        [pct 58 38, pct 58 62], [pct 32 15, pct 30 50, pct 32 85], [pct 8 50]]
        [''2'', ''5'', ''4'', ''3'', ''6'', ''8'', ''7'', ''10'', ''11'', ''9'']),
     (''3-5-2'', shape [back_three,
        [pct 45 8, pct 52 35, pct 58 50, pct 52 65, pct 45 92], [pct 12 38, pct 12 62]]
        [''4'', ''5'', ''6'', ''2'', ''8'', ''10'', ''7'', ''3'', ''9'', ''11'']),
     (''3-4-3'', shape [back_three,
        [pct 48 10, pct 52 38, pct 52 62, pct 48 90], [pct 15 18, pct 8 50, pct 15 82]]
        [''4'', ''5'', ''6'', ''2'', ''8'', ''10'', ''3'', ''7'', ''9'', ''11'']),
     (''5-3-2'', shape [[pct 72 8, pct 82 30, pct 84 50, pct 82 70, pct 72 92],
        [pct 50 30, pct 55 50, pct 50 70], [pct 14 38, pct 14 62]]
        [''2'', ''4'', ''5'', ''6'', ''3'', ''8'', ''10'', ''7'', ''9'', ''11''])]"

definition formation_spots :: "string \<Rightarrow> (string option \<times> vec2) list" where
  "formation_spots name =
     (case map_of FORMATIONS name of Some spots \<Rightarrow> spots
      | None \<Rightarrow> the (map_of FORMATIONS ''4-4-2''))"

definition round10 :: "real \<Rightarrow> real" where
  "round10 n = of_int (js_round (n * 10)) / 10"

definition mk_player :: "ident \<Rightarrow> team_id \<Rightarrow> bool option \<Rightarrow> string option \<Rightarrow> board_object" where
  "mk_player i t k num = \<lparr>obj_id = i, kind = PlayerKind, team = Some t, keeper = k, number = num,
     obj_name = None, bib = None, color = None, color2 = None, pattern = None, obj_size = None,
     rotation = None\<rparr>"

definition side_dir :: "side \<Rightarrow> real" where
  "side_dir s = (case s of LeftSide \<Rightarrow> 1 | RightSide \<Rightarrow> -1)"

definition spot_pos :: "side \<Rightarrow> vec2 \<Rightarrow> vec2" where
  "spot_pos s spot =
     (let depth = 1 - fst spot; across = snd spot;
          x = - side_dir s * (HALF_LENGTH - 10 - depth * (HALF_LENGTH - 14));
          y = (across - 1 / 2) * (PITCH_WIDTH - 10)
      in (round10 x, round10 y))"

text \<open>\<open>ids\<close> are the successive results of \<open>newId\<close>: the keeper's first, then one per spot.\<close>

definition formation ::
  "(nat \<Rightarrow> ident) \<Rightarrow> string \<Rightarrow> team_id \<Rightarrow> side \<Rightarrow> board_object list \<times> (ident \<rightharpoonup> vec2)" where
  "formation ids name t s =
     (let spots = formation_spots name;
          gk = mk_player (ids 0) t (Some True) (Some ''1'');
          outfield = map (\<lambda>(i, n, spot). (mk_player (ids (Suc i)) t None n, spot_pos s spot))
                         (enumerate 0 spots)
      in (gk # map fst outfield,
          foldl (\<lambda>m (obj, p). m(obj_id obj \<mapsto> p))
            [ids 0 \<mapsto> (- side_dir s * (HALF_LENGTH - 4), 0)] outfield))"

section \<open>What the model functions compute\<close>

lemma find_Some_upt:
  "find P [a..<b] = Some n \<longleftrightarrow> a \<le> n \<and> n < b \<and> P n \<and> (\<forall>m. a \<le> m \<and> m < n \<longrightarrow> \<not> P m)"
proof -
  have "find P [a..<b] = Some n \<longleftrightarrow>
      (\<exists>i<length [a..<b]. P ([a..<b] ! i) \<and> n = [a..<b] ! i \<and> (\<forall>j<i. \<not> P ([a..<b] ! j)))"
    by (rule find_Some_iff)
  also have "\<dots> \<longleftrightarrow> a \<le> n \<and> n < b \<and> P n \<and> (\<forall>m. a \<le> m \<and> m < n \<longrightarrow> \<not> P m)"
  proof
    assume "\<exists>i<length [a..<b]. P ([a..<b] ! i) \<and> n = [a..<b] ! i \<and> (\<forall>j<i. \<not> P ([a..<b] ! j))"
    then obtain i where i: "i < b - a" "P (a + i)" "n = a + i" "\<And>j. j < i \<Longrightarrow> \<not> P (a + j)"
      by (auto simp: nth_upt)
    then show "a \<le> n \<and> n < b \<and> P n \<and> (\<forall>m. a \<le> m \<and> m < n \<longrightarrow> \<not> P m)"
      by auto (metis add_less_cancel_left le_iff_add)
  next
    assume "a \<le> n \<and> n < b \<and> P n \<and> (\<forall>m. a \<le> m \<and> m < n \<longrightarrow> \<not> P m)"
    then show "\<exists>i<length [a..<b]. P ([a..<b] ! i) \<and> n = [a..<b] ! i \<and> (\<forall>j<i. \<not> P ([a..<b] ! j))"
      by (intro exI [of _ "n - a"]) (auto simp: nth_upt)
  qed
  finally show ?thesis .
qed

lemma find_None_upt: "find P [a..<b] = None \<longleftrightarrow> (\<forall>n. a \<le> n \<and> n < b \<longrightarrow> \<not> P n)"
  by (auto simp: find_None_iff)

text \<open>
  \<open>positionAt\<close> answers with the placement of the latest step, up to the one asked for, that
  placed the object; it answers \<open>undefined\<close> exactly when no such step did.
\<close>
theorem positionAt_latest:
  assumes "k < length (steps doc)"
  shows "(positionAt doc (int k) x = Some p \<longleftrightarrow>
      (\<exists>j\<le>k. pos (steps doc ! j) x = Some p \<and> (\<forall>m. j < m \<and> m \<le> k \<longrightarrow> pos (steps doc ! m) x = None)))
    \<and> (positionAt doc (int k) x = None \<longleftrightarrow> (\<forall>j\<le>k. pos (steps doc ! j) x = None))"
  using board.at_Some_latest [OF assms] board.at_None_iff [OF assms] by auto

text \<open>
  \<open>nextNumber\<close> gives the smallest shirt number from 1 to 99 that no player of the team wears, and
  the empty string exactly when all are worn.
\<close>
theorem nextNumber_least_free:
  "(\<exists>n. 1 \<le> n \<and> n < 100 \<and> nextNumber doc t = nat_to_string n
        \<and> Some (nat_to_string n) \<notin> set (used_numbers doc t)
        \<and> (\<forall>m. 1 \<le> m \<and> m < n \<longrightarrow> Some (nat_to_string m) \<in> set (used_numbers doc t)))
   \<or> nextNumber doc t = '''' \<and>
     (\<forall>n. 1 \<le> n \<and> n < 100 \<longrightarrow> Some (nat_to_string n) \<in> set (used_numbers doc t))"
proof (cases "find (\<lambda>n. Some (nat_to_string n) \<notin> set (used_numbers doc t)) [1..<100]")
  case None
  then have "nextNumber doc t = ''''" by (simp add: nextNumber_def)
  with None show ?thesis unfolding find_None_upt by auto
next
  case (Some n)
  then have "nextNumber doc t = nat_to_string n" by (simp add: nextNumber_def)
  with Some show ?thesis unfolding find_Some_upt by auto
qed

lemma round10_bounds: "n - 1 / 20 \<le> round10 n" "round10 n \<le> n + 1 / 20"
  using js_round_bounds [of "n * 10"] unfolding round10_def by (simp_all add: field_simps)

lemma map_snd_enumerate [simp]: "map (\<lambda>(i, x). f x) (enumerate n xs) = map f xs"
  by (induction xs arbitrary: n) auto

lemma map_snd_shape: "map snd (shape rows nums) = concat rows"
proof -
  have "map snd (map (\<lambda>(i, spot). (g i, spot)) (enumerate n xs)) = xs" for g :: "nat \<Rightarrow> 'b" and n and xs :: "'a list"
    by (induction xs arbitrary: n) auto
  then show ?thesis by (simp add: shape_def)
qed

definition spot_ok :: "vec2 \<Rightarrow> bool" where
  "spot_ok p \<longleftrightarrow> 8 / 100 \<le> fst p \<and> fst p \<le> 84 / 100 \<and> 8 / 100 \<le> snd p \<and> snd p \<le> 92 / 100"

lemma formations_ok:
  "(name, spots) \<in> set FORMATIONS \<Longrightarrow> length spots = 10 \<and> list_all spot_ok (map snd spots)"
  unfolding FORMATIONS_def
  by (auto simp: map_snd_shape spot_ok_def pct_def back_four_def back_three_def shape_def)

lemma formation_spots_ok:
  "length (formation_spots name) = 10 \<and> list_all spot_ok (map snd (formation_spots name))"
proof (cases "map_of FORMATIONS name")
  case None
  have "map_of FORMATIONS ''4-4-2'' \<noteq> None" by (simp add: FORMATIONS_def)
  then obtain spots where "map_of FORMATIONS ''4-4-2'' = Some spots" by blast
  then show ?thesis
    using None formations_ok [OF map_of_SomeD] by (simp add: formation_spots_def)
next
  case (Some spots)
  then show ?thesis using formations_ok [OF map_of_SomeD] by (simp add: formation_spots_def)
qed

lemma spot_pos_half:
  assumes "spot_ok p"
  shows "side_dir s * fst (spot_pos s p) < 0" "in_area (spot_pos s p)"
proof -
  define u where "u = HALF_LENGTH - 10 - (1 - fst p) * (HALF_LENGTH - 14)"
  define v where "v = (snd p - 1 / 2) * (PITCH_WIDTH - 10)"
  have u: "7 \<le> u" "u \<le> 37" and v: "\<bar>v\<bar> \<le> 25"
    using assms
    by (auto simp: u_def v_def spot_ok_def pitch_consts abs_le_iff algebra_simps)
  have x: "fst (spot_pos s p) = round10 (- side_dir s * u)"
    and y: "snd (spot_pos s p) = round10 v"
    by (simp_all add: spot_pos_def Let_def u_def v_def)
  have ru: "- side_dir s * u - 1 / 20 \<le> round10 (- side_dir s * u)"
      "round10 (- side_dir s * u) \<le> - side_dir s * u + 1 / 20"
    and rv: "v - 1 / 20 \<le> round10 v" "round10 v \<le> v + 1 / 20"
    by (rule round10_bounds)+
  show "side_dir s * fst (spot_pos s p) < 0"
    using ru u unfolding x by (cases s) (auto simp: side_dir_def)
  show "in_area (spot_pos s p)"
    using ru rv u v unfolding in_area_def x y
    by (cases s) (auto simp: side_dir_def pitch_consts abs_le_iff)
qed

lemma dom_foldl_upd:
  "dom (foldl (\<lambda>m (obj, p). m(f obj \<mapsto> p)) m0 xs) = dom m0 \<union> (f \<circ> fst) ` set xs"
  by (induction xs arbitrary: m0) auto

lemma foldl_upd_range:
  "foldl (\<lambda>m (obj, p). m(f obj \<mapsto> p)) m0 xs i = Some q \<Longrightarrow> m0 i = Some q \<or> q \<in> snd ` set xs"
  by (induction xs arbitrary: m0) (fastforce split: if_splits)+

lemma formation_outfield:
  "x \<in> set (map (\<lambda>(i, n, spot). (mk_player (ids (Suc i)) t None n, spot_pos s spot))
              (enumerate 0 (formation_spots name))) \<Longrightarrow>
   \<exists>i n spot. x = (mk_player (ids (Suc i)) t None n, spot_pos s spot) \<and> i < 10 \<and> spot_ok spot"
proof -
  assume "x \<in> set (map (\<lambda>(i, n, spot). (mk_player (ids (Suc i)) t None n, spot_pos s spot))
              (enumerate 0 (formation_spots name)))"
  then obtain i n spot where
    x: "x = (mk_player (ids (Suc i)) t None n, spot_pos s spot)"
    and m: "(i, n, spot) \<in> set (enumerate 0 (formation_spots name))"
    by auto
  from m have i: "i < length (formation_spots name)" "formation_spots name ! i = (n, spot)"
    by (auto simp: in_set_enumerate_eq)
  then have "(n, spot) \<in> set (formation_spots name)" by (metis nth_mem)
  then have "spot_ok spot" using formation_spots_ok [of name] by (auto simp: list_all_iff)
  moreover from i formation_spots_ok [of name] have "i < 10" by simp
  ultimately show ?thesis using x by blast
qed

lemma formation_ids:
  "map obj_id (fst (formation ids name t s)) = map ids [0..<11]"
proof -
  have "map (\<lambda>x. obj_id (fst ((\<lambda>(i, n, spot). (mk_player (ids (Suc i)) t None n, spot_pos s spot)) x)))
      (enumerate k xs) = map (\<lambda>i. ids (Suc i)) [k..<k + length xs]" for k xs
    by (induction xs arbitrary: k) (auto simp: mk_player_def upt_rec)
  from this [of 0 "formation_spots name"] formation_spots_ok [of name]
  have "map (\<lambda>x. obj_id (fst ((\<lambda>(i, n, spot). (mk_player (ids (Suc i)) t None n, spot_pos s spot)) x)))
      (enumerate 0 (formation_spots name)) = map (\<lambda>i. ids (Suc i)) [0..<10]" by simp
  moreover have "map ids [0..<11] = ids 0 # map (\<lambda>i. ids (Suc i)) [0..<10]"
    by (simp add: upt_rec)
  ultimately show ?thesis
    by (simp add: formation_def Let_def mk_player_def comp_def case_prod_unfold)
qed

lemma formation_dom:
  "dom (snd (formation ids name t s)) = obj_id ` set (fst (formation ids name t s))"
  by (simp add: formation_def Let_def dom_foldl_upd mk_player_def image_comp)

text \<open>
  A formation is a whole team: eleven players of the chosen team with ids of their own, one of
  them a goalkeeper, every one placed, on the pitch and in the half the side defends.
\<close>
theorem formation_own_half:
  assumes ids: "inj ids" and f: "formation ids name t s = (objs, m)"
  shows "length objs = 11 \<and> distinct (map obj_id objs) \<and> length (filter is_keeper objs) = 1
    \<and> (\<forall>ob\<in>set objs. kind ob = PlayerKind \<and> team ob = Some t)
    \<and> dom m = obj_id ` set objs
    \<and> (\<forall>i p. m i = Some p \<longrightarrow> side_dir s * fst p < 0 \<and> in_area p)"
proof (intro conjI)
  let ?out = "map (\<lambda>(i, n, spot). (mk_player (ids (Suc i)) t None n, spot_pos s spot))
                (enumerate 0 (formation_spots name))"
  have objs: "objs = mk_player (ids 0) t (Some True) (Some ''1'') # map fst ?out"
    and m: "m = foldl (\<lambda>m (obj, p). m(obj_id obj \<mapsto> p))
              [ids 0 \<mapsto> (- side_dir s * (HALF_LENGTH - 4), 0)] ?out"
    using f by (auto simp: formation_def Let_def)
  have ids': "map obj_id objs = map ids [0..<11]"
    using formation_ids [of ids name t s] f by simp
  then show "distinct (map obj_id objs)"
    using ids by (simp add: distinct_map inj_def inj_on_def)
  show "length objs = 11"
    using arg_cong [OF ids', of length] by simp
  have out: "\<exists>i n spot. x = (mk_player (ids (Suc i)) t None n, spot_pos s spot) \<and> i < 10 \<and> spot_ok spot"
    if "x \<in> set ?out" for x
    using formation_outfield [OF that] .
  have "filter is_keeper (map fst ?out) = []"
    using out by (fastforce simp: filter_empty_conv is_keeper_def mk_player_def)
  then show "length (filter is_keeper objs) = 1"
    unfolding objs by (simp add: is_keeper_def mk_player_def)
  show "\<forall>ob\<in>set objs. kind ob = PlayerKind \<and> team ob = Some t"
    unfolding objs using out by (fastforce simp: mk_player_def)
  show "dom m = obj_id ` set objs"
    unfolding m objs dom_foldl_upd by (simp add: mk_player_def image_comp)
  show "\<forall>i p. m i = Some p \<longrightarrow> side_dir s * fst p < 0 \<and> in_area p"
  proof (intro allI impI)
    fix i p
    assume "m i = Some p"
    then have "p = (- side_dir s * (HALF_LENGTH - 4), 0) \<or> p \<in> snd ` set ?out"
      unfolding m by (auto dest!: foldl_upd_range split: if_splits)
    then show "side_dir s * fst p < 0 \<and> in_area p"
    proof
      assume "p = (- side_dir s * (HALF_LENGTH - 4), 0)"
      then show ?thesis
        by (cases s) (auto simp: side_dir_def pitch_consts in_area_def)
    next
      assume "p \<in> snd ` set ?out"
      then obtain x where "x \<in> set ?out" "p = snd x" by blast
      then obtain spot where "p = spot_pos s spot" "spot_ok spot"
        using out [of x] by auto
      then show ?thesis using spot_pos_half by simp
    qed
  qed
qed

theorem formation_own_half_witness:
  "inj (\<lambda>n. ''id'' @ nat_to_string n)
   \<and> length (fst (formation (\<lambda>n. ''id'' @ nat_to_string n) ''3-5-2'' Away RightSide)) = 11"
proof -
  let ?ids = "\<lambda>n. ''id'' @ nat_to_string n"
  have inj: "inj ?ids" by (rule injI) (auto dest: nat_to_string_inj)
  obtain objs m where f: "formation ?ids ''3-5-2'' Away RightSide = (objs, m)"
    by fastforce
  from formation_own_half [OF inj f] inj f show ?thesis by simp
qed

theorem positionAt_latest_witness:
  "(0::nat) < length (steps (emptyDoc ''s'')) \<and> positionAt (emptyDoc ''s'') 0 ''p'' = None"
  using positionAt_latest [of 0 "emptyDoc ''s''" "''p''"] by simp


theorem nextNumber_least_free_witness: "nextNumber (emptyDoc ''s'') Home = ''1''"
proof -
  have u: "used_numbers (emptyDoc ''s'') Home = []" by (simp add: used_numbers_def)
  obtain n where n: "1 \<le> n" "nextNumber (emptyDoc ''s'') Home = nat_to_string n"
      "\<forall>m. \<not> (1 \<le> m \<and> m < n)"
    using nextNumber_least_free [of "emptyDoc ''s''" Home] unfolding u
    by (metis empty_iff empty_set le_refl one_le_numeral one_less_numeral_iff semiring_norm(76))
  from n(3) [rule_format, of 1] n(1) have "n = 1" by simp
  with n(2) show ?thesis
    using digit_chars(2) by (simp add: nat_to_string_small)
qed

end
