(* ===== verification/Geometry.thy ===== *)
theory Geometry
  imports Board_Model
begin

text \<open>
  Plane geometry for strokes and paths: \<open>apps/frontend/src/app/features/tactics/board/geometry.ts\<close>.
  Every exported function is here under its own name (\<open>length\<close> as \<open>path_length\<close>).  The inner loop of
  \<open>resample\<close> need not stop for a spacing that is not positive, so it is a partial function; for a
  positive spacing it always returns (\<open>resample_even\<close>).  The locales \<open>easing\<close> and \<open>segment_path\<close> are
  what playback relies on; \<open>Playback\<close> interprets them on its own motion.
\<close>

section \<open>Points and curves\<close>

definition lerp :: "real \<Rightarrow> real \<Rightarrow> real \<Rightarrow> real" where
  "lerp a b t = a + (b - a) * t"

definition lerp2 :: "vec2 \<Rightarrow> vec2 \<Rightarrow> real \<Rightarrow> vec2" where
  "lerp2 a b t = (lerp (fst a) (fst b) t, lerp (snd a) (snd b) t)"

definition dist2 :: "vec2 \<Rightarrow> vec2 \<Rightarrow> real" where
  "dist2 a b = hypot (fst b - fst a) (snd b - snd a)"

definition quad :: "vec2 \<Rightarrow> vec2 \<Rightarrow> vec2 \<Rightarrow> real \<Rightarrow> vec2" where
  "quad a c b t =
     (let u = 1 - t in
      (u * u * fst a + 2 * u * t * fst c + t * t * fst b,
       u * u * snd a + 2 * u * t * snd c + t * t * snd b))"

definition controlThrough :: "vec2 \<Rightarrow> vec2 \<Rightarrow> vec2 \<Rightarrow> vec2" where
  "controlThrough a m b =
     (2 * fst m - (fst a + fst b) / 2, 2 * snd m - (snd a + snd b) / 2)"

definition curveMid :: "vec2 \<Rightarrow> vec2 \<Rightarrow> vec2 option \<Rightarrow> vec2" where
  "curveMid a b c = (case c of Some k \<Rightarrow> quad a k b (1 / 2) | None \<Rightarrow> lerp2 a b (1 / 2))"

definition sampleCurve :: "vec2 \<Rightarrow> vec2 \<Rightarrow> vec2 option \<Rightarrow> nat \<Rightarrow> vec2 list" where
  "sampleCurve a b c segments =
     (case c of None \<Rightarrow> [a, b]
      | Some k \<Rightarrow> map (\<lambda>i. quad a k b (real i / real segments)) [0..<Suc segments])"

fun path_length :: "vec2 list \<Rightarrow> real" where
  "path_length (a # b # ps) = dist2 a b + path_length (b # ps)"
| "path_length _ = 0"

section \<open>Resampling\<close>

text \<open>
  The body of the loop over segments: the \<open>while\<close> loop that pushes points \<open>t, t + spacing, \<dots>\<close> along
  one segment of length \<open>d\<close>, and the points pushed so far.
\<close>

partial_function (option) resample_seg ::
  "vec2 \<Rightarrow> vec2 \<Rightarrow> real \<Rightarrow> real \<Rightarrow> real \<Rightarrow> vec2 list \<Rightarrow> (vec2 list \<times> real) option" where
  "resample_seg a b d spacing t out =
     (if t \<le> d then resample_seg a b d spacing (t + spacing) (out @ [lerp2 a b (t / d)])
      else Some (out, d - (t - spacing)))"

fun resample_loop :: "vec2 list \<Rightarrow> real \<Rightarrow> real \<Rightarrow> vec2 list \<Rightarrow> vec2 list option" where
  "resample_loop (a # b # ps) spacing carry out =
     (case resample_seg a b (dist2 a b) spacing (spacing - carry) out of
        None \<Rightarrow> None
      | Some (out', carry') \<Rightarrow> resample_loop (b # ps) spacing carry' out')"
| "resample_loop _ spacing carry out = Some out"

definition resample :: "vec2 list \<Rightarrow> real \<Rightarrow> vec2 list option" where
  "resample pts spacing =
     (if length pts < 2 then Some pts
      else case resample_loop pts spacing 0 [hd pts] of
        None \<Rightarrow> None
      | Some out \<Rightarrow>
          Some (if dist2 (last out) (last pts) > 1 / 10 ^ 6 then out @ [last pts] else out))"

section \<open>Stroke styles\<close>

definition hypot_or_1 :: "real \<Rightarrow> real \<Rightarrow> real" where
  "hypot_or_1 dx dy = (if hypot dx dy = 0 then 1 else hypot dx dy)"

text \<open>\<open>travelled\<close> at index \<open>i\<close> is the length of the path up to \<open>i\<close>.\<close>

definition wave_point :: "vec2 list \<Rightarrow> real \<Rightarrow> real \<Rightarrow> nat \<Rightarrow> vec2" where
  "wave_point evn amplitude wavelength i =
     (let total = path_length evn;
          travelled = path_length (take (Suc i) evn);
          p = evn ! i;
          prev = evn ! (i - 1);
          nxt = evn ! min (length evn - 1) (i + 1);
          dx = fst nxt - fst prev;
          dy = snd nxt - snd prev;
          len = hypot_or_1 dx dy;
          envelope = min 1 (min (travelled / (15 / 10)) ((total - travelled) / (15 / 10)));
          offset = sin ((travelled / wavelength) * pi * 2) * amplitude * max 0 envelope
      in (fst p - (dy / len) * offset, snd p + (dx / len) * offset))"

definition wave :: "vec2 list \<Rightarrow> real \<Rightarrow> real \<Rightarrow> vec2 list option" where
  "wave pts amplitude wavelength =
     map_option (\<lambda>evn. map (wave_point evn amplitude wavelength) [0..<length evn])
       (resample pts (wavelength / 8))"

text \<open>JavaScript's remainder of non-negative numbers.\<close>

definition js_rem :: "real \<Rightarrow> real \<Rightarrow> real" where
  "js_rem x y = x - y * of_int \<lfloor>x / y\<rfloor>"

text \<open>The loop of \<open>dashes\<close>: the previous point, the distance travelled, the dash being drawn.\<close>

fun dash_loop ::
  "vec2 option \<Rightarrow> real \<Rightarrow> real \<Rightarrow> real \<Rightarrow> vec2 list \<Rightarrow> vec2 list \<Rightarrow> vec2 list list" where
  "dash_loop prev travelled dash_on period cur [] = (if length cur > 1 then [cur] else [])"
| "dash_loop prev travelled dash_on period cur (p # ps) =
     (let travelled' = (case prev of None \<Rightarrow> travelled | Some q \<Rightarrow> travelled + dist2 q p) in
      if js_rem travelled' period < dash_on
      then dash_loop (Some p) travelled' dash_on period (cur @ [p]) ps
      else (if length cur > 1 then [cur] else []) @ dash_loop (Some p) travelled' dash_on period [] ps)"

definition dashes :: "vec2 list \<Rightarrow> real \<Rightarrow> real \<Rightarrow> vec2 list list option" where
  "dashes pts on_len off_len =
     map_option (dash_loop None 0 on_len (on_len + off_len) []) (resample pts (2 / 10))"

fun chaikin :: "vec2 list \<Rightarrow> vec2 list" where
  "chaikin (a # b # ps) = lerp2 a b (25 / 100) # lerp2 a b (75 / 100) # chaikin (b # ps)"
| "chaikin _ = []"

fun smooth :: "nat \<Rightarrow> vec2 list \<Rightarrow> vec2 list" where
  "smooth 0 pts = pts"
| "smooth (Suc n) pts =
     (if length pts > 2 then smooth n (hd pts # chaikin pts @ [last pts]) else pts)"

fun thin_loop :: "real \<Rightarrow> vec2 \<Rightarrow> vec2 list \<Rightarrow> vec2 list" where
  "thin_loop m q [] = []"
| "thin_loop m q (p # ps) = (if dist2 q p \<ge> m then p # thin_loop m p ps else thin_loop m q ps)"

definition thin :: "vec2 list \<Rightarrow> real \<Rightarrow> vec2 list" where
  "thin pts m = (case pts of [] \<Rightarrow> [] | p # _ \<Rightarrow> p # thin_loop m p pts)"

definition ellipse :: "vec2 \<Rightarrow> vec2 \<Rightarrow> nat \<Rightarrow> vec2 list" where
  "ellipse a b segments =
     (let cx = (fst a + fst b) / 2; cy = (snd a + snd b) / 2;
          rx = \<bar>fst b - fst a\<bar> / 2; ry = \<bar>snd b - snd a\<bar> / 2
      in map (\<lambda>i. let t = (real i / real segments) * pi * 2 in (cx + cos t * rx, cy + sin t * ry))
           [0..<Suc segments])"

definition rect :: "vec2 \<Rightarrow> vec2 \<Rightarrow> vec2 list" where
  "rect a b = [a, (fst b, snd a), b, (fst a, snd b), a]"

section \<open>Hit testing\<close>

definition seg_param :: "vec2 \<Rightarrow> vec2 \<Rightarrow> vec2 \<Rightarrow> real" where
  "seg_param p a b =
     (let dx = fst b - fst a; dy = snd b - snd a; len2 = dx * dx + dy * dy in
      if len2 \<noteq> 0 then max 0 (min 1 (((fst p - fst a) * dx + (snd p - snd a) * dy) / len2)) else 0)"

definition distToSegment :: "vec2 \<Rightarrow> vec2 \<Rightarrow> vec2 \<Rightarrow> real" where
  "distToSegment p a b =
     (let t = seg_param p a b in
      dist2 p (fst a + t * (fst b - fst a), snd a + t * (snd b - snd a)))"

text \<open>\<open>None\<close> stands for \<open>Infinity\<close>, the distance to an empty polyline.\<close>

fun min_opt :: "real option \<Rightarrow> real \<Rightarrow> real option" where
  "min_opt None d = Some d"
| "min_opt (Some m) d = Some (min m d)"

fun polyline_loop :: "vec2 \<Rightarrow> real option \<Rightarrow> vec2 list \<Rightarrow> real option" where
  "polyline_loop p best (a # b # ps) = polyline_loop p (min_opt best (distToSegment p a b)) (b # ps)"
| "polyline_loop p best _ = best"

definition distToPolyline :: "vec2 \<Rightarrow> vec2 list \<Rightarrow> real option" where
  "distToPolyline p pts =
     (let best = polyline_loop p None pts in
      case pts of [q] \<Rightarrow> Some (dist2 p q) | _ \<Rightarrow> best)"

definition crosses :: "vec2 \<Rightarrow> vec2 \<Rightarrow> vec2 \<Rightarrow> bool" where
  "crosses p i j \<longleftrightarrow>
     (snd i > snd p) \<noteq> (snd j > snd p)
     \<and> fst p < ((fst j - fst i) * (snd p - snd i)) / (snd j - snd i) + fst i"

fun inside_loop :: "vec2 \<Rightarrow> bool \<Rightarrow> vec2 \<Rightarrow> vec2 list \<Rightarrow> bool" where
  "inside_loop p ins j [] = ins"
| "inside_loop p ins j (i # ps) = inside_loop p (if crosses p i j then \<not> ins else ins) i ps"

definition insidePolygon :: "vec2 \<Rightarrow> vec2 list \<Rightarrow> bool" where
  "insidePolygon p poly = (if poly = [] then False else inside_loop p False (last poly) poly)"

definition easeInOut :: "real \<Rightarrow> real" where
  "easeInOut t = - (cos (pi * t) - 1) / 2"

definition easeOut :: "real \<Rightarrow> real" where
  "easeOut t = 1 - (1 - t) * (1 - t)"

section \<open>The contracts playback relies on\<close>

text \<open>An easing starts at 0, ends at 1 and stays between the two.\<close>

locale easing =
  fixes e :: "real \<Rightarrow> real"
  assumes e_start: "e 0 = 0"
    and e_end: "e 1 = 1"
    and e_range: "0 \<le> t \<Longrightarrow> t \<le> 1 \<Longrightarrow> 0 \<le> e t \<and> e t \<le> 1"

text \<open>A path from \<open>a\<close> to \<open>b\<close> that stays in the box of its control points.\<close>

definition in_box :: "vec2 \<Rightarrow> vec2 \<Rightarrow> vec2 \<Rightarrow> bool" where
  "in_box lo hi p \<longleftrightarrow> fst lo \<le> fst p \<and> fst p \<le> fst hi \<and> snd lo \<le> snd p \<and> snd p \<le> snd hi"

locale segment_path =
  fixes path :: "real \<Rightarrow> vec2" and a b :: vec2 and box :: "vec2 \<Rightarrow> bool"
  assumes path_start: "path 0 = a"
    and path_end: "path 1 = b"
    and path_box: "0 \<le> t \<Longrightarrow> t \<le> 1 \<Longrightarrow> box (path t)"

locale eased_path = easing e + segment_path path a b box
  for e :: "real \<Rightarrow> real" and path :: "real \<Rightarrow> vec2" and a b :: vec2 and box :: "vec2 \<Rightarrow> bool"
begin

lemma eased_start: "path (e 0) = a"
  by (simp add: e_start path_start)

lemma eased_end: "path (e 1) = b"
  by (simp add: e_end path_end)

lemma eased_box: "0 \<le> t \<Longrightarrow> t \<le> 1 \<Longrightarrow> box (path (e t))"
  using e_range by (intro path_box) auto

end

interpretation ease_in_out: easing easeInOut
  by unfold_locales (auto simp: easeInOut_def)

interpretation ease_out: easing easeOut
proof
  fix t :: real
  assume "0 \<le> t" "t \<le> 1"
  then have "0 \<le> (1 - t) * (1 - t)" "(1 - t) * (1 - t) \<le> 1"
    by (auto intro: mult_le_one)
  then show "0 \<le> easeOut t \<and> easeOut t \<le> 1" by (simp add: easeOut_def)
qed (auto simp: easeOut_def)

section \<open>What the functions compute\<close>

lemma hypot_nonneg [simp]: "0 \<le> hypot x y"
  by (simp add: hypot_def)

lemma hypot_0 [simp]: "hypot 0 0 = 0"
  by (simp add: hypot_def)

lemma dist2_nonneg [simp]: "0 \<le> dist2 a b"
  by (simp add: dist2_def)

lemma dist2_self [simp]: "dist2 a a = 0"
  by (simp add: dist2_def)

lemma path_length_nonneg [simp]: "0 \<le> path_length ps"
  by (induction ps rule: path_length.induct) auto

lemma quad_ends [simp]: "quad a c b 0 = a" "quad a c b 1 = b"
  by (simp_all add: quad_def)

lemma lerp2_ends [simp]: "lerp2 a b 0 = a" "lerp2 a b 1 = b"
  by (simp_all add: lerp2_def lerp_def)

text \<open>
  The handle of a bent path lies on the curve: the curve through the control point computed for
  a handle position \<open>m\<close> passes through \<open>m\<close> at its middle, and its ends stay where they were.
\<close>
theorem curve_through_handle:
  "curveMid a b (Some (controlThrough a m b)) = m
   \<and> quad a (controlThrough a m b) b 0 = a \<and> quad a (controlThrough a m b) b 1 = b"
  by (cases m) (simp add: curveMid_def quad_def controlThrough_def field_simps)

subsection \<open>Distance to a segment\<close>

lemma sq_dist_at:
  "(dist2 p (fst a + t * (fst b - fst a), snd a + t * (snd b - snd a)))\<^sup>2 =
   (fst a + t * (fst b - fst a) - fst p)\<^sup>2 + (snd a + t * (snd b - snd a) - snd p)\<^sup>2"
  by (simp add: dist2_def hypot_def)

lemma quadratic_clamped_min:
  fixes q r :: real
  assumes q: "0 < q" and t: "t = max 0 (min 1 (r / q))" and u: "0 \<le> u" "u \<le> 1"
  shows "t * t * q - 2 * t * r \<le> u * u * q - 2 * u * r"
proof -
  define s where "s = r / q"
  have r: "r = s * q" using q by (simp add: s_def)
  have "(t - s)\<^sup>2 \<le> (u - s)\<^sup>2"
    using t u unfolding s_def [symmetric]
    by (intro abs_le_square_iff [THEN iffD1]) (auto simp: min_def max_def)
  then have "q * (t - s)\<^sup>2 \<le> q * (u - s)\<^sup>2" using q by simp
  then show ?thesis unfolding r by (simp add: power2_eq_square algebra_simps)
qed

lemma seg_param_range: "0 \<le> seg_param p a b \<and> seg_param p a b \<le> 1"
  by (simp add: seg_param_def Let_def)

text \<open>
  \<open>distToSegment\<close> is the distance to the nearest point of the segment: no point of the segment is
  nearer, and the distance is that of a point of the segment.
\<close>
theorem distToSegment_minimal:
  "(\<forall>u. 0 \<le> u \<and> u \<le> 1 \<longrightarrow> distToSegment p a b \<le> dist2 p (lerp2 a b u))
   \<and> (\<exists>u. 0 \<le> u \<and> u \<le> 1 \<and> distToSegment p a b = dist2 p (lerp2 a b u))"
proof (intro conjI allI impI)
  have lerp: "lerp2 a b u = (fst a + u * (fst b - fst a), snd a + u * (snd b - snd a))" for u
    by (simp add: lerp2_def lerp_def mult.commute)
  let ?t = "seg_param p a b"
  have t: "distToSegment p a b = dist2 p (lerp2 a b ?t)"
    by (simp add: distToSegment_def lerp Let_def)
  then show "\<exists>u. 0 \<le> u \<and> u \<le> 1 \<and> distToSegment p a b = dist2 p (lerp2 a b u)"
    using seg_param_range by blast
  fix u :: real
  assume u: "0 \<le> u \<and> u \<le> 1"
  define dx dy where "dx = fst b - fst a" and "dy = snd b - snd a"
  define ex ey where "ex = fst p - fst a" and "ey = snd p - snd a"
  have sq: "(dist2 p (lerp2 a b v))\<^sup>2 =
      (v * v * (dx * dx + dy * dy) - 2 * v * (ex * dx + ey * dy)) + (ex * ex + ey * ey)" for v
    unfolding lerp sq_dist_at dx_def dy_def ex_def ey_def
    by (simp add: power2_eq_square algebra_simps)
  have "(dist2 p (lerp2 a b ?t))\<^sup>2 \<le> (dist2 p (lerp2 a b u))\<^sup>2"
  proof (cases "dx * dx + dy * dy = 0")
    case True
    then have "dx = 0" "dy = 0" by (auto simp: sum_squares_eq_zero_iff)
    then show ?thesis unfolding sq by simp
  next
    case False
    then have "0 < dx * dx + dy * dy"
      by (simp add: add_nonneg_nonneg order.not_eq_order_implies_strict)
    moreover have "?t = max 0 (min 1 ((ex * dx + ey * dy) / (dx * dx + dy * dy)))"
      using False by (simp add: seg_param_def dx_def dy_def ex_def ey_def Let_def)
    ultimately show ?thesis
      unfolding sq using quadratic_clamped_min u by simp
  qed
  then show "distToSegment p a b \<le> dist2 p (lerp2 a b u)"
    unfolding t by (simp add: power2_le_iff_abs_le)
qed

theorem distToSegment_minimal_witness:
  "distToSegment (1, 2) (0, 0) (2, 0) \<le> dist2 (1, 2) (lerp2 (0, 0) (2, 0) (1 / 4))"
  using distToSegment_minimal [of "(1, 2)" "(0, 0)" "(2, 0)"] by simp

subsection \<open>Resampling\<close>

lemma resample_seg_run:
  assumes "0 < spacing"
  shows "d - t < real n * spacing \<Longrightarrow>
    \<exists>m xs. resample_seg a b d spacing t out = Some (out @ xs, d - t - (real m - 1) * spacing)
      \<and> length xs = m \<and> d < t + real m * spacing
      \<and> (0 < m \<longrightarrow> t + (real m - 1) * spacing \<le> d)"
proof (induction n arbitrary: t out)
  case 0
  then have "\<not> t \<le> d" by simp
  then show ?case
    by (intro exI [of _ 0] exI [of _ "[]"]) (simp add: resample_seg.simps [of a b d spacing t])
next
  case (Suc n)
  show ?case
  proof (cases "t \<le> d")
    case False
    then show ?thesis
      by (intro exI [of _ 0] exI [of _ "[]"]) (simp add: resample_seg.simps [of a b d spacing t])
  next
    case True
    have "d - (t + spacing) < real n * spacing"
      using Suc.prems by (simp add: algebra_simps)
    from Suc.IH [OF this, of "out @ [lerp2 a b (t / d)]"] obtain m xs where
      m: "resample_seg a b d spacing (t + spacing) (out @ [lerp2 a b (t / d)]) =
            Some (out @ [lerp2 a b (t / d)] @ xs, d - (t + spacing) - (real m - 1) * spacing)"
         "length xs = m" "d < t + spacing + real m * spacing"
      by auto
    have "\<not> 0 < m \<or> t + spacing + (real m - 1) * spacing \<le> d"
      using Suc.IH [OF \<open>d - (t + spacing) < real n * spacing\<close>, of "out @ [lerp2 a b (t / d)]"] m
      by auto
    then have "t + real m * spacing \<le> d"
      using True by (cases m) (auto simp: algebra_simps)
    then show ?thesis
      using m True assms
      by (intro exI [of _ "Suc m"] exI [of _ "lerp2 a b (t / d) # xs"])
        (simp add: resample_seg.simps [of a b d spacing t] algebra_simps)
  qed
qed

lemma resample_seg_total:
  assumes "0 < spacing" "0 \<le> carry" "carry < spacing" "0 \<le> d"
  shows "\<exists>xs carry'. resample_seg a b d spacing (spacing - carry) out = Some (out @ xs, carry')
    \<and> 0 \<le> carry' \<and> carry' < spacing \<and> real (length xs) * spacing + carry' = carry + d"
proof -
  obtain n where "(d - (spacing - carry)) / spacing < real n"
    using reals_Archimedean2 by blast
  then have "d - (spacing - carry) < real n * spacing"
    using assms by (simp add: field_simps)
  from resample_seg_run [OF assms(1) this, of a b out] obtain m xs where
    m: "resample_seg a b d spacing (spacing - carry) out =
          Some (out @ xs, d - (spacing - carry) - (real m - 1) * spacing)"
       "length xs = m" "d < spacing - carry + real m * spacing"
       "0 < m \<longrightarrow> spacing - carry + (real m - 1) * spacing \<le> d"
    by blast
  then have "0 \<le> carry + d - real m * spacing" "carry + d - real m * spacing < spacing"
    using assms by (cases "m = 0"; auto simp: algebra_simps)+
  with m show ?thesis
    by (intro exI [of _ xs] exI [of _ "carry + d - real m * spacing"]) (auto simp: algebra_simps)
qed

lemma resample_loop_total:
  assumes "0 < spacing"
  shows "0 \<le> carry \<Longrightarrow> carry < spacing \<Longrightarrow>
    \<exists>xs carry'. resample_loop pts spacing carry out = Some (out @ xs)
      \<and> 0 \<le> carry' \<and> carry' < spacing
      \<and> real (length xs) * spacing + carry' = carry + path_length pts"
proof (induction pts spacing carry out rule: resample_loop.induct)
  case (1 a b ps spacing carry out)
  obtain xs c where x: "resample_seg a b (dist2 a b) spacing (spacing - carry) out = Some (out @ xs, c)"
      "0 \<le> c" "c < spacing" "real (length xs) * spacing + c = carry + dist2 a b"
    using resample_seg_total [of spacing carry "dist2 a b" a b out] "1.prems" by auto
  from "1.IH" [OF x(1) refl x(2,3)] obtain ys c' where
    "resample_loop (b # ps) spacing c (out @ xs) = Some ((out @ xs) @ ys)" "0 \<le> c'" "c' < spacing"
    "real (length ys) * spacing + c' = c + path_length (b # ps)"
    by blast
  with x show ?case
    by (intro exI [of _ "xs @ ys"] exI [of _ c']) (simp add: algebra_simps)
qed auto

text \<open>
  For a positive spacing \<open>resample\<close> returns; the result starts at the first point, ends within a
  millionth of the last one, and has one point per spacing travelled: as many as fit into the length
  of the path, the first, and at most the end point besides.
\<close>
theorem resample_even:
  assumes sp: "0 < spacing" and len: "2 \<le> length pts"
  shows "\<exists>out. resample pts spacing = Some out \<and> hd out = hd pts
    \<and> dist2 (last out) (last pts) \<le> 1 / 10 ^ 6
    \<and> (length out = nat \<lfloor>path_length pts / spacing\<rfloor> + 1
       \<or> length out = nat \<lfloor>path_length pts / spacing\<rfloor> + 2)"
proof -
  obtain xs c where x: "resample_loop pts spacing 0 [hd pts] = Some ([hd pts] @ xs)"
      "0 \<le> c" "c < spacing" "real (length xs) * spacing + c = path_length pts"
    using resample_loop_total [OF sp, of 0 pts "[hd pts]"] sp by auto
  have "path_length pts / spacing = real (length xs) + c / spacing"
    using x(4) sp by (simp add: field_simps)
  moreover have "0 \<le> c / spacing" "c / spacing < 1" using x sp by auto
  ultimately have "\<lfloor>path_length pts / spacing\<rfloor> = int (length xs)" by linarith
  then show ?thesis
    using x(1) len by (auto simp: resample_def)
qed

theorem resample_even_witness:
  "\<exists>out. resample [(0, 0), (10, 0)] 1 = Some out \<and> hd out = (0, 0)"
  using resample_even [of 1 "[(0, 0), (10, 0)]"] by auto

subsection \<open>Smoothing and thinning\<close>

lemma lerp2_in_box:
  assumes "in_box lo hi a" "in_box lo hi b" "0 \<le> t" "t \<le> 1"
  shows "in_box lo hi (lerp2 a b t)"
proof -
  have aux: "l \<le> x + (y - x) * t \<and> x + (y - x) * t \<le> h"
    if "l \<le> x" "x \<le> h" "l \<le> y" "y \<le> h" for l h x y :: real
  proof -
    have "x + (y - x) * t = (1 - t) * x + t * y" by (simp add: algebra_simps)
    moreover have "(1 - t) * l + t * l \<le> (1 - t) * x + t * y"
      using that assms by (intro add_mono mult_left_mono) auto
    moreover have "(1 - t) * x + t * y \<le> (1 - t) * h + t * h"
      using that assms by (intro add_mono mult_left_mono) auto
    moreover have "(1 - t) * l + t * l = l" "(1 - t) * h + t * h = h"
      by (simp_all add: algebra_simps)
    ultimately show ?thesis by simp
  qed
  show ?thesis
    using aux [of "fst lo" "fst a" "fst hi" "fst b"] aux [of "snd lo" "snd a" "snd hi" "snd b"] assms
    by (simp add: in_box_def lerp2_def lerp_def)
qed

lemma quad_in_box:
  assumes "in_box lo hi a" "in_box lo hi c" "in_box lo hi b" "0 \<le> t" "t \<le> 1"
  shows "in_box lo hi (quad a c b t)"
proof -
  have "quad a c b t = lerp2 (lerp2 a c t) (lerp2 c b t) t"
    by (simp add: quad_def lerp2_def lerp_def Let_def algebra_simps)
  then show ?thesis using assms by (simp add: lerp2_in_box)
qed

lemma length_chaikin: "length (chaikin ps) = 2 * (length ps - 1)"
  by (induction ps rule: chaikin.induct) auto

lemma chaikin_in_box: "list_all (in_box lo hi) ps \<Longrightarrow> list_all (in_box lo hi) (chaikin ps)"
  by (induction ps rule: chaikin.induct) (auto simp: lerp2_in_box)

text \<open>
  Smoothing keeps a stroke in place: the first and the last point are kept, no point leaves a box
  that holds the stroke, and \<open>n\<close> passes over a stroke of more than two points multiply its points
  by \<open>2 ^ n\<close>.
\<close>
theorem smooth_keeps_stroke:
  assumes "2 < length pts" and "list_all (in_box lo hi) pts"
  shows "hd (smooth n pts) = hd pts \<and> last (smooth n pts) = last pts
    \<and> list_all (in_box lo hi) (smooth n pts) \<and> length (smooth n pts) = 2 ^ n * length pts"
  using assms
proof (induction n arbitrary: pts)
  case 0
  then show ?case by simp
next
  case (Suc n)
  let ?q = "hd pts # chaikin pts @ [last pts]"
  from Suc.prems have ne: "pts \<noteq> []" by auto
  have l: "length ?q = 2 * length pts" using Suc.prems by (simp add: length_chaikin)
  have b: "list_all (in_box lo hi) ?q"
    using Suc.prems ne by (simp add: chaikin_in_box) (simp add: list_all_iff)
  have "2 < length ?q" unfolding l using Suc.prems by simp
  have ih: "hd (smooth n ?q) = hd pts" "last (smooth n ?q) = last pts"
      "list_all (in_box lo hi) (smooth n ?q)" "length (smooth n ?q) = 2 ^ n * (2 * length pts)"
    using Suc.IH [OF \<open>2 < length ?q\<close> b] unfolding l by simp_all
  have "smooth (Suc n) pts = smooth n ?q" using Suc.prems(1) by simp
  then show ?case using ih by simp
qed

theorem smooth_keeps_stroke_witness:
  "length (smooth 2 [(0, 0), (1, 0), (1, 1)]) = 12"
  using smooth_keeps_stroke [of "[(0, 0), (1, 0), (1, 1)]" "(0, 0)" "(1, 1)" 2]
  by (simp add: in_box_def)

fun spaced :: "real \<Rightarrow> vec2 list \<Rightarrow> bool" where
  "spaced m (a # b # ps) \<longleftrightarrow> m \<le> dist2 a b \<and> spaced m (b # ps)"
| "spaced m _ \<longleftrightarrow> True"

lemma thin_loop_spaced: "spaced m (q # thin_loop m q ps)"
  by (induction ps arbitrary: q) auto

lemma thin_loop_subset: "set (thin_loop m q ps) \<subseteq> set ps"
  by (induction ps arbitrary: q) auto

lemma thin_spaced: "spaced m (thin pts m)"
  by (simp add: thin_def thin_loop_spaced split: list.split)

lemma thin_subset: "set (thin pts m) \<subseteq> set pts"
  using thin_loop_subset [of m "hd pts" pts] by (auto simp: thin_def split: list.splits)

lemma hd_thin [simp]: "pts \<noteq> [] \<Longrightarrow> hd (thin pts m) = hd pts"
  by (simp add: thin_def split: list.split)

lemma length_thin: "0 < m \<Longrightarrow> length (thin pts m) \<le> length pts"
proof -
  have aux: "length (thin_loop m q ps) \<le> length ps" for q ps
    by (induction ps arbitrary: q) (auto simp: le_SucI)
  assume "0 < m"
  then show ?thesis
    using aux [of "hd pts" "tl pts"] by (auto simp: thin_def split: list.splits)
qed

subsection \<open>Rectangles\<close>

text \<open>
  Hit-testing a rectangle drawn from corner to corner, in whichever direction: a point strictly
  inside the box is inside, and a point strictly outside of it is not.
\<close>
theorem insidePolygon_rect:
  assumes "fst a \<noteq> fst b" "snd a \<noteq> snd b"
    and x: "fst p \<noteq> fst a" "fst p \<noteq> fst b" and y: "snd p \<noteq> snd a" "snd p \<noteq> snd b"
  shows "insidePolygon p (rect a b) \<longleftrightarrow>
    min (fst a) (fst b) < fst p \<and> fst p < max (fst a) (fst b)
    \<and> min (snd a) (snd b) < snd p \<and> snd p < max (snd a) (snd b)"
proof -
  have c: "crosses p (fst a, snd b) a \<longleftrightarrow> (snd b > snd p) \<noteq> (snd a > snd p) \<and> fst p < fst a"
    "crosses p b (fst b, snd a) \<longleftrightarrow> (snd b > snd p) \<noteq> (snd a > snd p) \<and> fst p < fst b"
    "crosses p a a = False" "crosses p (fst b, snd a) a = False"
    "crosses p (fst a, snd b) b = False"
    "crosses p a (fst a, snd b) \<longleftrightarrow> (snd b > snd p) \<noteq> (snd a > snd p) \<and> fst p < fst a"
    by (auto simp: crosses_def)
  show ?thesis
    unfolding insidePolygon_def rect_def
    using assms by (simp add: c) (auto simp: min_def max_def)
qed

theorem insidePolygon_rect_witness:
  "insidePolygon (1, 1) (rect (4, 3) (0, 0)) \<and> \<not> insidePolygon (5, 1) (rect (4, 3) (0, 0))"
  using insidePolygon_rect [of "(4, 3)" "(0, 0)" "(1, 1)"]
    insidePolygon_rect [of "(4, 3)" "(0, 0)" "(5, 1)"] by simp

end
