(* ===== verification/Playback.thy ===== *)
theory Playback
  imports Geometry
begin

text \<open>
  Turning a board's steps into motion: \<open>apps/frontend/src/app/features/tactics/board/playback.ts\<close>
  (\<open>timeline\<close>, \<open>frameAt\<close>, \<open>still\<close>, \<open>stepAtTime\<close>) and the clock of
  \<open>apps/frontend/src/app/features/tactics/board/player.ts\<close> (\<open>BoardPlayer\<close>).  Recording to a video file
  is browser input and output and is not modelled.
\<close>

section \<open>The timeline\<close>

datatype segment_kind = HoldSeg | MoveSeg

record segment =
  seg_kind :: segment_kind
  seg_step :: nat
  seg_start :: real
  seg_end :: real

record timeline =
  segments :: "segment list"
  total :: real
  stepStarts :: "real list"

definition move_time :: "step \<Rightarrow> real" where
  "move_time s = max (1 / 10) (duration s)"

definition hold_time :: "step \<Rightarrow> real" where
  "hold_time s = max 0 (hold s)"

fun timeline_loop :: "nat \<Rightarrow> real \<Rightarrow> step list \<Rightarrow> segment list \<times> real list \<times> real" where
  "timeline_loop i t [] = ([], [], t)"
| "timeline_loop i t (s # ss) =
     (let t1 = (if i > 0 then t + move_time s else t);
          moves = (if i > 0 then [\<lparr>seg_kind = MoveSeg, seg_step = i, seg_start = t, seg_end = t1\<rparr>] else []);
          t2 = t1 + hold_time s;
          (segs, starts, tot) = timeline_loop (Suc i) t2 ss
      in (moves @ \<lparr>seg_kind = HoldSeg, seg_step = i, seg_start = t1, seg_end = t2\<rparr> # segs,
          t1 # starts, tot))"

definition timeline :: "tactic_doc \<Rightarrow> timeline" where
  "timeline doc =
     (let (segs, starts, tot) = timeline_loop 0 0 (steps doc)
      in \<lparr>segments = segs, total = tot, stepStarts = starts\<rparr>)"

section \<open>Frames\<close>

record placement =
  px :: real
  py :: real
  ph :: real
  appear :: real
  heading :: "real option"

record frame =
  frame_step :: nat
  placements :: "ident \<rightharpoonup> placement"
  frame_drawings :: "drawing list"
  drawingOpacity :: real
  highlights :: "ident list"
  frame_note :: string

definition standing_placement :: "vec2 \<Rightarrow> placement" where
  "standing_placement p = \<lparr>px = fst p, py = snd p, ph = 0, appear = 1, heading = None\<rparr>"

text \<open>A \<open>Map\<close> filled by a loop over the objects.\<close>

definition place_all ::
  "(board_object \<Rightarrow> placement option) \<Rightarrow> board_object list \<Rightarrow> (ident \<rightharpoonup> placement)" where
  "place_all f objs =
     foldl (\<lambda>m ob. case f ob of Some p \<Rightarrow> m(obj_id ob \<mapsto> p) | None \<Rightarrow> m) Map.empty objs"

definition still :: "tactic_doc \<Rightarrow> int \<Rightarrow> (ident \<rightharpoonup> placement)" where
  "still doc stepIndex =
     place_all (\<lambda>ob. map_option standing_placement (positionAt doc stepIndex (obj_id ob))) (objects doc)"

definition atan2 :: "real \<Rightarrow> real \<Rightarrow> real" where
  "atan2 y x =
     (if x > 0 then arctan (y / x)
      else if x < 0 then (if y \<ge> 0 then arctan (y / x) + pi else arctan (y / x) - pi)
      else if y > 0 then pi / 2 else if y < 0 then - (pi / 2) else 0)"

definition ease_of :: "board_object \<Rightarrow> real \<Rightarrow> real" where
  "ease_of ob = (if kind ob = Equip Ball then easeOut else easeInOut)"

text \<open>The path into a step: bent if the step bends it, straight otherwise.\<close>

definition travel :: "vec2 \<Rightarrow> vec2 \<Rightarrow> vec2 option \<Rightarrow> real \<Rightarrow> vec2" where
  "travel from to bnd e = (case bnd of Some c \<Rightarrow> quad from c to e | None \<Rightarrow> lerp2 from to e)"

definition loft :: "vec2 \<Rightarrow> vec2 \<Rightarrow> real \<Rightarrow> real" where
  "loft from to p = (let peak = min 14 (dist2 from to * (22 / 100)) in 4 * peak * p * (1 - p))"

definition lookup_opt :: "(ident \<rightharpoonup> 'a) option \<Rightarrow> ident \<Rightarrow> 'a option" where
  "lookup_opt m i = (case m of None \<Rightarrow> None | Some f \<Rightarrow> f i)"

definition includes_opt :: "ident list option \<Rightarrow> ident \<Rightarrow> bool" where
  "includes_opt xs i = (case xs of None \<Rightarrow> False | Some ys \<Rightarrow> i \<in> set ys)"

definition list_or_empty :: "'a list option \<Rightarrow> 'a list" where
  "list_or_empty xs = (case xs of None \<Rightarrow> [] | Some ys \<Rightarrow> ys)"

definition moving_placement ::
  "tactic_doc \<Rightarrow> nat \<Rightarrow> step \<Rightarrow> real \<Rightarrow> board_object \<Rightarrow> placement option" where
  "moving_placement doc into target p ob =
     (case positionAt doc (int into) (obj_id ob) of
        None \<Rightarrow> None
      | Some to \<Rightarrow>
          (case positionAt doc (int into - 1) (obj_id ob) of
             None \<Rightarrow> Some \<lparr>px = fst to, py = snd to, ph = 0, appear = easeOut p, heading = None\<rparr>
           | Some from \<Rightarrow>
               (let e = ease_of ob p;
                    bnd = lookup_opt (bend target) (obj_id ob);
                    spot = travel from to bnd e;
                    h = (if includes_opt (air target) (obj_id ob) then loft from to p else 0);
                    ahead = (case bnd of Some c \<Rightarrow> quad from c to (min 1 (e + 2 / 100)) | None \<Rightarrow> to);
                    moving = (dist2 spot ahead > 1 / 10 ^ 4)
                in Some \<lparr>px = fst spot, py = snd spot, ph = h, appear = 1,
                     heading = (if moving
                       then Some (atan2 (snd ahead - snd spot) (fst ahead - fst spot)) else None)\<rparr>)))"

definition seg_at :: "timeline \<Rightarrow> real \<Rightarrow> segment option" where
  "seg_at line t =
     foldl (\<lambda>acc s. if seg_start s \<le> t + 1 / 10 ^ 9 then Some s else acc) None (segments line)"

definition hold_frame :: "tactic_doc \<Rightarrow> nat \<Rightarrow> real \<Rightarrow> frame" where
  "hold_frame doc k elapsed =
     (let s = nth_opt (steps doc) (int k) in
      \<lparr>frame_step = k, placements = still doc (int k),
       frame_drawings = (case s of Some st \<Rightarrow> drawings st | None \<Rightarrow> []),
       drawingOpacity = (if k = 0 then 1 else min 1 (elapsed / (3 / 10))),
       highlights = (case s of Some st \<Rightarrow> list_or_empty (highlight st) | None \<Rightarrow> []),
       frame_note = (case s of Some st \<Rightarrow> caption st | None \<Rightarrow> '''')\<rparr>)"

definition move_frame :: "tactic_doc \<Rightarrow> nat \<Rightarrow> step \<Rightarrow> real \<Rightarrow> frame" where
  "move_frame doc into target p =
     \<lparr>frame_step = into - 1,
      placements = place_all (moving_placement doc into target p) (objects doc),
      frame_drawings =
        (case nth_opt (steps doc) (int into - 1) of Some st \<Rightarrow> drawings st | None \<Rightarrow> []),
      drawingOpacity = 1 - easeInOut p,
      highlights = list_or_empty (highlight target),
      frame_note = caption target\<rparr>"

definition frameAt :: "tactic_doc \<Rightarrow> timeline \<Rightarrow> real \<Rightarrow> js_error + frame" where
  "frameAt doc line time =
     (let t = max 0 (min (total line) time) in
      case seg_at line t of
        None \<Rightarrow> Inr (hold_frame doc 0 0)
      | Some seg \<Rightarrow>
          (case seg_kind seg of
             HoldSeg \<Rightarrow> Inr (hold_frame doc (seg_step seg) (t - seg_start seg))
           | MoveSeg \<Rightarrow>
               (case nth_opt (steps doc) (int (seg_step seg)) of
                  None \<Rightarrow> Inl TypeError
                | Some target \<Rightarrow>
                    Inr (move_frame doc (seg_step seg) target
                           ((t - seg_start seg) / (seg_end seg - seg_start seg))))))"

definition stepAtTime :: "timeline \<Rightarrow> real \<Rightarrow> nat" where
  "stepAtTime line time =
     foldl (\<lambda>current (i, start). if time \<ge> start - 1 / 10 ^ 6 then i else current) 0
       (enumerate 0 (stepStarts line))"

section \<open>The clock\<close>

record board_player =
  ptime :: real
  playing :: bool
  speed :: real
  looping :: bool
  endedAt :: real

definition new_player :: board_player where
  "new_player = \<lparr>ptime = 0, playing = False, speed = 1, looping = False, endedAt = -1\<rparr>"

definition atEnd :: "timeline \<Rightarrow> board_player \<Rightarrow> bool" where
  "atEnd line b \<longleftrightarrow> ptime b \<ge> total line - 1 / 10 ^ 3"

definition finished :: "board_player \<Rightarrow> bool" where
  "finished b \<longleftrightarrow> \<not> playing b \<and> endedAt b \<ge> 0 \<and> ptime b = endedAt b"

definition tick :: "timeline \<Rightarrow> real \<Rightarrow> board_player \<Rightarrow> board_player" where
  "tick line dt b =
     (if \<not> playing b then b
      else let nxt = ptime b + dt * speed b in
        if nxt \<ge> total line
        then (if looping b \<and> total line > 0 then b\<lparr>ptime := 0\<rparr>
              else b\<lparr>ptime := total line, endedAt := total line, playing := False\<rparr>)
        else b\<lparr>ptime := nxt\<rparr>)"

definition play :: "timeline \<Rightarrow> board_player \<Rightarrow> board_player" where
  "play line b = (if atEnd line b then b\<lparr>ptime := 0\<rparr> else b)\<lparr>playing := True\<rparr>"

definition pause :: "board_player \<Rightarrow> board_player" where
  "pause b = b\<lparr>playing := False\<rparr>"

definition toggle :: "timeline \<Rightarrow> board_player \<Rightarrow> board_player" where
  "toggle line b = (if playing b then pause b else play line b)"

definition restart :: "board_player \<Rightarrow> board_player" where
  "restart b = b\<lparr>ptime := 0, playing := True\<rparr>"

definition dismissFinished :: "board_player \<Rightarrow> board_player" where
  "dismissFinished b = b\<lparr>endedAt := -1\<rparr>"

definition seek :: "timeline \<Rightarrow> real \<Rightarrow> board_player \<Rightarrow> board_player" where
  "seek line time b = b\<lparr>ptime := max 0 (min (total line) time)\<rparr>"

definition seekStep :: "timeline \<Rightarrow> int \<Rightarrow> board_player \<Rightarrow> board_player" where
  "seekStep line k b =
     (let starts = stepStarts line;
          i = max 0 (min (int (length starts) - 1) k)
      in seek line (case nth_opt starts i of Some t \<Rightarrow> t | None \<Rightarrow> 0) b)"

lemmas player_defs = tick_def play_def pause_def toggle_def restart_def dismissFinished_def
  seek_def seekStep_def Let_def

section \<open>The timeline in closed form\<close>

text \<open>When step \<open>k\<close> is reached, and when its pause is over.\<close>

fun reach :: "step list \<Rightarrow> nat \<Rightarrow> real" and leave :: "step list \<Rightarrow> nat \<Rightarrow> real" where
  "reach ss 0 = 0"
| "reach ss (Suc k) = leave ss k + move_time (ss ! Suc k)"
| "leave ss k = reach ss k + hold_time (ss ! k)"

declare leave.simps [simp del]

definition move_seg :: "step list \<Rightarrow> nat \<Rightarrow> segment" where
  "move_seg ss k =
     \<lparr>seg_kind = MoveSeg, seg_step = k, seg_start = leave ss (k - 1), seg_end = reach ss k\<rparr>"

definition hold_seg :: "step list \<Rightarrow> nat \<Rightarrow> segment" where
  "hold_seg ss k =
     \<lparr>seg_kind = HoldSeg, seg_step = k, seg_start = reach ss k, seg_end = leave ss k\<rparr>"

definition seg_block :: "step list \<Rightarrow> nat \<Rightarrow> segment list" where
  "seg_block ss k = (if k > 0 then [move_seg ss k] else []) @ [hold_seg ss k]"

definition end_before :: "step list \<Rightarrow> nat \<Rightarrow> real" where
  "end_before ss k = (if k = 0 then 0 else leave ss (k - 1))"

lemma hold_time_nonneg [simp]: "0 \<le> hold_time s"
  by (simp add: hold_time_def)

lemma move_time_lower [simp]: "1 / 10 \<le> move_time s"
  by (simp add: move_time_def)

lemma timeline_loop_closed:
  "drop i all = ss \<Longrightarrow> i \<le> length all \<Longrightarrow>
   timeline_loop i (end_before all i) ss =
     (concat (map (seg_block all) [i..<length all]), map (reach all) [i..<length all],
      end_before all (length all))"
proof (induction ss arbitrary: i)
  case Nil
  then show ?case by simp
next
  case (Cons s ss)
  then have i: "i < length all" by (metis drop_all list.distinct(1) not_le_imp_less)
  have s: "all ! i = s" and ss: "drop (Suc i) all = ss"
    using Cons.prems i by (auto simp: Cons_nth_drop_Suc [symmetric])
  have t1: "(if i > 0 then end_before all i + move_time s else end_before all i) = reach all i"
    using s by (cases i) (auto simp: end_before_def)
  have t2: "reach all i + hold_time s = end_before all (Suc i)"
    by (simp add: end_before_def leave.simps s)
  then have r: "reach all i + hold_time s = leave all i" by (simp add: end_before_def)
  have ih: "timeline_loop (Suc i) (leave all i) ss =
      (concat (map (seg_block all) [Suc i..<length all]), map (reach all) [Suc i..<length all],
       end_before all (length all))"
    using Cons.IH [OF ss] i by (simp add: end_before_def)
  have b: "(if i > 0 then [\<lparr>seg_kind = MoveSeg, seg_step = i, seg_start = end_before all i,
        seg_end = reach all i\<rparr>] else []) @
      [\<lparr>seg_kind = HoldSeg, seg_step = i, seg_start = reach all i, seg_end = leave all i\<rparr>] = seg_block all i"
    by (simp add: seg_block_def move_seg_def hold_seg_def end_before_def)
  show ?case
    unfolding timeline_loop.simps t1 Let_def r ih upt_conv_Cons [OF i]
    by (simp add: b [symmetric])
qed

lemma timeline_closed:
  "segments (timeline doc) = concat (map (seg_block (steps doc)) [0..<length (steps doc)])"
  "stepStarts (timeline doc) = map (reach (steps doc)) [0..<length (steps doc)]"
  "total (timeline doc) = end_before (steps doc) (length (steps doc))"
  using timeline_loop_closed [of 0 "steps doc" "steps doc"]
  by (simp_all add: timeline_def end_before_def)

lemma leave_step: "leave ss k + 1 / 10 \<le> leave ss (Suc k)"
  using move_time_lower [of "ss ! Suc k"] hold_time_nonneg [of "ss ! Suc k"]
  unfolding leave.simps [of ss "Suc k"] reach.simps by linarith

lemma reach_le_leave: "reach ss k \<le> leave ss k"
  by (simp add: leave.simps)

lemma leave_less_reach: "i < j \<Longrightarrow> leave ss i + 1 / 10 \<le> reach ss j"
proof (induction j)
  case 0
  then show ?case by simp
next
  case (Suc j)
  show ?case
  proof (cases "i = j")
    case True
    then show ?thesis using move_time_lower [of "ss ! Suc j"] by simp
  next
    case False
    then have "leave ss i + 1 / 10 \<le> reach ss j" using Suc by simp
    also have "reach ss j \<le> leave ss j" by (rule reach_le_leave)
    also have "\<dots> \<le> reach ss (Suc j)" using move_time_lower [of "ss ! Suc j"] by simp
    finally show ?thesis .
  qed
qed

lemma leave_mono: "i \<le> j \<Longrightarrow> leave ss i \<le> leave ss j"
  using leave_less_reach [of i j ss] reach_le_leave [of ss j] by (cases "i = j") auto

lemma reach_gap: "i < j \<Longrightarrow> reach ss i + 1 / 10 \<le> reach ss j"
  using leave_less_reach [of i j ss] reach_le_leave [of ss i] by simp

lemma reach_nonneg: "0 \<le> reach ss k"
  using reach_gap [of 0 k ss] by (cases k) auto

lemma reach_le_total: "k < length (steps doc) \<Longrightarrow> reach (steps doc) k \<le> total (timeline doc)"
proof -
  assume k: "k < length (steps doc)"
  then have "leave (steps doc) k \<le> leave (steps doc) (length (steps doc) - 1)"
    by (intro leave_mono) simp
  with reach_le_leave [of "steps doc" k] have
    "reach (steps doc) k \<le> leave (steps doc) (length (steps doc) - 1)" by simp
  with k show ?thesis by (auto simp: timeline_closed end_before_def)
qed

lemma total_nonneg: "0 \<le> total (timeline doc)"
  using reach_le_total [of 0 doc] by (cases "steps doc") (auto simp: timeline_closed end_before_def)

text \<open>
  The timeline lays the steps out without gap or overlap: for every step but the first the move
  into it, of at least a tenth of a second, starts where the previous pause ended, then its pause;
  the ticks are the moments the steps are reached, at least a tenth of a second apart, and the total
  is the end of the last pause.
\<close>
theorem timeline_contiguous:
  "segments (timeline doc) = concat (map (seg_block (steps doc)) [0..<length (steps doc)])
   \<and> stepStarts (timeline doc) = map (reach (steps doc)) [0..<length (steps doc)]
   \<and> total (timeline doc) = end_before (steps doc) (length (steps doc))
   \<and> (\<forall>i j. i < j \<longrightarrow> reach (steps doc) i + 1 / 10 \<le> reach (steps doc) j)"
  using timeline_closed reach_gap by simp

theorem timeline_contiguous_witness:
  "stepStarts (timeline ((emptyDoc ''a'')\<lparr>steps := [newStep ''a'', newStep ''b'']\<rparr>))
     = [reach [newStep ''a'', newStep ''b''] 0, reach [newStep ''a'', newStep ''b''] 1]"
  using timeline_contiguous [of "(emptyDoc ''a'')\<lparr>steps := [newStep ''a'', newStep ''b'']\<rparr>"]
  by (simp add: upt_rec)

section \<open>Which step, which segment\<close>

lemma foldl_last_index:
  assumes "k < length xs" "P (xs ! k)" "\<And>j. k < j \<Longrightarrow> j < length xs \<Longrightarrow> \<not> P (xs ! j)"
  shows "foldl (\<lambda>c (i, x). if P x then i else c) c0 (enumerate 0 xs) = k"
  using assms
proof (induction xs rule: rev_induct)
  case Nil
  then show ?case by simp
next
  case (snoc x xs)
  show ?case
  proof (cases "k = length xs")
    case True
    with snoc.prems show ?thesis by (simp add: enumerate_append_eq)
  next
    case False
    with snoc.prems have k: "k < length xs" by simp
    have "\<not> P x" using snoc.prems(3) [of "length xs"] k by simp
    moreover have "\<not> P (xs ! j)" if "k < j" "j < length xs" for j
      using snoc.prems(3) [of j] that by (simp add: nth_append)
    then have "foldl (\<lambda>c (i, x). if P x then i else c) c0 (enumerate 0 xs) = k"
      using snoc.prems(2) k by (intro snoc.IH) (auto simp: nth_append)
    ultimately show ?thesis by (simp add: enumerate_append_eq)
  qed
qed

text \<open>
  The scrubber and the clock agree: jumping to a step puts the clock at a moment at which that
  step is the current one.
\<close>
theorem stepAtTime_seekStep:
  assumes k: "k < length (steps doc)"
  shows "stepAtTime (timeline doc) (ptime (seekStep (timeline doc) (int k) b)) = k"
proof -
  let ?line = "timeline doc" and ?xs = "stepStarts (timeline doc)"
  have n: "length ?xs = length (steps doc)" by (simp add: timeline_closed)
  have "ptime (seekStep ?line (int k) b) = max 0 (min (total ?line) (reach (steps doc) k))"
    using k by (auto simp: seekStep_def seek_def n nth_opt_def timeline_closed Let_def)
  also have "\<dots> = reach (steps doc) k"
    using reach_nonneg [of "steps doc" k] reach_le_total [OF k] by simp
  finally have t: "ptime (seekStep ?line (int k) b) = reach (steps doc) k" .
  show ?thesis
    unfolding stepAtTime_def t
  proof (rule foldl_last_index)
    show "k < length ?xs" using k n by simp
    show "reach (steps doc) k \<ge> ?xs ! k - 1 / 10 ^ 6" using k by (simp add: timeline_closed)
    fix j assume "k < j" "j < length ?xs"
    then show "\<not> reach (steps doc) k \<ge> ?xs ! j - 1 / 10 ^ 6"
      using reach_gap [of k j "steps doc"] n by (simp add: timeline_closed)
  qed
qed

theorem stepAtTime_seekStep_witness:
  "stepAtTime (timeline (emptyDoc ''a'')) (ptime (seekStep (timeline (emptyDoc ''a'')) 0 new_player)) = 0"
  using stepAtTime_seekStep [of 0 "emptyDoc ''a''" new_player] by simp

lemma seg_at_split:
  assumes "segments line = A @ s # B" "seg_start s \<le> t + 1 / 10 ^ 9"
    and "\<And>b. b \<in> set B \<Longrightarrow> \<not> seg_start b \<le> t + 1 / 10 ^ 9"
  shows "seg_at line t = Some s"
proof -
  have "foldl (\<lambda>acc s. if seg_start s \<le> t + 1 / 10 ^ 9 then Some s else acc) acc B = acc" for acc
    using assms(3) by (induction B) auto
  then show ?thesis using assms(1,2) by (simp add: seg_at_def)
qed

lemma upt_split3: "k < n \<Longrightarrow> [0..<n] = [0..<k] @ k # [Suc k..<n]"
proof -
  assume k: "k < n"
  have "[0..<k + (n - k)] = [0..<k] @ [k..<k + (n - k)]"
    by (rule upt_add_eq_append) simp
  then show ?thesis using k by (simp add: upt_conv_Cons)
qed

lemma seg_block_starts:
  "s \<in> set (seg_block ss j) \<Longrightarrow> k < j \<Longrightarrow> leave ss k \<le> seg_start s"
  using leave_mono [of k "j - 1" ss] leave_less_reach [of k j ss]
  by (auto simp: seg_block_def move_seg_def hold_seg_def split: if_splits)

lemma seg_block_starts_late:
  "s \<in> set (seg_block ss j) \<Longrightarrow> Suc k < j \<Longrightarrow> leave ss k + 1 / 10 \<le> seg_start s"
  using seg_block_starts [of s ss j "Suc k"] leave_step [of ss k] by simp

text \<open>While a step is held, its hold is the segment shown; while it is moved into, its move is.\<close>

lemma seg_at_hold:
  assumes k: "k < length (steps doc)" and t: "reach (steps doc) k \<le> t + 1 / 10 ^ 9"
    and u: "Suc k < length (steps doc) \<Longrightarrow> t + 1 / 10 ^ 9 < leave (steps doc) k"
  shows "seg_at (timeline doc) t = Some (hold_seg (steps doc) k)"
proof (rule seg_at_split)
  let ?ss = "steps doc"
  show "segments (timeline doc) =
      (concat (map (seg_block ?ss) [0..<k]) @ (if k > 0 then [move_seg ?ss k] else []))
      @ hold_seg ?ss k # concat (map (seg_block ?ss) [Suc k..<length ?ss])"
    unfolding timeline_closed upt_split3 [OF k] by (simp add: seg_block_def)
  show "seg_start (hold_seg ?ss k) \<le> t + 1 / 10 ^ 9" using t by (simp add: hold_seg_def)
  fix b assume "b \<in> set (concat (map (seg_block ?ss) [Suc k..<length ?ss]))"
  then obtain j where "k < j" "j < length ?ss" "b \<in> set (seg_block ?ss j)"
    by (auto simp: Suc_le_eq)
  then show "\<not> seg_start b \<le> t + 1 / 10 ^ 9"
    using seg_block_starts [of b ?ss j k] u by simp
qed

lemma seg_at_move:
  assumes k: "Suc k < length (steps doc)" and t: "leave (steps doc) k \<le> t + 1 / 10 ^ 9"
    and u: "t + 1 / 10 ^ 9 < reach (steps doc) (Suc k)"
  shows "seg_at (timeline doc) t = Some (move_seg (steps doc) (Suc k))"
proof (rule seg_at_split)
  let ?ss = "steps doc"
  show "segments (timeline doc) = concat (map (seg_block ?ss) [0..<Suc k])
      @ move_seg ?ss (Suc k) # hold_seg ?ss (Suc k)
        # concat (map (seg_block ?ss) [Suc (Suc k)..<length ?ss])"
    unfolding timeline_closed upt_split3 [OF k] by (simp add: seg_block_def)
  show "seg_start (move_seg ?ss (Suc k)) \<le> t + 1 / 10 ^ 9" using t by (simp add: move_seg_def)
  fix b assume "b \<in> set (hold_seg ?ss (Suc k) # concat (map (seg_block ?ss) [Suc (Suc k)..<length ?ss]))"
  then have "b = hold_seg ?ss (Suc k) \<or> (\<exists>j>Suc k. b \<in> set (seg_block ?ss j))" by auto
  then show "\<not> seg_start b \<le> t + 1 / 10 ^ 9"
    using u seg_block_starts [of b ?ss _ "Suc k"] reach_le_leave [of ?ss "Suc k"]
    by (auto simp: hold_seg_def) (meson le_less_trans less_le_trans not_less)
qed

section \<open>What a frame shows\<close>

lemma place_all_Some:
  "place_all f objs i = Some p \<Longrightarrow> \<exists>ob\<in>set objs. obj_id ob = i \<and> f ob = Some p"
proof -
  have "foldl (\<lambda>m ob. case f ob of Some p \<Rightarrow> m(obj_id ob \<mapsto> p) | None \<Rightarrow> m) m0 objs i = Some p \<Longrightarrow>
      m0 i = Some p \<or> (\<exists>ob\<in>set objs. obj_id ob = i \<and> f ob = Some p)" for m0
    by (induction objs arbitrary: m0) (fastforce split: option.splits if_splits)+
  then show "place_all f objs i = Some p \<Longrightarrow> ?thesis" unfolding place_all_def by fastforce
qed

lemma place_all_ex:
  assumes "ob \<in> set objs" "f ob \<noteq> None"
  shows "place_all f objs (obj_id ob) \<noteq> None"
proof -
  have keep: "m0 i \<noteq> None \<Longrightarrow>
      foldl (\<lambda>m ob. case f ob of Some p \<Rightarrow> m(obj_id ob \<mapsto> p) | None \<Rightarrow> m) m0 os i \<noteq> None" for m0 os i
    by (induction os arbitrary: m0) (auto split: option.splits)
  have "foldl (\<lambda>m ob. case f ob of Some p \<Rightarrow> m(obj_id ob \<mapsto> p) | None \<Rightarrow> m) m0 objs (obj_id ob) \<noteq> None" for m0
    using assms(1)
  proof (induction objs arbitrary: m0)
    case Nil
    then show ?case by simp
  next
    case (Cons x xs)
    show ?case
    proof (cases "x = ob")
      case True
      obtain y where "f ob = Some y" using assms(2) by blast
      with True have "foldl (\<lambda>m ob. case f ob of Some p \<Rightarrow> m(obj_id ob \<mapsto> p) | None \<Rightarrow> m) m0 (x # xs) =
          foldl (\<lambda>m ob. case f ob of Some p \<Rightarrow> m(obj_id ob \<mapsto> p) | None \<Rightarrow> m) (m0(obj_id ob \<mapsto> y)) xs"
        by simp
      then show ?thesis using keep [of "m0(obj_id ob \<mapsto> y)" "obj_id ob" xs] by simp
    next
      case False
      with Cons show ?thesis by simp
    qed
  qed
  then show ?thesis by (simp add: place_all_def)
qed

lemma still_eq:
  "still doc k i = (if i \<in> object_ids doc then map_option standing_placement (positionAt doc k i) else None)"
proof (cases "still doc k i")
  case (Some p)
  then show ?thesis
    by (auto simp: still_def object_ids_def dest!: place_all_Some)
next
  case None
  have "positionAt doc k (obj_id ob) = None" if "ob \<in> set (objects doc)" "i = obj_id ob" for ob
  proof (rule ccontr)
    assume "positionAt doc k (obj_id ob) \<noteq> None"
    then have "still doc k (obj_id ob) \<noteq> None"
      unfolding still_def using that(1) by (intro place_all_ex) auto
    with None that show False by simp
  qed
  then show ?thesis using None by (auto simp: object_ids_def)
qed

text \<open>The motion of an object satisfies the contract of an eased path.\<close>

lemma easing_ease_of: "easing (ease_of ob)"
  using ease_in_out.easing_axioms ease_out.easing_axioms by (simp add: ease_of_def)

lemma segment_path_travel:
  "in_box lo hi from \<Longrightarrow> in_box lo hi to \<Longrightarrow> (\<And>c. bnd = Some c \<Longrightarrow> in_box lo hi c) \<Longrightarrow>
   segment_path (travel from to bnd) from to (in_box lo hi)"
  by (cases bnd; unfold_locales) (auto simp: travel_def lerp2_in_box quad_in_box)

interpretation motion: eased_path "ease_of ob" "travel from to bnd" "from" "to" "\<lambda>_. True"
  for ob "from" to bnd
proof -
  have "segment_path (travel from to bnd) from to (\<lambda>_. True)"
    by (cases bnd; unfold_locales) (auto simp: travel_def)
  then show "eased_path (ease_of ob) (travel from to bnd) from to (\<lambda>_. True)"
    by (simp add: eased_path_def easing_ease_of)
qed

lemma loft_bounds: "0 \<le> p \<Longrightarrow> p \<le> 1 \<Longrightarrow> 0 \<le> loft from to p \<and> loft from to p \<le> 14"
proof -
  assume p: "0 \<le> p" "p \<le> 1"
  let ?peak = "min 14 (dist2 from to * (22 / 100))"
  have peak: "0 \<le> ?peak" "?peak \<le> 14" by auto
  have q: "0 \<le> 4 * p * (1 - p)" using p by simp
  have "0 \<le> (2 * p - 1)\<^sup>2" by simp
  then have q1: "4 * p * (1 - p) \<le> 1" by (simp add: power2_eq_square algebra_simps)
  have l: "loft from to p = ?peak * (4 * p * (1 - p))" by (simp add: loft_def Let_def)
  have "?peak * (4 * p * (1 - p)) \<le> 14 * 1"
    using peak q q1 by (intro mult_mono) auto
  then show ?thesis unfolding l using peak(1) q by simp
qed

lemma frameAt_hold:
  "seg_at line (max 0 (min (total line) t)) = Some s \<Longrightarrow> seg_kind s = HoldSeg \<Longrightarrow>
   frameAt doc line t = Inr (hold_frame doc (seg_step s) (max 0 (min (total line) t) - seg_start s))"
  by (simp add: frameAt_def Let_def)

lemma frameAt_move:
  "seg_at line (max 0 (min (total line) t)) = Some s \<Longrightarrow> seg_kind s = MoveSeg \<Longrightarrow>
   nth_opt (steps doc) (int (seg_step s)) = Some target \<Longrightarrow>
   frameAt doc line t = Inr (move_frame doc (seg_step s) target
     ((max 0 (min (total line) t) - seg_start s) / (seg_end s - seg_start s)))"
  by (simp add: frameAt_def Let_def)

lemma moving_placement_start:
  assumes "moving_placement doc (Suc k) target 0 ob = Some pl"
    and "positionAt doc (int k) (obj_id ob) = Some q"
  shows "px pl = fst q \<and> py pl = snd q \<and> ph pl = 0"
proof -
  have "travel q to bnd (ease_of ob 0) = q" for to bnd
    by (rule motion.eased_start)
  then show ?thesis
    using assms by (auto simp: moving_placement_def Let_def loft_def split: option.splits)
qed

text \<open>
  At the moment a step is reached the board shows that step: the frame is labelled with it, and
  every object standing at that step is drawn on the grass exactly where it stands there.  (A pause is
  assumed to be absent or longer than the code's tolerance of a billionth of a second.)
\<close>
theorem frame_at_step_reached:
  assumes k: "k < length (steps doc)"
    and h: "hold (steps doc ! k) \<le> 0 \<or> hold (steps doc ! k) > 1 / 10 ^ 9"
  shows "\<exists>f. frameAt doc (timeline doc) (stepStarts (timeline doc) ! k) = Inr f \<and> frame_step f = k
    \<and> (\<forall>i p. i \<in> object_ids doc \<and> positionAt doc (int k) i = Some p \<longrightarrow>
         (\<exists>pl. placements f i = Some pl \<and> px pl = fst p \<and> py pl = snd p \<and> ph pl = 0))"
proof -
  let ?ss = "steps doc" and ?line = "timeline doc"
  have t: "stepStarts ?line ! k = reach ?ss k" using k by (simp add: timeline_closed)
  have c: "max 0 (min (total ?line) (reach ?ss k)) = reach ?ss k"
    using reach_nonneg [of ?ss k] reach_le_total [OF k] by simp
  show ?thesis
  proof (cases "Suc k < length ?ss \<and> hold (?ss ! k) \<le> 0")
    case False
    have "seg_at ?line (reach ?ss k) = Some (hold_seg ?ss k)"
      using False h by (intro seg_at_hold [OF k]) (auto simp: leave.simps hold_time_def)
    then have "frameAt doc ?line (reach ?ss k) = Inr (hold_frame doc k 0)"
      using frameAt_hold [of ?line "reach ?ss k" _ doc] c by (simp add: hold_seg_def)
    then show ?thesis
      unfolding t by (simp add: hold_frame_def Let_def still_eq standing_placement_def)
  next
    case True
    then have sk: "Suc k < length ?ss" and l: "leave ?ss k = reach ?ss k"
      by (auto simp: leave.simps hold_time_def)
    have "seg_at ?line (reach ?ss k) = Some (move_seg ?ss (Suc k))"
      using leave_less_reach [of k "Suc k" ?ss] l by (intro seg_at_move [OF sk]) auto
    then have f: "frameAt doc ?line (reach ?ss k) = Inr (move_frame doc (Suc k) (?ss ! Suc k) 0)"
      using frameAt_move [of ?line "reach ?ss k" _ doc "?ss ! Suc k"] c sk l
      by (simp add: move_seg_def)
    have "\<exists>pl. place_all (moving_placement doc (Suc k) (?ss ! Suc k) 0) (objects doc) i = Some pl
        \<and> px pl = fst p \<and> py pl = snd p \<and> ph pl = 0"
      if i: "i \<in> object_ids doc" and p: "positionAt doc (int k) i = Some p" for i p
    proof -
      obtain ob where ob: "ob \<in> set (objects doc)" "i = obj_id ob" using i by (auto simp: object_ids_def)
      have "positionAt doc (int (Suc k)) i \<noteq> None"
        using board.at_appeared_stays [of k "Suc k" doc i] sk p by simp
      then have "moving_placement doc (Suc k) (?ss ! Suc k) 0 ob \<noteq> None"
        using ob p by (auto simp: moving_placement_def Let_def split: option.splits)
      from place_all_ex [of ob "objects doc" "moving_placement doc (Suc k) (?ss ! Suc k) 0", OF ob(1) this]
      obtain pl where
        pl: "place_all (moving_placement doc (Suc k) (?ss ! Suc k) 0) (objects doc) i = Some pl"
        using ob by auto
      then obtain ob' where "obj_id ob' = i" "moving_placement doc (Suc k) (?ss ! Suc k) 0 ob' = Some pl"
        by (auto dest: place_all_Some)
      with moving_placement_start [of doc k "?ss ! Suc k" ob' pl p] p pl show ?thesis by auto
    qed
    then show ?thesis unfolding t f by (simp add: move_frame_def del: split_paired_All)
  qed
qed

theorem frame_at_step_reached_witness:
  "\<exists>f. frameAt (emptyDoc ''a'') (timeline (emptyDoc ''a'')) (stepStarts (timeline (emptyDoc ''a'')) ! 0)
     = Inr f \<and> frame_step f = 0"
  using frame_at_step_reached [of 0 "emptyDoc ''a''"] by (auto simp: newStep_def)

text \<open>A step that puts one player down, for the witness below.\<close>

definition put_at :: "vec2 \<Rightarrow> ident \<Rightarrow> step" where
  "put_at p nid = (newStep nid)\<lparr>pos := [''p'' \<mapsto> p]\<rparr>"


section \<open>The clock\<close>

datatype player_event =
    Tick real | PlayEv | PauseEv | ToggleEv | RestartEv | DismissEv | Seek real | SeekStep int

fun player_step :: "timeline \<Rightarrow> board_player \<Rightarrow> player_event \<Rightarrow> board_player" where
  "player_step line b (Tick dt) = tick line dt b"
| "player_step line b PlayEv = play line b"
| "player_step line b PauseEv = pause b"
| "player_step line b ToggleEv = toggle line b"
| "player_step line b RestartEv = restart b"
| "player_step line b DismissEv = dismissFinished b"
| "player_step line b (Seek t) = seek line t b"
| "player_step line b (SeekStep k) = seekStep line k b"

definition on_timeline :: "timeline \<Rightarrow> board_player \<Rightarrow> bool" where
  "on_timeline line b \<longleftrightarrow> 0 \<le> ptime b \<and> ptime b \<le> total line \<and> 0 \<le> speed b"

fun forward :: "player_event \<Rightarrow> bool" where
  "forward (Tick dt) \<longleftrightarrow> 0 \<le> dt"
| "forward _ \<longleftrightarrow> True"

lemma player_step_on_timeline:
  "0 \<le> total line \<Longrightarrow> forward ev \<Longrightarrow> on_timeline line b \<Longrightarrow> on_timeline line (player_step line b ev)"
  by (cases ev) (auto simp: on_timeline_def player_defs min_def max_def)


text \<open>
  Whatever is pressed, scrubbed or played, the clock of a board stays on its timeline.
\<close>
theorem clock_on_timeline:
  assumes "on_timeline (timeline doc) b" and "list_all forward evs"
  shows "on_timeline (timeline doc) (foldl (player_step (timeline doc)) b evs)"
  using assms
proof (induction evs arbitrary: b)
  case Nil
  then show ?case by simp
next
  case (Cons ev evs)
  then show ?case using player_step_on_timeline [OF total_nonneg] by simp
qed

theorem clock_on_timeline_witness:
  "on_timeline (timeline (emptyDoc ''a''))
     (foldl (player_step (timeline (emptyDoc ''a''))) new_player [PlayEv, Tick (1 / 10), Seek 7])"
  by (rule clock_on_timeline) (simp_all add: on_timeline_def new_player_def total_nonneg)

text \<open>A play-through: ticks of a fixed length, one per animation frame.\<close>

lemma tick_run_before_end:
  assumes "playing b" "ptime b + real n * (dt * speed b) < total line" "0 \<le> dt * speed b"
  shows "(tick line dt ^^ n) b = b\<lparr>ptime := ptime b + real n * (dt * speed b)\<rparr>"
  using assms
proof (induction n)
  case 0
  then show ?case by simp
next
  case (Suc n)
  then have "ptime b + real n * (dt * speed b) < total line" by (simp add: algebra_simps)
  with Suc show ?case by (simp add: tick_def Let_def algebra_simps)
qed

lemma tick_stopped: "\<not> playing b \<Longrightarrow> (tick line dt ^^ n) b = b"
  by (induction n) (auto simp: tick_def)

text \<open>
  A play-through that is not looping ends: after enough frames the clock stands at the end of
  the timeline, playing has stopped and the replay is offered; and it stays so.
\<close>
theorem play_through_ends:
  assumes b: "playing b" "\<not> looping b" "0 \<le> ptime b" "0 < dt * speed b"
    and n: "total (timeline doc) \<le> ptime b + real n * (dt * speed b)" "0 < n"
  shows "ptime ((tick (timeline doc) dt ^^ n) b) = total (timeline doc)
    \<and> \<not> playing ((tick (timeline doc) dt ^^ n) b) \<and> finished ((tick (timeline doc) dt ^^ n) b)"
proof -
  let ?line = "timeline doc" and ?d = "dt * speed b"
  define P where "P m \<longleftrightarrow> total ?line \<le> ptime b + real (Suc m) * ?d" for m
  define m where "m = (LEAST m. P m)"
  obtain n' where n': "n = Suc n'" using n(2) by (cases n) auto
  then have P: "P n'" using n(1) by (simp add: P_def)
  have "P m" unfolding m_def using P by (rule LeastI)
  then have m: "total ?line \<le> ptime b + real (Suc m) * ?d" by (simp add: P_def)
  have mn: "m \<le> n'" unfolding m_def using P by (rule Least_le)
  let ?fin = "b\<lparr>ptime := total ?line, endedAt := total ?line, playing := False\<rparr>"
  have "(tick ?line dt ^^ Suc m) b = ?fin"
  proof (cases m)
    case 0
    then show ?thesis using m b by (simp add: tick_def Let_def)
  next
    case (Suc l)
    then have "\<not> total ?line \<le> ptime b + real (Suc l) * ?d"
      using not_less_Least [of l P] m_def by (simp add: P_def)
    then have "(tick ?line dt ^^ m) b = b\<lparr>ptime := ptime b + real m * ?d\<rparr>"
      using b Suc by (intro tick_run_before_end) auto
    then show ?thesis using m b by (simp add: tick_def Let_def algebra_simps)
  qed
  moreover have "n = (n' - m) + Suc m" using mn n' by simp
  ultimately have "(tick ?line dt ^^ n) b = (tick ?line dt ^^ (n' - m)) ?fin"
    by (metis comp_apply funpow_add)
  also have "\<dots> = ?fin" by (rule tick_stopped) simp
  finally show ?thesis using total_nonneg [of doc] by (simp add: finished_def)
qed

theorem play_through_ends_witness:
  "finished ((tick (timeline (emptyDoc ''a'')) (1 / 10) ^^ 10) (new_player\<lparr>playing := True\<rparr>))"
proof -
  let ?b = "new_player\<lparr>playing := True\<rparr>"
  have "total (timeline (emptyDoc ''a'')) = 6 / 10"
    by (simp add: timeline_closed end_before_def leave.simps newStep_def hold_time_def)
  then have "playing ?b" "\<not> looping ?b" "0 \<le> ptime ?b" "0 < 1 / 10 * speed ?b"
    "total (timeline (emptyDoc ''a'')) \<le> ptime ?b + real 10 * (1 / 10 * speed ?b)"
    by (simp_all add: new_player_def)
  from play_through_ends [OF this] show ?thesis by simp
qed

text \<open>
  The replay offer comes back: after a finished play-through, scrubbing away and back to the end
  makes \<open>finished\<close> true again, although the clock has been moved since.
\<close>
theorem replay_offered_after_scrub:
  "finished b \<and> endedAt b = total (timeline doc) \<longrightarrow>
   finished (seek (timeline doc) (total (timeline doc)) (seek (timeline doc) 0 b))"
  using total_nonneg [of doc] by (auto simp: finished_def seek_def)

theorem replay_offered_after_scrub_witness:
  "finished (seek (timeline (emptyDoc ''a'')) (total (timeline (emptyDoc ''a'')))
     (seek (timeline (emptyDoc ''a'')) 0
        (tick (timeline (emptyDoc ''a'')) 1 (new_player\<lparr>playing := True\<rparr>))))"
proof -
  have t: "total (timeline (emptyDoc ''a'')) = 6 / 10"
    by (simp add: timeline_closed end_before_def leave.simps newStep_def hold_time_def)
  have "finished (tick (timeline (emptyDoc ''a'')) 1 (new_player\<lparr>playing := True\<rparr>))
      \<and> endedAt (tick (timeline (emptyDoc ''a'')) 1 (new_player\<lparr>playing := True\<rparr>)) = total (timeline (emptyDoc ''a''))"
    by (simp add: tick_def t new_player_def finished_def Let_def)
  then show ?thesis using replay_offered_after_scrub by blast
qed

end
