(* ===== verification/Editor_Store.thy ===== *)
theory Editor_Store
  imports Playback
begin

text \<open>
  The state of the tactics editor and every operation on it:
  \<open>apps/frontend/src/app/features/tactics/editor/editor-store.ts\<close> (\<open>EditorStore\<close>).

  The signals of the store are the fields of one record and an operation returns the new record.  An
  operation that reads a property of \<open>undefined\<close> on some state raises, so its result is a sum;
  \<open>Editor_History\<close> shows that none raises on a well-formed store.  Ids drawn by \<open>newId\<close> are arguments.
  A \<open>Partial\<close> patch is the list of the fields it sets, for the fields the inspector and the toolbar set.
\<close>

section \<open>The state\<close>

datatype target = OnObject ident | OnDrawing ident
datatype tool = SelectTool | PlaceTool | DrawTool drawing_kind
datatype placeable = PlacePlayer team_id "bool option" | PlaceEquip equipment_kind

record pen =
  pen_color :: string
  pen_style :: stroke_style
  pen_width :: real

definition HISTORY_LIMIT :: nat where "HISTORY_LIMIT = 100"

record editor =
  sdoc :: tactic_doc
  stepIndex :: int
  selection :: "target option"
  tool :: tool
  placing :: placeable
  pen :: pen
  preview :: "drawing option"
  dirty :: bool
  undoStack :: "tactic_doc list"
  redoStack :: "tactic_doc list"
  gestureOpen :: bool
  focusText :: "ident option"

definition new_editor :: "ident \<Rightarrow> editor" where
  "new_editor nid =
     \<lparr>sdoc = emptyDoc nid, stepIndex = 0, selection = None, tool = SelectTool,
      placing = PlacePlayer Home None,
      pen = \<lparr>pen_color = ''#ffffff'', pen_style = SolidStroke, pen_width = DEFAULT_STROKE\<rparr>,
      preview = None, dirty = False, undoStack = [], redoStack = [], gestureOpen = False,
      focusText = None\<rparr>"

text \<open>\<open>step\<close>: the current step, or the first.\<close>

definition cur_step :: "editor \<Rightarrow> step option" where
  "cur_step s =
     (case nth_opt (steps (sdoc s)) (stepIndex s) of
        Some st \<Rightarrow> Some st | None \<Rightarrow> nth_opt (steps (sdoc s)) 0)"

definition canUndo :: "editor \<Rightarrow> bool" where "canUndo s \<longleftrightarrow> undoStack s \<noteq> []"
definition canRedo :: "editor \<Rightarrow> bool" where "canRedo s \<longleftrightarrow> redoStack s \<noteq> []"

definition selectedObject :: "editor \<Rightarrow> board_object option" where
  "selectedObject s =
     (case selection s of
        Some (OnObject i) \<Rightarrow> find (\<lambda>ob. obj_id ob = i) (objects (sdoc s))
      | _ \<Rightarrow> None)"

definition selectedDrawing :: "editor \<Rightarrow> js_error + drawing option" where
  "selectedDrawing s =
     (case selection s of
        Some (OnDrawing i) \<Rightarrow>
          (case cur_step s of
             None \<Rightarrow> Inl TypeError
           | Some st \<Rightarrow> Inr (find (\<lambda>d. drawing_id d = i) (drawings st)))
      | _ \<Rightarrow> Inr None)"

definition stillFrame :: "editor \<Rightarrow> js_error + frame" where
  "stillFrame s =
     (case cur_step s of
        None \<Rightarrow> Inl TypeError
      | Some st \<Rightarrow>
          Inr \<lparr>frame_step = nat (stepIndex s), placements = still (sdoc s) (stepIndex s),
               frame_drawings = drawings st, drawingOpacity = 1,
               highlights = list_or_empty (highlight st), frame_note = caption st\<rparr>)"

definition load :: "tactic_doc \<Rightarrow> editor \<Rightarrow> editor" where
  "load doc s = s\<lparr>sdoc := doc, stepIndex := 0, selection := None, undoStack := [], redoStack := [],
     dirty := False\<rparr>"

definition markSaved :: "editor \<Rightarrow> editor" where
  "markSaved s = s\<lparr>dirty := False\<rparr>"

section \<open>History\<close>

datatype phase = Once | Move | End

definition apply_doc :: "tactic_doc \<Rightarrow> phase \<Rightarrow> editor \<Rightarrow> editor" where
  "apply_doc next_doc phs s =
     (let s1 = (if gestureOpen s then s
                else s\<lparr>undoStack := last_n (HISTORY_LIMIT - 1) (undoStack s) @ [sdoc s],
                       redoStack := []\<rparr>)
      in s1\<lparr>gestureOpen := (phs = Move), sdoc := next_doc, dirty := True\<rparr>)"

definition afterHistory :: "editor \<Rightarrow> js_error + editor" where
  "afterHistory s0 =
     (let s = s0\<lparr>gestureOpen := False, dirty := True,
                 stepIndex := min (stepIndex s0) (int (length (steps (sdoc s0))) - 1)\<rparr>
      in case selection s of
           Some (OnObject i) \<Rightarrow>
             Inr (if i \<in> object_ids (sdoc s) then s else s\<lparr>selection := None\<rparr>)
         | Some (OnDrawing i) \<Rightarrow>
             (case cur_step s of
                None \<Rightarrow> Inl TypeError
              | Some st \<Rightarrow>
                  Inr (if i \<in> drawing_id ` set (drawings st) then s else s\<lparr>selection := None\<rparr>))
         | None \<Rightarrow> Inr s)"

definition undo :: "editor \<Rightarrow> js_error + editor" where
  "undo s =
     (if undoStack s = [] then Inr s
      else afterHistory (s\<lparr>redoStack := redoStack s @ [sdoc s], sdoc := last (undoStack s),
                           undoStack := butlast (undoStack s)\<rparr>))"

definition redo :: "editor \<Rightarrow> js_error + editor" where
  "redo s =
     (if redoStack s = [] then Inr s
      else afterHistory (s\<lparr>undoStack := undoStack s @ [sdoc s], sdoc := last (redoStack s),
                           redoStack := butlast (redoStack s)\<rparr>))"

section \<open>Objects\<close>

definition withStep :: "tactic_doc \<Rightarrow> int \<Rightarrow> (step \<Rightarrow> step) \<Rightarrow> tactic_doc" where
  "withStep doc i f =
     doc\<lparr>steps := (if 0 \<le> i then modify_at (nat i) f (steps doc) else steps doc)\<rparr>"

definition withCurrentStep :: "editor \<Rightarrow> (step \<Rightarrow> step) \<Rightarrow> tactic_doc" where
  "withCurrentStep s f = withStep (sdoc s) (stepIndex s) f"

definition done_phase :: "bool \<Rightarrow> phase" where
  "done_phase done = (if done then End else Move)"

definition placed_object :: "tactic_doc \<Rightarrow> placeable \<Rightarrow> ident \<Rightarrow> vec2 \<Rightarrow> board_object" where
  "placed_object doc what nid spot =
     (case what of
        PlacePlayer t k \<Rightarrow>
          mk_player nid t (if k = Some True then Some True else None)
            (Some (if k = Some True then ''1'' else nextNumber doc t))
      | PlaceEquip e \<Rightarrow>
          \<lparr>obj_id = nid, kind = Equip e, team = None, keeper = None, number = None, obj_name = None,
           bib = None, color = (if e \<noteq> Ball then Some (EQUIPMENT_COLORS e) else None), color2 = None,
           pattern = None, obj_size = None,
           rotation = (if e = Goal \<or> e = Minigoal \<or> e = Popup
                       then Some (if fst spot > 0 then 0 else 180) else None)\<rparr>)"

definition put_pos :: "ident \<Rightarrow> vec2 \<Rightarrow> step \<Rightarrow> step" where
  "put_pos i spot st = st\<lparr>pos := (pos st)(i \<mapsto> spot)\<rparr>"

definition add_objects :: "board_object list \<Rightarrow> tactic_doc \<Rightarrow> tactic_doc" where
  "add_objects obs doc = doc\<lparr>objects := objects doc @ obs\<rparr>"

definition place :: "vec2 \<Rightarrow> ident \<Rightarrow> editor \<Rightarrow> editor" where
  "place spot nid s =
     (let obj = placed_object (sdoc s) (placing s) nid spot;
          nxt = withStep (add_objects [obj] (sdoc s)) (stepIndex s) (put_pos nid spot)
      in (apply_doc nxt Once s)\<lparr>selection := Some (OnObject nid)\<rparr>)"

definition round100 :: "vec2 \<Rightarrow> vec2" where
  "round100 p = (of_int (js_round (fst p * 100)) / 100, of_int (js_round (snd p * 100)) / 100)"

definition moveObject :: "ident \<Rightarrow> vec2 \<Rightarrow> bool \<Rightarrow> editor \<Rightarrow> editor" where
  "moveObject i spot done s =
     apply_doc (withCurrentStep s (put_pos i (round100 spot))) (done_phase done) s"

definition bend_map :: "step \<Rightarrow> (ident \<rightharpoonup> vec2)" where
  "bend_map st = (case bend st of Some m \<Rightarrow> m | None \<Rightarrow> Map.empty)"

definition bendPath :: "ident \<Rightarrow> vec2 \<Rightarrow> bool \<Rightarrow> editor \<Rightarrow> editor" where
  "bendPath i mid done s =
     (case (positionAt (sdoc s) (stepIndex s - 1) i,
            Option.bind (nth_opt (steps (sdoc s)) (stepIndex s)) (\<lambda>st. pos st i)) of
        (Some from, Some to) \<Rightarrow>
          apply_doc
            (withCurrentStep s (\<lambda>st. st\<lparr>bend := Some ((bend_map st)(i \<mapsto> controlThrough from mid to))\<rparr>))
            (done_phase done) s
      | _ \<Rightarrow> s)"

definition straighten :: "ident \<Rightarrow> editor \<Rightarrow> editor" where
  "straighten i s =
     apply_doc (withCurrentStep s (\<lambda>st. st\<lparr>bend := Some ((bend_map st)(i := None))\<rparr>)) Once s"

datatype object_patch =
    PTeam "team_id option" | PKeeper "bool option" | PNumber "string option" | PName "string option"
  | PBib "string option" | PColor "string option" | PColor2 "string option"
  | PPattern "kit_pattern option" | PSize "real option" | PRotation "real option"

fun patch_object :: "board_object \<Rightarrow> object_patch \<Rightarrow> board_object" where
  "patch_object ob (PTeam v) = ob\<lparr>team := v\<rparr>"
| "patch_object ob (PKeeper v) = ob\<lparr>keeper := v\<rparr>"
| "patch_object ob (PNumber v) = ob\<lparr>number := v\<rparr>"
| "patch_object ob (PName v) = ob\<lparr>obj_name := v\<rparr>"
| "patch_object ob (PBib v) = ob\<lparr>bib := v\<rparr>"
| "patch_object ob (PColor v) = ob\<lparr>color := v\<rparr>"
| "patch_object ob (PColor2 v) = ob\<lparr>color2 := v\<rparr>"
| "patch_object ob (PPattern v) = ob\<lparr>pattern := v\<rparr>"
| "patch_object ob (PSize v) = ob\<lparr>obj_size := v\<rparr>"
| "patch_object ob (PRotation v) = ob\<lparr>rotation := v\<rparr>"

text \<open>\<open>clean\<close> drops a key that is undefined or the empty string.\<close>

definition drop_blank :: "string option \<Rightarrow> string option" where
  "drop_blank v = (if v = Some '''' then None else v)"

definition clean_object :: "board_object \<Rightarrow> board_object" where
  "clean_object ob = ob\<lparr>number := drop_blank (number ob), obj_name := drop_blank (obj_name ob),
     bib := drop_blank (bib ob), color := drop_blank (color ob), color2 := drop_blank (color2 ob)\<rparr>"

definition updateObject :: "ident \<Rightarrow> object_patch list \<Rightarrow> editor \<Rightarrow> editor" where
  "updateObject i patch s =
     apply_doc ((sdoc s)\<lparr>objects :=
       map (\<lambda>ob. if obj_id ob = i then clean_object (foldl patch_object ob patch) else ob)
         (objects (sdoc s))\<rparr>) Once s"

datatype id_list = AirList | HighlightList

definition toggle_id :: "ident \<Rightarrow> ident list option \<Rightarrow> ident list option" where
  "toggle_id i l =
     (let current = list_or_empty l in
      Some (if i \<in> set current then filter (\<lambda>x. x \<noteq> i) current else current @ [i]))"

definition toggleIn :: "id_list \<Rightarrow> ident \<Rightarrow> editor \<Rightarrow> editor" where
  "toggleIn l i s =
     apply_doc (withCurrentStep s (\<lambda>st. case l of
         AirList \<Rightarrow> st\<lparr>air := toggle_id i (air st)\<rparr>
       | HighlightList \<Rightarrow> st\<lparr>highlight := toggle_id i (highlight st)\<rparr>)) Once s"

definition duplicateSelection :: "ident \<Rightarrow> editor \<Rightarrow> editor" where
  "duplicateSelection nid s =
     (case selectedObject s of
        None \<Rightarrow> s
      | Some obj \<Rightarrow>
          (case positionAt (sdoc s) (stepIndex s) (obj_id obj) of
             None \<Rightarrow> s
           | Some spot \<Rightarrow>
               (let copy = obj\<lparr>obj_id := nid\<rparr>;
                    copy' = (case team obj of
                        Some t \<Rightarrow> if kind obj = PlayerKind
                                  then copy\<lparr>number := Some (nextNumber (sdoc s) t)\<rparr> else copy
                      | None \<Rightarrow> copy);
                    nxt = withStep (add_objects [copy'] (sdoc s)) (stepIndex s)
                            (put_pos nid (fst spot + 3, snd spot + 2))
                in (apply_doc nxt Once s)\<lparr>selection := Some (OnObject nid)\<rparr>)))"

definition strip_step :: "ident \<Rightarrow> step \<Rightarrow> step" where
  "strip_step i st = st\<lparr>pos := (pos st)(i := None),
     bend := map_option (\<lambda>m. m(i := None)) (bend st),
     air := map_option (filter (\<lambda>x. x \<noteq> i)) (air st),
     highlight := map_option (filter (\<lambda>x. x \<noteq> i)) (highlight st)\<rparr>"

definition deleteSelection :: "editor \<Rightarrow> editor" where
  "deleteSelection s =
     (case selection s of
        None \<Rightarrow> s
      | Some (OnObject i) \<Rightarrow>
          (apply_doc ((sdoc s)\<lparr>objects := filter (\<lambda>ob. obj_id ob \<noteq> i) (objects (sdoc s)),
                              steps := map (strip_step i) (steps (sdoc s))\<rparr>) Once s)
            \<lparr>selection := None\<rparr>
      | Some (OnDrawing i) \<Rightarrow>
          (apply_doc (withCurrentStep s
             (\<lambda>st. st\<lparr>drawings := filter (\<lambda>d. drawing_id d \<noteq> i) (drawings st)\<rparr>)) Once s)
            \<lparr>selection := None\<rparr>)"

definition addFormation :: "(nat \<Rightarrow> ident) \<Rightarrow> string \<Rightarrow> team_id \<Rightarrow> side \<Rightarrow> editor \<Rightarrow> editor" where
  "addFormation ids name t sd s =
     (let (obs, m) = formation ids name t sd in
      apply_doc (withStep (add_objects obs (sdoc s)) (stepIndex s)
                   (\<lambda>st. st\<lparr>pos := pos st ++ m\<rparr>)) Once s)"

definition team_ids_of :: "team_id \<Rightarrow> tactic_doc \<Rightarrow> ident set" where
  "team_ids_of t doc =
     obj_id ` set (filter (\<lambda>ob. kind ob = PlayerKind \<and> team ob = Some t) (objects doc))"

definition removeTeam :: "team_id \<Rightarrow> editor \<Rightarrow> editor" where
  "removeTeam t s =
     (let doc = sdoc s; gone = team_ids_of t doc in
      if gone = {} then s
      else (apply_doc (doc\<lparr>objects := filter (\<lambda>ob. obj_id ob \<notin> gone) (objects doc),
                          steps := map (\<lambda>st. st\<lparr>pos := pos st |` (- gone)\<rparr>) (steps doc)\<rparr>) Once s)
             \<lparr>selection := None\<rparr>)"

section \<open>Drawings\<close>

definition draft_drawing :: "drawing_kind \<Rightarrow> pen \<Rightarrow> vec2 list \<Rightarrow> drawing" where
  "draft_drawing k pn pts =
     \<lparr>drawing_id = ''preview'', drawing_kind = k, points = pts, control = None,
      style = Some (if k = Arrow \<or> k = Line \<or> k = Pen then pen_style pn else SolidStroke),
      drawing_color = Some (pen_color pn), stroke_width = Some (pen_width pn), drawing_text = None,
      fill = None\<rparr>"

definition add_drawing :: "drawing \<Rightarrow> step \<Rightarrow> step" where
  "add_drawing d st = st\<lparr>drawings := drawings st @ [d]\<rparr>"

text \<open>\<open>k\<close> is the drawing tool in hand when the engine reports the stroke.\<close>

definition stroke :: "drawing_kind \<Rightarrow> vec2 list \<Rightarrow> bool \<Rightarrow> ident \<Rightarrow> editor \<Rightarrow> js_error + editor" where
  "stroke k pts done nid s =
     (let draft = draft_drawing k (pen s) pts in
      if \<not> done
      then Inr (s\<lparr>preview := (if length pts > 1 \<or> k = Polygon then Some draft else None)\<rparr>)
      else if pts = [] then Inl TypeError
      else (let s1 = s\<lparr>preview := None\<rparr>;
                committed = draft\<lparr>drawing_id := nid,
                                  points := (if k = Pen then thin pts (25 / 100) else pts)\<rparr>;
                span = hypot (fst (last pts) - fst (hd pts)) (snd (last pts) - snd (hd pts))
            in if (if k = Polygon then length pts < 3 else span < 8 / 10) then Inr s1
               else (let filled = (if k = Rect \<or> k = Ellipse \<or> k = Polygon
                                   then committed\<lparr>fill := Some (22 / 100)\<rparr> else committed)
                     in Inr ((apply_doc (withCurrentStep s1 (add_drawing filled)) Once s1)
                               \<lparr>selection := Some (OnDrawing nid)\<rparr>))))"

definition placeText :: "vec2 \<Rightarrow> ident \<Rightarrow> editor \<Rightarrow> editor" where
  "placeText spot nid s =
     (let d = \<lparr>drawing_id = nid, drawing_kind = TextLabel, points = [spot], control = None,
               style = None, drawing_color = Some (pen_color (pen s)),
               stroke_width = Some DEFAULT_STROKE, drawing_text = Some ''Text'', fill = None\<rparr>
      in (apply_doc (withCurrentStep s (add_drawing d)) Once s)
           \<lparr>selection := Some (OnDrawing nid), tool := SelectTool, focusText := Some nid\<rparr>)"

datatype drawing_change = ChangePoint nat vec2 | ChangeControl vec2 | ChangeOffset vec2

fun change_drawing :: "drawing_change \<Rightarrow> drawing \<Rightarrow> drawing" where
  "change_drawing (ChangeOffset off) d =
     d\<lparr>points := map (\<lambda>p. (fst p + fst off, snd p + snd off)) (points d),
       control := map_option (\<lambda>c. (fst c + fst off, snd c + snd off)) (control d)\<rparr>"
| "change_drawing (ChangeControl c) d =
     d\<lparr>control := Some (controlThrough (hd (points d)) c (last (points d)))\<rparr>"
| "change_drawing (ChangePoint i p) d = d\<lparr>points := modify_at i (\<lambda>_. p) (points d)\<rparr>"

text \<open>Bending a drawing reads its first and last point, and raises where it has none.\<close>

definition editDrawing :: "ident \<Rightarrow> drawing_change \<Rightarrow> bool \<Rightarrow> editor \<Rightarrow> js_error + editor" where
  "editDrawing i change done s =
     (let hit = (\<lambda>d. drawing_id d = i);
          raises = (case (change, nth_opt (steps (sdoc s)) (stepIndex s)) of
              (ChangeControl _, Some st) \<Rightarrow> \<exists>d\<in>set (drawings st). hit d \<and> points d = []
            | _ \<Rightarrow> False)
      in if raises then Inl TypeError
         else Inr (apply_doc (withCurrentStep s
                (\<lambda>st. st\<lparr>drawings := map (\<lambda>d. if hit d then change_drawing change d else d) (drawings st)\<rparr>))
                (done_phase done) s))"

datatype drawing_patch =
    DColor "string option" | DStyle "stroke_style option" | DWidth "real option"
  | DText "string option" | DFill "real option" | DControl "vec2 option"

fun patch_drawing :: "drawing \<Rightarrow> drawing_patch \<Rightarrow> drawing" where
  "patch_drawing d (DColor v) = d\<lparr>drawing_color := v\<rparr>"
| "patch_drawing d (DStyle v) = d\<lparr>style := v\<rparr>"
| "patch_drawing d (DWidth v) = d\<lparr>stroke_width := v\<rparr>"
| "patch_drawing d (DText v) = d\<lparr>drawing_text := v\<rparr>"
| "patch_drawing d (DFill v) = d\<lparr>fill := v\<rparr>"
| "patch_drawing d (DControl v) = d\<lparr>control := v\<rparr>"

definition clean_drawing :: "drawing \<Rightarrow> drawing" where
  "clean_drawing d = d\<lparr>drawing_color := drop_blank (drawing_color d),
     drawing_text := drop_blank (drawing_text d)\<rparr>"

definition updateDrawing :: "ident \<Rightarrow> drawing_patch list \<Rightarrow> editor \<Rightarrow> editor" where
  "updateDrawing i patch s =
     apply_doc (withCurrentStep s (\<lambda>st. st\<lparr>drawings :=
       map (\<lambda>d. if drawing_id d = i then clean_drawing (foldl patch_drawing d patch) else d)
         (drawings st)\<rparr>)) Once s"

section \<open>Steps\<close>

text \<open>What several operations end with: a selected drawing belongs to the step left behind.\<close>

definition drop_drawing_selection :: "editor \<Rightarrow> editor" where
  "drop_drawing_selection s =
     (case selection s of Some (OnDrawing _) \<Rightarrow> s\<lparr>selection := None\<rparr> | _ \<Rightarrow> s)"

definition goToStep :: "int \<Rightarrow> editor \<Rightarrow> editor" where
  "goToStep i s =
     drop_drawing_selection
       (s\<lparr>stepIndex := max 0 (min (int (length (steps (sdoc s))) - 1) i)\<rparr>)"

definition addStep :: "ident \<Rightarrow> editor \<Rightarrow> editor" where
  "addStep nid s =
     (let doc = sdoc s; k = stepIndex s + 1 in
      drop_drawing_selection
        ((apply_doc (doc\<lparr>steps := insert_at (nat k) (newStep nid) (steps doc)\<rparr>) Once s)
           \<lparr>stepIndex := k\<rparr>))"

definition copy_step :: "ident \<Rightarrow> (nat \<Rightarrow> ident) \<Rightarrow> step \<Rightarrow> step" where
  "copy_step nid dids st = st\<lparr>step_id := nid, pos := Map.empty, bend := None, air := None,
     drawings := map (\<lambda>(i, d). d\<lparr>drawing_id := dids i\<rparr>) (enumerate 0 (drawings st))\<rparr>"

definition duplicateStep :: "ident \<Rightarrow> (nat \<Rightarrow> ident) \<Rightarrow> editor \<Rightarrow> js_error + editor" where
  "duplicateStep nid dids s =
     (let doc = sdoc s; i = stepIndex s in
      case nth_opt (steps doc) i of
        None \<Rightarrow> Inl TypeError
      | Some st \<Rightarrow>
          Inr (drop_drawing_selection
            ((apply_doc (doc\<lparr>steps := insert_at (nat (i + 1)) (copy_step nid dids st) (steps doc)\<rparr>) Once s)
               \<lparr>stepIndex := i + 1\<rparr>)))"

text \<open>The positions a step has to store so that, after \<open>before\<close>, everything in \<open>here\<close> stands there.\<close>

definition pos_diff :: "(ident \<rightharpoonup> vec2) \<Rightarrow> (ident \<rightharpoonup> vec2) \<Rightarrow> (ident \<rightharpoonup> vec2)" where
  "pos_diff before here =
     (\<lambda>i. case here i of None \<Rightarrow> None
          | Some p \<Rightarrow> (case before i of Some q \<Rightarrow> if q = p then None else Some p | None \<Rightarrow> Some p))"

definition reordered_steps :: "tactic_doc \<Rightarrow> nat list \<Rightarrow> step list" where
  "reordered_steps doc order =
     map (\<lambda>k. (steps doc ! (order ! k))\<lparr>pos :=
           pos_diff (if k > 0 then positionsAt doc (int (order ! (k - 1))) else Map.empty)
                    (positionsAt doc (int (order ! k)))\<rparr>)
       [0..<length order]"

definition moveStep :: "int \<Rightarrow> int \<Rightarrow> editor \<Rightarrow> editor" where
  "moveStep from to0 s =
     (let doc = sdoc s; n = int (length (steps doc)); to = max 0 (min (n - 1) to0) in
      if from = to \<or> from < 0 \<or> from \<ge> n then s
      else (let order = move_elem (nat from) (nat to) [0..<length (steps doc)] in
            drop_drawing_selection
              ((apply_doc (doc\<lparr>steps := reordered_steps doc order\<rparr>) Once s)\<lparr>stepIndex := to\<rparr>)))"

text \<open>With an index out of range the source reads the position map of \<open>undefined\<close> (a negative index)
  or removes nothing.\<close>

definition deleteStep :: "editor \<Rightarrow> js_error + editor" where
  "deleteStep s =
     (let doc = sdoc s; i = stepIndex s in
      if length (steps doc) \<le> 1 then Inr s
      else if i < 0 then Inl TypeError
      else (let removed = steps doc ! nat i;
                rest = (if nat i < length (steps doc) then remove_at (nat i) (steps doc) else steps doc);
                rest' = (if nat i < length rest
                         then rest[nat i := (rest ! nat i)\<lparr>pos := pos removed ++ pos (rest ! nat i)\<rparr>]
                         else rest)
            in Inr ((apply_doc (doc\<lparr>steps := rest'\<rparr>) Once s)
                 \<lparr>stepIndex := min i (int (length rest') - 1), selection := None\<rparr>)))"

datatype step_patch = PDuration real | PHold real | PNote string

fun patch_step :: "step \<Rightarrow> step_patch \<Rightarrow> step" where
  "patch_step st (PDuration v) = st\<lparr>duration := v\<rparr>"
| "patch_step st (PHold v) = st\<lparr>hold := v\<rparr>"
| "patch_step st (PNote v) = st\<lparr>caption := v\<rparr>"

definition updateStep :: "step_patch list \<Rightarrow> editor \<Rightarrow> editor" where
  "updateStep patch s = apply_doc (withCurrentStep s (\<lambda>st. foldl patch_step st patch)) Once s"

section \<open>Board settings\<close>

datatype pitch_patch =
  PLayout pitch_layout | PMarkings pitch_markings | PStyle pitch_style | PStadium bool

fun patch_pitch :: "pitch_settings \<Rightarrow> pitch_patch \<Rightarrow> pitch_settings" where
  "patch_pitch p (PLayout v) = p\<lparr>layout := v\<rparr>"
| "patch_pitch p (PMarkings v) = p\<lparr>markings := v\<rparr>"
| "patch_pitch p (PStyle v) = p\<lparr>pitch_style := v\<rparr>"
| "patch_pitch p (PStadium v) = p\<lparr>stadium := v\<rparr>"

definition setPitch :: "pitch_patch list \<Rightarrow> editor \<Rightarrow> editor" where
  "setPitch patch s =
     apply_doc ((sdoc s)\<lparr>pitch := foldl patch_pitch (pitch (sdoc s)) patch\<rparr>) Once s"

datatype kit_patch =
    KName string | KPrimary string | KSecondary string | KPattern kit_pattern | KNumbers string
  | KKeeper string

fun patch_kit :: "kit \<Rightarrow> kit_patch \<Rightarrow> kit" where
  "patch_kit k (KName v) = k\<lparr>kit_name := v\<rparr>"
| "patch_kit k (KPrimary v) = k\<lparr>primary := v\<rparr>"
| "patch_kit k (KSecondary v) = k\<lparr>secondary := v\<rparr>"
| "patch_kit k (KPattern v) = k\<lparr>kit_pattern := v\<rparr>"
| "patch_kit k (KNumbers v) = k\<lparr>numbers := v\<rparr>"
| "patch_kit k (KKeeper v) = k\<lparr>kit_keeper := v\<rparr>"

definition setKit :: "team_id \<Rightarrow> kit_patch list \<Rightarrow> editor \<Rightarrow> editor" where
  "setKit t patch s =
     apply_doc ((sdoc s)\<lparr>teams := (teams (sdoc s))(t := foldl patch_kit (teams (sdoc s) t) patch)\<rparr>) Once s"

definition clearBoard :: "ident \<Rightarrow> editor \<Rightarrow> editor" where
  "clearBoard nid s =
     (apply_doc ((sdoc s)\<lparr>objects := [], steps := [newStep nid]\<rparr>) Once s)
       \<lparr>stepIndex := 0, selection := None\<rparr>"

end
