(* ===== verification/Editor_History.thy ===== *)
theory Editor_History
  imports Editor_Store
begin

text \<open>
  What the operations of the editor store keep and how its history behaves.  An \<open>event\<close> is one call the
  editor page makes on the store, \<open>exec\<close> runs it, \<open>reachable\<close> is the set of states such calls lead to;
  the invariant \<open>wf_store\<close> holds in all of them and no sensible call raises.  The locale \<open>edit_history\<close>
  is the contract of undo and redo, proved once from the laws of a single edit and interpreted on the
  store.
\<close>

section \<open>The calls on a store\<close>

datatype event =
    EPlace vec2 ident | EMoveObject ident vec2 bool | EBend ident vec2 bool | EStraighten ident
  | EUpdateObject ident "object_patch list" | EToggleIn id_list ident | EDuplicateSelection ident
  | EDeleteSelection | EAddFormation "nat \<Rightarrow> ident" string team_id side | ERemoveTeam team_id
  | EStroke drawing_kind "vec2 list" bool ident | EPlaceText vec2 ident
  | EEditDrawing ident drawing_change bool | EUpdateDrawing ident "drawing_patch list"
  | EGoToStep int | EAddStep ident | EDuplicateStep ident "nat \<Rightarrow> ident" | EMoveStep int int
  | EDeleteStep | EUpdateStep "step_patch list"
  | ESetPitch "pitch_patch list" | ESetKit team_id "kit_patch list" | EClearBoard ident
  | EUndo | ERedo | ELoad tactic_doc | EMarkSaved
  | ESelect "target option" | ESetTool tool | ESetPlacing placeable | ESetPen pen

fun exec :: "event \<Rightarrow> editor \<Rightarrow> js_error + editor" where
  "exec (EPlace p nid) s = Inr (place p nid s)"
| "exec (EMoveObject i p d) s = Inr (moveObject i p d s)"
| "exec (EBend i p d) s = Inr (bendPath i p d s)"
| "exec (EStraighten i) s = Inr (straighten i s)"
| "exec (EUpdateObject i ps) s = Inr (updateObject i ps s)"
| "exec (EToggleIn l i) s = Inr (toggleIn l i s)"
| "exec (EDuplicateSelection nid) s = Inr (duplicateSelection nid s)"
| "exec EDeleteSelection s = Inr (deleteSelection s)"
| "exec (EAddFormation ids name t sd) s = Inr (addFormation ids name t sd s)"
| "exec (ERemoveTeam t) s = Inr (removeTeam t s)"
| "exec (EStroke k pts d nid) s = stroke k pts d nid s"
| "exec (EPlaceText p nid) s = Inr (placeText p nid s)"
| "exec (EEditDrawing i c d) s = editDrawing i c d s"
| "exec (EUpdateDrawing i ps) s = Inr (updateDrawing i ps s)"
| "exec (EGoToStep i) s = Inr (goToStep i s)"
| "exec (EAddStep nid) s = Inr (addStep nid s)"
| "exec (EDuplicateStep nid dids) s = duplicateStep nid dids s"
| "exec (EMoveStep a b) s = Inr (moveStep a b s)"
| "exec EDeleteStep s = deleteStep s"
| "exec (EUpdateStep ps) s = Inr (updateStep ps s)"
| "exec (ESetPitch ps) s = Inr (setPitch ps s)"
| "exec (ESetKit t ps) s = Inr (setKit t ps s)"
| "exec (EClearBoard nid) s = Inr (clearBoard nid s)"
| "exec EUndo s = undo s"
| "exec ERedo s = redo s"
| "exec (ELoad d) s = Inr (load d s)"
| "exec EMarkSaved s = Inr (markSaved s)"
| "exec (ESelect t) s = Inr (s\<lparr>selection := t\<rparr>)"
| "exec (ESetTool t) s = Inr (s\<lparr>tool := t\<rparr>)"
| "exec (ESetPlacing p) s = Inr (s\<lparr>placing := p\<rparr>)"
| "exec (ESetPen p) s = Inr (s\<lparr>pen := p\<rparr>)"

section \<open>Well-formed documents and stores\<close>

definition step_ok :: "ident set \<Rightarrow> step \<Rightarrow> bool" where
  "step_ok ids st \<longleftrightarrow> dom (pos st) \<subseteq> ids \<and> (\<forall>d\<in>set (drawings st). points d \<noteq> [])"

definition good_doc :: "tactic_doc \<Rightarrow> bool" where
  "good_doc doc \<longleftrightarrow> steps doc \<noteq> [] \<and> distinct (map step_id (steps doc))
     \<and> distinct (map obj_id (objects doc))
     \<and> (\<forall>st\<in>set (steps doc). step_ok (object_ids doc) st)"

definition wf_store :: "editor \<Rightarrow> bool" where
  "wf_store s \<longleftrightarrow> good_doc (sdoc s)
     \<and> 0 \<le> stepIndex s \<and> stepIndex s < int (length (steps (sdoc s)))
     \<and> (\<forall>d\<in>set (undoStack s) \<union> set (redoStack s). good_doc d)
     \<and> length (undoStack s) + length (redoStack s) \<le> HISTORY_LIMIT
     \<and> (gestureOpen s \<longrightarrow> redoStack s = [])"

text \<open>
  What the page makes sure of before it calls: an id drawn by \<open>newId\<close> is not in use, a dragged object
  is on the board, a finished stroke has a point, and a loaded board is a good one.
\<close>

fun sensible :: "editor \<Rightarrow> event \<Rightarrow> bool" where
  "sensible s (EPlace p nid) \<longleftrightarrow> nid \<notin> object_ids (sdoc s)"
| "sensible s (EMoveObject i p d) \<longleftrightarrow> i \<in> object_ids (sdoc s)"
| "sensible s (EDuplicateSelection nid) \<longleftrightarrow> nid \<notin> object_ids (sdoc s)"
| "sensible s (EAddFormation ids name t sd) \<longleftrightarrow> inj ids \<and> range ids \<inter> object_ids (sdoc s) = {}"
| "sensible s (EStroke k pts d nid) \<longleftrightarrow> pts \<noteq> []"
| "sensible s (EAddStep nid) \<longleftrightarrow> nid \<notin> step_id ` set (steps (sdoc s))"
| "sensible s (EDuplicateStep nid dids) \<longleftrightarrow> nid \<notin> step_id ` set (steps (sdoc s))"
| "sensible s (ELoad d) \<longleftrightarrow> good_doc d"
| "sensible s _ \<longleftrightarrow> True"

inductive reachable :: "editor \<Rightarrow> bool" where
  reach_new: "reachable (new_editor nid)"
| reach_exec: "reachable s \<Longrightarrow> sensible s ev \<Longrightarrow> exec ev s = Inr s' \<Longrightarrow> reachable s'"

section \<open>Every operation keeps the invariant\<close>

lemma good_emptyDoc: "good_doc (emptyDoc nid)"
  by (simp add: good_doc_def emptyDoc_def step_ok_def)

lemma wf_new: "wf_store (new_editor nid)"
  by (simp add: wf_store_def new_editor_def good_emptyDoc)

lemma apply_doc_simps [simp]:
  "sdoc (apply_doc d f s) = d" "stepIndex (apply_doc d f s) = stepIndex s"
  "selection (apply_doc d f s) = selection s" "gestureOpen (apply_doc d f s) \<longleftrightarrow> f = Move"
  "dirty (apply_doc d f s)" "preview (apply_doc d f s) = preview s"
  by (simp_all add: apply_doc_def Let_def)

lemma apply_doc_undo:
  "undoStack (apply_doc d f s) =
    (if gestureOpen s then undoStack s else last_n (HISTORY_LIMIT - 1) (undoStack s) @ [sdoc s])"
  "redoStack (apply_doc d f s) = (if gestureOpen s then redoStack s else [])"
  by (simp_all add: apply_doc_def Let_def)

lemma wf_apply:
  assumes "wf_store s" "good_doc d" "0 \<le> k" "k < int (length (steps d))"
  shows "wf_store ((apply_doc d f s)\<lparr>stepIndex := k\<rparr>)"
  using assms set_last_n_subset [of "HISTORY_LIMIT - 1" "undoStack s"]
  by (auto simp: wf_store_def apply_doc_undo HISTORY_LIMIT_def)

lemma wf_apply_same:
  assumes "wf_store s" "good_doc d" "length (steps d) = length (steps (sdoc s))"
  shows "wf_store (apply_doc d f s)"
  using wf_apply [OF assms(1,2), of "stepIndex s" f] assms by (simp add: wf_store_def)

lemma wf_irrelevant [simp]:
  "wf_store (s\<lparr>selection := x\<rparr>) = wf_store s" "wf_store (s\<lparr>tool := t\<rparr>) = wf_store s"
  "wf_store (s\<lparr>placing := p\<rparr>) = wf_store s" "wf_store (s\<lparr>pen := q\<rparr>) = wf_store s"
  "wf_store (s\<lparr>preview := r\<rparr>) = wf_store s" "wf_store (s\<lparr>dirty := b\<rparr>) = wf_store s"
  "wf_store (s\<lparr>focusText := u\<rparr>) = wf_store s"
  by (simp_all add: wf_store_def)

lemma wf_drop_selection [simp]: "wf_store (drop_drawing_selection s) = wf_store s"
  by (simp add: drop_drawing_selection_def split: option.splits target.splits)

lemma length_withStep [simp]: "length (steps (withStep d i f)) = length (steps d)"
  by (simp add: withStep_def)

lemma withStep_fields [simp]:
  "objects (withStep d i f) = objects d" "object_ids (withStep d i f) = object_ids d"
  "teams (withStep d i f) = teams d" "pitch (withStep d i f) = pitch d"
  by (simp_all add: withStep_def object_ids_def)

lemma set_modify_at: "set (modify_at i f xs) \<subseteq> set xs \<union> f ` set xs"
  by (auto simp: modify_at_def dest!: set_update_subset_insert [THEN subsetD])

lemma map_modify_at_same:
  "(\<And>x. g (f x) = g x) \<Longrightarrow> map g (modify_at i f xs) = map g xs"
  by (rule nth_equalityI) (auto simp: nth_modify_at)

lemma good_withStep:
  assumes "good_doc d" "\<And>st. step_id (f st) = step_id st"
    and "\<And>st. st \<in> set (steps d) \<Longrightarrow> step_ok (object_ids d) (f st)"
  shows "good_doc (withStep d i f)"
proof -
  have "\<forall>st\<in>set (steps (withStep d i f)). step_ok (object_ids d) st"
    using assms(1,3) set_modify_at [of "nat i" f "steps d"]
    by (auto simp: withStep_def good_doc_def)
  moreover have "map step_id (steps (withStep d i f)) = map step_id (steps d)"
    using assms(2) by (simp add: withStep_def map_modify_at_same)
  moreover have "steps (withStep d i f) \<noteq> []"
    using assms(1) by (simp add: withStep_def good_doc_def)
  ultimately show ?thesis using assms(1) by (simp add: good_doc_def)
qed

lemma wf_withCurrentStep:
  assumes "wf_store s" "\<And>st. step_id (f st) = step_id st"
    and "\<And>st. step_ok (object_ids (sdoc s)) st \<Longrightarrow> step_ok (object_ids (sdoc s)) (f st)"
  shows "wf_store (apply_doc (withCurrentStep s f) g s)"
proof (rule wf_apply_same)
  show "good_doc (withCurrentStep s f)"
    unfolding withCurrentStep_def using assms
    by (intro good_withStep) (auto simp: wf_store_def good_doc_def)
qed (use assms(1) in \<open>simp_all add: withCurrentStep_def\<close>)

lemma wf_moveObject: "wf_store s \<Longrightarrow> i \<in> object_ids (sdoc s) \<Longrightarrow> wf_store (moveObject i p d s)"
  unfolding moveObject_def by (rule wf_withCurrentStep) (auto simp: step_ok_def put_pos_def)

lemma wf_bendPath: "wf_store s \<Longrightarrow> wf_store (bendPath i p d s)"
  unfolding bendPath_def
  by (auto split: option.splits intro!: wf_withCurrentStep simp: step_ok_def)

lemma wf_straighten: "wf_store s \<Longrightarrow> wf_store (straighten i s)"
  unfolding straighten_def by (rule wf_withCurrentStep) (auto simp: step_ok_def)

lemma wf_toggleIn: "wf_store s \<Longrightarrow> wf_store (toggleIn l i s)"
  unfolding toggleIn_def by (cases l) (auto intro!: wf_withCurrentStep simp: step_ok_def)

lemma patch_step_fields [simp]:
  "step_id (foldl patch_step st ps) = step_id st" "pos (foldl patch_step st ps) = pos st"
  "drawings (foldl patch_step st ps) = drawings st"
proof -
  have one: "step_id (patch_step st p) = step_id st \<and> pos (patch_step st p) = pos st
      \<and> drawings (patch_step st p) = drawings st" for st p
    by (cases p) auto
  show "step_id (foldl patch_step st ps) = step_id st" "pos (foldl patch_step st ps) = pos st"
    "drawings (foldl patch_step st ps) = drawings st"
    by (induction ps arbitrary: st) (auto simp: one)
qed

lemma wf_updateStep: "wf_store s \<Longrightarrow> wf_store (updateStep ps s)"
  unfolding updateStep_def by (rule wf_withCurrentStep) (auto simp: step_ok_def)

lemma patch_drawing_points [simp]: "points (foldl patch_drawing d ps) = points d"
proof -
  have "points (patch_drawing d p) = points d" for d p by (cases p) auto
  then show ?thesis by (induction ps arbitrary: d) auto
qed

lemma wf_updateDrawing: "wf_store s \<Longrightarrow> wf_store (updateDrawing i ps s)"
  unfolding updateDrawing_def
  by (rule wf_withCurrentStep) (auto simp: step_ok_def clean_drawing_def)

lemma add_drawing_ok:
  "points d \<noteq> [] \<Longrightarrow> step_ok ids st \<Longrightarrow> step_ok ids (add_drawing d st)"
  by (auto simp: step_ok_def add_drawing_def)

lemma add_drawing_id [simp]: "step_id (add_drawing d st) = step_id st"
  by (simp add: add_drawing_def)

lemma wf_placeText: "wf_store s \<Longrightarrow> wf_store (placeText p nid s)"
  unfolding placeText_def Let_def
  by (simp, rule wf_withCurrentStep) (auto intro!: add_drawing_ok)

lemma thin_not_Nil [simp]: "pts \<noteq> [] \<Longrightarrow> thin pts w \<noteq> []"
  using hd_thin [of pts w] by (cases pts) (auto simp: thin_def)

lemma wf_stroke:
  assumes "wf_store s" "pts \<noteq> []"
  shows "\<exists>s'. stroke k pts d nid s = Inr s' \<and> wf_store s'"
proof -
  have *: "wf_store (apply_doc (withCurrentStep (s\<lparr>preview := None\<rparr>) (add_drawing dr)) Once (s\<lparr>preview := None\<rparr>))"
    if "points dr \<noteq> []" for dr
    using assms(1) that by (intro wf_withCurrentStep) (auto intro: add_drawing_ok)
  show ?thesis
    using assms by (auto simp: stroke_def Let_def intro!: *)
qed

lemma change_drawing_points [simp]: "points (change_drawing c d) = [] \<longleftrightarrow> points d = []"
  by (cases c) simp_all

lemma wf_editDrawing:
  assumes "wf_store s"
  shows "\<exists>s'. editDrawing i c d s = Inr s' \<and> wf_store s'"
proof -
  have "\<forall>dr\<in>set (drawings st). points dr \<noteq> []" if "nth_opt (steps (sdoc s)) (stepIndex s) = Some st" for st
    using assms that by (auto simp: wf_store_def good_doc_def step_ok_def nth_opt_def split: if_splits)
  then have "editDrawing i c d s = Inr (apply_doc (withCurrentStep s
     (\<lambda>st. st\<lparr>drawings := map (\<lambda>dr. if drawing_id dr = i then change_drawing c dr else dr) (drawings st)\<rparr>))
     (done_phase d) s)"
    unfolding editDrawing_def Let_def by (auto split: drawing_change.splits option.splits)
  moreover have "wf_store (apply_doc (withCurrentStep s
     (\<lambda>st. st\<lparr>drawings := map (\<lambda>dr. if drawing_id dr = i then change_drawing c dr else dr) (drawings st)\<rparr>))
     (done_phase d) s)"
    using assms by (intro wf_withCurrentStep) (auto simp: step_ok_def)
  ultimately show ?thesis by blast
qed

lemma good_add_objects:
  assumes "good_doc d" "distinct (map obj_id obs)" "obj_id ` set obs \<inter> object_ids d = {}"
  shows "good_doc (add_objects obs d)"
proof -
  have "step_ok (object_ids (add_objects obs d)) st" if "step_ok (object_ids d) st" for st
    using that by (auto simp: step_ok_def add_objects_def object_ids_def)
  then show ?thesis
    using assms by (auto simp: good_doc_def add_objects_def object_ids_def)
qed

lemma add_objects_fields [simp]:
  "steps (add_objects obs d) = steps d" "object_ids (add_objects obs d) = object_ids d \<union> obj_id ` set obs"
  by (auto simp: add_objects_def object_ids_def)

lemma wf_add_to_step:
  assumes "wf_store s" "distinct (map obj_id obs)" "obj_id ` set obs \<inter> object_ids (sdoc s) = {}"
    and "\<And>st. step_id (f st) = step_id st" "\<And>st. drawings (f st) = drawings st"
    and "\<And>st. dom (pos (f st)) \<subseteq> dom (pos st) \<union> obj_id ` set obs"
  shows "wf_store (apply_doc (withStep (add_objects obs (sdoc s)) k f) g s)"
proof (rule wf_apply_same [OF assms(1)])
  have g: "good_doc (add_objects obs (sdoc s))"
    using assms by (intro good_add_objects) (auto simp: wf_store_def)
  show "good_doc (withStep (add_objects obs (sdoc s)) k f)"
  proof (rule good_withStep [OF g assms(4)])
    fix st
    assume "st \<in> set (steps (add_objects obs (sdoc s)))"
    with g have "step_ok (object_ids (add_objects obs (sdoc s))) st"
      by (simp add: good_doc_def)
    then show "step_ok (object_ids (add_objects obs (sdoc s))) (f st)"
      using assms(6) [of st] by (simp add: step_ok_def assms(5)) blast
  qed
qed simp

lemma obj_id_placed [simp]: "obj_id (placed_object d w nid p) = nid"
  by (simp add: placed_object_def mk_player_def split: placeable.split)

lemma wf_place: "wf_store s \<Longrightarrow> nid \<notin> object_ids (sdoc s) \<Longrightarrow> wf_store (place p nid s)"
  unfolding place_def Let_def
  by (simp, rule wf_add_to_step) (auto simp: put_pos_def)

lemma wf_duplicateSelection:
  assumes "wf_store s" "nid \<notin> object_ids (sdoc s)"
  shows "wf_store (duplicateSelection nid s)"
proof -
  have id: "obj_id (case team ob of None \<Rightarrow> ob\<lparr>obj_id := nid\<rparr>
      | Some t \<Rightarrow> if kind ob = PlayerKind then ob\<lparr>obj_id := nid, number := Some (n t)\<rparr>
                  else ob\<lparr>obj_id := nid\<rparr>) = nid" for ob n
    by (simp split: option.split)
  show ?thesis
    unfolding duplicateSelection_def Let_def using assms
    by (auto split: option.split simp: put_pos_def id intro!: wf_add_to_step)
qed

lemma wf_addFormation:
  assumes "wf_store s" "inj ids" "range ids \<inter> object_ids (sdoc s) = {}"
  shows "wf_store (addFormation ids name t sd s)"
proof -
  obtain obs m where f: "formation ids name t sd = (obs, m)" by fastforce
  have i: "map obj_id obs = map ids [0..<11]" using formation_ids [of ids name t sd] f by simp
  then have "obj_id ` set obs \<subseteq> range ids"
    by (metis image_subset_iff list.set_map rangeI subsetI)
  moreover have "distinct (map obj_id obs)"
    using i assms(2) by (simp add: distinct_map inj_def inj_on_def)
  moreover have "dom m = obj_id ` set obs"
    using formation_dom [of ids name t sd] f by simp
  ultimately show ?thesis
    unfolding addFormation_def f Let_def using assms
    by (simp, intro wf_add_to_step) auto
qed

lemma strip_step_ok: "step_ok ids st \<Longrightarrow> step_ok (ids - {i}) (strip_step i st)"
  by (auto simp: step_ok_def strip_step_def split: if_splits)

lemma strip_step_id [simp]: "step_id (strip_step i st) = step_id st"
  by (simp add: strip_step_def)

lemma distinct_map_filter': "distinct (map f xs) \<Longrightarrow> distinct (map f (filter P xs))"
  by (induction xs) auto

lemma wf_store_doc:
  assumes "wf_store s"
  shows "good_doc (sdoc s)" "distinct (map obj_id (objects (sdoc s)))" "steps (sdoc s) \<noteq> []"
  using assms by (simp_all add: wf_store_def good_doc_def)

lemma good_doc_map:
  assumes "good_doc d" "steps e = map f (steps d)" "\<And>st. step_id (f st) = step_id st"
    and "distinct (map obj_id (objects e))"
    and "\<And>st. step_ok (object_ids d) st \<Longrightarrow> step_ok (object_ids e) (f st)"
  shows "good_doc e"
proof -
  have "map step_id (steps e) = map step_id (steps d)" by (simp add: assms(2,3))
  then have "distinct (map step_id (steps e))" using assms(1) by (simp add: good_doc_def)
  moreover have "\<forall>st\<in>set (steps e). step_ok (object_ids e) st"
    using assms(1,2,5) by (auto simp: good_doc_def)
  ultimately show ?thesis using assms(1,2,4) by (simp add: good_doc_def)
qed

lemma wf_deleteSelection:
  assumes "wf_store s"
  shows "wf_store (deleteSelection s)"
proof (cases "selection s")
  case None
  with assms show ?thesis by (simp add: deleteSelection_def)
next
  case (Some t)
  show ?thesis
  proof (cases t)
    case (OnObject i)
    let ?d = "(sdoc s)\<lparr>objects := filter (\<lambda>ob. obj_id ob \<noteq> i) (objects (sdoc s)),
                      steps := map (strip_step i) (steps (sdoc s))\<rparr>"
    have "object_ids ?d = object_ids (sdoc s) - {i}" by (auto simp: object_ids_def)
    then have "good_doc ?d"
      using wf_store_doc [OF assms]
      by (intro good_doc_map [OF wf_store_doc(1) [OF assms], of _ "strip_step i"])
        (simp_all add: strip_step_ok distinct_map_filter')
    then have "wf_store (apply_doc ?d Once s)" by (intro wf_apply_same assms) simp_all
    with Some OnObject show ?thesis by (simp add: deleteSelection_def)
  next
    case (OnDrawing i)
    have "wf_store (apply_doc (withCurrentStep s
        (\<lambda>st. st\<lparr>drawings := filter (\<lambda>d. drawing_id d \<noteq> i) (drawings st)\<rparr>)) Once s)"
      by (rule wf_withCurrentStep [OF assms]) (auto simp: step_ok_def)
    with Some OnDrawing show ?thesis by (simp add: deleteSelection_def)
  qed
qed

lemma wf_removeTeam:
  assumes "wf_store s"
  shows "wf_store (removeTeam t s)"
proof -
  let ?gone = "team_ids_of t (sdoc s)"
  let ?d = "(sdoc s)\<lparr>objects := filter (\<lambda>ob. obj_id ob \<notin> ?gone) (objects (sdoc s)),
                     steps := map (\<lambda>st. st\<lparr>pos := pos st |` (- ?gone)\<rparr>) (steps (sdoc s))\<rparr>"
  have "object_ids ?d = object_ids (sdoc s) - ?gone" by (auto simp: object_ids_def)
  moreover have "step_ok (ids - ?gone) (st\<lparr>pos := pos st |` (- ?gone)\<rparr>)" if "step_ok ids st" for ids st
    using that by (auto simp: step_ok_def)
  ultimately have "good_doc ?d"
    using wf_store_doc [OF assms]
    by (intro good_doc_map [OF wf_store_doc(1) [OF assms], of _ "\<lambda>st. st\<lparr>pos := pos st |` (- ?gone)\<rparr>"])
      (simp_all add: distinct_map_filter')
  then have "wf_store (apply_doc ?d Once s)" by (intro wf_apply_same assms) simp_all
  then show ?thesis using assms by (simp add: removeTeam_def Let_def)
qed

lemma patch_object_id [simp]: "obj_id (foldl patch_object ob ps) = obj_id ob"
proof -
  have "obj_id (patch_object ob p) = obj_id ob" for ob p by (cases p) auto
  then show ?thesis by (induction ps arbitrary: ob) auto
qed

lemma wf_updateObject:
  assumes "wf_store s"
  shows "wf_store (updateObject i ps s)"
proof -
  let ?f = "\<lambda>ob. if obj_id ob = i then clean_object (foldl patch_object ob ps) else ob"
  let ?d = "(sdoc s)\<lparr>objects := map ?f (objects (sdoc s))\<rparr>"
  have ids: "map obj_id (objects ?d) = map obj_id (objects (sdoc s))"
    by (simp add: clean_object_def)
  then have "set (map obj_id (objects ?d)) = set (map obj_id (objects (sdoc s)))" by metis
  then have "object_ids ?d = object_ids (sdoc s)" unfolding object_ids_def set_map .
  with ids have "good_doc ?d"
    using wf_store_doc [OF assms]
    by (intro good_doc_map [OF wf_store_doc(1) [OF assms], of _ id]) (simp_all del: map_map list.map_comp)
  then show ?thesis unfolding updateObject_def by (intro wf_apply_same assms) simp_all
qed

lemma wf_settings:
  assumes "wf_store s" "objects d = objects (sdoc s)" "steps d = steps (sdoc s)"
  shows "wf_store (apply_doc d f s)"
  using assms by (intro wf_apply_same) (simp_all add: wf_store_def good_doc_def object_ids_def)

lemma wf_setPitch: "wf_store s \<Longrightarrow> wf_store (setPitch ps s)"
  unfolding setPitch_def by (rule wf_settings) simp_all

lemma wf_setKit: "wf_store s \<Longrightarrow> wf_store (setKit t ps s)"
  unfolding setKit_def by (rule wf_settings) simp_all

lemma wf_clearBoard: "wf_store s \<Longrightarrow> wf_store (clearBoard nid s)"
proof -
  assume s: "wf_store s"
  have "good_doc ((sdoc s)\<lparr>objects := [], steps := [newStep nid]\<rparr>)"
    by (simp add: good_doc_def step_ok_def)
  with s have "wf_store ((apply_doc ((sdoc s)\<lparr>objects := [], steps := [newStep nid]\<rparr>) Once s)
      \<lparr>stepIndex := 0\<rparr>)"
    by (intro wf_apply) simp_all
  then show ?thesis by (simp add: clearBoard_def)
qed

section \<open>The step operations keep the invariant\<close>

lemma wf_goToStep: "wf_store s \<Longrightarrow> wf_store (goToStep i s)"
proof -
  assume s: "wf_store s"
  let ?k = "max 0 (min (int (length (steps (sdoc s))) - 1) i)"
  have "0 < length (steps (sdoc s))" using wf_store_doc(3) [OF s] by simp
  then have "0 \<le> ?k" "?k < int (length (steps (sdoc s)))" by auto
  with s have "wf_store (s\<lparr>stepIndex := ?k\<rparr>)" by (simp add: wf_store_def)
  then show ?thesis by (simp add: goToStep_def)
qed

lemma step_ok_empty: "step_ok ids (newStep nid)"
  by (simp add: step_ok_def)

lemma good_insert_step:
  assumes "good_doc d" "step_id st \<notin> step_id ` set (steps d)" "step_ok (object_ids d) st"
  shows "good_doc (d\<lparr>steps := insert_at k st (steps d)\<rparr>)"
proof -
  have "distinct (map step_id (insert_at k st (steps d)))"
  proof -
    have "distinct (map step_id (take k (steps d)) @ map step_id (drop k (steps d)))"
      using assms(1) by (metis append_take_drop_id good_doc_def map_append)
    moreover have "step_id st \<notin> step_id ` set (take k (steps d))"
      "step_id st \<notin> step_id ` set (drop k (steps d))"
      using assms(2) by (auto dest: in_set_takeD in_set_dropD)
    ultimately show ?thesis by (auto simp: insert_at_def)
  qed
  then show ?thesis
    using assms by (auto simp: good_doc_def object_ids_def set_insert_at)
qed

lemma wf_addStep:
  assumes "wf_store s" "nid \<notin> step_id ` set (steps (sdoc s))"
  shows "wf_store (addStep nid s)"
proof -
  have "good_doc ((sdoc s)\<lparr>steps := insert_at (nat (stepIndex s + 1)) (newStep nid) (steps (sdoc s))\<rparr>)"
    using assms by (intro good_insert_step) (auto simp: wf_store_def step_ok_empty)
  with assms(1) show ?thesis
    unfolding addStep_def Let_def wf_drop_selection
    by (intro wf_apply) (auto simp: wf_store_def)
qed

lemma nth_opt_current:
  "wf_store s \<Longrightarrow> nth_opt (steps (sdoc s)) (stepIndex s) = Some (steps (sdoc s) ! nat (stepIndex s))"
  by (simp add: wf_store_def nth_opt_def)

lemma wf_duplicateStep:
  assumes "wf_store s" "nid \<notin> step_id ` set (steps (sdoc s))"
  shows "\<exists>s'. duplicateStep nid dids s = Inr s' \<and> wf_store s'"
proof -
  let ?st = "steps (sdoc s) ! nat (stepIndex s)"
  have "nat (stepIndex s) < length (steps (sdoc s))" using assms(1) by (auto simp: wf_store_def)
  then have "?st \<in> set (steps (sdoc s))" by (rule nth_mem)
  then have "\<forall>d\<in>set (drawings ?st). points d \<noteq> []"
    using assms(1) by (simp add: wf_store_def good_doc_def step_ok_def)
  then have "step_ok (object_ids (sdoc s)) (copy_step nid dids ?st)"
    by (auto simp: step_ok_def copy_step_def dest!: in_set_enumerate_eq [THEN iffD1])
  then have "good_doc ((sdoc s)\<lparr>steps := insert_at (nat (stepIndex s + 1)) (copy_step nid dids ?st) (steps (sdoc s))\<rparr>)"
    using assms by (intro good_insert_step) (auto simp: wf_store_def copy_step_def)
  then have "wf_store ((apply_doc ((sdoc s)\<lparr>steps := insert_at (nat (stepIndex s + 1))
      (copy_step nid dids ?st) (steps (sdoc s))\<rparr>) Once s)\<lparr>stepIndex := stepIndex s + 1\<rparr>)"
    using assms(1) by (intro wf_apply) (auto simp: wf_store_def)
  then show ?thesis using assms(1) by (simp add: duplicateStep_def Let_def nth_opt_current)
qed

lemma distinct_move_elem:
  "from < length xs \<Longrightarrow> distinct xs \<Longrightarrow> distinct (move_elem from to xs)"
  by (rule card_distinct) (simp add: set_move_elem distinct_card)

lemma reordered_step_ids:
  "map step_id (reordered_steps d order) = map (\<lambda>j. step_id (steps d ! j)) order"
  by (rule nth_equalityI) (simp_all add: reordered_steps_def)

lemma dom_pos_diff: "dom (pos_diff b h) \<subseteq> dom h"
  by (auto simp: pos_diff_def split: option.splits)

lemma dom_positionsAt: "dom (positionsAt d i) \<subseteq> object_ids d"
  by (auto simp: positionsAt_def object_ids_def split: if_splits)

lemma good_reordered:
  assumes "good_doc d" "set order = {..<length (steps d)}" "distinct order"
  shows "good_doc (d\<lparr>steps := reordered_steps d order\<rparr>)"
proof -
  let ?e = "d\<lparr>steps := reordered_steps d order\<rparr>"
  have "length order = length (steps d)" using distinct_card [OF assms(3)] assms(2) by simp
  then have ne: "steps ?e \<noteq> []" using assms(1) by (auto simp: good_doc_def reordered_steps_def)
  have "inj_on (\<lambda>j. step_id (steps d ! j)) (set order)"
    using assms(1,2) by (auto simp: good_doc_def inj_on_def distinct_conv_nth)
  then have ids: "distinct (map step_id (steps ?e))"
    using assms(3) by (simp add: reordered_step_ids distinct_map)
  have "step_ok (object_ids d) st" if "st \<in> set (steps ?e)" for st
  proof -
    from that obtain k b where k: "k < length order"
      and st: "st = (steps d ! (order ! k))\<lparr>pos := pos_diff b (positionsAt d (int (order ! k)))\<rparr>"
      by (auto simp: reordered_steps_def)
    from k assms(2) have "order ! k < length (steps d)" by (metis lessThan_iff nth_mem)
    then have "\<forall>dr\<in>set (drawings (steps d ! (order ! k))). points dr \<noteq> []"
      using assms(1) by (auto simp: good_doc_def step_ok_def)
    then show ?thesis
      using dom_pos_diff [of b "positionsAt d (int (order ! k))"] dom_positionsAt [of d "int (order ! k)"]
      by (auto simp: st step_ok_def)
  qed
  with ne ids assms(1) show ?thesis by (simp add: good_doc_def object_ids_def)
qed

lemma moveStep_order:
  assumes "from < length xs"
  shows "set (move_elem from to [0..<length xs]) = {..<length xs}"
    "distinct (move_elem from to [0..<length xs])"
  using assms by (simp_all add: set_move_elem distinct_move_elem atLeast0LessThan)

lemma wf_moveStep:
  assumes "wf_store s"
  shows "wf_store (moveStep from to0 s)"
proof -
  let ?n = "length (steps (sdoc s))"
  define to' where "to' = max 0 (min (int ?n - 1) to0)"
  have n: "0 < ?n" using wf_store_doc(3) [OF assms] by simp
  then have to: "0 \<le> to'" "to' < int ?n" by (auto simp: to'_def)
  have "wf_store ((apply_doc ((sdoc s)\<lparr>steps := reordered_steps (sdoc s)
      (move_elem (nat from) (nat to') [0..<?n])\<rparr>) Once s)\<lparr>stepIndex := to'\<rparr>)"
    if "0 \<le> from" "from < int ?n"
  proof (rule wf_apply [OF assms good_reordered [OF wf_store_doc(1) [OF assms]]])
    show "set (move_elem (nat from) (nat to') [0..<?n]) = {..<?n}"
      "distinct (move_elem (nat from) (nat to') [0..<?n])"
      using that by (auto intro!: moveStep_order)
  qed (use that to in \<open>simp_all add: reordered_steps_def\<close>)
  then show ?thesis
    using assms unfolding moveStep_def Let_def to'_def [symmetric] by simp
qed

lemma good_remove_step:
  assumes d: "good_doc d" and i: "i < length (steps d)" and n: "1 < length (steps d)"
    and f: "\<And>st. step_id (f st) = step_id st"
      "\<And>st. step_ok (object_ids d) st \<Longrightarrow> step_ok (object_ids d) (f st)"
  shows "good_doc (d\<lparr>steps := modify_at i f (remove_at i (steps d))\<rparr>)"
proof -
  have sub: "set (remove_at i (steps d)) \<subseteq> set (steps d)"
    by (auto simp: remove_at_def dest: in_set_takeD in_set_dropD)
  have "map step_id (remove_at i (steps d)) = remove_at i (map step_id (steps d))"
    by (simp add: remove_at_def take_map drop_map)
  moreover have "distinct (remove_at i xs)" if "distinct xs" "i < length xs" for xs :: "ident list"
  proof -
    have "xs = take i xs @ xs ! i # drop (Suc i) xs" using that(2) by (rule id_take_nth_drop)
    then have "distinct (take i xs @ xs ! i # drop (Suc i) xs)" using that(1) by metis
    then show ?thesis by (auto simp: remove_at_def)
  qed
  ultimately have "distinct (map step_id (modify_at i f (remove_at i (steps d))))"
    using d i f(1) by (simp add: map_modify_at_same good_doc_def)
  moreover have "0 < length (remove_at i (steps d))" unfolding length_remove_at [OF i] using n by simp
  then have "remove_at i (steps d) \<noteq> []" by simp
  moreover have "\<forall>st\<in>set (modify_at i f (remove_at i (steps d))). step_ok (object_ids d) st"
  proof
    fix st
    assume "st \<in> set (modify_at i f (remove_at i (steps d)))"
    then have "st \<in> set (remove_at i (steps d)) \<or> st \<in> f ` set (remove_at i (steps d))"
      using set_modify_at [of i f "remove_at i (steps d)"] by blast
    moreover have "step_ok (object_ids d) x" if "x \<in> set (remove_at i (steps d))" for x
      using that sub d by (auto simp: good_doc_def)
    ultimately show "step_ok (object_ids d) st" using f(2) by blast
  qed
  ultimately show ?thesis using d by (simp add: good_doc_def object_ids_def)
qed

lemma deleteStep_eq:
  assumes "wf_store s" "1 < length (steps (sdoc s))"
  shows "deleteStep s = Inr ((apply_doc ((sdoc s)\<lparr>steps := modify_at (nat (stepIndex s))
      (\<lambda>st. st\<lparr>pos := pos (steps (sdoc s) ! nat (stepIndex s)) ++ pos st\<rparr>)
      (remove_at (nat (stepIndex s)) (steps (sdoc s)))\<rparr>) Once s)
    \<lparr>stepIndex := min (stepIndex s) (int (length (steps (sdoc s))) - 2), selection := None\<rparr>)"
proof -
  have "nat (stepIndex s) < length (steps (sdoc s))" "0 \<le> stepIndex s"
    using assms(1) by (auto simp: wf_store_def)
  then show ?thesis using assms(2) by (simp add: deleteStep_def Let_def modify_at_def of_nat_diff)
qed

lemma wf_deleteStep:
  assumes s: "wf_store s"
  shows "\<exists>s'. deleteStep s = Inr s' \<and> wf_store s'"
proof (cases "length (steps (sdoc s)) \<le> 1")
  case True
  with s show ?thesis by (simp add: deleteStep_def)
next
  case False
  let ?i = "nat (stepIndex s)"
  let ?f = "\<lambda>st. st\<lparr>pos := pos (steps (sdoc s) ! ?i) ++ pos st\<rparr>"
  have i: "?i < length (steps (sdoc s))" "0 \<le> stepIndex s" using s by (auto simp: wf_store_def)
  then have "dom (pos (steps (sdoc s) ! ?i)) \<subseteq> object_ids (sdoc s)"
    using s by (auto simp: wf_store_def good_doc_def step_ok_def)
  then have "good_doc ((sdoc s)\<lparr>steps := modify_at ?i ?f (remove_at ?i (steps (sdoc s)))\<rparr>)"
    using s i False by (intro good_remove_step wf_store_doc) (auto simp: step_ok_def)
  then have "wf_store ((apply_doc ((sdoc s)\<lparr>steps := modify_at ?i ?f (remove_at ?i (steps (sdoc s)))\<rparr>) Once s)
      \<lparr>stepIndex := min (stepIndex s) (int (length (steps (sdoc s))) - 2)\<rparr>)"
    using s i False by (intro wf_apply) auto
  then show ?thesis using s False by (simp add: deleteStep_eq)
qed

section \<open>Undo and redo keep the invariant\<close>

lemma wf_afterHistory:
  assumes "good_doc (sdoc s)" "0 \<le> stepIndex s"
    "\<forall>d\<in>set (undoStack s) \<union> set (redoStack s). good_doc d"
    "length (undoStack s) + length (redoStack s) \<le> HISTORY_LIMIT"
  shows "\<exists>s'. afterHistory s = Inr s' \<and> wf_store s' \<and> sdoc s' = sdoc s
    \<and> undoStack s' = undoStack s \<and> redoStack s' = redoStack s \<and> \<not> gestureOpen s'"
proof -
  let ?t = "s\<lparr>gestureOpen := False, dirty := True,
    stepIndex := min (stepIndex s) (int (length (steps (sdoc s))) - 1)\<rparr>"
  have "0 < length (steps (sdoc s))" using assms(1) by (auto simp: good_doc_def)
  then have ix: "0 \<le> stepIndex ?t" "stepIndex ?t < int (length (steps (sdoc s)))"
    using assms(2) by auto
  have t: "wf_store ?t" using assms ix by (simp add: wf_store_def)
  have "cur_step ?t = Some (steps (sdoc s) ! nat (stepIndex ?t))"
    using ix by (simp add: cur_step_def nth_opt_def)
  with t show ?thesis
    unfolding afterHistory_def Let_def by (auto split: option.split target.split)
qed

lemma wf_history_room:
  assumes "wf_store s"
  shows "undoStack s \<noteq> [] \<Longrightarrow>
      Suc (length (undoStack s) - Suc 0 + length (redoStack s)) \<le> HISTORY_LIMIT"
    "redoStack s \<noteq> [] \<Longrightarrow>
      Suc (length (undoStack s) + (length (redoStack s) - Suc 0)) \<le> HISTORY_LIMIT"
  using assms by (cases "undoStack s"; cases "redoStack s"; simp add: wf_store_def)+

lemma wf_undo:
  assumes "wf_store s" "undoStack s \<noteq> []"
  shows "\<exists>s'. undo s = Inr s' \<and> wf_store s' \<and> sdoc s' = last (undoStack s)
    \<and> undoStack s' = butlast (undoStack s) \<and> redoStack s' = redoStack s @ [sdoc s] \<and> \<not> gestureOpen s'"
proof -
  let ?t = "s\<lparr>redoStack := redoStack s @ [sdoc s], sdoc := last (undoStack s),
              undoStack := butlast (undoStack s)\<rparr>"
  have "\<exists>s'. afterHistory ?t = Inr s' \<and> wf_store s' \<and> sdoc s' = sdoc ?t
    \<and> undoStack s' = undoStack ?t \<and> redoStack s' = redoStack ?t \<and> \<not> gestureOpen s'"
    using assms wf_history_room [OF assms(1)]
    by (intro wf_afterHistory) (auto simp: wf_store_def dest: in_set_butlastD)
  then show ?thesis using assms(2) by (simp add: undo_def)
qed

lemma wf_redo:
  assumes "wf_store s" "redoStack s \<noteq> []"
  shows "\<exists>s'. redo s = Inr s' \<and> wf_store s' \<and> sdoc s' = last (redoStack s)
    \<and> redoStack s' = butlast (redoStack s) \<and> undoStack s' = undoStack s @ [sdoc s] \<and> \<not> gestureOpen s'"
proof -
  let ?t = "s\<lparr>undoStack := undoStack s @ [sdoc s], sdoc := last (redoStack s),
              redoStack := butlast (redoStack s)\<rparr>"
  have "\<exists>s'. afterHistory ?t = Inr s' \<and> wf_store s' \<and> sdoc s' = sdoc ?t
    \<and> undoStack s' = undoStack ?t \<and> redoStack s' = redoStack ?t \<and> \<not> gestureOpen s'"
    using assms wf_history_room [OF assms(1)]
    by (intro wf_afterHistory) (auto simp: wf_store_def dest: in_set_butlastD)
  then show ?thesis using assms(2) by (simp add: redo_def) blast
qed

lemmas wf_ops = wf_moveObject wf_bendPath wf_straighten wf_toggleIn wf_updateStep wf_updateDrawing
  wf_placeText wf_place wf_duplicateSelection wf_addFormation wf_deleteSelection wf_removeTeam
  wf_updateObject wf_setPitch wf_setKit wf_clearBoard wf_goToStep wf_addStep wf_moveStep

lemmas wf_partial_ops = wf_stroke wf_editDrawing wf_duplicateStep wf_deleteStep

lemma exec_wf:
  assumes "wf_store s" "sensible s ev"
  shows "\<exists>s'. exec ev s = Inr s' \<and> wf_store s'"
proof (cases ev)
  case EUndo
  with assms wf_undo [of s] show ?thesis by (cases "undoStack s = []") (auto simp: undo_def)
next
  case ERedo
  with assms wf_redo [of s] show ?thesis by (cases "redoStack s = []") (auto simp: redo_def)
next
  case (ELoad d)
  then have "good_doc d" using assms by simp
  then have "wf_store (load d s)" by (simp add: load_def wf_store_def) (simp add: good_doc_def)
  with ELoad show ?thesis by simp
qed (use assms wf_partial_ops [OF assms(1)] in \<open>simp_all add: wf_ops markSaved_def\<close>)

lemma reachable_wf: "reachable s \<Longrightarrow> wf_store s"
proof (induction rule: reachable.induct)
  case (reach_new nid)
  show ?case by (rule wf_new)
next
  case (reach_exec s ev s')
  from exec_wf [OF reach_exec.IH reach_exec.hyps(2)] reach_exec.hyps(3) show ?case by auto
qed



section \<open>Undo and redo as a tape\<close>

text \<open>
  The contract of an undo history.  Its states read as a tape, the past versions in order, the current
  one and the undone ones, with a cursor on the current one: undo and redo move the cursor and leave
  the tape alone, an edit either changes nothing or cuts the tape after the cursor and adds a version,
  dropping the oldest when there are too many.
\<close>

locale edit_history =
  fixes current :: "'s \<Rightarrow> 'd"
    and past future :: "'s \<Rightarrow> 'd list"
    and edit :: "'s \<Rightarrow> 's \<Rightarrow> bool"
    and undo_one redo_one :: "'s \<Rightarrow> 's"
    and ok :: "'s \<Rightarrow> bool"
    and limit :: nat
  assumes edit_law: "ok s \<Longrightarrow> edit s t \<Longrightarrow> ok t \<and>
      (current t = current s \<and> past t = past s \<and> future t = future s \<or>
       past t = last_n (limit - 1) (past s) @ [current s] \<and> future t = [])"
    and undo_law: "ok s \<Longrightarrow> past s \<noteq> [] \<Longrightarrow> ok (undo_one s) \<and> current (undo_one s) = last (past s)
      \<and> past (undo_one s) = butlast (past s) \<and> future (undo_one s) = future s @ [current s]"
    and redo_law: "ok s \<Longrightarrow> future s \<noteq> [] \<Longrightarrow> ok (redo_one s) \<and> current (redo_one s) = last (future s)
      \<and> future (redo_one s) = butlast (future s) \<and> past (redo_one s) = past s @ [current s]"
begin

definition tape :: "'s \<Rightarrow> 'd list" where
  "tape s = past s @ current s # rev (future s)"

lemma tape_cursor: "tape s ! length (past s) = current s"
  by (simp add: tape_def)

lemma tape_undo: "ok s \<Longrightarrow> past s \<noteq> [] \<Longrightarrow> tape (undo_one s) = tape s"
  using undo_law [of s] by (simp add: tape_def)

lemma tape_redo: "ok s \<Longrightarrow> future s \<noteq> [] \<Longrightarrow> tape (redo_one s) = tape s"
proof -
  assume s: "ok s" "future s \<noteq> []"
  obtain xs x where f: "future s = xs @ [x]" using s(2) by (cases "future s" rule: rev_cases) auto
  show ?thesis using redo_law [OF s] by (simp add: tape_def f)
qed

lemma undo_many:
  "ok s \<Longrightarrow> n \<le> length (past s) \<Longrightarrow>
   ok ((undo_one ^^ n) s) \<and> tape ((undo_one ^^ n) s) = tape s
     \<and> length (past ((undo_one ^^ n) s)) = length (past s) - n"
proof (induction n)
  case (Suc n)
  then have ih: "ok ((undo_one ^^ n) s)" "tape ((undo_one ^^ n) s) = tape s"
    "length (past ((undo_one ^^ n) s)) = length (past s) - n" by auto
  with Suc.prems have "past ((undo_one ^^ n) s) \<noteq> []" by auto
  with ih show ?case
    using undo_law [of "(undo_one ^^ n) s"] tape_undo [of "(undo_one ^^ n) s"] by auto
qed simp

lemma redo_many:
  "ok s \<Longrightarrow> n \<le> length (future s) \<Longrightarrow>
   ok ((redo_one ^^ n) s) \<and> tape ((redo_one ^^ n) s) = tape s
     \<and> length (past ((redo_one ^^ n) s)) = length (past s) + n
     \<and> length (future ((redo_one ^^ n) s)) = length (future s) - n"
proof (induction n)
  case (Suc n)
  then have ih: "ok ((redo_one ^^ n) s)" "tape ((redo_one ^^ n) s) = tape s"
    "length (past ((redo_one ^^ n) s)) = length (past s) + n"
    "length (future ((redo_one ^^ n) s)) = length (future s) - n" by auto
  with Suc.prems have "future ((redo_one ^^ n) s) \<noteq> []" by auto
  with ih show ?case
    using redo_law [of "(redo_one ^^ n) s"] tape_redo [of "(redo_one ^^ n) s"] by auto
qed simp

lemma undo_redo_back:
  assumes s: "ok s" and n: "n \<le> length (past s)"
  shows "current ((redo_one ^^ n) ((undo_one ^^ n) s)) = current s"
proof -
  let ?u = "(undo_one ^^ n) s"
  have u: "ok ?u" "tape ?u = tape s" "length (past ?u) = length (past s) - n"
    using undo_many [OF s n] by auto
  have "length (tape ?u) = length (tape s)" using u by simp
  then have f: "n \<le> length (future ?u)" using u n by (simp add: tape_def)
  from redo_many [OF u(1) f] u n
  have "tape ((redo_one ^^ n) ?u) = tape s" "length (past ((redo_one ^^ n) ?u)) = length (past s)"
    by auto
  then show ?thesis using tape_cursor by metis
qed

lemma edits_keep_first:
  assumes "ok s" "past s = []" "(edit ^^ n) s t" "n \<le> limit"
  shows "ok t \<and> length (past t) \<le> n \<and> hd (tape t) = current s"
  using assms(3,4)
proof (induction n arbitrary: t)
  case 0
  then show ?case using assms by (simp add: tape_def)
next
  case (Suc n)
  then obtain r where r: "(edit ^^ n) s r" "edit r t" by (auto elim: relpowp_Suc_E)
  with Suc have ih: "ok r" "length (past r) \<le> n" "hd (tape r) = current s" by auto
  with edit_law [OF ih(1) r(2)] Suc.prems show ?case
    by (cases "past r") (auto simp: tape_def)
qed

lemma edits_undone:
  assumes "ok s" "past s = []" "(edit ^^ n) s t" "n \<le> limit"
  shows "current ((undo_one ^^ length (past t)) t) = current s"
proof -
  have t: "ok t" "hd (tape t) = current s" using edits_keep_first [OF assms] by auto
  have "tape ((undo_one ^^ length (past t)) t) = tape t"
    "past ((undo_one ^^ length (past t)) t) = []"
    using undo_many [OF t(1), of "length (past t)"] by auto
  with t(2) show ?thesis by (metis append_Nil list.sel(1) tape_def)
qed

end

section \<open>The history of the store\<close>

fun is_edit :: "event \<Rightarrow> bool" where
  "is_edit (EMoveObject i p d) \<longleftrightarrow> d"
| "is_edit (EBend i p d) \<longleftrightarrow> d"
| "is_edit (EEditDrawing i c d) \<longleftrightarrow> d"
| "is_edit EUndo \<longleftrightarrow> False"
| "is_edit ERedo \<longleftrightarrow> False"
| "is_edit (ELoad d) \<longleftrightarrow> False"
| "is_edit _ \<longleftrightarrow> True"

definition edit_call :: "editor \<Rightarrow> editor \<Rightarrow> bool" where
  "edit_call s t \<longleftrightarrow> (\<exists>ev. is_edit ev \<and> sensible s ev \<and> exec ev s = Inr t)"

definition undo_op :: "editor \<Rightarrow> editor" where
  "undo_op s = (case undo s of Inr t \<Rightarrow> t | Inl _ \<Rightarrow> s)"

definition redo_op :: "editor \<Rightarrow> editor" where
  "redo_op s = (case redo s of Inr t \<Rightarrow> t | Inl _ \<Rightarrow> s)"

definition settled :: "editor \<Rightarrow> bool" where
  "settled s \<longleftrightarrow> wf_store s \<and> \<not> gestureOpen s"

definition quiet :: "editor \<Rightarrow> editor \<Rightarrow> bool" where
  "quiet s t \<longleftrightarrow> sdoc t = sdoc s \<and> undoStack t = undoStack s \<and> redoStack t = redoStack s
     \<and> gestureOpen t = gestureOpen s"

definition recorded :: "editor \<Rightarrow> editor \<Rightarrow> bool" where
  "recorded s t \<longleftrightarrow> undoStack t = last_n (HISTORY_LIMIT - 1) (undoStack s) @ [sdoc s]
     \<and> redoStack t = [] \<and> \<not> gestureOpen t"

lemma recorded_apply:
  "\<not> gestureOpen s \<Longrightarrow> g \<noteq> Move \<Longrightarrow> recorded s (apply_doc d g s)"
  by (simp add: recorded_def apply_doc_undo)

lemma recorded_apply_preview:
  "\<not> gestureOpen s \<Longrightarrow> g \<noteq> Move \<Longrightarrow> recorded s (apply_doc d g (s\<lparr>preview := r\<rparr>))"
  by (simp add: recorded_def apply_doc_undo)

lemma recorded_irrelevant [simp]:
  "recorded s (t\<lparr>selection := x\<rparr>) = recorded s t" "recorded s (t\<lparr>stepIndex := k\<rparr>) = recorded s t"
  "recorded s (t\<lparr>tool := u\<rparr>) = recorded s t" "recorded s (t\<lparr>focusText := v\<rparr>) = recorded s t"
  "recorded (s\<lparr>preview := r\<rparr>) t = recorded s t"
  "recorded s (drop_drawing_selection t) = recorded s t"
  by (simp_all add: recorded_def drop_drawing_selection_def split: option.split target.split)

lemma quiet_irrelevant [simp]:
  "quiet s (t\<lparr>selection := x\<rparr>) = quiet s t" "quiet s (t\<lparr>stepIndex := k\<rparr>) = quiet s t"
  "quiet s (t\<lparr>tool := u\<rparr>) = quiet s t" "quiet s (t\<lparr>placing := p\<rparr>) = quiet s t"
  "quiet s (t\<lparr>pen := q\<rparr>) = quiet s t" "quiet s (t\<lparr>preview := r\<rparr>) = quiet s t"
  "quiet s (t\<lparr>dirty := b\<rparr>) = quiet s t"
  "quiet s (drop_drawing_selection t) = quiet s t" "quiet s s"
  by (simp_all add: quiet_def drop_drawing_selection_def split: option.split target.split)

lemmas edit_defs = place_def moveObject_def bendPath_def straighten_def updateObject_def toggleIn_def
  duplicateSelection_def deleteSelection_def addFormation_def removeTeam_def stroke_def placeText_def
  editDrawing_def updateDrawing_def goToStep_def addStep_def duplicateStep_def moveStep_def
  deleteStep_def updateStep_def setPitch_def setKit_def clearBoard_def markSaved_def done_phase_def

lemma edit_recorded_or_quiet:
  assumes "\<not> gestureOpen s" "is_edit ev" "exec ev s = Inr t"
  shows "quiet s t \<or> recorded s t"
  using assms
  by (cases ev)
    (auto simp: edit_defs Let_def recorded_apply recorded_apply_preview
      split: option.splits target.splits prod.splits if_splits)

lemma edit_call_law:
  assumes "settled s" "edit_call s t"
  shows "settled t \<and> (sdoc t = sdoc s \<and> undoStack t = undoStack s \<and> redoStack t = redoStack s \<or>
    undoStack t = last_n (HISTORY_LIMIT - 1) (undoStack s) @ [sdoc s] \<and> redoStack t = [])"
proof -
  from assms(2) obtain ev where ev: "is_edit ev" "sensible s ev" "exec ev s = Inr t"
    by (auto simp: edit_call_def)
  have "wf_store t" using exec_wf [of s ev] assms(1) ev by (auto simp: settled_def)
  with edit_recorded_or_quiet [OF _ ev(1,3)] assms(1) show ?thesis
    by (auto simp: settled_def quiet_def recorded_def)
qed

lemma undo_op_law:
  "settled s \<Longrightarrow> undoStack s \<noteq> [] \<Longrightarrow> settled (undo_op s) \<and> sdoc (undo_op s) = last (undoStack s)
    \<and> undoStack (undo_op s) = butlast (undoStack s) \<and> redoStack (undo_op s) = redoStack s @ [sdoc s]"
  using wf_undo [of s] by (auto simp: settled_def undo_op_def)

lemma redo_op_law:
  "settled s \<Longrightarrow> redoStack s \<noteq> [] \<Longrightarrow> settled (redo_op s) \<and> sdoc (redo_op s) = last (redoStack s)
    \<and> redoStack (redo_op s) = butlast (redoStack s) \<and> undoStack (redo_op s) = undoStack s @ [sdoc s]"
  using wf_redo [of s] by (auto simp: settled_def redo_op_def)

interpretation store: edit_history
  sdoc undoStack redoStack edit_call undo_op redo_op settled HISTORY_LIMIT
  by unfold_locales (rule edit_call_law undo_op_law redo_op_law; assumption)+

text \<open>
  C2. Undo goes all the way back: after at most a hundred edits of a board with no history, undoing
  until there is nothing to undo gives the board as it was, and redoing as often gives the edited board.
\<close>
theorem undo_goes_all_the_way_back:
  assumes "settled s" "undoStack s = []" "(edit_call ^^ n) s t" "n \<le> 100"
  defines "m \<equiv> length (undoStack t)"
  shows "sdoc ((undo_op ^^ m) t) = sdoc s \<and> sdoc ((redo_op ^^ m) ((undo_op ^^ m) t)) = sdoc t"
proof
  have n: "n \<le> HISTORY_LIMIT" using assms(4) by (simp add: HISTORY_LIMIT_def)
  show "sdoc ((undo_op ^^ m) t) = sdoc s"
    unfolding m_def by (rule store.edits_undone [OF assms(1,2,3) n])
  have "settled t" using store.edits_keep_first [OF assms(1,2,3) n] by simp
  then show "sdoc ((redo_op ^^ m) ((undo_op ^^ m) t)) = sdoc t"
    unfolding m_def by (rule store.undo_redo_back) simp
qed

theorem undo_goes_all_the_way_back_witness:
  "sdoc ((undo_op ^^ 1) (addStep ''b'' (new_editor ''a''))) = emptyDoc ''a''"
proof -
  let ?s = "new_editor ''a''"
  have e: "edit_call ?s (addStep ''b'' ?s)"
    unfolding edit_call_def by (rule exI [of _ "EAddStep ''b''"]) (simp add: new_editor_def)
  have "undoStack (addStep ''b'' ?s) = [emptyDoc ''a'']"
    by (simp add: addStep_def Let_def drop_drawing_selection_def new_editor_def apply_doc_undo last_n_def)
  moreover have "settled ?s" "undoStack ?s = []" "sdoc ?s = emptyDoc ''a''"
    by (simp_all add: settled_def wf_new) (simp_all add: new_editor_def)
  moreover have "(edit_call ^^ 1) ?s (addStep ''b'' ?s)" using e by (simp only: relpowp_1)
  ultimately show ?thesis
    using undo_goes_all_the_way_back [of ?s 1 "addStep ''b'' ?s"] by simp
qed

section \<open>Drags\<close>

lemma drag_one_entry:
  assumes "wf_store s" "\<not> gestureOpen s" "i \<in> object_ids (sdoc s)"
    and t: "t = moveObject i q True (foldl (\<lambda>s p. moveObject i p False s) s ps)"
  shows "length (undoStack t) \<le> Suc (length (undoStack s)) \<and> redoStack t = [] \<and> sdoc (undo_op t) = sdoc s
    \<and> settled t"
proof -
  let ?pre = "last_n (HISTORY_LIMIT - 1) (undoStack s) @ [sdoc s]"
  let ?mid = "foldl (\<lambda>s p. moveObject i p False s) s ps"
  have step: "wf_store (moveObject i p d u)" "i \<in> object_ids (sdoc (moveObject i p d u))"
    if "wf_store u" "i \<in> object_ids (sdoc u)" for u p d
    using that by (auto simp: wf_moveObject) (simp add: moveObject_def withCurrentStep_def)
  have mid: "wf_store ?mid \<and> i \<in> object_ids (sdoc ?mid) \<and>
      (if ps = [] then ?mid = s else gestureOpen ?mid \<and> undoStack ?mid = ?pre \<and> redoStack ?mid = [])"
  proof (induction ps rule: rev_induct)
    case Nil
    then show ?case using assms by simp
  next
    case (snoc p ps)
    let ?u = "foldl (\<lambda>s p. moveObject i p False s) s ps"
    have "gestureOpen (moveObject i p False ?u)" by (simp add: moveObject_def done_phase_def)
    moreover have "undoStack (moveObject i p False ?u) = ?pre \<and> redoStack (moveObject i p False ?u) = []"
      using snoc assms(2) by (cases "ps = []") (auto simp: moveObject_def apply_doc_undo)
    ultimately show ?case using snoc step by simp
  qed
  have "undoStack t = ?pre" "redoStack t = []"
    using mid assms(2) by (cases "ps = []"; simp add: t moveObject_def apply_doc_undo)+
  moreover have "settled t"
    using mid step(1) by (simp add: t settled_def) (simp add: moveObject_def done_phase_def)
  ultimately show ?thesis using undo_op_law [of t] by simp
qed

text \<open>
  A drag is one undo entry: however many intermediate positions it reports, after it ends one undo
  gives back the board from before the drag.
\<close>
theorem drag_is_one_entry:
  assumes "wf_store s" "\<not> gestureOpen s" "i \<in> object_ids (sdoc s)"
    and "t = moveObject i q True (foldl (\<lambda>s p. moveObject i p False s) s ps)"
  shows "length (undoStack t) \<le> Suc (length (undoStack s)) \<and> redoStack t = [] \<and> sdoc (undo_op t) = sdoc s"
  using drag_one_entry [OF assms] by simp

theorem drag_is_one_entry_witness:
  "let s = place (1, 2) ''p'' (new_editor ''a'') in
   sdoc (undo_op (moveObject ''p'' (5, 6) True (moveObject ''p'' (3, 4) False s))) = sdoc s"
proof -
  let ?s = "place (1, 2) ''p'' (new_editor ''a'')"
  have "''p'' \<notin> object_ids (sdoc (new_editor ''a''))" by (simp add: new_editor_def object_ids_def emptyDoc_def)
  then have "wf_store ?s" by (intro wf_place wf_new)
  moreover have "\<not> gestureOpen ?s" "''p'' \<in> object_ids (sdoc ?s)"
    by (simp_all add: place_def Let_def)
  ultimately show ?thesis
    using drag_is_one_entry [of ?s "''p''" _ "(5, 6)" "[(3, 4)]"] by simp
qed

text \<open>
  A cancelled drag leaves the gesture open, and then the next edit is lost to undo: once a drag has
  reported a position without ending, placing a player records no version, so undoing afterwards also
  takes back the drag.
\<close>
theorem cancelled_drag_swallows_entry:
  assumes "wf_store s" "\<not> gestureOpen s" "i \<in> object_ids (sdoc s)"
    and t: "t = place p nid (moveObject i q False s)"
    and nid: "nid \<notin> object_ids (sdoc s)"
  shows "sdoc (undo_op t) = sdoc s \<and> undoStack t = undoStack (moveObject i q False s)"
proof -
  let ?m = "moveObject i q False s"
  have ids: "object_ids (sdoc ?m) = object_ids (sdoc s)"
    by (simp add: moveObject_def withCurrentStep_def)
  have "gestureOpen ?m" "undoStack ?m = last_n (HISTORY_LIMIT - 1) (undoStack s) @ [sdoc s]"
    using assms(2) by (simp_all add: moveObject_def apply_doc_undo done_phase_def)
  then have "undoStack t = undoStack ?m" and u: "undoStack t = last_n (HISTORY_LIMIT - 1) (undoStack s) @ [sdoc s]"
    by (simp_all add: t place_def Let_def apply_doc_undo)
  moreover have "undoStack t \<noteq> []" "last (undoStack t) = sdoc s" unfolding u by simp_all
  moreover have "settled t"
    using assms ids wf_place [OF wf_moveObject [OF assms(1,3)], of nid q False p]
    by (simp add: settled_def t) (simp add: place_def Let_def)
  ultimately show ?thesis using undo_op_law [of t] by simp
qed

theorem cancelled_drag_swallows_entry_witness:
  "let s = place (1, 2) ''p'' (new_editor ''a'') in
   sdoc (undo_op (place (7, 8) ''q'' (moveObject ''p'' (5, 6) False s))) = sdoc s"
proof -
  let ?s = "place (1, 2) ''p'' (new_editor ''a'')"
  have no: "object_ids (sdoc (new_editor ''a'')) = {}"
    by (simp add: new_editor_def object_ids_def emptyDoc_def)
  then have "wf_store ?s" by (intro wf_place wf_new) simp
  moreover have "\<not> gestureOpen ?s" "object_ids (sdoc ?s) = {''p''}"
    using no by (simp_all add: place_def Let_def)
  ultimately show ?thesis
    using cancelled_drag_swallows_entry [of ?s "''p''" _ "(7, 8)" "''q''" "(5, 6)"] by simp
qed

end
