(* ===== verification/Editor_Steps.thy ===== *)
theory Editor_Steps
  imports Editor_History
begin

text \<open>
  What adding, copying, deleting and moving a step do to what the other steps show
  (\<open>EditorStore.addStep\<close>, \<open>duplicateStep\<close>, \<open>deleteStep\<close>, \<open>moveStep\<close> of \<open>editor-store.ts\<close>).  A step
  stores only what moved in it, so each result is about \<open>positionAt\<close>, what stands where, and goes
  through \<open>standing\<close>, the position maps overlaid in order.
\<close>

section \<open>Overlaying after a list operation\<close>

lemma standing_insert_empty:
  assumes "i \<le> length ps"
  shows "k \<le> Suc (length ps) \<Longrightarrow>
    standing (insert_at i Map.empty ps) k = standing ps (if k \<le> i then k else k - 1)"
proof (induction k)
  case (Suc k)
  then have k: "k < length (insert_at i Map.empty ps)" by simp
  have n: "insert_at i Map.empty ps ! k
      = (if k < i then ps ! k else if k = i then Map.empty else ps ! (k - 1))"
    using assms Suc.prems by (simp add: nth_insert_at)
  have "standing (insert_at i Map.empty ps) (Suc k)
      = standing ps (if k \<le> i then k else k - 1)
          ++ (if k < i then ps ! k else if k = i then Map.empty else ps ! (k - 1))"
    using Suc by (simp add: standing_Suc [OF k] n)
  also have "\<dots> = standing ps (if Suc k \<le> i then Suc k else k)"
    using assms Suc.prems standing_Suc [of 0 ps] by (cases k; cases "ps = []") (auto simp: standing_Suc not_less)
  finally show ?case by simp
qed simp

text \<open>Two neighbouring position maps merged into one.\<close>

definition merge_at :: "nat \<Rightarrow> (ident \<rightharpoonup> vec2) list \<Rightarrow> (ident \<rightharpoonup> vec2) list" where
  "merge_at i ps = modify_at i (\<lambda>q. (ps ! i) ++ q) (remove_at i ps)"

lemma nth_merge_at:
  "Suc i < length ps \<Longrightarrow> k < length ps - 1 \<Longrightarrow>
   merge_at i ps ! k = (if k < i then ps ! k else if k = i then (ps ! i) ++ (ps ! Suc i) else ps ! Suc k)"
  by (simp add: merge_at_def nth_modify_at nth_remove_at)

lemma length_merge_at [simp]: "i < length ps \<Longrightarrow> length (merge_at i ps) = length ps - 1"
  by (simp add: merge_at_def)

lemma standing_merge:
  assumes "Suc i < length ps"
  shows "k \<le> length ps - 1 \<Longrightarrow> standing (merge_at i ps) k = standing ps (if k \<le> i then k else Suc k)"
proof (induction k)
  case (Suc k)
  then have k: "k < length (merge_at i ps)" using assms by simp
  have n: "merge_at i ps ! k
      = (if k < i then ps ! k else if k = i then (ps ! i) ++ (ps ! Suc i) else ps ! Suc k)"
    using assms Suc.prems by (simp add: nth_merge_at)
  have "standing (merge_at i ps) (Suc k) = standing ps (if k \<le> i then k else Suc k)
      ++ (if k < i then ps ! k else if k = i then (ps ! i) ++ (ps ! Suc i) else ps ! Suc k)"
    using Suc by (simp add: standing_Suc [OF k] n)
  also have "\<dots> = standing ps (if Suc k \<le> i then Suc k else Suc (Suc k))"
    using assms Suc.prems by (auto simp: standing_Suc)
  finally show ?case .
qed simp

text \<open>
  Position maps stored as differences from what the step before shows: every object a step places
  stands where it should.
\<close>

lemma standing_differences:
  fixes here :: "nat \<Rightarrow> ident \<rightharpoonup> vec2" and n :: nat
  defines "ds \<equiv> map (\<lambda>k. pos_diff (if k > 0 then here (k - 1) else Map.empty) (here k)) [0..<n]"
  shows "k < n \<Longrightarrow> standing ds (Suc k) x =
    (case here k x of Some p \<Rightarrow> Some p | None \<Rightarrow> standing ds k x)"
proof (induction k)
  case 0
  then show ?case
    by (simp add: ds_def standing_Suc pos_diff_def split: option.split)
next
  case (Suc k)
  have "standing ds (Suc (Suc k)) = standing ds (Suc k) ++ pos_diff (here k) (here (Suc k))"
    using Suc.prems by (subst standing_Suc) (simp_all add: ds_def)
  with Suc show ?case
    by (auto simp: pos_diff_def map_add_def split: option.splits)
qed

section \<open>Adding and copying a step\<close>

lemma map_insert_at: "map f (insert_at i x xs) = insert_at i (f x) (map f xs)"
  by (simp add: insert_at_def take_map drop_map)

lemma map_remove_at: "map f (remove_at i xs) = remove_at i (map f xs)"
  by (simp add: remove_at_def take_map drop_map)

lemma positionAt_insert:
  assumes "pos st = Map.empty" "i < length (steps d)" "0 \<le> j" "j \<le> int (length (steps d))"
  shows "positionAt (d\<lparr>steps := insert_at (Suc i) st (steps d)\<rparr>) j x
    = positionAt d (if j \<le> int i then j else j - 1) x"
proof -
  let ?e = "d\<lparr>steps := insert_at (Suc i) st (steps d)\<rparr>"
  have "positionAt ?e j x = standing (insert_at (Suc i) Map.empty (map pos (steps d))) (Suc (nat j)) x"
    using assms by (subst positionAt_standing) (simp_all add: map_insert_at)
  also have "\<dots> = standing (map pos (steps d)) (if j \<le> int i then Suc (nat j) else nat j) x"
    using assms by (subst standing_insert_empty) auto
  also have "\<dots> = positionAt d (if j \<le> int i then j else j - 1) x"
    using assms by (subst positionAt_standing) (auto simp: Suc_nat_eq_nat_zadd1)
  finally show ?thesis .
qed

lemma sdoc_drop [simp]: "sdoc (drop_drawing_selection s) = sdoc s"
  "stepIndex (drop_drawing_selection s) = stepIndex s"
  by (simp_all add: drop_drawing_selection_def split: option.split target.split)

text \<open>
  Adding a step, blank or as a copy, moves nothing: the steps up to the current one show what they
  did, the new step shows where the current one left everything, and every later step still shows
  what it showed.
\<close>
theorem adding_a_step_moves_nothing:
  assumes s: "wf_store s" and t: "t = addStep nid s \<or> duplicateStep nid dids s = Inr t"
    and j: "0 \<le> j" "j \<le> int (length (steps (sdoc s)))"
  shows "positionAt (sdoc t) j x =
      positionAt (sdoc s) (if j \<le> stepIndex s then j else j - 1) x
    \<and> stepIndex t = stepIndex s + 1 \<and> length (steps (sdoc t)) = Suc (length (steps (sdoc s)))"
proof -
  let ?i = "nat (stepIndex s)"
  have i: "?i < length (steps (sdoc s))" "stepIndex s = int ?i" "nat (stepIndex s + 1) = Suc ?i"
    using s by (auto simp: wf_store_def)
  obtain st where st: "pos st = Map.empty"
    "sdoc t = (sdoc s)\<lparr>steps := insert_at (Suc ?i) st (steps (sdoc s))\<rparr>" "stepIndex t = stepIndex s + 1"
    using t
  proof
    assume "t = addStep nid s"
    then show ?thesis using that [of "newStep nid"] i by (simp add: addStep_def Let_def)
  next
    assume "duplicateStep nid dids s = Inr t"
    then show ?thesis
      using that [of "copy_step nid dids (steps (sdoc s) ! ?i)"] i nth_opt_current [OF s]
      by (auto simp: duplicateStep_def Let_def copy_step_def)
  qed
  have "positionAt (sdoc t) j x = positionAt (sdoc s) (if j \<le> int ?i then j else j - 1) x"
    unfolding st(2) using i st(1) j by (intro positionAt_insert) auto
  then show ?thesis using st i(2) by simp
qed

theorem adding_a_step_moves_nothing_witness:
  "let s = place (1, 2) ''p'' (new_editor ''a'') in
   positionAt (sdoc (addStep ''b'' s)) 1 ''p'' = positionAt (sdoc s) 0 ''p''"
proof -
  let ?s = "place (1, 2) ''p'' (new_editor ''a'')"
  have "wf_store ?s"
    by (intro wf_place wf_new) (simp add: new_editor_def object_ids_def emptyDoc_def)
  moreover have "stepIndex ?s = 0" "length (steps (sdoc ?s)) = 1"
    by (simp_all add: place_def Let_def) (simp_all add: new_editor_def)
  ultimately show ?thesis
    using adding_a_step_moves_nothing [of ?s "addStep ''b'' ?s" "''b''" _ 1 "''p''"] by simp
qed

section \<open>Deleting a step\<close>

text \<open>
  C36. Deleting a step moves nothing in the others: the earlier steps show what they did, and every
  later step, now one place earlier, still shows what it showed, because what the deleted step placed
  is carried into the next one.
\<close>
theorem deleting_a_step_moves_nothing:
  assumes s: "wf_store s" and t: "deleteStep s = Inr t" and n: "1 < length (steps (sdoc s))"
    and j: "0 \<le> j" "j < int (length (steps (sdoc s))) - 1"
  shows "positionAt (sdoc t) j x = positionAt (sdoc s) (if j < stepIndex s then j else j + 1) x
    \<and> Suc (length (steps (sdoc t))) = length (steps (sdoc s))"
proof -
  let ?i = "nat (stepIndex s)" and ?ss = "steps (sdoc s)"
  let ?f = "\<lambda>st. st\<lparr>pos := pos (?ss ! ?i) ++ pos st\<rparr>"
  have i: "?i < length ?ss" "stepIndex s = int ?i" using s by (auto simp: wf_store_def)
  have steps: "steps (sdoc t) = modify_at ?i ?f (remove_at ?i ?ss)"
    using t deleteStep_eq [OF s n] by auto
  then have len: "Suc (length (steps (sdoc t))) = length ?ss" using i n by simp
  have k: "nat j < length (steps (sdoc t))" using j len by simp
  have "positionAt (sdoc t) j x = standing (map pos (steps (sdoc t))) (Suc (nat j)) x"
    using j len by (intro positionAt_standing) auto
  also have "\<dots> = standing (map pos ?ss) (if nat j < ?i then Suc (nat j) else Suc (Suc (nat j))) x"
  proof (cases "Suc ?i < length ?ss")
    case True
    have "map pos (steps (sdoc t)) = merge_at ?i (map pos ?ss)"
    proof (rule nth_equalityI)
      show "length (map pos (steps (sdoc t))) = length (merge_at ?i (map pos ?ss))"
        using len i by simp
    next
      fix m
      assume "m < length (map pos (steps (sdoc t)))"
      then have m: "m < length ?ss - 1" using len by simp
      then show "map pos (steps (sdoc t)) ! m = merge_at ?i (map pos ?ss) ! m"
        using i True len by (simp add: steps nth_modify_at nth_remove_at nth_merge_at)
    qed
    then show ?thesis using standing_merge [of ?i "map pos ?ss" "Suc (nat j)"] True k len
      by (auto simp: Suc_le_eq)
  next
    case False
    then have last: "Suc ?i = length ?ss" using i by simp
    then have "take (Suc (nat j)) (map pos (steps (sdoc t))) = take (Suc (nat j)) (map pos ?ss)"
      using k len i by (auto simp: steps modify_at_def remove_at_def take_map min_def)
    moreover have "nat j < ?i" using last k len by linarith
    ultimately show ?thesis by (auto intro: standing_cong [THEN fun_cong])
  qed
  also have "\<dots> = positionAt (sdoc s) (if j < stepIndex s then j else j + 1) x"
    using j i by (subst positionAt_standing) (auto simp: nat_add_distrib)
  finally show ?thesis using len by simp
qed

theorem deleting_a_step_moves_nothing_witness:
  "let s = addStep ''b'' (place (1, 2) ''p'' (new_editor ''a'')) in
   \<exists>t. deleteStep s = Inr t \<and> positionAt (sdoc t) 0 ''p'' = positionAt (sdoc s) 0 ''p''"
proof -
  let ?u = "place (1, 2) ''p'' (new_editor ''a'')"
  let ?s = "addStep ''b'' ?u"
  have s0: "wf_store ?u"
    by (intro wf_place wf_new) (simp add: new_editor_def object_ids_def emptyDoc_def)
  have n0: "stepIndex ?u = 0" "map step_id (steps (sdoc ?u)) = [''a'']"
    by (simp_all add: place_def Let_def withStep_def modify_at_def put_pos_def)
      (simp_all add: new_editor_def emptyDoc_def)
  then have "set (map step_id (steps (sdoc ?u))) = {''a''}" by simp
  then have "''b'' \<notin> step_id ` set (steps (sdoc ?u))" by simp
  then have s: "wf_store ?s" by (intro wf_addStep s0)
  have "length (steps (sdoc ?u)) = 1" using arg_cong [OF n0(2), of length] by simp
  then have n: "length (steps (sdoc ?s)) = 2" "stepIndex ?s = 1"
    using n0 by (simp_all add: addStep_def Let_def)
  obtain t where t: "deleteStep ?s = Inr t" using wf_deleteStep [OF s] by blast
  from deleting_a_step_moves_nothing [OF s t, of 0 "''p''"] n t show ?thesis by auto
qed

section \<open>Moving a step\<close>

text \<open>Which step stands at place \<open>k\<close> after step \<open>from\<close> was moved to place \<open>to\<close>.\<close>

definition came_from :: "nat \<Rightarrow> nat \<Rightarrow> nat \<Rightarrow> nat" where
  "came_from from to k =
     (if k = to then from else if from \<le> k \<and> k < to then Suc k
      else if to < k \<and> k \<le> from then k - 1 else k)"

lemma positionAt_outside:
  "good_doc d \<Longrightarrow> x \<notin> object_ids d \<Longrightarrow> 0 \<le> i \<Longrightarrow> i < int (length (steps d)) \<Longrightarrow> positionAt d i x = None"
proof -
  assume d: "good_doc d" and x: "x \<notin> object_ids d" and i: "0 \<le> i" "i < int (length (steps d))"
  have "pos (steps d ! j) x = None" if "j < length (steps d)" for j
  proof -
    have "dom (pos (steps d ! j)) \<subseteq> object_ids d" using d that by (simp add: good_doc_def step_ok_def)
    then show ?thesis using x by blast
  qed
  then show ?thesis using board.at_None_iff [of "nat i" d x] i by auto
qed

lemma positionsAt_good:
  "good_doc d \<Longrightarrow> 0 \<le> i \<Longrightarrow> i < int (length (steps d)) \<Longrightarrow> positionsAt d i = positionAt d i"
  using positionAt_outside [of d] by (fastforce simp: positionsAt_def object_ids_def)

lemma moveStep_shows:
  assumes s: "wf_store s" and fr: "from < length (steps (sdoc s))" and tt: "to < length (steps (sdoc s))"
    and ne: "from \<noteq> to" and k: "k < length (steps (sdoc s))"
  shows "positionAt (sdoc (moveStep (int from) (int to) s)) (int k) x =
    (case positionAt (sdoc s) (int (came_from from to k)) x of Some p \<Rightarrow> Some p
     | None \<Rightarrow> positionAt (sdoc (moveStep (int from) (int to) s)) (int k - 1) x)"
proof -
  let ?n = "length (steps (sdoc s))" and ?t = "moveStep (int from) (int to) s"
  let ?order = "move_elem from to [0..<?n]"
  let ?here = "\<lambda>k. positionsAt (sdoc s) (int (?order ! k))"
  let ?ds = "map (\<lambda>k. pos_diff (if k > 0 then ?here (k - 1) else Map.empty) (?here k)) [0..<?n]"
  have t: "sdoc ?t = (sdoc s)\<lparr>steps := reordered_steps (sdoc s) ?order\<rparr>"
    using fr tt ne by (simp add: moveStep_def Let_def)
  have len: "length (steps (sdoc ?t)) = ?n" using fr by (simp add: t reordered_steps_def)
  have ps: "map pos (steps (sdoc ?t)) = ?ds"
    using fr by (simp add: t reordered_steps_def)
  have o: "?order ! k = came_from from to k" "came_from from to k < ?n"
    using fr tt k by (auto simp: nth_move_elem came_from_def)
  have "positionAt (sdoc ?t) (int k) x = standing ?ds (Suc k) x"
    using k len by (simp add: positionAt_nat ps)
  also have "\<dots> = (case ?here k x of Some p \<Rightarrow> Some p | None \<Rightarrow> standing ?ds k x)"
    by (rule standing_differences [OF k])
  also have "standing ?ds k x = positionAt (sdoc ?t) (int k - 1) x"
    using k len by (cases k) (simp_all add: positionAt_nat ps)
  also have "?here k = positionAt (sdoc s) (int (came_from from to k))"
    unfolding o(1) using o(2) wf_store_doc(1) [OF s] by (intro positionsAt_good) auto
  finally show ?thesis .
qed

text \<open>
  Moving a step keeps every object that stands in a step where it stood: an object that stood
  somewhere in the step now at place \<open>k\<close> still stands there in it, and one that stands nowhere on the
  board is still nowhere.
\<close>
theorem moving_a_step_keeps_positions:
  assumes "wf_store s" "from < length (steps (sdoc s))" "to < length (steps (sdoc s))" "from \<noteq> to"
    and k: "k < length (steps (sdoc s))"
  shows "(positionAt (sdoc s) (int (came_from from to k)) x \<noteq> None
      \<or> (\<forall>j < length (steps (sdoc s)). positionAt (sdoc s) (int j) x = None)) \<longrightarrow>
    positionAt (sdoc (moveStep (int from) (int to) s)) (int k) x
      = positionAt (sdoc s) (int (came_from from to k)) x"
proof (intro impI, elim disjE)
  assume "positionAt (sdoc s) (int (came_from from to k)) x \<noteq> None"
  then show "positionAt (sdoc (moveStep (int from) (int to) s)) (int k) x
      = positionAt (sdoc s) (int (came_from from to k)) x"
    using moveStep_shows [OF assms] by auto
next
  let ?t = "moveStep (int from) (int to) s"
  assume none: "\<forall>j < length (steps (sdoc s)). positionAt (sdoc s) (int j) x = None"
  have cf: "came_from from to m < length (steps (sdoc s))" if "m < length (steps (sdoc s))" for m
    using that assms by (auto simp: came_from_def)
  have "m < length (steps (sdoc s)) \<Longrightarrow> positionAt (sdoc ?t) (int m) x = None" for m
  proof (induction m)
    case 0
    then show ?case using moveStep_shows [OF assms(1-4) 0] none cf [OF 0] by simp
  next
    case (Suc m)
    then show ?case using moveStep_shows [OF assms(1-4) Suc.prems] none cf [OF Suc.prems] by simp
  qed
  then show "positionAt (sdoc ?t) (int k) x = positionAt (sdoc s) (int (came_from from to k)) x"
    using k none cf by simp
qed

text \<open>A board of two steps for the witnesses: one player, placed in the second step only.\<close>

definition late_player :: editor where
  "late_player = place (1, 2) ''p'' (addStep ''b'' (new_editor ''a''))"

lemma late_player_facts:
  "wf_store late_player" "length (steps (sdoc late_player)) = 2"
  "positionAt (sdoc late_player) 0 ''p'' = None" "positionAt (sdoc late_player) 1 ''p'' = Some (1, 2)"
proof -
  let ?u = "addStep ''b'' (new_editor ''a'')"
  have "wf_store ?u" by (intro wf_addStep wf_new) (simp add: new_editor_def)
  moreover have u: "steps (sdoc ?u) = [newStep ''a'', newStep ''b'']" "stepIndex ?u = 1"
    "object_ids (sdoc ?u) = {}"
    by (simp_all add: addStep_def Let_def new_editor_def insert_at_def object_ids_def emptyDoc_def)
  ultimately show "wf_store late_player" unfolding late_player_def by (intro wf_place) auto
  have steps: "steps (sdoc late_player) = [newStep ''a'', put_pos ''p'' (1, 2) (newStep ''b'')]"
    unfolding late_player_def place_def Let_def by (simp add: withStep_def u modify_at_def)
  then show "length (steps (sdoc late_player)) = 2" by simp
  show "positionAt (sdoc late_player) 0 ''p'' = None" "positionAt (sdoc late_player) 1 ''p'' = Some (1, 2)"
    using steps by (simp_all add: positionAt_def put_pos_def numeral_2_eq_2)
qed

theorem moving_a_step_keeps_positions_witness:
  "positionAt (sdoc (moveStep 1 0 late_player)) 0 ''p'' = Some (1, 2)"
  using moving_a_step_keeps_positions [of late_player 1 0 0 "''p''"] late_player_facts
  by (simp add: came_from_def)

text \<open>
  Moving a step can change what another step shows: an object that first appears in the second step
  is shown in the first one too once the second step has been moved before it.
\<close>
theorem moving_a_step_shows_absent:
  assumes "wf_store s" "1 < length (steps (sdoc s))"
    and "positionAt (sdoc s) 0 x = None" "positionAt (sdoc s) 1 x = Some p"
  shows "came_from 1 0 1 = 0 \<and> positionAt (sdoc (moveStep 1 0 s)) 1 x = Some p"
proof -
  have "steps (sdoc s) \<noteq> []" using assms(2) by auto
  then have "positionAt (sdoc (moveStep 1 0 s)) 0 x = Some p"
    using moveStep_shows [of s 1 0 0 x] assms by (auto simp: came_from_def)
  with \<open>steps (sdoc s) \<noteq> []\<close> show ?thesis
    using moveStep_shows [of s 1 0 1 x] assms by (auto simp: came_from_def)
qed

theorem moving_a_step_shows_absent_witness:
  "positionAt (sdoc late_player) 0 ''p'' = None \<and> positionAt (sdoc (moveStep 1 0 late_player)) 1 ''p'' = Some (1, 2)"
  using moving_a_step_shows_absent [of late_player "''p''" "(1, 2)"] late_player_facts by simp

end
