(* ===== verification/Editor_Page.thy ===== *)
theory Editor_Page
  imports Editor_History "HOL-Library.While_Combinator"
begin

text \<open>
  The editor page (\<open>features/tactics/editor/tactics-editor.ts\<close>): the store of \<open>Editor_Store\<close> and the clock of
  \<open>Playback\<close> kept on one step by effects, and saving, signing in and leaving.

  An Angular effect is due when a signal it reads was set to another value since it last ran, and due
  effects run in the order they were created until none is due; that order and that loop are the
  framework's documented behaviour, written here as \<open>pass\<close> and \<open>settle\<close>.  A document written again with equal
  content counts as unchanged.  The answers of the API, the ids drawn and whether storage works are arguments
  of the events.
\<close>

section \<open>The page\<close>

record save_job =
  job_slug :: "string option"
  job_title :: string
  job_description :: string
  job_doc :: tactic_doc

record page =
  ed :: editor
  clock :: board_player
  title :: string
  description :: string
  savedSlug :: "string option"
  pg_loading :: bool
  loadError :: "string option"
  saving :: bool
  saveError :: "string option"
  recording :: bool
  loop_before :: bool
  draggingStep :: "int option"
  dropStep :: "int option"
  inflight :: "save_job list"
  draft :: "save_job option"
  due_step :: bool
  due_time :: bool
  due_line :: bool
  due_play :: bool
  kept :: tactic_doc

text \<open>\<open>kept\<close> only records history: the document last loaded, confirmed by the API or left in storage.\<close>

definition new_page :: "ident \<Rightarrow> page" where
  "new_page nid =
     \<lparr>ed = new_editor nid, clock = new_player, title = [], description = [], savedSlug = None,
      pg_loading = False, loadError = None, saving = False, saveError = None, recording = False,
      loop_before = False, draggingStep = None, dropStep = None, inflight = [], draft = None, due_step = True, due_time = True, due_line = True, due_play = True,
      kept = emptyDoc nid\<rparr>"

definition line_of :: "page \<Rightarrow> timeline" where
  "line_of p = timeline (sdoc (ed p))"

definition clock_step :: "page \<Rightarrow> int" where
  "clock_step p = int (stepAtTime (line_of p) (ptime (clock p)))"

definition atRest :: "page \<Rightarrow> bool" where
  "atRest p \<longleftrightarrow> \<not> playing (clock p)
     \<and> (let s = clock_step p;
            start = (case nth_opt (stepStarts (line_of p)) s of Some t \<Rightarrow> t | None \<Rightarrow> 0);
            pause = (case nth_opt (steps (sdoc (ed p))) s of Some st \<Rightarrow> hold st | None \<Rightarrow> 0);
            t = ptime (clock p)
        in t \<ge> start - 1 / 10 ^ 6 \<and> t \<le> start + pause + 1 / 10 ^ 6)"

definition shown_frame :: "page \<Rightarrow> js_error + frame" where
  "shown_frame p = (if atRest p then stillFrame (ed p) else frameAt (sdoc (ed p)) (line_of p) (ptime (clock p)))"

definition editing_on :: "page \<Rightarrow> bool" where
  "editing_on p \<longleftrightarrow> atRest p \<and> \<not> recording p"

section \<open>Effects\<close>

text \<open>Setting the signals of the store and of the clock, with the effects that become due.\<close>

definition set_ed :: "editor \<Rightarrow> page \<Rightarrow> page" where
  "set_ed s p = p\<lparr>ed := s, due_step := due_step p \<or> stepIndex s \<noteq> stepIndex (ed p),
     due_line := due_line p \<or> sdoc s \<noteq> sdoc (ed p)\<rparr>"

definition set_clock :: "board_player \<Rightarrow> page \<Rightarrow> page" where
  "set_clock b p = p\<lparr>clock := b,
     due_time := due_time p \<or> ptime b \<noteq> ptime (clock p) \<or> playing b \<noteq> playing (clock p),
     due_play := due_play p \<or> playing b \<noteq> playing (clock p)\<rparr>"

definition step_effect :: "page \<Rightarrow> page" where
  "step_effect p =
     (if \<not> playing (clock p) \<and> clock_step p \<noteq> stepIndex (ed p)
      then set_clock (seekStep (line_of p) (stepIndex (ed p)) (clock p)) p else p)"

definition time_effect :: "page \<Rightarrow> page" where
  "time_effect p =
     (if \<not> playing (clock p) \<and> stepIndex (ed p) \<noteq> clock_step p
      then set_ed (goToStep (clock_step p) (ed p)) p else p)"

definition line_effect :: "page \<Rightarrow> page" where
  "line_effect p =
     (if \<not> playing (clock p) then set_clock (seekStep (line_of p) (stepIndex (ed p)) (clock p)) p else p)"

definition play_effect :: "page \<Rightarrow> page" where
  "play_effect p =
     (if playing (clock p) then p\<lparr>ed := (ed p)\<lparr>selection := None, preview := None\<rparr>\<rparr> else p)"

definition pass :: "page \<Rightarrow> page" where
  "pass p0 =
     (let p1 = (if due_step p0 then step_effect (p0\<lparr>due_step := False\<rparr>) else p0);
          p2 = (if due_time p1 then time_effect (p1\<lparr>due_time := False\<rparr>) else p1);
          p3 = (if due_line p2 then line_effect (p2\<lparr>due_line := False\<rparr>) else p2)
      in if due_play p3 then play_effect (p3\<lparr>due_play := False\<rparr>) else p3)"

definition any_due :: "page \<Rightarrow> bool" where
  "any_due p \<longleftrightarrow> due_step p \<or> due_time p \<or> due_line p \<or> due_play p"

definition settle :: "page \<Rightarrow> page option" where
  "settle = while_option any_due pass"

section \<open>Handlers\<close>

definition with_store :: "(editor \<Rightarrow> js_error + editor) \<Rightarrow> page \<Rightarrow> js_error + page" where
  "with_store f p = (case f (ed p) of Inl e \<Rightarrow> Inl e | Inr s \<Rightarrow> Inr (set_ed s p))"

definition pg_pause :: "page \<Rightarrow> page" where
  "pg_pause p = set_clock (pause (clock p)) p"

definition pg_goToStep :: "int \<Rightarrow> page \<Rightarrow> page" where
  "pg_goToStep i p0 =
     (let p = set_ed (goToStep i (ed p0)) (pg_pause p0) in set_clock (seekStep (line_of p) i (clock p)) p)"

definition pg_addStep :: "ident \<Rightarrow> page \<Rightarrow> page" where
  "pg_addStep nid p = set_ed (addStep nid (ed p)) (pg_pause p)"

definition pg_duplicateStep :: "ident \<Rightarrow> (nat \<Rightarrow> ident) \<Rightarrow> page \<Rightarrow> js_error + page" where
  "pg_duplicateStep nid dids p = with_store (duplicateStep nid dids) (pg_pause p)"

definition pg_moveStep :: "int \<Rightarrow> int \<Rightarrow> page \<Rightarrow> page" where
  "pg_moveStep a b p = set_ed (moveStep a b (ed p)) (pg_pause p)"

definition setTitle :: "string \<Rightarrow> page \<Rightarrow> page" where
  "setTitle v p = p\<lparr>title := v, ed := (ed p)\<lparr>dirty := True\<rparr>\<rparr>"

definition setDescription :: "string \<Rightarrow> page \<Rightarrow> page" where
  "setDescription v p = p\<lparr>description := v, ed := (ed p)\<lparr>dirty := True\<rparr>\<rparr>"

text \<open>Dragging a step chip to a new place.\<close>

definition onStepDragStart :: "int \<Rightarrow> page \<Rightarrow> page" where
  "onStepDragStart i p = p\<lparr>draggingStep := Some i\<rparr>"

definition onStepDragOver :: "int \<Rightarrow> page \<Rightarrow> page" where
  "onStepDragOver i p = (if draggingStep p = None then p else p\<lparr>dropStep := Some i\<rparr>)"

definition onStepDragEnd :: "page \<Rightarrow> page" where
  "onStepDragEnd p = p\<lparr>draggingStep := None, dropStep := None\<rparr>"

definition onStepDrop :: "int \<Rightarrow> page \<Rightarrow> page" where
  "onStepDrop i p =
     (let q = onStepDragEnd p in
      case draggingStep p of None \<Rightarrow> q | Some from \<Rightarrow> pg_moveStep from i q)"

subsection \<open>Recording a video\<close>

text \<open>
  \<open>downloadVideo\<close> with \<open>recordVideo\<close> of \<open>player.ts\<close>: up to its first wait, the start of the play-through
  after the lead-in, and the end, when the recorder has stopped.
\<close>

definition video_start :: "page \<Rightarrow> page" where
  "video_start p =
     (if recording p then p
      else (set_clock ((clock p)\<lparr>looping := False, ptime := 0\<rparr>) p)
             \<lparr>recording := True, loop_before := looping (clock p)\<rparr>)"

definition video_play :: "page \<Rightarrow> page" where
  "video_play p = set_clock (play (line_of p) (clock p)) p"

definition video_done :: "page \<Rightarrow> page" where
  "video_done p0 =
     (let p1 = (set_clock ((clock p0)\<lparr>looping := loop_before p0\<rparr>) p0)\<lparr>recording := False\<rparr>;
          p2 = pg_pause p1
      in set_clock (seekStep (line_of p2) (stepIndex (ed p2)) (clock p2)) p2)"

text \<open>\<open>numberFrom\<close>: what \<open>Number(value)\<close> gives, \<open>None\<close> for a value that is not finite.\<close>

definition numberFrom :: "real option \<Rightarrow> real \<Rightarrow> real \<Rightarrow> real" where
  "numberFrom v lo hi = max lo (min hi (case v of Some x \<Rightarrow> x | None \<Rightarrow> lo))"

subsection \<open>Opening a board\<close>

record board_row =
  owner_id :: string
  b_title :: string
  b_description :: string
  b_slug :: string
  b_doc :: tactic_doc

definition load_started :: "page \<Rightarrow> page" where
  "load_started p = p\<lparr>pg_loading := True\<rparr>"

definition opened :: "string + board_row \<Rightarrow> string option \<Rightarrow> page \<Rightarrow> page" where
  "opened answer user p =
     (case answer of
        Inl message \<Rightarrow> p\<lparr>loadError := Some message, pg_loading := False\<rparr>
      | Inr b \<Rightarrow>
          if user \<noteq> Some (owner_id b)
          then p\<lparr>loadError := Some ''Only the member who made this board can edit it. You can still watch it.'',
                 pg_loading := False\<rparr>
          else (set_ed (load (b_doc b) (ed p)) p)
                 \<lparr>title := b_title b, description := b_description b, savedSlug := Some (b_slug b),
                  pg_loading := False, kept := b_doc b\<rparr>)"

text \<open>A draft left in storage, its document read by \<open>normalizeDoc\<close> (\<open>Board_Json\<close>: as it was written).\<close>

definition restoreDraft :: "page \<Rightarrow> page" where
  "restoreDraft p =
     (case draft p of
        None \<Rightarrow> p
      | Some d \<Rightarrow>
          (set_ed ((load (job_doc d) (ed p))\<lparr>dirty := True\<rparr>) p)
            \<lparr>draft := None, title := job_title d, description := job_description d, kept := job_doc d\<rparr>)"

subsection \<open>Saving and leaving\<close>

definition signInToSave :: "bool \<Rightarrow> page \<Rightarrow> page" where
  "signInToSave storage p =
     (let d = \<lparr>job_slug = None, job_title = title p, job_description = description p, job_doc = sdoc (ed p)\<rparr>
      in p\<lparr>draft := (if storage then Some d else draft p), kept := (if storage then sdoc (ed p) else kept p),
           ed := markSaved (ed p)\<rparr>)"

definition or_untitled :: "string \<Rightarrow> string" where
  "or_untitled s = (if s = [] then ''Untitled board'' else s)"

definition save :: "bool \<Rightarrow> bool \<Rightarrow> page \<Rightarrow> page" where
  "save canSave storage p =
     (if \<not> canSave then signInToSave storage p
      else p\<lparr>saving := True, saveError := None,
             inflight := inflight p @ [\<lparr>job_slug = savedSlug p, job_title = or_untitled (trim (title p)),
               job_description = trim (description p), job_doc = sdoc (ed p)\<rparr>]\<rparr>)"

definition saved :: "nat \<Rightarrow> string \<Rightarrow> string \<Rightarrow> page \<Rightarrow> page" where
  "saved k new_title new_slug p =
     (let j = inflight p ! k in
      p\<lparr>title := new_title, ed := markSaved (ed p),
        savedSlug := (if job_slug j = None then Some new_slug else savedSlug p), saving := False,
        inflight := remove_at k (inflight p), kept := job_doc j\<rparr>)"

definition save_failed :: "nat \<Rightarrow> string \<Rightarrow> page \<Rightarrow> page" where
  "save_failed k message p = p\<lparr>saveError := Some message, saving := False, inflight := remove_at k (inflight p)\<rparr>"

definition canLeaveBoard :: "bool \<Rightarrow> page \<Rightarrow> bool" where
  "canLeaveBoard confirmed p = (if \<not> dirty (ed p) then True else confirmed)"

definition blocks_unload :: "page \<Rightarrow> bool" where
  "blocks_unload p \<longleftrightarrow> dirty (ed p)"

subsection \<open>Keys\<close>

record key_press =
  in_field :: bool
  kmod :: bool
  kshift :: bool
  kname :: string

text \<open>\<open>kname\<close> is the key in lower case; \<open>cancelGesture\<close> of the board is in \<open>Board_Gestures\<close>.\<close>

definition onKey :: "bool \<Rightarrow> bool \<Rightarrow> ident \<Rightarrow> key_press \<Rightarrow> page \<Rightarrow> js_error + page" where
  "onKey canSave storage nid k p =
     (if in_field k then Inr p
      else if kmod k \<and> kname k = ''z'' then with_store (if kshift k then redo else undo) p
      else if kmod k \<and> kname k = ''y'' then with_store redo p
      else if kmod k \<and> kname k = ''s'' then Inr (save canSave storage p)
      else if kmod k \<and> kname k = ''d'' then Inr (set_ed (duplicateSelection nid (ed p)) p)
      else if kname k = ''delete'' \<or> kname k = ''backspace''
      then Inr (if selection (ed p) \<noteq> None then set_ed (deleteSelection (ed p)) p else p)
      else if kname k = ''escape''
      then (let s = (ed p)\<lparr>preview := None\<rparr> in
            Inr (p\<lparr>ed := (if tool s \<noteq> SelectTool then s\<lparr>tool := SelectTool\<rparr> else s\<lparr>selection := None\<rparr>)\<rparr>))
      else if kname k = '' '' then Inr (set_clock (toggle (line_of p) (clock p)) p)
      else if kname k = ''v'' then Inr (p\<lparr>ed := (ed p)\<lparr>tool := SelectTool\<rparr>\<rparr>)
      else if kname k = ''arrowright'' \<and> \<not> kmod k then Inr (pg_goToStep (stepIndex (ed p) + 1) p)
      else if kname k = ''arrowleft'' \<and> \<not> kmod k then Inr (pg_goToStep (stepIndex (ed p) - 1) p)
      else Inr p)"

section \<open>The effects settle\<close>

definition page_ok :: "page \<Rightarrow> bool" where
  "page_ok p \<longleftrightarrow> 0 \<le> stepIndex (ed p) \<and> stepIndex (ed p) < int (length (steps (sdoc (ed p))))"

definition in_step :: "page \<Rightarrow> bool" where
  "in_step p \<longleftrightarrow> \<not> playing (clock p) \<longrightarrow> clock_step p = stepIndex (ed p)"

definition followed :: "page \<Rightarrow> bool" where
  "followed p \<longleftrightarrow> in_step p \<or> due_step p \<or> due_time p \<or> due_line p"

lemma seek_time:
  assumes "0 \<le> k" "k < int (length (steps doc))"
  shows "ptime (seekStep (timeline doc) k b) = reach (steps doc) (nat k)"
proof -
  have "nat k < length (steps doc)" "steps doc \<noteq> []" using assms by auto
  then show ?thesis
    using assms reach_nonneg [of "steps doc" "nat k"] reach_le_total [of "nat k" doc]
    by (simp add: seekStep_def seek_def nth_opt_def timeline_closed Let_def)
qed

lemma seek_playing [simp]: "playing (seekStep line k b) = playing b"
  by (simp add: seekStep_def seek_def Let_def)

lemma seek_step_at:
  "0 \<le> k \<Longrightarrow> k < int (length (steps doc)) \<Longrightarrow>
   int (stepAtTime (timeline doc) (ptime (seekStep (timeline doc) k b))) = k"
  using stepAtTime_seekStep [of "nat k" doc b] by simp

lemma clock_set [simp]:
  "ed (set_clock b p) = ed p" "clock (set_clock b p) = b" "due_step (set_clock b p) = due_step p"
  "due_line (set_clock b p) = due_line p" "inflight (set_clock b p) = inflight p"
  "kept (set_clock b p) = kept p"
  by (simp_all add: set_clock_def)

lemma ed_set [simp]:
  "ed (set_ed s p) = s" "clock (set_ed s p) = clock p" "due_time (set_ed s p) = due_time p"
  "due_play (set_ed s p) = due_play p" "inflight (set_ed s p) = inflight p" "kept (set_ed s p) = kept p"
  by (simp_all add: set_ed_def)

lemma due_line_set: "due_line (set_ed s p) = (due_line p \<or> sdoc s \<noteq> sdoc (ed p))"
  by (simp add: set_ed_def)

lemma goToStep_fields [simp]:
  "sdoc (goToStep i s) = sdoc s" "dirty (goToStep i s) = dirty s"
  "stepIndex (goToStep i s) = max 0 (min (int (length (steps (sdoc s))) - 1) i)"
  by (simp_all add: goToStep_def drop_drawing_selection_def split: option.split target.split)

lemma foldl_last_bound:
  fixes P :: "real \<Rightarrow> bool"
  shows "c0 < n \<Longrightarrow> \<forall>(i, x)\<in>set xs. i < n \<Longrightarrow> foldl (\<lambda>c (i, x). if P x then i else c) c0 xs < (n :: nat)"
  by (induction xs arbitrary: c0) auto

lemma stepAtTime_range:
  assumes "steps doc \<noteq> []"
  shows "stepAtTime (timeline doc) t < length (steps doc)"
  unfolding stepAtTime_def
proof (rule foldl_last_bound)
  show "0 < length (steps doc)" using assms by simp
  show "\<forall>(i, x)\<in>set (enumerate 0 (stepStarts (timeline doc))). i < length (steps doc)"
    by (auto simp: timeline_closed in_set_enumerate_eq)
qed

lemma clock_step_range:
  "page_ok p \<Longrightarrow> 0 \<le> clock_step p \<and> clock_step p < int (length (steps (sdoc (ed p))))"
proof -
  assume "page_ok p"
  then have "steps (sdoc (ed p)) \<noteq> []" by (auto simp: page_ok_def)
  from stepAtTime_range [OF this] show ?thesis by (simp add: clock_step_def line_of_def)
qed

lemma step_effect_in_step: "page_ok p \<Longrightarrow> in_step (step_effect p)"
  using seek_step_at [of "stepIndex (ed p)" "sdoc (ed p)" "clock p"]
  by (auto simp: step_effect_def in_step_def page_ok_def clock_step_def line_of_def)

lemma time_effect_in_step: "page_ok p \<Longrightarrow> in_step (time_effect p)"
  using clock_step_range [of p]
  by (auto simp: time_effect_def in_step_def clock_step_def line_of_def)

lemma line_effect_in_step: "page_ok p \<Longrightarrow> in_step (line_effect p)"
  using seek_step_at [of "stepIndex (ed p)" "sdoc (ed p)" "clock p"]
  by (auto simp: line_effect_def in_step_def page_ok_def clock_step_def line_of_def)

lemma effects_ok:
  "page_ok p \<Longrightarrow> page_ok (step_effect p)" "page_ok p \<Longrightarrow> page_ok (time_effect p)"
  "page_ok p \<Longrightarrow> page_ok (line_effect p)" "page_ok p \<Longrightarrow> page_ok (play_effect p)"
  using clock_step_range [of p]
  by (auto simp: step_effect_def time_effect_def line_effect_def play_effect_def page_ok_def)

lemma flag_irrelevant [simp]:
  "page_ok (p\<lparr>due_step := v\<rparr>) = page_ok p" "page_ok (p\<lparr>due_time := v\<rparr>) = page_ok p"
  "page_ok (p\<lparr>due_line := v\<rparr>) = page_ok p" "page_ok (p\<lparr>due_play := v\<rparr>) = page_ok p"
  "in_step (p\<lparr>due_step := v\<rparr>) = in_step p" "in_step (p\<lparr>due_time := v\<rparr>) = in_step p"
  "in_step (p\<lparr>due_line := v\<rparr>) = in_step p" "in_step (p\<lparr>due_play := v\<rparr>) = in_step p"
  by (simp_all add: page_ok_def in_step_def clock_step_def line_of_def)

lemma effects_idle:
  "in_step p \<Longrightarrow> step_effect p = p" "in_step p \<Longrightarrow> time_effect p = p"
  by (auto simp: step_effect_def time_effect_def in_step_def)

lemma play_effect_fields [simp]:
  "sdoc (ed (play_effect p)) = sdoc (ed p)" "stepIndex (ed (play_effect p)) = stepIndex (ed p)"
  "clock (play_effect p) = clock p" "in_step (play_effect p) = in_step p"
  "due_step (play_effect p) = due_step p" "due_time (play_effect p) = due_time p"
  "due_line (play_effect p) = due_line p" "due_play (play_effect p) = due_play p"
  by (simp_all add: play_effect_def in_step_def clock_step_def line_of_def)

lemma step_effect_flags [simp]:
  "due_step (step_effect p) = due_step p" "due_line (step_effect p) = due_line p"
  "ed (step_effect p) = ed p" "playing (clock (step_effect p)) = playing (clock p)"
  by (simp_all add: step_effect_def)

lemma time_effect_flags [simp]:
  "due_time (time_effect p) = due_time p" "due_line (time_effect p) = due_line p"
  "due_play (time_effect p) = due_play p"
  "clock (time_effect p) = clock p" "sdoc (ed (time_effect p)) = sdoc (ed p)"
  "dirty (ed (time_effect p)) = dirty (ed p)"
  by (simp_all add: time_effect_def set_ed_def)

lemma line_effect_flags [simp]:
  "due_step (line_effect p) = due_step p" "due_line (line_effect p) = due_line p"
  "ed (line_effect p) = ed p" "playing (clock (line_effect p)) = playing (clock p)"
  by (simp_all add: line_effect_def)

text \<open>A pass in its three stages, each with what it leaves due.\<close>

definition stage1 :: "page \<Rightarrow> page" where
  "stage1 p = (if due_step p then step_effect (p\<lparr>due_step := False\<rparr>) else p)"

definition stage2 :: "page \<Rightarrow> page" where
  "stage2 p = (if due_time p then time_effect (p\<lparr>due_time := False\<rparr>) else p)"

definition stage3 :: "page \<Rightarrow> page" where
  "stage3 p = (if due_line p then line_effect (p\<lparr>due_line := False\<rparr>) else p)"

definition stage4 :: "page \<Rightarrow> page" where
  "stage4 p = (if due_play p then play_effect (p\<lparr>due_play := False\<rparr>) else p)"

lemma pass_stages: "pass p = stage4 (stage3 (stage2 (stage1 p)))"
  by (simp add: pass_def stage1_def stage2_def stage3_def stage4_def Let_def)

lemma stages_ok:
  "page_ok p \<Longrightarrow> page_ok (stage1 p)" "page_ok p \<Longrightarrow> page_ok (stage2 p)"
  "page_ok p \<Longrightarrow> page_ok (stage3 p)" "page_ok p \<Longrightarrow> page_ok (stage4 p)"
  by (simp_all add: stage1_def stage2_def stage3_def stage4_def effects_ok)

lemma pass_ok: "page_ok p \<Longrightarrow> page_ok (pass p)"
  by (simp add: pass_stages stages_ok)

lemma followed_stages:
  assumes "page_ok p"
  shows "followed p \<Longrightarrow> followed (stage1 p)" "followed p \<Longrightarrow> followed (stage2 p)"
    "followed p \<Longrightarrow> in_step (stage3 (stage2 (stage1 p)))"
proof -
  show 1: "followed (stage1 p)" if "followed p"
    using that step_effect_in_step [of "p\<lparr>due_step := False\<rparr>"] assms
    by (cases "due_step p") (auto simp: followed_def stage1_def)
  show "followed (stage2 p)" if "followed p"
    using that time_effect_in_step [of "p\<lparr>due_time := False\<rparr>"] assms
    by (cases "due_time p") (auto simp: followed_def stage2_def)
  show "in_step (stage3 (stage2 (stage1 p)))" if f: "followed p"
  proof (cases "due_line (stage2 (stage1 p))")
    case True
    then show ?thesis
      using line_effect_in_step [of "stage2 (stage1 p)\<lparr>due_line := False\<rparr>"] assms
      by (simp add: stage3_def stages_ok)
  next
    case False
    have s1: "\<not> due_step (stage1 p)" by (simp add: stage1_def)
    have k: "due_line (stage2 q) = due_line q" for q by (simp add: stage2_def)
    have "followed (stage1 p)" by (rule 1 [OF f])
    then have "in_step (stage1 p) \<or> due_time (stage1 p)"
      using False s1 by (auto simp: followed_def k)
    then have "in_step (stage2 (stage1 p))"
      using time_effect_in_step [of "stage1 p\<lparr>due_time := False\<rparr>"] assms
      by (auto simp: stage2_def stages_ok)
    with False show ?thesis by (simp add: stage3_def)
  qed
qed

lemma pass_once:
  assumes "page_ok p" "followed p"
  shows "in_step (pass p)" "\<not> due_line (pass p)" "\<not> due_play (pass p)"
  using followed_stages [OF assms(1)] assms(2)
  by (simp_all add: pass_stages stage4_def) (simp_all add: stage3_def)

lemma pass_again:
  assumes "in_step p" "\<not> due_line p" "\<not> due_play p"
  shows "pass p = p\<lparr>due_step := False, due_time := False\<rparr>"
proof -
  have 1: "stage1 p = p\<lparr>due_step := False\<rparr>" using assms(1) by (simp add: stage1_def effects_idle)
  have 2: "stage2 (p\<lparr>due_step := False\<rparr>) = p\<lparr>due_step := False, due_time := False\<rparr>"
    using assms(1) by (simp add: stage2_def effects_idle)
  show ?thesis unfolding pass_stages 1 2 using assms(2,3) by (simp add: stage3_def stage4_def)
qed

lemma pass_none: "\<not> any_due p \<Longrightarrow> pass p = p"
  by (simp add: any_due_def pass_def Let_def)

lemma settle_two:
  assumes "page_ok p" "followed p"
  shows "settle p = Some (pass (pass p))"
proof -
  have q: "pass (pass p) = (pass p)\<lparr>due_step := False, due_time := False\<rparr>"
    by (rule pass_again) (rule pass_once [OF assms])+
  then have n: "\<not> any_due (pass (pass p))" using pass_once [OF assms] by (simp add: any_due_def)
  show ?thesis
    using n pass_none [of p] pass_none [of "pass p"]
    by (simp add: settle_def while_option_unfold [of any_due pass p]
        while_option_unfold [of any_due pass "pass p"] while_option_unfold [of any_due pass "pass (pass p)"])
qed

lemma settled_page:
  assumes "page_ok p" "followed p"
  obtains q where "settle p = Some q" "\<not> any_due q" "page_ok q" "in_step q"
proof
  show "settle p = Some (pass (pass p))" by (rule settle_two [OF assms])
  have q: "pass (pass p) = (pass p)\<lparr>due_step := False, due_time := False\<rparr>"
    by (rule pass_again) (rule pass_once [OF assms])+
  then show "\<not> any_due (pass (pass p))" using pass_once [OF assms] by (simp add: any_due_def)
  show "page_ok (pass (pass p))" using assms(1) by (simp add: pass_ok)
  show "in_step (pass (pass p))" using pass_once(1) [OF assms] q by simp
qed

text \<open>
  The effects settle: wherever the store and the clock were put, after at most two rounds no effect is due,
  and on a paused page the clock then stands within the step the editor is on.
\<close>
theorem effects_settle:
  assumes "page_ok p" "followed p"
  shows "\<exists>q. settle p = Some q \<and> \<not> any_due q \<and> (\<not> playing (clock q) \<longrightarrow> clock_step q = stepIndex (ed q))"
  by (rule settled_page [OF assms]) (auto simp: in_step_def)

theorem effects_settle_witness:
  "\<exists>q. settle (new_page ''a'') = Some q \<and> \<not> any_due q"
  using effects_settle [of "new_page ''a''"]
  by (auto simp: page_ok_def followed_def new_page_def new_editor_def)

section \<open>An edit leaves the editor where it is\<close>

text \<open>What the store does to a paused, settled page, the document changed.\<close>

lemma edit_settles:
  assumes p: "page_ok (set_ed s p)" and paused: "\<not> playing (clock p)" and quiet: "\<not> any_due p"
    and changed: "sdoc s \<noteq> sdoc (ed p)"
  shows "\<exists>q. settle (set_ed s p) = Some q \<and> ed q = s \<and> \<not> playing (clock q)
    \<and> ptime (clock q) = reach (steps (sdoc s)) (nat (stepIndex s)) \<and> \<not> recording q = (\<not> recording p)"
proof -
  let ?p0 = "set_ed s p" and ?k = "stepIndex s"
  have k: "0 \<le> ?k" "?k < int (length (steps (sdoc s)))" using p by (simp_all add: page_ok_def)
  let ?p1 = "stage1 ?p0"
  have 1: "ed ?p1 = s" "due_line ?p1" "\<not> due_step ?p1" "\<not> due_play ?p1" "\<not> playing (clock ?p1)"
    "recording ?p1 = recording p" "page_ok ?p1" "due_time ?p1 \<longrightarrow> in_step ?p1"
    using quiet changed paused stages_ok(1) [OF p] step_effect_in_step [of "?p0\<lparr>due_step := False\<rparr>"] p
    by (auto simp: stage1_def any_due_def set_ed_def step_effect_def set_clock_def seekStep_def seek_def Let_def)
  let ?p2 = "stage2 ?p1"
  have 2: "?p2 = ?p1\<lparr>due_time := False\<rparr>"
    using 1 by (simp add: stage2_def effects_idle)
  let ?p3 = "stage3 ?p2"
  have 3: "ed ?p3 = s" "ptime (clock ?p3) = reach (steps (sdoc s)) (nat ?k)" "\<not> playing (clock ?p3)"
    "recording ?p3 = recording p" "\<not> due_play ?p3"
    using 1 seek_time [OF k] paused
    by (simp_all add: stage3_def 2 line_effect_def line_of_def)
      (simp_all add: set_clock_def)
  then have 4: "pass ?p0 = ?p3" by (simp add: pass_stages stage4_def)
  have f: "followed ?p0" using changed by (simp add: followed_def set_ed_def)
  have "settle ?p0 = Some (?p3\<lparr>due_step := False, due_time := False\<rparr>)"
    using settle_two [OF p f] pass_again [OF pass_once [OF p f]] 4 by simp
  with 3 show ?thesis by simp
qed

text \<open>
  C25. Retiming a step, adding one, undoing: an edit made while the board is paused leaves the editor on the step
  the edit chose, with the document the edit made, and puts the clock at the start of that step, where editing
  is on.
\<close>
theorem edit_keeps_its_step:
  assumes "wf_store (ed p)" "\<not> playing (clock p)" "\<not> any_due p" "\<not> recording p"
    and "sensible (ed p) ev" "exec ev (ed p) = Inr s" "sdoc s \<noteq> sdoc (ed p)"
  shows "\<exists>q. settle (set_ed s p) = Some q \<and> ed q = s
    \<and> ptime (clock q) = reach (steps (sdoc s)) (nat (stepIndex s))
    \<and> (0 \<le> hold (steps (sdoc s) ! nat (stepIndex s)) \<longrightarrow> editing_on q)"
proof -
  have w: "wf_store s" using exec_wf [of "ed p" ev] assms by auto
  then have k: "0 \<le> stepIndex s" "stepIndex s < int (length (steps (sdoc s)))" by (simp_all add: wf_store_def)
  then have ok: "page_ok (set_ed s p)" by (simp add: page_ok_def)
  from edit_settles [OF ok assms(2,3,7)] obtain q where
    q: "settle (set_ed s p) = Some q" "ed q = s" "\<not> playing (clock q)"
      "ptime (clock q) = reach (steps (sdoc s)) (nat (stepIndex s))" "\<not> recording q"
    using assms(4) by auto
  have "clock_step q = stepIndex s"
    using seek_step_at [OF k, of "clock q"] seek_time [OF k, of "clock q"] q
    by (simp add: clock_step_def line_of_def)
  then have "editing_on q" if "0 \<le> hold (steps (sdoc s) ! nat (stepIndex s))"
    using that q k by (simp add: editing_on_def atRest_def Let_def line_of_def nth_opt_def timeline_closed)
  with q show ?thesis by blast
qed

theorem edit_keeps_its_step_witness:
  "\<exists>p q. \<not> any_due p \<and> settle (set_ed (addStep ''b'' (ed p)) p) = Some q
    \<and> ed q = addStep ''b'' (new_editor ''a'') \<and> editing_on q"
proof -
  let ?s = "addStep ''b'' (new_editor ''a'')"
  let ?p = "(new_page ''a'')\<lparr>due_step := False, due_time := False, due_line := False, due_play := False\<rparr>"
  have e: "ed ?p = new_editor ''a''" "sdoc (new_editor ''a'') = emptyDoc ''a''"
    by (simp_all add: new_page_def new_editor_def)
  have st: "length (steps (sdoc ?s)) = 2" "hold (steps (sdoc ?s) ! nat (stepIndex ?s)) = hold (newStep ''b'')"
    by (simp_all add: addStep_def Let_def new_editor_def drop_drawing_selection_def apply_doc_def nth_insert_at)
  then have d: "sdoc ?s \<noteq> sdoc (ed ?p)" unfolding e by force
  have w: "wf_store (ed ?p)" "\<not> playing (clock ?p)" "\<not> any_due ?p" "\<not> recording ?p"
    using wf_new [of "''a''"] by (simp_all add: e any_due_def) (simp_all add: new_page_def new_player_def)
  have v: "sensible (ed ?p) (EAddStep ''b'')" "exec (EAddStep ''b'') (ed ?p) = Inr ?s"
    by (simp_all add: e emptyDoc_def)
  have h: "0 \<le> hold (steps (sdoc ?s) ! nat (stepIndex ?s))" unfolding st(2) by (simp add: newStep_def)
  from edit_keeps_its_step [OF w v d] h obtain q where
    "settle (set_ed ?s ?p) = Some q" "ed q = ?s" "editing_on q" by blast
  with w(3) e(1) show ?thesis by (intro exI [of _ ?p] exI [of _ q]) simp
qed

section \<open>The clock moves the editor\<close>

lemma followed_set_clock: "in_step p \<Longrightarrow> followed (set_clock b p)"
  by (auto simp: followed_def in_step_def set_clock_def clock_step_def line_of_def)

lemma followed_set_ed: "in_step p \<Longrightarrow> followed (set_ed s p)"
  by (auto simp: followed_def in_step_def set_ed_def clock_step_def line_of_def)

lemma clock_settles:
  assumes "page_ok p" "in_step p" "\<not> any_due p" "\<not> playing b"
  shows "\<exists>q. settle (set_clock b p) = Some q \<and> clock q = b
    \<and> ed q = (if stepIndex (ed p) = int (stepAtTime (line_of p) (ptime b)) then ed p
              else goToStep (int (stepAtTime (line_of p) (ptime b))) (ed p))"
proof -
  let ?p0 = "set_clock b p" and ?k = "int (stepAtTime (line_of p) (ptime b))"
  have ok: "page_ok ?p0" using assms(1) by (simp add: page_ok_def)
  have f: "followed ?p0" by (rule followed_set_clock [OF assms(2)])
  have l: "line_of ?p0 = line_of p" by (simp add: line_of_def)
  have n: "\<not> due_step ?p0" "\<not> due_line ?p0" using assms(3) by (simp_all add: any_due_def)
  have 1: "stage1 ?p0 = ?p0" using n by (simp add: stage1_def)
  have same: "ptime b = ptime (clock p) \<and> playing b = playing (clock p)" if "\<not> due_time ?p0"
    using that by (simp add: set_clock_def)
  have idle: "stepIndex (ed p) = ?k" if "\<not> due_time ?p0"
    using same [OF that] assms(2,4) by (simp add: in_step_def clock_step_def)
  have 2: "clock (stage2 ?p0) = b" "\<not> due_line (stage2 ?p0)"
    "ed (stage2 ?p0) = (if stepIndex (ed p) = ?k then ed p else goToStep ?k (ed p))"
    using n idle assms(4) by (auto simp: stage2_def time_effect_def clock_step_def l line_of_def due_line_set)
  have 4: "clock (pass ?p0) = b" "ed (pass ?p0) = ed (stage2 ?p0)"
    using 2 assms(4) by (simp_all add: pass_stages 1 stage3_def stage4_def play_effect_def)
  have "settle ?p0 = Some ((pass ?p0)\<lparr>due_step := False, due_time := False\<rparr>)"
    using settle_two [OF ok f] pass_again [OF pass_once [OF ok f]] by simp
  then show ?thesis using 4 2(3) by simp
qed

text \<open>
  Scrubbing moves the editor: the slider pauses the board and puts the clock where it was dropped, kept within
  the animation, and the editor goes to the step that covers that moment; the document, its history and whether
  it is saved are untouched.
\<close>
theorem scrub_moves_the_editor:
  assumes "page_ok p" "in_step p" "\<not> any_due p"
  shows "\<exists>q. settle (set_clock (seek (line_of p) t (pause (clock p))) p) = Some q
    \<and> ptime (clock q) = max 0 (min (total (line_of p)) t)
    \<and> stepIndex (ed q) = int (stepAtTime (line_of p) (ptime (clock q)))
    \<and> sdoc (ed q) = sdoc (ed p) \<and> undoStack (ed q) = undoStack (ed p) \<and> dirty (ed q) = dirty (ed p)"
proof -
  let ?b = "seek (line_of p) t (pause (clock p))"
  have np: "\<not> playing ?b" and t: "ptime ?b = max 0 (min (total (line_of p)) t)"
    by (simp_all add: seek_def pause_def)
  let ?k = "int (stepAtTime (line_of p) (ptime ?b))"
  have "steps (sdoc (ed p)) \<noteq> []" using assms(1) by (auto simp: page_ok_def)
  from stepAtTime_range [OF this, of "ptime ?b"]
  have "stepIndex (goToStep ?k (ed p)) = ?k" by (simp add: line_of_def)
  moreover have "undoStack (goToStep ?k (ed p)) = undoStack (ed p)"
    by (simp add: goToStep_def drop_drawing_selection_def split: option.split target.split)
  moreover obtain q where q: "settle (set_clock ?b p) = Some q" "clock q = ?b"
      "ed q = (if stepIndex (ed p) = ?k then ed p else goToStep ?k (ed p))"
    using clock_settles [OF assms np] by blast
  ultimately have "stepIndex (ed q) = ?k" "sdoc (ed q) = sdoc (ed p)" "undoStack (ed q) = undoStack (ed p)"
    "dirty (ed q) = dirty (ed p)"
    by simp_all
  with q(1,2) t show ?thesis by (intro exI [of _ q]) simp
qed

theorem scrub_moves_the_editor_witness:
  "\<exists>p t. \<exists>q. settle (set_clock (seek (line_of p) t (pause (clock p))) p) = Some q
    \<and> ptime (clock q) = max 0 (min (total (line_of p)) t)"
proof -
  have "page_ok (new_page ''a'')" "followed (new_page ''a'')"
    by (simp_all add: page_ok_def followed_def new_page_def new_editor_def)
  then obtain p where "\<not> any_due p" "page_ok p" "in_step p" by (rule settled_page)
  from scrub_moves_the_editor [OF this(2,3,1), of 7] show ?thesis by blast
qed

section \<open>After a video\<close>

text \<open>
  Downloading a video loses the step: rewinding the clock before playback starts takes the editor along to the
  first step, and when the recording is over the board is put back to the step the editor is on by then.
\<close>
theorem video_loses_the_step:
  assumes "page_ok p" "in_step p" "\<not> any_due p" "\<not> playing (clock p)" "\<not> recording p" "stepIndex (ed p) \<noteq> 0"
  shows "\<exists>q. settle (video_start p) = Some q \<and> recording q \<and> stepIndex (ed q) = 0
    \<and> stepIndex (ed (video_done (video_play q))) = 0"
proof -
  let ?b = "(clock p)\<lparr>looping := False, ptime := 0\<rparr>" and ?r = "\<lambda>q. q\<lparr>recording := True, loop_before := looping (clock p)\<rparr>"
  let ?p0 = "?r (set_clock ?b p)"
  have len: "steps (sdoc (ed p)) \<noteq> []" using assms(1) by (auto simp: page_ok_def)
  have z: "stepAtTime (line_of p) 0 = 0"
    using stepAtTime_seekStep [of 0 "sdoc (ed p)" "clock p"] seek_time [of 0 "sdoc (ed p)" "clock p"] len
    by (simp add: line_of_def)
  have ok: "page_ok ?p0" using assms(1) by (simp add: page_ok_def)
  have f: "followed ?p0"
    using followed_set_clock [OF assms(2), of ?b]
    by (simp add: followed_def in_step_def clock_step_def line_of_def)
  have idle: "due_time (set_clock ?b p)"
    using assms(2,4,6) z by (auto simp: set_clock_def in_step_def clock_step_def)
  have s1: "stage1 ?p0 = ?p0" using assms(3) by (simp add: stage1_def any_due_def)
  have s2: "ed (stage2 ?p0) = goToStep 0 (ed p)" "clock (stage2 ?p0) = ?b" "\<not> due_line (stage2 ?p0)"
    "recording (stage2 ?p0)"
    using idle assms(3,4,6) z
    by (simp_all add: stage2_def time_effect_def clock_step_def line_of_def any_due_def due_line_set)
      (simp_all add: set_ed_def)
  have 4: "ed (pass ?p0) = goToStep 0 (ed p)" "recording (pass ?p0)"
    using s2 assms(4) by (simp_all add: pass_stages s1 stage3_def stage4_def play_effect_def)
  have q: "settle ?p0 = Some ((pass ?p0)\<lparr>due_step := False, due_time := False\<rparr>)"
    using settle_two [OF ok f] pass_again [OF pass_once [OF ok f]] by simp
  have v: "video_start p = ?p0" using assms(5) by (simp add: video_start_def)
  have e: "ed (video_done (video_play x)) = ed x" for x
    by (simp add: video_done_def video_play_def pg_pause_def Let_def)
  show ?thesis unfolding v q using 4 len by (simp add: e)
qed

theorem video_loses_the_step_witness:
  "\<exists>p q. stepIndex (ed p) \<noteq> 0 \<and> settle (video_start p) = Some q \<and> stepIndex (ed (video_done (video_play q))) = 0"
proof -
  let ?s = "addStep ''b'' (new_editor ''a'')"
  let ?p = "(new_page ''a'')\<lparr>ed := ?s, clock := seekStep (timeline (sdoc ?s)) 1 new_player,
     due_step := False, due_time := False, due_line := False, due_play := False\<rparr>"
  have i: "stepIndex ?s = 1" "length (steps (sdoc ?s)) = 2"
    by (simp_all add: addStep_def Let_def new_editor_def drop_drawing_selection_def apply_doc_def)
  then have "clock_step ?p = 1"
    using seek_step_at [of 1 "sdoc ?s" new_player] by (simp add: clock_step_def line_of_def)
  then have "page_ok ?p" "in_step ?p" "\<not> any_due ?p" "\<not> playing (clock ?p)" "\<not> recording ?p"
    "stepIndex (ed ?p) \<noteq> 0"
    using i by (simp_all add: page_ok_def in_step_def any_due_def new_page_def new_player_def)
  with video_loses_the_step [of ?p] show ?thesis by blast
qed

end
