(* ===== verification/Editor_Saving.thy ===== *)
theory Editor_Saving
  imports Editor_Page
begin

text \<open>
  The editor page over time: every handler of \<open>tactics-editor.ts\<close> as an event, the pages met, and what of a
  board is saved when.
\<close>

section \<open>The page over time\<close>

datatype page_event =
    PEdit event | PClock "player_event list" | PGoTo int | PAddStep ident
  | PDuplicateStep ident "nat \<Rightarrow> ident" | PMoveStep int int | PKey key_press ident
  | PTitle string | PDescription string | PSave | PSignIn | PSaved nat string string
  | PSaveFailed nat string | PVideo | PVideoPlay | PVideoDone
  | PDragStart int | PDragOver int | PDragEnd | PDrop int | POpening | POpened "string + board_row" "string option" | PRestore

fun handle :: "bool \<Rightarrow> bool \<Rightarrow> page_event \<Rightarrow> page \<Rightarrow> js_error + page" where
  "handle canSave storage (PEdit ev) p = with_store (exec ev) p"
| "handle canSave storage (PClock evs) p =
     Inr (set_clock (foldl (player_step (line_of p)) (clock p) evs) p)"
| "handle canSave storage (PGoTo i) p = Inr (pg_goToStep i p)"
| "handle canSave storage (PAddStep nid) p = Inr (pg_addStep nid p)"
| "handle canSave storage (PDuplicateStep nid dids) p = pg_duplicateStep nid dids p"
| "handle canSave storage (PMoveStep a b) p = Inr (pg_moveStep a b p)"
| "handle canSave storage (PKey k nid) p = onKey canSave storage nid k p"
| "handle canSave storage (PTitle v) p = Inr (setTitle v p)"
| "handle canSave storage (PDescription v) p = Inr (setDescription v p)"
| "handle canSave storage PSave p = Inr (save canSave storage p)"
| "handle canSave storage PSignIn p = Inr (signInToSave storage p)"
| "handle canSave storage (PSaved k t sl) p = Inr (saved k t sl p)"
| "handle canSave storage (PSaveFailed k m) p = Inr (save_failed k m p)"
| "handle canSave storage PVideo p = Inr (video_start p)"
| "handle canSave storage PVideoPlay p = Inr (video_play p)"
| "handle canSave storage PVideoDone p = Inr (video_done p)"
| "handle canSave storage (PDragStart i) p = Inr (onStepDragStart i p)"
| "handle canSave storage (PDragOver i) p = Inr (onStepDragOver i p)"
| "handle canSave storage PDragEnd p = Inr (onStepDragEnd p)"
| "handle canSave storage (PDrop i) p = Inr (onStepDrop i p)"
| "handle canSave storage POpening p = Inr (load_started p)"
| "handle canSave storage (POpened answer user) p = Inr (opened answer user p)"
| "handle canSave storage PRestore p = Inr (restoreDraft p)"

text \<open>What can happen: as for the store, and an answer of the API is to a save that is in flight.\<close>

fun possible :: "page \<Rightarrow> page_event \<Rightarrow> bool" where
  "possible p (PEdit ev) \<longleftrightarrow> sensible (ed p) ev \<and> ev \<noteq> EMarkSaved \<and> (\<forall>d. ev \<noteq> ELoad d)"
| "possible p (PAddStep nid) \<longleftrightarrow> nid \<notin> step_id ` set (steps (sdoc (ed p)))"
| "possible p (PDuplicateStep nid dids) \<longleftrightarrow> nid \<notin> step_id ` set (steps (sdoc (ed p)))"
| "possible p (PKey k nid) \<longleftrightarrow> nid \<notin> object_ids (sdoc (ed p))"
| "possible p (PSaved k t sl) \<longleftrightarrow> k < length (inflight p)"
| "possible p (PSaveFailed k m) \<longleftrightarrow> k < length (inflight p)"
| "possible p (POpened (Inr b) user) \<longleftrightarrow> good_doc (b_doc b)"
| "possible p _ \<longleftrightarrow> True"

text \<open>
  The pages met; \<open>calm\<close> ones are met with working storage and with the document left alone while a save is in
  flight.
\<close>

inductive visited :: "bool \<Rightarrow> page \<Rightarrow> bool" for calm where
  visit_new: "(\<And>j. d = Some j \<Longrightarrow> good_doc (job_doc j)) \<Longrightarrow>
    settle ((new_page nid)\<lparr>draft := d\<rparr>) = Some p \<Longrightarrow> visited calm p"
| visit_next: "visited calm p \<Longrightarrow> possible p ev \<Longrightarrow> (calm \<Longrightarrow> storage) \<Longrightarrow>
    handle canSave storage ev p = Inr p' \<Longrightarrow> (calm \<Longrightarrow> inflight p \<noteq> [] \<Longrightarrow> sdoc (ed p') = sdoc (ed p)) \<Longrightarrow>
    settle p' = Some q \<Longrightarrow> visited calm q"

section \<open>What a round of effects leaves alone\<close>

lemma play_effect_more [simp]:
  "inflight (play_effect p) = inflight p" "kept (play_effect p) = kept p" "draft (play_effect p) = draft p"
  "dirty (ed (play_effect p)) = dirty (ed p)" "wf_store (ed (play_effect p)) = wf_store (ed p)"
  by (simp_all add: play_effect_def)

lemma effects_keep [simp]:
  "inflight (step_effect p) = inflight p" "kept (step_effect p) = kept p" "draft (step_effect p) = draft p"
  "inflight (time_effect p) = inflight p" "kept (time_effect p) = kept p" "draft (time_effect p) = draft p"
  "inflight (line_effect p) = inflight p" "kept (line_effect p) = kept p" "draft (line_effect p) = draft p"
  by (simp_all add: step_effect_def time_effect_def line_effect_def set_clock_def set_ed_def)

lemma stages_keep [simp]:
  "inflight (stage1 p) = inflight p" "kept (stage1 p) = kept p" "draft (stage1 p) = draft p"
  "ed (stage1 p) = ed p"
  "inflight (stage2 p) = inflight p" "kept (stage2 p) = kept p" "draft (stage2 p) = draft p"
  "sdoc (ed (stage2 p)) = sdoc (ed p)" "dirty (ed (stage2 p)) = dirty (ed p)"
  "inflight (stage3 p) = inflight p" "kept (stage3 p) = kept p" "draft (stage3 p) = draft p"
  "ed (stage3 p) = ed p"
  "inflight (stage4 p) = inflight p" "kept (stage4 p) = kept p" "draft (stage4 p) = draft p"
  "sdoc (ed (stage4 p)) = sdoc (ed p)" "dirty (ed (stage4 p)) = dirty (ed p)"
  by (simp_all add: stage1_def stage2_def stage3_def stage4_def)

lemma pass_keeps [simp]:
  "inflight (pass p) = inflight p" "kept (pass p) = kept p" "draft (pass p) = draft p"
  "sdoc (ed (pass p)) = sdoc (ed p)" "dirty (ed (pass p)) = dirty (ed p)"
  by (simp_all add: pass_stages)

lemma pass_wf: "wf_store (ed p) \<Longrightarrow> wf_store (ed (pass p))"
  by (simp add: pass_stages stage4_def stage2_def time_effect_def wf_goToStep)

definition sound_page :: "page \<Rightarrow> bool" where
  "sound_page p \<longleftrightarrow> wf_store (ed p) \<and> (\<forall>j. draft p = Some j \<longrightarrow> good_doc (job_doc j))"

lemma sound_page_ok: "sound_page p \<Longrightarrow> page_ok p"
  by (simp add: sound_page_def page_ok_def wf_store_def)

lemma settle_keeps:
  assumes "sound_page p" "followed p" "settle p = Some q"
  shows "sound_page q" "in_step q" "\<not> any_due q" "inflight q = inflight p" "kept q = kept p"
    "sdoc (ed q) = sdoc (ed p)" "dirty (ed q) = dirty (ed p)"
proof -
  have q: "q = pass (pass p)" using settle_two [OF sound_page_ok [OF assms(1)] assms(2)] assms(3) by simp
  show "sound_page q" using assms(1) by (simp add: q sound_page_def pass_wf)
  show "in_step q" "\<not> any_due q"
    using settled_page [OF sound_page_ok [OF assms(1)] assms(2)] assms(3) by auto
  show "inflight q = inflight p" "kept q = kept p" "sdoc (ed q) = sdoc (ed p)" "dirty (ed q) = dirty (ed p)"
    by (simp_all add: q)
qed

section \<open>Every handler keeps the page sound\<close>

lemma store_step:
  "sound_page p \<Longrightarrow> sensible (ed p) ev \<Longrightarrow> exec ev (ed p) = Inr s \<Longrightarrow> wf_store s"
  using exec_wf [of "ed p" ev] by (auto simp: sound_page_def)

lemma sound_set:
  "wf_store s \<Longrightarrow> sound_page p \<Longrightarrow> sound_page (set_ed s p)" "sound_page (set_clock b p) = sound_page p"
  "sound_page (pg_pause p) = sound_page p"
  by (simp_all add: sound_page_def pg_pause_def set_ed_def set_clock_def)

lemma with_store_sound:
  assumes "with_store (exec ev) p = Inr p'" "sound_page p" "in_step p" "sensible (ed p) ev"
  shows "sound_page p' \<and> followed p'"
  using assms store_step [of p ev]
  by (auto simp: with_store_def sound_set followed_set_ed split: sum.splits)

lemma followed_clock: "followed p \<Longrightarrow> followed (set_clock b p)"
  using followed_set_clock [of p b] by (auto simp: followed_def set_clock_def)

lemma followed_ed: "followed p \<Longrightarrow> followed (set_ed s p)"
  using followed_set_ed [of p s] by (auto simp: followed_def set_ed_def)

text \<open>Setting of a store the signals of which no effect reads.\<close>

lemma followed_same:
  "stepIndex s = stepIndex (ed p) \<Longrightarrow> sdoc s = sdoc (ed p) \<Longrightarrow> followed (p\<lparr>ed := s\<rparr>) = followed p"
  by (simp add: followed_def in_step_def clock_step_def line_of_def)

lemma followed_irrelevant [simp]:
  "followed (p\<lparr>title := t\<rparr>) = followed p" "followed (p\<lparr>description := t\<rparr>) = followed p"
  "followed (p\<lparr>savedSlug := sl\<rparr>) = followed p" "followed (p\<lparr>pg_loading := v\<rparr>) = followed p"
  "followed (p\<lparr>loadError := m\<rparr>) = followed p" "followed (p\<lparr>saving := v\<rparr>) = followed p"
  "followed (p\<lparr>saveError := m\<rparr>) = followed p" "followed (p\<lparr>inflight := js\<rparr>) = followed p"
  "followed (p\<lparr>draft := d\<rparr>) = followed p" "followed (p\<lparr>kept := k\<rparr>) = followed p"
  by (simp_all add: followed_def in_step_def clock_step_def line_of_def)

lemma sound_same:
  "wf_store s = wf_store (ed p) \<Longrightarrow> sound_page (p\<lparr>ed := s\<rparr>) = sound_page p"
  by (simp add: sound_page_def)

lemma sound_irrelevant [simp]:
  "sound_page (p\<lparr>title := t\<rparr>) = sound_page p" "sound_page (p\<lparr>description := t\<rparr>) = sound_page p"
  "sound_page (p\<lparr>savedSlug := sl\<rparr>) = sound_page p" "sound_page (p\<lparr>pg_loading := v\<rparr>) = sound_page p"
  "sound_page (p\<lparr>loadError := m\<rparr>) = sound_page p" "sound_page (p\<lparr>saving := v\<rparr>) = sound_page p"
  "sound_page (p\<lparr>saveError := m\<rparr>) = sound_page p" "sound_page (p\<lparr>inflight := js\<rparr>) = sound_page p"
  "sound_page (p\<lparr>kept := k\<rparr>) = sound_page p"
  by (simp_all add: sound_page_def)

definition fine :: "page \<Rightarrow> bool" where
  "fine p \<longleftrightarrow> sound_page p \<and> followed p"

lemma fine_ed: "fine p \<Longrightarrow> wf_store s \<Longrightarrow> fine (set_ed s p)"
  by (simp add: fine_def sound_set followed_ed)

lemma fine_clock: "fine p \<Longrightarrow> fine (set_clock b p)"
  by (simp add: fine_def sound_set followed_clock)

lemma fine_pause: "fine p \<Longrightarrow> fine (pg_pause p)"
  by (simp add: pg_pause_def fine_clock)

lemma fine_wf: "fine p \<Longrightarrow> wf_store (ed p)"
  by (simp add: fine_def sound_page_def)

lemma fine_quiet:
  "fine p \<Longrightarrow> stepIndex s = stepIndex (ed p) \<Longrightarrow> sdoc s = sdoc (ed p) \<Longrightarrow> wf_store s \<Longrightarrow> fine (p\<lparr>ed := s\<rparr>)"
  by (simp add: fine_def sound_same followed_same sound_page_def)

lemma fine_with_store:
  assumes "with_store (exec ev) p = Inr p'" "fine p" "sensible (ed p) ev"
  shows "fine p'"
proof -
  obtain s where s: "exec ev (ed p) = Inr s" "p' = set_ed s p"
    using assms(1) by (auto simp: with_store_def split: sum.splits)
  have "wf_store s" using exec_wf [OF fine_wf [OF assms(2)] assms(3)] s(1) by auto
  with assms(2) s(2) show ?thesis by (simp add: fine_ed)
qed

lemma fine_store_op:
  assumes "\<And>s. exec ev s = Inr (f s)" "fine p" "sensible (ed p) ev"
  shows "wf_store (f (ed p))"
  using exec_wf [OF fine_wf [OF assms(2)] assms(3)] assms(1) by simp

lemma fine_goTo: "fine p \<Longrightarrow> fine (pg_goToStep i p)"
  by (simp add: pg_goToStep_def Let_def fine_clock fine_ed fine_pause fine_wf wf_goToStep)

lemma fine_signIn: "fine p \<Longrightarrow> fine (signInToSave storage p)"
  by (simp add: signInToSave_def Let_def markSaved_def fine_def sound_page_def wf_store_def
      followed_def in_step_def clock_step_def line_of_def)

lemma fine_save: "fine p \<Longrightarrow> fine (save canSave storage p)"
  using fine_signIn by (simp add: save_def fine_def)

lemma fine_saved: "fine p \<Longrightarrow> fine (saved k t sl p)"
  by (simp add: saved_def Let_def markSaved_def fine_def sound_page_def wf_store_def
      followed_def in_step_def clock_step_def line_of_def)

lemma fine_load:
  assumes "fine p" "good_doc d"
  shows "fine (set_ed ((load d (ed p))\<lparr>dirty := v\<rparr>) p)" "fine (set_ed (load d (ed p)) p)"
proof -
  have "wf_store (load d (ed p))"
    by (rule fine_store_op [of "ELoad d" "load d" p]) (use assms in simp_all)
  then show "fine (set_ed ((load d (ed p))\<lparr>dirty := v\<rparr>) p)" "fine (set_ed (load d (ed p)) p)"
    using assms(1) by (simp_all add: fine_ed)
qed

lemma fine_more [simp]:
  "fine (p\<lparr>title := t\<rparr>) = fine p" "fine (p\<lparr>description := t\<rparr>) = fine p"
  "fine (p\<lparr>savedSlug := sl\<rparr>) = fine p" "fine (p\<lparr>pg_loading := v\<rparr>) = fine p"
  "fine (p\<lparr>loadError := m\<rparr>) = fine p" "fine (p\<lparr>saving := v\<rparr>) = fine p"
  "fine (p\<lparr>saveError := m\<rparr>) = fine p" "fine (p\<lparr>inflight := js\<rparr>) = fine p" "fine (p\<lparr>kept := k\<rparr>) = fine p"
  "fine (p\<lparr>recording := v\<rparr>) = fine p" "fine (p\<lparr>loop_before := v\<rparr>) = fine p"
  "fine (p\<lparr>draggingStep := i\<rparr>) = fine p" "fine (p\<lparr>dropStep := i\<rparr>) = fine p"
  "fine p \<Longrightarrow> fine (p\<lparr>draft := None\<rparr>)"
  by (simp_all add: fine_def) (simp_all add: sound_page_def followed_def in_step_def clock_step_def line_of_def)

lemma fine_video:
  assumes "fine p"
  shows "fine (video_start p)" "fine (video_play p)" "fine (video_done p)"
  using assms by (simp_all add: video_start_def video_play_def video_done_def Let_def fine_clock fine_pause)

lemma fine_move_step: "fine p \<Longrightarrow> fine (pg_moveStep a b p)"
proof -
  assume p: "fine p"
  have "wf_store (moveStep a b (ed p))"
    by (rule fine_store_op [of "EMoveStep a b" "moveStep a b" p]) (use p in simp_all)
  with p show ?thesis by (simp add: pg_moveStep_def fine_ed fine_pause)
qed

lemma fine_chips:
  assumes "fine p"
  shows "fine (onStepDragStart i p)" "fine (onStepDragOver i p)" "fine (onStepDragEnd p)" "fine (onStepDrop i p)"
proof -
  show end_fine: "fine (onStepDragEnd p)" using assms by (simp add: onStepDragEnd_def)
  show "fine (onStepDragStart i p)" "fine (onStepDragOver i p)"
    using assms by (simp_all add: onStepDragStart_def onStepDragOver_def)
  show "fine (onStepDrop i p)"
    using end_fine by (simp add: onStepDrop_def Let_def fine_move_step split: option.split)
qed

lemma fine_key:
  assumes "onKey canSave storage nid k p = Inr p'" "fine p" "nid \<notin> object_ids (sdoc (ed p))"
  shows "fine p'"
proof -
  have "fine (set_ed (duplicateSelection nid (ed p)) p)"
    using assms(2,3) fine_store_op [of "EDuplicateSelection nid" "duplicateSelection nid" p] by (simp add: fine_ed)
  moreover have "fine (set_ed (deleteSelection (ed p)) p)"
    using assms(2) fine_store_op [of EDeleteSelection deleteSelection p] by (simp add: fine_ed)
  moreover have "fine q" if "with_store undo p = Inr q \<or> with_store redo p = Inr q" for q
    using that assms(2) fine_with_store [of EUndo p q] fine_with_store [of ERedo p q]
    by (auto simp: with_store_def)
  moreover have "fine (p\<lparr>ed := (ed p)\<lparr>tool := SelectTool\<rparr>\<rparr>)"
    "fine (p\<lparr>ed := (ed p)\<lparr>preview := None, tool := SelectTool\<rparr>\<rparr>)"
    "fine (p\<lparr>ed := (ed p)\<lparr>preview := None, selection := None\<rparr>\<rparr>)"
    using assms(2) by (intro fine_quiet; simp add: fine_wf)+
  ultimately show ?thesis
    using assms(1,2) by (auto simp: onKey_def Let_def fine_save fine_clock fine_goTo split: if_splits)
qed

lemma fine_opened:
  assumes "fine p" "possible p (POpened answer user)"
  shows "fine (opened answer user p)"
proof (cases answer)
  case (Inl m)
  with assms(1) show ?thesis by (simp add: opened_def)
next
  case (Inr b)
  with assms show ?thesis by (simp add: opened_def fine_load)
qed

lemma fine_restore: "fine p \<Longrightarrow> fine (restoreDraft p)"
proof (cases "draft p")
  case (Some d)
  assume p: "fine p"
  with Some have "good_doc (job_doc d)" by (simp add: fine_def sound_page_def)
  with p Some show ?thesis by (simp add: restoreDraft_def fine_load)
qed (simp add: restoreDraft_def)

lemma fine_titles: "fine p \<Longrightarrow> fine (setTitle v p)" "fine p \<Longrightarrow> fine (setDescription v p)"
proof -
  assume p: "fine p"
  have "fine (p\<lparr>ed := (ed p)\<lparr>dirty := True\<rparr>\<rparr>)"
    using p by (intro fine_quiet) (simp_all add: fine_wf)
  moreover have "setTitle v p = (p\<lparr>ed := (ed p)\<lparr>dirty := True\<rparr>\<rparr>)\<lparr>title := v\<rparr>"
    "setDescription v p = (p\<lparr>ed := (ed p)\<lparr>dirty := True\<rparr>\<rparr>)\<lparr>description := v\<rparr>"
    by (simp_all add: setTitle_def setDescription_def)
  ultimately show "fine (setTitle v p)" "fine (setDescription v p)"
    by (simp_all only: fine_more)
qed

lemma handle_fine:
  assumes p: "fine p" and ev: "possible p ev" and h: "handle canSave storage ev p = Inr p'"
  shows "fine p'"
proof (cases ev)
  case (PEdit e)
  with assms show ?thesis using fine_with_store [of e p p'] by simp
next
  case (PAddStep nid)
  have "wf_store (addStep nid (ed p))"
    by (rule fine_store_op [of "EAddStep nid" "addStep nid" p]) (use p ev PAddStep in simp_all)
  then show ?thesis using h p PAddStep by (auto simp: pg_addStep_def fine_ed fine_pause)
next
  case (PDuplicateStep nid dids)
  then have "with_store (exec (EDuplicateStep nid dids)) (pg_pause p) = Inr p'"
    using h by (simp add: pg_duplicateStep_def with_store_def)
  moreover have "sensible (ed (pg_pause p)) (EDuplicateStep nid dids)"
    using ev PDuplicateStep by (simp add: pg_pause_def)
  ultimately show ?thesis using fine_with_store fine_pause [OF p] by blast
next
  case (PKey k nid)
  with assms show ?thesis using fine_key [of canSave storage nid k p p'] by simp
next
  case (POpened answer user)
  with assms show ?thesis using fine_opened [of p answer user] by auto
qed (use p h in \<open>auto simp: fine_clock fine_goTo fine_titles fine_save fine_signIn fine_saved fine_restore
      fine_video fine_chips fine_move_step save_failed_def load_started_def\<close>)

lemma handle_total:
  assumes "fine p" "possible p ev"
  shows "\<exists>p'. handle canSave storage ev p = Inr p'"
proof -
  have st: "\<exists>p'. with_store (exec e) q = Inr p'" if "wf_store (ed q)" "sensible (ed q) e" for e q
    using exec_wf [OF that] by (auto simp: with_store_def)
  have w: "wf_store (ed p)" "wf_store (ed (pg_pause p))"
    using assms(1) fine_pause [of p] by (simp_all add: fine_wf)
  show ?thesis
  proof (cases ev)
    case (PEdit e)
    with st [of p e] w assms show ?thesis by simp
  next
    case (PDuplicateStep nid dids)
    with st [of "pg_pause p" "EDuplicateStep nid dids"] w assms show ?thesis
      by (simp add: pg_duplicateStep_def with_store_def pg_pause_def)
  next
    case (PKey k nid)
    with st [of p EUndo] st [of p ERedo] w show ?thesis
      by (auto simp: onKey_def with_store_def Let_def)
  qed simp_all
qed

lemma visited_fine: "visited calm p \<Longrightarrow> sound_page p \<and> in_step p \<and> \<not> any_due p"
proof (induction rule: visited.induct)
  case (visit_new d nid p)
  have "sound_page ((new_page nid)\<lparr>draft := d\<rparr>)" "followed ((new_page nid)\<lparr>draft := d\<rparr>)"
    using wf_new [of nid] visit_new(1) by (auto simp: sound_page_def new_page_def followed_def)
  from settle_keeps [OF this visit_new(2)] show ?case by simp
next
  case (visit_next p ev storage canSave p' q)
  then have "fine p" by (simp add: fine_def followed_def)
  then have "fine p'" by (rule handle_fine) (rule visit_next)+
  then have "sound_page p'" "followed p'" by (simp_all add: fine_def)
  from settle_keeps [OF this visit_next.hyps(6)] show ?case by simp
qed



section \<open>What is saved\<close>

text \<open>A call on the store that leaves the board marked as saved left its document alone.\<close>

lemma dirty_apply [simp]: "dirty (apply_doc d g s)" "sdoc (apply_doc d g s) = d"
  by (simp_all add: apply_doc_def Let_def)

lemma dirty_drop [simp]:
  "dirty (drop_drawing_selection s) = dirty s" "sdoc (drop_drawing_selection s) = sdoc s"
  by (simp_all add: drop_drawing_selection_def split: option.split target.split)

definition tells :: "editor \<Rightarrow> editor \<Rightarrow> bool" where
  "tells s t \<longleftrightarrow> dirty t \<or> dirty t = dirty s \<and> sdoc t = sdoc s"

lemma tells_history: "afterHistory s = Inr t \<Longrightarrow> dirty t"
  by (auto simp: afterHistory_def Let_def split: option.splits target.splits if_splits)

lemma exec_tells:
  assumes "exec ev s = Inr t" "ev \<noteq> EMarkSaved" "\<forall>d. ev \<noteq> ELoad d"
  shows "tells s t"
proof (cases ev)
  case EUndo
  with assms tells_history show ?thesis by (auto simp: undo_def tells_def split: if_splits)
next
  case ERedo
  with assms tells_history show ?thesis by (auto simp: redo_def tells_def split: if_splits)
qed (use assms in \<open>auto simp: edit_defs tells_def Let_def split: option.splits target.splits prod.splits if_splits\<close>)

definition accounted :: "page \<Rightarrow> bool" where
  "accounted p \<longleftrightarrow> list_all (\<lambda>j. job_doc j = sdoc (ed p)) (inflight p)
     \<and> (\<not> dirty (ed p) \<longrightarrow> sdoc (ed p) = kept p)"

definition told :: "page \<Rightarrow> page \<Rightarrow> bool" where
  "told p q \<longleftrightarrow> tells (ed p) (ed q) \<and> inflight q = inflight p \<and> kept q = kept p"

lemma told_accounted:
  "told p q \<Longrightarrow> accounted p \<Longrightarrow> (inflight p \<noteq> [] \<Longrightarrow> sdoc (ed q) = sdoc (ed p)) \<Longrightarrow> accounted q"
  by (cases "inflight p = []") (auto simp: told_def accounted_def tells_def)

lemma told_refl [simp]: "told p p"
  by (simp add: told_def tells_def)

lemma told_set [simp]:
  "told p (set_clock b q) = told p q" "told p (pg_pause q) = told p q" "told (pg_pause p) q = told p q"
  by (simp_all add: told_def pg_pause_def)

lemma told_ed: "tells (ed p) s \<Longrightarrow> told p (set_ed s p)"
  by (simp add: told_def)

lemma told_exec:
  "with_store (exec e) p = Inr p' \<Longrightarrow> e \<noteq> EMarkSaved \<Longrightarrow> \<forall>d. e \<noteq> ELoad d \<Longrightarrow> told p p'"
  using exec_tells [of e "ed p"] by (auto simp: with_store_def told_ed split: sum.splits)

lemma tells_same [simp]: "dirty t = dirty s \<Longrightarrow> sdoc t = sdoc s \<Longrightarrow> tells s t" "dirty t \<Longrightarrow> tells s t"
  by (simp_all add: tells_def)

lemma pause_fields [simp]:
  "ed (pg_pause p) = ed p" "inflight (pg_pause p) = inflight p" "kept (pg_pause p) = kept p"
  by (simp_all add: pg_pause_def)

lemma told_goTo: "told p (pg_goToStep i p)"
  by (simp add: pg_goToStep_def Let_def told_def)

lemma told_moveStep: "told p (pg_moveStep a b p)"
proof -
  have "tells (ed p) (moveStep a b (ed p))" using exec_tells [of "EMoveStep a b" "ed p"] by simp
  then have "told (pg_pause p) (set_ed (moveStep a b (ed p)) (pg_pause p))" by (intro told_ed) simp
  then show ?thesis by (simp add: pg_moveStep_def)
qed

lemma told_drop: "told p (onStepDrop i p)"
proof -
  have "told (onStepDragEnd p) q = told p q" for q by (simp add: told_def onStepDragEnd_def)
  moreover have "told (onStepDragEnd p) (pg_moveStep a b (onStepDragEnd p))" for a b by (rule told_moveStep)
  moreover have "told p (onStepDragEnd p)" by (simp add: told_def onStepDragEnd_def)
  ultimately show ?thesis by (simp add: onStepDrop_def Let_def split: option.split)
qed

lemma told_rest:
  "told p (video_start p)" "told p (video_play p)" "told p (video_done p)"
  "told p (onStepDragStart i p)" "told p (onStepDragOver i p)" "told p (onStepDragEnd p)"
  by (simp_all add: told_def video_start_def video_play_def video_done_def Let_def onStepDragStart_def
      onStepDragOver_def onStepDragEnd_def)

lemma accounted_save:
  assumes "accounted p"
  shows "accounted (signInToSave True p)" "accounted (save canSave True p)"
proof -
  show "accounted (signInToSave True p)"
    using assms by (simp add: accounted_def signInToSave_def Let_def markSaved_def)
  then show "accounted (save canSave True p)"
    using assms by (simp add: save_def) (simp add: accounted_def)
qed

lemma list_all_remove: "list_all P xs \<Longrightarrow> list_all P (remove_at k xs)"
  by (auto simp: remove_at_def list_all_iff dest: in_set_takeD in_set_dropD)

lemma told_key:
  assumes "onKey canSave storage nid k p = Inr p'" "\<not> (\<not> in_field k \<and> kmod k \<and> kname k = ''s'')"
  shows "told p p'"
proof -
  have "tells (ed p) (duplicateSelection nid (ed p))" "tells (ed p) (deleteSelection (ed p))"
    using exec_tells [of "EDuplicateSelection nid" "ed p"] exec_tells [of EDeleteSelection "ed p"] by simp_all
  moreover have "told p q" if "with_store undo p = Inr q \<or> with_store redo p = Inr q" for q
    using that told_exec [of EUndo p q] told_exec [of ERedo p q] by (auto simp: with_store_def)
  moreover have "told p (p\<lparr>ed := s\<rparr>)" if "dirty s = dirty (ed p)" "sdoc s = sdoc (ed p)" for s
    using that by (simp add: told_def)
  ultimately show ?thesis
    using assms by (auto simp: onKey_def Let_def told_ed told_goTo split: if_splits)
qed

lemma handle_accounted:
  assumes p: "accounted p" and ev: "possible p ev" and h: "handle canSave True ev p = Inr p'"
    and calm: "inflight p \<noteq> [] \<Longrightarrow> sdoc (ed p') = sdoc (ed p)"
  shows "accounted p'"
proof -
  note told = told_accounted [OF _ p calm]
  show ?thesis
  proof (cases ev)
    case (PEdit e)
    with h ev show ?thesis by (intro told told_exec [of e]) auto
  next
    case (PDuplicateStep nid dids)
    then have "with_store (exec (EDuplicateStep nid dids)) (pg_pause p) = Inr p'"
      using h by (simp add: pg_duplicateStep_def with_store_def)
    from told told_exec [OF this] show ?thesis by simp
  next
    case (PAddStep nid)
    have "tells (ed p) (addStep nid (ed p))" using exec_tells [of "EAddStep nid" "ed p"] by simp
    then have "told (pg_pause p) (set_ed (addStep nid (ed p)) (pg_pause p))" by (intro told_ed) simp
    with h PAddStep told show ?thesis by (simp add: pg_addStep_def)
  next
    case (PMoveStep a b)
    then have "p' = pg_moveStep a b p" using h by simp
    with told told_moveStep show ?thesis by simp
  next
    case (PDrop i)
    then have "p' = onStepDrop i p" using h by simp
    with told told_drop show ?thesis by simp
  next
    case (PKey k nid)
    show ?thesis
    proof (cases "\<not> in_field k \<and> kmod k \<and> kname k = ''s''")
      case True
      then have "p' = save canSave True p" using h PKey by (simp add: onKey_def)
      then show ?thesis by (simp only: accounted_save(2) [OF p])
    next
      case False
      with h PKey told told_key show ?thesis by simp
    qed
  next
    case (PSaved k t sl)
    then have "job_doc (inflight p ! k) = sdoc (ed p)"
      using ev p by (simp add: accounted_def list_all_length)
    moreover have "p' = saved k t sl p" using h PSaved by simp
    ultimately show ?thesis
      using p by (simp add: saved_def Let_def markSaved_def accounted_def list_all_remove)
  next
    case (PSaveFailed k m)
    then have "p' = save_failed k m p" using h by simp
    with p show ?thesis by (simp add: save_failed_def accounted_def list_all_remove)
  next
    case (POpened answer user)
    show ?thesis
    proof (cases "\<exists>b. answer = Inr b \<and> user = Some (owner_id b)")
      case True
      then obtain b where b: "answer = Inr b" "user = Some (owner_id b)" by blast
      have "p' = opened answer user p" using h POpened by simp
      then have "sdoc (ed p') = kept p'" "inflight p' = inflight p" "sdoc (ed p') = b_doc b"
        using b by (simp_all add: opened_def load_def)
      with p calm show ?thesis by (cases "inflight p = []") (simp_all add: accounted_def)
    next
      case False
      with h POpened told show ?thesis
        by (auto simp: opened_def told_def split: sum.splits)
    qed
  next
    case PRestore
    show ?thesis
    proof (cases "draft p")
      case (Some d)
      then have "dirty (ed p')" "inflight p' = inflight p"
        using h PRestore by (auto simp: restoreDraft_def)
      with p calm show ?thesis by (cases "inflight p = []") (simp_all add: accounted_def)
    qed (use h PRestore p in \<open>simp add: restoreDraft_def\<close>)
  next
    case (PTitle v)
    with h told show ?thesis by (auto simp: setTitle_def told_def)
  next
    case (PDescription v)
    with h told show ?thesis by (auto simp: setDescription_def told_def)
  next
    case (PClock evs)
    with h told show ?thesis by auto
  next
    case (PGoTo i)
    with h told told_goTo show ?thesis by auto
  next
    case POpening
    with h p show ?thesis by (auto simp: load_started_def accounted_def)
  next
    case PSave
    with h accounted_save [OF p] show ?thesis by auto
  next
    case PSignIn
    with h accounted_save [OF p] show ?thesis by auto
  qed (use h told told_rest in auto)
qed

lemma calm_accounted: "visited calm p \<Longrightarrow> calm \<Longrightarrow> accounted p"
proof (induction rule: visited.induct)
  case (visit_new d nid p)
  let ?p0 = "(new_page nid)\<lparr>draft := d\<rparr>"
  have f: "sound_page ?p0" "followed ?p0"
    using wf_new [of nid] visit_new(1) by (auto simp: sound_page_def new_page_def followed_def)
  have "accounted ?p0" by (simp add: accounted_def new_page_def new_editor_def)
  then show ?case using settle_keeps [OF f visit_new(2)] by (simp add: accounted_def)
next
  case (visit_next p ev storage canSave p' q)
  then have "storage" by simp
  with visit_next have "accounted p'" by (intro handle_accounted [of p ev canSave p']) auto
  moreover have f: "sound_page p'" "followed p'"
    using handle_fine [OF _ visit_next.hyps(2,4)] visited_fine [OF visit_next.hyps(1)]
    by (auto simp: fine_def followed_def)
  ultimately show ?case using settle_keeps [OF f visit_next.hyps(6)] by (simp add: accounted_def)
qed

text \<open>
  C10. A board marked as saved is saved: with working storage, and with the board left alone while a save is on its
  way, a page that lets the visitor leave without asking holds the document that was last opened, confirmed by
  the API or left in storage for the sign-in.
\<close>
theorem leaving_loses_nothing:
  assumes "visited True p" "canLeaveBoard False p"
  shows "sdoc (ed p) = kept p"
  using calm_accounted [OF assms(1)] assms(2) by (simp add: accounted_def canLeaveBoard_def split: if_splits)

theorem leaving_loses_nothing_witness: "\<exists>p. visited True p \<and> canLeaveBoard False p \<and> sdoc (ed p) = kept p"
proof -
  have n: "page_ok (new_page ''a'')" "followed (new_page ''a'')"
    by (simp_all add: page_ok_def followed_def new_page_def new_editor_def)
  have v: "visited True (pass (pass (new_page ''a'')))"
    using visited.visit_new [of None "''a''" "pass (pass (new_page ''a''))" True] settle_two [OF n]
    by (simp add: new_page_def)
  moreover have "canLeaveBoard False (pass (pass (new_page ''a'')))"
    by (simp add: canLeaveBoard_def) (simp add: new_page_def new_editor_def)
  ultimately show ?thesis using leaving_loses_nothing [OF v] by blast
qed

text \<open>
  Without that calm it is not: an edit made while a save is on its way is marked as saved when the answer comes,
  so the page lets the visitor leave without asking although the API was sent the document from before the edit.
\<close>
theorem edit_during_a_save_counts_as_saved:
  assumes "inflight p = []" "exec ev (ed p) = Inr s" "sdoc s \<noteq> sdoc (ed p)"
  shows "\<exists>p'. handle True storage (PEdit ev) (save True storage p) = Inr p' \<and> canLeaveBoard False (saved 0 t sl p')
    \<and> sdoc (ed (saved 0 t sl p')) = sdoc s \<and> kept (saved 0 t sl p') = sdoc (ed p)"
  using assms by (simp add: with_store_def save_def saved_def Let_def canLeaveBoard_def markSaved_def set_ed_def)

theorem edit_during_a_save_counts_as_saved_witness:
  "\<exists>p'. handle True True (PEdit (EAddStep ''b'')) (save True True (new_page ''a'')) = Inr p'
    \<and> canLeaveBoard False (saved 0 ''t'' ''s'' p') \<and> kept (saved 0 ''t'' ''s'' p') = emptyDoc ''a''"
proof -
  have e: "exec (EAddStep ''b'') (ed (new_page ''a'')) = Inr (addStep ''b'' (new_editor ''a''))"
    by (simp add: new_page_def)
  have d: "sdoc (ed (new_page ''a'')) = emptyDoc ''a''" by (simp add: new_page_def new_editor_def)
  have "length (steps (sdoc (addStep ''b'' (new_editor ''a'')))) \<noteq> length (steps (emptyDoc ''a''))"
    by (simp add: addStep_def Let_def new_editor_def)
  then have "sdoc (addStep ''b'' (new_editor ''a'')) \<noteq> sdoc (ed (new_page ''a''))" unfolding d by force
  moreover have "inflight (new_page ''a'') = []" by (simp add: new_page_def)
  ultimately show ?thesis
    using edit_during_a_save_counts_as_saved [OF _ e, of True "''t''" "''s''"] unfolding d by blast
qed

text \<open>
  Ctrl+S is not held back while a save is on its way, as the button is: pressed twice on a new board, it asks
  the API to create the board twice.
\<close>
theorem ctrl_s_twice_creates_twice:
  assumes "\<not> in_field k" "kmod k" "kname k = ''s''" "savedSlug p = None" "inflight p = []"
  shows "\<exists>p1 p2. onKey True storage nid k p = Inr p1 \<and> onKey True storage nid k p1 = Inr p2
    \<and> map job_slug (inflight p2) = [None, None]"
  using assms by (simp add: onKey_def save_def)

theorem ctrl_s_twice_creates_twice_witness:
  "\<exists>p1 p2. onKey True True ''x'' \<lparr>in_field = False, kmod = True, kshift = False, kname = ''s''\<rparr> (new_page ''a'') = Inr p1
    \<and> onKey True True ''x'' \<lparr>in_field = False, kmod = True, kshift = False, kname = ''s''\<rparr> p1 = Inr p2
    \<and> map job_slug (inflight p2) = [None, None]"
  by (rule ctrl_s_twice_creates_twice) (simp_all add: new_page_def)

end
