(* ===== verification/Board_Strokes.thy ===== *)
theory Board_Strokes
  imports Geometry
begin

text \<open>
  What lies flat on the grass (\<open>features/tactics/board/strokes.ts\<close>): the centreline of a drawing, the ribbon
  built along it, arrow heads, and the lines of the pitch.  The buffers handed to the graphics library
  are modelled as the vertices and triangle indices they are filled with; a vertex is its point on the
  ground, the height above the grass being the same for all of a ribbon.
\<close>

section \<open>Ribbons\<close>

definition LIFT :: real where "LIFT = 25 / 1000"

text \<open>The offset from the centreline to the left edge at point \<open>i\<close>, for half the width 1.\<close>

definition ribbon_normal :: "vec2 list \<Rightarrow> nat \<Rightarrow> vec2" where
  "ribbon_normal line i =
     (let n = length line; prev = line ! (i - 1); nxt = line ! min (n - 1) (i + 1); here = line ! i in
      if i = 0 \<or> i = n - 1
      then (let dx = fst nxt - fst prev; dy = snd nxt - snd prev; len = hypot_or_1 dx dy
            in (- dy / len, dx / len))
      else (let ax = fst here - fst prev; ay = snd here - snd prev;
                bx = fst nxt - fst here; by' = snd nxt - snd here;
                la = hypot_or_1 ax ay; lb = hypot_or_1 bx by';
                n1x = - ay / la; n1y = ax / la; n2x = - by' / lb; n2y = bx / lb;
                sx = n1x + n2x; sy = n1y + n2y;
                len = hypot_or_1 sx sy;
                nx = sx / len; ny = sy / len;
                c = nx * n1x + ny * n1y;
                scale = min (5 / 2) (1 / max (2 / 10) c)
            in (nx * scale, ny * scale)))"

definition ribbon_vertices :: "vec2 list \<Rightarrow> real \<Rightarrow> vec2 list" where
  "ribbon_vertices line width =
     concat (map (\<lambda>i. let (nx, ny) = ribbon_normal line i; (x, y) = line ! i; hw = width / 2
                     in [(x + nx * hw, y + ny * hw), (x - nx * hw, y - ny * hw)]) [0..<length line])"

definition ribbon_indices :: "nat \<Rightarrow> nat \<Rightarrow> nat list" where
  "ribbon_indices base n =
     concat (map (\<lambda>i. let a = base + (i - 1) * 2 in [a, a + 1, a + 2, a + 1, a + 3, a + 2]) [1..<n])"

text \<open>The loop over the polylines, with the vertices so far; lines of a single point are left out.\<close>

fun ribbon_loop :: "real \<Rightarrow> vec2 list \<Rightarrow> vec2 list list \<Rightarrow> vec2 list \<times> nat list" where
  "ribbon_loop width vs [] = (vs, [])"
| "ribbon_loop width vs (line # ls) =
     (if length line < 2 then ribbon_loop width vs ls
      else case ribbon_loop width (vs @ ribbon_vertices line width) ls of
             (vs', is) \<Rightarrow> (vs', ribbon_indices (length vs) (length line) @ is))"

definition ribbon :: "vec2 list list \<Rightarrow> real \<Rightarrow> vec2 list \<times> nat list" where
  "ribbon ls width = ribbon_loop width [] ls"

section \<open>Drawings\<close>

definition arrowHead :: "vec2 \<Rightarrow> vec2 \<Rightarrow> real \<Rightarrow> vec2 list" where
  "arrowHead src tip width =
     (let len = max (11 / 10) (width * (42 / 10)); half = max (6 / 10) (width * (21 / 10));
          d = (if dist2 src tip = 0 then 1 else dist2 src tip);
          ux = (fst tip - fst src) / d; uy = (snd tip - snd src) / d;
          bx = fst tip - ux * len; by' = snd tip - uy * len
      in [tip, (bx - uy * half, by' + ux * half), (bx + uy * half, by' - ux * half)])"

text \<open>The loop of \<open>trimEnd\<close> on the reversed points: the last point first.\<close>

fun trim_loop :: "real \<Rightarrow> vec2 list \<Rightarrow> vec2 list" where
  "trim_loop remaining (b # a # ps) =
     (if remaining > 0
      then (let d = dist2 a b in
            if d > remaining then lerp2 a b ((d - remaining) / d) # a # ps
            else trim_loop (remaining - d) (a # ps))
      else b # a # ps)"
| "trim_loop remaining ps = ps"

definition trimEnd :: "vec2 list \<Rightarrow> real \<Rightarrow> vec2 list" where
  "trimEnd pts amount = rev (trim_loop amount (rev pts))"

definition drawingPath :: "drawing \<Rightarrow> vec2 list" where
  "drawingPath d =
     (let pts = points d in
      case drawing_kind d of
        Arrow \<Rightarrow> if length pts \<ge> 2 then sampleCurve (hd pts) (last pts) (control d) 40 else pts
      | Line \<Rightarrow> if length pts \<ge> 2 then sampleCurve (hd pts) (last pts) (control d) 40 else pts
      | Pen \<Rightarrow> smooth 2 pts
      | Rect \<Rightarrow> if length pts \<ge> 2 then rect (pts ! 0) (pts ! 1) else pts
      | Ellipse \<Rightarrow> if length pts \<ge> 2 then ellipse (pts ! 0) (pts ! 1) 64 else pts
      | Polygon \<Rightarrow> if length pts \<ge> 3 then pts @ [hd pts] else pts
      | TextLabel \<Rightarrow> pts)"

definition is_zone :: "drawing \<Rightarrow> bool" where
  "is_zone d \<longleftrightarrow> drawing_kind d \<in> {Rect, Ellipse, Polygon}"

definition width_of :: "drawing \<Rightarrow> real" where
  "width_of d = (case stroke_width d of Some w \<Rightarrow> w | None \<Rightarrow> DEFAULT_STROKE)"

text \<open>
  What \<open>buildDrawing\<close> puts on the grass for a drawing that is not text: the outline of a zone's filling, the
  polylines of the stroke and the arrow head.  \<open>None\<close> is a resampling that does not end.
\<close>

record strokes =
  zone_outline :: "vec2 list option"
  stroke_lines :: "vec2 list list"
  head_triangle :: "vec2 list option"

definition no_strokes :: strokes where
  "no_strokes = \<lparr>zone_outline = None, stroke_lines = [], head_triangle = None\<rparr>"

definition buildDrawing :: "drawing \<Rightarrow> strokes option" where
  "buildDrawing d =
     (let width = width_of d; path = drawingPath d in
      if drawing_kind d = TextLabel \<or> length path < 2 then Some no_strokes
      else (let zone = is_zone d;
                headed = (drawing_kind d = Arrow);
                tip = last path;
                headFrom = last (trimEnd path 1);
                path' = (if headed then trimEnd path (max (11 / 10) (width * (42 / 10)) * (7 / 10)) else path);
                styled = (case style d of
                     Some Wavy \<Rightarrow> if zone then Some [path'] else map_option (\<lambda>l. [l]) (wave path' (45 / 100) (18 / 10))
                   | Some Dashed \<Rightarrow> dashes path' (max (12 / 10) (width * 4)) (max (8 / 10) (width * (26 / 10)))
                   | _ \<Rightarrow> Some [path'])
            in map_option (\<lambda>ls. \<lparr>zone_outline = (if zone then Some path else None), stroke_lines = ls,
                 head_triangle = (if headed then Some (arrowHead headFrom tip width) else None)\<rparr>) styled))"

section \<open>Pitch markings\<close>

definition arc :: "real \<Rightarrow> real \<Rightarrow> real \<Rightarrow> real \<Rightarrow> real \<Rightarrow> nat \<Rightarrow> vec2 list" where
  "arc cx cy r a b n =
     map (\<lambda>i. let t = a + ((b - a) * real i) / real n in (cx + cos t * r, cy + sin t * r)) [0..<Suc n]"

definition corner_start :: "real \<Rightarrow> real \<Rightarrow> real" where
  "corner_start side e =
     (if side < 0 then (if e < 0 then 0 else - pi / 2) else if e < 0 then pi / 2 else pi)"

definition side_lines :: "real \<Rightarrow> vec2 list list" where
  "side_lines side =
     (let goalLine = side * HALF_LENGTH;
          box = goalLine - side * (165 / 10);
          six = goalLine - side * (55 / 10);
          spot = goalLine - side * 11;
          a = arccos ((55 / 10) / (915 / 100))
      in [[(goalLine, - 2016 / 100), (box, - 2016 / 100), (box, 2016 / 100), (goalLine, 2016 / 100)],
          [(goalLine, - 916 / 100), (six, - 916 / 100), (six, 916 / 100), (goalLine, 916 / 100)],
          if side < 0 then arc spot 0 (915 / 100) (- a) a 48 else arc spot 0 (915 / 100) (pi - a) (pi + a) 48]
         @ map (\<lambda>e. arc goalLine (e * HALF_WIDTH) 1 (corner_start side e) (corner_start side e + pi / 2) 12) [-1, 1])"

definition touch_lines :: "vec2 list" where
  "touch_lines = [(- HALF_LENGTH, - HALF_WIDTH), (HALF_LENGTH, - HALF_WIDTH), (HALF_LENGTH, HALF_WIDTH),
     (- HALF_LENGTH, HALF_WIDTH), (- HALF_LENGTH, - HALF_WIDTH)]"

definition standardLines :: "vec2 list list" where
  "standardLines =
     [touch_lines, [(0, - HALF_WIDTH), (0, HALF_WIDTH)], arc 0 0 (915 / 100) 0 (pi * 2) 96]
     @ concat (map side_lines [-1, 1])"

text \<open>\<open>for (let x = lo + 5; x < hi; x += 5)\<close>\<close>

definition grid_ticks :: "real \<Rightarrow> real \<Rightarrow> real list" where
  "grid_ticks lo hi = map (\<lambda>i. lo + 5 * real (Suc i)) [0..<nat (\<lceil>(hi - lo) / 5\<rceil> - 1)]"

definition grid_lines :: "vec2 list list" where
  "grid_lines =
     map (\<lambda>x. [(x, - HALF_WIDTH), (x, HALF_WIDTH)]) (grid_ticks (- HALF_LENGTH) HALF_LENGTH)
     @ map (\<lambda>y. [(- HALF_LENGTH, y), (HALF_LENGTH, y)]) (grid_ticks (- HALF_WIDTH) HALF_WIDTH)"

text \<open>The polylines of the markings with their widths, and the centres of the spots.\<close>

definition buildMarkings :: "pitch_markings \<Rightarrow> (vec2 list list \<times> real) list \<times> vec2 list" where
  "buildMarkings m =
     (case m of
        Standard \<Rightarrow> ([(standardLines, 14 / 100)], [(0, 0), (- HALF_LENGTH + 11, 0), (HALF_LENGTH - 11, 0)])
      | Grid \<Rightarrow> ([([touch_lines], 14 / 100), (grid_lines, 6 / 100)], [])
      | NoMarkings \<Rightarrow> ([], []))"

section \<open>Ribbons stay near their line\<close>

lemma hypot_scale: "hypot (k * a) (k * b) = \<bar>k\<bar> * hypot a b"
  by (simp add: hypot_def power_mult_distrib flip: distrib_left) (simp add: real_sqrt_mult)

lemma unit_vector: "hypot (a / hypot_or_1 a b) (b / hypot_or_1 a b) \<le> 1"
proof (cases "hypot a b = 0")
  case False
  then have "hypot (a / hypot_or_1 a b) (b / hypot_or_1 a b) = \<bar>1 / hypot a b\<bar> * hypot a b"
    using hypot_scale [of "1 / hypot a b" a b] by (simp add: hypot_or_1_def)
  with False show ?thesis by simp
next
  case True
  then show ?thesis by (simp add: hypot_or_1_def)
qed

lemma hypot_turn: "hypot (- b) a = hypot a b"
  by (simp add: hypot_def add.commute)

lemma ribbon_normal_short: "hypot (fst (ribbon_normal line i)) (snd (ribbon_normal line i)) \<le> 5 / 2"
proof -
  have scaled: "hypot (x / hypot_or_1 x y * min (5 / 2) (1 / max (2 / 10) c))
      (y / hypot_or_1 x y * min (5 / 2) (1 / max (2 / 10) c)) \<le> 5 / 2" for x y c
  proof -
    let ?k = "min (5 / 2) (1 / max (2 / 10) c) :: real"
    have k: "?k \<le> 5 / 2" by (rule min.cobounded1)
    moreover have "0 \<le> ?k" by (rule min.boundedI) simp_all
    ultimately have k: "0 \<le> ?k" "?k \<le> 5 / 2" by blast+
    have "hypot (x / hypot_or_1 x y * ?k) (y / hypot_or_1 x y * ?k) = ?k * hypot (x / hypot_or_1 x y) (y / hypot_or_1 x y)"
      using hypot_scale [of ?k "x / hypot_or_1 x y" "y / hypot_or_1 x y"] k by (simp add: mult.commute)
    also have "\<dots> \<le> 5 / 2 * 1" using k unit_vector [of x y] by (intro mult_mono) auto
    finally show ?thesis by simp
  qed
  have tip: "hypot (- dy / hypot_or_1 dx dy) (dx / hypot_or_1 dx dy) \<le> 5 / 2" for dx dy
    using unit_vector [of dx dy] hypot_turn [of "dy / hypot_or_1 dx dy" "dx / hypot_or_1 dx dy"] by simp
  show ?thesis unfolding ribbon_normal_def Let_def
    by (simp only: fst_conv snd_conv scaled tip simp_thms split: if_split)
qed

lemma length_ribbon_vertices [simp]: "length (ribbon_vertices line width) = 2 * length line"
  by (simp add: ribbon_vertices_def length_concat o_def split_beta Let_def sum_list_triv)

lemma ribbon_vertices_near:
  assumes "0 \<le> width" "v \<in> set (ribbon_vertices line width)"
  shows "\<exists>p\<in>set line. dist2 p v \<le> 5 / 4 * width"
proof -
  from assms(2) obtain i where i: "i < length line"
    and v: "v \<in> {(fst (line ! i) + fst (ribbon_normal line i) * (width / 2), snd (line ! i) + snd (ribbon_normal line i) * (width / 2)),
              (fst (line ! i) - fst (ribbon_normal line i) * (width / 2), snd (line ! i) - snd (ribbon_normal line i) * (width / 2))}"
    by (auto simp: ribbon_vertices_def Let_def split_beta)
  let ?n = "ribbon_normal line i"
  have "dist2 (line ! i) v = width / 2 * hypot (fst ?n) (snd ?n)"
    using v assms(1) hypot_scale [of "width / 2" "fst ?n" "snd ?n"] hypot_scale [of "- (width / 2)" "fst ?n" "snd ?n"]
    by (auto simp: dist2_def mult.commute)
  also have "\<dots> \<le> width / 2 * (5 / 2)" using assms(1) ribbon_normal_short by (intro mult_left_mono) auto
  finally show ?thesis using i by (intro bexI [of _ "line ! i"]) auto
qed

lemma ribbon_indices_below: "k \<in> set (ribbon_indices base n) \<Longrightarrow> base \<le> k \<and> k < base + 2 * n"
  by (auto simp: ribbon_indices_def Let_def)
lemma length_ribbon_indices [simp]: "length (ribbon_indices base n) = 6 * (n - 1)"
  by (simp add: ribbon_indices_def length_concat o_def Let_def sum_list_triv)

lemma ribbon_loop_inv:
  "ribbon_loop width vs ls = (vs', is) \<Longrightarrow>
     (\<exists>new. vs' = vs @ new \<and> length new = (\<Sum>l\<leftarrow>filter (\<lambda>l. 2 \<le> length l) ls. 2 * length l)
        \<and> set new = (\<Union>l\<in>{l\<in>set ls. 2 \<le> length l}. set (ribbon_vertices l width)))
     \<and> (\<forall>i\<in>set is. i < length vs') \<and> length is = (\<Sum>l\<leftarrow>filter (\<lambda>l. 2 \<le> length l) ls. 6 * (length l - 1))"
proof (induction width vs ls arbitrary: vs' "is" rule: ribbon_loop.induct)
  case (2 width vs line ls)
  show ?case
  proof (cases "length line < 2")
    case True
    with 2 show ?thesis by (auto simp: not_le)
  next
    case False
    then obtain js where r: "ribbon_loop width (vs @ ribbon_vertices line width) ls = (vs', js)"
      "is = ribbon_indices (length vs) (length line) @ js"
      using "2.prems" by (auto split: prod.splits)
    from "2.IH"(2) [OF False r(1)] False r(2) show ?thesis
      by (auto dest!: ribbon_indices_below simp: not_less)
  qed
qed simp

text \<open>
  A ribbon is fit for drawing: two vertices per point and two triangles per segment of the lines with at
  least two points, no index past the vertices, and every vertex within five quarters of the width from
  a point of its line, however sharply the stroke turns.
\<close>
theorem ribbon_fits_line:
  assumes "0 \<le> width" "ribbon ls width = (vs, is)"
  shows "length vs = (\<Sum>l\<leftarrow>filter (\<lambda>l. 2 \<le> length l) ls. 2 * length l)
    \<and> length is = (\<Sum>l\<leftarrow>filter (\<lambda>l. 2 \<le> length l) ls. 6 * (length l - 1))
    \<and> (\<forall>i\<in>set is. i < length vs)
    \<and> (\<forall>v\<in>set vs. \<exists>l\<in>set ls. \<exists>p\<in>set l. dist2 p v \<le> 5 / 4 * width)"
proof -
  from ribbon_loop_inv [of width "[]" ls vs "is"] assms(2)
  have r: "length vs = (\<Sum>l\<leftarrow>filter (\<lambda>l. 2 \<le> length l) ls. 2 * length l)"
    "set vs = (\<Union>l\<in>{l\<in>set ls. 2 \<le> length l}. set (ribbon_vertices l width))" "\<forall>i\<in>set is. i < length vs"
    "length is = (\<Sum>l\<leftarrow>filter (\<lambda>l. 2 \<le> length l) ls. 6 * (length l - 1))"
    by (auto simp: ribbon_def)
  from r(2) have "\<exists>l\<in>set ls. \<exists>p\<in>set l. dist2 p v \<le> 5 / 4 * width" if "v \<in> set vs" for v
    using ribbon_vertices_near [OF assms(1)] that by fastforce
  with r show ?thesis by blast
qed

theorem ribbon_fits_line_witness:
  "length (fst (ribbon [[(0, 0), (1, 0), (1, 1)], [(5, 5)]] (1 / 10))) = 6
   \<and> length (snd (ribbon [[(0, 0), (1, 0), (1, 1)], [(5, 5)]] (1 / 10))) = 12"
  using ribbon_fits_line [of "1 / 10" "[[(0, 0), (1, 0), (1, 1)], [(5, 5)]]"
      "fst (ribbon [[(0, 0), (1, 0), (1, 1)], [(5, 5)]] (1 / 10))"
      "snd (ribbon [[(0, 0), (1, 0), (1, 1)], [(5, 5)]] (1 / 10))"]
  by simp

section \<open>Shortening a path\<close>

lemma path_length_snoc: "path_length (xs @ [a, b]) = path_length (xs @ [a]) + dist2 a b"
  by (induction xs rule: path_length.induct) simp_all

lemma dist2_lerp: "0 \<le> t \<Longrightarrow> dist2 a (lerp2 a b t) = t * dist2 a b"
  using hypot_scale [of t "fst b - fst a" "snd b - snd a"]
  by (simp add: dist2_def lerp2_def lerp_def mult.commute)

lemma trim_loop_props:
  "0 \<le> amount \<Longrightarrow> ps \<noteq> [] \<Longrightarrow>
     trim_loop amount ps \<noteq> [] \<and> last (trim_loop amount ps) = last ps
     \<and> path_length (rev (trim_loop amount ps)) = max 0 (path_length (rev ps) - amount)"
proof (induction amount ps rule: trim_loop.induct)
  case (1 remaining b a ps)
  let ?d = "dist2 a b"
  have len: "path_length (rev (b # a # ps)) = path_length (rev ps @ [a]) + ?d"
    using path_length_snoc [of "rev ps" a b] by simp
  have nn: "0 \<le> path_length (rev ps @ [a])" by simp
  consider "\<not> remaining > 0" | "remaining > 0" "?d > remaining" | "remaining > 0" "\<not> ?d > remaining"
    by blast
  then show ?case
  proof cases
    case 1
    with "1.prems" have "remaining = 0" by simp
    with 1 len nn show ?thesis by simp
  next
    case 2
    then have "0 \<le> (?d - remaining) / ?d" by simp
    from dist2_lerp [OF this, of a b] 2
    have "dist2 a (lerp2 a b ((?d - remaining) / ?d)) = ?d - remaining" by simp
    then have "path_length (rev ps @ [a, lerp2 a b ((?d - remaining) / ?d)]) = path_length (rev ps @ [a]) + ?d - remaining"
      by (simp add: path_length_snoc)
    moreover have "remaining \<le> path_length (rev ps @ [a]) + ?d"
      using 2 path_length_nonneg [of "rev ps @ [a]"] by linarith
    ultimately show ?thesis using 2 len by (simp add: Let_def max_def)
  next
    case 3
    then have "trim_loop remaining (b # a # ps) = trim_loop (remaining - ?d) (a # ps)" by (simp add: Let_def)
    with "1.IH" [OF 3(1) refl 3(2)] 3 len nn show ?thesis by (simp add: max_def)
  qed
qed (simp_all)

text \<open>
  Shortening a path by an amount takes exactly that much off its end, never more than there is, and
  leaves its start where it was.
\<close>
theorem trimEnd_shortens:
  assumes "0 \<le> amount" "pts \<noteq> []"
  shows "trimEnd pts amount \<noteq> [] \<and> hd (trimEnd pts amount) = hd pts
    \<and> path_length (trimEnd pts amount) = max 0 (path_length pts - amount)"
  using trim_loop_props [OF assms(1), of "rev pts"] assms(2)
  by (simp add: trimEnd_def hd_rev last_rev)

theorem trimEnd_shortens_witness:
  "path_length (trimEnd [(0, 0), (3, 0), (3, 4)] 5) = 2 \<and> hd (trimEnd [(0, 0), (3, 0), (3, 4)] 5) = (0, 0)"
proof -
  have "path_length [(0, 0), (3, 0), (3, 4)] = 7" by (simp add: dist2_def hypot_def)
  with trimEnd_shortens [of 5 "[(0, 0), (3, 0), (3, 4)]"] show ?thesis by simp
qed

section \<open>The markings lie on the pitch\<close>

definition on_pitch :: "vec2 \<Rightarrow> bool" where
  "on_pitch p \<longleftrightarrow> \<bar>fst p\<bar> \<le> HALF_LENGTH \<and> \<bar>snd p\<bar> \<le> HALF_WIDTH"

lemma arc_point:
  assumes "p \<in> set (arc cx cy r a b n)" "0 < n" "a \<le> b"
  obtains t where "a \<le> t" "t \<le> b" "p = (cx + cos t * r, cy + sin t * r)"
proof -
  have "p \<in> (\<lambda>i. (cx + cos (a + (b - a) * real i / real n) * r, cy + sin (a + (b - a) * real i / real n) * r)) ` {0..<Suc n}"
    using assms(1) unfolding arc_def Let_def set_map set_upt .
  then obtain i where "i \<in> {0..<Suc n}" "p = (cx + cos (a + (b - a) * real i / real n) * r,
      cy + sin (a + (b - a) * real i / real n) * r)"
    by (rule imageE)
  then have i: "i \<le> n" "p = (cx + cos (a + (b - a) * real i / real n) * r,
      cy + sin (a + (b - a) * real i / real n) * r)" by simp_all
  have "0 \<le> (b - a) * real i / real n" using assms(2,3) by simp
  moreover have "(b - a) * (real i / real n) \<le> (b - a) * 1"
    using i(1) assms(2,3) by (intro mult_left_mono) auto
  ultimately show thesis using i(2) by (intro that [of "a + (b - a) * real i / real n"]) auto
qed

lemma unit_disc_on_pitch:
  "- 1 \<le> c \<Longrightarrow> c \<le> 1 \<Longrightarrow> - 1 \<le> s \<Longrightarrow> s \<le> 1 \<Longrightarrow> on_pitch (c * (915 / 100), s * (915 / 100))"
  by (auto simp: on_pitch_def pitch_consts abs_le_iff)

lemma d_box:
  assumes "side = -1 \<or> side = 1" "550 / 915 \<le> c" "c \<le> 1" "- 1 \<le> s" "s \<le> 1"
  shows "on_pitch (side * HALF_LENGTH - side * 11 - side * c * (915 / 100), s * (915 / 100))"
    "165 / 10 \<le> HALF_LENGTH - side * (side * HALF_LENGTH - side * 11 - side * c * (915 / 100))"
    "HALF_LENGTH - side * (side * HALF_LENGTH - side * 11 - side * c * (915 / 100)) \<le> 2015 / 100"
  using assms by (auto simp: on_pitch_def pitch_consts abs_le_iff)

lemma corner_box:
  assumes "side = -1 \<or> side = 1" "e = -1 \<or> e = 1" "- 1 \<le> c" "c \<le> 1" "- 1 \<le> s" "s \<le> 1"
    and "side * c \<le> 0" "e * s \<le> 0"
  shows "on_pitch (side * HALF_LENGTH + c, e * HALF_WIDTH + s)"
  using assms by (auto simp: on_pitch_def pitch_consts abs_le_iff)

lemma circle_on_pitch: "p \<in> set (arc 0 0 (915 / 100) 0 (pi * 2) 96) \<Longrightarrow> on_pitch p"
proof -
  assume "p \<in> set (arc 0 0 (915 / 100) 0 (pi * 2) 96)"
  then obtain t where "p = (0 + cos t * (915 / 100), 0 + sin t * (915 / 100))"
    by (rule arc_point) auto
  with unit_disc_on_pitch [of "cos t" "sin t"] show ?thesis by simp
qed

lemma penalty_angle:
  defines "a \<equiv> arccos ((55 / 10) / (915 / 100))"
  shows "0 \<le> a" "a \<le> pi" "cos a = 550 / 915"
  unfolding a_def by (simp_all add: arccos_lbound arccos_ubound)

lemma cos_within: "0 \<le> a \<Longrightarrow> a \<le> pi \<Longrightarrow> - a \<le> t \<Longrightarrow> t \<le> a \<Longrightarrow> cos a \<le> cos t"
  using cos_monotone_0_pi_le [of "\<bar>t\<bar>" a] by (cases "0 \<le> t") auto

text \<open>The D at either end: past the box line, within 20.15 metres of the goal line and half a pitch width.\<close>

lemma d_points:
  assumes "side = -1 \<or> side = 1" "p \<in> set (side_lines side ! 2)"
  shows "on_pitch p \<and> 165 / 10 \<le> HALF_LENGTH - side * fst p \<and> HALF_LENGTH - side * fst p \<le> 2015 / 100"
proof -
  let ?a = "arccos ((55 / 10) / (915 / 100)) :: real"
  note ang = penalty_angle
  obtain t where t: "550 / 915 \<le> cos t"
    and p: "p = (side * HALF_LENGTH - side * 11 - side * cos t * (915 / 100), sin t * (915 / 100))
          \<or> p = (side * HALF_LENGTH - side * 11 - side * cos t * (915 / 100), - (sin t * (915 / 100)))"
  proof (cases "side < 0")
    case True
    with assms have "p \<in> set (arc (side * HALF_LENGTH - side * 11) 0 (915 / 100) (- ?a) ?a 48)"
      by (simp add: side_lines_def Let_def)
    then obtain t where "- ?a \<le> t" "t \<le> ?a"
      "p = (side * HALF_LENGTH - side * 11 + cos t * (915 / 100), 0 + sin t * (915 / 100))"
      by (rule arc_point) (use ang in auto)
    moreover have "550 / 915 \<le> cos t" using cos_within [OF ang(1,2) calculation(1,2)] ang(3) by simp
    moreover have "side = -1" using True assms(1) by auto
    ultimately show ?thesis by (intro that [of t]) simp_all
  next
    case False
    with assms have "p \<in> set (arc (side * HALF_LENGTH - side * 11) 0 (915 / 100) (pi - ?a) (pi + ?a) 48)"
      by (simp add: side_lines_def Let_def)
    then obtain u where u: "pi - ?a \<le> u" "u \<le> pi + ?a"
      "p = (side * HALF_LENGTH - side * 11 + cos u * (915 / 100), 0 + sin u * (915 / 100))"
      by (rule arc_point) (use ang in auto)
    have "- ?a \<le> u - pi" "u - pi \<le> ?a" using u by simp_all
    from cos_within [OF ang(1,2) this] have "550 / 915 \<le> cos (u - pi)" using ang(3) by simp
    moreover have "cos (u - pi) = - cos u" "sin (u - pi) = - sin u" by (simp_all add: cos_diff sin_diff)
    moreover have "side = 1" using False assms(1) by auto
    ultimately show ?thesis using u(3) by (intro that [of "u - pi"]) simp_all
  qed
  from p d_box [OF assms(1) t cos_le_one sin_ge_minus_one sin_le_one]
    d_box [OF assms(1) t cos_le_one, of "- sin t"]
  show ?thesis by (elim disjE) simp_all
qed

lemma corner_on_pitch:
  assumes "side = -1 \<or> side = 1" "e = -1 \<or> e = 1"
    and p: "p \<in> set (arc (side * HALF_LENGTH) (e * HALF_WIDTH) 1 (corner_start side e) (corner_start side e + pi / 2) 12)"
  shows "on_pitch p"
proof -
  from p obtain t where t: "corner_start side e \<le> t" "t \<le> corner_start side e + pi / 2"
    "p = (side * HALF_LENGTH + cos t * 1, e * HALF_WIDTH + sin t * 1)"
    by (rule arc_point) auto
  have inside: "side * cos t \<le> 0 \<and> e * sin t \<le> 0"
  proof -
    consider "side = -1" "e = -1" | "side = -1" "e = 1" | "side = 1" "e = -1" | "side = 1" "e = 1"
      using assms by blast
    then show ?thesis
    proof cases
      case 1 then show ?thesis using t by (auto simp: corner_start_def intro: cos_ge_zero sin_ge_zero)
    next
      case 2
      then have "0 \<le> - t" "- t \<le> pi / 2" using t by (auto simp: corner_start_def)
      then have "0 \<le> cos (- t)" "0 \<le> sin (- t)"
        using cos_ge_zero [of "- t"] sin_ge_zero [of "- t"] pi_gt_zero by linarith+
      with 2 show ?thesis by simp
    next
      case 3
      then have "0 \<le> pi - t" "pi - t \<le> pi / 2" using t by (auto simp: corner_start_def)
      then have "0 \<le> cos (pi - t)" "0 \<le> sin (pi - t)"
        using cos_ge_zero [of "pi - t"] sin_ge_zero [of "pi - t"] pi_gt_zero by linarith+
      with 3 show ?thesis by (simp add: cos_diff)
    next
      case 4
      then have "0 \<le> t - pi" "t - pi \<le> pi / 2" using t by (auto simp: corner_start_def)
      then have "0 \<le> cos (t - pi)" "0 \<le> sin (t - pi)"
        using cos_ge_zero [of "t - pi"] sin_ge_zero [of "t - pi"] pi_gt_zero by linarith+
      with 4 show ?thesis by (simp add: cos_diff sin_diff)
    qed
  qed
  show ?thesis using t(3) inside
      corner_box [OF assms(1,2) cos_ge_minus_one cos_le_one sin_ge_minus_one sin_le_one, of t t] by simp
qed

lemma side_lines_shape:
  assumes "l \<in> set (side_lines side)"
  obtains "l = side_lines side ! 0" | "l = side_lines side ! 1" | "l = side_lines side ! 2"
    | e where "e = -1 \<or> e = 1"
        "l = arc (side * HALF_LENGTH) (e * HALF_WIDTH) 1 (corner_start side e) (corner_start side e + pi / 2) 12"
proof -
  have five: "length (side_lines side) = 5" by (simp add: side_lines_def Let_def)
  from assms obtain i where i: "i < 5" "l = side_lines side ! i"
    unfolding in_set_conv_nth five by blast
  then consider "i = 0" | "i = 1" | "i = 2" | "i = 3" | "i = 4" by linarith
  then show thesis
  proof cases
    case 4
    with i show thesis by (intro that(4) [of "-1"]) (simp_all add: side_lines_def Let_def)
  next
    case 5
    with i show thesis by (intro that(4) [of 1]) (simp_all add: side_lines_def Let_def)
  qed (use i that in blast)+
qed

lemma side_on_pitch:
  assumes "side = -1 \<or> side = 1" "l \<in> set (side_lines side)" "p \<in> set l"
  shows "on_pitch p"
proof -
  consider "l = side_lines side ! 0" | "l = side_lines side ! 1" | "l = side_lines side ! 2"
    | e where "e = -1 \<or> e = 1"
        "l = arc (side * HALF_LENGTH) (e * HALF_WIDTH) 1 (corner_start side e) (corner_start side e + pi / 2) 12"
    by (rule side_lines_shape [OF assms(2)])
  then show ?thesis
  proof cases
    case 3
    with assms d_points show ?thesis by blast
  next
    case (4 e)
    with assms corner_on_pitch show ?thesis by blast
  qed (use assms in \<open>auto simp: side_lines_def Let_def on_pitch_def pitch_consts\<close>)
qed

text \<open>
  The markings are those of a pitch: every line lies within the touch lines and the goal lines, and the
  D at either end is the part of its circle outside the penalty area.
\<close>
theorem markings_on_pitch:
  "(\<forall>l\<in>set standardLines. \<forall>p\<in>set l. on_pitch p)
   \<and> (\<forall>side\<in>{-1, 1}. \<forall>p\<in>set (side_lines side ! 2). 165 / 10 \<le> HALF_LENGTH - side * fst p)"
proof (intro conjI ballI)
  fix l p
  assume "l \<in> set standardLines" "p \<in> set l"
  then show "on_pitch p"
    unfolding standardLines_def
    by (auto simp: touch_lines_def circle_on_pitch dest: side_on_pitch [rotated]) (auto simp: on_pitch_def pitch_consts)
next
  fix side p
  assume "side \<in> {-1, 1}" "p \<in> set (side_lines side ! 2)"
  then show "165 / 10 \<le> HALF_LENGTH - side * fst p" using d_points [of side p] by auto
qed

theorem markings_on_pitch_witness:
  "on_pitch (HALF_LENGTH - 165 / 10, 2016 / 100) \<and> (HALF_LENGTH - 165 / 10, 2016 / 100) \<in> set (side_lines 1 ! 0)"
proof
  show m: "(HALF_LENGTH - 165 / 10, 2016 / 100) \<in> set (side_lines 1 ! 0)" by (simp add: side_lines_def Let_def)
  have "side_lines 1 ! 0 \<in> set standardLines" by (simp add: standardLines_def side_lines_def Let_def)
  with markings_on_pitch m show "on_pitch (HALF_LENGTH - 165 / 10, 2016 / 100)" by blast
qed

end
