(* ===== verification/Board_Gestures.thy ===== *)
theory Board_Gestures
  imports Board_Strokes Editor_History
begin

text \<open>
  What the pointer does on the board (\<open>features/tactics/board/engine.ts\<close>, the pointer handlers): hit testing,
  the gesture in hand, and the calls it makes on the editor, wired to the store as in
  \<open>tactics-editor.html\<close>.  Where the pointer's ray meets the grass, which handle and which mesh it hits
  first are answers of the graphics library and arrive with each event.  The cursor's looks are left out.
\<close>

section \<open>What is under the pointer\<close>

datatype handle = BendHandle ident | PointHandle ident nat | ControlHandle ident

datatype gesture =
    DragObject ident vec2 bool | DragHandle handle | DragDrawing ident vec2 bool | DrawStroke "vec2 list"

record engine =
  eng_doc :: "tactic_doc option"
  eng_step :: int
  editing :: bool
  eng_tool :: tool
  shown :: "drawing list"
  pieces :: "(ident \<times> vec2 option) list"
  gesture :: "gesture option"
  polygon :: "vec2 list"

text \<open>\<open>groundPoint\<close>, \<open>hitHandle\<close> and the first loop of \<open>hitObject\<close>.\<close>

record hit =
  at_point :: "vec2 option"
  on_handle :: "handle option"
  on_piece :: "ident option"
  main_button :: bool

text \<open>The fallback of \<open>hitObject\<close>: the nearest visible piece closer than 1.6 metres.\<close>

definition nearer :: "vec2 \<Rightarrow> ident option \<times> real \<Rightarrow> ident \<times> vec2 option \<Rightarrow> ident option \<times> real" where
  "nearer p best piece =
     (case snd piece of
        None \<Rightarrow> best
      | Some q \<Rightarrow>
          (let d = hypot (fst q - fst p) (snd q - snd p)
           in if d < snd best then (Some (fst piece), d) else best))"

definition hitObject :: "engine \<Rightarrow> hit \<Rightarrow> ident option" where
  "hitObject e h =
     (case on_piece h of
        Some i \<Rightarrow> Some i
      | None \<Rightarrow> (case at_point h of
                 None \<Rightarrow> None
               | Some p \<Rightarrow> fst (foldl (nearer p) (None, 16 / 10) (pieces e))))"

definition touches :: "vec2 \<Rightarrow> drawing \<Rightarrow> bool" where
  "touches p d =
     (if drawing_kind d = TextLabel
      then points d \<noteq> [] \<and> hypot (fst p - fst (hd (points d))) (snd p - snd (hd (points d))) < 5 / 2
      else (let path = drawingPath d in
            (case distToPolyline p path of None \<Rightarrow> False | Some r \<Rightarrow> r < width_of d / 2 + 9 / 10)
            \<or> (is_zone d \<and> insidePolygon p path)))"

definition hitDrawing :: "engine \<Rightarrow> vec2 \<Rightarrow> ident option" where
  "hitDrawing e p = map_option drawing_id (find (touches p) (rev (shown e)))"

section \<open>The handlers\<close>

text \<open>The calls on \<open>EngineHandlers\<close>.\<close>

datatype call =
    CSelect "target option" | CMove ident vec2 bool | CBend ident vec2 bool
  | CEdit ident drawing_change bool | CPlace vec2 | CStroke "vec2 list" bool

fun dragHandle :: "handle \<Rightarrow> vec2 \<Rightarrow> bool \<Rightarrow> call" where
  "dragHandle (BendHandle i) p done = CBend i p done"
| "dragHandle (PointHandle i k) p done = CEdit i (ChangePoint k p) done"
| "dragHandle (ControlHandle i) p done = CEdit i (ChangeControl p) done"

definition finishPolygon :: "engine \<Rightarrow> engine \<times> call list" where
  "finishPolygon e = (e\<lparr>polygon := []\<rparr>, [CStroke (polygon e) True])"

definition add_vec :: "vec2 \<Rightarrow> vec2 \<Rightarrow> vec2" where
  "add_vec p q = (fst p + fst q, snd p + snd q)"

definition sub_vec :: "vec2 \<Rightarrow> vec2 \<Rightarrow> vec2" where
  "sub_vec p q = (fst p - fst q, snd p - snd q)"

definition down_polygon :: "vec2 \<Rightarrow> engine \<Rightarrow> engine \<times> call list" where
  "down_polygon p e =
     (if polygon e \<noteq> [] \<and> length (polygon e) \<ge> 3
         \<and> hypot (fst p - fst (hd (polygon e))) (snd p - snd (hd (polygon e))) < 3 / 2
      then finishPolygon e
      else (let pts = polygon e @ [clampToArea p] in (e\<lparr>polygon := pts\<rparr>, [CStroke pts False])))"

definition down_select :: "vec2 \<Rightarrow> hit \<Rightarrow> engine \<Rightarrow> engine \<times> call list" where
  "down_select p h e =
     (case on_handle h of
        Some hd_ \<Rightarrow> (e\<lparr>gesture := Some (DragHandle hd_)\<rparr>, [])
      | None \<Rightarrow>
          (case (hitObject e h, eng_doc e) of
             (Some i, Some doc) \<Rightarrow>
               (let q = (case positionAt doc (eng_step e) i of Some q \<Rightarrow> q | None \<Rightarrow> p)
                in (e\<lparr>gesture := Some (DragObject i (sub_vec q p) False)\<rparr>, [CSelect (Some (OnObject i))]))
           | _ \<Rightarrow>
               (case hitDrawing e p of
                  Some i \<Rightarrow> (e\<lparr>gesture := Some (DragDrawing i p False)\<rparr>, [CSelect (Some (OnDrawing i))])
                | None \<Rightarrow> (e, [CSelect None]))))"

definition onPointerDown :: "hit \<Rightarrow> engine \<Rightarrow> engine \<times> call list" where
  "onPointerDown h e =
     (if \<not> editing e \<or> \<not> main_button h then (e, [])
      else case at_point h of
        None \<Rightarrow> (e, [])
      | Some p \<Rightarrow>
          (case eng_tool e of
             PlaceTool \<Rightarrow> (e, [CPlace (clampToArea p)])
           | DrawTool TextLabel \<Rightarrow> (e, [CPlace (clampToArea p)])
           | DrawTool Polygon \<Rightarrow> down_polygon p e
           | DrawTool k \<Rightarrow> (e\<lparr>gesture := Some (DrawStroke [clampToArea p])\<rparr>, [CStroke [clampToArea p] False])
           | SelectTool \<Rightarrow> down_select p h e))"

definition move_gesture :: "vec2 \<Rightarrow> gesture \<Rightarrow> engine \<Rightarrow> engine \<times> call list" where
  "move_gesture p g e =
     (case g of
        DragObject i off mv \<Rightarrow>
          (e\<lparr>gesture := Some (DragObject i off True)\<rparr>, [CMove i (clampToArea (add_vec p off)) False])
      | DragHandle hd_ \<Rightarrow> (e, [dragHandle hd_ (clampToArea p) False])
      | DragDrawing i lst mv \<Rightarrow>
          (e\<lparr>gesture := Some (DragDrawing i p True)\<rparr>, [CEdit i (ChangeOffset (sub_vec p lst)) False])
      | DrawStroke pts \<Rightarrow>
          (let q = clampToArea p;
               pts' = (if eng_tool e = DrawTool Pen
                       then (if hypot (fst q - fst (last pts)) (snd q - snd (last pts)) > 25 / 100
                             then pts @ [q] else pts)
                       else [hd pts, q])
           in (e\<lparr>gesture := Some (DrawStroke pts')\<rparr>, [CStroke pts' False])))"

definition onPointerMove :: "hit \<Rightarrow> engine \<Rightarrow> engine \<times> call list" where
  "onPointerMove h e =
     (if \<not> editing e then (e, [])
      else case at_point h of
        None \<Rightarrow> (e, [])
      | Some p \<Rightarrow>
          (case gesture e of
             None \<Rightarrow>
               (if eng_tool e = DrawTool Polygon \<and> polygon e \<noteq> []
                then (e, [CStroke (polygon e @ [clampToArea p]) False]) else (e, []))
           | Some g \<Rightarrow> move_gesture p g e))"

definition onPointerUp :: "hit \<Rightarrow> engine \<Rightarrow> engine \<times> call list" where
  "onPointerUp h e =
     (e\<lparr>gesture := None\<rparr>,
      case gesture e of
        None \<Rightarrow> []
      | Some (DragObject i off mv) \<Rightarrow>
          (case at_point h of
             Some p \<Rightarrow> if mv then [CMove i (clampToArea (add_vec p off)) True] else []
           | None \<Rightarrow> [])
      | Some (DragHandle hd_) \<Rightarrow>
          (case at_point h of Some p \<Rightarrow> [dragHandle hd_ (clampToArea p) True] | None \<Rightarrow> [])
      | Some (DragDrawing i lst mv) \<Rightarrow> if mv then [CEdit i (ChangeOffset (0, 0)) True] else []
      | Some (DrawStroke pts) \<Rightarrow> [CStroke pts True])"

definition onDoubleClick :: "engine \<Rightarrow> engine \<times> call list" where
  "onDoubleClick e =
     (if eng_tool e = DrawTool Polygon \<and> length (polygon e) \<ge> 3 then finishPolygon e else (e, []))"

definition cancelGesture :: "engine \<Rightarrow> engine" where
  "cancelGesture e = e\<lparr>gesture := None, polygon := []\<rparr>"

datatype pointer = Down hit | MoveTo hit | Up hit | DoubleClick

fun pointer_step :: "pointer \<Rightarrow> engine \<Rightarrow> engine \<times> call list" where
  "pointer_step (Down h) e = onPointerDown h e"
| "pointer_step (MoveTo h) e = onPointerMove h e"
| "pointer_step (Up h) e = onPointerUp h e"
| "pointer_step DoubleClick e = onDoubleClick e"

section \<open>The layouts\<close>

text \<open>\<open>bounds\<close>: the part of the pitch a layout uses, as x0, x1, y0, y1.\<close>

definition bounds :: "pitch_layout option \<Rightarrow> real \<times> real \<times> real \<times> real" where
  "bounds l =
     (case l of
        Some Half \<Rightarrow> (-2, HALF_LENGTH + 3, - HALF_WIDTH - 2, HALF_WIDTH + 2)
      | Some ThirdOf \<Rightarrow> (HALF_LENGTH - 37, HALF_LENGTH + 3, - HALF_WIDTH - 1, HALF_WIDTH + 1)
      | Some Box \<Rightarrow> (HALF_LENGTH - 26, HALF_LENGTH + 3, -24, 24)
      | Some Drill \<Rightarrow> (-24, 24, -17, 17)
      | _ \<Rightarrow> (- HALF_LENGTH - 2, HALF_LENGTH + 2, - HALF_WIDTH - 2, HALF_WIDTH + 2))"

text \<open>\<open>frameFlat\<close> and \<open>fitOrtho\<close>: centre and half extents of the flat camera, with its fallback aspect.\<close>

definition frameFlat :: "pitch_layout option \<Rightarrow> real \<Rightarrow> vec2 \<times> vec2" where
  "frameFlat l aspect0 =
     (case bounds l of (x0, x1, y0, y1) \<Rightarrow>
        (let aspect = (if aspect0 = 0 then 16 / 10 else aspect0);
             h = max ((y1 - y0) / 2) ((x1 - x0) / 2 / aspect) * (104 / 100)
         in (((x0 + x1) / 2, (y0 + y1) / 2), (h * aspect, h))))"

section \<open>On the page\<close>

text \<open>The bindings of \<open>app-board-view\<close>; \<open>t\<close> is the tool in hand, \<open>nid\<close> the id drawn if one is needed.\<close>

fun call_event :: "tool \<Rightarrow> ident \<Rightarrow> call \<Rightarrow> event" where
  "call_event t nid (CSelect x) = ESelect x"
| "call_event t nid (CMove i p done) = EMoveObject i p done"
| "call_event t nid (CBend i p done) = EBend i p done"
| "call_event t nid (CEdit i c done) = EEditDrawing i c done"
| "call_event t nid (CPlace p) = (if t = DrawTool TextLabel then EPlaceText p nid else EPlace p nid)"
| "call_event t nid (CStroke pts done) = EStroke (case t of DrawTool k \<Rightarrow> k | _ \<Rightarrow> Pen) pts done nid"

definition run_calls :: "ident \<Rightarrow> call list \<Rightarrow> editor \<Rightarrow> js_error + editor" where
  "run_calls nid cs s = foldE (\<lambda>s c. exec (call_event (tool s) nid c) s) s cs"

text \<open>The effects of the board view after the store changed: document, still frame, edit state, tool.\<close>

definition shown_pieces :: "editor \<Rightarrow> (ident \<times> vec2 option) list" where
  "shown_pieces s = map (\<lambda>ob. (obj_id ob, positionAt (sdoc s) (stepIndex s) (obj_id ob))) (objects (sdoc s))"

definition sync :: "editor \<Rightarrow> engine \<Rightarrow> engine" where
  "sync s e =
     (let e1 = (if eng_tool e \<noteq> tool s then cancelGesture e else e)
      in e1\<lparr>eng_tool := tool s, eng_doc := Some (sdoc s), eng_step := stepIndex s, pieces := shown_pieces s,
            shown := (case cur_step s of None \<Rightarrow> [] | Some st \<Rightarrow> drawings st)\<rparr>)"

definition page_pointer :: "pointer \<Rightarrow> ident \<Rightarrow> engine \<times> editor \<Rightarrow> js_error + engine \<times> editor" where
  "page_pointer ev nid p =
     (case pointer_step ev (fst p) of
        (e', cs) \<Rightarrow> (case run_calls nid cs (snd p) of
                      Inl x \<Rightarrow> Inl x
                    | Inr s' \<Rightarrow> Inr (sync s' e', s')))"

section \<open>What the gestures report\<close>

text \<open>The points a call carries that were clamped to the pitch and its run-off.\<close>

fun call_points :: "call \<Rightarrow> vec2 list" where
  "call_points (CSelect x) = []"
| "call_points (CMove i p done) = [p]"
| "call_points (CBend i p done) = [p]"
| "call_points (CEdit i (ChangePoint k p) done) = [p]"
| "call_points (CEdit i (ChangeControl p) done) = [p]"
| "call_points (CEdit i (ChangeOffset p) done) = []"
| "call_points (CPlace p) = [p]"
| "call_points (CStroke pts done) = pts"

definition good_call :: "call \<Rightarrow> bool" where
  "good_call c \<longleftrightarrow> list_all in_area (call_points c) \<and> (\<forall>pts done. c = CStroke pts done \<longrightarrow> pts \<noteq> [])"

definition good_engine :: "engine \<Rightarrow> bool" where
  "good_engine e \<longleftrightarrow> list_all in_area (polygon e)
     \<and> (\<forall>pts. gesture e = Some (DrawStroke pts) \<longrightarrow> pts \<noteq> [] \<and> list_all in_area pts)"

lemma good_dragHandle: "good_call (dragHandle h (clampToArea p) done)"
  by (cases h) (simp_all add: good_call_def clampToArea_in_area)

lemma good_finish:
  "good_engine e \<Longrightarrow> polygon e \<noteq> [] \<Longrightarrow>
     good_engine (fst (finishPolygon e)) \<and> list_all good_call (snd (finishPolygon e))"
  by (simp add: finishPolygon_def good_engine_def good_call_def)

lemma good_down: "good_engine e \<Longrightarrow> good_engine (fst (onPointerDown h e)) \<and> list_all good_call (snd (onPointerDown h e))"
proof -
  assume e: "good_engine e"
  have poly: "good_engine (fst (down_polygon p e)) \<and> list_all good_call (snd (down_polygon p e))" for p
    using e good_finish [OF e]
    by (auto simp: down_polygon_def Let_def good_engine_def good_call_def clampToArea_in_area)
  have sel: "good_engine (fst (down_select p h e)) \<and> list_all good_call (snd (down_select p h e))" for p
    using e by (auto simp: down_select_def good_engine_def good_call_def Let_def split: option.split)
  have stroke: "good_engine (e\<lparr>gesture := Some (DrawStroke [clampToArea p])\<rparr>)" "good_call (CStroke [clampToArea p] False)"
    "good_call (CPlace (clampToArea p))" for p
    using e by (simp_all add: good_engine_def good_call_def clampToArea_in_area)
  show ?thesis using e
    by (auto simp: onPointerDown_def poly sel stroke split: option.split tool.split drawing_kind.split)
qed

lemma good_move: "good_engine e \<Longrightarrow> good_engine (fst (onPointerMove h e)) \<and> list_all good_call (snd (onPointerMove h e))"
proof -
  assume e: "good_engine e"
  have mv: "good_engine (fst (move_gesture p g e)) \<and> list_all good_call (snd (move_gesture p g e))"
    if "gesture e = Some g" for p g
  proof (cases g)
    case (DrawStroke pts)
    with e that have "pts \<noteq> []" "list_all in_area pts" by (simp_all add: good_engine_def)
    then have "list_all in_area [hd pts, clampToArea p]" by (cases pts) (simp_all add: clampToArea_in_area)
    with e that DrawStroke \<open>pts \<noteq> []\<close> \<open>list_all in_area pts\<close> show ?thesis
      by (simp add: move_gesture_def Let_def good_engine_def good_call_def clampToArea_in_area)
  qed (use e that in \<open>simp_all add: move_gesture_def good_engine_def good_dragHandle\<close>,
       simp_all add: good_call_def clampToArea_in_area)
  have line: "good_call (CStroke (polygon e @ [clampToArea p]) False)" for p
    using e by (simp add: good_call_def good_engine_def clampToArea_in_area)
  show ?thesis using e mv by (auto simp: onPointerMove_def line split: option.split)
qed

lemma good_up: "good_engine e \<Longrightarrow> good_engine (fst (onPointerUp h e)) \<and> list_all good_call (snd (onPointerUp h e))"
proof -
  assume e: "good_engine e"
  have mv: "good_call (CMove i (clampToArea p) True)" "good_call (CEdit i (ChangeOffset p) True)" for i p
    by (simp_all add: good_call_def clampToArea_in_area)
  have st: "good_call (CStroke pts True)" if "gesture e = Some (DrawStroke pts)" for pts
    using e that by (simp add: good_call_def good_engine_def)
  have "good_engine (fst (onPointerUp h e))" using e by (simp add: onPointerUp_def good_engine_def)
  moreover have "list_all good_call (snd (onPointerUp h e))"
    by (auto simp: onPointerUp_def good_dragHandle mv st split: option.split gesture.split)
  ultimately show ?thesis ..
qed

lemma good_double: "good_engine e \<Longrightarrow> good_engine (fst (onDoubleClick e)) \<and> list_all good_call (snd (onDoubleClick e))"
proof (cases "eng_tool e = DrawTool Polygon \<and> length (polygon e) \<ge> 3")
  case True
  assume "good_engine e"
  moreover have "polygon e \<noteq> []" using True by auto
  ultimately show ?thesis using True good_finish by (simp add: onDoubleClick_def)
qed (auto simp: onDoubleClick_def)

lemma pointer_step_good:
  "good_engine e \<Longrightarrow> good_engine (fst (pointer_step ev e)) \<and> list_all good_call (snd (pointer_step ev e))"
  by (cases ev) (simp_all add: good_down good_move good_up good_double)

fun pointer_run :: "pointer list \<Rightarrow> engine \<Rightarrow> engine \<times> call list" where
  "pointer_run [] e = (e, [])"
| "pointer_run (ev # evs) e =
     (case pointer_step ev e of (e1, cs) \<Rightarrow> case pointer_run evs e1 of (e2, ds) \<Rightarrow> (e2, cs @ ds))"

text \<open>
  Whatever the pointer does, the engine reports positions on the pitch or its run-off only, and never a
  stroke without a point: the store can take every finished stroke.
\<close>
theorem pointer_reports_stay_on_pitch:
  assumes "gesture e = None" "polygon e = []"
  shows "\<forall>c\<in>set (snd (pointer_run evs e)). list_all in_area (call_points c)
    \<and> (\<forall>pts done. c = CStroke pts done \<longrightarrow> pts \<noteq> [])"
proof -
  have "good_engine e \<Longrightarrow> \<forall>c\<in>set (snd (pointer_run evs e)). good_call c" for e
  proof (induction evs arbitrary: e)
    case (Cons ev evs)
    obtain e1 cs where s: "pointer_step ev e = (e1, cs)" by fastforce
    from pointer_step_good [OF Cons.prems, of ev] s have "good_engine e1" "list_all good_call cs" by simp_all
    with Cons.IH [of e1] s show ?case by (auto simp: list_all_iff split: prod.splits)
  qed simp
  moreover have "good_engine e" using assms by (simp add: good_engine_def)
  ultimately show ?thesis unfolding good_call_def by blast
qed

definition idle_engine :: "tool \<Rightarrow> engine" where
  "idle_engine t = \<lparr>eng_doc = None, eng_step = 0, editing = True, eng_tool = t, shown = [], pieces = [],
     gesture = None, polygon = []\<rparr>"

definition hit_at :: "real \<Rightarrow> real \<Rightarrow> hit" where
  "hit_at x y = \<lparr>at_point = Some (x, y), on_handle = None, on_piece = None, main_button = True\<rparr>"

theorem pointer_reports_stay_on_pitch_witness:
  "\<exists>p. CPlace p \<in> set (snd (pointer_run [Down (hit_at 900 0)] (idle_engine PlaceTool))) \<and> in_area p"
proof -
  have "CPlace (clampToArea (900, 0)) \<in> set (snd (pointer_run [Down (hit_at 900 0)] (idle_engine PlaceTool)))"
    by (simp add: onPointerDown_def idle_engine_def hit_at_def)
  moreover from pointer_reports_stay_on_pitch [of "idle_engine PlaceTool" "[Down (hit_at 900 0)]"] this
  have "in_area (clampToArea (900, 0))" by (fastforce simp: idle_engine_def)
  ultimately show ?thesis by blast
qed

section \<open>The pointer and the store together\<close>

definition page_ok :: "engine \<times> editor \<Rightarrow> bool" where
  "page_ok p \<longleftrightarrow> wf_store (snd p) \<and> good_engine (fst p) \<and> eng_tool (fst p) = tool (snd p)
     \<and> eng_doc (fst p) = Some (sdoc (snd p)) \<and> eng_step (fst p) = stepIndex (snd p)
     \<and> pieces (fst p) = shown_pieces (snd p)
     \<and> (\<forall>i off mv. gesture (fst p) = Some (DragObject i off mv) \<longrightarrow> i \<in> object_ids (sdoc (snd p)))"

text \<open>The meshes hit are those of the board's objects, and ids drawn are new.\<close>

fun hit_of :: "pointer \<Rightarrow> hit option" where
  "hit_of (Down h) = Some h"
| "hit_of (MoveTo h) = Some h"
| "hit_of (Up h) = Some h"
| "hit_of DoubleClick = None"

definition fair_hit :: "editor \<Rightarrow> pointer \<Rightarrow> ident \<Rightarrow> bool" where
  "fair_hit s ev nid \<longleftrightarrow> nid \<notin> object_ids (sdoc s)
     \<and> (\<forall>h i. hit_of ev = Some h \<longrightarrow> on_piece h = Some i \<longrightarrow> i \<in> object_ids (sdoc s))"

lemma nearer_ids:
  "fst (foldl (nearer p) best ps) = Some i \<Longrightarrow> fst best = Some i \<or> i \<in> fst ` set ps"
proof (induction ps arbitrary: best)
  case (Cons x ps)
  have "fst (nearer p best x) = Some i \<Longrightarrow> fst best = Some i \<or> i = fst x"
    by (auto simp: nearer_def Let_def split: option.splits if_splits)
  with Cons.IH [of "nearer p best x"] Cons.prems show ?case by auto
qed simp

lemma hitObject_ids:
  assumes "hitObject e h = Some i" "pieces e = shown_pieces s"
    and "\<forall>i. on_piece h = Some i \<longrightarrow> i \<in> object_ids (sdoc s)"
  shows "i \<in> object_ids (sdoc s)"
proof (cases "on_piece h")
  case None
  with assms(1) obtain p where "fst (foldl (nearer p) (None, 16 / 10) (pieces e)) = Some i"
    by (auto simp: hitObject_def split: option.splits)
  from nearer_ids [OF this] assms(2) show ?thesis by (auto simp: shown_pieces_def object_ids_def)
qed (use assms in \<open>simp add: hitObject_def\<close>)

text \<open>A call of the engine is one the store can take: the contract between the two.\<close>

fun call_ids :: "call \<Rightarrow> ident set" where
  "call_ids (CMove i p done) = {i}"
| "call_ids _ = {}"

lemma call_sensible:
  "good_call c \<Longrightarrow> call_ids c \<subseteq> object_ids (sdoc s) \<Longrightarrow> nid \<notin> object_ids (sdoc s) \<Longrightarrow>
     sensible s (call_event t nid c)"
  by (cases c) (auto simp: good_call_def)

lemma call_keeps_ids:
  "exec (call_event t nid c) s = Inr s' \<Longrightarrow> object_ids (sdoc s) \<subseteq> object_ids (sdoc s')"
  by (cases c)
    (auto simp: moveObject_def bendPath_def editDrawing_def place_def placeText_def stroke_def Let_def
      withCurrentStep_def split: if_splits option.splits)

lemma run_calls_ok:
  assumes "wf_store s" "list_all good_call cs" "length cs \<le> 1" "\<forall>c\<in>set cs. call_ids c \<subseteq> object_ids (sdoc s)"
    and "nid \<notin> object_ids (sdoc s)"
  obtains s' where "run_calls nid cs s = Inr s'" "wf_store s'" "object_ids (sdoc s) \<subseteq> object_ids (sdoc s')"
proof (cases cs)
  case Nil
  with assms(1) show thesis by (intro that [of s]) (simp_all add: run_calls_def)
next
  case (Cons c ds)
  with assms have "ds = []" "sensible s (call_event (tool s) nid c)" by (auto intro: call_sensible)
  with exec_wf [OF assms(1)] Cons obtain s' where "exec (call_event (tool s) nid c) s = Inr s'" "wf_store s'" "cs = [c]"
    by blast
  with call_keeps_ids show thesis by (intro that [of s']) (auto simp: run_calls_def)
qed

lemma one_call: "length (snd (pointer_step ev e)) \<le> 1"
  by (cases ev)
    (auto simp: onPointerDown_def onPointerMove_def onPointerUp_def onDoubleClick_def finishPolygon_def
      down_polygon_def down_select_def move_gesture_def Let_def
      split: option.split tool.split drawing_kind.split gesture.split)

lemma drag_ids:
  assumes "page_ok (e, s)" "fair_hit s ev nid" "pointer_step ev e = (e', cs)"
  shows "\<forall>c\<in>set cs. call_ids c \<subseteq> object_ids (sdoc s)"
    and "\<forall>i off mv. gesture e' = Some (DragObject i off mv) \<longrightarrow> i \<in> object_ids (sdoc s)"
proof -
  have old: "\<And>i off mv. gesture e = Some (DragObject i off mv) \<Longrightarrow> i \<in> object_ids (sdoc s)"
    and p: "pieces e = shown_pieces s" using assms(1) by (simp_all add: page_ok_def)
  have handles: "call_ids (dragHandle h q d) = {}" for h q d by (cases h) simp_all
  have "(\<forall>c\<in>set cs. call_ids c \<subseteq> object_ids (sdoc s))
    \<and> (\<forall>i off mv. gesture e' = Some (DragObject i off mv) \<longrightarrow> i \<in> object_ids (sdoc s))"
  proof (cases ev)
    case (Down h)
    have hit: "hitObject e h = Some i \<Longrightarrow> i \<in> object_ids (sdoc s)" for i
      using hitObject_ids [OF _ p] assms(2) Down by (simp add: fair_hit_def)
    have sel: "(\<forall>c\<in>set cs. call_ids c = {}) \<and> (\<forall>i off mv. gesture e' = Some (DragObject i off mv) \<longrightarrow> i \<in> object_ids (sdoc s))"
      if "down_select q h e = (e', cs)" for q
      using that old hit by (auto simp: down_select_def Let_def split: option.splits)
    have poly: "(\<forall>c\<in>set cs. call_ids c = {}) \<and> (\<forall>i off mv. gesture e' = Some (DragObject i off mv) \<longrightarrow> i \<in> object_ids (sdoc s))"
      if "down_polygon q e = (e', cs)" for q
      using that old by (auto simp: down_polygon_def finishPolygon_def Let_def split: if_splits)
    from assms(3) Down old show ?thesis
      by (auto simp: onPointerDown_def split: if_splits option.splits tool.splits drawing_kind.splits dest!: sel poly)
  next
    case (MoveTo h)
    with assms(3) old show ?thesis
      by (auto simp: onPointerMove_def move_gesture_def handles Let_def split: if_splits option.splits gesture.splits)
  next
    case (Up h)
    with assms(3) old show ?thesis
      by (auto simp: onPointerUp_def handles split: if_splits option.splits gesture.splits)
  next
    case DoubleClick
    with assms(3) old show ?thesis by (auto simp: onDoubleClick_def finishPolygon_def split: if_splits)
  qed
  then show "\<forall>c\<in>set cs. call_ids c \<subseteq> object_ids (sdoc s)"
    "\<forall>i off mv. gesture e' = Some (DragObject i off mv) \<longrightarrow> i \<in> object_ids (sdoc s)" by blast+
qed

lemma sync_ok:
  assumes "wf_store s" "good_engine e" "\<forall>i off mv. gesture e = Some (DragObject i off mv) \<longrightarrow> i \<in> object_ids (sdoc s)"
  shows "page_ok (sync s e, s)"
  using assms by (auto simp: page_ok_def sync_def cancelGesture_def good_engine_def Let_def)

lemma page_pointer_ok:
  assumes "page_ok (e, s)" "fair_hit s ev nid"
  shows "\<exists>p'. page_pointer ev nid (e, s) = Inr p' \<and> page_ok p'"
proof -
  obtain e' cs where st: "pointer_step ev e = (e', cs)" by fastforce
  have w: "wf_store s" "good_engine e" using assms(1) by (simp_all add: page_ok_def)
  have g: "good_engine e'" "list_all good_call cs" "length cs \<le> 1"
    using pointer_step_good [OF w(2), of ev] one_call [of ev e] st by simp_all
  have "nid \<notin> object_ids (sdoc s)" using assms(2) by (simp add: fair_hit_def)
  from run_calls_ok [OF w(1) g(2,3) drag_ids(1) [OF assms st] this]
  obtain s' where s': "run_calls nid cs s = Inr s'" "wf_store s'" "object_ids (sdoc s) \<subseteq> object_ids (sdoc s')" .
  have "page_ok (sync s' e', s')" using drag_ids(2) [OF assms st] s'(3) by (intro sync_ok s'(2) g(1)) blast
  with st s'(1) show ?thesis by (simp add: page_pointer_def)
qed

text \<open>The pages the pointer alone can reach from a sound one.\<close>

inductive pointed :: "engine \<times> editor \<Rightarrow> engine \<times> editor \<Rightarrow> bool" where
  pointed_refl: "pointed p p"
| pointed_step: "pointed p q \<Longrightarrow> fair_hit (snd q) ev nid \<Longrightarrow> page_pointer ev nid q = Inr r \<Longrightarrow> pointed p r"

lemma pointed_ok: "pointed p q \<Longrightarrow> page_ok p \<Longrightarrow> page_ok q"
proof (induction rule: pointed.induct)
  case (pointed_step p q ev nid r)
  then show ?case using page_pointer_ok [of "fst q" "snd q" ev nid] by auto
qed

text \<open>
  C4. The pointer never breaks the board: starting from a sound editor with the board view in step with it,
  whatever is pressed, dragged and drawn, every call is one the store takes without raising, the editor
  stays sound and the view stays in step.
\<close>
theorem pointer_keeps_board_sound:
  assumes "wf_store s" "good_engine e" "gesture e = None" "pointed (sync s e, s) (e', s')"
  shows "wf_store s' \<and> eng_doc e' = Some (sdoc s') \<and> pieces e' = shown_pieces s'
    \<and> (\<forall>ev nid. fair_hit s' ev nid \<longrightarrow> (\<exists>r. page_pointer ev nid (e', s') = Inr r))"
proof -
  have "page_ok (sync s e, s)" using assms by (intro sync_ok) simp_all
  from pointed_ok [OF assms(4) this] have "page_ok (e', s')" .
  then show ?thesis using page_pointer_ok [of e' s'] by (fastforce simp: page_ok_def)
qed

theorem pointer_keeps_board_sound_witness:
  "\<exists>e' s'. pointed (sync (new_editor ''a'') (idle_engine SelectTool), new_editor ''a'') (e', s')
     \<and> selection s' = None \<and> wf_store s' \<and> eng_doc e' = Some (sdoc s')"
proof -
  let ?s = "new_editor ''a''" and ?e = "sync (new_editor ''a'') (idle_engine SelectTool)"
  let ?ev = "Down (hit_at 1 2)"
  have e: "?e = (idle_engine SelectTool)\<lparr>eng_doc := Some (emptyDoc ''a'')\<rparr>"
    by (simp add: sync_def idle_engine_def new_editor_def shown_pieces_def cur_step_def nth_opt_def Let_def)
  have "pointer_step ?ev ?e = (?e, [CSelect None])"
    unfolding e
    by (simp add: onPointerDown_def down_select_def hitObject_def hitDrawing_def hit_at_def idle_engine_def)
  then have "page_pointer ?ev ''n'' (?e, ?s) = Inr (sync (?s\<lparr>selection := None\<rparr>) ?e, ?s\<lparr>selection := None\<rparr>)"
    by (simp add: page_pointer_def run_calls_def)
  moreover have "fair_hit ?s ?ev ''n''"
    by (simp add: fair_hit_def hit_at_def new_editor_def object_ids_def)
  ultimately have p: "pointed (?e, ?s) (sync (?s\<lparr>selection := None\<rparr>) ?e, ?s\<lparr>selection := None\<rparr>)"
    by (intro pointed_step [OF pointed_refl]) simp_all
  have "good_engine (idle_engine SelectTool)" "gesture (idle_engine SelectTool) = None"
    by (simp_all add: good_engine_def idle_engine_def)
  from pointer_keeps_board_sound [OF wf_new this p] p show ?thesis
    by (intro exI conjI) auto
qed

section \<open>A drag from press to release\<close>

fun page_run :: "(pointer \<times> ident) list \<Rightarrow> engine \<times> editor \<Rightarrow> js_error + engine \<times> editor" where
  "page_run [] p = Inr p"
| "page_run ((ev, nid) # evs) p =
     (case page_pointer ev nid p of Inl x \<Rightarrow> Inl x | Inr q \<Rightarrow> page_run evs q)"

lemma page_run_app:
  "page_run (xs @ ys) p = (case page_run xs p of Inl x \<Rightarrow> Inl x | Inr q \<Rightarrow> page_run ys q)"
  by (induction xs p rule: page_run.induct) (auto split: sum.split)

definition drag_point :: "vec2 \<Rightarrow> vec2 \<Rightarrow> vec2" where
  "drag_point off p = clampToArea (add_vec p off)"

definition moved_to :: "vec2 \<Rightarrow> pointer \<times> ident" where
  "moved_to p = (MoveTo \<lparr>at_point = Some p, on_handle = None, on_piece = None, main_button = True\<rparr>, [])"

definition released_at :: "vec2 option \<Rightarrow> pointer \<times> ident" where
  "released_at p = (Up \<lparr>at_point = p, on_handle = None, on_piece = None, main_button = True\<rparr>, [])"

definition dragging :: "ident \<Rightarrow> vec2 \<Rightarrow> bool \<Rightarrow> engine \<times> editor \<Rightarrow> bool" where
  "dragging i off mv p \<longleftrightarrow> gesture (fst p) = Some (DragObject i off mv) \<and> editing (fst p)
     \<and> eng_tool (fst p) = tool (snd p)"

lemma move_once:
  assumes "dragging i off mv (e, s)"
  shows "\<exists>e'. page_run [moved_to p] (e, s) = Inr (e', moveObject i (drag_point off p) False s)
    \<and> dragging i off True (e', moveObject i (drag_point off p) False s)"
proof -
  have "tool (moveObject i (drag_point off p) False s) = tool s"
    by (simp add: moveObject_def apply_doc_def Let_def)
  with assms show ?thesis
    by (simp add: moved_to_def page_pointer_def onPointerMove_def move_gesture_def run_calls_def drag_point_def
        dragging_def sync_def cancelGesture_def)
qed

lemma move_many:
  "dragging i off mv (e, s) \<Longrightarrow>
     \<exists>e'. page_run (map moved_to ps) (e, s) = Inr (e', foldl (\<lambda>s p. moveObject i (drag_point off p) False s) s ps)
       \<and> dragging i off (mv \<or> ps \<noteq> []) (e', foldl (\<lambda>s p. moveObject i (drag_point off p) False s) s ps)"
proof (induction ps arbitrary: mv e s)
  case (Cons p ps)
  from move_once [OF Cons.prems, of p] obtain e1 where
    1: "page_run [moved_to p] (e, s) = Inr (e1, moveObject i (drag_point off p) False s)"
      "dragging i off True (e1, moveObject i (drag_point off p) False s)" by blast
  have "page_run (map moved_to (p # ps)) (e, s)
      = page_run (map moved_to ps) (e1, moveObject i (drag_point off p) False s)"
    using page_run_app [of "[moved_to p]" "map moved_to ps" "(e, s)"] 1(1) by simp
  with Cons.IH [OF 1(2)] show ?case by (simp only: foldl_Cons) simp
qed simp

lemma release:
  assumes "dragging i off True (e, s)"
  shows "\<exists>e'. page_run [released_at (Some p)] (e, s) = Inr (e', moveObject i (drag_point off p) True s)
      \<and> gesture e' = None"
    and "\<exists>e'. page_run [released_at None] (e, s) = Inr (e', s) \<and> gesture e' = None"
  using assms
  by (simp_all add: released_at_def page_pointer_def onPointerUp_def run_calls_def drag_point_def
      dragging_def sync_def cancelGesture_def)


text \<open>
  Dragging a piece is one step for the user: after any number of moves and a release the piece stands where
  it was dropped, its grip kept and the pitch's edge respected, and one undo takes the whole drag back.
\<close>
theorem drag_and_drop:
  assumes "dragging i off False (e, s)" "wf_store s" "\<not> gestureOpen s" "i \<in> object_ids (sdoc s)" "ps \<noteq> []"
  shows "\<exists>e' t. page_run (map moved_to ps @ [released_at (Some p)]) (e, s) = Inr (e', t)
    \<and> gesture e' = None \<and> \<not> gestureOpen t
    \<and> positionAt (sdoc t) (stepIndex t) i = Some (round100 (drag_point off p))
    \<and> sdoc (undo_op t) = sdoc s"
proof -
  let ?mid = "foldl (\<lambda>s p. moveObject i (drag_point off p) False s) s ps"
  let ?t = "moveObject i (drag_point off p) True ?mid"
  from move_many [OF assms(1), of ps] assms(5) obtain e1 where
    1: "page_run (map moved_to ps) (e, s) = Inr (e1, ?mid)" "dragging i off True (e1, ?mid)" by force
  from release(1) [OF 1(2), of p] obtain e' where
    2: "page_run [released_at (Some p)] (e1, ?mid) = Inr (e', ?t)" "gesture e' = None" by blast
  have t: "?t = moveObject i (drag_point off p) True (foldl (\<lambda>s q. moveObject i q False s) s (map (drag_point off) ps))"
    by (simp only: foldl_map)
  note d = drag_one_entry [OF assms(2-4) t]
  have wf: "wf_store ?t" using d by (simp add: settled_def)
  have "pos (steps (sdoc ?t) ! nat (stepIndex ?t)) i = Some (round100 (drag_point off p))"
    using wf by (auto simp: moveObject_def withCurrentStep_def withStep_def wf_store_def put_pos_def nth_modify_at)
  then have "positionAt (sdoc ?t) (stepIndex ?t) i = Some (round100 (drag_point off p))"
    using wf positionAt_step [of "nat (stepIndex ?t)" "sdoc ?t" i] by (auto simp: wf_store_def)
  moreover have "\<not> gestureOpen ?t" by (simp add: moveObject_def done_phase_def)
  ultimately show ?thesis
    using 1(1) 2 d by (intro exI [of _ e'] exI [of _ ?t]) (simp add: page_run_app)
qed

text \<open>
  A drag released where the pointer's ray misses the ground, above the horizon of a tilted camera, never
  ends for the store: no final position is sent and the gesture stays open, so the next edit records no
  version and one undo takes both back.
\<close>
theorem release_off_ground_never_ends:
  assumes "dragging i off False (e, s)" "wf_store s" "\<not> gestureOpen s" "i \<in> object_ids (sdoc s)" "ps \<noteq> []"
    and "nid \<notin> object_ids (sdoc s)"
  shows "\<exists>e' t. page_run (map moved_to ps @ [released_at None]) (e, s) = Inr (e', t)
    \<and> gesture e' = None \<and> gestureOpen t \<and> undoStack (place q nid t) = undoStack t"
proof -
  let ?mid = "foldl (\<lambda>s p. moveObject i (drag_point off p) False s) s ps"
  from move_many [OF assms(1), of ps] assms(5) obtain e1 where
    1: "page_run (map moved_to ps) (e, s) = Inr (e1, ?mid)" "dragging i off True (e1, ?mid)" by force
  from release(2) [OF 1(2)] obtain e' where
    2: "page_run [released_at None] (e1, ?mid) = Inr (e', ?mid)" "gesture e' = None" by blast
  obtain qs p where ps: "ps = qs @ [p]" using assms(5) by (cases ps rule: rev_cases) auto
  have "gestureOpen ?mid" unfolding ps by (simp add: moveObject_def done_phase_def)
  then have "undoStack (place q nid ?mid) = undoStack ?mid" by (simp add: place_def Let_def apply_doc_undo)
  with 1(1) 2 \<open>gestureOpen ?mid\<close> show ?thesis
    by (intro exI [of _ e'] exI [of _ ?mid]) (simp add: page_run_app)
qed

definition grip :: engine where
  "grip = (idle_engine SelectTool)\<lparr>gesture := Some (DragObject ''p'' (0, 0) False)\<rparr>"

lemma grip_facts:
  "dragging ''p'' (0, 0) False (grip, place (1, 2) ''p'' (new_editor ''a''))"
  "wf_store (place (1, 2) ''p'' (new_editor ''a''))" "\<not> gestureOpen (place (1, 2) ''p'' (new_editor ''a''))"
  "''p'' \<in> object_ids (sdoc (place (1, 2) ''p'' (new_editor ''a'')))"
  "''q'' \<notin> object_ids (sdoc (place (1, 2) ''p'' (new_editor ''a'')))"
proof -
  have no: "object_ids (sdoc (new_editor ''a'')) = {}"
    by (simp add: new_editor_def object_ids_def emptyDoc_def)
  then show "wf_store (place (1, 2) ''p'' (new_editor ''a''))" by (intro wf_place wf_new) simp
  have "tool (place (1, 2) ''p'' (new_editor ''a'')) = SelectTool"
    by (simp add: place_def Let_def apply_doc_def new_editor_def)
  then show "dragging ''p'' (0, 0) False (grip, place (1, 2) ''p'' (new_editor ''a''))"
    by (simp add: dragging_def grip_def idle_engine_def)
  have "object_ids (sdoc (place (1, 2) ''p'' (new_editor ''a''))) = {''p''}"
    using no by (simp add: place_def Let_def)
  then show "''p'' \<in> object_ids (sdoc (place (1, 2) ''p'' (new_editor ''a'')))"
    "''q'' \<notin> object_ids (sdoc (place (1, 2) ''p'' (new_editor ''a'')))" by simp_all
qed (simp add: place_def Let_def)

theorem drag_and_drop_witness:
  "\<exists>e' t. page_run [moved_to (3, 4), released_at (Some (500, 6))] (grip, place (1, 2) ''p'' (new_editor ''a'')) = Inr (e', t)
     \<and> positionAt (sdoc t) (stepIndex t) ''p'' = Some (round100 (HALF_LENGTH + RUNOFF, 6))
     \<and> sdoc (undo_op t) = sdoc (place (1, 2) ''p'' (new_editor ''a''))"
proof -
  have "drag_point (0, 0) (500, 6) = (HALF_LENGTH + RUNOFF, 6)"
    by (simp add: drag_point_def add_vec_def clampToArea_def clamp_def pitch_consts)
  then show ?thesis
    using drag_and_drop [OF grip_facts(1-4), of "[(3, 4)]" "(500, 6)"] by auto
qed

theorem release_off_ground_never_ends_witness:
  "\<exists>e' t. page_run [moved_to (3, 4), released_at None] (grip, place (1, 2) ''p'' (new_editor ''a'')) = Inr (e', t)
     \<and> gestureOpen t \<and> undoStack (place (7, 8) ''q'' t) = undoStack t"
  using release_off_ground_never_ends [OF grip_facts(1-4) _ grip_facts(5), of "[(3, 4)]" "(7, 8)"] by auto

end
