(* ===== verification/Json.thy ===== *)
theory Json
  imports Prelude
begin

text \<open>
  Parsed JSON, as \<open>JSON.parse\<close> and the HTTP client hand it to the program: the input of the functions
  that read untrusted data (\<open>normalizeDoc\<close>, the stored league selection, the stored session).  An object
  is a partial function from keys, its order of keys not being observed by the code modelled.
\<close>

datatype json =
    JNull | JBool bool | JNum real | JStr string | JArr "json list" | JObj "string \<Rightarrow> json option"

fun as_string :: "json \<Rightarrow> string option" where
  "as_string (JStr s) = Some s"
| "as_string _ = None"

fun as_array :: "json \<Rightarrow> json list option" where
  "as_array (JArr xs) = Some xs"
| "as_array _ = None"

fun as_object :: "json \<Rightarrow> (string \<Rightarrow> json option) option" where
  "as_object (JObj m) = Some m"
| "as_object _ = None"

definition member :: "(string \<Rightarrow> json option) \<Rightarrow> string \<Rightarrow> json option" where
  "member m k = m k"

lemma as_string_Some [simp]: "as_string j = Some s \<longleftrightarrow> j = JStr s"
  by (cases j) auto

lemma as_array_Some [simp]: "as_array j = Some xs \<longleftrightarrow> j = JArr xs"
  by (cases j) auto

lemma as_object_Some [simp]: "as_object j = Some m \<longleftrightarrow> j = JObj m"
  by (cases j) auto

end
