(* ===== verification/Board_Json.thy ===== *)
theory Board_Json
  imports Board_Model Json
begin

text \<open>
  A board as JSON (\<open>normalizeDoc\<close> in \<open>features/tactics/board/model.ts\<close>): what comes back from the API or
  from the browser's storage is somebody else's JSON, so the function works on values whose shape is not
  known, and so does this theory.  \<open>encode\<close> is a document of \<open>Board_Model\<close> as \<open>JSON.stringify\<close> writes it.
  Ids drawn by \<open>newId\<close> are arguments: \<open>base_id\<close> for the default step, \<open>fresh k\<close> for the \<open>k\<close>-th step kept.
\<close>

section \<open>Objects with optional properties\<close>

definition obj :: "(string \<times> json option) list \<Rightarrow> string \<Rightarrow> json option" where
  "obj kvs = (\<lambda>k. Option.bind (map_of kvs k) (\<lambda>v. v))"

fun isObject :: "json option \<Rightarrow> bool" where
  "isObject (Some (JObj m)) = True"
| "isObject _ = False"

fun entries :: "json option \<Rightarrow> string \<Rightarrow> json option" where
  "entries (Some (JObj m)) = m"
| "entries _ = Map.empty"

fun is_str :: "json option \<Rightarrow> bool" where
  "is_str (Some (JStr s)) = True"
| "is_str _ = False"

fun elements :: "json option \<Rightarrow> json list" where
  "elements (Some (JArr xs)) = xs"
| "elements _ = []"

section \<open>The document as JSON\<close>

fun team_name :: "team_id \<Rightarrow> string" where
  "team_name Home = ''home''" | "team_name Away = ''away''" | "team_name Third = ''third''"

definition TEAM_IDS :: "team_id list" where "TEAM_IDS = [Home, Away, Third]"

fun pattern_name :: "kit_pattern \<Rightarrow> string" where
  "pattern_name Solid = ''solid''" | "pattern_name Stripes = ''stripes''" | "pattern_name Hoops = ''hoops''"
| "pattern_name Halves = ''halves''" | "pattern_name Sash = ''sash''"

fun equipment_name :: "equipment_kind \<Rightarrow> string" where
  "equipment_name Ball = ''ball''" | "equipment_name Cone = ''cone''" | "equipment_name Disc = ''disc''"
| "equipment_name Pole = ''pole''" | "equipment_name Mannequin = ''mannequin''"
| "equipment_name Hurdle = ''hurdle''" | "equipment_name Ladder = ''ladder''" | "equipment_name Ring = ''ring''"
| "equipment_name Minigoal = ''minigoal''" | "equipment_name Goal = ''goal''" | "equipment_name Popup = ''popup''"
| "equipment_name Flag = ''flag''"

fun kind_name :: "object_kind \<Rightarrow> string" where
  "kind_name PlayerKind = ''player''" | "kind_name (Equip e) = equipment_name e"

fun drawing_kind_name :: "drawing_kind \<Rightarrow> string" where
  "drawing_kind_name Arrow = ''arrow''" | "drawing_kind_name Line = ''line''" | "drawing_kind_name Pen = ''pen''"
| "drawing_kind_name Rect = ''rect''" | "drawing_kind_name Ellipse = ''ellipse''"
| "drawing_kind_name Polygon = ''polygon''" | "drawing_kind_name TextLabel = ''text''"

fun style_name :: "stroke_style \<Rightarrow> string" where
  "style_name SolidStroke = ''solid''" | "style_name Dashed = ''dashed''" | "style_name Wavy = ''wavy''"

fun layout_name :: "pitch_layout \<Rightarrow> string" where
  "layout_name Full = ''full''" | "layout_name Half = ''half''" | "layout_name ThirdOf = ''third''"
| "layout_name Box = ''box''" | "layout_name Drill = ''drill''"

fun markings_name :: "pitch_markings \<Rightarrow> string" where
  "markings_name Standard = ''standard''" | "markings_name NoMarkings = ''none''" | "markings_name Grid = ''grid''"

fun pitch_style_name :: "pitch_style \<Rightarrow> string" where
  "pitch_style_name Day = ''day''" | "pitch_style_name Night = ''night''" | "pitch_style_name Chalk = ''board''"

definition enc_vec :: "vec2 \<Rightarrow> json" where
  "enc_vec p = JArr [JNum (fst p), JNum (snd p)]"

definition enc_vecs :: "(ident \<rightharpoonup> vec2) \<Rightarrow> json" where
  "enc_vecs m = JObj (\<lambda>i. map_option enc_vec (m i))"

definition enc_ids :: "ident list \<Rightarrow> json" where
  "enc_ids xs = JArr (map JStr xs)"

definition enc_kit :: "kit \<Rightarrow> json" where
  "enc_kit k = JObj (obj [(''name'', Some (JStr (kit_name k))), (''primary'', Some (JStr (primary k))),
     (''secondary'', Some (JStr (secondary k))), (''pattern'', Some (JStr (pattern_name (kit_pattern k)))),
     (''numbers'', Some (JStr (numbers k))), (''keeper'', Some (JStr (kit_keeper k)))])"

definition enc_object :: "board_object \<Rightarrow> json" where
  "enc_object ob = JObj (obj [(''id'', Some (JStr (obj_id ob))), (''kind'', Some (JStr (kind_name (kind ob)))),
     (''team'', map_option (JStr \<circ> team_name) (team ob)), (''keeper'', map_option JBool (keeper ob)),
     (''number'', map_option JStr (number ob)), (''name'', map_option JStr (obj_name ob)),
     (''bib'', map_option JStr (bib ob)), (''color'', map_option JStr (color ob)),
     (''color2'', map_option JStr (color2 ob)), (''pattern'', map_option (JStr \<circ> pattern_name) (pattern ob)),
     (''size'', map_option JNum (obj_size ob)), (''rotation'', map_option JNum (rotation ob))])"

definition enc_drawing :: "drawing \<Rightarrow> json" where
  "enc_drawing d = JObj (obj [(''id'', Some (JStr (drawing_id d))),
     (''kind'', Some (JStr (drawing_kind_name (drawing_kind d)))),
     (''points'', Some (JArr (map enc_vec (points d)))), (''control'', map_option enc_vec (control d)),
     (''style'', map_option (JStr \<circ> style_name) (style d)), (''color'', map_option JStr (drawing_color d)),
     (''width'', map_option JNum (stroke_width d)), (''text'', map_option JStr (drawing_text d)),
     (''fill'', map_option JNum (fill d))])"

definition enc_step :: "step \<Rightarrow> string \<Rightarrow> json option" where
  "enc_step st = obj [(''id'', Some (JStr (step_id st))), (''duration'', Some (JNum (duration st))),
     (''hold'', Some (JNum (hold st))), (''note'', Some (JStr (caption st))), (''pos'', Some (enc_vecs (pos st))),
     (''bend'', map_option enc_vecs (bend st)), (''air'', map_option enc_ids (air st)),
     (''highlight'', map_option enc_ids (highlight st)),
     (''drawings'', Some (JArr (map enc_drawing (drawings st))))]"

definition enc_pitch :: "pitch_settings \<Rightarrow> string \<Rightarrow> json option" where
  "enc_pitch p = obj [(''layout'', Some (JStr (layout_name (layout p)))),
     (''markings'', Some (JStr (markings_name (markings p)))),
     (''style'', Some (JStr (pitch_style_name (pitch_style p)))), (''stadium'', Some (JBool (stadium p)))]"

definition enc_teams :: "(team_id \<Rightarrow> kit) \<Rightarrow> string \<Rightarrow> json option" where
  "enc_teams ts = map_of (map (\<lambda>t. (team_name t, enc_kit (ts t))) TEAM_IDS)"

definition encode :: "tactic_doc \<Rightarrow> json" where
  "encode doc = JObj [''v'' \<mapsto> JNum 1, ''pitch'' \<mapsto> JObj (enc_pitch (pitch doc)),
     ''teams'' \<mapsto> JObj (enc_teams (teams doc)), ''objects'' \<mapsto> JArr (map enc_object (objects doc)),
     ''steps'' \<mapsto> JArr (map (JObj \<circ> enc_step) (steps doc))]"

section \<open>Normalising\<close>

definition norm_pitch :: "json option \<Rightarrow> string \<Rightarrow> json option" where
  "norm_pitch src = enc_pitch (pitch (emptyDoc [])) ++ entries src"

definition norm_team :: "(string \<Rightarrow> json option) \<Rightarrow> team_id \<Rightarrow> json" where
  "norm_team src t = JObj (entries (Some (enc_kit (DEFAULT_KITS t))) ++ entries (src (team_name t)))"

definition norm_teams :: "json option \<Rightarrow> string \<Rightarrow> json option" where
  "norm_teams src = map_of (map (\<lambda>t. (team_name t, norm_team (entries src) t)) TEAM_IDS)"

definition kept_object :: "json \<Rightarrow> bool" where
  "kept_object ob \<longleftrightarrow> isObject (Some ob) \<and> is_str (entries (Some ob) ''id'') \<and> is_str (entries (Some ob) ''kind'')"

definition norm_step :: "ident \<Rightarrow> (string \<Rightarrow> json option) \<Rightarrow> string \<Rightarrow> json option" where
  "norm_step nid s = (enc_step (newStep nid) ++ s)
     (''id'' \<mapsto> (if is_str (s ''id'') then the (s ''id'') else JStr nid),
      ''pos'' \<mapsto> (if isObject (s ''pos'') then the (s ''pos'') else JObj Map.empty),
      ''drawings'' \<mapsto> JArr (elements (s ''drawings'')))"

definition norm_steps :: "(nat \<Rightarrow> ident) \<Rightarrow> json option \<Rightarrow> json list" where
  "norm_steps fresh src = map (\<lambda>(k, s). JObj (norm_step (fresh k) (entries (Some s))))
     (enumerate 0 (filter (\<lambda>s. isObject (Some s)) (elements src)))"

definition normalizeDoc :: "ident \<Rightarrow> (nat \<Rightarrow> ident) \<Rightarrow> json \<Rightarrow> json" where
  "normalizeDoc base_id fresh raw =
     (let src = entries (Some raw);
          ss = norm_steps fresh (src ''steps'')
      in JObj [''v'' \<mapsto> JNum 1, ''pitch'' \<mapsto> JObj (norm_pitch (src ''pitch'')),
           ''teams'' \<mapsto> JObj (norm_teams (src ''teams'')),
           ''objects'' \<mapsto> JArr (filter kept_object (elements (src ''objects''))),
           ''steps'' \<mapsto> JArr (if ss = [] then [JObj (enc_step (newStep base_id))] else ss)])"

section \<open>Any board opens\<close>

definition sound_step :: "json \<Rightarrow> bool" where
  "sound_step s \<longleftrightarrow> isObject (Some s) \<and> is_str (entries (Some s) ''id'') \<and> isObject (entries (Some s) ''pos'')
     \<and> (\<exists>ds. entries (Some s) ''drawings'' = Some (JArr ds))
     \<and> {''duration'', ''hold'', ''note''} \<subseteq> dom (entries (Some s))"

definition sound_pitch :: "(string \<Rightarrow> json option) \<Rightarrow> bool" where
  "sound_pitch p \<longleftrightarrow> {''layout'', ''markings'', ''style'', ''stadium''} \<subseteq> dom p"

definition sound_kit :: "json option \<Rightarrow> bool" where
  "sound_kit k \<longleftrightarrow> isObject k
     \<and> {''name'', ''primary'', ''secondary'', ''pattern'', ''numbers'', ''keeper''} \<subseteq> dom (entries k)"

definition sound_teams :: "(string \<Rightarrow> json option) \<Rightarrow> bool" where
  "sound_teams ts \<longleftrightarrow> dom ts = team_name ` UNIV \<and> (\<forall>t. sound_kit (ts (team_name t)))"

definition sound_board :: "json \<Rightarrow> bool" where
  "sound_board doc \<longleftrightarrow>
     (\<exists>p ts obs ss. doc = JObj [''v'' \<mapsto> JNum 1, ''pitch'' \<mapsto> JObj p, ''teams'' \<mapsto> JObj ts,
          ''objects'' \<mapsto> JArr obs, ''steps'' \<mapsto> JArr ss]
       \<and> sound_pitch p \<and> sound_teams ts \<and> list_all kept_object obs \<and> ss \<noteq> [] \<and> list_all sound_step ss)"

lemma obj_dom: "dom (obj kvs) = {k. \<exists>v. map_of kvs k = Some (Some v)}"
  by (auto simp: obj_def bind_eq_Some_conv)

lemma enc_pitch_dom: "dom (enc_pitch p) = {''layout'', ''markings'', ''style'', ''stadium''}"
  by (auto simp: enc_pitch_def obj_dom)

lemma enc_kit_dom:
  "dom (entries (Some (enc_kit k))) = {''name'', ''primary'', ''secondary'', ''pattern'', ''numbers'', ''keeper''}"
  by (auto simp: enc_kit_def obj_dom)

lemma enc_step_dom: "{''id'', ''duration'', ''hold'', ''note'', ''pos'', ''drawings''} \<subseteq> dom (enc_step st)"
  by (auto simp: enc_step_def obj_dom)

lemma norm_step_sound: "sound_step (JObj (norm_step nid s))"
proof -
  have "isObject (Some (the (s ''pos'')))" if "isObject (s ''pos'')" using that by (cases "s ''pos''") auto
  moreover have "is_str (Some (the (s ''id'')))" if "is_str (s ''id'')" using that by (cases "s ''id''") auto
  ultimately show ?thesis
    using enc_step_dom [of "newStep nid"] by (auto simp: sound_step_def norm_step_def)
qed

lemma enc_new_step_sound: "sound_step (JObj (enc_step (newStep nid)))"
  by (auto simp: sound_step_def enc_step_def obj_def newStep_def enc_vecs_def)

lemma team_name_inj [simp]: "team_name t = team_name u \<longleftrightarrow> t = u"
  by (cases t; cases u) simp_all

lemma team_table:
  "map_of (map (\<lambda>t. (team_name t, f t)) TEAM_IDS) (team_name t) = Some (f t)"
  "dom (map_of (map (\<lambda>t. (team_name t, f t)) TEAM_IDS)) = team_name ` UNIV"
proof -
  have all: "set TEAM_IDS = UNIV" using team_id.exhaust by (auto simp: TEAM_IDS_def)
  show "map_of (map (\<lambda>t. (team_name t, f t)) TEAM_IDS) (team_name t) = Some (f t)"
    by (cases t) (simp_all add: TEAM_IDS_def)
  show "dom (map_of (map (\<lambda>t. (team_name t, f t)) TEAM_IDS)) = team_name ` UNIV"
    by (simp add: dom_map_of_conv_image_fst image_image all)
qed

lemma table_is:
  assumes "dom ts = team_name ` UNIV" "\<And>t. ts (team_name t) = Some (f t)"
  shows "map_of (map (\<lambda>t. (team_name t, f t)) TEAM_IDS) = ts"
proof
  fix k
  show "map_of (map (\<lambda>t. (team_name t, f t)) TEAM_IDS) k = ts k"
  proof (cases "k \<in> team_name ` UNIV")
    case True
    then obtain t where "k = team_name t" by blast
    then show ?thesis by (simp only: team_table assms(2))
  next
    case False
    then have "k \<notin> dom ts" "k \<notin> dom (map_of (map (\<lambda>t. (team_name t, f t)) TEAM_IDS))"
      by (simp_all only: assms(1) team_table not_False_eq_True)
    then show ?thesis by (simp only: domIff not_not)
  qed
qed

lemma norm_team_sound: "sound_kit (Some (norm_team m t))"
  using enc_kit_dom [of "DEFAULT_KITS t"] by (auto simp: norm_team_def sound_kit_def)

lemma norm_teams_sound: "sound_teams (norm_teams src)"
  by (simp add: sound_teams_def norm_teams_def team_table norm_team_sound)

lemma norm_steps_sound: "list_all sound_step (norm_steps fresh src)"
  by (auto simp: norm_steps_def list_all_iff norm_step_sound)

lemma normalised_sound: "sound_board (normalizeDoc base_id fresh raw)"
proof -
  let ?src = "entries (Some raw)" and ?ss = "norm_steps fresh (entries (Some raw) ''steps'')"
  have "sound_pitch (norm_pitch x)" for x
    using enc_pitch_dom [of "pitch (emptyDoc [])"] by (auto simp: norm_pitch_def sound_pitch_def)
  moreover have "list_all kept_object (filter kept_object xs)" for xs by (simp add: list_all_iff)
  moreover have "(if ?ss = [] then [JObj (enc_step (newStep base_id))] else ?ss) \<noteq> []" by simp
  moreover have "list_all sound_step (if ?ss = [] then [JObj (enc_step (newStep base_id))] else ?ss)"
    using norm_steps_sound [of fresh "?src ''steps''"] enc_new_step_sound by simp
  ultimately show ?thesis
    unfolding sound_board_def normalizeDoc_def Let_def
    using norm_teams_sound [of "?src ''teams''"] by blast
qed


section \<open>A saved board reopens as it was\<close>

lemma map_add_covers: "dom a \<subseteq> dom b \<Longrightarrow> a ++ b = b"
  by (rule ext) (auto simp: map_add_def split: option.splits)

lemma norm_pitch_same: "sound_pitch p \<Longrightarrow> norm_pitch (Some (JObj p)) = p"
  using enc_pitch_dom [of "pitch (emptyDoc [])"] by (simp add: norm_pitch_def sound_pitch_def map_add_covers)

lemma isObject_Some: "isObject x \<Longrightarrow> \<exists>m. x = Some (JObj m)"
  by (cases x rule: isObject.cases) auto

lemma is_str_Some: "is_str x \<Longrightarrow> \<exists>s. x = Some (JStr s)"
  by (cases x rule: is_str.cases) auto

lemma norm_teams_same:
  assumes "sound_teams ts"
  shows "norm_teams (Some (JObj ts)) = ts"
proof -
  have "ts (team_name t) = Some (norm_team ts t)" for t
  proof -
    from assms have k: "sound_kit (ts (team_name t))" by (simp add: sound_teams_def)
    then obtain m where m: "ts (team_name t) = Some (JObj m)"
      unfolding sound_kit_def using isObject_Some [of "ts (team_name t)"] by auto
    with k have "dom (entries (Some (enc_kit (DEFAULT_KITS t)))) \<subseteq> dom m"
      unfolding enc_kit_dom by (simp add: sound_kit_def)
    then show ?thesis by (simp add: m norm_team_def map_add_covers)
  qed
  moreover have "dom ts = team_name ` UNIV" using assms by (simp add: sound_teams_def)
  ultimately show ?thesis unfolding norm_teams_def entries.simps by (intro table_is)
qed

lemma new_step_dom:
  "dom (enc_step (newStep nid)) = {''id'', ''duration'', ''hold'', ''note'', ''pos'', ''drawings''}"
  by (auto simp: enc_step_def obj_dom newStep_def)

lemma norm_step_same:
  assumes "sound_step (JObj s)"
  shows "norm_step nid s = s"
proof -
  from assms have "is_str (s ''id'')" "isObject (s ''pos'')" "\<exists>ds. s ''drawings'' = Some (JArr ds)"
      and d: "{''duration'', ''hold'', ''note''} \<subseteq> dom s"
    by (simp_all add: sound_step_def)
  then obtain i p ds where s: "s ''id'' = Some (JStr i)" "s ''pos'' = Some (JObj p)" "s ''drawings'' = Some (JArr ds)"
    using isObject_Some [of "s ''pos''"] is_str_Some [of "s ''id''"] by auto
  then have "{''id'', ''pos'', ''drawings''} \<subseteq> dom s" by (simp add: domI)
  with d have "dom (enc_step (newStep nid)) \<subseteq> dom s" unfolding new_step_dom by simp
  then have "norm_step nid s = s(''id'' \<mapsto> JStr i, ''pos'' \<mapsto> JObj p, ''drawings'' \<mapsto> JArr ds)"
    by (simp add: norm_step_def map_add_covers s)
  then show ?thesis by (simp add: s map_upd_triv)
qed

lemma norm_steps_same:
  assumes "list_all sound_step ss"
  shows "norm_steps fresh (Some (JArr ss)) = ss"
proof -
  have obj: "\<exists>m. s = JObj m" if "s \<in> set ss" for s
    using assms that isObject_Some [of "Some s"] by (auto simp: list_all_iff sound_step_def)
  then have "filter (\<lambda>s. isObject (Some s)) ss = ss" by (force simp: filter_id_conv)
  moreover have "map (\<lambda>(k, s). JObj (norm_step (fresh k) (entries (Some s)))) (enumerate 0 ss) = ss"
  proof (rule nth_equalityI)
    fix k
    assume "k < length (map (\<lambda>(k, s). JObj (norm_step (fresh k) (entries (Some s)))) (enumerate 0 ss))"
    then have k: "k < length ss" by simp
    then obtain m where m: "ss ! k = JObj m" using obj nth_mem by blast
    then have "sound_step (JObj m)" using assms k by (metis list_all_length)
    with k m show "map (\<lambda>(k, s). JObj (norm_step (fresh k) (entries (Some s)))) (enumerate 0 ss) ! k = ss ! k"
      by (simp add: nth_enumerate_eq norm_step_same)
  qed simp
  ultimately show ?thesis by (simp add: norm_steps_def)
qed

lemma normalise_sound: "sound_board doc \<Longrightarrow> normalizeDoc base_id fresh doc = doc"
proof -
  assume "sound_board doc"
  then obtain p ts obs ss where d: "doc = JObj [''v'' \<mapsto> JNum 1, ''pitch'' \<mapsto> JObj p, ''teams'' \<mapsto> JObj ts,
          ''objects'' \<mapsto> JArr obs, ''steps'' \<mapsto> JArr ss]"
    and s: "sound_pitch p" "sound_teams ts" "list_all kept_object obs" "ss \<noteq> []" "list_all sound_step ss"
    unfolding sound_board_def by blast
  have "filter kept_object obs = obs" using s(3) by (simp add: filter_id_conv list_all_iff)
  then show ?thesis unfolding d
    by (simp add: normalizeDoc_def Let_def norm_pitch_same norm_teams_same norm_steps_same s)
qed

text \<open>
  Normalising is done once: a board that was normalised is taken as it is, whatever ids are drawn the second
  time.
\<close>
theorem normalising_twice_changes_nothing:
  "normalizeDoc b2 f2 (normalizeDoc b1 f1 raw) = normalizeDoc b1 f1 raw"
proof -
  have s: "sound_board (normalizeDoc b1 f1 raw)" by (rule normalised_sound)
  show ?thesis by (rule normalise_sound [OF s])
qed

lemma kept_enc_object: "kept_object (enc_object ob)"
  by (simp add: kept_object_def enc_object_def obj_def)

lemma sound_enc_step: "sound_step (JObj (enc_step st))"
  by (auto simp: sound_step_def enc_step_def obj_def enc_vecs_def)

lemma sound_enc_teams: "sound_teams (enc_teams ts)"
proof -
  have "sound_kit (Some (enc_kit k))" for k
    unfolding sound_kit_def enc_kit_dom by (simp add: enc_kit_def)
  then show ?thesis by (simp add: sound_teams_def enc_teams_def team_table)
qed

lemma sound_encode:
  assumes "steps doc \<noteq> []"
  shows "sound_board (encode doc)"
proof -
  have "sound_pitch (enc_pitch (pitch doc))" by (simp add: sound_pitch_def enc_pitch_dom)
  moreover have "list_all kept_object (map enc_object (objects doc))"
    by (simp add: list_all_iff kept_enc_object)
  moreover have "map (JObj \<circ> enc_step) (steps doc) \<noteq> []" using assms by simp
  moreover have "list_all sound_step (map (JObj \<circ> enc_step) (steps doc))"
    by (simp add: list_all_iff sound_enc_step)
  ultimately show ?thesis
    unfolding sound_board_def
    by (intro exI [where P = "\<lambda>p. \<exists>ts obs ss. Q p ts obs ss" for Q, of _ "enc_pitch (pitch doc)"]
        exI [where P = "\<lambda>ts. \<exists>obs ss. Q ts obs ss" for Q, of _ "enc_teams (teams doc)"]
        exI [where P = "\<lambda>obs. \<exists>ss. Q obs ss" for Q, of _ "map enc_object (objects doc)"]
        exI [of _ "map (JObj \<circ> enc_step) (steps doc)"] conjI)
      (simp_all only: encode_def sound_enc_teams not_False_eq_True)
qed

text \<open>
  C17. A board saved by the editor reopens as it was saved: nothing of the pitch, the kits, the objects, the steps
  or the drawings changes.
\<close>
theorem saved_board_reopens:
  assumes "steps doc \<noteq> []"
  shows "normalizeDoc base_id fresh (encode doc) = encode doc"
  by (rule normalise_sound [OF sound_encode [OF assms]])

theorem saved_board_reopens_witness:
  "normalizeDoc ''z'' (\<lambda>k. ''y'') (encode (emptyDoc ''a'')) = encode (emptyDoc ''a'')"
  by (rule saved_board_reopens) simp

text \<open>
  What is inside a step is not checked: a drawing that is no object and a position that is no pair stay in a
  normalised board, to be read by code that takes them for a drawing and a position.
\<close>
theorem damage_inside_a_step_stays:
  "\<exists>s. normalizeDoc ''z'' fresh (JObj [''steps'' \<mapsto> JArr [JObj [''id'' \<mapsto> JStr ''a'',
          ''pos'' \<mapsto> JObj [''p'' \<mapsto> JStr ''here''], ''drawings'' \<mapsto> JArr [JNull]]]])
      = JObj s \<and> (\<exists>st. s ''steps'' = Some (JArr [JObj st]) \<and> st ''drawings'' = Some (JArr [JNull])
          \<and> st ''pos'' = Some (JObj [''p'' \<mapsto> JStr ''here'']))"
  by (simp add: normalizeDoc_def norm_steps_def norm_step_def)

end
