(* ===== verification/Game_Engine.thy ===== *)
theory Game_Engine
  imports Prelude
begin

text \<open>
  The rules of "Who Played For Both?":
  \<open>apps/frontend/src/app/features/games/played-for-both/played-for-both.engine.ts\<close>.

  Randomness is a stream of draws, \<open>r n\<close> being the \<open>n\<close>-th result of the generator; an operation that draws
  takes the position in the stream and returns the position after its draws.  The redraw loop of
  \<open>randomKey\<close> is a \<open>partial_function\<close>: \<open>None\<close> is a loop that does not end.  The collation behind
  \<open>localeCompare\<close> depends on the browser and is the parameter \<open>loc\<close>.
\<close>

section \<open>The dataset\<close>

record league =
  league_code :: string
  league_country :: string
  league_name :: string

record club =
  club_id :: string
  club_name :: string
  colour1 :: string
  colour2 :: string
  club_league :: nat

record nation =
  fifa :: string
  nameEN :: string
  nameTR :: string
  flag :: string

record player =
  player_name :: string
  entities :: "nat list"
  famous :: bool

text \<open>Positional arrays as they come over the wire; a nation index of -1 is none.\<close>

record wire =
  wire_leagues :: "(string \<times> string \<times> string) list"
  wire_clubs :: "(string \<times> string \<times> string \<times> string \<times> nat) list"
  wire_nations :: "(string \<times> string \<times> string \<times> string) list"
  wire_players :: "(string \<times> int \<times> nat list \<times> nat) list"

text \<open>
  \<open>clubsPerLeague\<close> is a JavaScript array of counters: an index with no entry is absent from the map, and
  counting there stores \<open>NaN\<close>, the inner \<open>None\<close>.
\<close>

record game_index =
  ix_leagues :: "league list"
  ix_clubs :: "club list"
  ix_nations :: "nation list"
  ix_players :: "player list"
  clubCount :: nat
  byEntity :: "nat list list"
  clubsPerLeague :: "nat \<rightharpoonup> nat option"

definition PAIR_BASE :: nat where "PAIR_BASE = 100000"
definition RECENT_WINDOW :: nat where "RECENT_WINDOW = 60"
definition MAX_TRIES :: nat where "MAX_TRIES = 50"
definition NATION_CHANCE :: real where "NATION_CHANCE = 35 / 100"
definition TOP5 :: "string list" where "TOP5 = [''eng'', ''esp'', ''ita'', ''ger'', ''fra'']"

section \<open>Loading\<close>

definition mk_game_player :: "nat \<Rightarrow> string \<times> int \<times> nat list \<times> nat \<Rightarrow> player" where
  "mk_game_player cc = (\<lambda>(nm, nation_ix, clubIdx, fam).
     \<lparr>player_name = nm,
      entities = (if nation_ix \<ge> 0 then clubIdx @ [cc + nat nation_ix] else clubIdx),
      famous = (fam = 1)\<rparr>)"

text \<open>\<open>byEntity[e].push(i)\<close> for each entity of a player raises where there is no such entity.\<close>

definition push_at :: "nat \<Rightarrow> nat list list \<Rightarrow> nat \<Rightarrow> js_error + nat list list" where
  "push_at i by_ent e =
     (if e < length by_ent then Inr (by_ent[e := by_ent ! e @ [i]]) else Inl TypeError)"

definition push_player :: "nat list list \<Rightarrow> nat \<times> player \<Rightarrow> js_error + nat list list" where
  "push_player by_ent = (\<lambda>(i, p). foldE (push_at i) by_ent (entities p))"

definition bump :: "(nat \<rightharpoonup> nat option) \<Rightarrow> nat \<Rightarrow> (nat \<rightharpoonup> nat option)" where
  "bump m k = m(k \<mapsto> (case m k of Some (Some n) \<Rightarrow> Some (Suc n) | _ \<Rightarrow> None))"

definition buildIndex :: "wire \<Rightarrow> js_error + game_index" where
  "buildIndex w =
     (let ls = map (\<lambda>(code, country, nm).
            \<lparr>league_code = code, league_country = country, league_name = nm\<rparr>) (wire_leagues w);
          cs = map (\<lambda>(i, nm, c1, c2, l).
            \<lparr>club_id = i, club_name = nm, colour1 = c1, colour2 = c2, club_league = l\<rparr>) (wire_clubs w);
          ns = map (\<lambda>(f, en, tr, fl). \<lparr>fifa = f, nameEN = en, nameTR = tr, flag = fl\<rparr>) (wire_nations w);
          ps = map (mk_game_player (length cs)) (wire_players w)
      in case foldE push_player (replicate (length cs + length ns) []) (enumerate 0 ps) of
           Inl e \<Rightarrow> Inl e
         | Inr by_ent \<Rightarrow>
             Inr \<lparr>ix_leagues = ls, ix_clubs = cs, ix_nations = ns, ix_players = ps,
                  clubCount = length cs, byEntity = by_ent,
                  clubsPerLeague = foldl bump
                    (\<lambda>k. if k < length ls then Some (Some 0) else None) (map club_league cs)\<rparr>)"

section \<open>Entities and pairs\<close>

definition isClub :: "game_index \<Rightarrow> nat \<Rightarrow> bool" where
  "isClub ix e \<longleftrightarrow> e < clubCount ix"

definition nationEntity :: "game_index \<Rightarrow> nat \<Rightarrow> nat" where
  "nationEntity ix k = clubCount ix + k"

definition pairKey :: "nat \<Rightarrow> nat \<Rightarrow> nat" where
  "pairKey a b = min a b * PAIR_BASE + max a b"

definition splitKey :: "nat \<Rightarrow> nat \<times> nat" where
  "splitKey key = (key div PAIR_BASE, key mod PAIR_BASE)"

definition answer_order :: "(string \<Rightarrow> string \<Rightarrow> int) \<Rightarrow> player \<Rightarrow> player \<Rightarrow> int" where
  "answer_order loc x y =
     (let d = of_bool (famous y) - of_bool (famous x)
      in if d \<noteq> 0 then d else loc (player_name x) (player_name y))"

text \<open>A missing row of \<open>byEntity\<close> raises for \<open>a\<close> and reads as the empty set for \<open>b\<close>.\<close>

definition matches ::
  "(string \<Rightarrow> string \<Rightarrow> int) \<Rightarrow> game_index \<Rightarrow> nat \<Rightarrow> nat \<Rightarrow> js_error + player list" where
  "matches loc ix a b =
     (case nth_opt (byEntity ix) (int a) of
        None \<Rightarrow> Inl TypeError
      | Some as \<Rightarrow>
          (let other = (case nth_opt (byEntity ix) (int b) of Some bs \<Rightarrow> bs | None \<Rightarrow> [])
           in Inr (js_sort (answer_order loc)
                (map (\<lambda>i. ix_players ix ! i) (filter (\<lambda>i. i \<in> set other) as)))))"

definition enabledClubs :: "game_index \<Rightarrow> string set \<Rightarrow> js_error + nat list" where
  "enabledClubs ix on =
     (case mapE (\<lambda>(i, c). case nth_opt (ix_leagues ix) (int (club_league c)) of
          None \<Rightarrow> Inl TypeError
        | Some l \<Rightarrow> Inr (if league_code l \<in> on then [i] else [])) (enumerate 0 (ix_clubs ix)) of
        Inl e \<Rightarrow> Inl e
      | Inr out \<Rightarrow> Inr (concat out))"

section \<open>The pool of pairs with a known answer\<close>

text \<open>\<open>Set.add\<close> in insertion order.\<close>

definition add_new :: "'a list \<Rightarrow> 'a list \<Rightarrow> 'a list" where
  "add_new xs ks = foldl (\<lambda>s k. if k \<in> set s then s else s @ [k]) xs ks"

fun club_pairs :: "(nat \<Rightarrow> nat list) \<Rightarrow> nat list \<Rightarrow> nat list" where
  "club_pairs extra [] = []"
| "club_pairs extra (c # cs) =
     map (\<lambda>d. pairKey c d) (filter (\<lambda>d. c \<noteq> d) cs) @ extra c @ club_pairs extra cs"

definition player_pairs :: "game_index \<Rightarrow> nat list \<Rightarrow> bool \<Rightarrow> player \<Rightarrow> nat list" where
  "player_pairs ix on allowNations p =
     (let clubs = filter (\<lambda>e. e \<in> set on) (entities p);
          nation = find (\<lambda>e. \<not> isClub ix e) (entities p)
      in club_pairs (\<lambda>c. case nation of
              Some n \<Rightarrow> if allowNations then [pairKey c n] else [] | None \<Rightarrow> []) clubs)"

record pool_options =
  opt_leagues :: "string set"
  famousOnly :: bool
  allowNations :: bool

definition buildPairPool :: "game_index \<Rightarrow> pool_options \<Rightarrow> js_error + nat list" where
  "buildPairPool ix opts =
     (case enabledClubs ix (opt_leagues opts) of
        Inl e \<Rightarrow> Inl e
      | Inr on \<Rightarrow>
          Inr (foldl (\<lambda>s p. if famousOnly opts \<and> \<not> famous p then s
                            else add_new s (player_pairs ix on (allowNations opts) p))
                 [] (ix_players ix)))"

section \<open>Drawing\<close>

type_synonym rng = "nat \<Rightarrow> real"

definition rand_below :: "rng \<Rightarrow> nat \<Rightarrow> nat \<Rightarrow> nat" where
  "rand_below r n len = nat \<lfloor>r n * real len\<rfloor>"

definition pick :: "'a list \<Rightarrow> rng \<Rightarrow> nat \<Rightarrow> 'a" where
  "pick xs r n = xs ! rand_below r n (length xs)"

record draw_options =
  draw_clubs :: "nat list"
  draw_pool :: "nat list"
  knownOnly :: bool
  draw_nations :: bool
  draw_recent :: "nat list"

record draw =
  draw_key :: nat
  draw_left :: nat
  draw_right :: nat

partial_function (option) redraw :: "nat list \<Rightarrow> rng \<Rightarrow> nat \<Rightarrow> nat \<Rightarrow> (nat \<times> nat) option" where
  "redraw clubs r a n =
     (let b = pick clubs r n in if b = a then redraw clubs r a (Suc n) else Some (b, Suc n))"

definition randomKey :: "game_index \<Rightarrow> draw_options \<Rightarrow> rng \<Rightarrow> nat \<Rightarrow> (nat \<times> nat) option" where
  "randomKey ix opts r n =
     (let a = pick (draw_clubs opts) r n;
          nation = (\<lambda>m. Some (pairKey a (nationEntity ix (rand_below r m (length (ix_nations ix)))), Suc m));
          tossed = (draw_nations opts \<and> ix_nations ix \<noteq> []);
          n1 = (if tossed then Suc (Suc n) else Suc n)
      in if tossed \<and> r (Suc n) < NATION_CHANCE then nation n1
         else if length (draw_clubs opts) < 2 then nation n1
         else map_option (\<lambda>(b, m). (pairKey a b, m)) (redraw (draw_clubs opts) r a n1))"

text \<open>
  The loop over the tries: \<open>t\<close> tries are left.
\<close>

fun draw_tries ::
  "(nat \<Rightarrow> (nat \<times> nat) option) \<Rightarrow> nat set \<Rightarrow> nat \<Rightarrow> nat \<Rightarrow> nat \<Rightarrow> (nat \<times> nat) option" where
  "draw_tries next_key recent 0 key n = Some (key, n)"
| "draw_tries next_key recent (Suc t) key n =
     (case next_key n of
        None \<Rightarrow> None
      | Some (key', m) \<Rightarrow> if key' \<in> recent then draw_tries next_key recent t key' m else Some (key', m))"

definition next_key :: "game_index \<Rightarrow> draw_options \<Rightarrow> rng \<Rightarrow> nat \<Rightarrow> (nat \<times> nat) option" where
  "next_key ix opts r n =
     (if knownOnly opts \<and> draw_pool opts \<noteq> [] then Some (pick (draw_pool opts) r n, Suc n)
      else randomKey ix opts r n)"

text \<open>The outer option is the loop's, the inner one the source's \<open>null\<close>.\<close>

definition drawPair ::
  "game_index \<Rightarrow> draw_options \<Rightarrow> rng \<Rightarrow> nat \<Rightarrow> (draw option \<times> nat) option" where
  "drawPair ix opts r n =
     (if draw_clubs opts = [] then Some (None, n)
      else case draw_tries (next_key ix opts r) (set (draw_recent opts)) MAX_TRIES 0 n of
             None \<Rightarrow> None
           | Some (key, m) \<Rightarrow>
               (let (a, b) = splitKey key;
                    (x, y) = (if r m < 1 / 2 then (b, a) else (a, b))
                in Some (Some \<lparr>draw_key = key, draw_left = x, draw_right = y\<rparr>, Suc m)))"

definition pushRecent :: "nat list \<Rightarrow> nat \<Rightarrow> nat list" where
  "pushRecent recent key =
     (let nxt = recent @ [key]
      in if length nxt > RECENT_WINDOW then drop (length nxt - RECENT_WINDOW) nxt else nxt)"

section \<open>Pair keys\<close>

lemma PAIR_BASE_pos: "0 < PAIR_BASE"
  by (simp add: PAIR_BASE_def)

lemma pair_key_split: "a < PAIR_BASE \<Longrightarrow> b < PAIR_BASE \<Longrightarrow> splitKey (pairKey a b) = (min a b, max a b)"
  by (simp add: splitKey_def pairKey_def max_def)

text \<open>
  A pair survives being kept as one number: the two entities come back in ascending order, and the
  key does not depend on which side an entity was on.
\<close>
theorem pair_key_round_trip:
  assumes "a < PAIR_BASE" "b < PAIR_BASE"
  shows "splitKey (pairKey a b) = (min a b, max a b) \<and> pairKey a b = pairKey b a"
  using assms by (simp add: splitKey_def pairKey_def max_def min_def)

theorem pair_key_round_trip_witness: "splitKey (pairKey 320 7) = (7, 320)"
proof -
  have "(320::nat) < PAIR_BASE" "(7::nat) < PAIR_BASE" by (simp_all add: PAIR_BASE_def)
  from pair_key_round_trip [OF this]
  have "splitKey (pairKey 320 7) = (min 320 7, max 320 7)" by (rule conjunct1)
  then show ?thesis by simp
qed

section \<open>The index\<close>

lemma push_entities:
  "(\<forall>e\<in>set es. e < length be) \<Longrightarrow>
   \<exists>be'. foldE (push_at i) be es = Inr be' \<and> length be' = length be
     \<and> (\<forall>e<length be. set (be' ! e) = set (be ! e) \<union> (if e \<in> set es then {i} else {}))"
proof (induction es arbitrary: be)
  case (Cons e es)
  let ?be = "be[e := be ! e @ [i]]"
  have "\<forall>x\<in>set es. x < length ?be" using Cons.prems by simp
  from Cons.IH [OF this] obtain be' where
    be': "foldE (push_at i) ?be es = Inr be'" "length be' = length be"
      "\<forall>x<length be. set (be' ! x) = set (?be ! x) \<union> (if x \<in> set es then {i} else {})" by auto
  have "set (be' ! x) = set (be ! x) \<union> (if x \<in> set (e # es) then {i} else {})" if "x < length be" for x
    using be'(3) that Cons.prems by (auto simp: nth_list_update)
  moreover have "push_at i be e = Inr ?be" using Cons.prems by (simp add: push_at_def)
  ultimately show ?case using be'(1,2) by (intro exI [of _ be']) auto
qed simp

lemma push_entities_error:
  "\<not> (\<forall>e\<in>set es. e < length be) \<Longrightarrow> foldE (push_at i) be es = Inl TypeError"
  by (induction es arbitrary: be) (auto simp: push_at_def)

lemma index_shift:
  "{k + j |j. j < Suc n \<and> Q j} = (if Q 0 then {k} else {}) \<union> {Suc k + j |j. j < n \<and> Q (Suc j)}"
proof (rule set_eqI)
  fix x
  have "(\<exists>j. x = k + j \<and> j < Suc n \<and> Q j) \<longleftrightarrow>
      (x = k \<and> Q 0) \<or> (\<exists>j. x = Suc k + j \<and> j < n \<and> Q (Suc j))"
    by (auto simp: less_Suc_eq_0_disj)
  then show "x \<in> {k + j |j. j < Suc n \<and> Q j} \<longleftrightarrow>
      x \<in> (if Q 0 then {k} else {}) \<union> {Suc k + j |j. j < n \<and> Q (Suc j)}"
    by auto
qed

lemma push_players:
  "(\<forall>p\<in>set ps. \<forall>e\<in>set (entities p). e < length be) \<Longrightarrow>
   \<exists>be'. foldE push_player be (enumerate k ps) = Inr be' \<and> length be' = length be
     \<and> (\<forall>e<length be. set (be' ! e) = set (be ! e) \<union> {k + j |j. j < length ps \<and> e \<in> set (entities (ps ! j))})"
proof (induction ps arbitrary: be k)
  case (Cons p ps)
  obtain be1 where be1: "foldE (push_at k) be (entities p) = Inr be1" "length be1 = length be"
      "\<forall>e<length be. set (be1 ! e) = set (be ! e) \<union> (if e \<in> set (entities p) then {k} else {})"
    using push_entities [of "entities p" be k] Cons.prems by auto
  obtain be2 where be2: "foldE push_player be1 (enumerate (Suc k) ps) = Inr be2" "length be2 = length be"
      "\<forall>e<length be. set (be2 ! e) = set (be1 ! e)
         \<union> {Suc k + j |j. j < length ps \<and> e \<in> set (entities (ps ! j))}"
    using Cons.IH [of be1 "Suc k"] Cons.prems be1(2) by auto
  have split: "{k + j |j. j < length (p # ps) \<and> e \<in> set (entities ((p # ps) ! j))}
      = (if e \<in> set (entities p) then {k} else {})
        \<union> {Suc k + j |j. j < length ps \<and> e \<in> set (entities (ps ! j))}" for e
    using index_shift [of k "length ps" "\<lambda>j. e \<in> set (entities ((p # ps) ! j))"] by auto
  have "set (be2 ! e) = set (be ! e)
      \<union> {k + j |j. j < length (p # ps) \<and> e \<in> set (entities ((p # ps) ! j))}" if "e < length be" for e
    unfolding split using be1(3) be2(3) that by (simp add: Un_assoc)
  moreover have "push_player be (k, p) = Inr be1" using be1(1) by (simp add: push_player_def)
  ultimately show ?case using be1 be2 by simp
qed simp

definition good_index :: "game_index \<Rightarrow> bool" where
  "good_index ix \<longleftrightarrow> clubCount ix = length (ix_clubs ix)
     \<and> length (byEntity ix) = length (ix_clubs ix) + length (ix_nations ix)
     \<and> (\<forall>p\<in>set (ix_players ix). \<forall>e\<in>set (entities p). e < length (byEntity ix))
     \<and> (\<forall>e<length (byEntity ix).
          set (byEntity ix ! e) = {i. i < length (ix_players ix) \<and> e \<in> set (entities (ix_players ix ! i))})"

lemma buildIndex_good:
  assumes "buildIndex w = Inr ix"
  shows "good_index ix" "length (ix_clubs ix) = length (wire_clubs w)"
    "length (ix_nations ix) = length (wire_nations w)"
    "ix_players ix = map (mk_game_player (length (wire_clubs w))) (wire_players w)"
proof -
  let ?ps = "map (mk_game_player (length (wire_clubs w))) (wire_players w)"
  let ?be = "replicate (length (wire_clubs w) + length (wire_nations w)) []"
  obtain be where be: "foldE push_player ?be (enumerate 0 ?ps) = Inr be" and
    ix: "length (ix_clubs ix) = length (wire_clubs w)" "length (ix_nations ix) = length (wire_nations w)"
      "ix_players ix = ?ps" "byEntity ix = be" "clubCount ix = length (wire_clubs w)"
    using assms by (auto simp: buildIndex_def Let_def split: sum.splits)
  have err: "foldE push_player b (enumerate k ps) = Inl TypeError"
    if "\<not> (\<forall>p\<in>set ps. \<forall>e\<in>set (entities p). e < length b)" for b k and ps :: "player list"
    using that
  proof (induction ps arbitrary: b k)
    case (Cons p ps)
    show ?case
    proof (cases "\<forall>e\<in>set (entities p). e < length b")
      case True
      from push_entities [OF this, of k] obtain b1 where
        b1: "foldE (push_at k) b (entities p) = Inr b1" "length b1 = length b" by blast
      with True Cons.prems Cons.IH [of b1 "Suc k"] show ?thesis by (auto simp: push_player_def)
    next
      case False
      then show ?thesis by (simp add: push_player_def push_entities_error)
    qed
  qed simp
  have r: "\<forall>p\<in>set ?ps. \<forall>e\<in>set (entities p). e < length ?be"
    using err [of ?ps ?be 0] be by fastforce
  from push_players [OF this, of 0] be
  have b: "length be = length ?be"
    "\<forall>e<length ?be. set (be ! e) = {j. j < length ?ps \<and> e \<in> set (entities (?ps ! j))}" by auto
  with r ix show "good_index ix" by (simp add: good_index_def)
qed (use assms in \<open>auto simp: buildIndex_def Let_def split: sum.splits\<close>)

text \<open>
  The index answers by entity: when every club and nation a player names exists, loading succeeds,
  and the row of an entity lists exactly the players linked to it.
\<close>
theorem index_lists_players:
  assumes "buildIndex w = Inr ix"
  shows "(\<forall>e < length (wire_clubs w) + length (wire_nations w). set (byEntity ix ! e)
      = {i. i < length (ix_players ix) \<and> e \<in> set (entities (ix_players ix ! i))})
    \<and> (\<forall>p\<in>set (ix_players ix). \<forall>e\<in>set (entities p). e < length (wire_clubs w) + length (wire_nations w))"
proof -
  have l: "length (byEntity ix) = length (wire_clubs w) + length (wire_nations w)"
    using buildIndex_good [OF assms] by (simp add: good_index_def)
  show ?thesis using buildIndex_good(1) [OF assms] unfolding good_index_def l by blast
qed

text \<open>A small dataset for the witnesses: two clubs, one nation, two players.\<close>

definition small_wire :: wire where
  "small_wire = \<lparr>wire_leagues = [(''eng'', ''England'', ''Premier League'')],
     wire_clubs = [(''ars'', ''Arsenal'', ''#a'', ''#b'', 0), (''che'', ''Chelsea'', ''#c'', ''#d'', 0)],
     wire_nations = [(''FRA'', ''France'', ''Fransa'', ''fr'')],
     wire_players = [(''Ann'', -1, [0, 1], 1), (''Bob'', 0, [1], 0)]\<rparr>"

lemma small_wire_index:
  "\<exists>ix. buildIndex small_wire = Inr ix \<and> byEntity ix = [[0], [0, 1], [1]]
    \<and> map entities (ix_players ix) = [[0, 1], [1, 2]] \<and> map famous (ix_players ix) = [True, False]
    \<and> clubCount ix = 2 \<and> enabledClubs ix {''eng''} = Inr [0, 1]"
proof -
  have "case buildIndex small_wire of Inl e \<Rightarrow> False
    | Inr ix \<Rightarrow> byEntity ix = [[0], [0, 1], [1]]
        \<and> map entities (ix_players ix) = [[0, 1], [1, 2]] \<and> map famous (ix_players ix) = [True, False]
        \<and> clubCount ix = 2 \<and> enabledClubs ix {''eng''} = Inr [0, 1]"
    by code_simp
  then show ?thesis by (auto split: sum.splits)
qed

theorem index_lists_players_witness:
  "\<exists>ix. buildIndex small_wire = Inr ix \<and> set (byEntity ix ! 1) = {0, 1}"
proof -
  obtain ix where ix: "buildIndex small_wire = Inr ix" "map entities (ix_players ix) = [[0, 1], [1, 2]]"
    using small_wire_index by (elim exE conjE) simp
  obtain p q where pq: "ix_players ix = [p, q]" "entities p = [0, 1]" "entities q = [1, 2]"
    using ix(2) by (auto simp: map_eq_Cons_conv)
  have "set (byEntity ix ! 1) = {i. i < length (ix_players ix) \<and> 1 \<in> set (entities (ix_players ix ! i))}"
    using index_lists_players [OF ix(1)] by (simp add: small_wire_def)
  also have "\<dots> = {0, 1}" using pq by (auto simp: less_Suc_eq)
  finally show ?thesis using ix(1) by blast
qed

section \<open>Answers\<close>

lemma matches_set:
  assumes ix: "good_index ix" and ab: "a < length (byEntity ix)" "b < length (byEntity ix)"
  shows "\<exists>ps. matches loc ix a b = Inr ps
    \<and> set ps = {p \<in> set (ix_players ix). a \<in> set (entities p) \<and> b \<in> set (entities p)}"
proof -
  let ?ps = "map (\<lambda>i. ix_players ix ! i) (filter (\<lambda>i. i \<in> set (byEntity ix ! b)) (byEntity ix ! a))"
  have "set ?ps = {p \<in> set (ix_players ix). a \<in> set (entities p) \<and> b \<in> set (entities p)}"
    using ix ab by (auto simp: good_index_def in_set_conv_nth)
  then show ?thesis using ab by (auto simp: matches_def Let_def)
qed

section \<open>The pool\<close>

lemma set_add_new [simp]: "set (add_new xs ks) = set xs \<union> set ks"
  by (induction ks arbitrary: xs) (auto simp: add_new_def)

lemma distinct_add_new: "distinct xs \<Longrightarrow> distinct (add_new xs ks)"
  by (induction ks arbitrary: xs) (auto simp: add_new_def)

lemma set_club_pairs:
  "set (club_pairs extra cs) =
   {pairKey a b |a b. a \<in> set cs \<and> b \<in> set cs \<and> a \<noteq> b} \<union> \<Union> ((set \<circ> extra) ` set cs)"
proof (induction cs)
  case (Cons c cs)
  have sym: "pairKey a b = pairKey b a" for a b by (simp add: pairKey_def min.commute max.commute)
  have "{pairKey a b |a b. a \<in> set (c # cs) \<and> b \<in> set (c # cs) \<and> a \<noteq> b}
      = pairKey c ` {d \<in> set cs. c \<noteq> d} \<union> {pairKey a b |a b. a \<in> set cs \<and> b \<in> set cs \<and> a \<noteq> b}"
    by (auto simp: sym)
  with Cons show ?case by auto
qed simp

definition pool_key :: "game_index \<Rightarrow> nat list \<Rightarrow> pool_options \<Rightarrow> player \<Rightarrow> nat \<Rightarrow> bool" where
  "pool_key ix on opts p key \<longleftrightarrow> (famousOnly opts \<longrightarrow> famous p)
     \<and> (\<exists>a \<in> set (entities p) \<inter> set on.
          (\<exists>b \<in> set (entities p) \<inter> set on. a \<noteq> b \<and> key = pairKey a b)
        \<or> allowNations opts \<and> (\<exists>n. find (\<lambda>e. \<not> isClub ix e) (entities p) = Some n \<and> key = pairKey a n))"

lemma set_player_pairs:
  "famousOnly opts \<longrightarrow> famous p \<Longrightarrow>
   set (player_pairs ix on (allowNations opts) p) = {key. pool_key ix on opts p key}"
  by (cases "find (\<lambda>e. \<not> isClub ix e) (entities p)")
    (auto simp: player_pairs_def Let_def set_club_pairs pool_key_def split: if_splits)

lemma pool_set:
  assumes "enabledClubs ix (opt_leagues opts) = Inr on"
  shows "\<exists>pool. buildPairPool ix opts = Inr pool \<and> distinct pool
    \<and> set pool = {key. \<exists>p\<in>set (ix_players ix). pool_key ix on opts p key}"
proof -
  let ?f = "\<lambda>s p. if famousOnly opts \<and> \<not> famous p then s
                  else add_new s (player_pairs ix on (allowNations opts) p)"
  have "distinct (foldl ?f s ps) \<and> set (foldl ?f s ps) = set s \<union> {key. \<exists>p\<in>set ps. pool_key ix on opts p key}"
    if "distinct s" for s ps
    using that
  proof (induction ps arbitrary: s)
    case (Cons p ps)
    show ?case
    proof (cases "famousOnly opts \<and> \<not> famous p")
      case True
      with Cons show ?thesis by (auto simp: pool_key_def)
    next
      case False
      then have "set (player_pairs ix on (allowNations opts) p) = {key. pool_key ix on opts p key}"
        by (intro set_player_pairs) auto
      with False Cons.IH [of "?f s p"] Cons.prems show ?thesis
        by (simp add: distinct_add_new) blast
    qed
  qed simp
  from this [of "[]" "ix_players ix"] assms show ?thesis by (simp add: buildPairPool_def)
qed

lemma enabledClubs_set:
  assumes "enabledClubs ix leagues = Inr on"
  shows "on = filter (\<lambda>i. league_code (ix_leagues ix ! club_league (ix_clubs ix ! i)) \<in> leagues)
      [0..<length (ix_clubs ix)]"
    "\<forall>c\<in>set (ix_clubs ix). club_league c < length (ix_leagues ix)"
proof -
  let ?f = "\<lambda>(i, c). case nth_opt (ix_leagues ix) (int (club_league c)) of
          None \<Rightarrow> Inl TypeError
        | Some l \<Rightarrow> Inr (if league_code l \<in> leagues then [i] else [])"
  let ?g = "\<lambda>(i, c). if league_code (ix_leagues ix ! club_league c) \<in> leagues then [i] else []"
  let ?xs = "enumerate 0 (ix_clubs ix)"
  obtain out' where out': "mapE ?f ?xs = Inr out'" "on = concat out'"
    using assms by (auto simp: enabledClubs_def split: sum.splits)
  have r: "\<forall>x\<in>set ?xs. club_league (snd x) < length (ix_leagues ix)"
    using mapE_InrD [OF out'(1)] by (fastforce simp: nth_opt_def split: if_splits)
  have c: "\<forall>c\<in>set (ix_clubs ix). club_league c < length (ix_leagues ix)"
  proof
    fix c
    assume "c \<in> set (ix_clubs ix)"
    then obtain i where "i < length (ix_clubs ix)" "ix_clubs ix ! i = c" by (auto simp: in_set_conv_nth)
    then have "(i, c) \<in> set ?xs" by (auto simp: in_set_enumerate_eq)
    with r show "club_league c < length (ix_leagues ix)" by fastforce
  qed
  have "mapE ?f ?xs = Inr (map ?g ?xs)"
    using r by (intro mapE_Inr) (fastforce simp: nth_opt_def)
  with out' have out: "on = concat (map ?g ?xs)" by simp
  have "concat (map (\<lambda>(i, c). if P c then [i] else []) (enumerate k cs))
      = filter (\<lambda>i. P (cs ! (i - k))) [k..<k + length cs]" for P :: "club \<Rightarrow> bool" and k cs
  proof (induction cs arbitrary: k)
    case (Cons c cs)
    have "filter (\<lambda>i. P ((c # cs) ! (i - k))) [Suc k..<k + length (c # cs)]
        = filter (\<lambda>i. P (cs ! (i - Suc k))) [Suc k..<Suc k + length cs]"
      by (rule filter_cong) (auto simp: Suc_diff_le nth_Cons' dest: Suc_leD)
    moreover have "[k..<k + length (c # cs)] = k # [Suc k..<k + length (c # cs)]"
      by (simp add: upt_conv_Cons del: upt_Suc)
    ultimately show ?case using Cons [of "Suc k"] by simp
  qed simp
  from this [of "\<lambda>c. league_code (ix_leagues ix ! club_league c) \<in> leagues" 0] out
  show "on = filter (\<lambda>i. league_code (ix_leagues ix ! club_league (ix_clubs ix ! i)) \<in> leagues)
      [0..<length (ix_clubs ix)]" by simp
  show "\<forall>c\<in>set (ix_clubs ix). club_league c < length (ix_leagues ix)" by (rule c)
qed

lemma enabled_below: "enabledClubs ix leagues = Inr on \<Longrightarrow> e \<in> set on \<Longrightarrow> e < length (ix_clubs ix)"
  using enabledClubs_set(1) by fastforce

lemma find_Some_in: "find P xs = Some x \<Longrightarrow> x \<in> set xs \<and> P x"
  by (auto simp: find_Some_iff in_set_conv_nth)

lemma pool_key_shape:
  assumes ix: "good_index ix" and on: "enabledClubs ix leagues = Inr on"
    and base: "length (byEntity ix) \<le> PAIR_BASE"
    and p: "p \<in> set (ix_players ix)" and key: "pool_key ix on opts p key"
  shows "\<exists>a b. splitKey key = (a, b) \<and> a < b \<and> a \<in> set on \<and> b < length (byEntity ix)
      \<and> (isClub ix b \<longrightarrow> b \<in> set on) \<and> (\<not> isClub ix b \<longrightarrow> allowNations opts)
      \<and> a \<in> set (entities p) \<and> b \<in> set (entities p)"
proof -
  have lt: "e < length (byEntity ix)" if "e \<in> set (entities p)" for e
    using ix p that by (auto simp: good_index_def)
  have clubs: "isClub ix e" if "e \<in> set on" for e
    using enabled_below [OF on that] ix by (simp add: isClub_def good_index_def)
  have split: "splitKey (pairKey x y) = (min x y, max x y)"
    if "x \<in> set (entities p)" "y \<in> set (entities p)" for x y
    using lt [OF that(1)] lt [OF that(2)] base by (intro pair_key_split) auto
  from key obtain a where a: "a \<in> set (entities p)" "a \<in> set on" and
    c: "(\<exists>b \<in> set (entities p) \<inter> set on. a \<noteq> b \<and> key = pairKey a b)
      \<or> allowNations opts \<and> (\<exists>n. find (\<lambda>e. \<not> isClub ix e) (entities p) = Some n \<and> key = pairKey a n)"
    by (auto simp: pool_key_def)
  from c show ?thesis
  proof (elim disjE bexE conjE exE)
    fix b
    assume "b \<in> set (entities p) \<inter> set on" "a \<noteq> b" "key = pairKey a b"
    then show ?thesis using a split [of a b] clubs lt
      by (cases "a < b") (auto simp: min_def max_def)
  next
    fix n
    assume n: "find (\<lambda>e. \<not> isClub ix e) (entities p) = Some n" "key = pairKey a n" "allowNations opts"
    then have "n \<in> set (entities p)" "\<not> isClub ix n" using find_Some_in by fastforce+
    moreover from this clubs [OF a(2)] have "a < n" by (simp add: isClub_def)
    ultimately show ?thesis using a split [of a n] n lt
      by (auto simp: min_def max_def)
  qed
qed

text \<open>
  C30. Every pair of the pool has a known answer: it is an enabled club against a different enabled club,
  or against a nation when countries are allowed, and asking for the answers gives at least one player,
  a famous one when only famous players count.
\<close>
theorem pool_pairs_have_answers:
  assumes w: "buildIndex w = Inr ix" and pool: "buildPairPool ix opts = Inr pool" and key: "key \<in> set pool"
    and base: "length (wire_clubs w) + length (wire_nations w) \<le> PAIR_BASE"
  shows "\<exists>a b on ps. splitKey key = (a, b) \<and> a \<noteq> b \<and> enabledClubs ix (opt_leagues opts) = Inr on
    \<and> a \<in> set on \<and> (isClub ix b \<longrightarrow> b \<in> set on) \<and> (\<not> isClub ix b \<longrightarrow> allowNations opts)
    \<and> matches loc ix a b = Inr ps \<and> (\<exists>p\<in>set ps. famousOnly opts \<longrightarrow> famous p)"
proof -
  note ix = buildIndex_good [OF w]
  have len: "length (byEntity ix) = length (wire_clubs w) + length (wire_nations w)"
    using ix by (simp add: good_index_def)
  obtain on where on: "enabledClubs ix (opt_leagues opts) = Inr on"
    using pool by (auto simp: buildPairPool_def split: sum.splits)
  obtain p where p: "p \<in> set (ix_players ix)" "pool_key ix on opts p key"
    using pool_set [OF on] pool key by auto
  obtain a b where ab: "splitKey key = (a, b)" "a < b" "a \<in> set on" "b < length (byEntity ix)"
      "isClub ix b \<longrightarrow> b \<in> set on" "\<not> isClub ix b \<longrightarrow> allowNations opts"
      "a \<in> set (entities p)" "b \<in> set (entities p)"
    using pool_key_shape [OF ix(1) on _ p] base len by auto
  have "famousOnly opts \<longrightarrow> famous p" using p(2) by (simp add: pool_key_def)
  moreover obtain ps where "matches loc ix a b = Inr ps"
    "set ps = {p \<in> set (ix_players ix). a \<in> set (entities p) \<and> b \<in> set (entities p)}"
    using matches_set [OF ix(1), of a b loc] ab by auto
  ultimately show ?thesis using ab on p(1) by (intro exI [of _ a] exI [of _ b] exI [of _ on] exI [of _ ps]) auto
qed

lemma small_pool:
  "\<exists>ix. buildIndex small_wire = Inr ix
    \<and> buildPairPool ix \<lparr>opt_leagues = {''eng''}, famousOnly = True, allowNations = True\<rparr> = Inr [1]"
proof -
  obtain ix where ix: "buildIndex small_wire = Inr ix" "map entities (ix_players ix) = [[0, 1], [1, 2]]"
    "map famous (ix_players ix) = [True, False]" "clubCount ix = 2" "enabledClubs ix {''eng''} = Inr [0, 1]"
    using small_wire_index by (elim exE conjE) simp
  obtain p q where pq: "ix_players ix = [p, q]" "entities p = [0, 1]" "famous p" "\<not> famous q"
    using ix(2,3) by (auto simp: map_eq_Cons_conv)
  then have "buildPairPool ix \<lparr>opt_leagues = {''eng''}, famousOnly = True, allowNations = True\<rparr> = Inr [1]"
    using ix(4,5) by (simp add: buildPairPool_def player_pairs_def isClub_def pairKey_def add_new_def)
  with ix(1) show ?thesis by blast
qed

theorem pool_pairs_have_answers_witness:
  "\<exists>ix a b ps. buildIndex small_wire = Inr ix \<and> splitKey 1 = (a, b)
    \<and> matches (\<lambda>x y. 0) ix a b = Inr ps \<and> (\<exists>p\<in>set ps. famous p)"
proof -
  obtain ix where ix: "buildIndex small_wire = Inr ix"
    "buildPairPool ix \<lparr>opt_leagues = {''eng''}, famousOnly = True, allowNations = True\<rparr> = Inr [1]"
    using small_pool by (elim exE conjE) simp
  have "length (wire_clubs small_wire) + length (wire_nations small_wire) \<le> PAIR_BASE"
    by (simp add: small_wire_def PAIR_BASE_def)
  from pool_pairs_have_answers [OF ix _ this, of 1 "\<lambda>x y. 0"] ix(1) show ?thesis by auto
qed

text \<open>
  The pool leaves nothing out: two different enabled clubs that a counted player played for, and with
  countries allowed an enabled club of such a player with the player's nation, are a pair of the pool;
  and no pair is listed twice.
\<close>
theorem pool_is_complete:
  assumes w: "buildIndex w = Inr ix" and pool: "buildPairPool ix opts = Inr pool"
    and on: "enabledClubs ix (opt_leagues opts) = Inr on"
  shows "distinct pool \<and> (\<forall>p\<in>set (ix_players ix). (famousOnly opts \<longrightarrow> famous p) \<longrightarrow>
    (\<forall>a\<in>set (entities p) \<inter> set on.
       (\<forall>b\<in>set (entities p) \<inter> set on. a \<noteq> b \<longrightarrow> pairKey a b \<in> set pool)
     \<and> (allowNations opts \<longrightarrow> (\<forall>n. find (\<lambda>e. \<not> isClub ix e) (entities p) = Some n \<longrightarrow> pairKey a n \<in> set pool))))"
proof -
  obtain pool' where "buildPairPool ix opts = Inr pool'" "distinct pool'"
    "set pool' = {key. \<exists>p\<in>set (ix_players ix). pool_key ix on opts p key}"
    using pool_set [OF on] by blast
  with pool show ?thesis by (auto simp: pool_key_def)
qed

theorem pool_is_complete_witness:
  "\<exists>ix p. buildIndex small_wire = Inr ix \<and> p \<in> set (ix_players ix) \<and> entities p = [0, 1]
    \<and> buildPairPool ix \<lparr>opt_leagues = {''eng''}, famousOnly = True, allowNations = True\<rparr> = Inr [1]
    \<and> pairKey 1 0 \<in> set [1]"
proof -
  let ?opts = "\<lparr>opt_leagues = {''eng''}, famousOnly = True, allowNations = True\<rparr>"
  obtain ix where ix: "buildIndex small_wire = Inr ix" "map entities (ix_players ix) = [[0, 1], [1, 2]]"
    "map famous (ix_players ix) = [True, False]" "enabledClubs ix {''eng''} = Inr [0, 1]"
    using small_wire_index by (elim exE conjE) simp
  obtain p q where pq: "ix_players ix = [p, q]" "entities p = [0, 1]"
    using ix(2) by (auto simp: map_eq_Cons_conv)
  have pool: "buildPairPool ix ?opts = Inr [1]" using small_pool ix(1) by (elim exE conjE) simp
  have "pairKey 1 0 \<in> set [1]"
    using pool_is_complete [OF ix(1) pool, of "[0, 1]"] ix(3,4) pq by auto
  with pool ix(1) pq show ?thesis by auto
qed

section \<open>Drawing a pair\<close>

text \<open>What \<open>Math.random\<close> promises: draws from 0, included, to 1, excluded.\<close>

definition unit_draws :: "rng \<Rightarrow> bool" where
  "unit_draws r \<longleftrightarrow> (\<forall>n. 0 \<le> r n \<and> r n < 1)"

lemma rand_below_less: "unit_draws r \<Longrightarrow> 0 < len \<Longrightarrow> rand_below r n len < len"
proof -
  assume r: "unit_draws r" and len: "0 < len"
  have "r n * real len < 1 * real len"
    using r len by (intro mult_strict_right_mono) (auto simp: unit_draws_def)
  then have "\<lfloor>r n * real len\<rfloor> < int len" by (simp add: floor_less_iff)
  moreover have "0 \<le> \<lfloor>r n * real len\<rfloor>" using r by (simp add: unit_draws_def)
  ultimately show ?thesis by (simp add: rand_below_def nat_less_iff)
qed

lemma pick_in: "unit_draws r \<Longrightarrow> xs \<noteq> [] \<Longrightarrow> pick xs r n \<in> set xs"
  by (simp add: pick_def rand_below_less)

lemma redraw_run:
  "(\<And>j. j < k \<Longrightarrow> pick clubs r (n + j) = a) \<Longrightarrow> pick clubs r (n + k) \<noteq> a \<Longrightarrow>
   redraw clubs r a n = Some (pick clubs r (n + k), Suc (n + k))"
proof (induction k arbitrary: n)
  case 0
  then show ?case by (simp add: redraw.simps [of _ _ _ n] Let_def)
next
  case (Suc k)
  have "redraw clubs r a (Suc n) = Some (pick clubs r (Suc n + k), Suc (Suc n + k))"
    using Suc.prems Suc.prems(1) [of "Suc j" for j] by (intro Suc.IH) auto
  moreover have "pick clubs r n = a" using Suc.prems(1) [of 0] by simp
  ultimately show ?case by (simp add: redraw.simps [of _ _ _ n] Let_def)
qed

lemma redraw_Some:
  assumes "redraw clubs r a n = Some y"
  shows "fst y \<noteq> a \<and> (\<exists>k. fst y = pick clubs r k)"
proof (rule redraw.raw_induct [where P = "\<lambda>clubs r a n y. fst y \<noteq> a \<and> (\<exists>k. fst y = pick clubs r k)",
      OF _ assms])
  fix rd :: "nat list \<Rightarrow> rng \<Rightarrow> nat \<Rightarrow> nat \<Rightarrow> (nat \<times> nat) option" and clubs r a n y
  assume "\<And>clubs r a n y. rd clubs r a n = Some y \<Longrightarrow> fst y \<noteq> a \<and> (\<exists>k. fst y = pick clubs r k)"
    and "(let b = pick clubs r n in if b = a then rd clubs r a (Suc n) else Some (b, Suc n)) = Some y"
  then show "fst y \<noteq> a \<and> (\<exists>k. fst y = pick clubs r k)"
    by (cases "pick clubs r n = a") (auto simp: Let_def)
qed

lemma redraw_total:
  assumes "\<exists>k\<ge>n. pick clubs r k \<noteq> a"
  shows "redraw clubs r a n \<noteq> None"
proof -
  obtain k where "pick clubs r (n + k) \<noteq> a" using assms by (metis le_iff_add)
  then obtain k where "pick clubs r (n + k) \<noteq> a" "\<And>j. j < k \<Longrightarrow> pick clubs r (n + j) = a"
    using exists_least_iff [of "\<lambda>k. pick clubs r (n + k) \<noteq> a"] by auto
  from redraw_run [OF this(2,1)] show ?thesis by simp
qed

text \<open>A stream that keeps leaving any club it landed on, as a random one does when there are two.\<close>

definition keeps_moving :: "nat list \<Rightarrow> rng \<Rightarrow> bool" where
  "keeps_moving clubs r \<longleftrightarrow> (\<forall>a n. \<exists>k\<ge>n. pick clubs r k \<noteq> a)"

lemma draw_tries_total:
  "(\<And>m. nk m \<noteq> None) \<Longrightarrow> draw_tries nk recent t key n \<noteq> None"
proof (induction t arbitrary: key n)
  case (Suc t)
  from Suc.prems [of n] obtain key' m where "nk n = Some (key', m)" by auto
  with Suc show ?case by simp
qed simp

lemma draw_tries_key:
  assumes "draw_tries nk recent t key n = Some (key', m)" "0 < t"
  shows "(\<exists>i. map_option fst (nk i) = Some key')"
  using assms
proof (induction t arbitrary: key n)
  case (Suc t)
  then show ?case
    by (cases t) (auto split: option.splits if_splits prod.splits intro: exI [of _ n])
qed simp

lemma draw_tries_recent:
  assumes "draw_tries nk recent t key n = Some (key', m)" "key' \<in> recent" "0 < t"
    and step: "\<And>i. nk i = Some (f i, Suc i)"
  shows "\<forall>i<t. f (n + i) \<in> recent"
  using assms(1-3)
proof (induction t arbitrary: key n)
  case (Suc t)
  then have here: "f n \<in> recent" "draw_tries nk recent t (f n) (Suc n) = Some (key', m)"
    by (auto simp: step [of n] split: if_splits)
  show ?case
  proof (cases t)
    case 0
    with here show ?thesis by simp
  next
    case (Suc t')
    with Suc.IH [OF here(2) Suc.prems(2)] have "\<forall>i<t. f (Suc n + i) \<in> recent" by simp
    then show ?thesis using here(1) by (auto simp: less_Suc_eq_0_disj)
  qed
qed simp

lemma redraw_moving: "keeps_moving clubs r \<Longrightarrow> \<exists>b m. redraw clubs r a n = Some (b, m)"
  using redraw_total [of n clubs r a] by (fastforce simp: keeps_moving_def)

lemma randomKey_total:
  "length (draw_clubs opts) < 2 \<or> keeps_moving (draw_clubs opts) r \<Longrightarrow> randomKey ix opts r n \<noteq> None"
  using redraw_moving [of "draw_clubs opts" r] by (fastforce simp: randomKey_def Let_def)

text \<open>
  C35. A draw comes to an end: with at least one club enabled a pair is produced, provided the generator
  does not return to one and the same club for ever when there are several, and with no club enabled
  the answer is that there is no pair.
\<close>
theorem draw_comes_to_an_end:
  assumes "length (draw_clubs opts) < 2 \<or> keeps_moving (draw_clubs opts) r"
  shows "if draw_clubs opts = [] then drawPair ix opts r n = Some (None, n)
    else \<exists>d m. drawPair ix opts r n = Some (Some d, m)"
proof (cases "draw_clubs opts = []")
  case False
  have "next_key ix opts r m \<noteq> None" for m
    using randomKey_total [OF assms, of ix m] by (simp add: next_key_def)
  then have "draw_tries (next_key ix opts r) (set (draw_recent opts)) MAX_TRIES 0 n \<noteq> None"
    by (rule draw_tries_total)
  with False show ?thesis by (auto simp: drawPair_def split: prod.splits)
qed (simp add: drawPair_def)

lemma alternating_keeps_moving: "keeps_moving [0, 1] (\<lambda>n. if even n then 0 else 1 / 2)"
proof -
  have "\<exists>k\<ge>n. pick [0, 1] (\<lambda>n. if even n then 0 else 1 / 2) k \<noteq> a" for a n :: nat
  proof (cases "a = 0")
    case True
    then show ?thesis by (intro exI [of _ "2 * n + 1"]) (simp add: pick_def rand_below_def)
  next
    case False
    then show ?thesis by (intro exI [of _ "2 * n"]) (simp add: pick_def rand_below_def)
  qed
  then show ?thesis by (simp add: keeps_moving_def)
qed

theorem draw_comes_to_an_end_witness:
  "\<exists>d m. drawPair \<lparr>ix_leagues = [], ix_clubs = [], ix_nations = [], ix_players = [], clubCount = 2, byEntity = [],
       clubsPerLeague = Map.empty\<rparr>
     \<lparr>draw_clubs = [0, 1], draw_pool = [], knownOnly = False, draw_nations = True, draw_recent = [1]\<rparr>
     (\<lambda>n. if even n then 0 else 1 / 2) 0 = Some (Some d, m)"
  using draw_comes_to_an_end [of "\<lparr>draw_clubs = [0, 1], draw_pool = [], knownOnly = False,
    draw_nations = True, draw_recent = [1]\<rparr>" "\<lambda>n. if even n then 0 else 1 / 2"
    "\<lparr>ix_leagues = [], ix_clubs = [], ix_nations = [], ix_players = [], clubCount = 2, byEntity = [],
       clubsPerLeague = Map.empty\<rparr>" 0]
    alternating_keeps_moving by simp

lemma randomKey_shape:
  assumes r: "unit_draws r" and k: "randomKey ix opts r n = Some (key, m)" and ne: "draw_clubs opts \<noteq> []"
  shows "\<exists>a\<in>set (draw_clubs opts).
    (\<exists>b\<in>set (draw_clubs opts). a \<noteq> b \<and> key = pairKey a b)
  \<or> ((draw_nations opts \<or> length (draw_clubs opts) < 2)
      \<and> (\<exists>j. key = pairKey a (nationEntity ix j) \<and> (ix_nations ix \<noteq> [] \<longrightarrow> j < length (ix_nations ix))))"
proof -
  let ?a = "pick (draw_clubs opts) r n"
  have a: "?a \<in> set (draw_clubs opts)" using pick_in [OF r ne] .
  have nat: "\<exists>j. pairKey ?a (nationEntity ix (rand_below r i (length (ix_nations ix)))) = pairKey ?a (nationEntity ix j)
      \<and> (ix_nations ix \<noteq> [] \<longrightarrow> j < length (ix_nations ix))" for i
    using rand_below_less [OF r, of "length (ix_nations ix)" i]
    by (intro exI [of _ "rand_below r i (length (ix_nations ix))"]) auto
  show ?thesis
  proof (cases "draw_nations opts \<and> ix_nations ix \<noteq> [] \<and> r (Suc n) < NATION_CHANCE
      \<or> length (draw_clubs opts) < 2")
    case True
    then obtain i where "key = pairKey ?a (nationEntity ix (rand_below r i (length (ix_nations ix))))"
      using k by (auto simp: randomKey_def Let_def split: if_splits)
    with True nat [of i] a show ?thesis by (intro bexI [OF _ a]) auto
  next
    case False
    then obtain i b m' where b: "redraw (draw_clubs opts) r ?a i = Some (b, m')" "key = pairKey ?a b"
      using k by (auto simp: randomKey_def Let_def split: if_splits)
    from redraw_Some [OF b(1)] obtain j where "b \<noteq> ?a" "b = pick (draw_clubs opts) r j" by auto
    then have "b \<in> set (draw_clubs opts)" "?a \<noteq> b" using pick_in [OF r ne] by auto
    with b(2) show ?thesis by (intro bexI [OF _ a]) auto
  qed
qed

lemma randomKey_no_nation:
  assumes r: "unit_draws r" and ne: "draw_clubs opts \<noteq> []" and no: "ix_nations ix = []"
    and k: "randomKey ix opts r n = Some (key, m)" and two: "2 \<le> length (draw_clubs opts)"
  shows "\<exists>a\<in>set (draw_clubs opts). \<exists>b\<in>set (draw_clubs opts). a \<noteq> b \<and> key = pairKey a b"
proof -
  let ?a = "pick (draw_clubs opts) r n"
  obtain b m' where b: "redraw (draw_clubs opts) r ?a (Suc n) = Some (b, m')" "key = pairKey ?a b"
    using k no two by (auto simp: randomKey_def Let_def split: if_splits)
  from redraw_Some [OF b(1)] obtain j where j: "b \<noteq> ?a" "b = pick (draw_clubs opts) r j" by auto
  have "?a \<in> set (draw_clubs opts)" "b \<in> set (draw_clubs opts)"
    unfolding j(2) using pick_in [OF r ne] by auto
  with j(1) b(2) show ?thesis by (intro bexI [of _ ?a] bexI [of _ b]) auto
qed

lemma drawPair_cases:
  assumes "drawPair ix opts r n = Some (Some d, m)"
  shows "\<exists>i. map_option fst (next_key ix opts r i) = Some (draw_key d)"
    "(draw_left d, draw_right d) = splitKey (draw_key d) \<or> (draw_right d, draw_left d) = splitKey (draw_key d)"
proof -
  obtain key m' where t: "draw_tries (next_key ix opts r) (set (draw_recent opts)) MAX_TRIES 0 n = Some (key, m')"
      "draw_key d = key" "(draw_left d, draw_right d) = splitKey key \<or> (draw_right d, draw_left d) = splitKey key"
    using assms by (auto simp: drawPair_def Let_def split: if_splits option.splits prod.splits)
  then show "\<exists>i. map_option fst (next_key ix opts r i) = Some (draw_key d)"
    using draw_tries_key [OF t(1)] by (simp add: MAX_TRIES_def)
  show "(draw_left d, draw_right d) = splitKey (draw_key d) \<or> (draw_right d, draw_left d) = splitKey (draw_key d)"
    using t by simp
qed

text \<open>
  A drawn pair can be played: its sides are two different entities of the dataset, at least one of
  them an enabled club; when only known pairs are asked for and there are any, it is one of those.
\<close>
theorem drawn_pair_is_playable:
  assumes w: "buildIndex w = Inr ix" and on: "enabledClubs ix leagues = Inr (draw_clubs opts)"
    and pool: "buildPairPool ix \<lparr>opt_leagues = leagues, famousOnly = fam, allowNations = draw_nations opts\<rparr>
        = Inr (draw_pool opts)"
    and nations: "ix_nations ix \<noteq> [] \<or> 2 \<le> length (draw_clubs opts)"
    and base: "length (wire_clubs w) + length (wire_nations w) \<le> PAIR_BASE"
    and r: "unit_draws r" and d: "drawPair ix opts r n = Some (Some d, m)"
  shows "draw_left d \<noteq> draw_right d
    \<and> draw_left d < length (byEntity ix) \<and> draw_right d < length (byEntity ix)
    \<and> (draw_left d \<in> set (draw_clubs opts) \<or> draw_right d \<in> set (draw_clubs opts))
    \<and> (knownOnly opts \<and> draw_pool opts \<noteq> [] \<longrightarrow> draw_key d \<in> set (draw_pool opts))"
proof -
  note ix = buildIndex_good [OF w]
  have len: "length (byEntity ix) = length (ix_clubs ix) + length (ix_nations ix)"
    "length (byEntity ix) \<le> PAIR_BASE" "clubCount ix = length (ix_clubs ix)"
    using ix base by (simp_all add: good_index_def)
  have ne: "draw_clubs opts \<noteq> []" using d by (auto simp: drawPair_def)
  obtain i where i: "map_option fst (next_key ix opts r i) = Some (draw_key d)"
    using drawPair_cases(1) [OF d] by blast
  have "\<exists>a b. splitKey (draw_key d) = (a, b) \<and> a \<noteq> b \<and> a < length (byEntity ix) \<and> b < length (byEntity ix)
      \<and> (a \<in> set (draw_clubs opts) \<or> b \<in> set (draw_clubs opts))
      \<and> (knownOnly opts \<and> draw_pool opts \<noteq> [] \<longrightarrow> draw_key d \<in> set (draw_pool opts))"
  proof (cases "knownOnly opts \<and> draw_pool opts \<noteq> []")
    case True
    then have k: "draw_key d \<in> set (draw_pool opts)" using i pick_in [OF r, of "draw_pool opts" i]
      by (auto simp: next_key_def)
    let ?po = "\<lparr>opt_leagues = leagues, famousOnly = fam, allowNations = draw_nations opts\<rparr>"
    have on': "enabledClubs ix (opt_leagues ?po) = Inr (draw_clubs opts)" using on by simp
    obtain p where p: "p \<in> set (ix_players ix)" "pool_key ix (draw_clubs opts) ?po p (draw_key d)"
      using pool_set [OF on'] pool k by auto
    show ?thesis using pool_key_shape [OF ix(1) on' len(2) p] k by force
  next
    case False
    then obtain m' where rk: "randomKey ix opts r i = Some (draw_key d, m')"
      using i by (auto simp: next_key_def split: if_splits)
    have "(\<exists>a\<in>set (draw_clubs opts). \<exists>b\<in>set (draw_clubs opts). a \<noteq> b \<and> draw_key d = pairKey a b)
      \<or> (\<exists>a\<in>set (draw_clubs opts). \<exists>j. draw_key d = pairKey a (nationEntity ix j)
          \<and> (ix_nations ix \<noteq> [] \<longrightarrow> j < length (ix_nations ix)))"
      using randomKey_shape [OF r rk ne] by blast
    then obtain a b where
      ab: "a \<in> set (draw_clubs opts)" "a \<noteq> b" "draw_key d = pairKey a b" "b < length (byEntity ix)"
    proof (elim bexE disjE conjE exE)
      fix a b
      assume "a \<in> set (draw_clubs opts)" "b \<in> set (draw_clubs opts)" "a \<noteq> b" "draw_key d = pairKey a b"
      then show ?thesis using enabled_below [OF on, of b] len by (intro that [of a b]) auto
    next
      fix a j
      assume a: "a \<in> set (draw_clubs opts)" and k: "draw_key d = pairKey a (nationEntity ix j)"
        and j: "ix_nations ix \<noteq> [] \<longrightarrow> j < length (ix_nations ix)"
      show ?thesis
      proof (cases "ix_nations ix = []")
        case True
        then obtain a b where "a \<in> set (draw_clubs opts)" "b \<in> set (draw_clubs opts)" "a \<noteq> b"
            "draw_key d = pairKey a b"
          using nations randomKey_no_nation [OF r ne True rk] by auto
        then show ?thesis using enabled_below [OF on, of b] len by (intro that [of a b]) auto
      next
        case False
        with j a enabled_below [OF on a] len k show ?thesis by (intro that [of a "nationEntity ix j"]) (auto simp: nationEntity_def)
      qed
    qed
    have "a < length (byEntity ix)" using enabled_below [OF on ab(1)] len by simp
    then have "splitKey (draw_key d) = (min a b, max a b)"
      using ab len by (simp add: pair_key_split)
    then show ?thesis using ab False \<open>a < length (byEntity ix)\<close> by (auto simp: min_def max_def)
  qed
  then show ?thesis using drawPair_cases(2) [OF d] by auto
qed

definition small_draw :: draw_options where
  "small_draw = \<lparr>draw_clubs = [0, 1], draw_pool = [1], knownOnly = True, draw_nations = True, draw_recent = []\<rparr>"

lemma draw_tries_same:
  "(\<And>i. nk i = Some (k, Suc i)) \<Longrightarrow> 0 < t \<Longrightarrow>
   draw_tries nk recent t key n = Some (k, if k \<in> recent then n + t else Suc n)"
proof (induction t arbitrary: key n)
  case (Suc t)
  have "draw_tries nk recent (Suc t) key n =
      (if k \<in> recent then draw_tries nk recent t k (Suc n) else Some (k, Suc n))"
    using Suc.prems(1) [of n] by simp
  with Suc.IH [OF Suc.prems(1), of k "Suc n"] show ?case by (cases "t = 0") auto
qed simp

lemma small_split: "splitKey (Suc 0) = (0, 1)"
  by (simp add: splitKey_def PAIR_BASE_def)

lemma small_draw_run:
  "drawPair ix (small_draw\<lparr>draw_recent := rs\<rparr>) (\<lambda>n. 0) 0
    = Some (Some \<lparr>draw_key = 1, draw_left = 1, draw_right = 0\<rparr>, if 1 \<in> set rs then 51 else 2)"
proof -
  have "next_key ix (small_draw\<lparr>draw_recent := rs\<rparr>) (\<lambda>n. 0) i = Some (1, Suc i)" for i
    by (simp add: next_key_def small_draw_def pick_def rand_below_def)
  from draw_tries_same [OF this, of MAX_TRIES "set rs" 0 0] show ?thesis
    by (simp add: drawPair_def MAX_TRIES_def small_split) (simp add: small_draw_def)
qed

theorem drawn_pair_is_playable_witness:
  "\<exists>ix d m. buildIndex small_wire = Inr ix \<and> drawPair ix small_draw (\<lambda>n. 0) 0 = Some (Some d, m)
     \<and> draw_left d \<noteq> draw_right d \<and> draw_key d \<in> set [1]"
proof -
  obtain ix where ix: "buildIndex small_wire = Inr ix" "enabledClubs ix {''eng''} = Inr [0, 1]"
    using small_wire_index by (elim exE conjE) simp
  have "buildPairPool ix \<lparr>opt_leagues = {''eng''}, famousOnly = True, allowNations = True\<rparr> = Inr [1]"
    using small_pool ix(1) by auto
  moreover have "length (ix_nations ix) = 1" using buildIndex_good(3) [OF ix(1)] by (simp add: small_wire_def)
  then have "ix_nations ix \<noteq> [] \<or> 2 \<le> length (draw_clubs small_draw)" by auto
  moreover have "length (wire_clubs small_wire) + length (wire_nations small_wire) \<le> PAIR_BASE"
    by (simp add: small_wire_def PAIR_BASE_def)
  moreover have "unit_draws (\<lambda>n. 0)" by (simp add: unit_draws_def)
  ultimately show ?thesis
    using drawn_pair_is_playable [OF ix(1), of "{''eng''}" small_draw True "\<lambda>n. 0" 0
        "\<lparr>draw_key = 1, draw_left = 1, draw_right = 0\<rparr>" 2] ix small_draw_run [of ix "[]"]
    by (auto simp: small_draw_def)
qed

text \<open>
  A pair from the recent window comes up again only when all fifty tries hit the window.
\<close>
theorem repeat_only_after_fifty_tries:
  assumes "knownOnly opts" "draw_pool opts \<noteq> []" "drawPair ix opts r n = Some (Some d, m)"
    and "draw_key d \<in> set (draw_recent opts)"
  shows "\<forall>i<50. pick (draw_pool opts) r (n + i) \<in> set (draw_recent opts)"
proof -
  obtain m' where
    t: "draw_tries (next_key ix opts r) (set (draw_recent opts)) MAX_TRIES 0 n = Some (draw_key d, m')"
    using assms(3) by (auto simp: drawPair_def Let_def split: if_splits option.splits prod.splits)
  have "next_key ix opts r i = Some (pick (draw_pool opts) r i, Suc i)" for i
    using assms(1,2) by (simp add: next_key_def)
  from draw_tries_recent [OF t assms(4) _ this] show ?thesis by (simp add: MAX_TRIES_def)
qed

theorem repeat_only_after_fifty_tries_witness:
  "\<exists>ix. buildIndex small_wire = Inr ix \<and> drawPair ix (small_draw\<lparr>draw_recent := [1]\<rparr>) (\<lambda>n. 0) 0
      = Some (Some \<lparr>draw_key = 1, draw_left = 1, draw_right = 0\<rparr>, 51)
   \<and> (\<forall>i<50. pick [1 :: nat] (\<lambda>n. 0) (0 + i) \<in> set [1])"
proof -
  obtain ix where ix: "buildIndex small_wire = Inr ix" using small_wire_index by (elim exE conjE) simp
  have d: "drawPair ix (small_draw\<lparr>draw_recent := [1]\<rparr>) (\<lambda>n. 0) 0
      = Some (Some \<lparr>draw_key = 1, draw_left = 1, draw_right = 0\<rparr>, 51)"
    using small_draw_run [of ix "[1]"] by simp
  from repeat_only_after_fifty_tries [OF _ _ d] have
    "\<forall>i<50. pick [1 :: nat] (\<lambda>n. 0) (0 + i) \<in> set [1]" by (simp add: small_draw_def)
  with d ix show ?thesis by blast
qed

text \<open>
  With a single club enabled and a dataset without nations the drawn opponent does not exist: the
  pair names an entity past the end of the index, and asking for its answers from that side raises.
\<close>
theorem lone_club_opponent_missing:
  assumes ix: "good_index ix" "ix_nations ix = []" "clubCount ix < PAIR_BASE"
    and c: "draw_clubs opts = [c]" "c < clubCount ix" and p: "draw_pool opts = []"
    and r: "unit_draws r" and d: "drawPair ix opts r n = Some (Some d, m)"
  shows "\<exists>missing \<in> {draw_left d, draw_right d}. missing = length (byEntity ix)
    \<and> matches loc ix missing c = Inl TypeError"
proof -
  have len: "length (byEntity ix) = clubCount ix" using ix by (simp add: good_index_def)
  obtain i where i: "map_option fst (next_key ix opts r i) = Some (draw_key d)"
    using drawPair_cases(1) [OF d] by blast
  have "draw_key d = pairKey c (clubCount ix)"
    using i ix c p pick_in [OF r, of "[c]"]
    by (auto simp: next_key_def randomKey_def Let_def nationEntity_def rand_below_def split: if_splits)
  then have "splitKey (draw_key d) = (c, clubCount ix)"
    using c ix by (simp add: pair_key_split)
  then have "draw_left d = clubCount ix \<or> draw_right d = clubCount ix"
    using drawPair_cases(2) [OF d] by auto
  moreover have "matches loc ix (clubCount ix) c = Inl TypeError"
    by (simp add: matches_def nth_opt_def len)
  ultimately show ?thesis using len by auto
qed

theorem lone_club_opponent_missing_witness:
  "\<exists>ix d m. drawPair ix \<lparr>draw_clubs = [0], draw_pool = [], knownOnly = True, draw_nations = True,
       draw_recent = []\<rparr> (\<lambda>n. 0) 0 = Some (Some d, m)
     \<and> (\<exists>missing \<in> {draw_left d, draw_right d}. matches (\<lambda>x y. 0) ix missing 0 = Inl TypeError)"
proof -
  let ?opts = "\<lparr>draw_clubs = [0], draw_pool = [], knownOnly = True, draw_nations = True, draw_recent = []\<rparr>"
  let ?ix = "\<lparr>ix_leagues = [], ix_clubs = [\<lparr>club_id = ''a'', club_name = ''A'', colour1 = '''',
      colour2 = '''', club_league = 0\<rparr>], ix_nations = [], ix_players = [], clubCount = 1,
      byEntity = [[]], clubsPerLeague = Map.empty\<rparr>"
  obtain d m where d: "drawPair ?ix ?opts (\<lambda>n. 0) 0 = Some (Some d, m)"
    using draw_comes_to_an_end [of ?opts "\<lambda>n. 0" ?ix 0] by auto
  have "good_index ?ix" "clubCount ?ix < PAIR_BASE" by (simp_all add: good_index_def PAIR_BASE_def)
  then show ?thesis
    using lone_club_opponent_missing [of ?ix ?opts 0 "\<lambda>n. 0" 0 d m "\<lambda>x y. 0"] d
    by (intro exI [of _ ?ix] exI [of _ d] exI [of _ m]) (auto simp: unit_draws_def)
qed

lemma pushRecent_window: "pushRecent recent key = last_n RECENT_WINDOW (recent @ [key])"
  by (auto simp: pushRecent_def Let_def last_n_def)

end
