(* ===== verification/Game_Store.thy ===== *)
theory Game_Store
  imports Game_Engine Json
begin

text \<open>
  One game of "Who Played For Both?":
  \<open>apps/frontend/src/app/features/games/played-for-both/played-for-both.store.ts\<close>
  (\<open>PlayedForBothStore\<close>), with the language of \<open>features/games/games-i18n.ts\<close> as far as the store
  uses it.

  The signals are the fields of a record.  \<open>Date.now()\<close> is an argument of what reads it, the interval of
  the round timer is the flag \<open>timer_on\<close>, and its callback the operation \<open>timer_tick\<close>.  The league set
  keeps its insertion order, as the saved selection does.  An operation that draws may raise or, with a
  generator that never leaves one club, never return.
\<close>

section \<open>Languages\<close>

datatype game_lang = En | Tr | De

definition player_default :: "game_lang \<Rightarrow> nat \<Rightarrow> string" where
  "player_default l n =
     (case l of En \<Rightarrow> ''Player '' | Tr \<Rightarrow> ''Oyuncu '' | De \<Rightarrow> ''Spieler '') @ nat_to_string n"

text \<open>The name shown when the language changes: a default in any language, or a blank, follows it.\<close>

definition keep_name :: "game_lang \<Rightarrow> nat \<Rightarrow> string \<Rightarrow> string" where
  "keep_name lang n v =
     (if v = '''' \<or> v \<in> (\<lambda>l. player_default l n) ` {En, Tr, De} then player_default lang n else v)"

section \<open>The state\<close>

datatype load_state = Loading | Ready | LoadError

record game =
  loadState :: load_state
  gindex :: "game_index option"
  gleagues :: "string list"
  known_only :: bool
  famous_only :: bool
  nations_allowed :: bool
  timerSeconds :: nat
  score :: "nat \<times> nat"
  round_no :: nat
  pair :: "draw option"
  drawId :: nat
  revealed :: bool
  needLeague :: bool
  recent :: "nat list"
  lang :: game_lang
  names :: "string \<times> string"
  timeLeft :: real
  timer_on :: bool
  timer_total :: real
  endsAt :: real
  rng_pos :: nat
  saved_leagues :: "string list option"

definition new_game :: "game_lang \<Rightarrow> game" where
  "new_game l =
     \<lparr>loadState = Loading, gindex = None, gleagues = [], known_only = True, famous_only = True,
      nations_allowed = True, timerSeconds = 30, score = (0, 0), round_no = 1, pair = None, drawId = 0,
      revealed = False, needLeague = False, recent = [], lang = l,
      names = (player_default l 1, player_default l 2), timeLeft = 1, timer_on = False,
      timer_total = 0, endsAt = 0, rng_pos = 0, saved_leagues = None\<rparr>"

definition started :: "game \<Rightarrow> bool" where "started g \<longleftrightarrow> pair g \<noteq> None"

definition timerVisible :: "game \<Rightarrow> bool" where
  "timerVisible g \<longleftrightarrow> timerSeconds g > 0 \<and> started g"

definition cur_clubs :: "game \<Rightarrow> js_error + nat list" where
  "cur_clubs g = (case gindex g of None \<Rightarrow> Inr [] | Some ix \<Rightarrow> enabledClubs ix (set (gleagues g)))"

definition cur_pool :: "game \<Rightarrow> js_error + nat list" where
  "cur_pool g =
     (case gindex g of
        None \<Rightarrow> Inr []
      | Some ix \<Rightarrow>
          if \<not> known_only g then Inr []
          else buildPairPool ix \<lparr>opt_leagues = set (gleagues g), famousOnly = famous_only g,
                                allowNations = nations_allowed g\<rparr>)"

section \<open>The timer\<close>

definition stopTimer :: "game \<Rightarrow> game" where
  "stopTimer g = g\<lparr>timer_on := False\<rparr>"

definition startTimer :: "real \<Rightarrow> game \<Rightarrow> game" where
  "startTimer now g0 =
     (let g = (stopTimer g0)\<lparr>timeLeft := 1\<rparr>;
          ms = real (timerSeconds g) * 1000
      in if timerSeconds g = 0 then g
         else g\<lparr>timer_total := ms, endsAt := now + ms, timer_on := True\<rparr>)"

definition reveal :: "game \<Rightarrow> game" where
  "reveal g = (if pair g = None then g else stopTimer (g\<lparr>revealed := True\<rparr>))"

text \<open>The callback of the interval; a cleared interval calls nothing.\<close>

definition timer_tick :: "real \<Rightarrow> game \<Rightarrow> game" where
  "timer_tick now g =
     (if \<not> timer_on g then g
      else (let left = max 0 (endsAt g - now);
                g1 = g\<lparr>timeLeft := left / timer_total g\<rparr>
            in if left = 0 then reveal g1 else g1))"

section \<open>Flow\<close>

definition next_pair :: "rng \<Rightarrow> real \<Rightarrow> game \<Rightarrow> (js_error + game) option" where
  "next_pair r now g =
     (case gindex g of
        None \<Rightarrow> Some (Inr g)
      | Some ix \<Rightarrow>
          (case (cur_clubs g, cur_pool g) of
             (Inr cs, Inr pl) \<Rightarrow>
               (case drawPair ix \<lparr>draw_clubs = cs, draw_pool = pl, knownOnly = known_only g,
                        draw_nations = nations_allowed g, draw_recent = recent g\<rparr> r (rng_pos g) of
                  None \<Rightarrow> None
                | Some (None, m) \<Rightarrow> Some (Inr (g\<lparr>needLeague := True, rng_pos := m\<rparr>))
                | Some (Some d, m) \<Rightarrow>
                    Some (Inr (startTimer now
                      (g\<lparr>recent := pushRecent (recent g) (draw_key d), needLeague := False,
                        revealed := False, pair := Some d, drawId := drawId g + 1, rng_pos := m\<rparr>))))
           | _ \<Rightarrow> Some (Inl TypeError)))"

definition primary :: "rng \<Rightarrow> real \<Rightarrow> game \<Rightarrow> (js_error + game) option" where
  "primary r now g = next_pair r now (if started g then g\<lparr>round_no := round_no g + 1\<rparr> else g)"

definition point :: "rng \<Rightarrow> real \<Rightarrow> bool \<Rightarrow> game \<Rightarrow> (js_error + game) option" where
  "point r now first g =
     (if pair g = None then Some (Inr g)
      else next_pair r now
        (g\<lparr>score := (if first then (fst (score g) + 1, snd (score g)) else (fst (score g), snd (score g) + 1)),
           round_no := round_no g + 1\<rparr>))"

definition reset :: "game \<Rightarrow> game" where
  "reset g = (stopTimer g)\<lparr>score := (0, 0), round_no := 1, pair := None, recent := [],
     revealed := False, needLeague := False, timeLeft := 1\<rparr>"

definition setName :: "bool \<Rightarrow> string \<Rightarrow> game \<Rightarrow> game" where
  "setName first v g = g\<lparr>names := (if first then (v, snd (names g)) else (fst (names g), v))\<rparr>"

definition setLang :: "game_lang \<Rightarrow> game \<Rightarrow> game" where
  "setLang l g = g\<lparr>lang := l, names := (keep_name l 1 (fst (names g)), keep_name l 2 (snd (names g)))\<rparr>"

definition buttonNames :: "game \<Rightarrow> string \<times> string" where
  "buttonNames g =
     (let or_default = (\<lambda>v n. if trim v = '''' then player_default (lang g) n else trim v)
      in (or_default (fst (names g)) 1, or_default (snd (names g)) 2))"

section \<open>Settings\<close>

definition setLeagues :: "string list \<Rightarrow> game \<Rightarrow> game" where
  "setLeagues ls g = g\<lparr>gleagues := ls, saved_leagues := Some ls\<rparr>"

definition toggleLeague :: "string \<Rightarrow> bool \<Rightarrow> game \<Rightarrow> game" where
  "toggleLeague code on g =
     setLeagues (if on then add_new (gleagues g) [code] else removeAll code (gleagues g)) g"

definition allLeagues :: "game \<Rightarrow> game" where
  "allLeagues g = setLeagues
     (add_new [] (case gindex g of None \<Rightarrow> [] | Some ix \<Rightarrow> map league_code (ix_leagues ix))) g"

definition top5 :: "game \<Rightarrow> game" where
  "top5 g = setLeagues TOP5 g"

definition clearLeagues :: "game \<Rightarrow> game" where
  "clearLeagues g = setLeagues [] g"

definition setTimer :: "real \<Rightarrow> nat \<Rightarrow> game \<Rightarrow> game" where
  "setTimer now secs g0 =
     (let g = g0\<lparr>timerSeconds := secs\<rparr>
      in if pair g \<noteq> None \<and> \<not> revealed g then startTimer now g else stopTimer g)"

text \<open>
  \<open>stored\<close> is the parsed selection from the browser's storage: \<open>None\<close> when reading or parsing it fails,
  \<open>Some JNull\<close> when there is none.
\<close>

definition storedLeagues :: "json option \<Rightarrow> game_index \<Rightarrow> string list" where
  "storedLeagues stored ix =
     (let every = map league_code (ix_leagues ix)
      in case Option.bind stored as_array of
           None \<Rightarrow> add_new [] every
         | Some xs \<Rightarrow>
             (let valid = filter (\<lambda>c. c \<in> set every) (List.map_filter as_string xs)
              in if valid \<noteq> [] then add_new [] valid else add_new [] every))"

text \<open>Loading: the start, and the end with the dataset or with a failed request.\<close>

definition load_start :: "game \<Rightarrow> game" where
  "load_start g = g\<lparr>loadState := Loading\<rparr>"

definition load_end :: "wire option \<Rightarrow> json option \<Rightarrow> game \<Rightarrow> game" where
  "load_end w stored g =
     (case w of
        None \<Rightarrow> g\<lparr>loadState := LoadError\<rparr>
      | Some dataset \<Rightarrow>
          (case buildIndex dataset of
             Inl _ \<Rightarrow> g\<lparr>loadState := LoadError\<rparr>
           | Inr ix \<Rightarrow> g\<lparr>gleagues := storedLeagues stored ix, gindex := Some ix, loadState := Ready\<rparr>))"

section \<open>Views\<close>

definition SHOWN_ANSWERS :: nat where "SHOWN_ANSWERS = 40"

record answer_view =
  shown :: "player list"
  more_answers :: nat
  no_answer :: bool

definition answer :: "(string \<Rightarrow> string \<Rightarrow> int) \<Rightarrow> game \<Rightarrow> js_error + answer_view option" where
  "answer loc g =
     (case (gindex g, pair g) of
        (Some ix, Some p) \<Rightarrow>
          if \<not> revealed g then Inr None
          else (case matches loc ix (draw_left p) (draw_right p) of
                  Inl e \<Rightarrow> Inl e
                | Inr ps \<Rightarrow> Inr (Some \<lparr>shown = take SHOWN_ANSWERS ps, more_answers = length ps - SHOWN_ANSWERS,
                                    no_answer = (ps = [])\<rparr>))
      | _ \<Rightarrow> Inr None)"

record league_option =
  option_code :: string
  option_country :: string
  option_name :: string
  option_clubs :: "nat option option"
  option_on :: bool

text \<open>\<open>country\<close> translates a country's name into the current language.\<close>

definition leagueOptions :: "(game_lang \<Rightarrow> string \<Rightarrow> string) \<Rightarrow> game \<Rightarrow> league_option list" where
  "leagueOptions country g =
     (case gindex g of
        None \<Rightarrow> []
      | Some ix \<Rightarrow>
          map (\<lambda>(i, l). \<lparr>option_code = league_code l, option_country = country (lang g) (league_country l),
                option_name = league_name l, option_clubs = clubsPerLeague ix i,
                option_on = (league_code l \<in> set (gleagues g))\<rparr>) (enumerate 0 (ix_leagues ix)))"

section \<open>The moves of a game\<close>

datatype game_event =
    GPrimary real | GReveal | GPoint real bool | GReset | GSetName bool string | GSetLang game_lang
  | GTimerTick real | GSetTimer real nat | GToggleLeague string bool | GAllLeagues | GTop5 | GClearLeagues
  | GKnownOnly bool | GFamousOnly bool | GNations bool | GLoadStart | GLoadEnd "wire option" "json option"

fun gexec :: "rng \<Rightarrow> game_event \<Rightarrow> game \<Rightarrow> (js_error + game) option" where
  "gexec r (GPrimary now) g = primary r now g"
| "gexec r GReveal g = Some (Inr (reveal g))"
| "gexec r (GPoint now first) g = point r now first g"
| "gexec r GReset g = Some (Inr (reset g))"
| "gexec r (GSetName first v) g = Some (Inr (setName first v g))"
| "gexec r (GSetLang l) g = Some (Inr (setLang l g))"
| "gexec r (GTimerTick now) g = Some (Inr (timer_tick now g))"
| "gexec r (GSetTimer now secs) g = Some (Inr (setTimer now secs g))"
| "gexec r (GToggleLeague code on) g = Some (Inr (toggleLeague code on g))"
| "gexec r GAllLeagues g = Some (Inr (allLeagues g))"
| "gexec r GTop5 g = Some (Inr (top5 g))"
| "gexec r GClearLeagues g = Some (Inr (clearLeagues g))"
| "gexec r (GKnownOnly b) g = Some (Inr (g\<lparr>known_only := b\<rparr>))"
| "gexec r (GFamousOnly b) g = Some (Inr (g\<lparr>famous_only := b\<rparr>))"
| "gexec r (GNations b) g = Some (Inr (g\<lparr>nations_allowed := b\<rparr>))"
| "gexec r GLoadStart g = Some (Inr (load_start g))"
| "gexec r (GLoadEnd w stored) g = Some (Inr (load_end w stored g))"

inductive game_reachable :: "rng \<Rightarrow> game \<Rightarrow> bool" for r where
  game_new: "game_reachable r (new_game l)"
| game_move: "game_reachable r g \<Longrightarrow> gexec r ev g = Some (Inr g') \<Longrightarrow> game_reachable r g'"

section \<open>What every game keeps\<close>

definition game_inv :: "game \<Rightarrow> bool" where
  "game_inv g \<longleftrightarrow>
     (timer_on g \<longrightarrow> pair g \<noteq> None \<and> \<not> revealed g \<and> timerSeconds g > 0
        \<and> timer_total g = real (timerSeconds g) * 1000)
   \<and> (revealed g \<longrightarrow> pair g \<noteq> None)
   \<and> fst (score g) + snd (score g) < round_no g
   \<and> length (recent g) \<le> RECENT_WINDOW
   \<and> (\<forall>d. pair g = Some d \<longrightarrow> recent g \<noteq> [] \<and> last (recent g) = draw_key d)
   \<and> 0 \<le> timeLeft g"

lemma game_inv_new: "game_inv (new_game l)"
  by (simp add: game_inv_def new_game_def)

lemma game_inv_settings [simp]:
  "game_inv (g\<lparr>names := ns\<rparr>) = game_inv g" "game_inv (g\<lparr>lang := l\<rparr>) = game_inv g"
  "game_inv (g\<lparr>gleagues := ls\<rparr>) = game_inv g" "game_inv (g\<lparr>saved_leagues := sl\<rparr>) = game_inv g"
  "game_inv (g\<lparr>known_only := b\<rparr>) = game_inv g" "game_inv (g\<lparr>famous_only := b\<rparr>) = game_inv g"
  "game_inv (g\<lparr>nations_allowed := b\<rparr>) = game_inv g" "game_inv (g\<lparr>loadState := st\<rparr>) = game_inv g"
  "game_inv (g\<lparr>gindex := ix\<rparr>) = game_inv g" "game_inv (g\<lparr>needLeague := b\<rparr>) = game_inv g"
  "game_inv (g\<lparr>rng_pos := n\<rparr>) = game_inv g" "game_inv (g\<lparr>drawId := n\<rparr>) = game_inv g"
  by (simp_all add: game_inv_def)

lemma game_inv_stop: "game_inv g \<Longrightarrow> game_inv (stopTimer g)"
  by (simp add: game_inv_def stopTimer_def)

lemma game_inv_start: "game_inv g \<Longrightarrow> pair g \<noteq> None \<Longrightarrow> \<not> revealed g \<Longrightarrow> game_inv (startTimer now g)"
  by (auto simp: game_inv_def startTimer_def stopTimer_def Let_def)

lemma game_inv_setTimer: "game_inv g \<Longrightarrow> game_inv (setTimer now secs g)"
  by (auto simp: game_inv_def setTimer_def startTimer_def stopTimer_def Let_def)

lemma game_inv_reveal: "game_inv g \<Longrightarrow> game_inv (reveal g)"
  by (auto simp: game_inv_def reveal_def stopTimer_def)

lemma game_inv_tick: "game_inv g \<Longrightarrow> game_inv (timer_tick now g)"
  by (auto simp: timer_tick_def Let_def intro!: game_inv_reveal) (auto simp: game_inv_def)

lemma game_inv_reset: "game_inv (reset g)"
  by (simp add: game_inv_def reset_def stopTimer_def)

lemma pushRecent_facts:
  "length (pushRecent rs k) \<le> RECENT_WINDOW" "pushRecent rs k \<noteq> []" "last (pushRecent rs k) = k"
  by (simp_all add: pushRecent_window last_n_def RECENT_WINDOW_def)

lemma game_inv_next:
  assumes "game_inv g" "next_pair r now g = Some (Inr g')"
  shows "game_inv g'"
proof (cases "gindex g")
  case None
  with assms show ?thesis by (simp add: next_pair_def)
next
  case (Some ix)
  then obtain cs pl where c: "cur_clubs g = Inr cs" "cur_pool g = Inr pl"
    using assms(2) by (auto simp: next_pair_def split: sum.splits)
  let ?draw = "drawPair ix \<lparr>draw_clubs = cs, draw_pool = pl, knownOnly = known_only g,
     draw_nations = nations_allowed g, draw_recent = recent g\<rparr> r (rng_pos g)"
  obtain od m where od: "?draw = Some (od, m)"
    using assms(2) Some c by (auto simp: next_pair_def split: option.splits)
  show ?thesis
  proof (cases od)
    case None
    then have "g' = g\<lparr>needLeague := True, rng_pos := m\<rparr>"
      using assms(2) Some c od by (simp add: next_pair_def)
    with assms(1) show ?thesis by simp
  next
    case (Some d)
    let ?h = "g\<lparr>recent := pushRecent (recent g) (draw_key d), needLeague := False,
                revealed := False, pair := Some d, drawId := drawId g + 1, rng_pos := m\<rparr>"
    have g': "g' = startTimer now ?h"
      using assms(2) \<open>gindex g = Some ix\<close> c od Some by (simp add: next_pair_def)
    have "game_inv (startTimer now ?h)"
      using assms(1) pushRecent_facts by (auto simp: game_inv_def startTimer_def stopTimer_def Let_def)
    then show ?thesis by (simp only: g')
  qed
qed

lemma game_inv_move:
  assumes "game_inv g" "gexec r ev g = Some (Inr g')"
  shows "game_inv g'"
  using assms
proof (cases ev)
  case (GPrimary now)
  have "game_inv (g\<lparr>round_no := round_no g + 1\<rparr>)" using assms(1) by (auto simp: game_inv_def)
  with GPrimary assms show ?thesis by (auto simp: primary_def intro: game_inv_next split: if_splits)
next
  case (GPoint now first)
  have "game_inv (g\<lparr>score := (if first then (fst (score g) + 1, snd (score g)) else (fst (score g), snd (score g) + 1)),
     round_no := round_no g + 1\<rparr>)" using assms(1) by (auto simp: game_inv_def)
  with GPoint assms show ?thesis by (auto simp: point_def intro: game_inv_next split: if_splits)
qed (auto simp: setName_def setLang_def toggleLeague_def allLeagues_def top5_def clearLeagues_def
      setLeagues_def load_start_def load_end_def Let_def
      intro: game_inv_reveal game_inv_reset game_inv_tick game_inv_setTimer
      split: option.splits sum.splits)

lemma reachable_inv: "game_reachable r g \<Longrightarrow> game_inv g"
proof (induction rule: game_reachable.induct)
  case (game_new l)
  show ?case by (rule game_inv_new)
next
  case (game_move g ev g')
  then show ?case by (blast intro: game_inv_move)
qed

text \<open>
  C29. In every game, whatever is pressed and whenever the timer ticks: the timer runs only while a pair is
  shown and not yet revealed, every point has cost a round, the shown pair is the newest of the at most
  sixty remembered ones.
\<close>
theorem game_rules_kept:
  assumes "game_reachable r g"
  shows "(timer_on g \<longrightarrow> pair g \<noteq> None \<and> \<not> revealed g \<and> timerSeconds g > 0)
    \<and> fst (score g) + snd (score g) < round_no g \<and> length (recent g) \<le> 60
    \<and> (\<forall>d. pair g = Some d \<longrightarrow> recent g \<noteq> [] \<and> last (recent g) = draw_key d)"
  using reachable_inv [OF assms] by (simp add: game_inv_def RECENT_WINDOW_def)

theorem game_rules_kept_witness:
  "let g = timer_tick 5 (setTimer 0 20 (new_game En)) in fst (score g) + snd (score g) < round_no g"
proof -
  have "game_reachable (\<lambda>n. 0) (setTimer 0 20 (new_game En))"
    by (rule game_move [OF game_new, of _ "GSetTimer 0 20"]) simp
  then have "game_reachable (\<lambda>n. 0) (timer_tick 5 (setTimer 0 20 (new_game En)))"
    by (rule game_move [of _ _ "GTimerTick 5"]) simp
  from game_rules_kept [OF this] show ?thesis by (simp add: Let_def)
qed

text \<open>
  The round timer reveals on time: while it runs, a tick before the deadline only updates the time
  left, and the first tick at or after it reveals the answer and stops the timer.
\<close>
theorem timer_reveals_on_time:
  assumes "game_reachable r g" "timer_on g"
  shows "(now < endsAt g \<longrightarrow> timer_tick now g = g\<lparr>timeLeft := (endsAt g - now) / timer_total g\<rparr>)
    \<and> (endsAt g \<le> now \<longrightarrow> revealed (timer_tick now g) \<and> \<not> timer_on (timer_tick now g)
        \<and> timeLeft (timer_tick now g) = 0)"
proof -
  have "pair g \<noteq> None" using reachable_inv [OF assms(1)] assms(2) by (simp add: game_inv_def)
  then show ?thesis using assms(2) by (auto simp: timer_tick_def Let_def reveal_def stopTimer_def max_def)
qed

text \<open>A game on the small dataset, for the witnesses.\<close>

definition small_game :: game where
  "small_game = load_end (Some small_wire) (Some JNull) (new_game En)"

lemma small_game_reachable: "game_reachable r small_game"
  unfolding small_game_def by (rule game_move [OF game_new, of _ "GLoadEnd (Some small_wire) (Some JNull)"]) simp

lemma small_game_facts:
  "\<exists>ix. gindex small_game = Some ix \<and> buildIndex small_wire = Inr ix \<and> gleagues small_game = [''eng'']"
proof -
  obtain ix where ix: "buildIndex small_wire = Inr ix"
    using small_wire_index by (elim exE conjE) simp
  then have "map league_code (ix_leagues ix) = [''eng'']"
    by (auto simp: buildIndex_def small_wire_def Let_def split: sum.splits)
  with ix show ?thesis by (simp add: small_game_def load_end_def storedLeagues_def Let_def add_new_def)
qed

lemma small_game_draw:
  "\<exists>g. primary (\<lambda>n. 0) 0 small_game = Some (Inr g) \<and> timer_on g \<and> endsAt g = 30000
     \<and> pair g = Some \<lparr>draw_key = 1, draw_left = 1, draw_right = 0\<rparr>"
proof -
  obtain ix where ix: "gindex small_game = Some ix" "buildIndex small_wire = Inr ix" "gleagues small_game = [''eng'']"
    using small_game_facts by blast
  have f: "pair small_game = None" "known_only small_game" "famous_only small_game" "nations_allowed small_game"
    "recent small_game = []" "rng_pos small_game = 0" "timerSeconds small_game = 30"
    by (simp_all add: small_game_def load_end_def new_game_def split: sum.split)
  have "enabledClubs ix {''eng''} = Inr [0, 1]"
    using small_wire_index ix(2) by (elim exE conjE) simp
  moreover have "buildPairPool ix \<lparr>opt_leagues = {''eng''}, famousOnly = True, allowNations = True\<rparr> = Inr [1]"
    using small_pool ix(2) by auto
  ultimately show ?thesis
    using ix f small_draw_run [of ix "[]"]
    by (simp add: primary_def started_def next_pair_def cur_clubs_def cur_pool_def small_draw_def
        startTimer_def stopTimer_def Let_def)
qed

theorem timer_reveals_on_time_witness:
  "\<exists>g. primary (\<lambda>n. 0) 0 small_game = Some (Inr g) \<and> revealed (timer_tick 30001 g)"
proof -
  obtain g where g: "primary (\<lambda>n. 0) 0 small_game = Some (Inr g)" "timer_on g" "endsAt g = 30000"
    using small_game_draw by blast
  have "game_reachable (\<lambda>n. 0) g"
    by (rule game_move [OF small_game_reachable, of _ "GPrimary 0"]) (simp add: g)
  from timer_reveals_on_time [OF this g(2), of 30001] g show ?thesis by auto
qed

text \<open>
  With every league switched off a point can be scored again and again on the pair on show: no new
  pair is drawn, yet the score and the round go up and the answer stays as it was.
\<close>
theorem point_without_leagues:
  assumes g: "gindex g = Some ix" "\<forall>c\<in>set (ix_clubs ix). club_league c < length (ix_leagues ix)"
    and off: "gleagues g = []" and p: "pair g = Some d"
  shows "\<exists>g'. point r now True g = Some (Inr g') \<and> pair g' = Some d \<and> revealed g' = revealed g
    \<and> score g' = (fst (score g) + 1, snd (score g)) \<and> round_no g' = round_no g + 1 \<and> needLeague g'"
proof -
  have "enabledClubs ix {} = Inr []"
  proof -
    have "mapE (\<lambda>(i, c). case nth_opt (ix_leagues ix) (int (club_league c)) of
          None \<Rightarrow> Inl TypeError
        | Some l \<Rightarrow> Inr (if league_code l \<in> {} then [i] else [])) (enumerate 0 (ix_clubs ix))
      = Inr (map (\<lambda>_. []) (enumerate 0 (ix_clubs ix)))"
      using g(2) by (intro mapE_Inr) (auto simp: nth_opt_def in_set_enumerate_eq)
    then show ?thesis by (simp add: enabledClubs_def)
  qed
  then show ?thesis
    using g(1) off p
    by (simp add: point_def next_pair_def cur_clubs_def cur_pool_def buildPairPool_def drawPair_def)
qed

theorem point_without_leagues_witness:
  "\<exists>g g'. point (\<lambda>n. 0) 7 True (clearLeagues g) = Some (Inr g') \<and> pair g' = pair g \<and> pair g \<noteq> None
     \<and> score g' = (1, 0)"
proof -
  obtain ix where ix: "gindex small_game = Some ix" "buildIndex small_wire = Inr ix"
    using small_game_facts by blast
  have "enabledClubs ix {''eng''} = Inr [0, 1]"
    using small_wire_index ix(2) by (elim exE conjE) simp
  note l = enabledClubs_set(2) [OF this]
  let ?g = "small_game\<lparr>pair := Some \<lparr>draw_key = 1, draw_left = 1, draw_right = 0\<rparr>\<rparr>"
  let ?h = "clearLeagues ?g"
  have "score small_game = (0, 0)"
    by (simp add: small_game_def load_end_def new_game_def split: sum.split)
  then have h: "gindex ?h = Some ix" "gleagues ?h = []" "score ?h = (0, 0)"
    "pair ?h = Some \<lparr>draw_key = 1, draw_left = 1, draw_right = 0\<rparr>"
    using ix by (simp_all add: clearLeagues_def setLeagues_def)
  from point_without_leagues [OF h(1) l h(2,4), of "\<lambda>n. 0" 7] h(3)
  obtain g' where "point (\<lambda>n. 0) 7 True ?h = Some (Inr g')" "pair g' = pair ?g" "score g' = (1, 0)"
    by auto
  then show ?thesis by (intro exI [of _ ?g] exI [of _ g']) simp
qed

section \<open>Saved settings and names\<close>

text \<open>
  A saved league selection is read with care: whatever is in the browser's storage, the leagues
  switched on afterwards are leagues of the dataset, none twice, and some are on when the dataset has any.
\<close>
theorem stored_leagues_valid:
  "set (storedLeagues stored ix) \<subseteq> league_code ` set (ix_leagues ix)
   \<and> distinct (storedLeagues stored ix) \<and> (ix_leagues ix \<noteq> [] \<longrightarrow> storedLeagues stored ix \<noteq> [])"
proof (intro conjI impI)
  show "set (storedLeagues stored ix) \<subseteq> league_code ` set (ix_leagues ix)"
    by (auto simp: storedLeagues_def Let_def split: option.split)
  show "distinct (storedLeagues stored ix)"
    by (auto simp: storedLeagues_def Let_def intro!: distinct_add_new split: option.split)
  assume "ix_leagues ix \<noteq> []"
  then have "set (storedLeagues stored ix) \<noteq> {}"
    by (auto simp: storedLeagues_def Let_def filter_empty_conv simp del: set_empty split: option.split)
  then show "storedLeagues stored ix \<noteq> []" by auto
qed

theorem stored_leagues_valid_witness:
  "storedLeagues (Some (JArr [JNum 3, JStr ''xyz'']))
     \<lparr>ix_leagues = [\<lparr>league_code = ''eng'', league_country = '''', league_name = ''''\<rparr>], ix_clubs = [],
      ix_nations = [], ix_players = [], clubCount = 0, byEntity = [], clubsPerLeague = Map.empty\<rparr> \<noteq> []"
  by (rule stored_leagues_valid [THEN conjunct2, THEN conjunct2, rule_format]) simp

lemma player_default_not_blank: "player_default l n \<noteq> ''''"
  by (simp add: player_default_def)

text \<open>
  Player names follow the language only while they are defaults: a typed name survives every change of
  language, a default becomes the default of the new language, and changing back restores it.
\<close>
theorem names_follow_language:
  assumes "v = '''' \<or> v \<in> range (\<lambda>l. player_default l n)"
  shows "keep_name l n v = player_default l n \<and> keep_name l' n (keep_name l n v) = player_default l' n
    \<and> (w \<noteq> '''' \<and> w \<notin> range (\<lambda>l. player_default l n) \<longrightarrow> keep_name l n w = w)"
proof -
  have u: "range (\<lambda>l. player_default l n) = (\<lambda>l. player_default l n) ` {En, Tr, De}"
  proof -
    have "l \<in> {En, Tr, De}" for l by (cases l) auto
    then show ?thesis by blast
  qed
  then show ?thesis using assms by (auto simp: keep_name_def)
qed

theorem names_follow_language_witness: "keep_name De 1 (player_default En 1) = player_default De 1"
  using names_follow_language [of "player_default En 1" 1 De] by blast

end
