(* ===== verification/Auth_Session.thy ===== *)
theory Auth_Session
  imports Json
begin

text \<open>
  Who is signed in and what they may do: \<open>apps/frontend/src/app/core/auth/session-store.ts\<close>,
  \<open>token-storage.ts\<close>, \<open>guards.ts\<close> and \<open>permissions.ts\<close>, the error values of
  \<open>core/api/api-error.ts\<close> and the wire types of \<open>core/models/identity.ts\<close>.

  Roles are a linear order, what the store's \<open>isAdmin\<close> and \<open>isEditor\<close> are thresholds of.  The grants of
  an editor are loaded in the background, so \<open>Permissions\<close> is a state with the lookups that are still
  under way.
\<close>

section \<open>Roles\<close>

datatype role = RUser | REditor | RAdmin

fun role_rank :: "role \<Rightarrow> nat" where
  "role_rank RUser = 0"
| "role_rank REditor = 1"
| "role_rank RAdmin = 2"

lemma role_rank_inj [simp]: "role_rank a = role_rank b \<longleftrightarrow> a = b"
  by (cases a; cases b) auto

instantiation role :: linorder
begin

definition less_eq_role :: "role \<Rightarrow> role \<Rightarrow> bool" where
  "less_eq_role a b \<longleftrightarrow> role_rank a \<le> role_rank b"

definition less_role :: "role \<Rightarrow> role \<Rightarrow> bool" where
  "less_role a b \<longleftrightarrow> role_rank a < role_rank b"

instance
  by standard (auto simp: less_eq_role_def less_role_def)

end

record user =
  user_id :: string
  username :: string
  email :: string
  user_role :: role
  created_at :: string

record token_pair =
  access_token :: string
  refresh_token :: "string option"
  expires_in :: nat

section \<open>Errors of the API\<close>

datatype api_code =
  Invalid | Unauthorized | Forbidden | NotFound | Conflict | RateLimited | Internal | Network

record api_error =
  err_code :: api_code
  err_message :: string
  err_status :: nat
  err_request :: "string option"

definition isRetryable :: "api_error \<Rightarrow> bool" where
  "isRetryable e \<longleftrightarrow> err_code e \<in> {Network, Internal, RateLimited}"

definition isUserFixable :: "api_error \<Rightarrow> bool" where
  "isUserFixable e \<longleftrightarrow> err_code e \<in> {Invalid, Conflict}"

definition code_names :: "(string \<times> api_code) list" where
  "code_names =
     [(''invalid'', Invalid), (''unauthorized'', Unauthorized), (''forbidden'', Forbidden),
      (''not_found'', NotFound), (''conflict'', Conflict), (''rate_limited'', RateLimited),
      (''internal'', Internal)]"

definition isApiErrorCode :: "json option \<Rightarrow> api_code option" where
  "isApiErrorCode v =
     (case v of Some (JStr s) \<Rightarrow> map_of code_names s | _ \<Rightarrow> None)"

definition codeForStatus :: "nat \<Rightarrow> api_code" where
  "codeForStatus s =
     (if s = 400 then Invalid else if s = 401 then Unauthorized else if s = 403 then Forbidden
      else if s = 404 then NotFound else if s = 409 then Conflict else if s = 429 then RateLimited
      else Internal)"

fun defaultMessageFor :: "api_code \<Rightarrow> string" where
  "defaultMessageFor Invalid = ''That request was not valid.''"
| "defaultMessageFor Unauthorized = ''Please sign in.''"
| "defaultMessageFor Forbidden = ''You do not have permission to do that.''"
| "defaultMessageFor NotFound = ''Not found.''"
| "defaultMessageFor Conflict = ''That conflicts with something that already exists.''"
| "defaultMessageFor RateLimited = ''Too many attempts. Wait a moment and try again.''"
| "defaultMessageFor Network = ''Could not reach the server.''"
| "defaultMessageFor Internal = ''Something went wrong. Please try again.''"

text \<open>
  The body of a failed response: no body reads as an empty object, and of another value the properties
  \<open>code\<close>, \<open>error\<close> and \<open>request_id\<close> are undefined.  Its strings are taken as they are; a value of another
  type in \<open>error\<close> or \<open>request_id\<close> is outside the contract of the wire type.
\<close>

definition body_field :: "json option \<Rightarrow> string \<Rightarrow> json option" where
  "body_field b k = (case b of Some (JObj m) \<Rightarrow> m k | _ \<Rightarrow> None)"

definition str_field :: "json option \<Rightarrow> string \<Rightarrow> string option" where
  "str_field b k = Option.bind (body_field b k) as_string"

definition fromHttp :: "nat \<Rightarrow> json option \<Rightarrow> api_error" where
  "fromHttp status body =
     (if status = 0
      then \<lparr>err_code = Network, err_message = ''Could not reach the server. Check your connection.'',
            err_status = 0, err_request = None\<rparr>
      else (let code = (case isApiErrorCode (body_field body ''code'') of
                          Some c \<Rightarrow> c | None \<Rightarrow> codeForStatus status)
            in \<lparr>err_code = code,
                err_message = (case str_field body ''error'' of Some m \<Rightarrow> m | None \<Rightarrow> defaultMessageFor code),
                err_status = status, err_request = str_field body ''request_id''\<rparr>))"

text \<open>A failure as the auth code sees it: already translated, or still a bare HTTP response.\<close>

datatype failure = ApiFailure api_error | HttpFailure nat | OtherFailure

fun isUnauthorized :: "failure \<Rightarrow> bool" where
  "isUnauthorized (ApiFailure e) = (err_code e = Unauthorized)"
| "isUnauthorized (HttpFailure s) = (s = 401)"
| "isUnauthorized OtherFailure = False"

section \<open>What the browser remembers\<close>

record storage =
  is_browser :: bool
  blocked :: bool
  signed_in_flag :: "string option"
  legacy :: "string option"

definition legacyToken :: "storage \<Rightarrow> string option" where
  "legacyToken st = (if \<not> is_browser st \<or> blocked st then None else legacy st)"

definition hasSession :: "storage \<Rightarrow> bool" where
  "hasSession st \<longleftrightarrow>
     (if \<not> is_browser st \<or> blocked st then None else signed_in_flag st) = Some ''1'' \<or> legacyToken st \<noteq> None"

definition markSignedIn :: "storage \<Rightarrow> storage" where
  "markSignedIn st =
     (if \<not> is_browser st \<or> blocked st then st else st\<lparr>signed_in_flag := Some ''1'', legacy := None\<rparr>)"

definition clear_storage :: "storage \<Rightarrow> storage" where
  "clear_storage st =
     (if \<not> is_browser st \<or> blocked st then st else st\<lparr>signed_in_flag := None, legacy := None\<rparr>)"

section \<open>The session\<close>

datatype status = Unknown | Anonymous | Authenticated

record session =
  token :: "string option"
  cur_user :: "user option"
  status :: status
  store :: storage

definition new_session :: "storage \<Rightarrow> session" where
  "new_session st = \<lparr>token = None, cur_user = None, status = Unknown, store = st\<rparr>"

definition isAuthenticated :: "session \<Rightarrow> bool" where
  "isAuthenticated s \<longleftrightarrow> status s = Authenticated"

definition role_of :: "session \<Rightarrow> role option" where
  "role_of s = map_option user_role (cur_user s)"

definition isAdmin :: "session \<Rightarrow> bool" where
  "isAdmin s \<longleftrightarrow> role_of s = Some RAdmin"

definition isEditor :: "session \<Rightarrow> bool" where
  "isEditor s \<longleftrightarrow> role_of s = Some RAdmin \<or> role_of s = Some REditor"

definition start :: "token_pair \<Rightarrow> user option \<Rightarrow> session \<Rightarrow> session" where
  "start t u s = s\<lparr>token := Some (access_token t), store := markSignedIn (store s),
     cur_user := (case u of Some x \<Rightarrow> Some x | None \<Rightarrow> cur_user s), status := Authenticated\<rparr>"

definition renew :: "token_pair \<Rightarrow> session \<Rightarrow> session" where
  "renew t s = s\<lparr>token := Some (access_token t), store := markSignedIn (store s), status := Authenticated\<rparr>"

definition setUser :: "user \<Rightarrow> session \<Rightarrow> session" where
  "setUser u s = s\<lparr>cur_user := Some u\<rparr>"

definition clear_session :: "session \<Rightarrow> session" where
  "clear_session s =
     s\<lparr>token := None, cur_user := None, store := clear_storage (store s), status := Anonymous\<rparr>"

definition markAnonymous :: "session \<Rightarrow> session" where
  "markAnonymous s = s\<lparr>status := Anonymous\<rparr>"

text \<open>
  The payload of a token, base64url turned into base64; \<open>decode\<close> is \<open>atob\<close> and \<open>JSON.parse\<close>, with \<open>None\<close>
  where one of them throws.
\<close>

definition claims :: "(string \<Rightarrow> json option) \<Rightarrow> session \<Rightarrow> json option" where
  "claims decode s =
     (case token s of
        None \<Rightarrow> None
      | Some t \<Rightarrow>
          if t = '''' then None
          else (case nth_opt (split_on (CHR ''.'') t) 1 of
                  None \<Rightarrow> None
                | Some payload \<Rightarrow>
                    if payload = '''' then None
                    else decode (map (\<lambda>c. if c = CHR ''-'' then CHR ''+''
                                          else if c = CHR ''_'' then CHR ''/'' else c) payload)))"

section \<open>Guards\<close>

datatype guard_result = Allow | ToLogin string | ToHome

definition authGuard :: "session \<Rightarrow> string \<Rightarrow> guard_result" where
  "authGuard s url = (if isAuthenticated s then Allow else ToLogin url)"

definition adminGuard :: "session \<Rightarrow> string \<Rightarrow> guard_result" where
  "adminGuard s url =
     (if \<not> isAuthenticated s then ToLogin url else if isAdmin s then Allow else ToHome)"

definition editorGuard :: "session \<Rightarrow> string \<Rightarrow> guard_result" where
  "editorGuard s url =
     (if \<not> isAuthenticated s then ToLogin url else if isEditor s then Allow else ToHome)"

section \<open>Permissions\<close>

record permissions =
  grants :: "string set"
  loaded :: bool
  lookups :: "string list"

definition new_permissions :: permissions where
  "new_permissions = \<lparr>grants = {}, loaded = False, lookups = []\<rparr>"

text \<open>The effect, which runs when the user of the session changes.\<close>

definition user_changed :: "user option \<Rightarrow> permissions \<Rightarrow> permissions" where
  "user_changed u p =
     (case u of
        None \<Rightarrow> p\<lparr>grants := {}, loaded := False\<rparr>
      | Some x \<Rightarrow>
          if user_role x = RAdmin then p\<lparr>loaded := True\<rparr>
          else p\<lparr>lookups := lookups p @ [user_id x]\<rparr>)"

text \<open>A lookup comes back: \<open>None\<close> when it failed.\<close>

definition lookup_done :: "string \<Rightarrow> string list option \<Rightarrow> permissions \<Rightarrow> permissions" where
  "lookup_done uid res p =
     p\<lparr>grants := (case res of Some ids \<Rightarrow> set ids | None \<Rightarrow> {}), loaded := True,
       lookups := remove1 uid (lookups p)\<rparr>"

definition ready :: "session \<Rightarrow> permissions \<Rightarrow> bool" where
  "ready s p \<longleftrightarrow> isAdmin s \<or> loaded p"

text \<open>A club that is \<open>null\<close>, \<open>undefined\<close> or the empty string is no club.\<close>

definition held :: "permissions \<Rightarrow> string option \<Rightarrow> bool" where
  "held p t \<longleftrightarrow> (\<exists>x. t = Some x \<and> x \<noteq> '''' \<and> x \<in> grants p)"

definition canEditTeam :: "session \<Rightarrow> permissions \<Rightarrow> string option \<Rightarrow> bool" where
  "canEditTeam s p t \<longleftrightarrow>
     (if isAdmin s then True else if \<not> isEditor s then False else held p t)"

definition canMoveBetween :: "session \<Rightarrow> permissions \<Rightarrow> string option \<Rightarrow> string option \<Rightarrow> bool" where
  "canMoveBetween s p src dst \<longleftrightarrow>
     (if isAdmin s then True else if \<not> isEditor s then False else held p src \<or> held p dst)"

definition canAdminister :: "session \<Rightarrow> bool" where
  "canAdminister s \<longleftrightarrow> isAdmin s"

section \<open>Properties\<close>

lemma isEditor_iff: "isEditor s \<longleftrightarrow> (\<exists>r. role_of s = Some r \<and> REditor \<le> r)"
proof -
  have "REditor \<le> r \<longleftrightarrow> r = REditor \<or> r = RAdmin" for r
    by (cases r) (auto simp: less_eq_role_def)
  then show ?thesis by (auto simp: isEditor_def)
qed

lemma isAdmin_iff: "isAdmin s \<longleftrightarrow> (\<exists>r. role_of s = Some r \<and> RAdmin \<le> r)"
proof -
  have "RAdmin \<le> r \<longleftrightarrow> r = RAdmin" for r by (cases r) (auto simp: less_eq_role_def)
  then show ?thesis by (auto simp: isAdmin_def)
qed



text \<open>
  A grant lookup is not tied to the user it was made for: when an editor signs out while their lookup
  is under way and another editor signs in, the late answer gives the second editor the clubs of the
  first, and the page takes them as loaded.
\<close>
theorem late_lookup_grants_other_user:
  assumes "user_role a = REditor" "user_role b = REditor" "c \<in> set ids" "c \<noteq> ''''" "cur_user s = Some b"
  shows "let p = lookup_done (user_id a) (Some ids)
                   (user_changed (Some b) (user_changed None (user_changed (Some a) new_permissions)))
    in canEditTeam s p (Some c) \<and> ready s p"
  using assms
  by (simp add: user_changed_def lookup_done_def new_permissions_def canEditTeam_def isAdmin_def isEditor_def
      role_of_def held_def ready_def)

text \<open>
  The guards agree with each other: whoever an administrator's page lets in is let in by an editor's,
  and by a member's; somebody not signed in is sent to sign in, to come back to where they were going,
  and nobody signed in ever is.
\<close>
theorem guards_agree:
  "(adminGuard s url = Allow \<longrightarrow> editorGuard s url = Allow) \<and> (editorGuard s url = Allow \<longrightarrow> authGuard s url = Allow)
   \<and> (\<forall>g\<in>{authGuard, editorGuard, adminGuard}. (g s url = ToLogin url) = (\<not> isAuthenticated s))"
  by (auto simp: adminGuard_def editorGuard_def authGuard_def isAdmin_def isEditor_def)


definition some_user :: "string \<Rightarrow> role \<Rightarrow> user" where
  "some_user i r = \<lparr>user_id = i, username = ''u'', email = ''e'', user_role = r, created_at = ''d''\<rparr>"

definition empty_storage :: storage where
  "empty_storage = \<lparr>is_browser = True, blocked = False, signed_in_flag = None, legacy = None\<rparr>"

theorem late_lookup_grants_other_user_witness:
  "\<exists>s p. cur_user s = Some (some_user ''b'' REditor) \<and> canEditTeam s p (Some ''club'')"
proof -
  let ?s = "(new_session empty_storage)\<lparr>cur_user := Some (some_user ''b'' REditor)\<rparr>"
  have "cur_user ?s = Some (some_user ''b'' REditor)" by simp
  with late_lookup_grants_other_user [of "some_user ''a'' REditor" "some_user ''b'' REditor" "''club''"
      "[''club'']" ?s] show ?thesis
    by (intro exI [of _ ?s]) (auto simp: some_user_def Let_def)
qed

theorem guards_agree_witness:
  "authGuard ((new_session empty_storage)\<lparr>cur_user := Some (some_user ''a'' RAdmin), status := Authenticated\<rparr>) ''/x'' = Allow"
proof -
  let ?s = "(new_session empty_storage)\<lparr>cur_user := Some (some_user ''a'' RAdmin), status := Authenticated\<rparr>"
  have "adminGuard ?s ''/x'' = Allow"
    by (simp add: adminGuard_def isAuthenticated_def isAdmin_def role_of_def some_user_def)
  with guards_agree [of ?s "''/x''"] show ?thesis by blast
qed

end
