(* ===== verification/Auth_Flow.thy ===== *)
theory Auth_Flow
  imports Auth_Session
begin

text \<open>
  Signing in and staying signed in: \<open>apps/frontend/src/app/core/auth/auth-facade.ts\<close> (\<open>AuthFacade\<close>),
  \<open>refreshSession\<close> and \<open>isUnauthorized\<close> of \<open>auth-repository.ts\<close>, and \<open>auth-interceptor.ts\<close>.

  The service is outside: its answers are arguments.  A sequence of calls (\<open>login\<close>, \<open>restore\<close>) is a
  function of the answers; the interceptor, where many requests are under way at once and share one
  refresh, is a transition system whose steps are the answers arriving in any order.
\<close>

section \<open>Sequences of calls\<close>

text \<open>\<open>refreshSession\<close>: the second answer is asked for only when the first was a refusal.\<close>

definition refreshSession :: "failure + token_pair \<Rightarrow> failure + token_pair \<Rightarrow> failure + token_pair" where
  "refreshSession first second =
     (case first of Inr t \<Rightarrow> Inr t | Inl e \<Rightarrow> if isUnauthorized e then second else Inl e)"

text \<open>What each attempt presents: the stored legacy token first, the cookie alone after that.\<close>

definition presented :: "string option \<Rightarrow> failure + token_pair \<Rightarrow> string option list" where
  "presented legacy_token first =
     (let body = (\<lambda>t. if t = Some '''' then None else t)
      in case first of
           Inl e \<Rightarrow> if isUnauthorized e then [body legacy_token, None] else [body legacy_token]
         | Inr _ \<Rightarrow> [body legacy_token])"

definition loadProfile :: "failure + user \<Rightarrow> session \<Rightarrow> session" where
  "loadProfile me s =
     (case me of
        Inr u \<Rightarrow> setUser u s
      | Inl (ApiFailure e) \<Rightarrow> if err_code e = Unauthorized then clear_session s else s
      | Inl _ \<Rightarrow> s)"

definition login :: "failure + token_pair \<Rightarrow> failure + user \<Rightarrow> session \<Rightarrow> session \<times> failure option" where
  "login tokens me s =
     (case tokens of Inl e \<Rightarrow> (s, Some e) | Inr t \<Rightarrow> (loadProfile me (start t None s), None))"

text \<open>\<open>completeOAuth\<close> is the same sequence with the code exchange in place of the password.\<close>

definition completeOAuth :: "failure + token_pair \<Rightarrow> failure + user \<Rightarrow> session \<Rightarrow> session \<times> failure option" where
  "completeOAuth exchanged me s =
     (case exchanged of Inl e \<Rightarrow> (s, Some e) | Inr t \<Rightarrow> (loadProfile me (start t None s), None))"

text \<open>The result of \<open>register\<close> is whether a confirmation is outstanding, or the failure.\<close>

definition register :: "failure + bool \<Rightarrow> failure + token_pair \<Rightarrow> failure + user \<Rightarrow> session
    \<Rightarrow> session \<times> (failure + bool)" where
  "register registered tokens me s =
     (case registered of
        Inl e \<Rightarrow> (s, Inl e)
      | Inr True \<Rightarrow> (s, Inr True)
      | Inr False \<Rightarrow>
          (case login tokens me s of (s', Some e) \<Rightarrow> (s', Inl e) | (s', None) \<Rightarrow> (s', Inr False)))"

text \<open>Whether \<open>logout\<close> makes the request; its outcome makes no difference.\<close>

definition logout_calls :: "session \<Rightarrow> bool" where
  "logout_calls s \<longleftrightarrow> hasSession (store s) \<or> isAuthenticated s"

definition logout :: "failure option \<Rightarrow> session \<Rightarrow> session" where
  "logout answer s = clear_session s"

definition restore :: "failure + token_pair \<Rightarrow> failure + token_pair \<Rightarrow> failure + user \<Rightarrow> session \<Rightarrow> session" where
  "restore first second me s =
     (if \<not> hasSession (store s) then markAnonymous s
      else case refreshSession first second of
             Inr t \<Rightarrow> loadProfile me (renew t s)
           | Inl e \<Rightarrow> if isUnauthorized e then clear_session s else markAnonymous s)"

section \<open>The interceptor\<close>

text \<open>
  A request is under way with the token it carried, waiting for the refresh in flight, sent again with the
  token a refresh produced, or settled.  A request of the authentication flow itself passes through.
\<close>

datatype phase =
  Sent "string option" | Waiting | Retried string | Succeeded | Failed failure

datatype refresh_attempt = FirstAttempt | SecondAttempt

record net =
  sess :: session
  requests :: "nat \<Rightarrow> phase option"
  in_flight :: "refresh_attempt option"
  refreshes :: nat

definition new_net :: "session \<Rightarrow> net" where
  "new_net s = \<lparr>sess = s, requests = Map.empty, in_flight = None, refreshes = 0\<rparr>"

text \<open>A token that is the empty string is not sent.\<close>

definition bearer :: "string option \<Rightarrow> string option" where
  "bearer t = (if t = Some '''' then None else t)"

definition send :: "nat \<Rightarrow> net \<Rightarrow> net" where
  "send i n = n\<lparr>requests := (requests n)(i \<mapsto> Sent (bearer (token (sess n))))\<rparr>"

text \<open>An answer to request \<open>i\<close>: \<open>None\<close> is a success.\<close>

definition answered :: "nat \<Rightarrow> failure option \<Rightarrow> net \<Rightarrow> net" where
  "answered i res n =
     (case (requests n i, res) of
        (Some (Sent t), None) \<Rightarrow> n\<lparr>requests := (requests n)(i \<mapsto> Succeeded)\<rparr>
      | (Some (Sent t), Some e) \<Rightarrow>
          if \<not> isUnauthorized e then n\<lparr>requests := (requests n)(i \<mapsto> Failed e)\<rparr>
          else if \<not> hasSession (store (sess n))
          then n\<lparr>sess := clear_session (sess n), requests := (requests n)(i \<mapsto> Failed e)\<rparr>
          else (let n' = n\<lparr>requests := (requests n)(i \<mapsto> Waiting)\<rparr>
                in if in_flight n = None
                   then n'\<lparr>in_flight := Some FirstAttempt, refreshes := refreshes n + 1\<rparr> else n')
      | (Some (Retried t), None) \<Rightarrow> n\<lparr>requests := (requests n)(i \<mapsto> Succeeded)\<rparr>
      | (Some (Retried t), Some e) \<Rightarrow>
          n\<lparr>sess := (if isUnauthorized e then clear_session (sess n) else sess n),
            requests := (requests n)(i \<mapsto> Failed e)\<rparr>
      | _ \<Rightarrow> n)"

definition settle_waiting :: "phase \<Rightarrow> (nat \<Rightarrow> phase option) \<Rightarrow> (nat \<Rightarrow> phase option)" where
  "settle_waiting ph m = (\<lambda>i. if m i = Some Waiting then Some ph else m i)"

text \<open>
  An answer to the refresh in flight.  A first refusal is tried once more; otherwise the slot is cleared,
  and everyone who waited goes on with the outcome.
\<close>

definition refreshed :: "failure + token_pair \<Rightarrow> net \<Rightarrow> net" where
  "refreshed res n =
     (case in_flight n of
        None \<Rightarrow> n
      | Some att \<Rightarrow>
          (case res of
             Inr t \<Rightarrow> n\<lparr>sess := renew t (sess n), in_flight := None,
                        requests := settle_waiting (Retried (access_token t)) (requests n)\<rparr>
           | Inl e \<Rightarrow>
               if isUnauthorized e \<and> att = FirstAttempt then n\<lparr>in_flight := Some SecondAttempt\<rparr>
               else n\<lparr>sess := (if isUnauthorized e then clear_session (sess n) else sess n),
                      in_flight := None, requests := settle_waiting (Failed e) (requests n)\<rparr>))"

datatype net_event =
  Send nat | Answered nat "failure option" | Refreshed "failure + token_pair" | SignOut

inductive net_step :: "net \<Rightarrow> net_event \<Rightarrow> net \<Rightarrow> bool" where
  step_send: "requests n i = None \<Longrightarrow> net_step n (Send i) (send i n)"
| step_answer: "requests n i = Some ph \<Longrightarrow> ph = Sent t \<or> ph = Retried t' \<Longrightarrow>
    net_step n (Answered i res) (answered i res n)"
| step_refresh: "in_flight n \<noteq> None \<Longrightarrow> net_step n (Refreshed res) (refreshed res n)"
| step_sign_out: "net_step n SignOut (n\<lparr>sess := clear_session (sess n)\<rparr>)"

inductive_cases net_stepE: "net_step n ev n'"

inductive net_run :: "net \<Rightarrow> net_event list \<Rightarrow> net \<Rightarrow> bool" where
  run_Nil: "net_run n [] n"
| run_Cons: "net_step n ev n' \<Longrightarrow> net_run n' evs n'' \<Longrightarrow> net_run n (ev # evs) n''"

inductive_simps net_run_simps [simp]: "net_run n [] n'" "net_run n (ev # evs) n'"

section \<open>One refresh at a time\<close>

definition refresh_slot_ok :: "net \<Rightarrow> bool" where
  "refresh_slot_ok n \<longleftrightarrow> (in_flight n = None \<longrightarrow> (\<forall>i. requests n i \<noteq> Some Waiting))
     \<and> (status (sess n) = Authenticated \<longrightarrow> token (sess n) \<noteq> None)"

lemma net_step_slot: "net_step n ev n' \<Longrightarrow> refresh_slot_ok n \<Longrightarrow> refresh_slot_ok n'"
  by (auto elim!: net_stepE simp: refresh_slot_ok_def send_def answered_def refreshed_def settle_waiting_def
      clear_session_def renew_def Let_def
      split: option.splits phase.splits sum.splits if_splits)

lemma net_run_slot: "net_run n evs n' \<Longrightarrow> refresh_slot_ok n \<Longrightarrow> refresh_slot_ok n'"
  by (induction rule: net_run.induct) (auto dest: net_step_slot)

definition all_refused :: "(nat \<times> failure) list \<Rightarrow> net \<Rightarrow> net" where
  "all_refused rs n = foldl (\<lambda>n (i, e). answered i (Some e) n) n rs"

lemma answered_refused:
  assumes "requests n i = Some (Sent t)" "isUnauthorized e" "hasSession (store (sess n))"
  shows "answered i (Some e) n = n\<lparr>requests := (requests n)(i \<mapsto> Waiting),
      in_flight := (if in_flight n = None then Some FirstAttempt else in_flight n),
      refreshes := (if in_flight n = None then refreshes n + 1 else refreshes n)\<rparr>"
  using assms by (simp add: answered_def Let_def)

lemma all_refused_waiting:
  assumes "in_flight n \<noteq> None" "hasSession (store (sess n))" "distinct (map fst rs)"
    and "\<forall>(i, e)\<in>set rs. (\<exists>t. requests n i = Some (Sent t)) \<and> isUnauthorized e"
  shows "all_refused rs n = n\<lparr>requests := (\<lambda>i. if i \<in> fst ` set rs then Some Waiting else requests n i)\<rparr>"
  using assms
proof (induction rs arbitrary: n)
  case Nil
  then show ?case by (simp add: all_refused_def)
next
  case (Cons r rs)
  obtain i e where r: "r = (i, e)" by (cases r)
  with Cons.prems obtain t where t: "requests n i = Some (Sent t)" "isUnauthorized e" by auto
  let ?n = "n\<lparr>requests := (requests n)(i \<mapsto> Waiting)\<rparr>"
  have a: "answered i (Some e) n = ?n"
    using answered_refused [OF t Cons.prems(2)] Cons.prems(1) by auto
  have "\<forall>(j, e)\<in>set rs. (\<exists>t. requests ?n j = Some (Sent t)) \<and> isUnauthorized e"
    using Cons.prems(3,4) r by (force simp: image_iff)
  with Cons.IH [of ?n] Cons.prems have
    "all_refused rs ?n = ?n\<lparr>requests := (\<lambda>j. if j \<in> fst ` set rs then Some Waiting else requests ?n j)\<rparr>"
    by simp
  moreover have "all_refused (r # rs) n = all_refused rs ?n" by (simp add: all_refused_def r a)
  ultimately show ?case
    by (simp add: r fun_eq_iff)
qed

text \<open>
  C11. However many requests are refused at once, one refresh is made for all of them: the first refusal
  starts it, the others wait for it, and when it succeeds every one of them is sent again with the new
  token and the slot is free for a later refresh.
\<close>
theorem one_refresh_for_all:
  assumes "in_flight n = None" "hasSession (store (sess n))" "rs \<noteq> []" "distinct (map fst rs)"
    and rs: "\<forall>(i, e)\<in>set rs. (\<exists>t. requests n i = Some (Sent t)) \<and> isUnauthorized e"
  shows "refreshes (all_refused rs n) = refreshes n + 1
    \<and> in_flight (all_refused rs n) = Some FirstAttempt
    \<and> (\<forall>i\<in>fst ` set rs. requests (refreshed (Inr t) (all_refused rs n)) i = Some (Retried (access_token t)))
    \<and> in_flight (refreshed (Inr t) (all_refused rs n)) = None
    \<and> token (sess (refreshed (Inr t) (all_refused rs n))) = Some (access_token t)"
proof -
  obtain i e rs' where r: "rs = (i, e) # rs'" using assms(3) by (cases rs) auto
  with rs obtain t0 where t0: "requests n i = Some (Sent t0)" "isUnauthorized e" by auto
  let ?n = "n\<lparr>requests := (requests n)(i \<mapsto> Waiting), in_flight := Some FirstAttempt,
              refreshes := refreshes n + 1\<rparr>"
  have a: "answered i (Some e) n = ?n" using answered_refused [OF t0 assms(2)] assms(1) by simp
  have "\<forall>(j, e)\<in>set rs'. (\<exists>t. requests ?n j = Some (Sent t)) \<and> isUnauthorized e"
    using assms(4) rs r by (force simp: image_iff)
  from all_refused_waiting [OF _ _ _ this] assms(2,4) r
  have "all_refused rs' ?n = ?n\<lparr>requests := (\<lambda>j. if j \<in> fst ` set rs' then Some Waiting else requests ?n j)\<rparr>"
    by simp
  moreover have "all_refused rs n = all_refused rs' ?n" by (simp add: all_refused_def r a)
  ultimately show ?thesis by (auto simp: refreshed_def settle_waiting_def renew_def r)
qed

definition signed_in :: session where
  "signed_in = start \<lparr>access_token = ''t1'', refresh_token = None, expires_in = 900\<rparr>
     (Some (some_user ''a'' REditor)) (new_session empty_storage)"

lemma signed_in_facts:
  "hasSession (store signed_in)" "token signed_in = Some ''t1''" "status signed_in = Authenticated"
  "cur_user signed_in = Some (some_user ''a'' REditor)"
  by (simp_all add: signed_in_def start_def new_session_def markSignedIn_def hasSession_def empty_storage_def)

theorem one_refresh_for_all_witness:
  "refreshes (all_refused [(0, HttpFailure 401), (1, HttpFailure 401)] (send 1 (send 0 (new_net signed_in)))) = 1"
  using one_refresh_for_all [of "send 1 (send 0 (new_net signed_in))" "[(0, HttpFailure 401), (1, HttpFailure 401)]"]
  by (simp add: send_def new_net_def signed_in_facts)

text \<open>
  C12. Nobody waits in vain: whatever order requests, answers, refreshes and sign-outs come in, a request
  waits only while a refresh is in flight, every outcome but a first refusal lets all who wait go on, and a
  session that counts as signed in has a token.
\<close>
theorem nobody_waits_in_vain:
  assumes "net_run (new_net s) evs n" "status s = Authenticated \<longrightarrow> token s \<noteq> None"
  shows "(\<forall>i. requests n i = Some Waiting \<longrightarrow> in_flight n \<noteq> None)
    \<and> (\<forall>i res. in_flight n = Some SecondAttempt \<or> (\<forall>e. res = Inl e \<longrightarrow> \<not> isUnauthorized e) \<longrightarrow>
        requests (refreshed res n) i \<noteq> Some Waiting)
    \<and> (status (sess n) = Authenticated \<longrightarrow> token (sess n) \<noteq> None)"
proof -
  have "refresh_slot_ok (new_net s)" using assms(2) by (simp add: refresh_slot_ok_def new_net_def)
  from net_run_slot [OF assms(1) this] have n: "refresh_slot_ok n" .
  then show ?thesis
    by (auto simp: refresh_slot_ok_def refreshed_def settle_waiting_def split: option.splits sum.splits)
qed

theorem nobody_waits_in_vain_witness:
  "\<exists>n. net_run (new_net signed_in) [Send 0, Answered 0 (Some (HttpFailure 401))] n
     \<and> requests n 0 = Some Waiting \<and> in_flight n \<noteq> None"
proof -
  let ?n = "answered 0 (Some (HttpFailure 401)) (send 0 (new_net signed_in))"
  have r: "net_run (new_net signed_in) [Send 0, Answered 0 (Some (HttpFailure 401))] ?n"
  proof -
    have "net_step (new_net signed_in) (Send 0) (send 0 (new_net signed_in))"
      by (rule step_send) (simp add: new_net_def)
    moreover have "net_step (send 0 (new_net signed_in)) (Answered 0 (Some (HttpFailure 401))) ?n"
      by (rule step_answer [of _ _ "Sent (bearer (token signed_in))"]) (simp_all add: send_def new_net_def)
    ultimately show ?thesis by auto
  qed
  have "requests ?n 0 = Some Waiting"
    by (simp add: answered_def send_def new_net_def signed_in_facts Let_def)
  with r nobody_waits_in_vain [OF r] show ?thesis by (auto simp: signed_in_facts)
qed

section \<open>How a session ends, and how it does not\<close>

text \<open>
  A request that is refused again after a successful refresh signs the user out, whatever the refusal
  was about: the interceptor takes the second refusal for the end of the session.
\<close>
theorem second_refusal_signs_out:
  assumes "requests n i = Some (Sent t)" "in_flight n = None" "hasSession (store (sess n))"
    and "isUnauthorized e" "isUnauthorized e'"
  shows "let m = answered i (Some e') (refreshed (Inr p) (answered i (Some e) n)) in
    requests m i = Some (Failed e') \<and> status (sess m) = Anonymous \<and> cur_user (sess m) = None \<and> token (sess m) = None"
  using assms
  by (simp add: answered_def refreshed_def settle_waiting_def clear_session_def Let_def)

theorem second_refusal_signs_out_witness:
  "let wrong_password = HttpFailure 401;
       m = answered 0 (Some wrong_password) (refreshed (Inr \<lparr>access_token = ''t2'', refresh_token = None, expires_in = 900\<rparr>)
             (answered 0 (Some wrong_password) (send 0 (new_net signed_in))))
   in status (sess m) = Anonymous"
  using second_refusal_signs_out [of "send 0 (new_net signed_in)" 0 "Some ''t1''" "HttpFailure 401" "HttpFailure 401"
      "\<lparr>access_token = ''t2'', refresh_token = None, expires_in = 900\<rparr>"]
  by (simp add: send_def new_net_def signed_in_facts bearer_def Let_def)

text \<open>
  Signing out while a refresh is under way does not last: the answer to the refresh that arrives
  afterwards signs the browser in again, with a token and the stored flag, but no user.
\<close>
theorem refresh_undoes_sign_out:
  assumes "in_flight n = Some att"
  shows "\<exists>m. net_run n [SignOut, Refreshed (Inr t)] m
    \<and> status (sess m) = Authenticated \<and> token (sess m) = Some (access_token t) \<and> cur_user (sess m) = None
    \<and> (is_browser (store (sess n)) \<and> \<not> blocked (store (sess n)) \<longrightarrow> hasSession (store (sess m)))"
proof -
  let ?out = "n\<lparr>sess := clear_session (sess n)\<rparr>"
  have "net_step n SignOut ?out" by (rule step_sign_out)
  moreover have "net_step ?out (Refreshed (Inr t)) (refreshed (Inr t) ?out)"
    by (rule step_refresh) (simp add: assms)
  ultimately have "net_run n [SignOut, Refreshed (Inr t)] (refreshed (Inr t) ?out)" by auto
  moreover have "status (sess (refreshed (Inr t) ?out)) = Authenticated
    \<and> token (sess (refreshed (Inr t) ?out)) = Some (access_token t)
    \<and> cur_user (sess (refreshed (Inr t) ?out)) = None
    \<and> (is_browser (store (sess n)) \<and> \<not> blocked (store (sess n)) \<longrightarrow>
        hasSession (store (sess (refreshed (Inr t) ?out))))"
    by (simp add: assms refreshed_def renew_def clear_session_def clear_storage_def markSignedIn_def hasSession_def)
  ultimately show ?thesis by blast
qed

theorem refresh_undoes_sign_out_witness:
  "\<exists>m. net_run (answered 0 (Some (HttpFailure 401)) (send 0 (new_net signed_in)))
       [SignOut, Refreshed (Inr \<lparr>access_token = ''t2'', refresh_token = None, expires_in = 900\<rparr>)] m
     \<and> status (sess m) = Authenticated"
proof -
  have "in_flight (answered 0 (Some (HttpFailure 401)) (send 0 (new_net signed_in))) = Some FirstAttempt"
    by (simp add: answered_def send_def new_net_def signed_in_facts Let_def)
  from refresh_undoes_sign_out [OF this] show ?thesis by blast
qed

text \<open>
  Restoring on page load always comes to a decision and forgets a stored session only when it was
  refused: without a stored session or after a failure other than a refusal the page is signed out and
  the browser still remembers what it did, after a refusal it forgets, and after a success it is signed in
  unless the profile is refused.
\<close>
theorem restore_decides:
  assumes "status s = Unknown"
  shows "let s' = restore first second me s; res = refreshSession first second in
    status s' \<noteq> Unknown
    \<and> (\<not> hasSession (store s) \<or> (\<exists>e. res = Inl e \<and> \<not> isUnauthorized e) \<longrightarrow> s' = s\<lparr>status := Anonymous\<rparr>)
    \<and> (hasSession (store s) \<and> (\<exists>e. res = Inl e \<and> isUnauthorized e) \<longrightarrow> \<not> hasSession (store s') \<and> status s' = Anonymous)
    \<and> (hasSession (store s) \<and> (\<exists>t u. res = Inr t \<and> me = Inr u) \<longrightarrow>
        status s' = Authenticated \<and> token s' = Some (access_token (projr res)) \<and> cur_user s' = Some (projr me))"
  using assms
  by (auto simp: restore_def Let_def markAnonymous_def clear_session_def loadProfile_def setUser_def renew_def
      hasSession_def legacyToken_def clear_storage_def
      split: sum.splits failure.splits)

theorem restore_decides_witness:
  "restore (Inl (HttpFailure 503)) (Inl OtherFailure) (Inl OtherFailure)
     (new_session (store signed_in)) = (new_session (store signed_in))\<lparr>status := Anonymous\<rparr>"
  using restore_decides [of "new_session (store signed_in)" "Inl (HttpFailure 503)" "Inl OtherFailure" "Inl OtherFailure"]
  by (simp add: new_session_def refreshSession_def Let_def)

text \<open>
  Signing in over another session can keep the other user: when the tokens arrive but the profile fails
  to load for a reason other than a refusal, the session is the new one and the user shown, with their
  role, is the previous one.
\<close>
theorem sign_in_keeps_previous_user:
  assumes "cur_user s = Some old" "\<not> isUnauthorized e"
  shows "let s' = fst (login (Inr t) (Inl e) s) in
    status s' = Authenticated \<and> token s' = Some (access_token t) \<and> cur_user s' = Some old
    \<and> role_of s' = Some (user_role old)"
  using assms by (cases e) (auto simp: login_def loadProfile_def start_def role_of_def)

theorem sign_in_keeps_previous_user_witness:
  "cur_user (fst (login (Inr \<lparr>access_token = ''t9'', refresh_token = None, expires_in = 900\<rparr>)
     (Inl (HttpFailure 503)) signed_in)) = Some (some_user ''a'' REditor)"
  using sign_in_keeps_previous_user [OF signed_in_facts(4), of "HttpFailure 503"
      "\<lparr>access_token = ''t9'', refresh_token = None, expires_in = 900\<rparr>"] by (simp add: Let_def)

end
