(* ===== verification/Article_Doc.thy ===== *)
theory Article_Doc
  imports Json "HOL-Library.Sublist"
begin

text \<open>
  The article document (\<open>features/articles/doc/article-doc.ts\<close>): the tree a body is, which addresses a
  reader may follow, the videos and boards that can be embedded, and what the reader counts and lists.
  A node's absent \<open>content\<close>, \<open>marks\<close>, \<open>attrs\<close> and \<open>text\<close> are the empty ones, on which every reader of
  the fields falls back (\<open>?? []\<close>, \<open>?? {}\<close>, \<open>?? ''\<close>).  Text is kept below code unit 256.  Three pieces of
  the platform are arguments: the URL parser \<open>new URL\<close>, JavaScript's \<open>Number\<close> on a parsed value, and the
  Unicode tables behind heading anchors.
\<close>

section \<open>The tree\<close>

datatype doc_mark = Doc_Mark (mark_type: string) (mark_attrs: "(string \<times> json) list")

datatype doc_node =
  Doc_Node (node_type: string) (attrs: "(string \<times> json) list") (content: "doc_node list")
    (marks: "doc_mark list") (node_text: string)

definition emptyArticleDoc :: doc_node where
  "emptyArticleDoc = Doc_Node ''doc'' [] [Doc_Node ''paragraph'' [] [] [] []] [] []"

section \<open>Addresses\<close>

text \<open>What \<open>new URL\<close> reports of an address; \<open>None\<close> when it throws.\<close>

record url =
  protocol :: string
  host :: string
  hostname :: string
  pathname :: string
  param_v :: "string option"

type_synonym url_parser = "string \<Rightarrow> url option"

definition MAX_URL :: nat where "MAX_URL = 2048"

definition prefixed :: "string \<Rightarrow> string \<Rightarrow> bool" where
  "prefixed p s \<longleftrightarrow> take (length p) s = p"

definition safeLink :: "url_parser \<Rightarrow> json option \<Rightarrow> string option" where
  "safeLink parse raw =
     (case raw of
        Some (JStr s) \<Rightarrow>
          if s = [] \<or> length s > MAX_URL \<or> list_ex is_ws s then None
          else if prefixed ''/'' s
          then (if prefixed ''//'' s \<or> prefixed [CHR ''/'', CHR 0x5C] s then None else Some s)
          else (case parse s of
                  None \<Rightarrow> None
                | Some u \<Rightarrow>
                    if (protocol u = ''http:'' \<or> protocol u = ''https:'') \<and> host u \<noteq> [] then Some s
                    else if protocol u = ''mailto:'' \<and> pathname u \<noteq> [] then Some s
                    else None)
      | _ \<Rightarrow> None)"

definition safeImage :: "url_parser \<Rightarrow> json option \<Rightarrow> string option" where
  "safeImage parse raw =
     (case raw of
        Some (JStr s) \<Rightarrow>
          if s = [] \<or> length s > MAX_URL \<or> list_ex is_ws s then None
          else (case parse s of
                  None \<Rightarrow> None
                | Some u \<Rightarrow> if protocol u = ''https:'' \<and> host u \<noteq> [] then Some s else None)
      | _ \<Rightarrow> None)"

definition isExternal :: "string \<Rightarrow> bool" where
  "isExternal href \<longleftrightarrow> \<not> prefixed ''/'' href"

text \<open>The regular expressions, as functions on characters: \<open>[a-z]\<close>, \<open>[A-Z]\<close>, a class repeated.\<close>

definition code_in :: "nat \<Rightarrow> nat \<Rightarrow> char \<Rightarrow> bool" where
  "code_in lo hi c \<longleftrightarrow> lo \<le> of_char c \<and> of_char c \<le> hi"

definition is_letter :: "char \<Rightarrow> bool" where
  "is_letter c \<longleftrightarrow> code_in 65 90 c \<or> code_in 97 122 c"

definition scheme_char :: "char \<Rightarrow> bool" where
  "scheme_char c \<longleftrightarrow> is_letter c \<or> is_digit c \<or> c \<in> {CHR ''+'', CHR ''.'', CHR ''-''}"

text \<open>\<open>/^[a-z][a-z0-9+.-]*:/i\<close>\<close>

definition has_scheme :: "string \<Rightarrow> bool" where
  "has_scheme s \<longleftrightarrow> s \<noteq> [] \<and> is_letter (hd s) \<and> prefixed '':'' (dropWhile scheme_char s)"

text \<open>\<open>/^[^\s@]+@[^\s@]+\.[^\s@]+$/\<close>\<close>

definition is_email :: "string \<Rightarrow> bool" where
  "is_email s \<longleftrightarrow>
     (case split_on CHR ''@'' s of
        [user, site] \<Rightarrow> user \<noteq> [] \<and> \<not> list_ex is_ws s
          \<and> (\<exists>i\<in>set [1..<length site - 1]. site ! i = CHR ''.'')
      | _ \<Rightarrow> False)"

definition normaliseLink :: "url_parser \<Rightarrow> string \<Rightarrow> string option" where
  "normaliseLink parse input =
     (let raw = trim input in
      if raw = [] then None
      else if prefixed ''/'' raw then safeLink parse (Some (JStr raw))
      else if has_scheme raw then safeLink parse (Some (JStr raw))
      else if is_email raw then safeLink parse (Some (JStr (''mailto:'' @ raw)))
      else safeLink parse (Some (JStr (''https://'' @ raw))))"

section \<open>Embeds\<close>

datatype provider = Youtube | Vimeo

definition youtube_id :: "string \<Rightarrow> bool" where
  "youtube_id s \<longleftrightarrow> length s = 11
     \<and> list_all (\<lambda>c. is_letter c \<or> is_digit c \<or> c \<in> {CHR ''_'', CHR ''-''}) s"

definition vimeo_id :: "string \<Rightarrow> bool" where
  "vimeo_id s \<longleftrightarrow> 6 \<le> length s \<and> length s \<le> 12 \<and> list_all is_digit s"

text \<open>\<open>hostname.replace(/^(www\.|m\.)/, '')\<close>\<close>

definition bare_host :: "string \<Rightarrow> string" where
  "bare_host h = (if prefixed ''www.'' h then drop 4 h else if prefixed ''m.'' h then drop 2 h else h)"

definition path_parts :: "string \<Rightarrow> string list" where
  "path_parts p = filter (\<lambda>s. s \<noteq> []) (split_on CHR ''/'' p)"

definition part :: "string list \<Rightarrow> nat \<Rightarrow> string" where
  "part ps i = (if i < length ps then ps ! i else [])"

definition parseVideo :: "url_parser \<Rightarrow> string \<Rightarrow> (provider \<times> string) option" where
  "parseVideo parse input =
     (case parse (trim input) of
        None \<Rightarrow> None
      | Some u \<Rightarrow>
          (let site = bare_host (hostname u); ps = path_parts (pathname u);
               tube = (site = ''youtube.com'' \<or> site = ''youtube-nocookie.com'') in
           if site = ''youtu.be'' \<and> youtube_id (part ps 0) then Some (Youtube, part ps 0)
           else if tube \<and> param_v u \<noteq> None \<and> youtube_id (the (param_v u)) then Some (Youtube, the (param_v u))
           else if tube \<and> part ps 0 \<in> {''embed'', ''shorts'', ''live'', ''v''} \<and> youtube_id (part ps 1)
           then Some (Youtube, part ps 1)
           else if site = ''vimeo.com'' \<or> site = ''player.vimeo.com''
           then map_option (Pair Vimeo) (find vimeo_id ps)
           else None))"

definition videoEmbedUrl :: "provider \<Rightarrow> string \<Rightarrow> string option" where
  "videoEmbedUrl p i =
     (if p = Youtube \<and> youtube_id i
      then Some (''https://www.youtube-nocookie.com/embed/'' @ i @ ''?autoplay=1&rel=0'')
      else if p = Vimeo \<and> vimeo_id i
      then Some (''https://player.vimeo.com/video/'' @ i @ ''?autoplay=1&dnt=1'')
      else None)"

definition videoPoster :: "provider \<Rightarrow> string \<Rightarrow> string option" where
  "videoPoster p i =
     (if p = Youtube \<and> youtube_id i then Some (''https://i.ytimg.com/vi/'' @ i @ ''/hqdefault.jpg'') else None)"

text \<open>\<open>/^[2-9a-kmnp-zA-HJ-NP-Z]{12}$/\<close>: letters and digits without 0, 1, l, o, I and O.\<close>

definition tactic_slug :: "string \<Rightarrow> bool" where
  "tactic_slug s \<longleftrightarrow> length s = 12
     \<and> list_all (\<lambda>c. (is_letter c \<or> is_digit c) \<and> c \<notin> set ''01loIO'') s"

definition slug_stop :: "char \<Rightarrow> bool" where
  "slug_stop c \<longleftrightarrow> c \<in> set ''/?#''"

text \<open>The group of \<open>raw.match(/\/tactics\/([^/?#]+)/)\<close>: the leftmost match, as long as it goes.\<close>

fun tactics_match :: "string \<Rightarrow> string option" where
  "tactics_match [] = None"
| "tactics_match (c # s) =
     (let slug = takeWhile (\<lambda>d. \<not> slug_stop d) (drop 9 (c # s)) in
      if prefixed ''/tactics/'' (c # s) \<and> slug \<noteq> [] then Some slug else tactics_match s)"

definition parseTacticSlug :: "string \<Rightarrow> string option" where
  "parseTacticSlug input =
     (let raw = trim input in
      if tactic_slug raw then Some raw
      else case tactics_match raw of
             None \<Rightarrow> None
           | Some slug \<Rightarrow> if tactic_slug slug then Some slug else None)"

section \<open>Reading the tree\<close>

fun plainText :: "doc_node \<Rightarrow> string" where
  "plainText (Doc_Node ty as ns ms tx) =
     (if ty = ''text'' then tx
      else if ty = ''hardBreak'' then '' ''
      else join (if ty = ''paragraph'' \<or> ty = ''heading'' then [] else '' '') (map plainText ns))"

text \<open>\<open>text.split(/\s+/).filter(Boolean)\<close>\<close>

function words :: "string \<Rightarrow> string list" where
  "words s =
     (let rest = dropWhile is_ws s in
      if rest = [] then []
      else takeWhile (\<lambda>c. \<not> is_ws c) rest # words (dropWhile (\<lambda>c. \<not> is_ws c) rest))"
  by auto
termination
proof (relation "measure length")
  fix s rest
  assume r: "rest = dropWhile is_ws s" "rest \<noteq> []"
  then have "\<not> is_ws (hd rest)" using hd_dropWhile by blast
  then have "length (dropWhile (\<lambda>c. \<not> is_ws c) rest) < length rest"
    using r(2) by (cases rest) (auto simp: le_imp_less_Suc length_dropWhile_le)
  also have "\<dots> \<le> length s" by (simp add: r length_dropWhile_le)
  finally show "(dropWhile (\<lambda>c. \<not> is_ws c) rest, s) \<in> measure length" by simp
qed simp

declare words.simps [simp del]

definition wordCount :: "doc_node \<Rightarrow> nat" where
  "wordCount doc = length (words (plainText doc))"

definition EMBEDS :: "string list" where
  "EMBEDS = [''figure'', ''tacticBoard'', ''video'']"

definition isEmptyDoc :: "doc_node \<Rightarrow> bool" where
  "isEmptyDoc doc \<longleftrightarrow> \<not> list_ex (\<lambda>n. trim (plainText n) \<noteq> [] \<or> node_type n \<in> set EMBEDS) (content doc)"

text \<open>
  The tables behind anchors: \<open>fold\<close> stands for \<open>toLowerCase().normalize('NFKD')\<close> with the combining
  marks removed, \<open>letter\<close> for the class of letters and numbers.
\<close>

record unicode =
  fold_text :: "string \<Rightarrow> string"
  letter :: "char \<Rightarrow> bool"

text \<open>\<open>replace(/[^letter]+/g, '-')\<close>: each longest run of other characters becomes one dash.\<close>

fun dashed :: "(char \<Rightarrow> bool) \<Rightarrow> bool \<Rightarrow> string \<Rightarrow> string" where
  "dashed ok inside [] = []"
| "dashed ok inside (c # s) =
     (if ok c then c # dashed ok False s
      else if inside then dashed ok True s
      else CHR ''-'' # dashed ok True s)"

definition strip_dashes :: "string \<Rightarrow> string" where
  "strip_dashes s = rev (dropWhile (\<lambda>c. c = CHR ''-'') (rev (dropWhile (\<lambda>c. c = CHR ''-'') s)))"

definition anchor_base :: "unicode \<Rightarrow> string \<Rightarrow> string" where
  "anchor_base u tx =
     (let b = take 60 (strip_dashes (dashed (letter u) False (fold_text u tx)))
      in if b = [] then ''section'' else b)"

record outline_entry =
  entry_id :: string
  entry_text :: string
  entry_level :: "real option"

text \<open>One turn of the loop per node; the ids go to the node at its place among the children.\<close>

fun outline_loop ::
  "unicode \<Rightarrow> (json \<Rightarrow> real option) \<Rightarrow> (string \<Rightarrow> nat) \<Rightarrow> nat \<Rightarrow> doc_node list
     \<Rightarrow> (nat \<times> outline_entry) list" where
  "outline_loop u num used k [] = []"
| "outline_loop u num used k (n # ns) =
     (let tx = trim (plainText n) in
      if node_type n \<noteq> ''heading'' \<or> tx = [] then outline_loop u num used (Suc k) ns
      else (let base = anchor_base u tx;
                m = used base + 1;
                i = (if m = 1 then base else base @ ''-'' @ nat_to_string m);
                lv = (case map_of (attrs n) ''level'' of
                        None \<Rightarrow> Some 2 | Some JNull \<Rightarrow> Some 2 | Some j \<Rightarrow> num j)
            in (k, \<lparr>entry_id = i, entry_text = tx, entry_level = lv\<rparr>)
               # outline_loop u num (used(base := m)) (Suc k) ns))"

definition outline :: "unicode \<Rightarrow> (json \<Rightarrow> real option) \<Rightarrow> doc_node \<Rightarrow> (nat \<times> outline_entry) list" where
  "outline u num doc = outline_loop u num (\<lambda>b. 0) 0 (content doc)"

section \<open>Addresses are safe\<close>

lemma prefixed_append [simp]: "prefixed p (p @ s)"
  by (simp add: prefixed_def)

lemma prefixed_iff: "prefixed p s \<longleftrightarrow> (\<exists>r. s = p @ r)"
  by (metis append_take_drop_id prefixed_append prefixed_def)

text \<open>What a reader may be sent to: a path of this site, or an address of a harmless scheme.\<close>

definition site_path :: "string \<Rightarrow> bool" where
  "site_path s \<longleftrightarrow> (\<exists>r. s = ''/'' @ r \<and> (r = [] \<or> hd r \<notin> {CHR ''/'', CHR 0x5C}))"

definition web_address :: "url_parser \<Rightarrow> string \<Rightarrow> bool" where
  "web_address parse s \<longleftrightarrow>
     (\<exists>u. parse s = Some u \<and> (protocol u \<in> {''http:'', ''https:''} \<and> host u \<noteq> []
                             \<or> protocol u = ''mailto:'' \<and> pathname u \<noteq> []))"

definition may_follow :: "url_parser \<Rightarrow> string \<Rightarrow> bool" where
  "may_follow parse s \<longleftrightarrow> s \<noteq> [] \<and> length s \<le> MAX_URL \<and> list_all (\<lambda>c. \<not> is_ws c) s
     \<and> (site_path s \<or> \<not> prefixed ''/'' s \<and> web_address parse s)"

definition may_load :: "url_parser \<Rightarrow> string \<Rightarrow> bool" where
  "may_load parse s \<longleftrightarrow> length s \<le> MAX_URL \<and> list_all (\<lambda>c. \<not> is_ws c) s
     \<and> (\<exists>u. parse s = Some u \<and> protocol u = ''https:'' \<and> host u \<noteq> [])"

lemma site_path_iff:
  "site_path s \<longleftrightarrow> prefixed ''/'' s \<and> \<not> prefixed ''//'' s \<and> \<not> prefixed [CHR ''/'', CHR 0x5C] s"
proof (cases s)
  case (Cons c r)
  then show ?thesis by (cases r) (auto simp: site_path_def prefixed_def)
qed (simp add: site_path_def prefixed_def)

lemma safeLink_str: "safeLink parse (Some (JStr s)) = (if may_follow parse s then Some s else None)"
  by (auto simp: safeLink_def may_follow_def site_path_iff web_address_def list_ex_iff list_all_iff
      split: option.splits)

lemma safeLink_Some: "safeLink parse raw = Some s \<longleftrightarrow> raw = Some (JStr s) \<and> may_follow parse s"
proof (cases raw)
  case (Some j)
  then show ?thesis by (cases j) (auto simp: safeLink_str split: if_splits, auto simp: safeLink_def)
qed (simp add: safeLink_def)

lemma safeImage_Some: "safeImage parse raw = Some s \<Longrightarrow> raw = Some (JStr s) \<and> may_load parse s"
  by (auto simp: safeImage_def may_load_def list_ex_iff list_all_iff
      split: option.splits json.splits if_splits)

lemma is_letter_not_ws: "is_letter c \<Longrightarrow> \<not> is_ws c"
  by (auto simp: is_letter_def is_ws_def code_in_def)

text \<open>
  Whatever a writer pastes as a link, the dialog makes an address a reader may follow of it or refuses
  it, and pasting the result again changes nothing.
\<close>
theorem normalised_link_is_safe:
  assumes "normaliseLink parse input = Some r"
  shows "may_follow parse r \<and> safeLink parse (Some (JStr r)) = Some r \<and> normaliseLink parse r = Some r"
proof -
  have r: "may_follow parse r" "prefixed ''/'' r \<or> has_scheme r"
    using assms
    by (auto simp: normaliseLink_def Let_def safeLink_str has_scheme_def is_letter_def code_in_def
        scheme_char_def prefixed_def is_digit_def split: if_splits)
  then have "trim r = r" "r \<noteq> []" by (auto simp: may_follow_def)
  with r show ?thesis by (auto simp: normaliseLink_def safeLink_str)
qed

text \<open>A parser that knows two addresses, for the witnesses.\<close>

definition two_sites :: url_parser where
  "two_sites = [''https://a.b'' \<mapsto>
      \<lparr>protocol = ''https:'', host = ''a.b'', hostname = ''a.b'', pathname = ''/'', param_v = None\<rparr>,
    ''https://www.youtube-nocookie.com/embed/abcdefghijk?autoplay=1&rel=0'' \<mapsto>
      \<lparr>protocol = ''https:'', host = ''www.youtube-nocookie.com'', hostname = ''www.youtube-nocookie.com'',
       pathname = ''/embed/abcdefghijk'', param_v = None\<rparr>]"

theorem normalised_link_is_safe_witness:
  "normaliseLink two_sites '' a.b '' = Some ''https://a.b'' \<and> may_follow two_sites ''https://a.b''"
proof -
  have n: "normaliseLink two_sites '' a.b '' = Some ''https://a.b''"
    by (simp add: normaliseLink_def trim_def is_ws_def prefixed_def has_scheme_def is_letter_def code_in_def
        scheme_char_def is_digit_def is_email_def safeLink_def two_sites_def MAX_URL_def)
  with normalised_link_is_safe [OF n] show ?thesis by simp
qed

section \<open>Videos and boards\<close>

lemma find_SomeD: "find p xs = Some x \<Longrightarrow> p x \<and> x \<in> set xs"
  by (auto simp: find_Some_iff)

definition safe_id :: "string \<Rightarrow> bool" where
  "safe_id i \<longleftrightarrow> list_all (\<lambda>c. is_letter c \<or> is_digit c \<or> c \<in> {CHR ''_'', CHR ''-''}) i"

lemma id_chars: "youtube_id i \<Longrightarrow> safe_id i" "vimeo_id i \<Longrightarrow> safe_id i"
  by (auto simp: youtube_id_def vimeo_id_def safe_id_def list_all_iff)

lemma parseVideo_id:
  "parseVideo parse input = Some (p, i) \<Longrightarrow> (case p of Youtube \<Rightarrow> youtube_id i | Vimeo \<Rightarrow> vimeo_id i)"
  by (auto simp: parseVideo_def Let_def dest: find_SomeD split: option.splits if_splits)

text \<open>
  Whatever the video dialog accepts can be drawn, and only as a video: the frame's address is one of
  the two players' with an id of letters, digits, dashes and underscores, so nothing pasted can add a
  parameter, a path or another host to it.
\<close>
theorem accepted_video_is_drawn:
  assumes "parseVideo parse input = Some (p, i)"
  shows "safe_id i \<and> (\<exists>src. videoEmbedUrl p i = Some src
    \<and> (src = ''https://www.youtube-nocookie.com/embed/'' @ i @ ''?autoplay=1&rel=0''
       \<or> src = ''https://player.vimeo.com/video/'' @ i @ ''?autoplay=1&dnt=1''))"
  using parseVideo_id [OF assms] id_chars by (cases p) (auto simp: videoEmbedUrl_def)

lemma split_on_app:
  "c \<notin> set xs \<Longrightarrow> split_on c (xs @ c # ys) = xs # split_on c ys"
  by (induction xs) auto

lemma split_on_none: "c \<notin> set xs \<Longrightarrow> split_on c xs = [xs]"
  by (induction xs) auto

lemma id_no_slash: "safe_id i \<Longrightarrow> CHR ''/'' \<notin> set i"
  by (auto simp: safe_id_def list_all_iff is_letter_def is_digit_def code_in_def)

lemma embed_parts: "safe_id i \<Longrightarrow> i \<noteq> [] \<Longrightarrow> path_parts (''/embed/'' @ i) = [''embed'', i]"
  "safe_id i \<Longrightarrow> i \<noteq> [] \<Longrightarrow> path_parts (''/video/'' @ i) = [''video'', i]"
  by (simp_all add: path_parts_def id_no_slash split_on_none)

lemma safe_id_no_ws: "safe_id i \<Longrightarrow> list_all (\<lambda>c. \<not> is_ws c) i"
proof -
  have "\<not> is_ws c" if "is_letter c \<or> is_digit c \<or> c \<in> {CHR ''_'', CHR ''-''}" for c
    using that by (elim disjE) (auto simp: is_letter_not_ws is_digit_not_ws, auto simp: is_ws_def)
  then show "safe_id i \<Longrightarrow> list_all (\<lambda>c. \<not> is_ws c) i"
    unfolding safe_id_def list_all_iff by blast
qed

text \<open>
  The address a player loads from can be pasted back: it gives the same provider and the same id.
  The URL parser is taken to report the host, the path and no parameter \<open>v\<close> of that address.
\<close>
theorem embed_address_parses_back:
  assumes src: "videoEmbedUrl p i = Some src"
    and parser: "\<exists>u. parse src = Some u \<and> param_v u = None
      \<and> (case p of Youtube \<Rightarrow> hostname u = ''www.youtube-nocookie.com'' \<and> pathname u = ''/embed/'' @ i
                 | Vimeo \<Rightarrow> hostname u = ''player.vimeo.com'' \<and> pathname u = ''/video/'' @ i)"
  shows "parseVideo parse src = Some (p, i)"
proof -
  have "list_all (\<lambda>c. \<not> is_ws c) src"
    using src id_chars safe_id_no_ws [of i, unfolded is_ws_def]
    by (auto simp: videoEmbedUrl_def is_ws_def split: if_splits)
  then have trimmed: "trim src = src" by simp
  show ?thesis
proof (cases p)
  case Youtube
  with src have i: "youtube_id i" by (auto simp: videoEmbedUrl_def split: if_splits)
  then have "i \<noteq> []" by (auto simp: youtube_id_def)
  with i Youtube parser trimmed show ?thesis
    by (auto simp: parseVideo_def embed_parts(1) [unfolded append.simps] id_chars bare_host_def prefixed_def part_def)
next
  case Vimeo
  with src have i: "vimeo_id i" by (auto simp: videoEmbedUrl_def split: if_splits)
  then have "i \<noteq> []" by (auto simp: vimeo_id_def)
  moreover have "\<not> vimeo_id ''video''" by (simp add: vimeo_id_def)
  ultimately show ?thesis using i Vimeo parser trimmed
    by (auto simp: parseVideo_def embed_parts(2) [unfolded append.simps] id_chars bare_host_def prefixed_def)
qed
qed

theorem embed_address_parses_back_witness:
  "parseVideo two_sites ''https://www.youtube-nocookie.com/embed/abcdefghijk?autoplay=1&rel=0''
     = Some (Youtube, ''abcdefghijk'')"
  by (rule embed_address_parses_back)
    (simp_all add: videoEmbedUrl_def youtube_id_def is_letter_def code_in_def two_sites_def)

theorem accepted_video_is_drawn_witness:
  "parseVideo two_sites ''https://www.youtube-nocookie.com/embed/abcdefghijk?autoplay=1&rel=0''
     = Some (Youtube, ''abcdefghijk'') \<and> safe_id ''abcdefghijk''"
proof -
  have p: "parseVideo two_sites ''https://www.youtube-nocookie.com/embed/abcdefghijk?autoplay=1&rel=0''
     = Some (Youtube, ''abcdefghijk'')"
    by (simp add: parseVideo_def trim_def is_ws_def two_sites_def bare_host_def prefixed_def path_parts_def
        part_def youtube_id_def is_letter_def code_in_def)
  with accepted_video_is_drawn [OF p] show ?thesis by simp
qed

lemma alnum_not_stop: "is_letter c \<or> is_digit c \<Longrightarrow> \<not> slug_stop c"
  by (auto simp: slug_stop_def is_letter_def is_digit_def code_in_def)

lemma slug_chars: "tactic_slug s \<Longrightarrow> list_all (\<lambda>c. \<not> slug_stop c) s"
  unfolding tactic_slug_def by (elim conjE list.pred_mono_strong) (use alnum_not_stop in blast)

lemma tactics_match_link:
  assumes "\<not> sublist ''/tactics/'' (origin @ ''/tactics'')" "slug \<noteq> []" "list_all (\<lambda>c. \<not> slug_stop c) slug"
    and "rest = [] \<or> slug_stop (hd rest)"
  shows "tactics_match (origin @ ''/tactics/'' @ slug @ rest) = Some slug"
  using assms(1)
proof (induction origin)
  case Nil
  have "takeWhile (\<lambda>d. \<not> slug_stop d) (slug @ rest) = slug"
    using assms(3,4) by (cases rest) (auto simp: list_all_iff)
  then show ?case using assms(2) by (simp add: prefixed_def)
next
  case (Cons c os)
  have "\<not> sublist ''/tactics/'' (os @ ''/tactics'')"
    using Cons.prems by (metis append_Cons sublist_Cons_right)
  moreover have "\<not> prefixed ''/tactics/'' (c # os @ ''/tactics/'' @ slug @ rest)"
  proof
    assume "prefixed ''/tactics/'' (c # os @ ''/tactics/'' @ slug @ rest)"
    then have "prefix ''/tactics/'' (c # os @ ''/tactics/'' @ slug @ rest)"
      by (metis prefixed_iff prefixI)
    moreover have "prefix (c # os @ ''/tactics'') (c # os @ ''/tactics/'' @ slug @ rest)" by simp
    ultimately have "prefix ''/tactics/'' (c # os @ ''/tactics'')" by (rule prefix_length_prefix) simp
    then have "sublist ''/tactics/'' ((c # os) @ ''/tactics'')" unfolding append_Cons by (rule prefix_imp_sublist)
    with Cons.prems show False by (rule notE)
  qed
  ultimately show ?case using Cons.IH by simp
qed

text \<open>
  A board's slug is found in its share link, its edit link and the slug itself, whatever the site's
  address in front and a query or fragment behind.
\<close>
theorem board_link_gives_slug:
  assumes "tactic_slug slug" and "rest = [] \<or> slug_stop (hd rest)"
    and "\<not> sublist ''/tactics/'' (origin @ ''/tactics'')"
    and "trim input \<in> {slug, origin @ ''/tactics/'' @ slug @ rest}"
  shows "parseTacticSlug input = Some slug"
proof (cases "trim input = slug")
  case False
  then have i: "trim input = origin @ ''/tactics/'' @ slug @ rest" using assms(4) by simp
  have "list_all (\<lambda>c. \<not> slug_stop c) slug" using slug_chars [OF assms(1)] .
  moreover have "slug \<noteq> []" using assms(1) by (auto simp: tactic_slug_def)
  ultimately have m: "tactics_match (trim input) = Some slug"
    unfolding i using assms(2,3) by (intro tactics_match_link)
  have "\<not> tactic_slug (trim input)"
    using slug_chars [of "trim input"] by (auto simp: i slug_stop_def)
  with m show ?thesis using assms(1) by (simp add: parseTacticSlug_def)
qed (use assms(1) in \<open>simp add: parseTacticSlug_def\<close>)

theorem board_link_gives_slug_witness:
  "parseTacticSlug ''https://a.b/tactics/abcDEF234567/edit'' = Some ''abcDEF234567''"
proof (rule board_link_gives_slug [where origin = "''https://a.b''" and rest = "''/edit''"])
  show "tactic_slug ''abcDEF234567''" by (simp add: tactic_slug_def is_letter_def is_digit_def code_in_def)
  show "\<not> sublist ''/tactics/'' (''https://a.b'' @ ''/tactics'')" by (simp add: sublist_code)
qed (simp_all add: slug_stop_def trim_def is_ws_def)

section \<open>Counting words\<close>

lemma words_Nil [simp]: "words [] = []"
  by (subst words.simps) simp

lemma words_ws: "is_ws c \<Longrightarrow> words (c # s) = words s"
  by (subst (1 2) words.simps) simp

lemma span_ws:
  "is_ws w \<Longrightarrow> takeWhile (\<lambda>c. \<not> is_ws c) (r @ w # t) = takeWhile (\<lambda>c. \<not> is_ws c) r \<and>
     dropWhile (\<lambda>c. \<not> is_ws c) (r @ w # t) = dropWhile (\<lambda>c. \<not> is_ws c) r @ w # t"
  by (induction r) auto

lemma words_break: "is_ws w \<Longrightarrow> words (s @ w # t) = words s @ words t"
proof (induction s rule: words.induct)
  case (1 s)
  let ?r = "dropWhile is_ws s" and ?word = "\<lambda>c. \<not> is_ws c"
  show ?case
  proof (cases "?r = []")
    case True
    then have "list_all is_ws s" by (simp add: list_all_iff)
    then have "words (s @ w # t) = words (w # t)"
      by (induction s) (simp_all add: words_ws)
    moreover have "words s = []" using True by (subst words.simps) simp
    ultimately show ?thesis using 1 by (simp add: words_ws)
  next
    case False
    then obtain x where "x \<in> set s" "\<not> is_ws x" by auto
    then have d: "dropWhile is_ws (s @ w # t) = ?r @ w # t" by (rule dropWhile_append1)
    have tw: "takeWhile ?word (?r @ w # t) = takeWhile ?word ?r \<and>
        dropWhile ?word (?r @ w # t) = dropWhile ?word ?r @ w # t"
      using 1(2) by (rule span_ws)
    have "words (s @ w # t) = takeWhile ?word ?r # words (dropWhile ?word ?r @ w # t)"
      by (subst words.simps) (simp add: d tw)
    also have "\<dots> = words s @ words t"
      using 1 False by (subst (2) words.simps) (simp add: Let_def del: dropWhile_eq_Nil_conv)
    finally show ?thesis .
  qed
qed

lemma words_join: "words (join '' '' xs) = concat (map words xs)"
  by (induction xs rule: induct_list012) (simp_all add: words_break is_ws_def)

lemma words_empty: "words s = [] \<longleftrightarrow> trim s = []"
proof -
  have "words s = [] \<longleftrightarrow> dropWhile is_ws s = []" by (subst words.simps) (simp add: Let_def)
  also have "\<dots> \<longleftrightarrow> trim s = []"
  proof
    assume "trim s = []"
    then have "\<forall>c\<in>set (dropWhile is_ws s). is_ws c" unfolding trim_def rev_is_Nil_conv by simp
    then show "dropWhile is_ws s = []" by (metis hd_dropWhile hd_in_set)
  next
    assume "dropWhile is_ws s = []"
    then show "trim s = []" unfolding trim_def by (simp only: rev.simps dropWhile.simps)
  qed
  finally show ?thesis .
qed

definition block_types :: "string set" where
  "block_types = - {''text'', ''hardBreak'', ''paragraph'', ''heading''}"

lemma plainText_block:
  "node_type d \<in> block_types \<Longrightarrow> plainText d = join '' '' (map plainText (content d))"
  by (cases d) (simp add: block_types_def)

text \<open>
  The word count of an article is the sum of the counts of its blocks: no word is joined to its
  neighbour across a block or lost.  The article is empty exactly when it has no word and no embed.
\<close>
theorem article_counts:
  assumes "node_type doc \<in> block_types"
  shows "wordCount doc = (\<Sum>n\<leftarrow>content doc. wordCount n)
    \<and> (isEmptyDoc doc \<longleftrightarrow> wordCount doc = 0 \<and> (\<forall>n\<in>set (content doc). node_type n \<notin> set EMBEDS))"
proof
  show count: "wordCount doc = (\<Sum>n\<leftarrow>content doc. wordCount n)"
    using assms by (simp add: wordCount_def plainText_block words_join length_concat o_def)
  show "isEmptyDoc doc \<longleftrightarrow> wordCount doc = 0 \<and> (\<forall>n\<in>set (content doc). node_type n \<notin> set EMBEDS)"
    unfolding count by (auto simp: isEmptyDoc_def list_ex_iff wordCount_def words_empty)
qed

definition mk_text :: "string \<Rightarrow> doc_node" where
  "mk_text s = Doc_Node ''text'' [] [] [] s"

definition mk_block :: "string \<Rightarrow> string \<Rightarrow> doc_node" where
  "mk_block ty s = Doc_Node ty [] [mk_text s] [] []"

theorem article_counts_witness:
  "wordCount (Doc_Node ''doc'' [] [mk_block ''heading'' ''ab'', mk_block ''paragraph'' ''cd''] [] []) = 2"
proof -
  have "words ''ab'' = [''ab'']" "words ''cd'' = [''cd'']"
    by (subst words.simps, simp add: is_ws_def)+
  then show ?thesis
    using article_counts [of "Doc_Node ''doc'' [] [mk_block ''heading'' ''ab'', mk_block ''paragraph'' ''cd''] [] []"]
    by (simp add: block_types_def wordCount_def mk_block_def mk_text_def)
qed

section \<open>Section anchors\<close>

definition anchored :: "doc_node \<Rightarrow> bool" where
  "anchored n \<longleftrightarrow> node_type n = ''heading'' \<and> trim (plainText n) \<noteq> []"

text \<open>The anchor of the \<open>m\<close>-th heading with one base.\<close>

definition anchor :: "string \<Rightarrow> nat \<Rightarrow> string" where
  "anchor b m = (if m = 1 then b else b @ ''-'' @ nat_to_string m)"

definition heading_base :: "unicode \<Rightarrow> doc_node \<Rightarrow> string" where
  "heading_base u n = anchor_base u (trim (plainText n))"

lemma outline_loop_Cons:
  "outline_loop u num used k (n # ns) =
     (if anchored n
      then (k, \<lparr>entry_id = anchor (heading_base u n) (used (heading_base u n) + 1),
                entry_text = trim (plainText n),
                entry_level = (case map_of (attrs n) ''level'' of
                        None \<Rightarrow> Some 2 | Some JNull \<Rightarrow> Some 2 | Some j \<Rightarrow> num j)\<rparr>)
           # outline_loop u num (used(heading_base u n := used (heading_base u n) + 1)) (Suc k) ns
      else outline_loop u num used (Suc k) ns)"
  by (simp add: Let_def anchored_def anchor_def heading_base_def)

declare outline_loop.simps(2) [simp del]

lemma outline_positions:
  "map fst (outline_loop u num used k ns) = filter (\<lambda>i. anchored (ns ! (i - k))) [k..<k + length ns]"
proof (induction ns arbitrary: used k)
  case (Cons n ns)
  have "filter (\<lambda>i. anchored ((n # ns) ! (i - k))) [Suc k..<k + length (n # ns)]
      = filter (\<lambda>i. anchored (ns ! (i - Suc k))) [Suc k..<Suc k + length ns]"
    by (intro filter_cong) (auto simp: nth_Cons')
  then have "filter (\<lambda>i. anchored ((n # ns) ! (i - k))) [k..<k + length (n # ns)]
      = (if anchored n then [k] else [])
        @ filter (\<lambda>i. anchored (ns ! (i - Suc k))) [Suc k..<Suc k + length ns]"
    by (subst upt_conv_Cons) simp_all
  then show ?case by (simp add: outline_loop_Cons Cons.IH)
qed simp

lemma outline_texts:
  "map (entry_text \<circ> snd) (outline_loop u num used k ns) = map (trim \<circ> plainText) (filter anchored ns)"
  by (induction ns arbitrary: used k) (simp_all add: outline_loop_Cons)

lemma outline_ids:
  "\<exists>ms. length ms = length (filter anchored ns)
     \<and> map (entry_id \<circ> snd) (outline_loop u num used k ns)
       = map2 anchor (map (heading_base u) (filter anchored ns)) ms
     \<and> distinct (zip (map (heading_base u) (filter anchored ns)) ms)
     \<and> (\<forall>(b, m)\<in>set (zip (map (heading_base u) (filter anchored ns)) ms). used b < m)"
proof (induction ns arbitrary: used k)
  case (Cons n ns)
  show ?case
  proof (cases "anchored n")
    case True
    let ?b = "heading_base u n" and ?bs = "map (heading_base u) (filter anchored ns)"
    let ?used = "used(?b := used ?b + 1)"
    obtain ms where ms: "length ms = length (filter anchored ns)"
      "map (entry_id \<circ> snd) (outline_loop u num ?used (Suc k) ns) = map2 anchor ?bs ms"
      "distinct (zip ?bs ms)" "\<forall>(b, m)\<in>set (zip ?bs ms). ?used b < m"
      using Cons.IH [of ?used "Suc k"] by blast
    have lt: "used b < m \<and> (b = ?b \<longrightarrow> used ?b + 1 < m)" if "(b, m) \<in> set (zip ?bs ms)" for b m
      using ms(4) that by (auto split: if_splits)
    show ?thesis
      using True ms(1,3) ms(2) [unfolded comp_def] lt by (intro exI [of _ "(used ?b + 1) # ms"]) (auto simp: outline_loop_Cons)
  next
    case False
    with Cons.IH [of used "Suc k"] show ?thesis by (simp add: outline_loop_Cons)
  qed
qed simp

lemma anchor_inj:
  assumes "anchor b m = anchor b' m'" "0 < m" "0 < m'"
    and "\<And>i. b \<noteq> b' @ ''-'' @ nat_to_string i" "\<And>i. b' \<noteq> b @ ''-'' @ nat_to_string i"
  shows "(b, m) = (b', m')"
proof -
  have split: "(b, m) = (b', m')" if e: "b @ ''-'' @ nat_to_string m = b' @ ''-'' @ nat_to_string m'"
  proof -
    have nd: "CHR ''-'' \<notin> set (nat_to_string i)" for i
      using nat_to_string_digits [of i] by (auto simp: list_all_iff is_digit_def)
    have "rev (nat_to_string m) @ CHR ''-'' # rev b = rev (nat_to_string m') @ CHR ''-'' # rev b'"
      using arg_cong [OF e, of rev] by simp
    then have "takeWhile (\<lambda>c. c \<noteq> CHR ''-'') (rev (nat_to_string m) @ CHR ''-'' # rev b)
        = takeWhile (\<lambda>c. c \<noteq> CHR ''-'') (rev (nat_to_string m') @ CHR ''-'' # rev b')" by simp
    moreover have "takeWhile (\<lambda>c. c \<noteq> CHR ''-'') (rev (nat_to_string i) @ CHR ''-'' # r)
        = rev (nat_to_string i)" for i r
      using nd [of i] by (subst takeWhile_append2) auto
    ultimately have "nat_to_string m = nat_to_string m'" by simp
    then show ?thesis using e nat_to_string_inj by auto
  qed
  show ?thesis using assms split by (auto simp: anchor_def split: if_splits)
qed

text \<open>
  The contents list has one entry per heading with text, in the order of the article and with the
  heading's text; the anchors differ, unless one heading already reads as another with a number behind it.
\<close>
theorem outline_lists_headings:
  assumes "\<forall>n\<in>set (content doc). \<forall>n'\<in>set (content doc). \<forall>i.
    anchored n \<longrightarrow> anchored n' \<longrightarrow> heading_base u n \<noteq> heading_base u n' @ ''-'' @ nat_to_string i"
  shows "map fst (outline u num doc) = filter (\<lambda>i. anchored (content doc ! i)) [0..<length (content doc)]
    \<and> map (entry_text \<circ> snd) (outline u num doc) = map (trim \<circ> plainText) (filter anchored (content doc))
    \<and> distinct (map (entry_id \<circ> snd) (outline u num doc))"
proof (intro conjI)
  let ?hs = "filter anchored (content doc)"
  let ?bs = "map (heading_base u) ?hs"
  obtain ms where ms: "length ms = length ?hs"
    "map (entry_id \<circ> snd) (outline u num doc) = map2 anchor ?bs ms"
    "distinct (zip ?bs ms)" "\<forall>(b, m)\<in>set (zip ?bs ms). 0 < m"
    using outline_ids [of "content doc" u num "\<lambda>b. 0" 0] by (auto simp: outline_def)
  have free: "b \<noteq> b' @ ''-'' @ nat_to_string i" if "b \<in> set ?bs" "b' \<in> set ?bs" for b b' i
    using assms that by auto
  have "inj_on (\<lambda>(b, m). anchor b m) (set (zip ?bs ms))"
  proof (rule inj_onI, clarify)
    fix b m b' m'
    assume a: "(b, m) \<in> set (zip ?bs ms)" "(b', m') \<in> set (zip ?bs ms)" "anchor b m = anchor b' m'"
    then have "b \<in> set ?bs" "b' \<in> set ?bs" "0 < m" "0 < m'" using ms(4) by (auto dest: set_zip_leftD)
    with a(3) free show "b = b' \<and> m = m'" using anchor_inj [of b m b' m'] by blast
  qed
  then show "distinct (map (entry_id \<circ> snd) (outline u num doc))"
    unfolding ms(2) distinct_map using ms(3) by blast
qed (simp_all add: outline_def outline_texts outline_positions del: map_map)

text \<open>The tables for ASCII text, for the witnesses.\<close>

definition ascii_lower :: "char \<Rightarrow> char" where
  "ascii_lower c = (if code_in 65 90 c then char_of (of_char c + 32 :: nat) else c)"

definition ascii :: unicode where
  "ascii = \<lparr>fold_text = map ascii_lower, letter = (\<lambda>c. is_letter c \<or> is_digit c)\<rparr>"

lemma two_digit: "nat_to_string 2 = ''2''" "nat_to_string (Suc (Suc 0)) = ''2''"
  by code_simp+

lemma ascii_bases:
  "anchor_base ascii ''X'' = ''x''" "anchor_base ascii ''X 2'' = ''x-2''" "anchor_base ascii ''The Press'' = ''the-press''"
  by code_simp+

theorem outline_lists_headings_witness:
  "map (entry_id \<circ> snd) (outline ascii (\<lambda>j. None)
     (Doc_Node ''doc'' [] [mk_block ''heading'' ''X'', mk_block ''paragraph'' ''ab'', mk_block ''heading'' ''X''] [] []))
   = [''x'', ''x-2'']
   \<and> distinct (map (entry_id \<circ> snd) (outline ascii (\<lambda>j. None)
     (Doc_Node ''doc'' [] [mk_block ''heading'' ''X'', mk_block ''paragraph'' ''ab'', mk_block ''heading'' ''X''] [] [])))"
proof
  let ?d = "Doc_Node ''doc'' [] [mk_block ''heading'' ''X'', mk_block ''paragraph'' ''ab'', mk_block ''heading'' ''X''] [] []"
  have h: "anchored (mk_block ''heading'' ''X'')" "\<not> anchored (mk_block ''paragraph'' ''ab'')"
    "heading_base ascii (mk_block ''heading'' ''X'') = ''x''"
    by (simp_all add: anchored_def mk_block_def mk_text_def trim_def is_ws_def heading_base_def ascii_bases)
  then show "map (entry_id \<circ> snd) (outline ascii (\<lambda>j. None) ?d) = [''x'', ''x-2'']"
    by (simp add: outline_def outline_loop_Cons anchor_def two_digit)
  have "\<forall>n\<in>set (content ?d). \<forall>n'\<in>set (content ?d). \<forall>i.
    anchored n \<longrightarrow> anchored n' \<longrightarrow> heading_base ascii n \<noteq> heading_base ascii n' @ ''-'' @ nat_to_string i"
    using h by auto
  from outline_lists_headings [OF this] show "distinct (map (entry_id \<circ> snd) (outline ascii (\<lambda>j. None) ?d))" by blast
qed

text \<open>
  A numbered anchor can be taken already: headings X, X and X 2 get the anchors x, x-2 and x-2, so the
  contents list has two entries leading to one section.
\<close>
theorem anchors_can_clash:
  "map (entry_id \<circ> snd) (outline ascii num
     (Doc_Node ''doc'' [] [mk_block ''heading'' ''X'', mk_block ''heading'' ''X'', mk_block ''heading'' ''X 2''] [] []))
   = [''x'', ''x-2'', ''x-2'']"
  by (simp add: outline_def outline_loop_Cons anchor_def two_digit anchored_def mk_block_def mk_text_def
      trim_def is_ws_def heading_base_def ascii_bases)

end
