(* ===== verification/Article_Body.thy ===== *)
theory Article_Body
  imports Article_Doc
begin

text \<open>
  The reader (\<open>features/articles/doc/article-body.ts\<close>): its template as a function from the document to
  the elements it draws, with the addresses of links and images in the attributes they reach.
  \<open>parse\<close> is the URL parser, \<open>num\<close> JavaScript's \<open>Number\<close>, \<open>failed\<close> the images that did not load.
\<close>

section \<open>Elements\<close>

datatype html =
    Para "html list" | Heading nat "string option" "html list" | Bullets "html list"
  | Numbered "real option" "html list" | Item "html list" | Quote "html list" | Rule
  | Image string string bool string string
  | Broken string bool string string
  | Board string string string
  | Video provider string string
  | Text string | Break | Styled string "html" | Link string bool "html"

record figure =
  fig_src :: string
  fig_alt :: string
  fig_caption :: string
  fig_credit :: string
  fig_wide :: bool

record inline_mark =
  im_type :: string
  im_href :: string
  im_external :: bool

section \<open>Reading a node\<close>

definition str_attr :: "doc_node \<Rightarrow> string \<Rightarrow> string" where
  "str_attr n k = (case map_of (attrs n) k of Some (JStr s) \<Rightarrow> s | _ \<Rightarrow> [])"

definition hasText :: "doc_node \<Rightarrow> bool" where
  "hasText n \<longleftrightarrow> content n \<noteq> [] \<and> trim (plainText n) \<noteq> []"

definition startOf :: "(json \<Rightarrow> real option) \<Rightarrow> doc_node \<Rightarrow> real option" where
  "startOf num n =
     (let start = (case map_of (attrs n) ''start'' of None \<Rightarrow> Some 1 | Some JNull \<Rightarrow> Some 1 | Some j \<Rightarrow> num j) in
      case start of
        None \<Rightarrow> None
      | Some r \<Rightarrow> if r = of_int \<lfloor>r\<rfloor> \<and> r \<noteq> 1 then Some r else None)"

definition STYLES :: "string list" where
  "STYLES = [''bold'', ''italic'', ''strike'', ''underline'']"

definition read_mark :: "url_parser \<Rightarrow> doc_mark \<Rightarrow> inline_mark option" where
  "read_mark parse m =
     (if mark_type m = ''link''
      then (case safeLink parse (map_of (mark_attrs m) ''href'') of
              None \<Rightarrow> None
            | Some href \<Rightarrow> Some \<lparr>im_type = ''link'', im_href = href, im_external = isExternal href\<rparr>)
      else if mark_type m \<in> set STYLES
      then Some \<lparr>im_type = mark_type m, im_href = [], im_external = False\<rparr>
      else None)"

definition marksOf :: "url_parser \<Rightarrow> doc_node \<Rightarrow> inline_mark list" where
  "marksOf parse n =
     (let out = List.map_filter (read_mark parse) (marks n)
      in filter (\<lambda>m. im_type m = ''link'') out @ filter (\<lambda>m. im_type m \<noteq> ''link'') out)"

definition figure :: "url_parser \<Rightarrow> doc_node \<Rightarrow> figure option" where
  "figure parse n =
     (case safeImage parse (map_of (attrs n) ''src'') of
        None \<Rightarrow> None
      | Some src \<Rightarrow> Some \<lparr>fig_src = src, fig_alt = str_attr n ''alt'', fig_caption = str_attr n ''caption'',
                         fig_credit = str_attr n ''credit'', fig_wide = (str_attr n ''size'' = ''wide'')\<rparr>)"

definition board_embed :: "doc_node \<Rightarrow> (string \<times> string \<times> string) option" where
  "board_embed n = (let slug = str_attr n ''slug'' in
     if tactic_slug slug then Some (slug, str_attr n ''title'', str_attr n ''caption'') else None)"

definition video :: "doc_node \<Rightarrow> (provider \<times> string \<times> string) option" where
  "video n =
     (let p = str_attr n ''provider'' in
      if p = ''youtube'' then Some (Youtube, str_attr n ''id'', str_attr n ''caption'')
      else if p = ''vimeo'' then Some (Vimeo, str_attr n ''id'', str_attr n ''caption'')
      else None)"

section \<open>The templates\<close>

text \<open>The template \<open>marked\<close>: one element per mark around the text, the first mark outermost.\<close>

fun marked :: "string \<Rightarrow> inline_mark list \<Rightarrow> html" where
  "marked tx [] = Text tx"
| "marked tx (m # ms) =
     (if im_type m = ''link'' then Link (im_href m) (im_external m) (marked tx ms)
      else Styled (im_type m) (marked tx ms))"

text \<open>The template \<open>inline\<close>.\<close>

definition inline :: "url_parser \<Rightarrow> doc_node list \<Rightarrow> html list" where
  "inline parse ns = List.map_filter (\<lambda>n.
     if node_type n = ''text'' then Some (marked (node_text n) (marksOf parse n))
     else if node_type n = ''hardBreak'' then Some Break
     else None) ns"

definition heading_level :: "doc_node \<Rightarrow> nat" where
  "heading_level n =
     (case map_of (attrs n) ''level'' of
        Some (JNum r) \<Rightarrow> if r = 3 then 3 else if r = 4 then 4 else 2
      | _ \<Rightarrow> 2)"

definition figure_view :: "string set \<Rightarrow> figure \<Rightarrow> html" where
  "figure_view failed f =
     (if fig_src f \<in> failed then Broken (fig_src f) (fig_wide f) (fig_caption f) (fig_credit f)
      else Image (fig_src f) (fig_alt f) (fig_wide f) (fig_caption f) (fig_credit f))"

text \<open>
  The template \<open>blocks\<close> on one node; \<open>hid\<close> is the node's anchor, which only a child of the root can have.
\<close>

fun block ::
  "url_parser \<Rightarrow> (json \<Rightarrow> real option) \<Rightarrow> string set \<Rightarrow> string option \<Rightarrow> doc_node \<Rightarrow> html list" where
  "block parse num failed hid (Doc_Node ty as ns ms tx) =
     (let n = Doc_Node ty as ns ms tx;
          inner = concat (map (block parse num failed None) ns) in
      if ty = ''paragraph'' then (if hasText n then [Para (inline parse ns)] else [])
      else if ty = ''heading'' then [Heading (heading_level n) hid (inline parse ns)]
      else if ty = ''bulletList'' then [Bullets inner]
      else if ty = ''orderedList'' then [Numbered (startOf num n) inner]
      else if ty = ''listItem'' then [Item inner]
      else if ty = ''blockquote'' then [Quote inner]
      else if ty = ''horizontalRule'' then [Rule]
      else if ty = ''figure'' then (case figure parse n of None \<Rightarrow> [] | Some f \<Rightarrow> [figure_view failed f])
      else if ty = ''tacticBoard'' then
        (case board_embed n of None \<Rightarrow> [] | Some (slug, title, cap) \<Rightarrow> [Board slug title cap])
      else if ty = ''video'' then (case video n of None \<Rightarrow> [] | Some (p, i, cap) \<Rightarrow> [Video p i cap])
      else [])"

definition anchor_of :: "(nat \<times> outline_entry) list \<Rightarrow> nat \<Rightarrow> string option" where
  "anchor_of entries k = map_option entry_id (map_of entries k)"

definition article_body ::
  "unicode \<Rightarrow> url_parser \<Rightarrow> (json \<Rightarrow> real option) \<Rightarrow> string set \<Rightarrow> doc_node \<Rightarrow> html list" where
  "article_body u parse num failed doc =
     concat (map (\<lambda>(k, n). block parse num failed (anchor_of (outline u num doc) k) n)
       (enumerate 0 (content doc)))"

section \<open>Nothing unsafe reaches an attribute\<close>

text \<open>The links of an element with whether they open a new tab, the images it loads, the boards it shows.\<close>

fun links :: "html \<Rightarrow> (string \<times> bool) list" where
  "links (Para hs) = concat (map links hs)"
| "links (Heading n i hs) = concat (map links hs)"
| "links (Bullets hs) = concat (map links hs)"
| "links (Numbered s hs) = concat (map links hs)"
| "links (Item hs) = concat (map links hs)"
| "links (Quote hs) = concat (map links hs)"
| "links (Styled ty h) = links h"
| "links (Link s ext h) = (s, ext) # links h"
| "links _ = []"

fun embeds :: "html \<Rightarrow> html list" where
  "embeds (Para hs) = concat (map embeds hs)"
| "embeds (Heading n i hs) = concat (map embeds hs)"
| "embeds (Bullets hs) = concat (map embeds hs)"
| "embeds (Numbered s hs) = concat (map embeds hs)"
| "embeds (Item hs) = concat (map embeds hs)"
| "embeds (Quote hs) = concat (map embeds hs)"
| "embeds (Styled ty h) = embeds h"
| "embeds (Link s ext h) = embeds h"
| "embeds (Image s a w c r) = [Image s a w c r]"
| "embeds (Board s t c) = [Board s t c]"
| "embeds _ = []"

definition good_link :: "url_parser \<Rightarrow> string \<times> bool \<Rightarrow> bool" where
  "good_link parse l \<longleftrightarrow> may_follow parse (fst l) \<and> (snd l \<longleftrightarrow> \<not> prefixed ''/'' (fst l))"

fun good_embed :: "url_parser \<Rightarrow> html \<Rightarrow> bool" where
  "good_embed parse (Image s a w c r) = may_load parse s"
| "good_embed parse (Board s t c) = tactic_slug s"
| "good_embed parse _ = False"

definition safe_view :: "url_parser \<Rightarrow> html \<Rightarrow> bool" where
  "safe_view parse h \<longleftrightarrow> list_all (good_link parse) (links h) \<and> list_all (good_embed parse) (embeds h)"

lemma map_filter_iff: "x \<in> set (List.map_filter f xs) \<longleftrightarrow> (\<exists>y\<in>set xs. f y = Some x)"
  by (force simp: List.map_filter_def)

lemma marksOf_good:
  "m \<in> set (marksOf parse n) \<Longrightarrow> im_type m = ''link'' \<Longrightarrow> good_link parse (im_href m, im_external m)"
proof -
  assume m: "m \<in> set (marksOf parse n)" "im_type m = ''link''"
  then obtain dm where "read_mark parse dm = Some m" by (auto simp: marksOf_def Let_def map_filter_iff)
  moreover have "''link'' \<notin> set STYLES" by (simp add: STYLES_def)
  ultimately show "good_link parse (im_href m, im_external m)"
    using m(2) unfolding read_mark_def
    by (auto simp: good_link_def isExternal_def safeLink_Some split: if_split_asm option.split_asm)
qed

lemma marked_safe:
  "\<forall>m\<in>set ms. im_type m = ''link'' \<longrightarrow> good_link parse (im_href m, im_external m) \<Longrightarrow> safe_view parse (marked tx ms)"
  by (induction ms) (auto simp: safe_view_def)

lemma inline_safe: "h \<in> set (inline parse ns) \<Longrightarrow> safe_view parse h"
proof -
  have "safe_view parse Break" by (simp add: safe_view_def)
  then show "h \<in> set (inline parse ns) \<Longrightarrow> safe_view parse h"
    by (fastforce simp: inline_def map_filter_iff split: if_splits intro: marked_safe marksOf_good)
qed

lemma safe_view_leaves [simp]: "safe_view parse Rule" "safe_view parse (Video p i c)"
  by (simp_all add: safe_view_def)

lemma safe_view_kids [simp]:
  "safe_view parse (Para hs) \<longleftrightarrow> (\<forall>h\<in>set hs. safe_view parse h)"
  "safe_view parse (Heading k i hs) \<longleftrightarrow> (\<forall>h\<in>set hs. safe_view parse h)"
  "safe_view parse (Bullets hs) \<longleftrightarrow> (\<forall>h\<in>set hs. safe_view parse h)"
  "safe_view parse (Numbered s hs) \<longleftrightarrow> (\<forall>h\<in>set hs. safe_view parse h)"
  "safe_view parse (Item hs) \<longleftrightarrow> (\<forall>h\<in>set hs. safe_view parse h)"
  "safe_view parse (Quote hs) \<longleftrightarrow> (\<forall>h\<in>set hs. safe_view parse h)"
  by (fastforce simp: safe_view_def list_all_iff)+

lemma figure_safe: "figure parse n = Some f \<Longrightarrow> safe_view parse (figure_view failed f)"
  by (auto simp: figure_def figure_view_def safe_view_def dest: safeImage_Some split: option.splits)

lemma embed_safe: "board_embed n = Some (s, t, c) \<Longrightarrow> safe_view parse (Board s t c)"
  by (auto simp: board_embed_def safe_view_def Let_def split: if_splits)

lemma block_safe: "h \<in> set (block parse num failed hid n) \<Longrightarrow> safe_view parse h"
proof (induction parse num failed hid n arbitrary: h rule: block.induct)
  case (1 parse num failed hid ty as ns ms tx)
  have "\<forall>x\<in>set ns. \<forall>h\<in>set (block parse num failed None x). safe_view parse h" using "1.IH" by blast
  then have kids: "\<forall>h\<in>set (concat (map (block parse num failed None) ns)). safe_view parse h" by auto
  show ?case using "1.prems" kids
    unfolding block.simps Let_def
    by (simp only: set_simps empty_iff insert_iff ball_simps safe_view_kids safe_view_leaves simp_thms
        split: if_split_asm option.split_asm prod.split_asm) (auto simp: inline_safe figure_safe embed_safe)
qed



section \<open>Nothing of the text is lost\<close>

fun shown :: "html \<Rightarrow> string" where
  "shown (Para hs) = concat (map shown hs)"
| "shown (Heading n i hs) = concat (map shown hs)"
| "shown (Bullets hs) = join '' '' (map shown hs)"
| "shown (Numbered s hs) = join '' '' (map shown hs)"
| "shown (Item hs) = join '' '' (map shown hs)"
| "shown (Quote hs) = join '' '' (map shown hs)"
| "shown (Text s) = s"
| "shown Break = '' ''"
| "shown (Styled ty h) = shown h"
| "shown (Link s ext h) = shown h"
| "shown _ = []"

text \<open>The grammar of a body: lines hold text and breaks, the other blocks hold blocks or nothing.\<close>

fun proper :: "doc_node \<Rightarrow> bool" where
  "proper (Doc_Node ty as ns ms tx) \<longleftrightarrow>
     (if ty = ''paragraph'' \<or> ty = ''heading'' then (\<forall>n\<in>set ns. node_type n \<in> {''text'', ''hardBreak''})
      else if ty \<in> {''bulletList'', ''orderedList'', ''listItem'', ''blockquote''} then (\<forall>n\<in>set ns. proper n)
      else ty \<in> {''horizontalRule'', ''figure'', ''tacticBoard'', ''video''} \<and> ns = [])"

lemma shown_marked [simp]: "shown (marked tx ms) = tx"
  by (induction ms) auto

lemma join_nothing [simp]: "join [] xs = concat xs"
  by (induction "[] :: string" xs rule: join.induct) auto

lemma shown_inline:
  "\<forall>n\<in>set ns. node_type n \<in> {''text'', ''hardBreak''} \<Longrightarrow> concat (map shown (inline parse ns)) = concat (map plainText ns)"
proof (induction ns)
  case (Cons n ns)
  then show ?case by (cases n) (auto simp: inline_def List.map_filter_simps)
qed (simp add: inline_def List.map_filter_simps)

lemma concat_map_concat: "concat (map f (concat xss)) = concat (map (\<lambda>xs. concat (map f xs)) xss)"
  by (induction xss) auto

lemma shown_block:
  "proper n \<Longrightarrow> concat (map (words \<circ> shown) (block parse num failed hid n)) = words (plainText n)"
proof (induction parse num failed hid n rule: block.induct)
  case (1 parse num failed hid ty as ns ms tx)
  have kids: "concat (map (words \<circ> shown) (concat (map (block parse num failed None) ns)))
      = concat (map (words \<circ> plainText) ns)" if "\<forall>n\<in>set ns. proper n"
    using "1.IH" that unfolding concat_map_concat map_map
    by (intro arg_cong [where f = concat] map_cong) (auto simp: comp_def)
  consider "ty = ''paragraph''" | "ty = ''heading''" | "ty \<in> {''bulletList'', ''orderedList'', ''listItem'', ''blockquote''}"
    | "ty \<in> {''horizontalRule'', ''figure'', ''tacticBoard'', ''video''}" "ns = []"
    using "1.prems" by (auto split: if_split_asm)
  then show ?case
  proof cases
    case 1
    with \<open>proper _\<close> have "concat (map shown (inline parse ns)) = concat (map plainText ns)"
      by (intro shown_inline) simp
    with 1 show ?thesis
      using words_empty [of "concat (map plainText ns)"] by (auto simp: hasText_def)
  next
    case 2
    with \<open>proper _\<close> have "concat (map shown (inline parse ns)) = concat (map plainText ns)"
      by (intro shown_inline) simp
    with 2 show ?thesis by simp
  next
    case 3
    then have "\<forall>n\<in>set ns. proper n" using \<open>proper _\<close> by (elim insertE emptyE) simp_all
    note k = kids [OF this, unfolded comp_def]
    let ?hs = "concat (map (block parse num failed None) ns)"
    have "plainText (Doc_Node ty as ns ms tx) = join '' '' (map plainText ns)"
      using 3 by (elim insertE emptyE) simp_all
    moreover have "concat (map (words \<circ> shown) (block parse num failed hid (Doc_Node ty as ns ms tx)))
        = words (join '' '' (map shown ?hs))"
      using 3 by (elim insertE emptyE) (simp_all add: Let_def)
    ultimately show ?thesis using k by (simp add: words_join comp_def)
  next
    case 4
    have [simp]: "shown (figure_view failed f) = []" for f by (simp add: figure_view_def)
    from 4(1) show ?thesis
      by (elim insertE emptyE; force simp: 4(2) split: option.split)
  qed
qed



end
