(* ===== verification/Article_Editor.thy ===== *)
theory Article_Editor
  imports Article_Doc
begin

text \<open>
  An article's life: its state in review (\<open>core/models/articles.ts\<close>, \<open>ui/article-status.ts\<close>) and the page
  that writes it (\<open>editor/article-editor.ts\<close>).  The page is a transition system: what the writer does, the
  autosave timer, and the answers of the API are events.  One event runs the code up to the next
  \<open>await\<close>; when a save settles, the calls awaiting it resume in the order they began to wait, and the
  callers of those that finish follow.  Fields \<open>acked\<close>, \<open>held_back\<close> and \<open>gone\<close> only record history.
\<close>

section \<open>State in review\<close>

datatype article_status = Draft | In_Review | Changes_Requested | Published

record content =
  c_title :: string
  c_subtitle :: string
  c_cover_url :: string
  c_cover_caption :: string
  c_body :: doc_node
  c_tags :: "string list"

record article =
  art_id :: string
  art_status :: article_status
  publish_at :: "string option"
  art_content :: content

text \<open>\<open>Date.parse\<close>, in milliseconds; \<open>None\<close> is NaN, with which no comparison holds.\<close>

type_synonym date_parser = "string \<Rightarrow> real option"

definition publish_time :: "date_parser \<Rightarrow> article \<Rightarrow> real option" where
  "publish_time date a =
     (if art_status a \<noteq> Published then None
      else case publish_at a of None \<Rightarrow> None | Some s \<Rightarrow> if s = [] then None else date s)"

definition isLive :: "date_parser \<Rightarrow> real \<Rightarrow> article \<Rightarrow> bool" where
  "isLive date now a \<longleftrightarrow> (case publish_time date a of None \<Rightarrow> False | Some t \<Rightarrow> t \<le> now)"

definition isScheduled :: "date_parser \<Rightarrow> real \<Rightarrow> article \<Rightarrow> bool" where
  "isScheduled date now a \<longleftrightarrow> (case publish_time date a of None \<Rightarrow> False | Some t \<Rightarrow> t > now)"

datatype tone = ToneDraft | ToneReview | ToneChanges | ToneScheduled | ToneLive

definition statusLabel :: "date_parser \<Rightarrow> real \<Rightarrow> article \<Rightarrow> string \<times> tone" where
  "statusLabel date now a =
     (case art_status a of
        Draft \<Rightarrow> (''Draft'', ToneDraft)
      | In_Review \<Rightarrow> (''In review'', ToneReview)
      | Changes_Requested \<Rightarrow> (''Changes requested'', ToneChanges)
      | Published \<Rightarrow> if isScheduled date now a then (''Scheduled'', ToneScheduled) else (''Published'', ToneLive))"

text \<open>\<open>relativeTime\<close>: how many of which unit; \<open>None\<close> reads "just now".\<close>

definition TIME_STEPS :: "(string \<times> real) list" where
  "TIME_STEPS = [(''year'', 365 * 24 * 3600), (''month'', 30 * 24 * 3600), (''week'', 7 * 24 * 3600),
     (''day'', 24 * 3600), (''hour'', 3600), (''minute'', 60)]"

definition relative_steps :: "real \<Rightarrow> (int \<times> string) option" where
  "relative_steps seconds =
     map_option (\<lambda>(u, size). (js_round (seconds / size), u)) (find (\<lambda>(u, size). \<bar>seconds\<bar> \<ge> size) TIME_STEPS)"

section \<open>The page\<close>

datatype action = Submit "string option" | Request_Changes string | Withdraw

datatype after = Nothing | Act action string

record run =
  run_seen :: nat
  run_target :: "string option"
  run_input :: content
  run_then :: after

record desk =
  article :: "article option"
  loading :: bool
  loadError :: "string option"
  work :: content
  dirty :: bool
  saving :: bool
  savedAt :: bool
  saveError :: "string option"
  busy :: bool
  notice :: "string option"
  actionError :: "string option"
  timer :: bool
  edits :: nat
  inFlight :: "nat option"
  runs :: "nat \<Rightarrow> run option"
  next_run :: nat
  waiters :: "(nat \<times> after) list"
  acts :: "(string \<times> action \<times> string) list"
  session_admin :: bool
  acked :: "content option"
  held_back :: bool
  deleting :: bool
  gone :: bool

definition blank_content :: content where
  "blank_content = \<lparr>c_title = [], c_subtitle = [], c_cover_url = [], c_cover_caption = [],
     c_body = emptyArticleDoc, c_tags = []\<rparr>"

definition new_desk :: "bool \<Rightarrow> bool \<Rightarrow> desk" where
  "new_desk admin open_id = \<lparr>article = None, loading = open_id, loadError = None, work = blank_content,
     dirty = False, saving = False, savedAt = False, saveError = None, busy = False, notice = None,
     actionError = None, timer = False, edits = 0, inFlight = None, runs = Map.empty, next_run = 0,
     waiters = [], acts = [], session_admin = admin, acked = None, held_back = False, deleting = False, gone = False\<rparr>"

definition canEdit :: "desk \<Rightarrow> bool" where
  "canEdit s \<longleftrightarrow> (case article s of None \<Rightarrow> True
     | Some a \<Rightarrow> session_admin s \<or> art_status a = Draft \<or> art_status a = Changes_Requested)"

definition lockReason :: "desk \<Rightarrow> string option" where
  "lockReason s =
     (case article s of
        None \<Rightarrow> None
      | Some a \<Rightarrow>
          if canEdit s then None
          else if art_status a = In_Review then Some ''This article is waiting for review, so it is locked.''
          else Some ''This article is published. Only an administrator can change it now.'')"

text \<open>A message counts when it is not the empty string.\<close>

definition shown_error :: "desk \<Rightarrow> bool" where
  "shown_error s \<longleftrightarrow> saveError s \<noteq> None \<and> saveError s \<noteq> Some []"

definition saveLabel :: "desk \<Rightarrow> string" where
  "saveLabel s =
     (if shown_error s then ''Not saved''
      else if saving s then ''Saving...''
      else if dirty s then ''Unsaved changes''
      else if savedAt s then ''Saved''
      else if article s \<noteq> None then ''All changes saved''
      else ''New draft'')"

definition reading_minutes :: "desk \<Rightarrow> int" where
  "reading_minutes s = max 1 \<lceil>real (wordCount (c_body (work s))) / 230\<rceil>"

section \<open>Editing and saving\<close>

definition edited :: "desk \<Rightarrow> desk" where
  "edited s = (if \<not> canEdit s then s
     else s\<lparr>edits := edits s + 1, dirty := True, notice := None, timer := True\<rparr>)"

definition loaded :: "string + article \<Rightarrow> desk \<Rightarrow> desk" where
  "loaded res s =
     (case res of
        Inl msg \<Rightarrow> s\<lparr>loadError := Some msg, loading := False\<rparr>
      | Inr a \<Rightarrow>
          (let c = art_content a;
               c' = (if node_type (c_body c) = ''doc'' then c else c\<lparr>c_body := emptyArticleDoc\<rparr>)
           in s\<lparr>article := Some a, work := c', loading := False, acked := Some c'\<rparr>))"

definition nothing_written :: "content \<Rightarrow> bool" where
  "nothing_written c \<longleftrightarrow> trim (c_title c) = [] \<and> trim (c_subtitle c) = [] \<and> c_cover_url c = []
     \<and> isEmptyDoc (c_body c)"

definition start_run :: "after \<Rightarrow> desk \<Rightarrow> desk" where
  "start_run k s =
     (let r = next_run s in
      s\<lparr>saving := True, saveError := None, inFlight := Some r, next_run := Suc r,
        runs := (runs s)(r \<mapsto> \<lparr>run_seen = edits s, run_target = map_option art_id (article s),
                               run_input = work s, run_then = k\<rparr>)\<rparr>)"

text \<open>\<open>save\<close> from the check of \<open>dirty\<close> on; the callers that are done already are returned.\<close>

definition save_body :: "after \<Rightarrow> desk \<Rightarrow> desk \<times> after list" where
  "save_body k s =
     (if \<not> dirty s then (s, [k])
      else if \<not> canEdit s then (s\<lparr>held_back := True\<rparr>, [k])
      else if article s = None \<and> nothing_written (work s) then (s\<lparr>dirty := False\<rparr>, [k])
      else (start_run k s, []))"

text \<open>What follows \<open>await this.save()\<close> in \<open>act\<close>.\<close>

fun continue_after :: "after \<Rightarrow> desk \<Rightarrow> desk" where
  "continue_after Nothing s = s"
| "continue_after (Act act done_msg) s =
     (case article s of
        None \<Rightarrow> s
      | Some a \<Rightarrow>
          if shown_error s then s
          else s\<lparr>busy := True, actionError := None, acts := acts s @ [(art_id a, act, done_msg)]\<rparr>)"

definition save_call :: "after \<Rightarrow> desk \<Rightarrow> desk" where
  "save_call k s =
     (let s = s\<lparr>timer := False\<rparr> in
      case inFlight s of
        Some r \<Rightarrow> s\<lparr>waiters := waiters s @ [(r, k)]\<rparr>
      | None \<Rightarrow> (case save_body k s of (s', ks) \<Rightarrow> fold continue_after ks s'))"

text \<open>The body of the save that was on the wire, up to its \<open>finally\<close>.\<close>

definition run_settles :: "run \<Rightarrow> string + article \<Rightarrow> desk \<Rightarrow> desk" where
  "run_settles r res s =
     (case res of
        Inr saved \<Rightarrow> s\<lparr>article := Some saved, savedAt := True,
                       dirty := (if edits s = run_seen r then False else dirty s),
                       acked := Some (run_input r), saving := False, inFlight := None\<rparr>
      | Inl msg \<Rightarrow> s\<lparr>saveError := Some msg, saving := False, inFlight := None\<rparr>)"

definition rearm :: "desk \<Rightarrow> desk" where
  "rearm s = (if dirty s \<and> \<not> shown_error s \<and> \<not> timer s then s\<lparr>timer := True\<rparr> else s)"

fun resume :: "after list \<Rightarrow> desk \<Rightarrow> desk \<times> after list" where
  "resume [] s = (s, [])"
| "resume (k # ks) s =
     (case save_body k s of (s', done1) \<Rightarrow> case resume ks s' of (s'', done2) \<Rightarrow> (s'', done1 @ done2))"

definition run_done :: "nat \<Rightarrow> string + article \<Rightarrow> desk \<Rightarrow> desk" where
  "run_done r res s =
     (case runs s r of
        None \<Rightarrow> s
      | Some run \<Rightarrow>
          (let s1 = rearm (run_settles run res (s\<lparr>runs := (runs s)(r := None)\<rparr>));
               mine = map snd (filter (\<lambda>w. fst w = r) (waiters s));
               s2 = s1\<lparr>waiters := filter (\<lambda>w. fst w \<noteq> r) (waiters s)\<rparr>
           in case resume mine s2 of (s3, ks) \<Rightarrow> fold continue_after (run_then run # ks) s3))"

section \<open>The workflow\<close>

definition submit_notice :: "bool \<Rightarrow> bool \<Rightarrow> string" where
  "submit_notice admin later =
     (if admin
      then (if later then ''Scheduled. It will go live on its own at that time.''
            else ''Published. It is live in the Analysis section.'')
      else ''Sent for review. An administrator will publish it or send it back.'')"

definition press_submit :: "string option \<Rightarrow> desk \<Rightarrow> desk" where
  "press_submit pub s =
     save_call (Act (Submit pub) (submit_notice (session_admin s) (pub \<noteq> None \<and> pub \<noteq> Some []))) s"

definition press_changes :: "string \<Rightarrow> desk \<Rightarrow> desk" where
  "press_changes note s = save_call (Act (Request_Changes note) ''Sent back to the writer with your note.'') s"

definition press_withdraw :: "desk \<Rightarrow> desk" where
  "press_withdraw s =
     save_call (Act Withdraw (if map_option art_status (article s) = Some Published
       then ''Unpublished. It is a draft again.'' else ''Withdrawn. You can edit it again.'')) s"

definition act_done :: "nat \<Rightarrow> string + article \<Rightarrow> desk \<Rightarrow> desk" where
  "act_done i res s =
     (if i < length (acts s)
      then (let s1 = s\<lparr>acts := remove_at i (acts s), busy := False\<rparr> in
            case res of
              Inr next_a \<Rightarrow> s1\<lparr>article := Some next_a, notice := Some (snd (snd (acts s ! i)))\<rparr>
            | Inl msg \<Rightarrow> s1\<lparr>actionError := Some msg\<rparr>)
      else s)"

definition press_delete :: "desk \<Rightarrow> desk" where
  "press_delete s = (if article s = None then s else s\<lparr>busy := True, deleting := True\<rparr>)"

definition deleted :: "string option \<Rightarrow> desk \<Rightarrow> desk" where
  "deleted failure s =
     (case failure of
        None \<Rightarrow> s\<lparr>dirty := False, busy := False, deleting := False, gone := True\<rparr>
      | Some msg \<Rightarrow> s\<lparr>actionError := Some msg, busy := False, deleting := False\<rparr>)"

text \<open>\<open>canLeave\<close>: whether to leave at once, and the page after the call.\<close>

definition canLeave :: "desk \<Rightarrow> bool \<times> desk" where
  "canLeave s = (if \<not> dirty s \<and> \<not> saving s then (True, s) else (False, save_call Nothing s))"

datatype event =
    Loaded "string + article" | Edit content | Save_Now | Timer_Fires | Leave
  | Run_Done nat "string + article"
  | Press_Submit "string option" | Press_Changes string | Press_Withdraw
  | Act_Done nat "string + article" | Press_Delete | Deleted "string option"

text \<open>What can happen when, and what it does; the page's controls are guarded by its template.\<close>

definition desk_step :: "event \<Rightarrow> desk \<Rightarrow> desk option" where
  "desk_step e s =
     (if gone s then None
      else case e of
        Loaded res \<Rightarrow> if loading s then Some (loaded res s) else None
      | Edit c \<Rightarrow> if canEdit s \<and> \<not> loading s \<and> loadError s = None then Some (edited (s\<lparr>work := c\<rparr>)) else None
      | Save_Now \<Rightarrow> Some (save_call Nothing s)
      | Timer_Fires \<Rightarrow> if timer s then Some (save_call Nothing s) else None
      | Leave \<Rightarrow> Some (snd (canLeave s))
      | Run_Done r res \<Rightarrow> if runs s r = None then None else Some (run_done r res s)
      | Press_Submit pub \<Rightarrow> if busy s \<or> saving s then None else Some (press_submit pub s)
      | Press_Changes note \<Rightarrow> if busy s \<or> saving s then None else Some (press_changes note s)
      | Press_Withdraw \<Rightarrow> if busy s \<or> saving s then None else Some (press_withdraw s)
      | Act_Done i res \<Rightarrow> if i < length (acts s) then Some (act_done i res s) else None
      | Press_Delete \<Rightarrow> if busy s \<or> saving s then None else Some (press_delete s)
      | Deleted f \<Rightarrow> if deleting s then Some (deleted f s) else None)"

section \<open>No edit is lost\<close>

text \<open>
  The pages the writer can reach while at most one call waits for a save on the wire.  A second call that
  waits with it starts a second save beside the first (see \<open>waiting_saves_run_together\<close>).
\<close>

inductive calm :: "desk \<Rightarrow> bool" where
  calm_new: "calm (new_desk admin open_id)"
| calm_step: "calm s \<Longrightarrow> desk_step e s = Some s' \<Longrightarrow> length (waiters s') \<le> 1 \<Longrightarrow> calm s'"

definition one_run :: "desk \<Rightarrow> bool" where
  "one_run s \<longleftrightarrow>
     (inFlight s = None \<longrightarrow> runs s = Map.empty \<and> waiters s = [] \<and> \<not> saving s)
   \<and> (\<forall>r. inFlight s = Some r \<longrightarrow> (\<exists>run. runs s = [r \<mapsto> run] \<and> (dirty s \<or> gone s) \<and> saving s
          \<and> run_seen run \<le> edits s \<and> (run_seen run = edits s \<longrightarrow> run_input run = work s)
          \<and> list_all (\<lambda>w. fst w = r) (waiters s)))"

definition kept_safe :: "desk \<Rightarrow> bool" where
  "kept_safe s \<longleftrightarrow> dirty s \<or> gone s \<or> acked s = Some (work s) \<or> article s = None \<and> nothing_written (work s)"

definition will_save :: "desk \<Rightarrow> bool" where
  "will_save s \<longleftrightarrow> timer s \<or> inFlight s \<noteq> None \<or> shown_error s \<or> held_back s"

definition desk_inv :: "desk \<Rightarrow> bool" where
  "desk_inv s \<longleftrightarrow> one_run s \<and> kept_safe s \<and> (acts s \<noteq> [] \<longrightarrow> article s \<noteq> None)
     \<and> (loading s \<longrightarrow> \<not> dirty s \<and> inFlight s = None)"

lemmas desk_inv_defs = desk_inv_def one_run_def kept_safe_def

lemma continue_after_keeps [simp]:
  "inFlight (continue_after k s) = inFlight s" "runs (continue_after k s) = runs s"
  "waiters (continue_after k s) = waiters s" "saving (continue_after k s) = saving s"
  "dirty (continue_after k s) = dirty s" "gone (continue_after k s) = gone s" "edits (continue_after k s) = edits s"
  "work (continue_after k s) = work s" "acked (continue_after k s) = acked s"
  "article (continue_after k s) = article s" "loading (continue_after k s) = loading s"
  "timer (continue_after k s) = timer s" "saveError (continue_after k s) = saveError s"
  "held_back (continue_after k s) = held_back s"
  by (cases k; auto split: option.split)+

lemma continue_after_acts: "acts (continue_after k s) \<noteq> [] \<Longrightarrow> acts s \<noteq> [] \<or> article s \<noteq> None"
  by (cases k) (auto split: option.splits if_splits)

lemma continue_inv:
  "desk_inv s \<Longrightarrow> desk_inv (continue_after k s)" "will_save (continue_after k s) = will_save s"
  using continue_after_acts [of k s] by (auto simp: desk_inv_defs will_save_def shown_error_def)

lemma continue_all_inv:
  "desk_inv s \<Longrightarrow> desk_inv (fold continue_after ks s)" "will_save (fold continue_after ks s) = will_save s"
  "dirty (fold continue_after ks s) = dirty s"
  by (induction ks arbitrary: s) (simp_all add: continue_inv)

lemma save_body_inv:
  assumes "desk_inv s" "inFlight s = None"
  shows "desk_inv (fst (save_body k s))"
    and "dirty (fst (save_body k s)) \<Longrightarrow> will_save (fst (save_body k s))"
    and "inFlight (fst (save_body k s)) = None \<or> snd (save_body k s) = []"
  using assms
  by (auto simp: save_body_def start_run_def desk_inv_defs will_save_def Let_def split: if_splits)

lemma save_call_inv:
  assumes "desk_inv s"
  shows "desk_inv (save_call k s) \<and> (dirty (save_call k s) \<longrightarrow> will_save (save_call k s))"
proof (cases "inFlight s")
  case (Some r)
  then show ?thesis using assms
    by (auto simp: save_call_def Let_def desk_inv_defs will_save_def)
next
  case None
  have "desk_inv (s\<lparr>timer := False\<rparr>)" using assms by (simp add: desk_inv_defs)
  note b = save_body_inv [OF this, of k]
  obtain s' ks where sb: "save_body k (s\<lparr>timer := False\<rparr>) = (s', ks)" by (cases "save_body k (s\<lparr>timer := False\<rparr>)")
  then have "save_call k s = fold continue_after ks s'" using None by (simp add: save_call_def)
  then show ?thesis using b sb None continue_all_inv by simp
qed

lemma run_settles_inv:
  assumes "desk_inv s" "inFlight s = Some r" "runs s r = Some run" "\<not> gone s"
    and t: "t = (rearm (run_settles run res (s\<lparr>runs := (runs s)(r := None)\<rparr>)))\<lparr>waiters := []\<rparr>"
  shows "desk_inv t \<and> inFlight t = None \<and> (dirty t \<longrightarrow> will_save t)"
  using assms(1-4) unfolding t
  by (cases res) (auto simp: rearm_def run_settles_def desk_inv_defs will_save_def shown_error_def)

lemma run_done_inv:
  assumes inv: "desk_inv s" and r: "runs s r = Some run" and g: "\<not> gone s" and w: "length (waiters s) \<le> 1"
  shows "desk_inv (run_done r res s) \<and> (dirty (run_done r res s) \<longrightarrow> will_save (run_done r res s))"
proof -
  have o: "one_run s" using inv by (simp add: desk_inv_def)
  then obtain r' where r': "inFlight s = Some r'" using r by (auto simp: one_run_def)
  with o obtain run' where run': "runs s = [r' \<mapsto> run']" "list_all (\<lambda>w. fst w = r') (waiters s)"
    unfolding one_run_def by blast
  then have "r' = r" using r by (simp split: if_splits)
  with r' run' have slot: "inFlight s = Some r" and ws: "\<forall>x\<in>set (waiters s). fst x = r"
    by (simp_all add: list_all_iff)
  let ?t = "(rearm (run_settles run res (s\<lparr>runs := (runs s)(r := None)\<rparr>)))\<lparr>waiters := []\<rparr>"
  note t = run_settles_inv [OF inv slot r g refl, of res]
  have filters: "filter (\<lambda>w. fst w \<noteq> r) (waiters s) = []" "filter (\<lambda>w. fst w = r) (waiters s) = waiters s"
    using ws by (auto simp: filter_empty_conv filter_id_conv)
  obtain s3 ks where res: "resume (map snd (waiters s)) ?t = (s3, ks)" by fastforce
  have "desk_inv s3 \<and> (dirty s3 \<longrightarrow> will_save s3)"
  proof (cases "waiters s")
    case Nil
    with res t show ?thesis by simp
  next
    case (Cons x xs)
    with w have "resume [snd x] ?t = (s3, ks)" using res by simp
    then have "s3 = fst (save_body (snd x) ?t)" by (auto split: prod.splits)
    with save_body_inv [of ?t "snd x"] t show ?thesis by simp
  qed
  moreover have "run_done r res s = fold continue_after (run_then run # ks) s3"
    using r res filters by (simp add: run_done_def Let_def)
  ultimately show ?thesis using continue_all_inv [where s = s3 and ks = "run_then run # ks"] by simp
qed

lemma nothing_in_blank: "nothing_written blank_content"
  by (simp add: nothing_written_def blank_content_def isEmptyDoc_def emptyArticleDoc_def trim_def EMBEDS_def)

lemma act_done_inv:
  assumes "desk_inv s" "i < length (acts s)"
  shows "desk_inv (act_done i res s)" "will_save (act_done i res s) = will_save s"
    "dirty (act_done i res s) = dirty s"
proof -
  have "article s \<noteq> None" using assms by (auto simp: desk_inv_def)
  with assms show "desk_inv (act_done i res s)"
    by (cases res) (auto simp: act_done_def desk_inv_defs)
qed (use assms in \<open>cases res; simp add: act_done_def will_save_def shown_error_def\<close>)+

lemma loaded_inv:
  assumes "desk_inv s" "loading s"
  shows "desk_inv (loaded res s)" "dirty (loaded res s) = dirty s"
  using assms by (cases res; simp add: loaded_def Let_def desk_inv_defs)+

lemma deleted_inv:
  assumes "desk_inv s"
  shows "desk_inv (deleted f s)" "dirty (deleted f s) \<Longrightarrow> dirty s \<and> will_save (deleted f s) = will_save s"
  using assms by (cases f; auto simp: deleted_def desk_inv_defs will_save_def shown_error_def)+

lemma press_delete_inv:
  assumes "desk_inv s"
  shows "desk_inv (press_delete s)" "dirty (press_delete s) = dirty s" "will_save (press_delete s) = will_save s"
  using assms by (auto simp: press_delete_def desk_inv_defs will_save_def shown_error_def)

lemma edited_inv:
  assumes "desk_inv s" "\<not> loading s" "canEdit s"
  shows "desk_inv (edited (s\<lparr>work := c\<rparr>))" "will_save (edited (s\<lparr>work := c\<rparr>))"
proof -
  have e: "edited (s\<lparr>work := c\<rparr>)
      = s\<lparr>work := c, edits := edits s + 1, dirty := True, notice := None, timer := True\<rparr>"
    using assms(3) by (cases "article s") (simp_all add: edited_def canEdit_def)
  have "one_run (edited (s\<lparr>work := c\<rparr>))"
    unfolding one_run_def
  proof (intro conjI allI impI)
    fix r
    assume "inFlight (edited (s\<lparr>work := c\<rparr>)) = Some r"
    then have "inFlight s = Some r" by (simp add: e)
    then obtain run where "runs s = [r \<mapsto> run]" "saving s" "run_seen run \<le> edits s"
        "list_all (\<lambda>w. fst w = r) (waiters s)"
      using assms(1) unfolding desk_inv_def one_run_def by blast
    then show "\<exists>run. runs (edited (s\<lparr>work := c\<rparr>)) = [r \<mapsto> run]
        \<and> (dirty (edited (s\<lparr>work := c\<rparr>)) \<or> gone (edited (s\<lparr>work := c\<rparr>))) \<and> saving (edited (s\<lparr>work := c\<rparr>))
        \<and> run_seen run \<le> edits (edited (s\<lparr>work := c\<rparr>))
        \<and> (run_seen run = edits (edited (s\<lparr>work := c\<rparr>)) \<longrightarrow> run_input run = work (edited (s\<lparr>work := c\<rparr>)))
        \<and> list_all (\<lambda>w. fst w = r) (waiters (edited (s\<lparr>work := c\<rparr>)))"
      by (intro exI [of _ run]) (simp add: e)
  qed (use assms(1) in \<open>simp_all add: e desk_inv_def one_run_def\<close>)
  with assms show "desk_inv (edited (s\<lparr>work := c\<rparr>))" by (simp add: desk_inv_def kept_safe_def e)
  show "will_save (edited (s\<lparr>work := c\<rparr>))" by (simp add: e will_save_def)
qed

lemma desk_step_inv:
  assumes "desk_inv s" "dirty s \<longrightarrow> will_save s" "length (waiters s) \<le> 1" "desk_step e s = Some s'"
  shows "desk_inv s' \<and> (dirty s' \<longrightarrow> will_save s')"
proof (cases e)
  case (Loaded res)
  with assms have "s' = loaded res s" "loading s" by (auto simp: desk_step_def split: if_splits)
  then show ?thesis using loaded_inv assms(1) by (simp add: desk_inv_def)
next
  case (Edit c)
  with assms have "s' = edited (s\<lparr>work := c\<rparr>)" "\<not> loading s" "canEdit s"
    by (auto simp: desk_step_def split: if_splits)
  then show ?thesis using edited_inv assms(1) by simp
next
  case (Run_Done r res)
  with assms obtain run where "s' = run_done r res s" "runs s r = Some run" "\<not> gone s"
    by (auto simp: desk_step_def split: if_splits)
  then show ?thesis using run_done_inv assms(1,3) by simp
next
  case (Act_Done i res)
  with assms have "s' = act_done i res s" "i < length (acts s)" by (auto simp: desk_step_def split: if_splits)
  then show ?thesis using act_done_inv assms(1,2) by simp
next
  case (Deleted f)
  with assms have "s' = deleted f s" by (auto simp: desk_step_def split: if_splits)
  then show ?thesis using deleted_inv assms(1,2) by auto
next
  case Press_Delete
  with assms have "s' = press_delete s" by (auto simp: desk_step_def split: if_splits)
  then show ?thesis using press_delete_inv assms(1,2) by auto
next
  case Leave
  with assms show ?thesis using save_call_inv [OF assms(1), of Nothing]
    by (auto simp: desk_step_def canLeave_def split: if_splits)
qed (use assms save_call_inv [OF assms(1)] in
     \<open>auto simp: desk_step_def press_submit_def press_changes_def press_withdraw_def split: if_splits\<close>)

lemma calm_waiters: "calm s \<Longrightarrow> length (waiters s) \<le> 1"
  by (induction rule: calm.induct) (simp_all add: new_desk_def)

lemma calm_inv: "calm s \<Longrightarrow> desk_inv s \<and> (dirty s \<longrightarrow> will_save s)"
proof (induction rule: calm.induct)
  case (calm_new admin open_id)
  show ?case by (simp add: new_desk_def desk_inv_defs nothing_in_blank)
next
  case (calm_step s e s')
  then show ?case using desk_step_inv calm_waiters by blast
qed


text \<open>
  One save at a time: as long as no more than one call waits, at most one save is on the wire, the page
  says so exactly while it is, and it carries the latest text unless there were edits since it started.
\<close>
theorem one_save_at_a_time:
  assumes "calm s"
  shows "(runs s = Map.empty \<longleftrightarrow> \<not> saving s)
    \<and> (\<forall>r run. runs s r = Some run \<longrightarrow> dom (runs s) = {r} \<and> inFlight s = Some r
         \<and> (run_seen run = edits s \<longrightarrow> run_input run = work s))"
  using calm_inv [OF assms] by (auto simp: desk_inv_def one_run_def split: option.splits if_splits)

fun desk_runs :: "event list \<Rightarrow> desk \<Rightarrow> desk option" where
  "desk_runs [] s = Some s"
| "desk_runs (e # es) s = (case desk_step e s of None \<Rightarrow> None | Some s' \<Rightarrow> desk_runs es s')"

definition one_line :: content where
  "one_line = blank_content\<lparr>c_title := ''T''\<rparr>"

lemma one_line_written: "\<not> nothing_written one_line" "\<not> nothing_written (one_line\<lparr>c_subtitle := x\<rparr>)"
  by (simp_all add: nothing_written_def one_line_def trim_def is_ws_def)

lemma one_line_root: "node_type (c_body one_line) = ''doc''"
  by (simp add: one_line_def blank_content_def emptyArticleDoc_def)

definition draft_of :: "content \<Rightarrow> article" where
  "draft_of c = \<lparr>art_id = ''a1'', art_status = Draft, publish_at = None, art_content = c\<rparr>"

lemma calm_typing:
  "\<exists>s. calm s \<and> desk_runs [Edit one_line, Timer_Fires] (new_desk False False) = Some s \<and> dirty s
     \<and> runs s = [0 \<mapsto> \<lparr>run_seen = 1, run_target = None, run_input = one_line, run_then = Nothing\<rparr>]"
proof -
  let ?s0 = "new_desk False False" and ?k = "\<lparr>run_seen = 1, run_target = None, run_input = one_line, run_then = Nothing\<rparr>"
  let ?s1 = "?s0\<lparr>work := one_line, edits := 1, dirty := True, timer := True\<rparr>"
  let ?s2 = "?s1\<lparr>timer := False, saving := True, inFlight := Some 0, next_run := 1, runs := [0 \<mapsto> ?k]\<rparr>"
  have 1: "desk_step (Edit one_line) ?s0 = Some ?s1"
    by (simp add: desk_step_def new_desk_def edited_def canEdit_def)
  have 2: "desk_step Timer_Fires ?s1 = Some ?s2"
    by (simp add: desk_step_def new_desk_def save_call_def save_body_def start_run_def canEdit_def one_line_written)
  have "calm ?s1" by (rule calm_step [OF calm_new 1]) (simp add: new_desk_def)
  then have "calm ?s2" by (rule calm_step [OF _ 2]) (simp add: new_desk_def)
  then show ?thesis using 1 2 by (intro exI [of _ ?s2]) simp
qed


theorem one_save_at_a_time_witness:
  "\<exists>s run. calm s \<and> runs s 0 = Some run \<and> dom (runs s) = {0} \<and> inFlight s = Some 0"
proof -
  obtain s where s: "calm s"
    "runs s = [0 \<mapsto> \<lparr>run_seen = 1, run_target = None, run_input = one_line, run_then = Nothing\<rparr>]"
    using calm_typing by (elim exE conjE)
  then have r: "runs s 0 = Some \<lparr>run_seen = 1, run_target = None, run_input = one_line, run_then = Nothing\<rparr>"
    by simp
  from one_save_at_a_time [OF s(1), THEN conjunct2, rule_format, OF r] s(1) r show ?thesis by blast
qed

text \<open>
  Two calls that wait for the same save start a save each when it fails: a new article is then being
  created twice at once, although the code means to run one save at a time.
\<close>
theorem waiting_saves_run_together:
  "\<exists>s. desk_runs [Edit one_line, Save_Now, Save_Now, Save_Now, Run_Done 0 (Inl ''offline'')] (new_desk False False) = Some s
     \<and> dom (runs s) = {1, 2} \<and> (\<forall>r\<in>dom (runs s). map_option run_target (runs s r) = Some None)"
  by (auto simp: desk_step_def new_desk_def edited_def canEdit_def save_call_def save_body_def start_run_def
      one_line_written run_done_def run_settles_def rearm_def shown_error_def Let_def)

theorem waiting_saves_run_together_witness:
  "\<exists>s. desk_runs [Edit one_line, Save_Now, Save_Now, Save_Now, Run_Done 0 (Inl ''offline'')] (new_desk False False) = Some s
     \<and> runs s 1 \<noteq> None \<and> runs s 2 \<noteq> None"
  using waiting_saves_run_together by (elim exE conjE) (auto simp: set_eq_iff)

lemma submission_run:
  assumes c: "node_type (c_body c) = ''doc''"
  shows "\<exists>s. desk_runs [Loaded (Inr (draft_of c)), Edit c1, Press_Submit None, Edit c2, Run_Done 0 (Inr (draft_of c1)),
        Act_Done 0 (Inr ((draft_of c1)\<lparr>art_status := In_Review\<rparr>)), Timer_Fires] (new_desk False True) = Some s
     \<and> acked s = Some c1 \<and> work s = c2 \<and> dirty s \<and> \<not> canEdit s \<and> \<not> timer s \<and> runs s = Map.empty
     \<and> saveLabel s = ''Unsaved changes''"
proof -
  let ?m = "submit_notice False False"
  let ?run = "\<lparr>run_seen = 1, run_target = Some ''a1'', run_input = c1, run_then = Act (Submit None) ?m\<rparr>"
  let ?r1 = "(new_desk False True)\<lparr>article := Some (draft_of c), work := c, loading := False, acked := Some c\<rparr>"
  let ?r2 = "?r1\<lparr>work := c1, edits := 1, dirty := True, timer := True\<rparr>"
  let ?r3 = "?r2\<lparr>timer := False, saving := True, inFlight := Some 0, next_run := 1, runs := [0 \<mapsto> ?run]\<rparr>"
  let ?r4 = "?r3\<lparr>work := c2, edits := 2, timer := True\<rparr>"
  let ?r5 = "?r4\<lparr>runs := Map.empty, article := Some (draft_of c1), savedAt := True, acked := Some c1, saving := False,
      inFlight := None, busy := True, acts := [(''a1'', Submit None, ?m)]\<rparr>"
  let ?r6 = "?r5\<lparr>acts := [], busy := False, article := Some ((draft_of c1)\<lparr>art_status := In_Review\<rparr>), notice := Some ?m\<rparr>"
  let ?r7 = "?r6\<lparr>timer := False, held_back := True\<rparr>"
  note defs = desk_step_def new_desk_def draft_of_def canEdit_def
  have 1: "desk_step (Loaded (Inr (draft_of c))) (new_desk False True) = Some ?r1"
    by (simp add: defs loaded_def c)
  have 2: "desk_step (Edit c1) ?r1 = Some ?r2" by (simp add: defs edited_def)
  have 3: "desk_step (Press_Submit None) ?r2 = Some ?r3"
    by (simp add: defs press_submit_def save_call_def save_body_def start_run_def)
  have 4: "desk_step (Edit c2) ?r3 = Some ?r4" by (simp add: defs edited_def)
  have 5: "desk_step (Run_Done 0 (Inr (draft_of c1))) ?r4 = Some ?r5"
    by (simp add: defs run_done_def run_settles_def rearm_def shown_error_def)
  have 6: "desk_step (Act_Done 0 (Inr ((draft_of c1)\<lparr>art_status := In_Review\<rparr>))) ?r5 = Some ?r6"
    by (simp add: defs act_done_def remove_at_def)
  have 7: "desk_step Timer_Fires ?r6 = Some ?r7" by (simp add: defs save_call_def save_body_def)
  have "saveLabel ?r7 = ''Unsaved changes''" "\<not> canEdit ?r7"
    by (simp_all add: saveLabel_def shown_error_def defs)
  then show ?thesis by (intro exI [of _ ?r7]) (simp only: desk_runs.simps 1 2 3 4 5 6 7 option.case, simp)
qed

text \<open>
  Text typed while a submission's save is on the wire is not in what is reviewed, and locks itself out:
  the article goes to review as it was saved before, and the page is left with unsaved text that nothing
  saves any more.
\<close>
theorem typing_during_submission_is_lost:
  "\<exists>s. desk_runs [Loaded (Inr (draft_of one_line)), Edit (one_line\<lparr>c_subtitle := ''a''\<rparr>), Press_Submit None,
        Edit (one_line\<lparr>c_subtitle := ''ab''\<rparr>), Run_Done 0 (Inr (draft_of (one_line\<lparr>c_subtitle := ''a''\<rparr>))),
        Act_Done 0 (Inr ((draft_of (one_line\<lparr>c_subtitle := ''a''\<rparr>))\<lparr>art_status := In_Review\<rparr>)),
        Timer_Fires] (new_desk False True) = Some s
     \<and> acked s = Some (one_line\<lparr>c_subtitle := ''a''\<rparr>) \<and> work s = one_line\<lparr>c_subtitle := ''ab''\<rparr>
     \<and> dirty s \<and> \<not> canEdit s \<and> \<not> timer s \<and> runs s = Map.empty \<and> saveLabel s = ''Unsaved changes''"
  using submission_run [OF one_line_root] by blast

section \<open>Published, scheduled, live\<close>

text \<open>
  A published article with a readable date is either waiting for its time or live, never both; once
  live it stays live; and the desk says Scheduled exactly while it waits.
\<close>
theorem published_waits_or_lives:
  assumes "art_status a = Published" "publish_at a = Some s" "s \<noteq> []" "date s = Some t"
  shows "(isLive date now a \<longleftrightarrow> \<not> isScheduled date now a)
    \<and> (now \<le> later \<longrightarrow> isLive date now a \<longrightarrow> isLive date later a)
    \<and> (statusLabel date now a = (''Scheduled'', ToneScheduled) \<longleftrightarrow> isScheduled date now a)"
  using assms by (auto simp: isLive_def isScheduled_def publish_time_def statusLabel_def)

theorem published_waits_or_lives_witness:
  "isScheduled (\<lambda>s. Some 10) 5 \<lparr>art_id = ''a'', art_status = Published, publish_at = Some ''x'', art_content = one_line\<rparr>
   \<and> statusLabel (\<lambda>s. Some 10) 5 \<lparr>art_id = ''a'', art_status = Published, publish_at = Some ''x'', art_content = one_line\<rparr>
      = (''Scheduled'', ToneScheduled)"
proof -
  let ?a = "\<lparr>art_id = ''a'', art_status = Published, publish_at = Some ''x'', art_content = one_line\<rparr>"
  have "isScheduled (\<lambda>s. Some 10) 5 ?a" by (simp add: isScheduled_def publish_time_def)
  with published_waits_or_lives [of ?a "''x''" "\<lambda>s. Some 10" 10 5 5] show ?thesis by simp
qed

end
