(* ===== verification/Board_Pieces.thy ===== *)
theory Board_Pieces
  imports Board_Model "HOL-Library.Word"
begin

text \<open>
  What stands on the board (\<open>features/tactics/board/pieces.ts\<close>) and what is painted on it (\<open>textures.ts\<close>).  A piece is
  the description the code hands to the graphics library: the geometries it asks for with their measures, the
  material of each, and where each part goes.  What the library makes of a description is not modelled, nor is
  \<open>computeVertexNormals\<close>.  Angles are in quarter turns.
\<close>

section \<open>Parts\<close>

type_synonym vec3 = "real \<times> real \<times> real"

datatype geometry =
    GCylinder real real real nat bool
  | GTorus real real nat nat
  | GCapsule real real nat nat
  | GSphere real nat nat
  | GCone real real nat
  | GBox real real real
  | GQuad "vec3 list" real real
  | GShape "vec2 list" real
  | GArch real real real
  | GTube real real real real nat real

text \<open>
  Materials of the registry are named by what their key lists; every other material belongs to one piece.  \<open>Kit\<close>, \<open>BallMap\<close>
  and \<open>Net\<close> wear a texture.
\<close>

datatype shared_material = Std string real real string | Plain string

datatype own_material = Kit string string kit_pattern | BibCloth string | BallMap string | Net | FlagCloth string

datatype material = Shared shared_material | Own own_material

record part =
  geo :: geometry
  mat :: material
  casts :: bool
  receives :: bool
  spot :: vec3
  rot_x :: int
  rot_y :: int
  stretch :: vec3
  part_name :: string

datatype label_kind = NumberLabel | NameLabel

datatype piece_child =
    Mesh part
  | Sprite string string label_kind vec3 vec3

definition mesh :: "geometry \<Rightarrow> material \<Rightarrow> bool \<Rightarrow> part" where
  "mesh g m shadows = \<lparr>geo = g, mat = m, casts = shadows, receives = shadows, spot = (0, 0, 0), rot_x = 0, rot_y = 0,
     stretch = (1, 1, 1), part_name = []\<rparr>"

definition up :: "real \<Rightarrow> part \<Rightarrow> part" where
  "up y p = p\<lparr>spot := (fst (spot p), y, snd (snd (spot p)))\<rparr>"

definition standard :: "string \<Rightarrow> material" where
  "standard c = Shared (Std c (55 / 100) 0 [])"

definition standard_rough :: "string \<Rightarrow> real \<Rightarrow> material" where
  "standard_rough c r = Shared (Std c r 0 [])"

definition basic :: "string \<Rightarrow> material" where
  "basic c = Shared (Plain c)"

definition piece_scale :: "object_kind \<Rightarrow> real" where
  "piece_scale k = (case k of PlayerKind \<Rightarrow> 13 / 10 | Equip Ball \<Rightarrow> 22 / 10 | Equip Goal \<Rightarrow> 1 | Equip _ \<Rightarrow> 125 / 100)"

section \<open>Players\<close>

definition PLAYER_HEIGHT :: real where "PLAYER_HEIGHT = 29 / 10"
definition PLAYER_RADIUS :: real where "PLAYER_RADIUS = 95 / 100"
definition TOKEN_RADIUS :: real where "TOKEN_RADIUS = 13 / 10"

definition number_fill :: "look \<Rightarrow> string" where
  "number_fill l = (if look_numbers l = look_primary l then ''#ffffff'' else look_numbers l)"

definition player_parts :: "tactic_doc \<Rightarrow> board_object \<Rightarrow> piece_child list" where
  "player_parts doc ob =
     (let l = playerLook doc ob in
      [Mesh (up (7 / 100) (mesh (GCylinder PLAYER_RADIUS (PLAYER_RADIUS * (104 / 100)) (14 / 100) 40 False)
          (standard_rough (look_secondary l) (4 / 10)) True)),
       Mesh ((up (14 / 100) (mesh (GTorus PLAYER_RADIUS (7 / 100) 10 48)
          (standard_rough (look_primary l) (35 / 100)) False))\<lparr>rot_x := 1\<rparr>),
       Mesh (up (16 / 100 + 6 / 10 + 475 / 1000) (mesh (GCapsule (6 / 10) (95 / 100) 8 24)
          (Own (Kit (look_primary l) (look_secondary l) (look_pattern l))) True))]
      @ (if or_empty (bib ob) \<noteq> []
         then [Mesh (up (155 / 100) (mesh (GCylinder (635 / 1000) (635 / 1000) (7 / 10) 28 True)
                 (Own (BibCloth (or_empty (bib ob)))) True))] else [])
      @ [Mesh (up (242 / 100) (mesh (GSphere (4 / 10) 24 16) (standard_rough ''#e2e8f0'' (45 / 100)) True))]
      @ (if or_empty (number ob) \<noteq> []
         then [Sprite (or_empty (number ob)) (number_fill l) NumberLabel (25 / 10, 25 / 10, 1) (0, PLAYER_HEIGHT + 95 / 100, 0)]
         else [])
      @ (if or_empty (obj_name ob) \<noteq> []
         then [Sprite (or_empty (obj_name ob)) ''#ffffff'' NameLabel (44 / 10, 11 / 10, 1)
                 (0, (if or_empty (number ob) \<noteq> [] then PLAYER_HEIGHT + 23 / 10 else PLAYER_HEIGHT + 95 / 100), 0)]
         else []))"

definition token_parts :: "tactic_doc \<Rightarrow> board_object \<Rightarrow> piece_child list" where
  "token_parts doc ob =
     (let l = playerLook doc ob; r = TOKEN_RADIUS in
      [Mesh (up (6 / 100) (mesh (GCylinder r r (12 / 100) 40 False) (basic (look_primary l)) False)),
       Mesh ((up (14 / 100) (mesh (GTorus r (16 / 100) 8 48) (basic (look_secondary l)) False))\<lparr>rot_x := 1\<rparr>)]
      @ (if or_empty (bib ob) \<noteq> []
         then [Mesh ((up (15 / 100) (mesh (GTorus (r * (62 / 100)) (12 / 100) 8 40) (basic (or_empty (bib ob))) False))\<lparr>rot_x := 1\<rparr>)]
         else [])
      @ (if or_empty (number ob) \<noteq> []
         then [Sprite (or_empty (number ob)) (number_fill l) NumberLabel (25 / 10, 25 / 10, 1) (0, 3 / 10, 0)] else [])
      @ (if or_empty (obj_name ob) \<noteq> []
         then [Sprite (or_empty (obj_name ob)) ''#ffffff'' NameLabel (56 / 10, 14 / 10, 1) (0, 3 / 10, r + 8 / 10)] else []))"

section \<open>Goals\<close>

text \<open>The net hangs between the frame and the back stays: a sloped roof, an upright back and two sides.\<close>

definition back_height :: "real \<Rightarrow> real" where
  "back_height h = h * (75 / 100)"

definition roof_corners :: "real \<Rightarrow> real \<Rightarrow> real \<Rightarrow> vec3 list" where
  "roof_corners w h d = [(0, h, - (w / 2)), (0, h, w / 2), (- d, back_height h, w / 2), (- d, back_height h, - (w / 2))]"

definition back_corners :: "real \<Rightarrow> real \<Rightarrow> real \<Rightarrow> vec3 list" where
  "back_corners w h d = [(- d, 0, - (w / 2)), (- d, 0, w / 2), (- d, back_height h, w / 2), (- d, back_height h, - (w / 2))]"

definition side_outline :: "real \<Rightarrow> real \<Rightarrow> vec2 list" where
  "side_outline h d = [(0, 0), (0, h), (- d, back_height h), (- d, 0)]"

definition goal_parts :: "real \<Rightarrow> real \<Rightarrow> real \<Rightarrow> string \<Rightarrow> real \<Rightarrow> piece_child list" where
  "goal_parts w h d c post =
     (let frame = Shared (Std c (3 / 10) (1 / 10) []); thin = standard_rough ''#cbd5e1'' (5 / 10);
          hw = w / 2; cell = 16 / 100; back = back_height h in
      map (\<lambda>z. Mesh ((mesh (GCylinder post post h 16 False) frame True)\<lparr>spot := (0, h / 2, z)\<rparr>)) [- hw, hw]
      @ [Mesh ((mesh (GCylinder post post (w + post * 2) 16 False) frame True)\<lparr>rot_x := 1, spot := (0, h, 0)\<rparr>),
         Mesh ((mesh (GCylinder (post * (5 / 10)) (post * (5 / 10)) w 8 False) thin True)
           \<lparr>rot_x := 1, spot := (- d, post * (5 / 10), 0)\<rparr>)]
      @ map (\<lambda>z. Mesh ((mesh (GCylinder (post * (5 / 10)) (post * (5 / 10)) back 8 False) thin True)
           \<lparr>spot := (- d, back / 2, z)\<rparr>)) [- hw, hw]
      @ [Mesh (mesh (GQuad (roof_corners w h d) (w / cell) (hypot d (h - back) / cell)) (Own Net) False),
         Mesh (mesh (GQuad (back_corners w h d) (w / cell) (back / cell)) (Own Net) False)]
      @ map (\<lambda>z. Mesh ((mesh (GShape (side_outline h d) (1 / cell)) (Own Net) False)\<lparr>spot := (0, 0, z)\<rparr>)) [- hw, hw])"

text \<open>The arch of a pop-up goal: half an ellipse, its frame, a smaller one behind, and the net between.\<close>

definition popup_parts :: "string \<Rightarrow> piece_child list" where
  "popup_parts c =
     [Mesh (mesh (GTube (16 / 10) 1 0 1 32 (35 / 1000)) (standard_rough c (4 / 10)) True),
      Mesh (mesh (GTube (16 / 10) 1 (- (9 / 10)) (8 / 10) 32 (3 / 100)) (standard_rough c (4 / 10)) True),
      Mesh ((mesh (GArch (16 / 10) 1 (1 / (14 / 100))) (Own Net) False)
        \<lparr>rot_y := 1, spot := (- (9 / 10), 0, 0), stretch := (1, 8 / 10, 1)\<rparr>)]"

section \<open>Equipment\<close>

definition ladder_rung :: "nat \<Rightarrow> real" where
  "ladder_rung i = - (44 / 10) / 2 + real i * (44 / 10) / (9 - 1)"

fun equipment_parts :: "equipment_kind \<Rightarrow> string \<Rightarrow> piece_child list" where
  "equipment_parts Ball c =
     [Mesh ((up (42 / 100) (mesh (GSphere (42 / 100) 32 20) (Own (BallMap c)) True))\<lparr>part_name := ''ball''\<rparr>)]"
| "equipment_parts Cone c =
     [Mesh (up (47 / 100) (mesh (GCone (3 / 10) (85 / 100) 28) (standard_rough c (4 / 10)) True)),
      Mesh (up (25 / 1000) (mesh (GBox (62 / 100) (5 / 100) (62 / 100)) (standard_rough c (5 / 10)) True)),
      Mesh (up (6 / 10) (mesh (GCylinder (13 / 100) (17 / 100) (14 / 100) 24 False) (standard_rough ''#ffffff'' (4 / 10)) False))]"
| "equipment_parts Disc c =
     [Mesh (up (8 / 100) (mesh (GCylinder (1 / 10) (4 / 10) (16 / 100) 32 False) (standard_rough c (45 / 100)) True))]"
| "equipment_parts Pole c =
     [Mesh (up 1 (mesh (GCylinder (5 / 100) (5 / 100) (19 / 10) 16 False) (standard_rough c (35 / 100)) True)),
      Mesh (up (4 / 100) (mesh (GCylinder (2 / 10) (26 / 100) (8 / 100) 24 False) (standard ''#1f2937'') True))]"
| "equipment_parts Mannequin c =
     [Mesh ((up 1 (mesh (GCapsule (34 / 100) 1 6 20) (standard c) True))\<lparr>stretch := (1, 1, 3 / 10)\<rparr>),
      Mesh (up 2 (mesh (GSphere (2 / 10) 20 14) (standard c) True)),
      Mesh (up (2 / 10) (mesh (GCylinder (3 / 100) (3 / 100) (4 / 10) 8 False) (standard ''#475569'') True))]"
| "equipment_parts Hurdle c =
     concat (map (\<lambda>z.
       [Mesh ((mesh (GBox (6 / 100) (55 / 100) (6 / 100)) (standard c) True)\<lparr>spot := (0, 275 / 1000, z)\<rparr>),
        Mesh ((mesh (GBox (4 / 10) (4 / 100) (6 / 100)) (standard c) True)\<lparr>spot := (0, 2 / 100, z)\<rparr>)]) [- (1 / 2), 1 / 2])
     @ [Mesh (up (55 / 100) (mesh (GBox (7 / 100) (7 / 100) (11 / 10)) (standard c) True))]"
| "equipment_parts Ladder c =
     map (\<lambda>z. Mesh ((mesh (GBox (44 / 10) (3 / 100) (5 / 100)) (standard c) False)
       \<lparr>spot := (0, 3 / 100, z), receives := True\<rparr>)) [- (3 / 10), 3 / 10]
     @ map (\<lambda>i. Mesh ((mesh (GBox (5 / 100) (3 / 100) (62 / 100)) (standard c) False)
       \<lparr>spot := (ladder_rung i, 35 / 1000, 0)\<rparr>)) [0..<9]"
| "equipment_parts Ring c =
     [Mesh ((up (45 / 1000) (mesh (GTorus (5 / 10) (45 / 1000) 10 48) (standard_rough c (35 / 100)) True))\<lparr>rot_x := 1\<rparr>)]"
| "equipment_parts Minigoal c = goal_parts (24 / 10) (12 / 10) 1 c (5 / 100)"
| "equipment_parts Goal c = goal_parts (732 / 100) (244 / 100) 2 c (8 / 100)"
| "equipment_parts Popup c = popup_parts c"
| "equipment_parts Flag c =
     [Mesh (up (8 / 10) (mesh (GCylinder (3 / 100) (3 / 100) (16 / 10) 10 False) (standard_rough ''#f8fafc'' (3 / 10)) True)),
      Mesh ((mesh (GShape [(0, 0), (7 / 10, - (22 / 100)), (0, - (44 / 100))] 1) (Own (FlagCloth c)) True)
        \<lparr>spot := (3 / 100, 158 / 100, 0)\<rparr>)]"

section \<open>Pieces and their keys\<close>

text \<open>\<open>built_tag\<close> is the id every part carries, by which a click is traced back.\<close>

record piece =
  built_parts :: "piece_child list"
  built_scale :: real
  built_tag :: ident

definition size_of :: "board_object \<Rightarrow> real" where
  "size_of ob = (case obj_size ob of None \<Rightarrow> 1 | Some r \<Rightarrow> r)"

definition buildPiece :: "tactic_doc \<Rightarrow> board_object \<Rightarrow> bool \<Rightarrow> piece" where
  "buildPiece doc ob flat =
     \<lparr>built_parts =
        (case kind ob of
           PlayerKind \<Rightarrow> if flat then token_parts doc ob else player_parts doc ob
         | Equip k \<Rightarrow> equipment_parts k (case color ob of None \<Rightarrow> EQUIPMENT_COLORS k | Some c \<Rightarrow> c)),
      built_scale = piece_scale (kind ob) * size_of ob,
      built_tag = obj_id ob\<rparr>"

fun equipment_name :: "equipment_kind \<Rightarrow> string" where
  "equipment_name Ball = ''ball''"
| "equipment_name Cone = ''cone''"
| "equipment_name Disc = ''disc''"
| "equipment_name Pole = ''pole''"
| "equipment_name Mannequin = ''mannequin''"
| "equipment_name Hurdle = ''hurdle''"
| "equipment_name Ladder = ''ladder''"
| "equipment_name Ring = ''ring''"
| "equipment_name Minigoal = ''minigoal''"
| "equipment_name Goal = ''goal''"
| "equipment_name Popup = ''popup''"
| "equipment_name Flag = ''flag''"

fun pattern_name :: "kit_pattern \<Rightarrow> string" where
  "pattern_name Solid = ''solid''"
| "pattern_name Stripes = ''stripes''"
| "pattern_name Hoops = ''hoops''"
| "pattern_name Halves = ''halves''"
| "pattern_name Sash = ''sash''"

text \<open>\<open>num\<close> writes a number the way a template does.\<close>

definition key_fields :: "(real \<Rightarrow> string) \<Rightarrow> tactic_doc \<Rightarrow> board_object \<Rightarrow> bool \<Rightarrow> string list" where
  "key_fields num doc ob flat =
     (case kind ob of
        PlayerKind \<Rightarrow>
          (let l = playerLook doc ob in
           [if flat then ''token'' else ''player'', look_primary l, look_secondary l, pattern_name (look_pattern l),
            look_numbers l, or_empty (number ob), or_empty (obj_name ob), or_empty (bib ob), num (size_of ob),
            if is_keeper ob then ''gk'' else []])
      | Equip k \<Rightarrow> [equipment_name k, or_empty (color ob), num (size_of ob)])"

definition appearanceKey :: "(real \<Rightarrow> string) \<Rightarrow> tactic_doc \<Rightarrow> board_object \<Rightarrow> bool \<Rightarrow> string" where
  "appearanceKey num doc ob flat = join ''|'' (key_fields num doc ob flat)"

lemma pattern_name_inj: "pattern_name p = pattern_name q \<longleftrightarrow> p = q"
  by (cases p; cases q) simp_all

lemma equipment_name_inj: "equipment_name j = equipment_name k \<longleftrightarrow> j = k"
  by (cases j; cases k) simp_all

text \<open>What the fields of a key may not hold for the key to be read back: a bar, or a colour that is there but blank.\<close>

definition plain_key :: "(real \<Rightarrow> string) \<Rightarrow> tactic_doc \<Rightarrow> board_object \<Rightarrow> bool \<Rightarrow> bool" where
  "plain_key num doc ob flat \<longleftrightarrow>
     list_all (\<lambda>s. CHR ''|'' \<notin> set s) (key_fields num doc ob flat) \<and> color ob \<noteq> Some []"

lemma same_fields:
  assumes "plain_key num doc ob flat" "plain_key num doc' ob' flat'"
    and "appearanceKey num doc ob flat = appearanceKey num doc' ob' flat'"
  shows "key_fields num doc ob flat = key_fields num doc' ob' flat'"
proof -
  have ne: "key_fields num d p e \<noteq> []" for d p e
    by (simp add: key_fields_def Let_def split: object_kind.split)
  have "split_on (CHR ''|'') (appearanceKey num d p e) = key_fields num d p e" if "plain_key num d p e" for d p e
    using split_join [of "key_fields num d p e" "CHR ''|''"] ne that by (simp add: appearanceKey_def plain_key_def list_all_iff)
  from this [OF assms(1)] this [OF assms(2)] assms(3) show ?thesis by simp
qed

lemma key_decides:
  assumes "plain_key num doc ob flat" "plain_key num doc' ob' flat'"
    and "num (size_of ob) = num (size_of ob') \<longrightarrow> size_of ob = size_of ob'"
    and "appearanceKey num doc ob flat = appearanceKey num doc' ob' flat'"
  shows "built_parts (buildPiece doc ob flat) = built_parts (buildPiece doc' ob' flat')
    \<and> built_scale (buildPiece doc ob flat) = built_scale (buildPiece doc' ob' flat')"
proof -
  have f: "key_fields num doc ob flat = key_fields num doc' ob' flat'" by (rule same_fields [OF assms(1,2,4)])
  have num: "num (size_of ob) = num (size_of ob') \<longleftrightarrow> size_of ob = size_of ob'" using assms(3) by auto
  show ?thesis
  proof (cases "kind ob")
    case PlayerKind
    with f have k': "kind ob' = PlayerKind" by (auto simp: key_fields_def Let_def split: object_kind.splits)
    from f PlayerKind k' have flat: "flat = flat'" by (simp add: key_fields_def Let_def split: if_splits)
    from f PlayerKind k' have same: "playerLook doc ob = playerLook doc' ob'"
        "or_empty (number ob) = or_empty (number ob')" "or_empty (obj_name ob) = or_empty (obj_name ob')" "or_empty (bib ob) = or_empty (bib ob')"
        "size_of ob = size_of ob'"
      by (simp_all add: key_fields_def Let_def num pattern_name_inj)
    from PlayerKind k' flat show ?thesis by (simp add: buildPiece_def token_parts_def player_parts_def same)
  next
    case (Equip k)
    with f obtain k' where k': "kind ob' = Equip k'"
      by (cases "kind ob'") (auto simp: key_fields_def Let_def)
    from f Equip k' have same: "k = k'" "or_empty (color ob) = or_empty (color ob')" "size_of ob = size_of ob'"
      by (simp_all add: key_fields_def num equipment_name_inj)
    have "color ob = color ob'"
      using same(2) assms(1,2) by (cases "color ob"; cases "color ob'") (auto simp: or_empty_def plain_key_def)
    with Equip k' same show ?thesis by (simp add: buildPiece_def)
  qed
qed

text \<open>
  The key is enough: two objects with the same key are built alike, in whatever documents they stand, so a piece that
  is kept because its key did not change shows what a fresh one would.
\<close>
theorem same_key_same_piece:
  assumes "plain_key num doc ob flat" "plain_key num doc' ob' flat'"
    and "num (size_of ob) = num (size_of ob') \<longrightarrow> size_of ob = size_of ob'"
    and "appearanceKey num doc ob flat = appearanceKey num doc' ob' flat'"
  shows "built_parts (buildPiece doc ob flat) = built_parts (buildPiece doc' ob' flat')
    \<and> built_scale (buildPiece doc ob flat) = built_scale (buildPiece doc' ob' flat')"
  using assms by (rule key_decides)

definition sample_object :: "ident \<Rightarrow> object_kind \<Rightarrow> board_object" where
  "sample_object i k = \<lparr>obj_id = i, kind = k, team = Some Home, keeper = None, number = Some ''7'', obj_name = None, bib = None,
     color = None, color2 = None, pattern = None, obj_size = None, rotation = None\<rparr>"

theorem same_key_same_piece_witness:
  "built_parts (buildPiece (emptyDoc ''s'') (sample_object ''a'' PlayerKind) True)
   = built_parts (buildPiece (emptyDoc ''s'') (sample_object ''b'' PlayerKind\<lparr>obj_size := Some 1, obj_name := Some []\<rparr>) True)"
  using same_key_same_piece [of "\<lambda>r. ''1''" "emptyDoc ''s''" "sample_object ''a'' PlayerKind" True "emptyDoc ''s''"
      "sample_object ''b'' PlayerKind\<lparr>obj_size := Some 1, obj_name := Some []\<rparr>" True]
  by (simp add: plain_key_def key_fields_def appearanceKey_def sample_object_def playerLook_def emptyDoc_def
      is_keeper_def or_empty_def size_of_def Let_def)

text \<open>
  The bar is not kept out of names: a bar in the name and a bar in the number give two different players one key.
\<close>
theorem bar_confuses_keys:
  "appearanceKey num doc (sample_object i PlayerKind\<lparr>number := Some ''|'', obj_name := None\<rparr>) flat
     = appearanceKey num doc (sample_object i PlayerKind\<lparr>number := None, obj_name := Some ''|''\<rparr>) flat
   \<and> built_parts (buildPiece doc (sample_object i PlayerKind\<lparr>number := Some ''|'', obj_name := None\<rparr>) flat)
     \<noteq> built_parts (buildPiece doc (sample_object i PlayerKind\<lparr>number := None, obj_name := Some ''|''\<rparr>) flat)"
  by (simp add: appearanceKey_def key_fields_def sample_object_def playerLook_def is_keeper_def or_empty_def size_of_def
      Let_def buildPiece_def player_parts_def token_parts_def)

section \<open>What is freed\<close>

text \<open>
  The registry of shared materials and the pieces alive, over all boards of the page; \<open>lost\<close> are the shared materials
  that were freed.  \<open>Free\<close> is \<open>disposePiece\<close>: it spares exactly what the registry holds.  \<open>FreeMaterials\<close> is
  \<open>disposeMaterials\<close>, called when one board closes.
\<close>

record gpu =
  registry :: "shared_material list"
  alive :: "piece list"
  lost :: "shared_material list"

fun child_shared :: "piece_child \<Rightarrow> shared_material list" where
  "child_shared (Mesh p) = (case mat p of Shared m \<Rightarrow> [m] | Own _ \<Rightarrow> [])"
| "child_shared (Sprite _ _ _ _ _) = []"

definition piece_shared :: "piece \<Rightarrow> shared_material list" where
  "piece_shared p = concat (map child_shared (built_parts p))"

datatype gpu_op = Build piece | Free nat | FreeMaterials

fun gpu_step :: "gpu_op \<Rightarrow> gpu \<Rightarrow> gpu" where
  "gpu_step (Build p) g = g\<lparr>registry := registry g @ filter (\<lambda>m. m \<notin> set (registry g)) (piece_shared p), alive := p # alive g\<rparr>"
| "gpu_step (Free k) g =
     (if k < length (alive g)
      then g\<lparr>alive := remove_at k (alive g),
             lost := lost g @ filter (\<lambda>m. m \<notin> set (registry g)) (piece_shared (alive g ! k))\<rparr>
      else g)"
| "gpu_step FreeMaterials g = g\<lparr>registry := [], lost := lost g @ registry g\<rparr>"

lemma set_remove_at: "set (remove_at k xs) \<subseteq> set xs"
  unfolding remove_at_def using set_take_subset [of k xs] set_drop_subset [of "Suc k" xs] by auto

text \<open>
  While no board closes, freeing pieces in any order never frees a material another piece may wear: everything a living
  piece wears is in the registry, and nothing shared is lost.
\<close>
theorem shared_materials_outlive_pieces:
  assumes "FreeMaterials \<notin> set ops"
  shows "lost (fold gpu_step ops \<lparr>registry = [], alive = [], lost = []\<rparr>) = []
    \<and> (\<forall>p\<in>set (alive (fold gpu_step ops \<lparr>registry = [], alive = [], lost = []\<rparr>)).
         set (piece_shared p) \<subseteq> set (registry (fold gpu_step ops \<lparr>registry = [], alive = [], lost = []\<rparr>)))"
  using assms
proof (induction ops rule: rev_induct)
  case (snoc ev ops)
  let ?g = "fold gpu_step ops \<lparr>registry = [], alive = [], lost = []\<rparr>"
  from snoc have l: "lost ?g = []" and a: "\<forall>p\<in>set (alive ?g). set (piece_shared p) \<subseteq> set (registry ?g)" by simp_all
  show ?case
  proof (cases ev)
    case (Build p)
    with l a show ?thesis by auto
  next
    case (Free k)
    have "filter (\<lambda>m. m \<notin> set (registry ?g)) (piece_shared (alive ?g ! k)) = []" if "k < length (alive ?g)"
      using a nth_mem [OF that] by (auto simp: filter_empty_conv)
    with l a Free set_remove_at [of k "alive ?g"] show ?thesis by auto
  next
    case FreeMaterials
    with snoc.prems show ?thesis by simp
  qed
qed simp

definition sample_piece :: piece where
  "sample_piece = buildPiece (emptyDoc ''s'') (sample_object ''a'' (Equip Disc)) False"

theorem shared_materials_outlive_pieces_witness:
  "lost (fold gpu_step [Build sample_piece, Build sample_piece, Free 0] \<lparr>registry = [], alive = [], lost = []\<rparr>) = []"
  using shared_materials_outlive_pieces [of "[Build sample_piece, Build sample_piece, Free 0]"] by simp

text \<open>
  Closing one board frees the materials of every other: the registry is one for the whole page, so a piece of a board
  that stays open is left with a material that is gone and no longer known as shared.
\<close>
theorem closing_a_board_strips_the_others:
  "let g = fold gpu_step [Build sample_piece, Build sample_piece, Free 0, FreeMaterials] \<lparr>registry = [], alive = [], lost = []\<rparr>
   in alive g = [sample_piece] \<and> piece_shared sample_piece \<noteq> [] \<and> set (piece_shared sample_piece) \<subseteq> set (lost g)
      \<and> registry g = []"
  by (simp add: Let_def remove_at_def sample_piece_def buildPiece_def sample_object_def piece_shared_def mesh_def up_def
      standard_rough_def)

section \<open>The grain of the grass\<close>

text \<open>
  \<open>rng\<close>: a linear congruential generator whose product is computed in floating point and cut to 32 bits by \<open>>>> 0\<close>.
\<close>

definition rng_next :: "32 word \<Rightarrow> 32 word" where
  "rng_next s = s * 1664525 + 1013904223"

definition rng_value :: "32 word \<Rightarrow> real" where
  "rng_value s = real (unat s) / 2 ^ 32"

definition grain :: "real \<Rightarrow> 32 word \<Rightarrow> real" where
  "grain noise s = (rng_value s - 1 / 2) * (noise * 255)"

text \<open>
  The generator is exact: the product never reaches 2 to the 53, so floating point computes it without rounding and
  cutting it to 32 bits is what the word does; and the grain it adds to a pixel is at most half the noise.
\<close>
theorem grain_is_exact_and_small:
  assumes "0 \<le> noise"
  shows "unat s * 1664525 + 1013904223 < 2 ^ 53
    \<and> unat (rng_next s) = (unat s * 1664525 + 1013904223) mod 2 ^ 32
    \<and> 0 \<le> rng_value s \<and> rng_value s < 1 \<and> \<bar>grain noise s\<bar> \<le> noise * 255 / 2"
proof -
  have s: "unat s < 2 ^ 32" using unsigned_less [of s] by simp
  then have "unat s * 1664525 \<le> (2 ^ 32 - 1) * 1664525" by (intro mult_right_mono) simp_all
  then have exact: "unat s * 1664525 + 1013904223 < 2 ^ 53" by simp
  have word: "unat (rng_next s) = (unat s * 1664525 + 1013904223) mod 2 ^ 32"
    by (simp add: rng_next_def unat_word_ariths mod_simps)
  have real_less: "real n < 2 ^ 32" if "n < 2 ^ 32" for n :: nat using that by simp
  have v: "0 \<le> rng_value s" unfolding rng_value_def by (intro divide_nonneg_pos) (simp_all only: of_nat_0_le_iff, simp)
  have v1: "rng_value s < 1" unfolding rng_value_def using real_less [OF s] by (simp only: divide_less_eq_1_pos zero_less_power zero_less_numeral)
  from v v1 have "\<bar>rng_value s - 1 / 2\<bar> \<le> 1 / 2" unfolding abs_le_iff by (simp add: field_simps)
  then have "\<bar>grain noise s\<bar> \<le> 1 / 2 * (noise * 255)"
    unfolding grain_def abs_mult using assms by (intro mult_mono) simp_all
  with exact word v v1 show ?thesis by simp
qed

theorem grain_is_exact_and_small_witness: "\<bar>grain (8 / 100) 7\<bar> \<le> (8 / 100) * 255 / 2"
  using grain_is_exact_and_small [of "8 / 100" 7] by simp

end
