(* ===== verification/Board_Scene.thy ===== *)
theory Board_Scene
  imports Board_Gestures Board_Pieces "HOL-Library.AList" "HOL-Library.Multiset"
begin

text \<open>
  The scene of a board (\<open>features/tactics/board/engine.ts\<close>, everything but the pointer handlers): which pieces stand
  in it and how, the drawings on the grass, the spots under highlighted pieces, the ring, trails and handles laid over
  them, the camera and its glide, the flat board, and closing it.  What the graphics library does with a group is not
  modelled: a group here is what the code last set on it.  Lights, sky, stands and the sizes of the canvas are looks
  and left out.
\<close>

section \<open>The state\<close>

text \<open>
  One entry of \<open>pieces\<close>: the key, the group, where it last stood.  \<open>serial\<close> tells groups apart, counting calls of
  \<open>buildPiece\<close>; \<open>rolls\<close> are the turns of the ball, each about an axis by an angle.
\<close>

record placed =
  pl_key :: string
  pl_piece :: piece
  serial :: nat
  turned :: real
  visible :: bool
  stands :: vec3
  pl_scale :: real
  rolls :: "(vec2 \<times> real) list"
  last_at :: "vec2 option"

datatype camera_view = TopView | TacticalView | BroadcastView | BehindView

record edit_state =
  in_editor :: bool
  edit_on :: bool
  edit_step :: int
  edit_selection :: "target option"
  trails_on :: bool

datatype overlay =
    Trail "vec2 list list option"
  | Ghost vec2
  | Knob vec2 handle string
  | SelectedOutline "vec2 list" real

record glide =
  glide_from :: "vec3 \<times> vec3"
  glide_to :: "vec3 \<times> vec3"
  glide_t :: real

record camera =
  cam_at :: vec3
  cam_target :: vec3
  cam_glide :: "glide option"

text \<open>
  \<open>drawn_key\<close> identifies the array of drawings last shown, \<open>on_grass\<close> are the groups built from it with their opacity;
  \<open>pitch_key\<close> is the pitch the world was built for.
\<close>

record scene =
  sc_doc :: "tactic_doc option"
  pitch_key :: "pitch_settings option"
  sc_pieces :: "(ident \<times> placed) list"
  drawn :: "drawing list"
  drawn_key :: "nat option"
  opacity :: real
  on_grass :: "(drawing \<times> real) list"
  spots_key :: string
  spots :: "(ident \<times> vec2) list"
  sc_edit :: edit_state
  sc_frame :: "(nat \<times> frame) option"
  flat_board :: bool
  sc_view :: camera_view
  cam :: camera
  ring :: "(vec2 \<times> real) option"
  overlays :: "overlay list"
  built_count :: nat
  freed :: "nat list"
  closed :: bool

section \<open>Small routines\<close>

definition turn_of :: "bool \<Rightarrow> board_object \<Rightarrow> real" where
  "turn_of flat ob =
     (if flat \<and> kind ob = PlayerKind then 0
      else - ((case rotation ob of None \<Rightarrow> 0 | Some r \<Rightarrow> r) * pi / 180))"

definition radiusOf :: "board_object option \<Rightarrow> bool \<Rightarrow> real" where
  "radiusOf obj flat =
     (case obj of
        None \<Rightarrow> 1
      | Some ob \<Rightarrow>
          (case kind ob of
             PlayerKind \<Rightarrow> (if flat then TOKEN_RADIUS else PLAYER_RADIUS) / (95 / 100)
           | Equip Goal \<Rightarrow> 42 / 10
           | Equip Minigoal \<Rightarrow> 2
           | Equip Ladder \<Rightarrow> 2
           | Equip Popup \<Rightarrow> 11 / 10
           | Equip _ \<Rightarrow> 6 / 10))"

definition find_object :: "tactic_doc option \<Rightarrow> ident \<Rightarrow> board_object option" where
  "find_object doc i = (case doc of None \<Rightarrow> None | Some d \<Rightarrow> find (\<lambda>ob. obj_id ob = i) (objects d))"

definition kind_scale :: "board_object option \<Rightarrow> real" where
  "kind_scale obj = piece_scale (case obj of None \<Rightarrow> Equip Cone | Some ob \<Rightarrow> kind ob)"

definition size_or_one :: "board_object option \<Rightarrow> real" where
  "size_or_one obj = (case obj of None \<Rightarrow> 1 | Some ob \<Rightarrow> size_of ob)"

text \<open>\<open>spin\<close>: the ball rolls by the way it went since the last frame, but not over a jump.\<close>

definition has_ball :: "piece \<Rightarrow> bool" where
  "has_ball p = list_ex (\<lambda>c. case c of Mesh q \<Rightarrow> part_name q = ''ball'' | Sprite _ _ _ _ _ \<Rightarrow> False) (built_parts p)"

definition spin :: "vec2 \<Rightarrow> placed \<Rightarrow> placed" where
  "spin at' g =
     (if \<not> has_ball (pl_piece g) then g
      else case last_at g of
        None \<Rightarrow> g
      | Some l \<Rightarrow>
          (let dx = fst at' - fst l; dy = snd at' - snd l; d = hypot dx dy in
           if d < 1 / 10 ^ 4 \<or> d > 20 then g
           else g\<lparr>rolls := rolls g @ [((dy / d, - dx / d), d / (42 / 100))]\<rparr>))"

section \<open>Overlays\<close>

text \<open>The trail of one object that moved into the open step, and its bend handle when it is selected.\<close>

definition trail_of :: "tactic_doc \<Rightarrow> int \<Rightarrow> target option \<Rightarrow> board_object \<Rightarrow> js_error + overlay list" where
  "trail_of doc k sel ob =
     (case movedInto doc k (obj_id ob) of
        Inl e \<Rightarrow> Inl e
      | Inr from \<Rightarrow>
          (case (from, nth_opt (steps doc) k) of
             (Some a, Some st) \<Rightarrow>
               (case pos st (obj_id ob) of
                  None \<Rightarrow> Inr []
                | Some b \<Rightarrow>
                    (let bnd = lookup_opt (bend st) (obj_id ob) in
                     Inr ([Trail (dashes (sampleCurve a b bnd 32) (11 / 10) (7 / 10)), Ghost a]
                       @ (if sel = Some (OnObject (obj_id ob))
                          then [Knob (curveMid a b bnd) (BendHandle (obj_id ob)) ''#fde047''] else []))))
           | _ \<Rightarrow> Inr []))"

text \<open>The loop over the objects: what was laid down before it threw, if it did.\<close>

fun trail_loop :: "tactic_doc \<Rightarrow> int \<Rightarrow> target option \<Rightarrow> board_object list \<Rightarrow> overlay list \<times> js_error option" where
  "trail_loop doc k sel [] = ([], None)"
| "trail_loop doc k sel (ob # obs) =
     (case trail_of doc k sel ob of
        Inl e \<Rightarrow> ([], Some e)
      | Inr os \<Rightarrow> (case trail_loop doc k sel obs of (os', e) \<Rightarrow> (os @ os', e)))"

definition drawing_overlays :: "drawing list \<Rightarrow> ident \<Rightarrow> overlay list" where
  "drawing_overlays ds i =
     (case find (\<lambda>d. drawing_id d = i) ds of
        None \<Rightarrow> []
      | Some d \<Rightarrow>
          (if length (drawingPath d) > 1 then [SelectedOutline (drawingPath d) (width_of d + 1 / 2)] else [])
          @ (if drawing_kind d \<noteq> Pen
             then map (\<lambda>(k, p). Knob p (PointHandle (drawing_id d) k) ''#ffffff'') (enumerate 0 (points d)) else [])
          @ (if (drawing_kind d = Arrow \<or> drawing_kind d = Line) \<and> length (points d) \<ge> 2
             then [Knob (curveMid (hd (points d)) (last (points d)) (control d)) (ControlHandle (drawing_id d)) ''#fde047'']
             else []))"

definition ring_of :: "scene \<Rightarrow> (vec2 \<times> real) option" where
  "ring_of s =
     (case edit_selection (sc_edit s) of
        Some (OnObject i) \<Rightarrow>
          (case map_of (sc_pieces s) i of
             None \<Rightarrow> None
           | Some g \<Rightarrow>
               (if visible g
                then (let ob = find_object (sc_doc s) i in
                      Some ((fst (stands g), snd (snd (stands g))),
                            radiusOf ob (flat_board s) * kind_scale ob * size_or_one ob))
                else None))
      | _ \<Rightarrow> None)"

definition refreshOverlays :: "scene \<Rightarrow> scene \<times> js_error option" where
  "refreshOverlays s =
     (let bare = s\<lparr>overlays := [], ring := None\<rparr> in
      case sc_doc s of
        None \<Rightarrow> (bare, None)
      | Some doc \<Rightarrow>
          if \<not> edit_on (sc_edit s) then (bare, None)
          else
            (case (if trails_on (sc_edit s) \<and> edit_step (sc_edit s) > 0
                   then trail_loop doc (edit_step (sc_edit s)) (edit_selection (sc_edit s)) (objects doc)
                   else ([], None)) of
               (os, Some e) \<Rightarrow> (s\<lparr>ring := ring_of s, overlays := os\<rparr>, Some e)
             | (os, None) \<Rightarrow>
                 (s\<lparr>ring := ring_of s,
                    overlays := os @ (case edit_selection (sc_edit s) of
                      Some (OnDrawing i) \<Rightarrow> drawing_overlays (drawn s) i | _ \<Rightarrow> [])\<rparr>, None)))"

section \<open>The camera\<close>

definition fov :: real where "fov = 38 * pi / 180"

definition fit_top :: "real \<Rightarrow> real \<Rightarrow> real \<Rightarrow> real" where
  "fit_top w d aspect =
     (let hfov = 2 * arctan (tan (fov / 2) * aspect) in max (d / 2 / tan (fov / 2)) (w / 2 / tan (hfov / 2)))"

definition framing :: "camera_view \<Rightarrow> pitch_layout option \<Rightarrow> real \<Rightarrow> vec3 \<times> vec3" where
  "framing v l aspect0 =
     (case bounds l of (x0, x1, y0, y1) \<Rightarrow>
        (let cx = (x0 + x1) / 2; cy = (y0 + y1) / 2; w = x1 - x0; d = y1 - y0;
             aspect = (if aspect0 = 0 then 16 / 10 else aspect0);
             top = fit_top w d aspect
         in case v of
              TopView \<Rightarrow> ((cx, top * (104 / 100), cy + 1 / 100), (cx, 0, cy))
            | BroadcastView \<Rightarrow>
                (let dist = max (top * (98 / 100)) 40; angle = 24 * pi / 180 in
                 ((cx, sin angle * dist, cy + cos angle * dist), (cx, 0, cy - d * (12 / 100))))
            | BehindView \<Rightarrow>
                (let dist = max (top * (9 / 10)) 36; angle = 26 * pi / 180 in
                 ((x0 - cos angle * dist * (75 / 100), sin angle * dist, cy), (cx + w * (1 / 10), 0, cy)))
            | TacticalView \<Rightarrow>
                (let dist = top * (112 / 100); angle = 56 * pi / 180 in
                 ((cx, sin angle * dist, cy + cos angle * dist), (cx, 0, cy)))))"

definition doc_layout :: "scene \<Rightarrow> pitch_layout option" where
  "doc_layout s = map_option (\<lambda>d. layout (pitch d)) (sc_doc s)"

text \<open>\<open>setView\<close>; the flat camera looks straight down at the middle of the layout, as \<open>frameFlat\<close> has it.\<close>

definition setView :: "real \<Rightarrow> camera_view \<Rightarrow> bool \<Rightarrow> scene \<Rightarrow> scene" where
  "setView aspect v instant s =
     (let s1 = s\<lparr>sc_view := v\<rparr> in
      if flat_board s
      then (case frameFlat (doc_layout s) aspect of
              (mid, _) \<Rightarrow> s1\<lparr>cam := (cam s)\<lparr>cam_target := (fst mid, 0, snd mid)\<rparr>\<rparr>)
      else
        (let to' = framing v (doc_layout s) aspect in
         if instant then s1\<lparr>cam := \<lparr>cam_at = fst to', cam_target = snd to', cam_glide = None\<rparr>\<rparr>
         else s1\<lparr>cam := (cam s)\<lparr>cam_glide := Some \<lparr>glide_from = (cam_at (cam s), cam_target (cam s)),
                                                  glide_to = to', glide_t = 0\<rparr>\<rparr>\<rparr>))"

definition lerp3 :: "vec3 \<Rightarrow> vec3 \<Rightarrow> real \<Rightarrow> vec3" where
  "lerp3 a b k = (fst a + (fst b - fst a) * k, fst (snd a) + (fst (snd b) - fst (snd a)) * k,
                  snd (snd a) + (snd (snd b) - snd (snd a)) * k)"

text \<open>One turn of \<open>loop\<close>, \<open>delta\<close> seconds after the last; a hand on the camera (\<open>start\<close>) drops the glide.\<close>

definition frame_time :: "real \<Rightarrow> real" where
  "frame_time delta = min (1 / 10) delta"

definition glide_step :: "real \<Rightarrow> camera \<Rightarrow> camera" where
  "glide_step dt c =
     (case cam_glide c of
        None \<Rightarrow> c
      | Some g \<Rightarrow>
          (let t = min 1 (glide_t g + dt / (85 / 100)); k = easeInOut t in
           \<lparr>cam_at = lerp3 (fst (glide_from g)) (fst (glide_to g)) k,
            cam_target = lerp3 (snd (glide_from g)) (snd (glide_to g)) k,
            cam_glide = (if t \<ge> 1 then None else Some (g\<lparr>glide_t := t\<rparr>))\<rparr>))"

definition loop :: "real \<Rightarrow> scene \<Rightarrow> scene" where
  "loop delta s = (if closed s then s else s\<lparr>cam := glide_step (frame_time delta) (cam s)\<rparr>)"

definition grab_camera :: "scene \<Rightarrow> scene" where
  "grab_camera s = s\<lparr>cam := (cam s)\<lparr>cam_glide := None\<rparr>\<rparr>"

section \<open>The document\<close>

text \<open>The loop of \<open>setDoc\<close> over the objects: keep, rebuild or build.\<close>

definition fresh_group :: "(real \<Rightarrow> string) \<Rightarrow> tactic_doc \<Rightarrow> bool \<Rightarrow> board_object \<Rightarrow> nat \<Rightarrow> vec2 option \<Rightarrow> placed" where
  "fresh_group num doc flat ob n l =
     \<lparr>pl_key = appearanceKey num doc ob flat, pl_piece = buildPiece doc ob flat, serial = n,
      turned = turn_of flat ob, visible = False, stands = (0, 0, 0),
      pl_scale = built_scale (buildPiece doc ob flat), rolls = [], last_at = l\<rparr>"

definition reconcile ::
    "(real \<Rightarrow> string) \<Rightarrow> tactic_doc \<Rightarrow> bool \<Rightarrow> board_object
       \<Rightarrow> (ident \<times> placed) list \<times> nat \<times> nat list \<Rightarrow> (ident \<times> placed) list \<times> nat \<times> nat list" where
  "reconcile num doc flat ob = (\<lambda>(ps, n, fr).
     (case map_of ps (obj_id ob) of
        Some g \<Rightarrow>
          if pl_key g = appearanceKey num doc ob flat
          then (AList.update (obj_id ob) (g\<lparr>turned := turn_of flat ob\<rparr>) ps, n, fr)
          else (AList.update (obj_id ob) (fresh_group num doc flat ob n (last_at g)) ps, Suc n, fr @ [serial g])
      | None \<Rightarrow> (AList.update (obj_id ob) (fresh_group num doc flat ob n None) ps, Suc n, fr)))"

definition sweep :: "tactic_doc \<Rightarrow> (ident \<times> placed) list \<times> nat \<times> nat list \<Rightarrow> (ident \<times> placed) list \<times> nat \<times> nat list" where
  "sweep doc = (\<lambda>(ps, n, fr).
     (filter (\<lambda>(i, g). i \<in> object_ids doc) ps, n,
      fr @ map (\<lambda>(i, g). serial g) (filter (\<lambda>(i, g). i \<notin> object_ids doc) ps)))"

definition reconciled ::
    "(real \<Rightarrow> string) \<Rightarrow> tactic_doc \<Rightarrow> bool \<Rightarrow> (ident \<times> placed) list \<times> nat \<times> nat list
       \<Rightarrow> (ident \<times> placed) list \<times> nat \<times> nat list" where
  "reconciled num doc flat st = sweep doc (fold (reconcile num doc flat) (objects doc) st)"

definition setDoc :: "(real \<Rightarrow> string) \<Rightarrow> real \<Rightarrow> tactic_doc \<Rightarrow> scene \<Rightarrow> scene \<times> js_error option" where
  "setDoc num aspect doc s =
     (let s1 = s\<lparr>sc_doc := Some doc\<rparr>;
          s2 = (if pitch_key s \<noteq> Some (pitch doc)
                then setView aspect (sc_view s) True (s1\<lparr>pitch_key := Some (pitch doc)\<rparr>) else s1)
      in case reconciled num doc (flat_board s) (sc_pieces s, built_count s, freed s) of
           (ps, n, fr) \<Rightarrow> refreshOverlays (s2\<lparr>sc_pieces := ps, built_count := n, freed := fr\<rparr>))"

section \<open>The frame\<close>

definition place_piece :: "tactic_doc option \<Rightarrow> frame \<Rightarrow> ident \<Rightarrow> placed \<Rightarrow> placed" where
  "place_piece doc fr i g =
     (case placements fr i of
        None \<Rightarrow> g\<lparr>visible := False\<rparr>
      | Some at' \<Rightarrow>
          (let ob = find_object doc i;
               g1 = g\<lparr>visible := True, stands := (px at', ph at', py at'),
                      pl_scale := kind_scale ob * size_or_one ob * max (1 / 1000) (appear at')\<rparr>;
               g2 = (if map_option kind ob = Some (Equip Ball) then spin (px at', py at') g1 else g1)
           in g2\<lparr>last_at := Some (px at', py at')\<rparr>))"

definition ground_of :: "placed \<Rightarrow> vec2" where
  "ground_of g = (fst (stands g), snd (snd (stands g)))"

definition rebuildSpots :: "ident list \<Rightarrow> scene \<Rightarrow> scene" where
  "rebuildSpots ids s =
     (let key = join '','' ids in
      if key = spots_key s
      then s\<lparr>spots := map (\<lambda>(i, p). (i, case map_of (sc_pieces s) i of None \<Rightarrow> p | Some g \<Rightarrow> ground_of g)) (spots s)\<rparr>
      else s\<lparr>spots_key := key,
             spots := concat (map (\<lambda>i. case map_of (sc_pieces s) i of None \<Rightarrow> [] | Some g \<Rightarrow> [(i, ground_of g)]) ids)\<rparr>)"

text \<open>A frame comes with the identity of its array of drawings, which is what \<open>!==\<close> compares.\<close>

definition show_drawings :: "nat \<Rightarrow> frame \<Rightarrow> scene \<Rightarrow> scene" where
  "show_drawings tok fr s =
     (if drawn_key s \<noteq> Some tok
      then s\<lparr>drawn_key := Some tok, drawn := frame_drawings fr, opacity := drawingOpacity fr,
             on_grass := map (\<lambda>d. (d, drawingOpacity fr)) (frame_drawings fr)\<rparr>
      else if \<bar>drawingOpacity fr - opacity s\<bar> > 1 / 1000
      then s\<lparr>opacity := drawingOpacity fr, on_grass := map (\<lambda>(d, _). (d, drawingOpacity fr)) (on_grass s)\<rparr>
      else s)"

definition setFrame :: "nat \<Rightarrow> frame \<Rightarrow> scene \<Rightarrow> scene \<times> js_error option" where
  "setFrame tok fr s =
     refreshOverlays
       (rebuildSpots (highlights fr)
          (show_drawings tok fr
             (s\<lparr>sc_frame := Some (tok, fr),
                sc_pieces := map (\<lambda>(i, g). (i, place_piece (sc_doc s) fr i g)) (sc_pieces s)\<rparr>)))"

definition setEditState :: "edit_state \<Rightarrow> scene \<Rightarrow> scene \<times> js_error option" where
  "setEditState e s = refreshOverlays (s\<lparr>sc_edit := e\<rparr>)"

text \<open>\<open>setFlat\<close>: every call in turn, each able to throw and so to skip the rest.\<close>

definition and_then :: "scene \<times> js_error option \<Rightarrow> (scene \<Rightarrow> scene \<times> js_error option) \<Rightarrow> scene \<times> js_error option" where
  "and_then r f = (case snd r of Some e \<Rightarrow> r | None \<Rightarrow> f (fst r))"

definition setFlat :: "(real \<Rightarrow> string) \<Rightarrow> real \<Rightarrow> bool \<Rightarrow> scene \<Rightarrow> scene \<times> js_error option" where
  "setFlat num aspect flat s =
     (if flat = flat_board s then (s, None)
      else
        (let s1 = s\<lparr>flat_board := flat, cam := (cam s)\<lparr>cam_glide := None\<rparr>\<rparr>;
             r1 = (case sc_doc s of None \<Rightarrow> (s1, None) | Some doc \<Rightarrow> setDoc num aspect doc (s1\<lparr>pitch_key := None\<rparr>))
         in and_then
              (and_then r1 (\<lambda>s2. case sc_frame s of None \<Rightarrow> (s2, None) | Some (tok, fr) \<Rightarrow> setFrame tok fr s2))
              (\<lambda>s3. (setView aspect (sc_view s3) True s3, None))))"

definition dispose :: "scene \<Rightarrow> scene" where
  "dispose s =
     s\<lparr>closed := True, freed := freed s @ map (\<lambda>(i, g). serial g) (sc_pieces s), sc_pieces := [],
       on_grass := [], overlays := [], spots := []\<rparr>"

section \<open>Groups are built once and freed once\<close>

abbreviation serials :: "(ident \<times> placed) list \<Rightarrow> nat list" where
  "serials ps \<equiv> map (\<lambda>(i, g). serial g) ps"

text \<open>Every group built is in the scene or was freed, once.\<close>

definition ledger :: "(ident \<times> placed) list \<times> nat \<times> nat list \<Rightarrow> bool" where
  "ledger = (\<lambda>(ps, n, fr). distinct (map fst ps) \<and> mset (serials ps) + mset fr = mset [0..<n])"

lemma serials_replace:
  "map_of ps i = Some g \<Longrightarrow>
     add_mset (serial g) (mset (serials (AList.update i g' ps))) = add_mset (serial g') (mset (serials ps))"
  by (induction ps) (auto simp: add_mset_commute split: if_splits)

lemma update_new: "map_of ps i = None \<Longrightarrow> AList.update i g ps = ps @ [(i, g)]"
  by (induction ps) (auto split: if_splits)

lemma serials_split: "mset (serials (filter P ps)) + mset (serials (filter (\<lambda>x. \<not> P x) ps)) = mset (serials ps)"
  by (induction ps) auto

lemma ledger_reconcile: "ledger st \<Longrightarrow> ledger (reconcile num doc flat ob st)"
proof -
  assume l: "ledger st"
  obtain ps n fr where st: "st = (ps, n, fr)" by (cases st)
  have d: "distinct (map fst ps)" and m: "mset (serials ps) + mset fr = mset [0..<n]"
    using l by (simp_all add: st ledger_def)
  show ?thesis
  proof (cases "map_of ps (obj_id ob)")
    case None
    then have "obj_id ob \<notin> fst ` set ps" by (simp add: map_of_eq_None_iff)
    moreover have "mset (serials (ps @ [(obj_id ob, fresh_group num doc flat ob n None)])) + mset fr = mset [0..<Suc n]"
      using m by (simp add: fresh_group_def)
    ultimately show ?thesis
      using None d by (simp add: st ledger_def reconcile_def update_new del: mset_upt)
  next
    case (Some g)
    let ?keep = "g\<lparr>turned := turn_of flat ob\<rparr>" and ?new = "fresh_group num doc flat ob n (last_at g)"
    have keep: "mset (serials (AList.update (obj_id ob) ?keep ps)) = mset (serials ps)"
      using serials_replace [OF Some, of ?keep] by simp
    have new: "add_mset (serial g) (mset (serials (AList.update (obj_id ob) ?new ps))) = add_mset n (mset (serials ps))"
      using serials_replace [OF Some, of ?new] by (simp add: fresh_group_def)
    have "add_mset (serial g) (mset (serials (AList.update (obj_id ob) ?new ps))) + mset fr = add_mset n (mset [0..<n])"
      unfolding new union_mset_add_mset_left m ..
    then have "mset (serials (AList.update (obj_id ob) ?new ps)) + mset (fr @ [serial g]) = mset [0..<Suc n]"
      by (simp del: mset_upt mset_map)
    with Some d keep m show ?thesis
      by (simp add: st ledger_def reconcile_def distinct_update del: mset_upt mset_map)
  qed
qed

lemma ledger_fold: "ledger st \<Longrightarrow> ledger (fold (reconcile num doc flat) obs st)"
  by (induction obs arbitrary: st) (simp_all add: ledger_reconcile)

lemma ledger_sweep: "ledger st \<Longrightarrow> ledger (sweep doc st)"
proof -
  assume l: "ledger st"
  obtain ps n fr where st: "st = (ps, n, fr)" by (cases st)
  let ?P = "\<lambda>x :: ident \<times> placed. fst x \<in> object_ids doc"
  have f: "(\<lambda>(i, g). i \<in> object_ids doc) = ?P" "(\<lambda>(i, g). i \<notin> object_ids doc) = (\<lambda>x. \<not> ?P x)" by auto
  have "mset (serials (filter ?P ps)) + mset (fr @ serials (filter (\<lambda>x. \<not> ?P x) ps)) = mset (serials ps) + mset fr"
    using serials_split [of ?P ps] by (simp add: ac_simps)
  with l show ?thesis by (simp add: st ledger_def sweep_def f distinct_map_filter)
qed

lemma ledger_reconciled: "ledger st \<Longrightarrow> ledger (reconciled num doc flat st)"
  by (simp add: reconciled_def ledger_sweep ledger_fold)

definition scene_ledger :: "scene \<Rightarrow> bool" where
  "scene_ledger s \<longleftrightarrow> ledger (sc_pieces s, built_count s, freed s)"

lemma refresh_fields [simp]:
  "sc_pieces (fst (refreshOverlays s)) = sc_pieces s" "built_count (fst (refreshOverlays s)) = built_count s"
  "freed (fst (refreshOverlays s)) = freed s" "sc_doc (fst (refreshOverlays s)) = sc_doc s"
  "flat_board (fst (refreshOverlays s)) = flat_board s" "sc_edit (fst (refreshOverlays s)) = sc_edit s"
  "drawn (fst (refreshOverlays s)) = drawn s" "drawn_key (fst (refreshOverlays s)) = drawn_key s"
  "opacity (fst (refreshOverlays s)) = opacity s" "on_grass (fst (refreshOverlays s)) = on_grass s"
  "spots (fst (refreshOverlays s)) = spots s" "spots_key (fst (refreshOverlays s)) = spots_key s"
  "sc_frame (fst (refreshOverlays s)) = sc_frame s" "cam (fst (refreshOverlays s)) = cam s"
  "closed (fst (refreshOverlays s)) = closed s"
  by (simp_all add: refreshOverlays_def Let_def split: option.split prod.split)

lemma setView_fields [simp]:
  "sc_pieces (setView a v b s) = sc_pieces s" "built_count (setView a v b s) = built_count s"
  "freed (setView a v b s) = freed s" "sc_doc (setView a v b s) = sc_doc s" "flat_board (setView a v b s) = flat_board s"
  "sc_edit (setView a v b s) = sc_edit s" "drawn (setView a v b s) = drawn s" "drawn_key (setView a v b s) = drawn_key s"
  "opacity (setView a v b s) = opacity s" "on_grass (setView a v b s) = on_grass s"
  "closed (setView a v b s) = closed s"
  by (simp_all add: setView_def Let_def split: prod.split)

lemma ledger_setDoc: "scene_ledger s \<Longrightarrow> scene_ledger (fst (setDoc num a doc s))"
proof -
  assume "scene_ledger s"
  then have "ledger (reconciled num doc (flat_board s) (sc_pieces s, built_count s, freed s))"
    by (simp add: scene_ledger_def ledger_reconciled)
  moreover obtain ps n fr where
    "reconciled num doc (flat_board s) (sc_pieces s, built_count s, freed s) = (ps, n, fr)" by (rule prod_cases3)
  ultimately show ?thesis by (simp add: setDoc_def Let_def scene_ledger_def)
qed

lemma place_piece_serial [simp]: "serial (place_piece doc fr i g) = serial g"
  by (simp add: place_piece_def Let_def spin_def split: option.split)

lemma show_drawings_fields [simp]:
  "sc_pieces (show_drawings t fr s) = sc_pieces s" "built_count (show_drawings t fr s) = built_count s"
  "freed (show_drawings t fr s) = freed s" "sc_doc (show_drawings t fr s) = sc_doc s"
  "flat_board (show_drawings t fr s) = flat_board s" "sc_edit (show_drawings t fr s) = sc_edit s"
  by (simp_all add: show_drawings_def)

lemma rebuildSpots_fields [simp]:
  "sc_pieces (rebuildSpots ids s) = sc_pieces s" "built_count (rebuildSpots ids s) = built_count s"
  "freed (rebuildSpots ids s) = freed s" "sc_doc (rebuildSpots ids s) = sc_doc s"
  "flat_board (rebuildSpots ids s) = flat_board s" "sc_edit (rebuildSpots ids s) = sc_edit s"
  "drawn (rebuildSpots ids s) = drawn s" "drawn_key (rebuildSpots ids s) = drawn_key s"
  "opacity (rebuildSpots ids s) = opacity s" "on_grass (rebuildSpots ids s) = on_grass s"
  by (simp_all add: rebuildSpots_def Let_def)


lemma setFrame_counts:
  "sc_pieces (fst (setFrame t fr s)) = map (\<lambda>(i, g). (i, place_piece (sc_doc s) fr i g)) (sc_pieces s)"
  "built_count (fst (setFrame t fr s)) = built_count s" "freed (fst (setFrame t fr s)) = freed s"
  by (simp_all add: setFrame_def)

lemma ledger_setFrame: "scene_ledger s \<Longrightarrow> scene_ledger (fst (setFrame t fr s))"
proof -
  have "serials (map (\<lambda>(i, g). (i, place_piece doc fr i g)) ps) = serials ps" for doc ps
    by (induction ps) auto
  moreover have "map fst (map (\<lambda>(i, g). (i, place_piece doc fr i g)) ps) = map fst ps" for doc ps
    by (induction ps) auto
  moreover assume "scene_ledger s"
  ultimately show ?thesis by (simp only: scene_ledger_def ledger_def prod.case setFrame_counts)
qed

lemma ledger_setFlat: "scene_ledger s \<Longrightarrow> scene_ledger (fst (setFlat num a flat s))"
proof -
  assume l: "scene_ledger s"
  let ?s1 = "s\<lparr>flat_board := flat, cam := (cam s)\<lparr>cam_glide := None\<rparr>\<rparr>"
  let ?r1 = "case sc_doc s of None \<Rightarrow> (?s1, None) | Some doc \<Rightarrow> setDoc num a doc (?s1\<lparr>pitch_key := None\<rparr>)"
  have then_ok: "scene_ledger (fst r) \<Longrightarrow> (\<And>x. scene_ledger x \<Longrightarrow> scene_ledger (fst (f x))) \<Longrightarrow> scene_ledger (fst (and_then r f))"
    for r f by (simp add: and_then_def split: option.split)
  have "scene_ledger ?s1" "scene_ledger (?s1\<lparr>pitch_key := None\<rparr>)" using l by (simp_all add: scene_ledger_def)
  then have r1: "scene_ledger (fst ?r1)" using ledger_setDoc by (simp split: option.split)
  have "scene_ledger (fst (and_then (and_then ?r1
      (\<lambda>s2. case sc_frame s of None \<Rightarrow> (s2, None) | Some (tok, fr) \<Rightarrow> setFrame tok fr s2))
      (\<lambda>s3. (setView a (sc_view s3) True s3, None))))"
    by (intro then_ok r1) (simp_all add: ledger_setFrame split: option.split, simp add: scene_ledger_def)
  with l show ?thesis unfolding setFlat_def Let_def by (cases "flat = flat_board s") (simp_all only: if_True if_False fst_conv simp_thms)
qed

text \<open>What a board lives through before it is closed.\<close>

datatype scene_event =
    SDoc tactic_doc | SFrame nat frame | SEdit edit_state | SFlat bool | SView camera_view bool | STick real | SGrab

fun scene_step :: "(real \<Rightarrow> string) \<Rightarrow> real \<Rightarrow> scene_event \<Rightarrow> scene \<Rightarrow> scene" where
  "scene_step num a (SDoc doc) s = fst (setDoc num a doc s)"
| "scene_step num a (SFrame t fr) s = fst (setFrame t fr s)"
| "scene_step num a (SEdit e) s = fst (setEditState e s)"
| "scene_step num a (SFlat b) s = fst (setFlat num a b s)"
| "scene_step num a (SView v b) s = setView a v b s"
| "scene_step num a (STick dt) s = loop dt s"
| "scene_step num a SGrab s = grab_camera s"

definition new_scene :: scene where
  "new_scene = \<lparr>sc_doc = None, pitch_key = None, sc_pieces = [], drawn = [], drawn_key = None, opacity = 1, on_grass = [],
     spots_key = [], spots = [],
     sc_edit = \<lparr>in_editor = False, edit_on = False, edit_step = 0, edit_selection = None, trails_on = False\<rparr>,
     sc_frame = None, flat_board = False, sc_view = TacticalView,
     cam = \<lparr>cam_at = (0, 0, 0), cam_target = (0, 0, 0), cam_glide = None\<rparr>, ring = None, overlays = [], built_count = 0,
     freed = [], closed = False\<rparr>"

definition opened_board :: "real \<Rightarrow> scene" where
  "opened_board a = setView a TacticalView True new_scene"

lemma ledger_step: "scene_ledger s \<Longrightarrow> scene_ledger (scene_step num a ev s)"
proof (cases ev)
  case (STick dt)
  assume "scene_ledger s"
  with STick show ?thesis by (simp add: loop_def scene_ledger_def)
next
  case (SEdit e)
  assume "scene_ledger s"
  with SEdit show ?thesis by (simp add: setEditState_def scene_ledger_def)
next
  case (SView v b)
  assume "scene_ledger s"
  with SView show ?thesis by (simp add: scene_ledger_def)
next
  case SGrab
  assume "scene_ledger s"
  with SGrab show ?thesis by (simp add: grab_camera_def scene_ledger_def)
qed (simp_all add: ledger_setDoc ledger_setFrame ledger_setFlat)

text \<open>
  C21. No group leaks and none is freed twice: whatever documents, frames, edits, views and flat switches a board is given,
  once it is closed the groups it freed are exactly the groups it ever built, each one time.
\<close>
theorem groups_freed_once:
  "mset (freed (dispose (fold (scene_step num a) evs (opened_board a)))) =
     mset [0..<built_count (fold (scene_step num a) evs (opened_board a))]
   \<and> sc_pieces (dispose (fold (scene_step num a) evs (opened_board a))) = []"
proof -
  have "scene_ledger (opened_board a)" by (simp add: opened_board_def new_scene_def scene_ledger_def ledger_def)
  then have "scene_ledger (fold (scene_step num a) evs (opened_board a))"
    by (induction evs rule: rev_induct) (simp_all add: ledger_step)
  then show ?thesis by (simp add: scene_ledger_def ledger_def dispose_def add.commute)
qed

section \<open>The scene is what the document says\<close>

text \<open>
  \<open>docs\<close> are the documents the board is ever given.  Their keys are plain and their sizes are told apart when written.
\<close>

definition plain_docs :: "(real \<Rightarrow> string) \<Rightarrow> tactic_doc set \<Rightarrow> bool" where
  "plain_docs num docs \<longleftrightarrow>
     (\<forall>d\<in>docs. \<forall>ob\<in>set (objects d). \<forall>flat. plain_key num d ob flat)
     \<and> (\<forall>d\<in>docs. \<forall>e\<in>docs. \<forall>ob\<in>set (objects d). \<forall>ob'\<in>set (objects e).
          num (size_of ob) = num (size_of ob') \<longrightarrow> size_of ob = size_of ob')"

definition made :: "(real \<Rightarrow> string) \<Rightarrow> tactic_doc set \<Rightarrow> placed \<Rightarrow> bool" where
  "made num docs g \<longleftrightarrow>
     (\<exists>d\<in>docs. \<exists>ob\<in>set (objects d). \<exists>flat. pl_key g = appearanceKey num d ob flat \<and> pl_piece g = buildPiece d ob flat)"

definition scene_from :: "(real \<Rightarrow> string) \<Rightarrow> tactic_doc set \<Rightarrow> scene \<Rightarrow> bool" where
  "scene_from num docs s \<longleftrightarrow>
     (\<forall>x\<in>set (sc_pieces s). made num docs (snd x)) \<and> (\<forall>d. sc_doc s = Some d \<longrightarrow> d \<in> docs)"

lemma set_update_subset: "set (AList.update i g ps) \<subseteq> insert (i, g) (set ps)"
  by (induction ps) auto

lemma made_reconcile:
  "doc \<in> docs \<Longrightarrow> ob \<in> set (objects doc) \<Longrightarrow> \<forall>x\<in>set (fst st). made num docs (snd x) \<Longrightarrow>
     \<forall>x\<in>set (fst (reconcile num doc flat ob st)). made num docs (snd x)"
proof -
  assume d: "doc \<in> docs" "ob \<in> set (objects doc)" and m: "\<forall>x\<in>set (fst st). made num docs (snd x)"
  obtain ps n fr where st: "st = (ps, n, fr)" by (cases st)
  have new: "made num docs (fresh_group num doc flat ob k l)" for k l
    using d by (auto simp: made_def fresh_group_def)
  show ?thesis
  proof (cases "map_of ps (obj_id ob)")
    case None
    with m new [of n None] set_update_subset [of "obj_id ob" "fresh_group num doc flat ob n None" ps] show ?thesis
      by (auto simp: st reconcile_def)
  next
    case (Some g)
    then have "made num docs g" using m map_of_SomeD [OF Some] by (force simp: st)
    then have "made num docs (g\<lparr>turned := turn_of flat ob\<rparr>)" by (simp add: made_def)
    with Some m new [of n "last_at g"] set_update_subset [of "obj_id ob" "g\<lparr>turned := turn_of flat ob\<rparr>" ps]
      set_update_subset [of "obj_id ob" "fresh_group num doc flat ob n (last_at g)" ps] show ?thesis
      by (auto simp: st reconcile_def)
  qed
qed

lemma made_reconciled:
  "doc \<in> docs \<Longrightarrow> \<forall>x\<in>set ps. made num docs (snd x) \<Longrightarrow>
     \<forall>x\<in>set (fst (reconciled num doc flat (ps, n, fr))). made num docs (snd x)"
proof -
  assume d: "doc \<in> docs" and m: "\<forall>x\<in>set ps. made num docs (snd x)"
  have "\<forall>x\<in>set (fst (fold (reconcile num doc flat) obs st)). made num docs (snd x)"
    if "set obs \<subseteq> set (objects doc)" "\<forall>x\<in>set (fst st). made num docs (snd x)" for obs st
    using that
  proof (induction obs arbitrary: st)
    case (Cons x obs)
    from Cons.prems have "x \<in> set (objects doc)" "set obs \<subseteq> set (objects doc)" by simp_all
    from Cons.IH [OF this(2) made_reconcile [OF d this(1) Cons.prems(2)]] show ?case by simp
  qed simp
  from this [of "objects doc" "(ps, n, fr)"] m show ?thesis
    by (auto simp: reconciled_def sweep_def split: prod.split)
qed

lemma setDoc_pieces:
  "sc_pieces (fst (setDoc num a doc s)) =
     fst (reconciled num doc (flat_board s) (sc_pieces s, built_count s, freed s))"
  "sc_doc (fst (setDoc num a doc s)) = Some doc" "flat_board (fst (setDoc num a doc s)) = flat_board s"
  by (simp_all add: setDoc_def Let_def split: prod.split)

lemma place_piece_made [simp]: "made num docs (place_piece doc fr i g) = made num docs g"
  by (simp add: made_def place_piece_def Let_def spin_def split: option.split)

lemma setFrame_keeps [simp]: "sc_doc (fst (setFrame t fr s)) = sc_doc s" "flat_board (fst (setFrame t fr s)) = flat_board s"
  by (simp_all add: setFrame_def)

lemma from_setDoc: "scene_from num docs s \<Longrightarrow> doc \<in> docs \<Longrightarrow> scene_from num docs (fst (setDoc num a doc s))"
  unfolding scene_from_def setDoc_pieces using made_reconciled by blast

lemma from_setFrame: "scene_from num docs s \<Longrightarrow> scene_from num docs (fst (setFrame t fr s))"
  by (auto simp: scene_from_def setFrame_counts)

lemma from_setFlat: "scene_from num docs s \<Longrightarrow> scene_from num docs (fst (setFlat num a flat s))"
proof -
  assume l: "scene_from num docs s"
  let ?s1 = "s\<lparr>flat_board := flat, cam := (cam s)\<lparr>cam_glide := None\<rparr>\<rparr>"
  let ?r1 = "case sc_doc s of None \<Rightarrow> (?s1, None) | Some doc \<Rightarrow> setDoc num a doc (?s1\<lparr>pitch_key := None\<rparr>)"
  have then_ok: "scene_from num docs (fst r) \<Longrightarrow> (\<And>x. scene_from num docs x \<Longrightarrow> scene_from num docs (fst (f x)))
      \<Longrightarrow> scene_from num docs (fst (and_then r f))" for r f
    by (simp add: and_then_def split: option.split)
  have s1: "scene_from num docs ?s1" "scene_from num docs (?s1\<lparr>pitch_key := None\<rparr>)"
    using l by (simp_all add: scene_from_def)
  have r1: "scene_from num docs (fst ?r1)"
  proof (cases "sc_doc s")
    case (Some doc)
    with l have "doc \<in> docs" by (simp add: scene_from_def)
    with Some from_setDoc [OF s1(2)] show ?thesis by simp
  qed (simp add: s1)
  have "scene_from num docs (fst (and_then (and_then ?r1
      (\<lambda>s2. case sc_frame s of None \<Rightarrow> (s2, None) | Some (tok, fr) \<Rightarrow> setFrame tok fr s2))
      (\<lambda>s3. (setView a (sc_view s3) True s3, None))))"
    by (intro then_ok r1) (simp_all add: from_setFrame split: option.split, simp add: scene_from_def)
  with l show ?thesis
    unfolding setFlat_def Let_def by (cases "flat = flat_board s") (simp_all only: if_True if_False fst_conv simp_thms)
qed

lemma from_step:
  "scene_from num docs s \<Longrightarrow> (\<And>d. ev = SDoc d \<Longrightarrow> d \<in> docs) \<Longrightarrow> scene_from num docs (scene_step num a ev s)"
proof (cases ev)
  case (STick dt)
  assume "scene_from num docs s"
  with STick show ?thesis by (simp add: loop_def scene_from_def)
next
  case (SEdit e)
  assume "scene_from num docs s"
  with SEdit show ?thesis by (simp add: setEditState_def scene_from_def)
next
  case (SView v b)
  assume "scene_from num docs s"
  with SView show ?thesis by (simp add: scene_from_def)
next
  case SGrab
  assume "scene_from num docs s"
  with SGrab show ?thesis by (simp add: grab_camera_def scene_from_def)
qed (simp_all add: from_setDoc from_setFrame from_setFlat)

text \<open>After the loop over the objects each has its group, with its own key and turn.\<close>

lemma reconcile_own:
  "\<exists>g. map_of (fst (reconcile num doc flat ob st)) (obj_id ob) = Some g
     \<and> pl_key g = appearanceKey num doc ob flat \<and> turned g = turn_of flat ob"
  by (cases st) (auto simp: reconcile_def update_conv' fresh_group_def split: option.split)

lemma reconcile_other:
  "i \<noteq> obj_id ob \<Longrightarrow> map_of (fst (reconcile num doc flat ob st)) i = map_of (fst st) i"
  by (cases st) (auto simp: reconcile_def update_conv' split: option.split)

lemma reconcile_fold:
  "distinct (map obj_id obs) \<Longrightarrow> ob \<in> set obs \<Longrightarrow>
     \<exists>g. map_of (fst (fold (reconcile num doc flat) obs st)) (obj_id ob) = Some g
       \<and> pl_key g = appearanceKey num doc ob flat \<and> turned g = turn_of flat ob"
proof (induction obs rule: rev_induct)
  case (snoc x obs)
  show ?case
  proof (cases "ob = x")
    case True
    show ?thesis unfolding True using reconcile_own [of num doc flat x "fold (reconcile num doc flat) obs st"] by simp
  next
    case False
    with snoc.prems have ob: "ob \<in> set obs" by auto
    moreover have "obj_id x \<notin> obj_id ` set obs" using snoc.prems(1) by simp
    ultimately have "obj_id ob \<noteq> obj_id x" by (metis imageI)
    note this ob
    with snoc show ?thesis by (simp add: reconcile_other)
  qed
qed simp

lemma map_of_filter_keys: "map_of (filter (\<lambda>(i, g). P i) ps) k = (if P k then map_of ps k else None)"
  by (induction ps) auto

lemma map_of_map_values: "map_of (map (\<lambda>(i, g). (i, f i g)) ps) k = map_option (f k) (map_of ps k)"
  by (induction ps) auto

lemma reconciled_group:
  assumes "distinct (map obj_id (objects doc))" "ob \<in> set (objects doc)"
  shows "\<exists>g. map_of (fst (reconciled num doc flat st)) (obj_id ob) = Some g
     \<and> pl_key g = appearanceKey num doc ob flat \<and> turned g = turn_of flat ob"
proof -
  have "obj_id ob \<in> object_ids doc" using assms(2) by (simp add: object_ids_def)
  with reconcile_fold [OF assms, of num doc flat st] show ?thesis
    by (auto simp: reconciled_def sweep_def map_of_filter_keys case_prod_beta split: prod.split)
qed

lemma find_distinct_id:
  "distinct (map obj_id obs) \<Longrightarrow> ob \<in> set obs \<Longrightarrow> find (\<lambda>x. obj_id x = obj_id ob) obs = Some ob"
  by (induction obs) auto


definition sample_board :: tactic_doc where
  "sample_board = (emptyDoc ''s'')\<lparr>objects := [sample_object ''a'' PlayerKind],
     steps := [(newStep ''s'')\<lparr>pos := [''a'' \<mapsto> (10, 5)]\<rparr>]\<rparr>"

lemma sample_board_simps:
  "objects sample_board = [sample_object ''a'' PlayerKind]" "obj_id (sample_object i k') = i"
  "positionAt sample_board 0 ''a'' = Some (10, 5)"
  by (simp_all add: sample_board_def sample_object_def positionAt_def)

lemma sample_board_plain: "plain_docs (\<lambda>r. ''1'') {sample_board}"
  by (simp add: plain_docs_def plain_key_def key_fields_def sample_board_def sample_object_def playerLook_def emptyDoc_def
      is_keeper_def or_empty_def size_of_def Let_def)


section \<open>Drawings\<close>

definition grass_ok :: "(nat \<Rightarrow> drawing list) \<Rightarrow> scene \<Rightarrow> bool" where
  "grass_ok arr s \<longleftrightarrow> on_grass s = map (\<lambda>d. (d, opacity s)) (drawn s) \<and> (\<forall>t. drawn_key s = Some t \<longrightarrow> drawn s = arr t)"

lemma grass_show: "grass_ok arr s \<Longrightarrow> frame_drawings fr = arr t \<Longrightarrow> grass_ok arr (show_drawings t fr s)"
  by (auto simp: grass_ok_def show_drawings_def)

lemma setFrame_grass:
  "on_grass (fst (setFrame t fr s)) = on_grass (show_drawings t fr s)" "drawn (fst (setFrame t fr s)) = drawn (show_drawings t fr s)"
  "opacity (fst (setFrame t fr s)) = opacity (show_drawings t fr s)"
  "drawn_key (fst (setFrame t fr s)) = drawn_key (show_drawings t fr s)"
  by (simp_all add: setFrame_def show_drawings_def)

text \<open>
  The grass is never stale: as long as one array of drawings has one identity, after every frame the groups on the
  grass are its drawings, all at one opacity within a thousandth of the frame's, however many frames came before.
\<close>
theorem grass_follows_frames:
  fixes arr :: "nat \<Rightarrow> drawing list" and frs :: "(nat \<times> frame) list" and fr :: frame and t :: nat and a :: real
  assumes "\<And>t fr. (t, fr) \<in> set frs \<Longrightarrow> frame_drawings fr = arr t" "frame_drawings fr = arr t"
  defines "s \<equiv> fst (setFrame t fr (fold (\<lambda>(t, fr) s. fst (setFrame t fr s)) frs (opened_board a)))"
  shows "on_grass s = map (\<lambda>d. (d, opacity s)) (frame_drawings fr) \<and> \<bar>opacity s - drawingOpacity fr\<bar> \<le> 1 / 1000"
proof -
  let ?s0 = "fold (\<lambda>(t, fr) s. fst (setFrame t fr s)) frs (opened_board a)"
  have step: "grass_ok arr (fst (setFrame t fr s))" if "grass_ok arr s" "frame_drawings fr = arr t" for t fr s
    using grass_show [OF that] by (simp add: grass_ok_def setFrame_grass)
  have "grass_ok arr (opened_board a)" by (simp add: opened_board_def new_scene_def grass_ok_def)
  then have "grass_ok arr ?s0"
    using assms(1) by (induction frs rule: rev_induct) (auto intro!: step split: prod.split)
  from step [OF this assms(2)] have ok: "grass_ok arr s" by (simp add: s_def)
  have "drawn_key s = Some t" "\<bar>opacity s - drawingOpacity fr\<bar> \<le> 1 / 1000"
    by (auto simp: s_def setFrame_grass show_drawings_def abs_minus_commute)
  with ok assms(2) show ?thesis by (simp add: grass_ok_def)
qed

section \<open>The glide\<close>

lemma lerp3_end: "lerp3 p q 1 = q"
  by (simp add: lerp3_def)

lemma easeInOut_end: "easeInOut 1 = 1"
  by (simp add: easeInOut_def)

lemma no_glide: "cam_glide c = None \<Longrightarrow> fold glide_step dts c = c"
  by (induction dts) (simp_all add: glide_step_def)

lemma glide_run:
  "cam_glide c = Some g \<Longrightarrow> (\<And>dt. dt \<in> set dts \<Longrightarrow> 0 \<le> dt) \<Longrightarrow> glide_t g < 1
   \<Longrightarrow> glide_t g + sum_list dts / (85 / 100) \<ge> 1 \<Longrightarrow>
     fold glide_step dts c = \<lparr>cam_at = fst (glide_to g), cam_target = snd (glide_to g), cam_glide = None\<rparr>"
proof (induction dts arbitrary: c g)
  case (Cons dt dts)
  let ?t = "glide_t g + dt / (85 / 100)"
  show ?case
  proof (cases "?t \<ge> 1")
    case True
    then have "min 1 ?t = 1" by (rule min_absorb1)
    with Cons.prems(1) have "glide_step dt c = \<lparr>cam_at = fst (glide_to g), cam_target = snd (glide_to g), cam_glide = None\<rparr>"
      by (simp only: glide_step_def Let_def option.case easeInOut_end lerp3_end simp_thms if_True order_refl)
    with no_glide show ?thesis by simp
  next
    case False
    then have "min 1 ?t = ?t" by (intro min_absorb2) simp
    with False Cons.prems(1) have g: "cam_glide (glide_step dt c) = Some (g\<lparr>glide_t := ?t\<rparr>)"
      by (simp only: glide_step_def Let_def option.case if_False camera.select_convs simp_thms)
    have "?t + sum_list dts / (85 / 100) \<ge> 1" using Cons.prems(4) by (simp add: add_divide_distrib)
    with Cons.IH [OF g] Cons.prems(2) False show ?thesis by simp
  qed
qed simp

text \<open>
  A glide arrives: once the frames since its start add up to 0.85 seconds, each counted at most a tenth, the camera
  stands exactly at the view it was sent to, whatever the frames were.
\<close>
theorem glide_arrives:
  fixes s :: scene and v :: camera_view and a :: real and deltas :: "real list"
  assumes "\<not> flat_board s" "\<And>dt. dt \<in> set deltas \<Longrightarrow> 0 \<le> dt" "sum_list (map frame_time deltas) \<ge> 85 / 100" "\<not> closed s"
  defines "s' \<equiv> fold loop deltas (setView a v False s)"
  shows "(cam_at (cam s'), cam_target (cam s')) = framing v (doc_layout s) a \<and> cam_glide (cam s') = None"
proof -
  let ?s0 = "setView a v False s"
  have run: "cam (fold loop ds x) = fold glide_step (map frame_time ds) (cam x) \<and> \<not> closed (fold loop ds x)"
    if "\<not> closed x" for ds x
    using that by (induction ds arbitrary: x) (simp_all add: loop_def)
  have c: "cam (fold loop deltas ?s0) = fold glide_step (map frame_time deltas) (cam ?s0)"
    using run [of ?s0 deltas] assms(4) by simp
  obtain g where g: "cam_glide (cam ?s0) = Some g" "glide_t g = 0" "glide_to g = framing v (doc_layout s) a"
    using assms(1) by (simp add: setView_def Let_def)
  have "0 \<le> dt" if "dt \<in> set (map frame_time deltas)" for dt using that assms(2) by (auto simp: frame_time_def)
  moreover have "glide_t g + sum_list (map frame_time deltas) / (85 / 100) \<ge> 1" using g(2) assms(3) by simp
  ultimately have "fold glide_step (map frame_time deltas) (cam ?s0)
      = \<lparr>cam_at = fst (glide_to g), cam_target = snd (glide_to g), cam_glide = None\<rparr>"
    using glide_run [OF g(1), of "map frame_time deltas"] g(2) by simp
  then show ?thesis by (simp add: s'_def c g(3))
qed

definition one_line :: drawing where
  "one_line = \<lparr>drawing_id = ''d'', drawing_kind = Line, points = [(0, 0), (4, 0)], control = None, style = None,
     drawing_color = None, stroke_width = None, drawing_text = None, fill = None\<rparr>"

definition line_frame :: "real \<Rightarrow> frame" where
  "line_frame r = \<lparr>frame_step = 0, placements = Map.empty, frame_drawings = [one_line], drawingOpacity = r, highlights = [],
     frame_note = []\<rparr>"

theorem grass_follows_frames_witness:
  "map fst (on_grass (fst (setFrame 3 (line_frame (1 / 2))
      (fold (\<lambda>(t, fr) s. fst (setFrame t fr s)) [(3, line_frame 1)] (opened_board 1))))) = [one_line]"
  using conjunct1 [OF grass_follows_frames [of "[(3, line_frame 1)]" "\<lambda>_. [one_line]" "line_frame (1 / 2)" 3 1]]
  by (simp add: line_frame_def)

theorem glide_arrives_witness:
  "cam_glide (cam (fold loop (replicate 9 (1 / 5)) (setView 2 TopView False (opened_board 2)))) = None"
proof -
  have open_board: "\<not> flat_board (opened_board 2)" "\<not> closed (opened_board 2)" by (simp_all add: opened_board_def new_scene_def)
  have t: "frame_time (1 / 5) = 1 / 10" by (simp add: frame_time_def)
  have "sum_list (map frame_time (replicate 9 (1 / 5))) \<ge> 85 / 100" by (simp add: t sum_list_replicate)
  with conjunct2 [OF glide_arrives [where s = "opened_board 2" and v = TopView and a = 2 and deltas = "replicate 9 (1 / 5)"]]
    open_board show ?thesis by simp
qed

section \<open>Handles and trails\<close>

definition knob_ok :: "tactic_doc \<Rightarrow> edit_state \<Rightarrow> drawing list \<Rightarrow> handle \<Rightarrow> bool" where
  "knob_ok doc e ds h =
     (case h of
        BendHandle i \<Rightarrow> i \<in> object_ids doc \<and> edit_selection e = Some (OnObject i)
          \<and> (\<exists>p. movedInto doc (edit_step e) i = Inr (Some p))
      | PointHandle i n \<Rightarrow> edit_selection e = Some (OnDrawing i)
          \<and> (\<exists>d\<in>set ds. drawing_id d = i \<and> drawing_kind d \<noteq> Pen \<and> n < length (points d))
      | ControlHandle i \<Rightarrow> edit_selection e = Some (OnDrawing i)
          \<and> (\<exists>d\<in>set ds. drawing_id d = i \<and> drawing_kind d \<in> {Arrow, Line} \<and> 2 \<le> length (points d)))"

lemma trail_of_ok:
  "nth_opt (steps doc) k = Some st \<Longrightarrow> \<exists>os. trail_of doc k sel ob = Inr os"
  by (auto simp: trail_of_def movedInto_def Let_def split: option.split prod.split sum.split)

lemma trail_loop_ok:
  "nth_opt (steps doc) k = Some st \<Longrightarrow> snd (trail_loop doc k sel obs) = None"
proof (induction obs)
  case (Cons ob obs)
  from trail_of_ok [OF Cons.prems, of sel ob] obtain os where "trail_of doc k sel ob = Inr os" by blast
  with Cons show ?case by (cases "trail_loop doc k sel obs") simp
qed simp

lemma trail_knobs:
  "Knob p h c \<in> set (fst (trail_loop doc k sel obs)) \<Longrightarrow>
     \<exists>ob\<in>set obs. h = BendHandle (obj_id ob) \<and> sel = Some (OnObject (obj_id ob))
       \<and> (\<exists>q. movedInto doc k (obj_id ob) = Inr (Some q))"
proof (induction obs)
  case (Cons ob obs)
  have own: "h = BendHandle (obj_id ob) \<and> sel = Some (OnObject (obj_id ob)) \<and> (\<exists>q. movedInto doc k (obj_id ob) = Inr (Some q))"
    if "trail_of doc k sel ob = Inr os" "Knob p h c \<in> set os" for os
    using that by (auto simp: trail_of_def Let_def split: sum.split_asm option.split_asm if_split_asm)
  from Cons show ?case by (auto dest: own split: sum.split_asm prod.split_asm)
qed simp

lemma drawing_knobs:
  "Knob p h c \<in> set (drawing_overlays ds i) \<Longrightarrow>
     \<exists>d\<in>set ds. drawing_id d = i \<and> (case h of
        BendHandle _ \<Rightarrow> False
      | PointHandle j n \<Rightarrow> j = i \<and> drawing_kind d \<noteq> Pen \<and> n < length (points d)
      | ControlHandle j \<Rightarrow> j = i \<and> drawing_kind d \<in> {Arrow, Line} \<and> 2 \<le> length (points d))"
proof (cases "find (\<lambda>d. drawing_id d = i) ds")
  case (Some d)
  then have d: "d \<in> set ds" "drawing_id d = i" by (auto simp: find_Some_iff)
  assume "Knob p h c \<in> set (drawing_overlays ds i)"
  with Some d(2) have "case h of BendHandle _ \<Rightarrow> False
      | PointHandle j n \<Rightarrow> j = i \<and> drawing_kind d \<noteq> Pen \<and> n < length (points d)
      | ControlHandle j \<Rightarrow> j = i \<and> drawing_kind d \<in> {Arrow, Line} \<and> 2 \<le> length (points d)"
    by (auto simp: drawing_overlays_def in_set_enumerate_eq split: if_split_asm)
  with d show ?thesis by blast
qed (simp add: drawing_overlays_def)

text \<open>
  C33. Every handle on the board can be dragged: after any document, frame or edit state, a bend handle belongs to the
  selected object and to a move into the open step, and a point or control handle to a point the selected drawing has.
\<close>
theorem handles_name_what_exists:
  assumes "sc_doc s = Some doc" "Knob p h c \<in> set (overlays (fst (refreshOverlays s)))"
  shows "edit_on (sc_edit s) \<and> knob_ok doc (sc_edit s) (drawn s) h"
proof -
  let ?e = "sc_edit s"
  let ?t = "if trails_on ?e \<and> edit_step ?e > 0
      then trail_loop doc (edit_step ?e) (edit_selection ?e) (objects doc) else ([], None)"
  have on: "edit_on ?e"
  proof (rule ccontr)
    assume "\<not> edit_on ?e"
    then have "overlays (fst (refreshOverlays s)) = []" by (simp add: refreshOverlays_def Let_def assms(1))
    with assms(2) show False by simp
  qed
  have "Knob p h c \<in> set (fst ?t)
      \<or> (\<exists>i. edit_selection ?e = Some (OnDrawing i) \<and> Knob p h c \<in> set (drawing_overlays (drawn s) i))"
    using assms on unfolding refreshOverlays_def Let_def
    by (auto split: prod.split_asm option.split_asm target.split_asm) metis+
  then show ?thesis
  proof
    assume k: "Knob p h c \<in> set (fst ?t)"
    then have "Knob p h c \<in> set (fst (trail_loop doc (edit_step ?e) (edit_selection ?e) (objects doc)))"
      by (auto split: if_split_asm)
    from trail_knobs [OF this] on show ?thesis by (auto simp: knob_ok_def object_ids_def)
  next
    assume "\<exists>i. edit_selection ?e = Some (OnDrawing i) \<and> Knob p h c \<in> set (drawing_overlays (drawn s) i)"
    then obtain i where i: "edit_selection ?e = Some (OnDrawing i)" "Knob p h c \<in> set (drawing_overlays (drawn s) i)"
      by blast
    from drawing_knobs [OF i(2)] i(1) on show ?thesis by (auto simp: knob_ok_def split: handle.splits)
  qed
qed

definition line_scene :: scene where
  "line_scene = (opened_board 1)\<lparr>sc_doc := Some sample_board, drawn := [one_line],
     sc_edit := \<lparr>in_editor = True, edit_on = True, edit_step = 0, edit_selection = Some (OnDrawing ''d''), trails_on = True\<rparr>\<rparr>"

theorem handles_name_what_exists_witness:
  "knob_ok sample_board (sc_edit line_scene) [one_line] (PointHandle ''d'' 1)"
proof -
  have "Knob (4, 0) (PointHandle ''d'' 1) ''#ffffff'' \<in> set (overlays (fst (refreshOverlays line_scene)))"
    by (simp add: refreshOverlays_def line_scene_def drawing_overlays_def one_line_def)
  from conjunct2 [OF handles_name_what_exists [OF _ this, of sample_board]] show ?thesis by (simp add: line_scene_def)
qed

text \<open>
  Drawing the overlays never fails while the open step exists, and fails at the first object once it does not.
\<close>

lemma refresh_safe:
  "sc_doc s = Some doc \<Longrightarrow> nth_opt (steps doc) (edit_step (sc_edit s)) = Some st \<Longrightarrow> snd (refreshOverlays s) = None"
  using trail_loop_ok [of doc "edit_step (sc_edit s)" st "edit_selection (sc_edit s)" "objects doc"]
  by (auto simp: refreshOverlays_def Let_def split: prod.split option.split)

lemma trail_loop_throws:
  "0 < k \<Longrightarrow> nth_opt (steps doc) k = None \<Longrightarrow> obs \<noteq> [] \<Longrightarrow> trail_loop doc k sel obs = ([], Some TypeError)"
  by (cases obs) (simp_all add: trail_of_def movedInto_def)

lemma nth_opt_beyond: "int (length xs) \<le> k \<Longrightarrow> nth_opt xs k = None"
  by (simp add: nth_opt_def)

text \<open>
  Deleting the last step throws: the document reaches the board before the edit state does, so the board reads the
  positions of a step that is gone.  Once the edit state arrives the board recovers.
\<close>
theorem deleting_last_step_throws:
  assumes "deleteStep e = Inr e'" "0 < stepIndex e" "stepIndex e = int (length (steps (sdoc e))) - 1"
    and "objects (sdoc e) \<noteq> []" "edit_on (sc_edit s)" "trails_on (sc_edit s)" "edit_step (sc_edit s) = stepIndex e"
  shows "snd (setDoc num a (sdoc e') s) = Some TypeError
    \<and> snd (setEditState ((sc_edit s)\<lparr>edit_step := stepIndex e'\<rparr>) (fst (setDoc num a (sdoc e') s))) = None"
proof -
  have len: "length (steps (sdoc e')) = length (steps (sdoc e)) - 1" and objs: "objects (sdoc e') = objects (sdoc e)"
      and idx: "stepIndex e' = int (length (steps (sdoc e'))) - 1"
    using assms(1,2,3) by (auto simp: deleteStep_def Let_def split: if_split_asm)
  have gone: "nth_opt (steps (sdoc e')) (edit_step (sc_edit s)) = None"
    using assms(2,3,7) len by (intro nth_opt_beyond) simp
  have throws: "trail_loop (sdoc e') (edit_step (sc_edit s)) sel (objects (sdoc e')) = ([], Some TypeError)" for sel
    using trail_loop_throws [OF _ gone] assms(2,4,7) objs by simp
  have refresh: "snd (refreshOverlays x) = Some TypeError" if "sc_doc x = Some (sdoc e')" "sc_edit x = sc_edit s" for x
    using that assms(2,5,6,7) throws by (simp add: refreshOverlays_def Let_def)
  have first: "snd (setDoc num a (sdoc e') s) = Some TypeError"
    unfolding setDoc_def Let_def by (auto intro!: refresh split: prod.split)
  have "0 < length (steps (sdoc e'))" using len assms(2,3) by simp
  then have "nth_opt (steps (sdoc e')) (stepIndex e') = Some (last (steps (sdoc e')))"
  proof -
    have "nat (int n - 1) = n - 1" for n by arith
    then show ?thesis using \<open>0 < length (steps (sdoc e'))\<close> unfolding idx by (simp add: nth_opt_def last_conv_nth)
  qed
  then show ?thesis
    using first unfolding setEditState_def
    by (intro conjI first refresh_safe [where doc = "sdoc e'"]) (simp_all add: setDoc_pieces)
qed

definition two_steps :: tactic_doc where
  "two_steps = sample_board\<lparr>steps := [(newStep ''s'')\<lparr>highlight := Some [''a'']\<rparr>, (newStep ''t'')\<lparr>pos := [''a'' \<mapsto> (10, 5)]\<rparr>]\<rparr>"

definition on_last :: editor where
  "on_last = (new_editor ''s'')\<lparr>sdoc := two_steps, stepIndex := 1\<rparr>"

definition editing_scene :: scene where
  "editing_scene = (opened_board 1)\<lparr>sc_doc := Some two_steps,
     sc_edit := \<lparr>in_editor = True, edit_on = True, edit_step = 1, edit_selection = None, trails_on = True\<rparr>\<rparr>"

theorem deleting_last_step_throws_witness:
  "\<exists>e'. deleteStep on_last = Inr e' \<and> snd (setDoc (\<lambda>r. ''1'') 1 (sdoc e') editing_scene) = Some TypeError"
proof -
  obtain e' where e': "deleteStep on_last = Inr e'"
    by (simp add: deleteStep_def on_last_def two_steps_def sample_board_def Let_def)
  have "stepIndex on_last = 1" "length (steps (sdoc on_last)) = 2" "objects (sdoc on_last) \<noteq> []"
    by (simp_all add: on_last_def two_steps_def sample_board_def)
  with deleting_last_step_throws [OF e', of editing_scene "\<lambda>r. ''1''" 1] e' show ?thesis
    by (simp add: editing_scene_def)
qed

lemma lone_spot:
  "spots_key x = [] \<Longrightarrow> map_of (sc_pieces x) i = Some g \<Longrightarrow> i \<noteq> [] \<Longrightarrow> spots (rebuildSpots [i] x) = [(i, ground_of g)]"
  by (simp add: rebuildSpots_def)

text \<open>
  A highlight can light an empty spot: a piece that stands nowhere in the open step but is highlighted there is hidden,
  and its spot shines where its group was made, on the centre spot.
\<close>
theorem spot_without_piece:
  "let s = fst (setFrame 1 (hold_frame two_steps 0 0) (fst (setDoc num a two_steps (opened_board a))))
   in spots s = [(''a'', (0, 0))] \<and> (\<forall>g. map_of (sc_pieces s) ''a'' = Some g \<longrightarrow> \<not> visible g)"
proof -
  let ?s = "fst (setDoc num a two_steps (opened_board a))"
  have objs: "objects two_steps = [sample_object ''a'' PlayerKind]" by (simp add: two_steps_def sample_board_simps)
  have ids: "obj_id (sample_object ''a'' PlayerKind) = ''a''" by (simp add: sample_object_def)
  have ps: "sc_pieces ?s = [(''a'', fresh_group num two_steps False (sample_object ''a'' PlayerKind) 0 None)]"
    by (simp add: setDoc_pieces reconciled_def sweep_def objs reconcile_def opened_board_def new_scene_def ids object_ids_def)
  have none: "positionAt two_steps 0 ''a'' = None"
    by (simp add: positionAt_def two_steps_def sample_board_def newStep_def)
  have hidden: "placements (hold_frame two_steps 0 0) ''a'' = None" by (simp add: hold_frame_def Let_def still_eq none)
  have lit: "highlights (hold_frame two_steps 0 0) = [''a'']"
    by (simp add: hold_frame_def Let_def two_steps_def nth_opt_def list_or_empty_def)
  note frame = hidden lit
  have sp: "spots ?s = []" "spots_key ?s = []"
    by (simp_all add: setDoc_def Let_def opened_board_def new_scene_def setView_def split: prod.split)
  let ?s2 = "show_drawings 1 (hold_frame two_steps 0 0) (?s\<lparr>sc_frame := Some (1, hold_frame two_steps 0 0),
      sc_pieces := map (\<lambda>(i, g). (i, place_piece (sc_doc ?s) (hold_frame two_steps 0 0) i g)) (sc_pieces ?s)\<rparr>)"
  have s2: "spots_key ?s2 = []" "sc_pieces ?s2 =
      [(''a'', (fresh_group num two_steps False (sample_object ''a'' PlayerKind) 0 None)\<lparr>visible := False\<rparr>)]"
    using sp by (simp_all add: ps place_piece_def frame show_drawings_def)
  have "map_of (sc_pieces ?s2) ''a''
      = Some ((fresh_group num two_steps False (sample_object ''a'' PlayerKind) 0 None)\<lparr>visible := False\<rparr>)"
    unfolding s2(2) by simp
  from lone_spot [OF s2(1) this] have "spots (rebuildSpots (highlights (hold_frame two_steps 0 0)) ?s2) = [(''a'', (0, 0))]"
    unfolding lit by (simp add: ground_of_def fresh_group_def)
  then have 1: "spots (fst (setFrame 1 (hold_frame two_steps 0 0) ?s)) = [(''a'', (0, 0))]"
    unfolding setFrame_def refresh_fields .
  have 2: "sc_pieces (fst (setFrame 1 (hold_frame two_steps 0 0) ?s)) = sc_pieces ?s2"
    by (simp only: setFrame_def refresh_fields rebuildSpots_fields)
  show ?thesis unfolding Let_def 1 2 unfolding s2(2) by simp
qed

end
