(* ===== verification/Api_Lists.thy ===== *)
theory Api_Lists
  imports Prelude
begin

text \<open>
  Lists of the API: pages and the paging control (\<open>core/api/page.ts\<close>, \<open>shared/pagination/paginator.ts\<close>), the
  stores that turn ids into names (\<open>core/api/lookup-store.ts\<close>, \<open>core/api/player-names.ts\<close>) and what crosses from
  the server's render into the browser (\<open>core/api/transferred-map.ts\<close>, \<open>core/api/ssr-resource.ts\<close>).  The answer to the
  \<open>k\<close>-th request of a loop is an argument.
\<close>

section \<open>Pages\<close>

record 'a list_page =
  page_items :: "'a list"
  page_limit :: nat
  page_offset :: nat
  has_more :: bool

definition DEFAULT_PAGE_SIZE :: nat where "DEFAULT_PAGE_SIZE = 25"
definition MAX_PAGE_SIZE :: nat where "MAX_PAGE_SIZE = 100"

text \<open>A query for a page is its limit and its offset; \<open>Math.max(0, offset - limit)\<close> is subtraction in \<open>nat\<close>.\<close>

definition emptyPage :: "nat \<Rightarrow> 'a list_page" where
  "emptyPage lmt = \<lparr>page_items = [], page_limit = lmt, page_offset = 0, has_more = False\<rparr>"

definition nextPage :: "'a list_page \<Rightarrow> (nat \<times> nat) option" where
  "nextPage p = (if has_more p then Some (page_limit p, page_offset p + page_limit p) else None)"

definition previousPage :: "'a list_page \<Rightarrow> (nat \<times> nat) option" where
  "previousPage p = (if page_offset p = 0 then None else Some (page_limit p, page_offset p - page_limit p))"

definition hasPrevious :: "'a list_page \<Rightarrow> bool" where "hasPrevious p \<longleftrightarrow> page_offset p > 0"

definition hasAnyPaging :: "'a list_page \<Rightarrow> bool" where
  "hasAnyPaging p \<longleftrightarrow> has_more p \<or> page_offset p > 0"

text \<open>\<open>rangeLabel\<close>: the numbers of the first and the last row shown.\<close>

definition rangeLabel :: "'a list_page \<Rightarrow> (nat \<times> nat) option" where
  "rangeLabel p =
     (if page_items p = [] then None else Some (page_offset p + 1, page_offset p + length (page_items p)))"

definition goPrevious :: "'a list_page \<Rightarrow> nat \<times> nat" where
  "goPrevious p = (page_limit p, page_offset p - page_limit p)"

definition goNext :: "'a list_page \<Rightarrow> nat \<times> nat" where
  "goNext p = (page_limit p, page_offset p + page_limit p)"

text \<open>What the API documents of a list: the rows from the offset on, as many as the clamped limit, and whether
  there are more.\<close>

definition serve :: "'a list \<Rightarrow> nat \<times> nat \<Rightarrow> 'a list_page" where
  "serve rows q =
     (let lmt = min MAX_PAGE_SIZE (fst q)
      in \<lparr>page_items = take lmt (drop (snd q) rows), page_limit = lmt, page_offset = snd q,
          has_more = snd q + lmt < length rows\<rparr>)"

text \<open>
  Browsing goes over a list without a gap: the control is hidden exactly when one page shows every row, next
  shows the row after the last one shown, previous then goes back to the same page, and both buttons ask for
  what \<open>nextPage\<close> and \<open>previousPage\<close> say.
\<close>
theorem paging_has_no_gap:
  assumes "p = serve rows (lmt, off)" "0 < lmt" "off < length rows" "lmt dvd off"
  shows "(\<not> hasAnyPaging p \<longleftrightarrow> page_items p = rows)
    \<and> (has_more p \<longrightarrow> nextPage p = Some (goNext p) \<and> goPrevious (serve rows (goNext p)) = (page_limit p, off)
        \<and> fst (the (rangeLabel (serve rows (goNext p)))) = Suc (snd (the (rangeLabel p))))
    \<and> (hasPrevious p \<longrightarrow> previousPage p = Some (goPrevious p))
    \<and> (\<not> has_more p \<longrightarrow> snd (the (rangeLabel p)) = length rows)"
proof -
  define L where "L = min MAX_PAGE_SIZE lmt"
  have L: "0 < L" "min MAX_PAGE_SIZE L = L" using assms(2) by (simp_all add: L_def MAX_PAGE_SIZE_def)
  have p: "page_items p = take L (drop off rows)" "page_limit p = L" "page_offset p = off"
    "has_more p = (off + L < length rows)"
    using assms(1) by (simp_all add: serve_def Let_def L_def)
  have items: "page_items p \<noteq> []" using assms(3) L(1) by (simp add: p)
  have one: "take L (drop off rows) = rows \<longleftrightarrow> off = 0 \<and> length rows \<le> L"
  proof
    assume t: "take L (drop off rows) = rows"
    then have "length (take L (drop off rows)) = length rows" by simp
    then show "off = 0 \<and> length rows \<le> L" using assms(3) by auto
  qed simp
  have "\<not> hasAnyPaging p \<longleftrightarrow> page_items p = rows"
    unfolding hasAnyPaging_def p one by auto
  moreover have "nextPage p = Some (goNext p)" if "has_more p" using that by (simp add: nextPage_def goNext_def)
  moreover have "previousPage p = Some (goPrevious p)" if "hasPrevious p"
    using that by (simp add: hasPrevious_def previousPage_def goPrevious_def)
  moreover have "goPrevious (serve rows (goNext p)) = (page_limit p, off)"
    by (simp add: goPrevious_def serve_def goNext_def Let_def p L)
  moreover have "fst (the (rangeLabel (serve rows (goNext p)))) = Suc (snd (the (rangeLabel p)))" if "has_more p"
    using that items L by (simp add: rangeLabel_def serve_def goNext_def Let_def p)
  moreover have "snd (the (rangeLabel p)) = length rows" if "\<not> has_more p"
    using that items assms(3) by (simp add: rangeLabel_def p)
  ultimately show ?thesis by blast
qed

theorem paging_has_no_gap_witness:
  "nextPage (serve [1..<61] (25, 25)) = Some (25, 50)
    \<and> fst (the (rangeLabel (serve [1..<61] (25, 50)))) = Suc (snd (the (rangeLabel (serve [1..<61] (25, 25)))))"
  using paging_has_no_gap [of "serve [1..<61] (25, 25)" "[1..<61]" 25 25]
  by (simp add: goNext_def serve_def MAX_PAGE_SIZE_def Let_def)

section \<open>Reading a whole list\<close>

text \<open>
  \<open>LookupStore.collect\<close>: \<open>answer k offset\<close> is the answer to the \<open>k\<close>-th request, \<open>None\<close> a loop that does not end.
\<close>

definition add_rows :: "('a \<Rightarrow> string) \<Rightarrow> 'a list \<Rightarrow> (string \<rightharpoonup> 'a) \<Rightarrow> (string \<rightharpoonup> 'a)" where
  "add_rows key xs m = fold (\<lambda>x t. t(key x \<mapsto> x)) xs m"

partial_function (option) collect_loop ::
  "(nat \<Rightarrow> nat \<Rightarrow> string + 'a list_page) \<Rightarrow> ('a \<Rightarrow> string) \<Rightarrow> nat \<Rightarrow> nat \<Rightarrow> (string \<rightharpoonup> 'a)
     \<Rightarrow> (string + (string \<rightharpoonup> 'a)) option" where
  "collect_loop answer key k off m =
     (case answer k off of
        Inl e \<Rightarrow> Some (Inl e)
      | Inr p \<Rightarrow>
          (let m' = add_rows key (page_items p) m in
           if \<not> has_more p then Some (Inr m')
           else if off + page_limit p > 5000 then Some (Inr m')
           else collect_loop answer key (Suc k) (off + page_limit p) m'))"

definition collect :: "(nat \<Rightarrow> nat \<Rightarrow> string + 'a list_page) \<Rightarrow> ('a \<Rightarrow> string) \<Rightarrow> (string + (string \<rightharpoonup> 'a)) option" where
  "collect answer key = collect_loop answer key 0 0 Map.empty"

lemma collect_loop_ends:
  assumes "\<And>k off p. answer k off = Inr p \<Longrightarrow> 0 < page_limit p"
  shows "\<exists>r. collect_loop answer key k off m = Some r"
proof (induction "5001 - off" arbitrary: k off m rule: less_induct)
  case less
  show ?case
  proof (cases "answer k off")
    case (Inl e)
    then show ?thesis by (simp add: collect_loop.simps)
  next
    case (Inr p)
    have "\<exists>r. collect_loop answer key (Suc k) (off + page_limit p) m' = Some r"
      if "off + page_limit p \<le> 5000" for m'
      using less [of "off + page_limit p"] assms [OF Inr] that by simp
    then show ?thesis by (subst collect_loop.simps) (simp add: Inr Let_def)
  qed
qed

text \<open>
  Reading a list ends, however often the API claims that there is more: with every page at least one row long
  in its limit the loop stops by itself or at the offset the code sets as its bound.
\<close>
theorem collecting_ends:
  assumes "\<forall>k off p. answer k off = Inr p \<longrightarrow> 0 < page_limit p"
  shows "\<exists>r. collect answer key = Some r"
  using collect_loop_ends [of answer key 0 0 Map.empty] assms by (simp add: collect_def)

theorem collecting_ends_witness:
  "\<exists>r. collect (\<lambda>k off. Inr \<lparr>page_items = [''a''], page_limit = 100, page_offset = off, has_more = True\<rparr>) (\<lambda>x. x) = Some r"
  by (rule collecting_ends) auto

lemma add_rows_append: "add_rows key (xs @ ys) m = add_rows key ys (add_rows key xs m)"
  by (simp add: add_rows_def)

text \<open>The rows the loop sees from an offset on: a page at a time, 5100 in all.\<close>

lemma collect_loop_rows:
  assumes "\<And>k off. answer k off = Inr (serve rows (MAX_PAGE_SIZE, off))"
  shows "off mod 100 = 0 \<Longrightarrow> off \<le> 5000 \<Longrightarrow>
    collect_loop answer key k off m = Some (Inr (add_rows key (take (5100 - off) (drop off rows)) m))"
proof (induction "5001 - off" arbitrary: k off m rule: less_induct)
  case less
  let ?m = "add_rows key (take 100 (drop off rows)) m"
  have a: "answer k off = Inr (serve rows (100, off))" using assms by (simp add: MAX_PAGE_SIZE_def)
  have page: "page_items (serve rows (100, off)) = take 100 (drop off rows)"
    "page_limit (serve rows (100, off)) = 100" "has_more (serve rows (100, off)) = (off + 100 < length rows)"
    by (simp_all add: serve_def Let_def MAX_PAGE_SIZE_def)
  show ?case
  proof (cases "off + 100 < length rows \<and> off + 100 \<le> 5000")
    case True
    then have o: "5001 - (off + 100) < 5001 - off" "(off + 100) mod 100 = 0" "off + 100 \<le> 5000"
      using less.prems(1) by (linarith, simp_all)
    have "collect_loop answer key (Suc k) (off + 100) ?m
        = Some (Inr (add_rows key (take (5000 - off) (drop (100 + off) rows)) ?m))"
      using less.hyps [OF o, of "Suc k" ?m] by (simp add: add.commute)
    moreover have "take (5100 - off) (drop off rows) = take 100 (drop off rows) @ take (5000 - off) (drop (100 + off) rows)"
      using True take_add [of 100 "5000 - off" "drop off rows"] by (simp add: add.commute)
    ultimately show ?thesis
      using True by (subst collect_loop.simps) (simp add: a page Let_def add_rows_append)
  next
    case False
    then have "off = 5000 \<or> length rows \<le> off + 100" using less.prems by presburger
    then have "take (5100 - off) (drop off rows) = take 100 (drop off rows)"
      using less.prems by auto
    with False show ?thesis by (subst collect_loop.simps) (auto simp: a page Let_def)
  qed
qed

lemma add_rows_other: "i \<notin> key ` set xs \<Longrightarrow> add_rows key xs m i = m i"
  by (induction xs arbitrary: m) (simp_all add: add_rows_def)

lemma add_rows_lookup: "distinct (map key xs) \<Longrightarrow> x \<in> set xs \<Longrightarrow> add_rows key xs m (key x) = Some x"
proof (induction xs arbitrary: m)
  case (Cons y xs)
  then show ?case
    using add_rows_other [of "key y" key xs "m(key y \<mapsto> y)"] by (auto simp: add_rows_def)
qed simp

text \<open>
  C32. A list is read whole: over an API that serves its rows by pages, what is collected has a record for exactly the
  ids of the first 5100 rows, each under its own id, so every one of them when there are no more.
\<close>
theorem list_is_read_whole:
  assumes "\<forall>k off. answer k off = Inr (serve rows (MAX_PAGE_SIZE, off))" and "distinct (map key rows)"
  shows "\<exists>m. collect answer key = Some (Inr m) \<and> dom m = key ` set (take 5100 rows)
    \<and> (\<forall>x\<in>set (take 5100 rows). m (key x) = Some x)"
proof -
  let ?xs = "take 5100 rows"
  have c: "collect answer key = Some (Inr (add_rows key ?xs Map.empty))"
    using collect_loop_rows [of answer rows 0 key 0 Map.empty] assms(1) by (simp add: collect_def)
  have d: "distinct (map key ?xs)" using assms(2) by (metis distinct_take take_map)
  have "dom (add_rows key ?xs Map.empty) = key ` set ?xs"
  proof (intro set_eqI iffI)
    fix i
    show "i \<in> key ` set ?xs" if "i \<in> dom (add_rows key ?xs Map.empty)"
      using that add_rows_other [of i key ?xs Map.empty] by (cases "i \<in> key ` set ?xs") auto
    show "i \<in> dom (add_rows key ?xs Map.empty)" if "i \<in> key ` set ?xs"
      using that add_rows_lookup [OF d] by auto
  qed
  then show ?thesis using c add_rows_lookup [OF d] by blast
qed

theorem list_is_read_whole_witness:
  "\<exists>m. collect (\<lambda>k off. Inr (serve [''a'', ''b''] (MAX_PAGE_SIZE, off))) (\<lambda>x. x) = Some (Inr m) \<and> dom m = {''a'', ''b''}"
  using list_is_read_whole [of "\<lambda>k off. Inr (serve [''a'', ''b''] (MAX_PAGE_SIZE, off))" "[''a'', ''b'']" "\<lambda>x. x"]
  by auto

text \<open>
  The stop is a bound on the offset, not on the requests: should the API answer with a limit of 0 and more to
  come, the loop the comment means to keep from spinning asks for the same page for ever.
\<close>
theorem zero_limit_spins:
  "collect (\<lambda>k off. Inr \<lparr>page_items = [], page_limit = 0, page_offset = off, has_more = True\<rparr>) key = None"
proof -
  let ?a = "\<lambda>k off. Inr \<lparr>page_items = [], page_limit = 0, page_offset = off, has_more = True\<rparr>"
  have loop: "\<not> (a = ?a \<and> off \<le> 5000)" if "collect_loop a key k off m = Some r" for a k off m r
  proof (rule collect_loop.raw_induct [where P = "\<lambda>a key k off m r. \<not> (a = ?a \<and> off \<le> 5000)", OF _ that])
    fix self a' k' off' m' r' and key' :: "'a \<Rightarrow> string"
    assume ih: "\<And>a key k off m r. self a key k off m = Some r \<Longrightarrow> \<not> (a = ?a \<and> off \<le> 5000)"
      and body: "(case a' k' off' of Inl e \<Rightarrow> Some (Inl e)
        | Inr p \<Rightarrow> let m'' = add_rows key' (page_items p) m' in
            if \<not> has_more p then Some (Inr m'')
            else if 5000 < off' + page_limit p then Some (Inr m'')
            else self a' key' (Suc k') (off' + page_limit p) m'') = Some r'"
    show "\<not> (a' = ?a \<and> off' \<le> 5000)"
    proof
      assume a: "a' = ?a \<and> off' \<le> 5000"
      then have "self ?a key' (Suc k') off' (add_rows key' [] m') = Some r'"
        using body by (simp add: Let_def)
      from ih [OF this] a show False by blast
    qed
  qed
  show ?thesis unfolding collect_def
  proof (rule ccontr)
    assume "collect_loop ?a key 0 0 Map.empty \<noteq> None"
    then obtain r where "collect_loop ?a key 0 0 Map.empty = Some r" by blast
    from loop [OF this] show False by simp
  qed
qed

section \<open>One request for everybody\<close>

text \<open>
  The teams, the leagues and the seasons of \<open>LookupStore\<close> each keep a table and the load that is under way;
  \<open>running\<close> counts the collections on the wire.
\<close>

record 'a lookup =
  by_id :: "string \<rightharpoonup> 'a"
  is_loading :: bool
  running :: nat

definition new_lookup :: "(string \<rightharpoonup> 'a) \<Rightarrow> 'a lookup" where
  "new_lookup seed = \<lparr>by_id = seed, is_loading = False, running = 0\<rparr>"

definition load_lookup :: "'a lookup \<Rightarrow> 'a lookup" where
  "load_lookup s =
     (if by_id s \<noteq> Map.empty then s
      else if is_loading s then s
      else s\<lparr>is_loading := True, running := running s + 1\<rparr>)"

definition lookup_settles :: "string + (string \<rightharpoonup> 'a) \<Rightarrow> 'a lookup \<Rightarrow> 'a lookup" where
  "lookup_settles res s =
     (case res of
        Inl e \<Rightarrow> s\<lparr>is_loading := False, running := running s - 1\<rparr>
      | Inr m \<Rightarrow> s\<lparr>by_id := m, is_loading := False, running := running s - 1\<rparr>)"

definition name_of :: "('a \<Rightarrow> string) \<Rightarrow> 'a lookup \<Rightarrow> string option \<Rightarrow> string \<Rightarrow> string" where
  "name_of nm s i fallback =
     (case i of
        None \<Rightarrow> fallback
      | Some k \<Rightarrow> if k = [] then fallback
                  else (case by_id s k of Some x \<Rightarrow> nm x | None \<Rightarrow> fallback))"

inductive looked_up :: "(string \<rightharpoonup> 'a) \<Rightarrow> 'a lookup \<Rightarrow> bool" for seed where
  look_new: "looked_up seed (new_lookup seed)"
| look_load: "looked_up seed s \<Longrightarrow> looked_up seed (load_lookup s)"
| look_settle: "looked_up seed s \<Longrightarrow> 0 < running s \<Longrightarrow> looked_up seed (lookup_settles res s)"

lemma looked_up_inv: "looked_up seed s \<Longrightarrow> running s = (if is_loading s then 1 else 0)"
  by (induction rule: looked_up.induct)
    (auto simp: new_lookup_def load_lookup_def lookup_settles_def split: sum.splits)

text \<open>
  Ten components asking at once make one request: never more than one collection is on the wire, none is started
  while one is or once names are known, and after a failure the next to ask starts one.
\<close>
theorem one_collection_at_a_time:
  assumes "looked_up seed s"
  shows "running s \<le> 1
    \<and> (running (load_lookup s) = running s + 1 \<longleftrightarrow> running s = 0 \<and> by_id s = Map.empty)
    \<and> (0 < running s \<and> by_id s = Map.empty \<longrightarrow> running (load_lookup (lookup_settles (Inl e) s)) = 1)"
  using looked_up_inv [OF assms] by (auto simp: load_lookup_def lookup_settles_def)

theorem one_collection_at_a_time_witness:
  "running (load_lookup (load_lookup (new_lookup Map.empty))) \<le> 1"
  using one_collection_at_a_time [OF look_load [OF look_load [OF look_new [of Map.empty]]]] by blast

section \<open>Names of players, a page at a time\<close>

record player_names =
  names_by_id :: "string \<rightharpoonup> string"
  flying :: "string set"
  batches :: "string list list"

definition new_names :: "(string \<rightharpoonup> string) \<Rightarrow> player_names" where
  "new_names seed = \<lparr>names_by_id = seed, flying = {}, batches = []\<rparr>"

definition player_name :: "player_names \<Rightarrow> string option \<Rightarrow> string \<Rightarrow> string" where
  "player_name s i fallback =
     (case i of
        None \<Rightarrow> fallback
      | Some k \<Rightarrow> if k = [] then fallback else (case names_by_id s k of Some n \<Rightarrow> n | None \<Rightarrow> fallback))"

text \<open>\<open>[...new Set(xs)]\<close>: each value once, at its first occurrence; and slices of at most \<open>n\<close>.\<close>

definition uniq :: "'a list \<Rightarrow> 'a list" where
  "uniq xs = rev (remdups (rev xs))"

fun chunks_loop :: "nat \<Rightarrow> nat \<Rightarrow> 'a list \<Rightarrow> 'a list list" where
  "chunks_loop 0 n xs = []"
| "chunks_loop (Suc fuel) n xs = (if xs = [] then [] else take n xs # chunks_loop fuel n (drop n xs))"

definition chunks :: "nat \<Rightarrow> 'a list \<Rightarrow> 'a list list" where
  "chunks n xs = chunks_loop (length xs) n xs"

definition wanted :: "string option list \<Rightarrow> player_names \<Rightarrow> string list" where
  "wanted ids s = uniq (filter (\<lambda>i. i \<noteq> [] \<and> names_by_id s i = None \<and> i \<notin> flying s) (List.map_filter (\<lambda>i. i) ids))"

definition resolve :: "string option list \<Rightarrow> player_names \<Rightarrow> player_names" where
  "resolve ids s =
     (let w = wanted ids s
      in if w = [] then s
         else s\<lparr>flying := flying s \<union> set w, batches := batches s @ chunks MAX_PAGE_SIZE w\<rparr>)"

text \<open>The answer to a batch: pairs of an id and a name, or a failure.\<close>

definition batch_done :: "nat \<Rightarrow> (string \<times> string) list option \<Rightarrow> player_names \<Rightarrow> player_names" where
  "batch_done k answer s =
     s\<lparr>names_by_id := (case answer of None \<Rightarrow> names_by_id s | Some ps \<Rightarrow> names_by_id s ++ map_of (rev ps)),
       flying := flying s - set (batches s ! k), batches := remove_at k (batches s)\<rparr>"

inductive resolving :: "(string \<rightharpoonup> string) \<Rightarrow> player_names \<Rightarrow> bool" for seed where
  res_new: "resolving seed (new_names seed)"
| res_ask: "resolving seed s \<Longrightarrow> resolving seed (resolve ids s)"
| res_done: "resolving seed s \<Longrightarrow> k < length (batches s) \<Longrightarrow> resolving seed (batch_done k answer s)"

lemma uniq_props [simp]: "distinct (uniq xs)" "set (uniq xs) = set xs"
  by (simp_all add: uniq_def)

lemma concat_chunks_loop: "0 < n \<Longrightarrow> length xs \<le> fuel \<Longrightarrow> concat (chunks_loop fuel n xs) = xs"
  by (induction fuel n xs rule: chunks_loop.induct) auto

lemma chunks_loop_size: "0 < n \<Longrightarrow> b \<in> set (chunks_loop fuel n xs) \<Longrightarrow> b \<noteq> [] \<and> length b \<le> n"
  by (induction fuel n xs rule: chunks_loop.induct) (auto split: if_splits)

definition asked_well :: "player_names \<Rightarrow> bool" where
  "asked_well s \<longleftrightarrow> flying s = set (concat (batches s)) \<and> distinct (concat (batches s))
     \<and> list_all (\<lambda>b. b \<noteq> [] \<and> length b \<le> MAX_PAGE_SIZE) (batches s) \<and> [] \<notin> flying s"

lemma resolve_asked_well: "asked_well s \<Longrightarrow> asked_well (resolve ids s)"
proof -
  assume s: "asked_well s"
  let ?w = "wanted ids s"
  have w: "distinct ?w" "set ?w \<inter> flying s = {}" "[] \<notin> set ?w" by (auto simp: wanted_def)
  have "concat (chunks MAX_PAGE_SIZE ?w) = ?w"
    "\<forall>b\<in>set (chunks MAX_PAGE_SIZE ?w). b \<noteq> [] \<and> length b \<le> MAX_PAGE_SIZE"
    using concat_chunks_loop [of MAX_PAGE_SIZE ?w "length ?w"] chunks_loop_size [of MAX_PAGE_SIZE]
    by (auto simp: chunks_def MAX_PAGE_SIZE_def)
  then show ?thesis
    using s w by (auto simp: asked_well_def resolve_def Let_def list_all_iff simp del: set_concat)
qed

lemma concat_remove_at:
  "k < length bs \<Longrightarrow> distinct (concat bs) \<Longrightarrow>
   set (concat (remove_at k bs)) = set (concat bs) - set (bs ! k) \<and> distinct (concat (remove_at k bs))"
proof -
  assume k: "k < length bs" and d: "distinct (concat bs)"
  have bs: "bs = take k bs @ bs ! k # drop (Suc k) bs" by (rule id_take_nth_drop [OF k])
  have c: "concat bs = concat (take k bs) @ bs ! k @ concat (drop (Suc k) bs)"
    by (subst bs) (simp only: concat_append concat.simps)
  have r: "concat (remove_at k bs) = concat (take k bs) @ concat (drop (Suc k) bs)"
    by (simp add: remove_at_def)
  show ?thesis using d unfolding c r by (auto simp del: set_concat)
qed

lemma done_asked_well: "asked_well s \<Longrightarrow> k < length (batches s) \<Longrightarrow> asked_well (batch_done k answer s)"
  using concat_remove_at [of k "batches s"]
  by (auto simp: asked_well_def batch_done_def list_all_iff remove_at_def simp del: set_concat
      dest: in_set_takeD in_set_dropD)

text \<open>
  C20. Nobody is asked for twice: whatever pages resolve their rows at once, an id is in at most one request on the
  wire, no request is empty or longer than the API's page, a call asks for exactly the ids that are neither
  known nor on their way, and what has come back unanswered can be asked for again.
\<close>
theorem no_name_is_asked_twice:
  assumes "resolving seed s"
  shows "distinct (concat (batches s)) \<and> (\<forall>b\<in>set (batches s). b \<noteq> [] \<and> length b \<le> 100)
    \<and> flying s = set (concat (batches s))
    \<and> set (concat (batches (resolve ids s))) - set (concat (batches s))
        = {i. Some i \<in> set ids \<and> i \<noteq> [] \<and> names_by_id s i = None \<and> i \<notin> flying s}"
proof -
  have inv: "asked_well s"
    using assms
    by (induction rule: resolving.induct)
      (auto simp: resolve_asked_well done_asked_well, simp add: asked_well_def new_names_def)
  have "asked_well (resolve ids s)" by (rule resolve_asked_well [OF inv])
  then have "set (concat (batches (resolve ids s))) = flying (resolve ids s)" by (simp add: asked_well_def)
  also have "\<dots> = flying s \<union> set (wanted ids s)" by (auto simp: resolve_def Let_def)
  finally have "set (concat (batches (resolve ids s))) = set (concat (batches s)) \<union> set (wanted ids s)"
    using inv by (simp add: asked_well_def)
  moreover have "set (wanted ids s) = {i. Some i \<in> set ids \<and> i \<noteq> [] \<and> names_by_id s i = None \<and> i \<notin> flying s}"
    by (auto simp: wanted_def List.map_filter_def image_iff)
  moreover have "set (concat (batches s)) = flying s" using inv by (simp add: asked_well_def)
  ultimately show ?thesis using inv by (auto simp: asked_well_def list_all_iff MAX_PAGE_SIZE_def simp del: set_concat)
qed

theorem no_name_is_asked_twice_witness:
  "distinct (concat (batches (resolve [Some ''a'', Some ''b''] (resolve [Some ''a'', None] (new_names Map.empty)))))"
  using no_name_is_asked_twice [OF res_ask [OF res_ask [OF res_new [of Map.empty]]]] by blast

lemma map_of_distinct_rev: "distinct (map fst kvs) \<Longrightarrow> map_of (rev kvs) = map_of kvs"
  by (rule map_of_eqI) (auto simp: rev_map [symmetric] map_of_is_SomeI image_iff)

section \<open>From the server's render into the browser\<close>

text \<open>
  \<open>TransferState\<close> is a table from keys; the server writes it while it renders, the browser reads each key once.
  A map crosses as its entries.
\<close>

definition publish_map :: "bool \<Rightarrow> string \<Rightarrow> (string \<times> 'v) list \<Rightarrow> (string \<rightharpoonup> 'd) \<Rightarrow> ((string \<times> 'v) list \<Rightarrow> 'd) \<Rightarrow> (string \<rightharpoonup> 'd)" where
  "publish_map browser key kvs st pack = (if browser then st else st(key \<mapsto> pack kvs))"

definition initial_map :: "bool \<Rightarrow> string \<Rightarrow> (string \<rightharpoonup> 'd) \<Rightarrow> ('d \<Rightarrow> (string \<times> 'v) list) \<Rightarrow> (string \<rightharpoonup> 'v) \<times> (string \<rightharpoonup> 'd)" where
  "initial_map browser key st unpack =
     (if browser \<and> st key \<noteq> None then (map_of (rev (unpack (the (st key)))), st(key := None))
      else (Map.empty, st))"

text \<open>\<open>ssrResource\<close>: the value the server carries over is the first its loader gave.\<close>

record 'd ssr =
  carried :: "string \<rightharpoonup> 'd"
  published :: bool

definition ssr_loaded :: "bool \<Rightarrow> string \<Rightarrow> 'd \<Rightarrow> 'd ssr \<Rightarrow> 'd ssr" where
  "ssr_loaded browser key v s =
     (if \<not> browser \<and> \<not> published s then s\<lparr>published := True, carried := (carried s)(key \<mapsto> v)\<rparr> else s)"

definition ssr_seed :: "bool \<Rightarrow> string \<Rightarrow> (string \<rightharpoonup> 'd) \<Rightarrow> 'd option \<times> (string \<rightharpoonup> 'd)" where
  "ssr_seed browser key st = (if browser \<and> st key \<noteq> None then (st key, st(key := None)) else (None, st))"

lemma ssr_later: "published s \<Longrightarrow> foldl (\<lambda>s v. ssr_loaded False key v s) s vs = s"
  by (induction vs) (simp_all add: ssr_loaded_def)

text \<open>
  The browser starts from what the server rendered, once: a map the server published is the map the browser
  begins with, a resource begins with the first value the server's loader gave however often it ran, and a
  second visit begins empty.
\<close>
theorem browser_starts_from_the_server:
  assumes "distinct (map fst kvs)" "\<And>x. unpack (pack x) = x"
  shows "fst (initial_map True key (publish_map False key kvs st pack) unpack) = map_of kvs
    \<and> fst (initial_map True key (snd (initial_map True key (publish_map False key kvs st pack) unpack)) unpack) = Map.empty
    \<and> fst (ssr_seed True key (carried (foldl (\<lambda>s v. ssr_loaded False key v s) \<lparr>carried = st, published = False\<rparr> (v # vs))))
        = Some v
    \<and> fst (ssr_seed True key (snd (ssr_seed True key st))) = None"
proof -
  have "map_of (rev kvs) = map_of kvs" using assms(1) by (simp add: map_of_distinct_rev)
  moreover have "foldl (\<lambda>s v. ssr_loaded False key v s) \<lparr>carried = st, published = False\<rparr> (v # vs)
      = \<lparr>carried = st(key \<mapsto> v), published = True\<rparr>"
    using ssr_later [of "\<lparr>carried = st(key \<mapsto> v), published = True\<rparr>" key vs]
    by (simp add: ssr_loaded_def [of False key v "\<lparr>carried = st, published = False\<rparr>"])
  ultimately show ?thesis by (simp add: initial_map_def publish_map_def ssr_seed_def assms(2))
qed

theorem browser_starts_from_the_server_witness:
  "fst (initial_map True ''lookup.teams'' (publish_map False ''lookup.teams'' [(''t'', ''Home'')] Map.empty (\<lambda>x. x)) (\<lambda>x. x))
    = [''t'' \<mapsto> ''Home'']"
  using browser_starts_from_the_server [of "[(''t'', ''Home'')]" "\<lambda>x. x" "\<lambda>x. x" "''lookup.teams''" Map.empty "[]" "[]"]
  by simp

end
