(* ===== verification/Shared_Forms.thy ===== *)
theory Shared_Forms
  imports Auth_Session
begin

text \<open>
  What the forms of the site share: reading and prefilling money (\<open>shared/util/money-input.ts\<close>), showing it
  (\<open>shared/pipes/money-pipe.ts\<close>), dates (\<open>shared/util/dates.ts\<close>) and what a rejected save says
  (\<open>shared/forms/submit.ts\<close>).  An amount is an integer count of minor units; \<open>None\<close> is \<open>null\<close>, undisclosed.
\<close>

section \<open>Reading money\<close>

datatype money_error = NotAnAmount | NegativeAmount | TooManyDecimals | TooLarge

definition MAX_SAFE :: nat where "MAX_SAFE = 2 ^ 53 - 1"

text \<open>\<open>trim().replace(/[\s,]/g, '')\<close> and the match of \<open>/^(-?)(\d+)(?:\.(\d+))?$/\<close>.\<close>

definition money_text :: "string \<Rightarrow> string" where
  "money_text s = filter (\<lambda>c. \<not> is_ws c \<and> c \<noteq> CHR '','') (trim s)"

definition digits_match :: "bool \<Rightarrow> string \<Rightarrow> (bool \<times> string \<times> string) option" where
  "digits_match neg body =
     (if takeWhile is_digit body = [] then None
      else case dropWhile is_digit body of
             [] \<Rightarrow> Some (neg, takeWhile is_digit body, [])
           | c # fraction \<Rightarrow>
               if c = CHR ''.'' \<and> fraction \<noteq> [] \<and> list_all is_digit fraction
               then Some (neg, takeWhile is_digit body, fraction) else None)"

definition amount_match :: "string \<Rightarrow> (bool \<times> string \<times> string) option" where
  "amount_match raw =
     (if raw \<noteq> [] \<and> hd raw = CHR ''-'' then digits_match True (tl raw) else digits_match False raw)"

definition padEnd :: "nat \<Rightarrow> char \<Rightarrow> string \<Rightarrow> string" where
  "padEnd n c s = s @ replicate (n - length s) c"

definition padStart :: "nat \<Rightarrow> char \<Rightarrow> string \<Rightarrow> string" where
  "padStart n c s = replicate (n - length s) c @ s"

text \<open>\<open>Number(...)\<close> of digits is exact up to \<open>MAX_SAFE\<close> and beyond it never comes back below.\<close>

definition parseMoney :: "string option \<Rightarrow> money_error + int option" where
  "parseMoney txt =
     (let raw = (case txt of None \<Rightarrow> [] | Some s \<Rightarrow> money_text s) in
      if raw = [] then Inr None
      else case amount_match raw of
             None \<Rightarrow> Inl NotAnAmount
           | Some (neg, whole, fraction) \<Rightarrow>
               if neg then Inl NegativeAmount
               else if length fraction > 2 then Inl TooManyDecimals
               else (let minor = digits_to_nat (whole @ padEnd 2 (CHR ''0'') fraction) in
                     if minor > MAX_SAFE then Inl TooLarge else Inr (Some (int minor))))"

definition formatMoneyInput :: "int option \<Rightarrow> string" where
  "formatMoneyInput amount =
     (case amount of
        None \<Rightarrow> []
      | Some minor \<Rightarrow>
          (let digits = padStart 3 (CHR ''0'') (nat_to_string (nat \<bar>minor\<bar>));
               k = length digits - 2
           in (if minor < 0 then ''-'' else []) @ take k digits @ ''.'' @ drop k digits))"

lemma digits_append: "digits_to_nat (a @ b) = digits_to_nat a * 10 ^ length b + digits_to_nat b"
proof (induction b rule: rev_induct)
  case (snoc c b)
  then show ?case
    using digits_to_nat_snoc [of "a @ b" c] by (simp add: algebra_simps)
qed (simp add: digits_to_nat_def)

lemma digits_zeros: "digits_to_nat (replicate n (CHR ''0'')) = 0"
proof (induction n)
  case (Suc n)
  have "digits_to_nat (replicate n (CHR ''0'') @ [CHR ''0'']) = 0"
    unfolding digits_to_nat_snoc by (simp add: Suc digit_val_def)
  then show ?case by (simp only: replicate_append_same [symmetric] replicate_Suc)
qed (simp add: digits_to_nat_def)

lemma digits_padStart: "digits_to_nat (padStart n (CHR ''0'') s) = digits_to_nat s"
  by (simp add: padStart_def digits_append digits_zeros)

lemma zero_is_digit: "is_digit (CHR ''0'')" by (simp add: is_digit_def)

lemma digit_not_sep: "is_digit c \<Longrightarrow> \<not> is_ws c \<and> c \<noteq> CHR '','' \<and> c \<noteq> CHR ''.'' \<and> c \<noteq> CHR ''-''"
  using is_digit_not_ws by (auto simp: is_digit_def)

lemma amount_match_plain:
  assumes "whole \<noteq> []" "list_all is_digit whole" "list_all is_digit fraction" "fraction \<noteq> []"
  shows "amount_match (whole @ ''.'' @ fraction) = Some (False, whole, fraction)"
proof -
  have "hd whole \<noteq> CHR ''-''" using assms(1,2) digit_not_sep by (cases whole) auto
  moreover have "\<not> is_digit (CHR ''.'')" by (simp add: is_digit_def)
  moreover have "\<forall>c\<in>set whole. is_digit c" using assms(2) by (simp add: list_all_iff)
  ultimately show ?thesis
    using assms by (simp add: amount_match_def digits_match_def takeWhile_append2 dropWhile_append2)
qed

lemma money_text_plain:
  assumes "list_all (\<lambda>c. \<not> is_ws c \<and> c \<noteq> CHR '','') s"
  shows "money_text s = s"
proof -
  have "list_all (\<lambda>c. \<not> is_ws c) s" using assms by (simp add: list_all_iff)
  then show ?thesis using assms by (simp add: money_text_def filter_id_conv list_all_iff)
qed

lemma format_parts:
  obtains whole fraction where "formatMoneyInput (Some (int n)) = whole @ ''.'' @ fraction"
    "whole \<noteq> []" "length fraction = 2" "list_all is_digit whole" "list_all is_digit fraction"
    "digits_to_nat (whole @ fraction) = n"
proof -
  define ds where "ds = padStart 3 (CHR ''0'') (nat_to_string n)"
  define k where "k = length ds - 2"
  have d: "list_all is_digit ds" using nat_to_string_digits [of n] zero_is_digit
    by (auto simp: ds_def padStart_def list_all_iff)
  have l: "3 \<le> length ds" by (simp add: ds_def padStart_def)
  show thesis
  proof (rule that)
    show "formatMoneyInput (Some (int n)) = take k ds @ ''.'' @ drop k ds"
      by (simp add: formatMoneyInput_def Let_def ds_def k_def)
    show "take k ds \<noteq> []" "length (drop k ds) = 2" using l by (auto simp: k_def)
    show "list_all is_digit (take k ds)" "list_all is_digit (drop k ds)"
      using d by (auto simp: list_all_iff dest: in_set_takeD in_set_dropD)
    show "digits_to_nat (take k ds @ drop k ds) = n" by (simp add: ds_def digits_padStart)
  qed
qed

lemma money_back: "n \<le> MAX_SAFE \<Longrightarrow> parseMoney (Some (formatMoneyInput (Some (int n)))) = Inr (Some (int n))"
proof -
  assume n: "n \<le> MAX_SAFE"
  obtain w f where f: "formatMoneyInput (Some (int n)) = w @ ''.'' @ f" and parts: "w \<noteq> []" "length f = 2"
    "list_all is_digit w" "list_all is_digit f" and val: "digits_to_nat (w @ f) = n"
    by (rule format_parts)
  have "list_all (\<lambda>c. \<not> is_ws c \<and> c \<noteq> CHR '','') (w @ ''.'' @ f)"
    using parts(3,4) digit_not_sep by (auto simp: list_all_iff is_ws_def)
  from money_text_plain [OF this] have t: "money_text (w @ CHR ''.'' # f) = w @ CHR ''.'' # f" by simp
  have "padEnd 2 (CHR ''0'') f = f" "f \<noteq> []" using parts(2) by (auto simp: padEnd_def)
  then show ?thesis
    using amount_match_plain [OF parts(1,3,4)] parts(2) n
    by (simp add: parseMoney_def f t val Let_def)
qed



lemma amount_match_parts:
  assumes "amount_match raw = Some (neg, w, f)" "\<not> neg" "raw \<noteq> []"
  shows "w = takeWhile is_digit raw" "w \<noteq> []" "list_all is_digit f"
    "dropWhile is_digit raw = (if f = [] then [] else ''.'' @ f)"
proof -
  have m: "digits_match False raw = Some (False, w, f)"
    using assms by (auto simp: amount_match_def digits_match_def split: if_splits list.splits)
  then have "w = takeWhile is_digit raw \<and> w \<noteq> [] \<and> list_all is_digit f
      \<and> dropWhile is_digit raw = (if f = [] then [] else ''.'' @ f)"
    unfolding digits_match_def
    by (split if_split_asm; simp only: option.distinct; split list.split_asm; auto split: if_splits)
  then show "w = takeWhile is_digit raw" "w \<noteq> []" "list_all is_digit f"
    "dropWhile is_digit raw = (if f = [] then [] else ''.'' @ f)"
    by blast+
qed

text \<open>
  What is read is what was typed: an accepted amount has digits before the point and at most two behind it,
  and is their hundredfold and the cents, exactly and below the largest safe integer; separators do not count.
\<close>
theorem accepted_amount_is_exact:
  assumes "parseMoney (Some s) = Inr (Some m)"
  shows "\<exists>whole fraction. money_text s = whole @ (if fraction = [] then [] else ''.'' @ fraction)
    \<and> whole \<noteq> [] \<and> length fraction \<le> 2 \<and> list_all is_digit (whole @ fraction) \<and> m \<le> int MAX_SAFE
    \<and> m = int (digits_to_nat whole * 100 + digits_to_nat fraction * (if length fraction = 1 then 10 else 1))"
proof -
  let ?raw = "money_text s"
  have raw: "?raw \<noteq> []" using assms by (auto simp: parseMoney_def)
  obtain neg w f where am: "amount_match ?raw = Some (neg, w, f)"
    using assms raw by (auto simp: parseMoney_def split: option.splits)
  with assms raw have ok: "\<not> neg" "length f \<le> 2" "digits_to_nat (w @ padEnd 2 (CHR ''0'') f) \<le> MAX_SAFE"
    "m = int (digits_to_nat (w @ padEnd 2 (CHR ''0'') f))"
    by (auto simp: parseMoney_def Let_def split: if_splits)
  note shape = amount_match_parts [OF am ok(1) raw]
  have "?raw = w @ (if f = [] then [] else ''.'' @ f)"
    using takeWhile_dropWhile_id [of is_digit ?raw] shape(1,4) by simp
  moreover have "list_all is_digit w" unfolding shape(1) list_all_iff by (blast dest: set_takeWhileD)
  moreover have "digits_to_nat (w @ padEnd 2 (CHR ''0'') f)
      = digits_to_nat w * 100 + digits_to_nat f * (if length f = 1 then 10 else 1)"
  proof -
    consider "f = []" | c where "f = [c]" | c d where "f = [c, d]"
      using ok(2) by (cases f; cases "tl f"; cases "tl (tl f)") auto
    then show ?thesis
    proof cases
      case 1
      then show ?thesis by (simp add: padEnd_def digits_append digits_to_nat_def digit_val_def numeral_2_eq_2)
    next
      case (2 c)
      then show ?thesis by (simp add: padEnd_def digits_append) (simp add: digits_to_nat_def digit_val_def)
    next
      case (3 c d)
      then show ?thesis by (simp add: padEnd_def digits_append)
    qed
  qed
  ultimately show ?thesis using ok shape by (intro exI [of _ w] exI [of _ f]) (auto simp: list_all_append)
qed

theorem accepted_amount_is_exact_witness:
  "\<exists>m. parseMoney (Some ''2,500.5'') = Inr (Some m) \<and> m = 250050 \<and> m \<le> int MAX_SAFE"
proof -
  have p: "parseMoney (Some ''2,500.5'') = Inr (Some 250050)"
    by (simp add: parseMoney_def money_text_def trim_def is_ws_def amount_match_def digits_match_def is_digit_def padEnd_def
        digits_to_nat_def digit_val_def MAX_SAFE_def Let_def)
  from accepted_amount_is_exact [OF this] p show ?thesis by blast
qed

section \<open>Showing money\<close>

text \<open>
  The amount a label shows, with how many decimals and which suffix; writing it out with its currency is
  \<open>Intl.NumberFormat\<close>'s.
\<close>

record shown_amount =
  shown_value :: real
  shown_decimals :: nat
  shown_suffix :: string

definition abbreviate :: "real \<Rightarrow> real \<Rightarrow> string \<Rightarrow> shown_amount" where
  "abbreviate major divisor sfx =
     (let scaled = major / divisor
      in \<lparr>shown_value = scaled, shown_decimals = (if \<bar>scaled\<bar> < 100 then 1 else 0), shown_suffix = sfx\<rparr>)"

definition money_parts :: "bool \<Rightarrow> int \<Rightarrow> shown_amount" where
  "money_parts short minor =
     (let major = real_of_int minor / 100 in
      if short \<and> \<bar>major\<bar> \<ge> 1000000000 then abbreviate major 1000000000 ''bn''
      else if short \<and> \<bar>major\<bar> \<ge> 1000000 then abbreviate major 1000000 ''m''
      else if short \<and> \<bar>major\<bar> \<ge> 1000 then abbreviate major 1000 ''k''
      else \<lparr>shown_value = major, shown_decimals = 2, shown_suffix = []\<rparr>)"

definition money_label :: "(string \<Rightarrow> nat \<Rightarrow> real \<Rightarrow> string) \<Rightarrow> string \<Rightarrow> bool \<Rightarrow> string \<Rightarrow> int option \<Rightarrow> string" where
  "money_label intl currency short emptyLabel amount =
     (case amount of
        None \<Rightarrow> emptyLabel
      | Some minor \<Rightarrow>
          (let p = money_parts short minor
           in intl currency (shown_decimals p) (shown_value p) @ shown_suffix p))"

definition unit_of :: "string \<Rightarrow> real" where
  "unit_of sfx = (if sfx = ''bn'' then 1000000000 else if sfx = ''m'' then 1000000
     else if sfx = ''k'' then 1000 else 1)"

text \<open>
  A fee is never shown in the wrong unit: the number shown times its unit is the amount, an abbreviated number
  is at least one and below a thousand of its unit unless there is no larger one, and without abbreviation the
  cents are shown.
\<close>
theorem shown_in_the_right_unit:
  "shown_value (money_parts short minor) * unit_of (shown_suffix (money_parts short minor)) = real_of_int minor / 100
   \<and> (shown_suffix (money_parts short minor) \<noteq> [] \<longrightarrow> short \<and> 1 \<le> \<bar>shown_value (money_parts short minor)\<bar>
        \<and> (shown_suffix (money_parts short minor) \<noteq> ''bn'' \<longrightarrow> \<bar>shown_value (money_parts short minor)\<bar> < 1000))
   \<and> (\<not> short \<longrightarrow> shown_decimals (money_parts short minor) = 2)"
  by (simp add: money_parts_def abbreviate_def unit_of_def Let_def abs_divide)

theorem shown_in_the_right_unit_witness:
  "shown_suffix (money_parts True 250000000) = ''m'' \<and> 1 \<le> \<bar>shown_value (money_parts True 250000000)\<bar>"
proof -
  have "shown_suffix (money_parts True 250000000) = ''m''"
    by (simp add: money_parts_def abbreviate_def Let_def)
  with shown_in_the_right_unit [of True 250000000] show ?thesis by simp
qed

section \<open>Dates\<close>

definition toApiDate :: "string option \<Rightarrow> string option" where
  "toApiDate inp =
     (let v = (case inp of None \<Rightarrow> [] | Some s \<Rightarrow> trim s) in
      if v = [] then None else Some (v @ ''T00:00:00Z''))"

definition toDateInput :: "string option \<Rightarrow> string" where
  "toDateInput stamp = (case stamp of None \<Rightarrow> [] | Some s \<Rightarrow> take 10 s)"

text \<open>\<open>todayInput\<close>: the local year, the month as \<open>getMonth()\<close> counts it, and the day.\<close>

definition todayInput :: "nat \<Rightarrow> nat \<Rightarrow> nat \<Rightarrow> string" where
  "todayInput year month0 day =
     nat_to_string year @ ''-'' @ padStart 2 (CHR ''0'') (nat_to_string (month0 + 1)) @ ''-''
       @ padStart 2 (CHR ''0'') (nat_to_string day)"

lemma nat_to_string_length: "n < 10 ^ Suc k \<Longrightarrow> length (nat_to_string n) \<le> Suc k"
proof (induction k arbitrary: n)
  case 0
  then show ?case by (simp add: nat_to_string_small)
next
  case (Suc k)
  show ?case
  proof (cases "n < 10")
    case False
    have "n div 10 < 10 ^ Suc k" using Suc.prems by (simp add: less_mult_imp_div_less)
    from Suc.IH [OF this] False show ?thesis by (simp add: nat_to_string.simps [of n])
  qed (simp add: nat_to_string_small)
qed

lemma nat_to_string_long: "10 ^ k \<le> n \<Longrightarrow> k < length (nat_to_string n)"
proof (induction k arbitrary: n)
  case (Suc k)
  then have "\<not> n < 10" using le_trans [of 10 "10 ^ Suc k" n] by simp
  moreover have "10 ^ k \<le> n div 10" using Suc.prems by (simp add: less_eq_div_iff_mult_less_eq)
  ultimately show ?case using Suc.IH [of "n div 10"] by (simp add: nat_to_string.simps [of n])
qed simp

lemma today_shape:
  assumes "1000 \<le> year" "year < 10000" "month0 < 12" "day \<le> 31"
  shows "length (todayInput year month0 day) = 10"
    "list_all (\<lambda>c. is_digit c \<or> c = CHR ''-'') (todayInput year month0 day)"
proof -
  have "length (nat_to_string year) = 4"
    using nat_to_string_length [of year 3] nat_to_string_long [of 3 year] assms(1,2) by simp
  moreover have "length (padStart 2 (CHR ''0'') (nat_to_string n)) = 2" if "n < 100" for n
    using nat_to_string_length [of n 1] that by (simp add: padStart_def)
  ultimately show "length (todayInput year month0 day) = 10" using assms(3,4) by (simp add: todayInput_def)
  show "list_all (\<lambda>c. is_digit c \<or> c = CHR ''-'') (todayInput year month0 day)"
    using nat_to_string_digits zero_is_digit by (auto simp: todayInput_def padStart_def list_all_iff)
qed

text \<open>
  A date survives the form: the calendar day an input holds, sent to the API and prefilled again, is the same day,
  and today is such a day.
\<close>
theorem date_survives:
  assumes "length d = 10" "\<not> is_ws (hd d)" "\<not> is_ws (last d)"
    and "1000 \<le> year" "year < 10000" "month0 < 12" "day \<le> 31"
  shows "toApiDate (Some d) = Some (d @ ''T00:00:00Z'') \<and> toDateInput (toApiDate (Some d)) = d
    \<and> toDateInput (toApiDate (Some (todayInput year month0 day))) = todayInput year month0 day"
proof -
  have one: "toApiDate (Some e) = Some (e @ ''T00:00:00Z'') \<and> toDateInput (toApiDate (Some e)) = e"
    if "length e = 10" "\<not> is_ws (hd e)" "\<not> is_ws (last e)" for e
  proof -
    have "e \<noteq> []" using that(1) by auto
    from trim_ends [OF this that(2,3)] that(1) \<open>e \<noteq> []\<close> show ?thesis
      by (simp add: toApiDate_def toDateInput_def Let_def)
  qed
  let ?t = "todayInput year month0 day"
  have t: "length ?t = 10" "list_all (\<lambda>c. is_digit c \<or> c = CHR ''-'') ?t" by (rule today_shape [OF assms(4-7)])+
  then have "?t \<noteq> []" by auto
  then have "hd ?t \<in> set ?t" "last ?t \<in> set ?t" by simp_all
  moreover have "\<not> is_ws c" if "c \<in> set ?t" for c
    using t(2) that is_digit_not_ws by (auto simp: list_all_iff is_ws_def)
  ultimately show ?thesis using one [OF assms(1-3)] one [OF t(1)] by blast
qed

theorem date_survives_witness:
  "toDateInput (toApiDate (Some ''1998-03-05'')) = ''1998-03-05''
    \<and> toDateInput (toApiDate (Some (todayInput 2026 7 16))) = todayInput 2026 7 16"
  using date_survives [of "''1998-03-05''" 2026 7 16] by (simp add: is_ws_def toDateInput_def)

section \<open>What a rejected save says\<close>

datatype caught = CaughtApi api_error | CaughtError string | CaughtOther

definition messageFor :: "caught \<Rightarrow> string \<Rightarrow> string" where
  "messageFor error fallback =
     (case error of
        CaughtError m \<Rightarrow> m
      | CaughtOther \<Rightarrow> fallback
      | CaughtApi e \<Rightarrow>
          (case err_code e of
             Forbidden \<Rightarrow> ''You do not have permission to change this. If that is unexpected, sign in again.''
           | Unauthorized \<Rightarrow> ''Your session has expired. Sign in and try again.''
           | _ \<Rightarrow> if err_message e = [] then fallback else err_message e))"

definition requestIdFor :: "caught \<Rightarrow> string option" where
  "requestIdFor error =
     (case error of
        CaughtApi e \<Rightarrow> if err_code e = Internal then err_request e else None
      | _ \<Rightarrow> None)"

text \<open>
  A failed save always says something: for every answer of the API the form shows a message, the API's own
  unless it is blank or about rights, and a reference is shown only for an internal error.
\<close>
theorem failed_save_explains:
  assumes "fallback \<noteq> []"
  shows "messageFor (CaughtApi (fromHttp st body)) fallback \<noteq> []
    \<and> (requestIdFor (CaughtApi (fromHttp st body)) \<noteq> None \<longrightarrow> err_code (fromHttp st body) = Internal)
    \<and> (err_code (fromHttp st body) \<notin> {Forbidden, Unauthorized} \<and> err_message (fromHttp st body) \<noteq> [] \<longrightarrow>
        messageFor (CaughtApi (fromHttp st body)) fallback = err_message (fromHttp st body))"
  using assms by (cases "err_code (fromHttp st body)") (simp_all add: messageFor_def requestIdFor_def)

theorem failed_save_explains_witness: "messageFor (CaughtApi (fromHttp 409 None)) ''Could not save.'' \<noteq> []"
  using failed_save_explains [of "''Could not save.''" 409 None] by simp

section \<open>The theme\<close>

text \<open>\<open>core/theme/theme.ts\<close>: the choice, the attribute on the page's root and what the browser stored, if it can.\<close>

datatype theme_choice = SystemTheme | LightTheme | DarkTheme

record theme_store =
  theme_choice :: theme_choice
  root_theme :: "string option"
  stored_theme :: "string option"

fun theme_name :: "theme_choice \<Rightarrow> string" where
  "theme_name SystemTheme = ''system''" | "theme_name LightTheme = ''light''" | "theme_name DarkTheme = ''dark''"

definition read_theme :: "bool \<Rightarrow> bool \<Rightarrow> string option \<Rightarrow> theme_choice" where
  "read_theme browser storage stored =
     (if \<not> browser \<or> \<not> storage then SystemTheme
      else if stored = Some ''light'' then LightTheme
      else if stored = Some ''dark'' then DarkTheme else SystemTheme)"

definition set_theme :: "bool \<Rightarrow> bool \<Rightarrow> theme_choice \<Rightarrow> theme_store \<Rightarrow> theme_store" where
  "set_theme browser storage c s =
     (if \<not> browser then s\<lparr>theme_choice := c\<rparr>
      else s\<lparr>theme_choice := c, root_theme := (if c = SystemTheme then None else Some (theme_name c)),
             stored_theme := (if storage then Some (theme_name c) else stored_theme s)\<rparr>)"

fun next_theme :: "theme_choice \<Rightarrow> theme_choice" where
  "next_theme SystemTheme = LightTheme" | "next_theme LightTheme = DarkTheme" | "next_theme DarkTheme = SystemTheme"

definition cycle_theme :: "bool \<Rightarrow> bool \<Rightarrow> theme_store \<Rightarrow> theme_store" where
  "cycle_theme browser storage s = set_theme browser storage (next_theme (theme_choice s)) s"

fun next_label :: "theme_choice \<Rightarrow> string" where
  "next_label SystemTheme = ''Switch to light''" | "next_label LightTheme = ''Switch to dark''"
| "next_label DarkTheme = ''Use system theme''"

text \<open>
  A theme lasts: what is chosen is on the page at once and is what the next visit reads, following the system
  included, which leaves no attribute behind; and three clicks of the button come round to the same choice.
\<close>
theorem theme_lasts:
  "read_theme True True (stored_theme (set_theme True True c s)) = c
   \<and> root_theme (set_theme True True c s) = (if c = SystemTheme then None else Some (theme_name c))
   \<and> theme_choice (cycle_theme b k (cycle_theme b k (cycle_theme b k s))) = theme_choice s"
  by (cases c; cases "theme_choice s") (simp_all add: read_theme_def set_theme_def cycle_theme_def)

end
