(* ===== verification/Football_Forms.thy ===== *)
theory Football_Forms
  imports Shared_Forms
begin

text \<open>
  The forms that write football records (\<open>features/players/player-form.ts\<close>, \<open>value-form.ts\<close>, \<open>player-notes.ts\<close>,
  \<open>features/transfers/transfer-form.ts\<close>) and the rules of the service they mirror (\<open>validatePlayer\<close>,
  \<open>validateTransfer\<close> and the update of a player, in Go under \<open>src/apps/football-svc\<close>).  A date input holds
  nothing or ten characters, \<open>YYYY-MM-DD\<close>; the days of today and of the latest transfer are arguments.
\<close>

section \<open>Comparing dates as text\<close>

text \<open>\<open><=\<close> on strings, by code units.\<close>

fun str_le :: "string \<Rightarrow> string \<Rightarrow> bool" where
  "str_le [] t = True"
| "str_le (c # s) [] = False"
| "str_le (c # s) (d # t) =
     ((of_char c :: nat) < of_char d \<or> c = d \<and> str_le s t)"

lemma str_le_refl [simp]: "str_le s s"
  by (induction s) simp_all

lemma of_char_inj: "(of_char c :: nat) = of_char d \<longleftrightarrow> c = d"
  by (simp add: of_char_eq_iff)

lemma str_le_total: "str_le s t \<or> str_le t s"
proof (induction s t rule: str_le.induct)
  case (3 c s d t)
  have "(of_char c :: nat) < of_char d \<or> (of_char d :: nat) < of_char c \<or> c = d"
    using of_char_inj [of c d] by linarith
  with 3 show ?case by auto
qed simp_all

lemma str_le_trans: "str_le s t \<Longrightarrow> str_le t u \<Longrightarrow> str_le s u"
proof (induction s arbitrary: t u)
  case (Cons c s)
  obtain d t' where t: "t = d # t'" using Cons.prems(1) by (cases t) auto
  obtain e u' where u: "u = e # u'" using Cons.prems(2) t by (cases u) auto
  show ?case using Cons unfolding t u by auto
qed simp

lemma str_le_same: "length a = length b \<Longrightarrow> str_le (a @ s) (b @ t) \<longleftrightarrow> (if a = b then str_le s t else str_le a b)"
  by (induction a b rule: list_induct2) auto

lemma digit_val_less: "is_digit c \<Longrightarrow> digit_val c < 10"
  unfolding is_digit_def digit_val_def by linarith

lemma digits_bound: "list_all is_digit s \<Longrightarrow> digits_to_nat s < 10 ^ length s"
proof (induction s rule: rev_induct)
  case (snoc c s)
  then have "digit_val c < 10" by (intro digit_val_less) simp
  with snoc show ?case by simp
qed (simp add: digits_to_nat_def)

lemma str_le_digits:
  "length a = length b \<Longrightarrow> list_all is_digit a \<Longrightarrow> list_all is_digit b \<Longrightarrow>
   str_le a b \<longleftrightarrow> digits_to_nat a \<le> digits_to_nat b"
proof (induction a b rule: list_induct2)
  case (Cons c a d b)
  have h: "digits_to_nat (x # y) = digit_val x * 10 ^ length y + digits_to_nat y" for x y
    using digits_append [of "[x]" y] by (simp add: digits_to_nat_def)
  have bounds: "digits_to_nat a < 10 ^ length b" "digits_to_nat b < 10 ^ length b"
    using digits_bound [of a] digits_bound [of b] Cons.prems Cons.hyps by simp_all
  have code: "(of_char c :: nat) = digit_val c + 48" "(of_char d :: nat) = digit_val d + 48"
    using Cons.prems by (auto simp: is_digit_def digit_val_def)
  have cd: "c = d \<longleftrightarrow> digit_val c = digit_val d" using of_char_inj [of c d] code by simp
  have lt: "digit_val x * 10 ^ n + p < digit_val y * 10 ^ n + q"
    if "digit_val x < digit_val y" "p < 10 ^ n" for x y p q and n :: nat
  proof -
    have "(digit_val x + 1) * 10 ^ n \<le> digit_val y * 10 ^ n" using that(1) by (intro mult_right_mono) simp_all
    with that(2) show ?thesis by simp
  qed
  show ?case
  proof (cases "digit_val c" "digit_val d" rule: linorder_cases)
    case less
    with lt [OF less bounds(1), of "digits_to_nat b"] Cons.hyps show ?thesis by (simp add: h code)
  next
    case equal
    with cd Cons show ?thesis by (simp add: h)
  next
    case greater
    with lt [OF greater bounds(2), of "digits_to_nat a"] cd Cons.hyps show ?thesis by (simp add: h code)
  qed
qed (simp add: digits_to_nat_def)

lemma year_text:
  assumes "1000 \<le> n" "n < 10000"
  shows "length (nat_to_string n) = 4"
  using nat_to_string_length [of n 3] nat_to_string_long [of 3 n] assms by simp

definition two_digits :: "nat \<Rightarrow> string" where
  "two_digits n = padStart 2 (CHR ''0'') (nat_to_string n)"

lemma two_digits_value: "digits_to_nat (two_digits n) = n"
  by (simp only: two_digits_def digits_padStart digits_nat_to_string)

lemma two_digits_all: "list_all is_digit (two_digits n)"
  using nat_to_string_digits [of n] zero_is_digit by (auto simp: two_digits_def padStart_def list_all_iff)

lemma two_digits_length: "n < 100 \<Longrightarrow> length (two_digits n) = 2"
  using nat_to_string_length [of n 1] by (simp add: two_digits_def padStart_def)

lemma today_two_digits: "todayInput y m d = nat_to_string y @ ''-'' @ two_digits (m + 1) @ ''-'' @ two_digits d"
  by (simp only: todayInput_def two_digits_def)

text \<open>
  Comparing two days as text is comparing them: for years of four digits \<open><=\<close> on what \<open>todayInput\<close> writes is the order
  of the calendar.
\<close>
theorem text_order_is_date_order:
  assumes "1000 \<le> y" "y < 10000" "m < 12" "d \<le> 31" "1000 \<le> y'" "y' < 10000" "m' < 12" "d' \<le> 31"
  shows "str_le (todayInput y m d) (todayInput y' m' d')
    \<longleftrightarrow> y < y' \<or> y = y' \<and> (m < m' \<or> m = m' \<and> d \<le> d')"
proof -
  have m: "m + 1 < 100" "m' + 1 < 100" "d < 100" "d' < 100" using assms by simp_all
  have two_eq: "two_digits i = two_digits j \<longleftrightarrow> i = j" for i j
    using two_digits_value [of i] two_digits_value [of j] by metis
  have two_le: "str_le (two_digits i) (two_digits j) \<longleftrightarrow> i \<le> j" if "i < 100" "j < 100" for i j
    using str_le_digits [of "two_digits i" "two_digits j"] two_digits_length that
    by (simp add: two_digits_all two_digits_value)
  have len: "length (nat_to_string y) = length (nat_to_string y')"
    using year_text [OF assms(1,2)] year_text [OF assms(5,6)] by simp
  then have year_le: "str_le (nat_to_string y) (nat_to_string y') \<longleftrightarrow> y \<le> y'"
    using str_le_digits [of "nat_to_string y" "nat_to_string y'"] by (simp add: nat_to_string_digits)
  have year_eq: "nat_to_string y = nat_to_string y' \<longleftrightarrow> y = y'" using nat_to_string_inj by metis
  have dash: "str_le (''-'' @ s) (''-'' @ t) \<longleftrightarrow> str_le s t" for s t by simp
  have "str_le (two_digits (m + 1) @ ''-'' @ two_digits d) (two_digits (m' + 1) @ ''-'' @ two_digits d')
      \<longleftrightarrow> (if m = m' then d \<le> d' else m \<le> m')"
    using two_digits_length [OF m(1)] two_digits_length [OF m(2)] two_le [OF m(1,2)] two_le [OF m(3,4)]
    by (subst str_le_same) (simp_all only: dash two_eq add_le_cancel_right add_right_cancel)
  then show ?thesis
    unfolding today_two_digits str_le_same [OF len] dash year_eq year_le by auto
qed

theorem text_order_is_date_order_witness:
  "\<not> str_le (todayInput 2026 9 2) (todayInput 2026 8 30) \<and> str_le (todayInput 2026 8 30) (todayInput 2027 0 1)"
  using text_order_is_date_order [of 2026 9 2 2026 8 30] text_order_is_date_order [of 2026 8 30 2027 0 1] by simp

section \<open>Saving a form\<close>

text \<open>
  Every form keeps the same four signals and saves the same way: a press while a request is out does nothing, errors
  found in the fields are shown and nothing is sent, otherwise the message of the last failure goes and the request
  leaves; its answer gives the button back, with a message when it failed.
\<close>

type_synonym field_errors = "(string \<times> string) list"

record submit =
  busy :: bool
  save_error :: "string option"
  save_request :: "string option"
  errors :: field_errors

definition idle :: submit where
  "idle = \<lparr>busy = False, save_error = None, save_request = None, errors = []\<rparr>"

definition fieldError :: "submit \<Rightarrow> string \<Rightarrow> string option" where
  "fieldError s field = map_of (errors s) field"

definition begin_save :: "field_errors + 'b \<Rightarrow> submit \<Rightarrow> submit \<times> 'b option" where
  "begin_save built s =
     (if busy s then (s, None)
      else case built of
        Inl errs \<Rightarrow> (s\<lparr>errors := errs\<rparr>, None)
      | Inr body \<Rightarrow> (s\<lparr>errors := [], busy := True, save_error := None, save_request := None\<rparr>, Some body))"

datatype save_answer = Saved | Refused caught

definition save_settled :: "string \<Rightarrow> save_answer \<Rightarrow> submit \<Rightarrow> submit" where
  "save_settled fallback a s =
     (case a of
        Saved \<Rightarrow> s\<lparr>busy := False\<rparr>
      | Refused error \<Rightarrow>
          s\<lparr>save_error := Some (messageFor error fallback), save_request := requestIdFor error, busy := False\<rparr>)"

text \<open>What a form lives through: presses of its button, with what \<open>build\<close> makes of the fields, and answers.\<close>

datatype 'b form_event = Press "field_errors + 'b" | Answer save_answer

fun form_step :: "string \<Rightarrow> 'b form_event \<Rightarrow> submit \<times> 'b list \<times> nat \<Rightarrow> submit \<times> 'b list \<times> nat" where
  "form_step fallback (Press built) (s, sent, n) =
     (case begin_save built s of (s', out) \<Rightarrow> (s', sent @ (case out of None \<Rightarrow> [] | Some b \<Rightarrow> [b]), n))"
| "form_step fallback (Answer a) (s, sent, n) =
     (if n < length sent then (save_settled fallback a s, sent, Suc n) else (s, sent, n))"

text \<open>
  A form never has two requests out: after any presses and answers, what was sent and not answered is one request
  while the button is busy and none otherwise.
\<close>
theorem one_request_at_a_time:
  "case fold (form_step fallback) es (idle, [], 0) of (s, sent, n) \<Rightarrow> length sent = n + of_bool (busy s)"
proof (induction es rule: rev_induct)
  case Nil
  show ?case by (simp add: idle_def)
next
  case (snoc e es)
  obtain s sent n where r: "fold (form_step fallback) es (idle, [], 0) = (s, sent, n)" by (rule prod_cases3)
  with snoc.IH have "length sent = n + of_bool (busy s)" by simp
  then show ?case
    by (cases e) (auto simp: r begin_save_def save_settled_def split: sum.splits save_answer.splits)
qed

section \<open>Recording a transfer\<close>

datatype transfer_type = Permanent | Loan | LoanReturn | FreeTransfer | YouthPromotion | Released | Retired

definition ENDS_CAREER_AT_CLUB :: "transfer_type set" where
  "ENDS_CAREER_AT_CLUB = {Released, Retired}"

record transfer_form =
  tf_type :: transfer_type
  tf_date :: string
  tf_to :: "string option"
  tf_fee :: string
  tf_season :: string

record transfer_body =
  tb_player :: string
  tb_from :: "string option"
  tb_to :: "string option"
  tb_date :: "string option"
  tb_type :: transfer_type
  tb_fee :: "int option"
  tb_season :: "string option"

definition truthy :: "string option \<Rightarrow> bool" where
  "truthy v = (case v of None \<Rightarrow> False | Some s \<Rightarrow> s \<noteq> [])"

definition err_if :: "bool \<Rightarrow> string \<Rightarrow> string \<Rightarrow> field_errors" where
  "err_if b field msg = (if b then [(field, msg)] else [])"

fun money_message :: "money_error \<Rightarrow> string" where
  "money_message NotAnAmount = ''Enter an amount, like 2500000 or 2500000.50''"
| "money_message NegativeAmount = ''An amount cannot be negative.''"
| "money_message TooManyDecimals = ''At most two decimal places.''"
| "money_message TooLarge = ''That amount is too large.''"

text \<open>The fee of a transfer: read only when the move is not free and something is typed.\<close>

definition read_fee :: "transfer_type \<Rightarrow> string \<Rightarrow> money_error + int option" where
  "read_fee ty typed = (if ty \<noteq> FreeTransfer \<and> trim typed \<noteq> [] then parseMoney (Some typed) else Inr None)"

definition transfer_errors :: "string \<Rightarrow> string option \<Rightarrow> transfer_form \<Rightarrow> field_errors" where
  "transfer_errors latest current f =
     (if tf_date f = [] then [(''transfer_date'', ''A date is required.'')]
      else err_if (\<not> str_le (tf_date f) latest) ''transfer_date'' ''No more than a year ahead.'')
     @ err_if (\<not> truthy current \<and> \<not> truthy (tf_to f)) ''to_team_id'' ''A free agent must be joining someone.''
     @ err_if (truthy current \<and> tf_to f = current) ''to_team_id'' ''The two clubs must differ.''
     @ (case read_fee (tf_type f) (tf_fee f) of Inl e \<Rightarrow> [(''fee_minor'', money_message e)] | Inr _ \<Rightarrow> [])"

definition transfer_payload :: "string \<Rightarrow> string option \<Rightarrow> transfer_form \<Rightarrow> transfer_body" where
  "transfer_payload pid current f =
     \<lparr>tb_player = pid, tb_from = current, tb_to = tf_to f, tb_date = toApiDate (Some (tf_date f)),
      tb_type = tf_type f,
      tb_fee = (case read_fee (tf_type f) (tf_fee f) of Inl _ \<Rightarrow> None | Inr fee \<Rightarrow> fee),
      tb_season = (if tf_season f = [] then None else Some (tf_season f))\<rparr>"

definition transfer_build ::
    "string \<Rightarrow> string \<Rightarrow> string option \<Rightarrow> transfer_form \<Rightarrow> field_errors + transfer_body" where
  "transfer_build latest pid current f =
     (if transfer_errors latest current f \<noteq> [] then Inl (transfer_errors latest current f)
      else Inr (transfer_payload pid current f))"

text \<open>\<open>typeChanged\<close>, and the effect that empties the fee of a free transfer.\<close>

definition typeChanged :: "transfer_form \<Rightarrow> transfer_form" where
  "typeChanged f = (if tf_type f \<in> ENDS_CAREER_AT_CLUB then f\<lparr>tf_to := None\<rparr> else f)"

definition free_has_no_fee :: "transfer_form \<Rightarrow> transfer_form" where
  "free_has_no_fee f = (if tf_type f = FreeTransfer then f\<lparr>tf_fee := []\<rparr> else f)"

definition pick_type :: "transfer_type \<Rightarrow> transfer_form \<Rightarrow> transfer_form" where
  "pick_type ty f = free_has_no_fee (typeChanged (f\<lparr>tf_type := ty\<rparr>))"

text \<open>\<open>save\<close>: nothing happens before the player has loaded; \<open>current\<close> is the club of the loaded player.\<close>

definition transfer_save ::
    "string \<Rightarrow> string \<Rightarrow> string option option \<Rightarrow> transfer_form \<Rightarrow> submit \<Rightarrow> submit \<times> transfer_body option" where
  "transfer_save latest pid fetched f s =
     (case fetched of None \<Rightarrow> (s, None) | Some current \<Rightarrow> begin_save (transfer_build latest pid current f) s)"

text \<open>
  \<open>oneYearFromToday\<close> sets the year one ahead and lets the calendar roll: 29 February becomes 1 March.
\<close>

definition leap :: "nat \<Rightarrow> bool" where
  "leap y \<longleftrightarrow> 4 dvd y \<and> (\<not> 100 dvd y \<or> 400 dvd y)"

definition oneYearFromToday :: "nat \<Rightarrow> nat \<Rightarrow> nat \<Rightarrow> string" where
  "oneYearFromToday y month0 d =
     (if month0 = 1 \<and> d = 29 \<and> \<not> leap (y + 1) then todayInput (y + 1) 2 1 else todayInput (y + 1) month0 d)"

subsection \<open>The rules of the service\<close>

text \<open>
  \<open>validateTransfer\<close> and \<open>checkOrigin\<close>.  The body's days are midnights of Greenwich, so a date lies after an
  instant of some day when its text is later than that day's.
\<close>

definition validateTransfer :: "string \<Rightarrow> transfer_body \<Rightarrow> string option" where
  "validateTransfer limit_day t =
     (if tb_player t = [] then Some ''player_id is required''
      else case tb_date t of
        None \<Rightarrow> Some ''transfer_date is required''
      | Some stamp \<Rightarrow>
          if \<not> str_le (take 10 stamp) limit_day then Some ''transfer_date cannot be more than a year in the future''
          else if tb_from t = None \<and> tb_to t = None then Some ''a transfer needs from_team_id, to_team_id, or both''
          else if tb_from t \<noteq> None \<and> tb_to t \<noteq> None \<and> tb_from t = tb_to t
            then Some ''from_team_id and to_team_id must differ''
          else if (case tb_fee t of None \<Rightarrow> False | Some fee \<Rightarrow> fee < 0) then Some ''fee_minor cannot be negative''
          else if tb_type t = FreeTransfer \<and> (case tb_fee t of None \<Rightarrow> False | Some fee \<Rightarrow> fee \<noteq> 0)
            then Some ''a free transfer cannot carry a fee''
          else None)"

definition checkOrigin :: "string option \<Rightarrow> transfer_body \<Rightarrow> string option" where
  "checkOrigin team t =
     (if tb_from t = None \<and> team \<noteq> None then Some ''player is currently at a club; set from_team_id to that club''
      else if tb_from t \<noteq> None \<and> team = None then Some ''player is a free agent; omit from_team_id''
      else if tb_from t \<noteq> team then Some ''from_team_id does not match the player's current club''
      else None)"

definition day_text :: "string \<Rightarrow> bool" where
  "day_text d \<longleftrightarrow> length d = 10 \<and> list_all (\<lambda>c. is_digit c \<or> c = CHR ''-'') d"

lemma day_api:
  assumes "day_text d"
  shows "toApiDate (Some d) = Some (d @ ''T00:00:00Z'')" "take 10 (d @ ''T00:00:00Z'') = d" "d \<noteq> []" "take 10 d = d"
proof -
  have dash: "\<not> is_ws c" if "is_digit c \<or> c = CHR ''-''" for c
    using that is_digit_not_ws by (auto simp: is_ws_def)
  have l: "length d = 10" using assms unfolding day_text_def by blast
  have "list_all (\<lambda>c. \<not> is_ws c) d"
    by (rule list.pred_mono_strong [OF conjunct2 [OF assms [unfolded day_text_def]]]) (rule dash)
  moreover from l show "d \<noteq> []" "take 10 d = d" by auto
  ultimately show "toApiDate (Some d) = Some (d @ ''T00:00:00Z'')" "take 10 (d @ ''T00:00:00Z'') = d"
    using l by (simp_all add: toApiDate_def)
qed

lemma parsed_money_not_negative: "parseMoney t = Inr (Some n) \<Longrightarrow> 0 \<le> n"
  by (auto simp: parseMoney_def Let_def split: if_split_asm option.split_asm)

lemma read_fee_not_negative: "read_fee ty typed = Inr (Some n) \<Longrightarrow> ty \<noteq> FreeTransfer \<and> 0 \<le> n"
  using parsed_money_not_negative by (auto simp: read_fee_def split: if_split_asm)

lemma read_fee_valid:
  "read_fee ty typed = Inr fee \<Longrightarrow>
     \<not> (case fee of None \<Rightarrow> False | Some n \<Rightarrow> n < 0) \<and> \<not> (ty = FreeTransfer \<and> (case fee of None \<Rightarrow> False | Some n \<Rightarrow> n \<noteq> 0))"
  using read_fee_not_negative [of ty typed] by (cases fee) (auto simp: not_less)

lemma err_if_Nil [simp]: "err_if b field msg = [] \<longleftrightarrow> \<not> b"
  by (simp add: err_if_def)

lemma transfer_errors_Nil:
  "transfer_errors latest current f = [] \<longleftrightarrow>
     tf_date f \<noteq> [] \<and> str_le (tf_date f) latest \<and> (truthy current \<or> truthy (tf_to f))
     \<and> \<not> (truthy current \<and> tf_to f = current) \<and> (\<exists>fee. read_fee (tf_type f) (tf_fee f) = Inr fee)"
  by (auto simp: transfer_errors_def split: sum.split)

lemma service_accepts_transfer:
  assumes "pid \<noteq> []" "current \<noteq> Some []" "tf_to f \<noteq> Some []" "tf_date f = [] \<or> day_text (tf_date f)"
    and "read_fee (tf_type f) (tf_fee f) = Inr fee"
  shows "validateTransfer limit_day (transfer_payload pid current f) = None \<longleftrightarrow>
     tf_date f \<noteq> [] \<and> str_le (tf_date f) limit_day \<and> (truthy current \<or> truthy (tf_to f))
     \<and> \<not> (truthy current \<and> tf_to f = current)"
proof -
  have t: "truthy current \<longleftrightarrow> current \<noteq> None" "truthy (tf_to f) \<longleftrightarrow> tf_to f \<noteq> None"
    using assms(2,3) by (auto simp: truthy_def split: option.split)
  show ?thesis
  proof (cases "tf_date f = []")
    case True
    then show ?thesis using assms(1) by (simp add: validateTransfer_def transfer_payload_def toApiDate_def trim_def)
  next
    case False
    with assms(4) have d: "day_text (tf_date f)" by simp
    show ?thesis
      using False assms(1) read_fee_valid [OF assms(5)]
      by (auto simp: validateTransfer_def transfer_payload_def day_api(1,2) [OF d] t assms(5) simp del: take_append)
  qed
qed



section \<open>Correcting a transfer\<close>

record transfer =
  t_id :: string
  t_player :: string
  t_from :: "string option"
  t_to :: "string option"
  t_season :: "string option"
  t_date :: string
  t_type :: transfer_type
  t_fee :: "int option"
  t_currency :: string

record correction =
  co_type :: transfer_type
  co_fee :: "int option"
  co_currency :: string
  co_season :: "string option"

text \<open>The form takes the type and the fee of the loaded transfer, and sends the currency and season along.\<close>

definition correction_fill :: "transfer \<Rightarrow> transfer_type \<times> string" where
  "correction_fill t = (t_type t, formatMoneyInput (t_fee t))"

definition correction_save :: "transfer option \<Rightarrow> transfer_type \<times> string \<Rightarrow> submit \<Rightarrow> submit \<times> correction option" where
  "correction_save fetched = (\<lambda>(ty, typed) s.
     (case fetched of
        None \<Rightarrow> (s, None)
      | Some t \<Rightarrow> begin_save
          (case read_fee ty typed of
             Inl e \<Rightarrow> Inl [(''fee'', money_message e)]
           | Inr fee \<Rightarrow> Inr \<lparr>co_type = ty, co_fee = fee, co_currency = t_currency t, co_season = t_season t\<rparr>) s))"

text \<open>\<open>UpdateTransfer\<close>: everything a squad is derived from comes from the stored row, and so does a missing season.\<close>

definition updateTransfer :: "correction \<Rightarrow> transfer \<Rightarrow> transfer" where
  "updateTransfer c t =
     t\<lparr>t_type := co_type c, t_fee := co_fee c, t_currency := co_currency c,
       t_season := (if co_season c = None then t_season t else co_season c)\<rparr>"

text \<open>
  A correction saved untouched changes nothing, unless the move was free: a known fee of zero is then lost and the
  stored fee becomes undisclosed.  Whatever is saved, the player, both clubs and the date stay.
\<close>
theorem untouched_correction:
  assumes "\<not> busy s" "\<And>n. t_fee t = Some n \<Longrightarrow> 0 \<le> n \<and> n \<le> int MAX_SAFE"
  shows "\<exists>s' c. correction_save (Some t) (correction_fill t) s = (s', Some c) \<and>
      updateTransfer c t = (if t_type t = FreeTransfer then t\<lparr>t_fee := None\<rparr> else t)"
proof -
  have "read_fee (t_type t) (formatMoneyInput (t_fee t)) = Inr (if t_type t = FreeTransfer then None else t_fee t)"
  proof (cases "t_type t = FreeTransfer \<or> t_fee t = None")
    case True
    then show ?thesis by (auto simp: read_fee_def formatMoneyInput_def trim_def)
  next
    case False
    then obtain n where n: "t_fee t = Some n" by auto
    with assms(2) have "0 \<le> n" "n \<le> int MAX_SAFE" by auto
    then have "parseMoney (Some (formatMoneyInput (Some n))) = Inr (Some n)"
      using money_back [of "nat n"] by (simp add: nat_le_iff)
    moreover from this have "trim (formatMoneyInput (Some n)) \<noteq> []"
      by (auto simp: parseMoney_def money_text_def)
    ultimately show ?thesis using False n by (simp add: read_fee_def)
  qed
  with assms(1) show ?thesis
    by (simp add: correction_save_def correction_fill_def begin_save_def updateTransfer_def)
qed

theorem untouched_correction_witness:
  "\<exists>s' c. correction_save
       (Some \<lparr>t_id = ''t1'', t_player = ''p1'', t_from = None, t_to = Some ''ajax'', t_season = None,
              t_date = ''2025-07-01T00:00:00Z'', t_type = FreeTransfer, t_fee = Some 0, t_currency = ''EUR''\<rparr>)
       (FreeTransfer, ''0.00'') idle = (s', Some c) \<and> co_fee c = None"
proof -
  let ?t = "\<lparr>t_id = ''t1'', t_player = ''p1'', t_from = None, t_to = Some ''ajax'', t_season = None,
              t_date = ''2025-07-01T00:00:00Z'', t_type = FreeTransfer, t_fee = Some 0, t_currency = ''EUR''\<rparr>"
  have "correction_fill ?t = (FreeTransfer, ''0.00'')"
    by (simp add: correction_fill_def formatMoneyInput_def nat_to_string.simps digit_char_def padStart_def
        char_of_def bit_iff_odd)
  with untouched_correction [of idle ?t] show ?thesis by (auto simp: idle_def updateTransfer_def)
qed

section \<open>The player form\<close>

definition blankToUndefined :: "string \<Rightarrow> string option" where
  "blankToUndefined value = (if trim value = [] then None else Some (trim value))"

definition splitList :: "string \<Rightarrow> string list" where
  "splitList raw = filter (\<lambda>item. item \<noteq> []) (map trim (split_on (CHR '','') raw))"

definition splitLines :: "string \<Rightarrow> string list" where
  "splitLines raw = filter (\<lambda>line. line \<noteq> []) (map trim (split_on (CHR 0x0A) raw))"

record percentages =
  duels_won :: "real option"
  pass_completion :: "real option"
  shots_on_target :: "real option"
  aerial_duels_won :: "real option"

record player_form =
  f_name :: string
  f_position :: string
  f_team :: "string option"
  f_value :: string
  f_first :: string
  f_last :: string
  f_born :: string
  f_nations :: string
  f_others :: string
  f_strengths :: string
  f_weaknesses :: string
  f_pct :: percentages
  f_height :: "real option"
  f_foot :: string
  f_agent :: string
  f_squad :: "real option"
  f_start :: string
  f_until :: string

text \<open>What is sent; \<open>b_team\<close> and \<open>b_value\<close> are \<open>None\<close> when the key is absent.\<close>

record player_body =
  b_name :: string
  b_position :: string
  b_first :: "string option"
  b_last :: "string option"
  b_born :: "string option"
  b_nations :: "string list"
  b_others :: "string list"
  b_strengths :: "string list"
  b_weaknesses :: "string list"
  b_pct :: percentages
  b_height :: "real option"
  b_foot :: "string option"
  b_agent :: "string option"
  b_squad :: "real option"
  b_start :: "string option"
  b_until :: "string option"
  b_team :: "string option option"
  b_value :: "int option"

record player_row =
  p_id :: string
  p_team :: "string option"
  p_name :: string
  p_position :: string
  p_first :: "string option"
  p_last :: "string option"
  p_born :: "string option"
  p_nations :: "string list"
  p_others :: "string list"
  p_strengths :: "string list"
  p_weaknesses :: "string list"
  p_pct :: percentages
  p_height :: "real option"
  p_foot :: "string option"
  p_agent :: "string option"
  p_squad :: "real option"
  p_start :: "string option"
  p_until :: "string option"
  p_value :: int
  p_currency :: string

definition outside :: "real \<Rightarrow> real \<Rightarrow> real option \<Rightarrow> bool" where
  "outside lo hi v = (case v of None \<Rightarrow> False | Some n \<Rightarrow> n < lo \<or> n > hi)"

definition read_value :: "bool \<Rightarrow> string \<Rightarrow> money_error + int option" where
  "read_value is_edit typed = (if \<not> is_edit \<and> trim typed \<noteq> [] then parseMoney (Some typed) else Inr None)"

definition player_errors :: "string \<Rightarrow> bool \<Rightarrow> player_form \<Rightarrow> field_errors" where
  "player_errors today is_edit f =
     err_if (trim (f_name f) = []) ''name'' ''A name is required.''
     @ err_if (trim (f_position f) = []) ''position'' ''A position is required.''
     @ err_if (outside 100 250 (f_height f)) ''height_cm'' ''Between 100 and 250 cm.''
     @ err_if (outside 1 99 (f_squad f)) ''squad_number'' ''Between 1 and 99.''
     @ err_if (f_born f \<noteq> [] \<and> \<not> str_le (f_born f) today) ''date_of_birth'' ''Cannot be in the future.''
     @ err_if (f_start f \<noteq> [] \<and> f_until f \<noteq> [] \<and> \<not> str_le (f_start f) (f_until f))
         ''contract_until'' ''Must be on or after the contract start.''
     @ (case read_value is_edit (f_value f) of Inl e \<Rightarrow> [(''market_value_minor'', money_message e)] | Inr _ \<Rightarrow> [])"

definition player_payload :: "bool \<Rightarrow> player_form \<Rightarrow> player_body" where
  "player_payload is_edit f =
     \<lparr>b_name = trim (f_name f), b_position = trim (f_position f),
      b_first = blankToUndefined (f_first f), b_last = blankToUndefined (f_last f),
      b_born = toApiDate (Some (f_born f)),
      b_nations = splitList (f_nations f), b_others = splitList (f_others f),
      b_strengths = splitLines (f_strengths f), b_weaknesses = splitLines (f_weaknesses f),
      b_pct = f_pct f, b_height = f_height f, b_foot = blankToUndefined (f_foot f),
      b_agent = blankToUndefined (f_agent f), b_squad = f_squad f,
      b_start = toApiDate (Some (f_start f)), b_until = toApiDate (Some (f_until f)),
      b_team = (if is_edit then None else Some (f_team f)),
      b_value = (case read_value is_edit (f_value f) of Inl _ \<Rightarrow> None | Inr v \<Rightarrow> v)\<rparr>"

definition player_build :: "string \<Rightarrow> bool \<Rightarrow> player_form \<Rightarrow> field_errors + player_body" where
  "player_build today is_edit f =
     (if player_errors today is_edit f \<noteq> [] then Inl (player_errors today is_edit f)
      else Inr (player_payload is_edit f))"

definition player_fill :: "player_row \<Rightarrow> player_form \<Rightarrow> player_form" where
  "player_fill p f =
     f\<lparr>f_name := p_name p, f_position := p_position p,
       f_first := or_empty (p_first p), f_last := or_empty (p_last p),
       f_born := toDateInput (p_born p),
       f_nations := join '', '' (p_nations p), f_others := join '', '' (p_others p),
       f_strengths := join [CHR 0x0A] (p_strengths p), f_weaknesses := join [CHR 0x0A] (p_weaknesses p),
       f_pct := p_pct p, f_height := p_height p, f_foot := or_empty (p_foot p),
       f_agent := or_empty (p_agent p), f_squad := p_squad p,
       f_start := toDateInput (p_start p), f_until := toDateInput (p_until p)\<rparr>"

text \<open>\<open>today\<close> of the player form is the day in Greenwich, from \<open>toISOString\<close>; the save sends to \<open>create\<close> or \<open>update\<close>.\<close>

definition player_save :: "string \<Rightarrow> string option \<Rightarrow> player_form \<Rightarrow> submit \<Rightarrow> submit \<times> player_body option" where
  "player_save today pid f s = begin_save (player_build today (truthy pid) f) s"

definition cancelTarget :: "string option \<Rightarrow> string" where
  "cancelTarget pid = (if truthy pid then ''/players/'' @ or_empty pid else ''/'')"

subsection \<open>The rules of the service\<close>

text \<open>
  \<open>validatePlayer\<close>: the lists are tidied before they are counted, repeats are found up to case (\<open>EqualFold\<close>, below code
  unit 256), and a date is after today when its day is.  Heights and squad numbers arrive as whole numbers.
\<close>

definition tidyList :: "string list \<Rightarrow> string list" where
  "tidyList items = filter (\<lambda>item. item \<noteq> []) (map trim items)"

definition fold_char :: "char \<Rightarrow> nat" where
  "fold_char c =
     (let n = of_char c in if 65 \<le> n \<and> n \<le> 90 \<or> 192 \<le> n \<and> n \<le> 222 \<and> n \<noteq> 215 then n + 32 else n)"

definition equalFold :: "string \<Rightarrow> string \<Rightarrow> bool" where
  "equalFold s t \<longleftrightarrow> map fold_char s = map fold_char t"

definition checkAssessment :: "string \<Rightarrow> string list \<Rightarrow> string option" where
  "checkAssessment field items =
     (if length items > 12 then Some (''at most 12 '' @ field)
      else if list_ex (\<lambda>item. length item > 200) items
        then Some (''each entry in '' @ field @ '' can be at most 200 characters'')
      else None)"

definition checkLists :: "player_body \<Rightarrow> string option" where
  "checkLists b =
     (if length (tidyList (b_nations b)) > 3 then Some ''at most 3 nationalities''
      else if length (tidyList (b_others b)) > 6 then Some ''at most 6 secondary positions''
      else if list_ex (\<lambda>other. equalFold other (b_position b)) (tidyList (b_others b))
        then Some ''a secondary position cannot repeat the main position''
      else case checkAssessment ''strengths'' (tidyList (b_strengths b)) of
        Some e \<Rightarrow> Some e
      | None \<Rightarrow> checkAssessment ''weaknesses'' (tidyList (b_weaknesses b)))"

definition checkPercentages :: "percentages \<Rightarrow> string option" where
  "checkPercentages q =
     (if outside 0 100 (duels_won q) then Some ''duels_won_pct must be between 0 and 100''
      else if outside 0 100 (pass_completion q) then Some ''pass_completion_pct must be between 0 and 100''
      else if outside 0 100 (shots_on_target q) then Some ''shots_on_target_pct must be between 0 and 100''
      else if outside 0 100 (aerial_duels_won q) then Some ''aerial_duels_won_pct must be between 0 and 100''
      else None)"

definition validFoot :: "string option \<Rightarrow> bool" where
  "validFoot foot = (case foot of None \<Rightarrow> True | Some f \<Rightarrow> f \<in> {''left'', ''right'', ''both''})"

definition day_after :: "string option \<Rightarrow> string \<Rightarrow> bool" where
  "day_after stamp day = (case stamp of None \<Rightarrow> False | Some t \<Rightarrow> \<not> str_le (take 10 t) day)"

definition before_start :: "string option \<Rightarrow> string option \<Rightarrow> bool" where
  "before_start from_stamp to_stamp = (case from_stamp of None \<Rightarrow> False | Some t \<Rightarrow>
     (case to_stamp of None \<Rightarrow> False | Some u \<Rightarrow> \<not> str_le (take 10 t) (take 10 u)))"

definition validatePlayer :: "string \<Rightarrow> player_body \<Rightarrow> string option" where
  "validatePlayer today b =
     (if b_name b = [] then Some ''name is required''
      else if b_position b = [] then Some ''position is required''
      else if \<not> validFoot (b_foot b) then Some ''preferred_foot must be one of: left, right, both''
      else if outside 100 250 (b_height b) then Some ''height_cm must be between 100 and 250''
      else if outside 1 99 (b_squad b) then Some ''squad_number must be between 1 and 99''
      else if day_after (b_born b) today then Some ''date_of_birth cannot be in the future''
      else if before_start (b_start b) (b_until b) then Some ''contract_until must be on or after contract_start''
      else if (case b_value b of None \<Rightarrow> False | Some v \<Rightarrow> v < 0) then Some ''market_value_minor cannot be negative''
      else case checkLists b of Some e \<Rightarrow> Some e | None \<Rightarrow> checkPercentages (b_pct b))"

text \<open>
  \<open>UpdatePlayer\<close> and the columns of its \<open>UPDATE\<close>: the club and the value are not among them.
\<close>

definition updatePlayer :: "string \<Rightarrow> player_body \<Rightarrow> player_row \<Rightarrow> string + player_row" where
  "updatePlayer today b p =
     (case validatePlayer today b of
        Some e \<Rightarrow> Inl e
      | None \<Rightarrow> Inr (p\<lparr>p_name := b_name b, p_first := b_first b, p_last := b_last b, p_born := b_born b,
          p_nations := tidyList (b_nations b), p_height := b_height b, p_foot := b_foot b, p_agent := b_agent b,
          p_squad := b_squad b, p_position := b_position b, p_others := tidyList (b_others b),
          p_start := b_start b, p_until := b_until b, p_pct := b_pct b,
          p_strengths := tidyList (b_strengths b), p_weaknesses := tidyList (b_weaknesses b)\<rparr>))"

subsection \<open>Text fields\<close>

lemma trim_blank: "trim (CHR '' '' # s) = trim s"
  by (simp add: trim_def is_ws_def)

lemma tidy_tidied: "list_all (\<lambda>x. x \<noteq> [] \<and> trim x = x) xs \<Longrightarrow> tidyList xs = xs"
  by (induction xs) (simp_all add: tidyList_def)

lemma tidied: "list_all (\<lambda>x. x \<noteq> [] \<and> trim x = x) (tidyList xs)"
  by (auto simp: tidyList_def list_all_iff)

lemma split_list_tidy: "splitList raw = tidyList (split_on (CHR '','') raw)"
  "splitLines raw = tidyList (split_on (CHR 0x0A) raw)"
  by (simp_all only: splitList_def splitLines_def tidyList_def)

lemma tidy_split [simp]: "tidyList (splitList raw) = splitList raw" "tidyList (splitLines raw) = splitLines raw"
  unfolding split_list_tidy by (rule tidy_tidied [OF tidied])+

lemma split_join_blank:
  "list_all (\<lambda>x. x \<noteq> [] \<and> trim x = x \<and> c \<notin> set x) xs \<Longrightarrow> pad = [] \<or> pad = [CHR '' ''] \<Longrightarrow> c \<noteq> CHR '' '' \<Longrightarrow>
   tidyList (split_on c (join (c # pad) xs)) = xs"
proof -
  assume c: "c \<noteq> CHR '' ''" and padded: "pad = [] \<or> pad = [CHR '' '']"
  have lead: "tidyList (split_on c (pad @ r)) = tidyList (split_on c r)" for r
    using padded c by (auto simp: tidyList_def trim_blank split: list.split)
  show "list_all (\<lambda>x. x \<noteq> [] \<and> trim x = x \<and> c \<notin> set x) xs \<Longrightarrow>
      tidyList (split_on c (join (c # pad) xs)) = xs"
  proof (induction "c # pad" xs rule: join.induct)
    case 1
    show ?case by (simp add: tidyList_def)
  next
    case (2 x)
    then show ?case by (simp add: split_on_plain tidyList_def)
  next
    case (3 x y xs)
    have "tidyList (split_on c (join (c # pad) (x # y # xs))) =
        x # tidyList (split_on c (pad @ join (c # pad) (y # xs)))"
      using 3(2) by (simp add: split_on_first tidyList_def)
    then show ?case using 3 by (simp add: lead)
  qed
qed

subsection \<open>The form against the rules\<close>

definition blank_or_day :: "string \<Rightarrow> bool" where
  "blank_or_day d \<longleftrightarrow> d = [] \<or> day_text d"

text \<open>The rules the form leaves to the service.\<close>

definition scouting_ok :: "player_body \<Rightarrow> bool" where
  "scouting_ok b \<longleftrightarrow> validFoot (b_foot b) \<and> checkLists b = None \<and> checkPercentages (b_pct b) = None"

lemma player_errors_Nil:
  "player_errors today e f = [] \<longleftrightarrow>
     trim (f_name f) \<noteq> [] \<and> trim (f_position f) \<noteq> [] \<and> \<not> outside 100 250 (f_height f) \<and> \<not> outside 1 99 (f_squad f)
     \<and> (f_born f = [] \<or> str_le (f_born f) today)
     \<and> (f_start f = [] \<or> f_until f = [] \<or> str_le (f_start f) (f_until f))
     \<and> (\<exists>v. read_value e (f_value f) = Inr v)"
  by (auto simp: player_errors_def split: sum.split)

lemma sent_day: "blank_or_day d \<Longrightarrow> toApiDate (Some d) = (if d = [] then None else Some (d @ ''T00:00:00Z''))"
  using day_api(1) by (auto simp: blank_or_day_def toApiDate_def)

lemma day_after_sent: "blank_or_day d \<Longrightarrow> day_after (toApiDate (Some d)) today \<longleftrightarrow> d \<noteq> [] \<and> \<not> str_le d today"
  using day_api(2,3) [of d] sent_day [of d] by (auto simp: blank_or_day_def day_after_def simp del: take_append)

lemma before_start_sent:
  "blank_or_day d \<Longrightarrow> blank_or_day d' \<Longrightarrow>
     before_start (toApiDate (Some d)) (toApiDate (Some d')) \<longleftrightarrow> d \<noteq> [] \<and> d' \<noteq> [] \<and> \<not> str_le d d'"
  using day_api(2,3) [of d] day_api(2,3) [of d'] sent_day [of d] sent_day [of d']
  by (auto simp: blank_or_day_def before_start_def simp del: take_append)

lemma read_value_not_negative: "read_value e typed = Inr (Some n) \<Longrightarrow> 0 \<le> n"
  using parsed_money_not_negative by (auto simp: read_value_def split: if_split_asm)

lemma service_accepts_player:
  assumes "blank_or_day (f_born f)" "blank_or_day (f_start f)" "blank_or_day (f_until f)"
    and "read_value e (f_value f) = Inr v"
  shows "validatePlayer today (player_payload e f) = None \<longleftrightarrow>
     scouting_ok (player_payload e f) \<and> player_errors today e f = []"
proof -
  let ?b = "player_payload e f"
  have fields: "b_name ?b = trim (f_name f)" "b_position ?b = trim (f_position f)" "b_height ?b = f_height f"
      "b_squad ?b = f_squad f" "b_born ?b = toApiDate (Some (f_born f))" "b_start ?b = toApiDate (Some (f_start f))"
      "b_until ?b = toApiDate (Some (f_until f))" "b_value ?b = v" "b_pct ?b = f_pct f"
    by (simp_all add: player_payload_def assms(4))
  have v: "\<not> (case v of None \<Rightarrow> False | Some n \<Rightarrow> n < 0)"
    using read_value_not_negative [of e "f_value f"] assms(4) by (auto split: option.split)
  have lists: "(case checkLists ?b of Some x \<Rightarrow> Some x | None \<Rightarrow> checkPercentages (f_pct f)) = None \<longleftrightarrow>
      checkLists ?b = None \<and> checkPercentages (f_pct f) = None"
    by (cases "checkLists ?b") simp_all
  show ?thesis
    unfolding validatePlayer_def scouting_ok_def player_errors_Nil fields
      day_after_sent [OF assms(1)] before_start_sent [OF assms(2,3)]
    using v lists assms(4) by auto
qed

text \<open>
  C6. The player form mirrors \<open>validatePlayer\<close> and leaves it exactly the foot, the lists and the percentages: with the
  same day as today, it sends a body that passes these three rules exactly when the market value can be read and the
  service accepts the body.
\<close>
theorem player_form_mirrors_service:
  assumes "blank_or_day (f_born f)" "blank_or_day (f_start f)" "blank_or_day (f_until f)"
  shows "(\<exists>b. player_build today e f = Inr b \<and> scouting_ok b) \<longleftrightarrow>
    (\<exists>v. read_value e (f_value f) = Inr v) \<and> validatePlayer today (player_payload e f) = None"
proof (cases "\<exists>v. read_value e (f_value f) = Inr v")
  case True
  then obtain v where "read_value e (f_value f) = Inr v" ..
  from service_accepts_player [OF assms this, of today] True show ?thesis by (auto simp: player_build_def)
qed (auto simp: player_build_def player_errors_Nil)

definition sample_player :: player_row where
  "sample_player =
     \<lparr>p_id = ''p1'', p_team = Some ''arsenal'', p_name = ''Bukayo Saka'', p_position = ''Right Winger'',
      p_first = Some ''Bukayo'', p_last = None, p_born = Some ''2001-09-05T00:00:00Z'',
      p_nations = [''England'', ''Nigeria''], p_others = [''Left-Back''], p_strengths = [''Reads the game''],
      p_weaknesses = [], p_pct = \<lparr>duels_won = Some 51, pass_completion = None, shots_on_target = None, aerial_duels_won = None\<rparr>,
      p_height = Some 178, p_foot = Some ''left'', p_agent = None, p_squad = Some 7, p_start = None, p_until = None,
      p_value = 13000000000, p_currency = ''EUR''\<rparr>"

definition blank_form :: player_form where
  "blank_form = \<lparr>f_name = [], f_position = [], f_team = None, f_value = [], f_first = [], f_last = [], f_born = [],
     f_nations = [], f_others = [], f_strengths = [], f_weaknesses = [],
     f_pct = \<lparr>duels_won = None, pass_completion = None, shots_on_target = None, aerial_duels_won = None\<rparr>,
     f_height = None, f_foot = [], f_agent = [], f_squad = None, f_start = [], f_until = []\<rparr>"

theorem player_form_mirrors_service_witness:
  "\<not> (\<exists>b. player_build ''2026-09-16'' True (blank_form\<lparr>f_name := ''Saka'', f_position := ''Winger'', f_squad := Some 100\<rparr>)
      = Inr b \<and> scouting_ok b)"
  using player_form_mirrors_service [of "blank_form\<lparr>f_name := ''Saka'', f_position := ''Winger'', f_squad := Some 100\<rparr>"
      "''2026-09-16''" True]
  by (simp add: blank_form_def blank_or_day_def validatePlayer_def player_payload_def outside_def)

text \<open>How the service stores a player: tidy text, days at midnight, no separator inside an item.\<close>

definition tidy_text :: "string option \<Rightarrow> bool" where
  "tidy_text v = (case v of None \<Rightarrow> True | Some s \<Rightarrow> s \<noteq> [] \<and> trim s = s)"

definition stored_day :: "string option \<Rightarrow> bool" where
  "stored_day v = (case v of None \<Rightarrow> True | Some s \<Rightarrow> day_text (take 10 s) \<and> s = take 10 s @ ''T00:00:00Z'')"

definition tidy_items :: "char \<Rightarrow> string list \<Rightarrow> bool" where
  "tidy_items c xs = list_all (\<lambda>x. x \<noteq> [] \<and> trim x = x \<and> c \<notin> set x) xs"

definition stored_player :: "player_row \<Rightarrow> bool" where
  "stored_player p \<longleftrightarrow>
     tidy_text (Some (p_name p)) \<and> tidy_text (Some (p_position p)) \<and> tidy_text (p_first p) \<and> tidy_text (p_last p)
     \<and> tidy_text (p_foot p) \<and> tidy_text (p_agent p)
     \<and> stored_day (p_born p) \<and> stored_day (p_start p) \<and> stored_day (p_until p)
     \<and> tidy_items (CHR '','') (p_nations p) \<and> tidy_items (CHR '','') (p_others p)
     \<and> tidy_items (CHR 0x0A) (p_strengths p) \<and> tidy_items (CHR 0x0A) (p_weaknesses p)"

definition body_of :: "player_row \<Rightarrow> player_body" where
  "body_of p =
     \<lparr>b_name = p_name p, b_position = p_position p, b_first = p_first p, b_last = p_last p, b_born = p_born p,
      b_nations = p_nations p, b_others = p_others p, b_strengths = p_strengths p, b_weaknesses = p_weaknesses p,
      b_pct = p_pct p, b_height = p_height p, b_foot = p_foot p, b_agent = p_agent p, b_squad = p_squad p,
      b_start = p_start p, b_until = p_until p, b_team = None, b_value = None\<rparr>"

lemma text_back: "tidy_text v \<Longrightarrow> blankToUndefined (or_empty v) = v"
  by (auto simp: tidy_text_def blankToUndefined_def or_empty_def split: option.splits)

lemma day_back: "stored_day v \<Longrightarrow> toApiDate (Some (toDateInput v)) = v \<and> blank_or_day (toDateInput v)"
proof (cases v)
  case (Some s)
  assume "stored_day v"
  with Some have d: "day_text (take 10 s)" and s: "s = take 10 s @ ''T00:00:00Z''" by (auto simp: stored_day_def)
  from day_api(1) [OF d] s have "toApiDate (Some (take 10 s)) = Some s" by metis
  with d Some show ?thesis by (simp add: toDateInput_def blank_or_day_def)
qed (simp add: toDateInput_def toApiDate_def blank_or_day_def)

lemma items_back:
  "tidy_items (CHR '','') xs \<Longrightarrow> splitList (join '', '' xs) = xs"
  "tidy_items (CHR 0x0A) ys \<Longrightarrow> splitLines (join [CHR 0x0A] ys) = ys"
  using split_join_blank [of "CHR '',''" xs "'' ''"] split_join_blank [of "CHR 0x0A" ys "[]"]
  by (simp_all add: split_list_tidy tidy_items_def)

lemma items_tidy: "tidy_items c xs \<Longrightarrow> tidyList xs = xs"
  by (rule tidy_tidied) (auto simp: tidy_items_def list_all_iff)

lemma payload_of_stored: "stored_player p \<Longrightarrow> player_payload True (player_fill p f) = body_of p"
proof -
  assume p: "stored_player p"
  then have "trim (p_name p) = p_name p" "trim (p_position p) = p_position p"
    by (simp_all add: stored_player_def tidy_text_def)
  with p show ?thesis
    by (simp add: player_payload_def player_fill_def body_of_def stored_player_def text_back day_back items_back
        read_value_def)
qed

lemma untouched_player:
  assumes "stored_player p" "validatePlayer today (body_of p) = None"
  shows "\<exists>b. player_build today True (player_fill p f) = Inr b \<and> updatePlayer today b p = Inr p"
proof -
  let ?f = "player_fill p f"
  have pay: "player_payload True ?f = body_of p" by (rule payload_of_stored [OF assms(1)])
  have days: "blank_or_day (f_born ?f)" "blank_or_day (f_start ?f)" "blank_or_day (f_until ?f)"
    using assms(1) day_back by (simp_all add: player_fill_def stored_player_def)
  have v: "read_value True (f_value ?f) = Inr None" by (simp add: read_value_def)
  have "player_errors today True ?f = []"
    using service_accepts_player [OF days v, of today] assms(2) by (simp add: pay)
  moreover have "tidyList (p_nations p) = p_nations p" "tidyList (p_others p) = p_others p"
      "tidyList (p_strengths p) = p_strengths p" "tidyList (p_weaknesses p) = p_weaknesses p"
    using assms(1) items_tidy by (auto simp: stored_player_def)
  ultimately show ?thesis
    using assms(2) by (simp add: player_build_def pay updatePlayer_def) (simp add: body_of_def)
qed

text \<open>
  Opening a stored player and saving at once changes nothing: the form finds no error, and the service, when it still
  accepts what it stored, writes the same player back.
\<close>
theorem untouched_player_edit:
  assumes "stored_player p" "validatePlayer today (body_of p) = None"
  shows "\<exists>b. player_build today True (player_fill p f) = Inr b \<and> updatePlayer today b p = Inr p"
  using assms by (rule untouched_player)

lemma sample_stored: "stored_player sample_player"
  by (simp add: sample_player_def stored_player_def tidy_text_def stored_day_def tidy_items_def day_text_def
      is_digit_def trim_def is_ws_def)

lemma sample_valid: "validatePlayer ''2026-09-16'' (body_of sample_player) = None"
  by (simp add: sample_player_def body_of_def validatePlayer_def validFoot_def outside_def day_after_def
      before_start_def checkLists_def checkAssessment_def checkPercentages_def tidyList_def trim_def is_ws_def
      equalFold_def)

theorem untouched_player_edit_witness:
  "\<exists>b. player_build ''2026-09-16'' True (player_fill sample_player blank_form) = Inr b
     \<and> updatePlayer ''2026-09-16'' b sample_player = Inr sample_player"
  using untouched_player_edit [OF sample_stored sample_valid] .

text \<open>
  An item that holds a comma does not survive the form, although the service stores it: a nationality written
  \<open>Korea, Republic\<close> is opened and saved as two.
\<close>
theorem comma_splits_nationality:
  "b_nations (player_payload True (player_fill (sample_player\<lparr>p_nations := [''Korea, Republic'']\<rparr>) f))
     = [''Korea'', ''Republic'']
   \<and> validatePlayer ''2026-09-16'' (body_of (sample_player\<lparr>p_nations := [''Korea, Republic'']\<rparr>)) = None"
  by (simp add: sample_player_def body_of_def validatePlayer_def validFoot_def outside_def day_after_def
      before_start_def checkLists_def checkAssessment_def checkPercentages_def tidyList_def trim_def is_ws_def
      equalFold_def player_payload_def player_fill_def splitList_def)

section \<open>Recording a valuation\<close>

record value_body =
  vb_player :: string
  vb_value :: int
  vb_on :: "string option"

definition value_errors :: "string \<Rightarrow> string \<Rightarrow> string \<Rightarrow> field_errors" where
  "value_errors today typed valued_on =
     (case parseMoney (Some typed) of
        Inl e \<Rightarrow> [(''value_minor'', money_message e)]
      | Inr None \<Rightarrow> [(''value_minor'', ''A value is required.'')]
      | Inr (Some _) \<Rightarrow> [])
     @ (if valued_on = [] then [(''valued_on'', ''A date is required.'')]
        else err_if (\<not> str_le valued_on today) ''valued_on'' ''Cannot be in the future.'')"

definition value_build :: "string \<Rightarrow> string \<Rightarrow> string \<Rightarrow> string \<Rightarrow> field_errors + value_body" where
  "value_build today pid typed valued_on =
     (case parseMoney (Some typed) of
        Inr (Some minor) \<Rightarrow>
          if value_errors today typed valued_on \<noteq> [] then Inl (value_errors today typed valued_on)
          else Inr \<lparr>vb_player = pid, vb_value = minor, vb_on = toApiDate (Some valued_on)\<rparr>
      | _ \<Rightarrow> Inl (value_errors today typed valued_on))"

definition value_save :: "string \<Rightarrow> string \<Rightarrow> string \<Rightarrow> string \<Rightarrow> submit \<Rightarrow> submit \<times> value_body option" where
  "value_save today pid typed valued_on s = begin_save (value_build today pid typed valued_on) s"

text \<open>
  A valuation states a number and a day: whatever leaves the form carries a non-negative exact amount and a day that is
  not after today, and a blank amount never leaves it.
\<close>
theorem valuation_states_a_number:
  assumes "blank_or_day valued_on" "value_save today pid typed valued_on s = (s', Some b)"
  shows "0 \<le> vb_value b \<and> parseMoney (Some typed) = Inr (Some (vb_value b))
    \<and> vb_on b = Some (valued_on @ ''T00:00:00Z'') \<and> str_le valued_on today \<and> busy s' \<and> money_text typed \<noteq> []"
proof -
  obtain minor where m: "parseMoney (Some typed) = Inr (Some minor)"
      and e: "value_errors today typed valued_on = []"
      and b: "b = \<lparr>vb_player = pid, vb_value = minor, vb_on = toApiDate (Some valued_on)\<rparr>" and s: "busy s'"
    using assms(2)
    by (auto simp: value_save_def begin_save_def value_build_def split: if_split_asm sum.split_asm option.split_asm)
  have d: "valued_on \<noteq> []" "str_le valued_on today" using e by (auto simp: value_errors_def split: if_split_asm)
  have "money_text typed \<noteq> []" using m by (auto simp: parseMoney_def)
  with parsed_money_not_negative [OF m] m b s d sent_day [OF assms(1)] show ?thesis by simp
qed

theorem valuation_states_a_number_witness:
  "\<exists>s' b. value_save ''2026-09-16'' ''p1'' ''0.07'' ''2026-01-31'' idle = (s', Some b) \<and> 0 \<le> vb_value b"
proof -
  have m: "parseMoney (Some ''0.07'') = Inr (Some 7)"
    using money_back [of 7]
    by (simp add: MAX_SAFE_def formatMoneyInput_def nat_to_string.simps digit_char_def padStart_def char_of_def
        bit_iff_odd)
  have d: "blank_or_day ''2026-01-31''" by (simp add: blank_or_day_def day_text_def is_digit_def)
  obtain s' b where sent: "value_save ''2026-09-16'' ''p1'' ''0.07'' ''2026-01-31'' idle = (s', Some b)"
    by (simp add: value_save_def begin_save_def value_build_def m value_errors_def idle_def)
  with valuation_states_a_number [OF d sent] show ?thesis by blast
qed

end
