(* ===== verification/Player_Notes.thy ===== *)
theory Player_Notes
  imports Football_Forms
begin

text \<open>
  The members' notes on a player: the widget (\<open>features/players/player-notes.ts\<close>) and the service that keeps them
  (\<open>player_note_service.go\<close> under \<open>src/apps/football-svc\<close>), where each member has at most one note per player.
  A request is an operation that may send something and another that takes its answer.
\<close>

section \<open>The widget\<close>

record player_note =
  n_id :: string
  n_player :: string
  n_author :: string
  n_name :: string
  n_body :: string
  n_created :: nat
  n_updated :: nat

definition MAX_NOTE_LENGTH :: nat where "MAX_NOTE_LENGTH = 4000"

text \<open>\<open>listed\<close> and \<open>own\<close> are the values of the two resources, \<open>reloads\<close> counts how often both were asked again.\<close>

record note_panel =
  draft :: string
  edit_draft :: string
  editing_id :: "string option"
  n_busy :: bool
  n_error :: "string option"
  confirming_delete :: bool
  pending_delete :: "player_note option"
  listed :: "player_note list"
  own :: "player_note option"
  reloads :: nat

definition ordered :: "note_panel \<Rightarrow> player_note list" where
  "ordered w =
     (case own w of
        None \<Rightarrow> listed w
      | Some mine \<Rightarrow> mine # filter (\<lambda>note. n_id note \<noteq> n_id mine) (listed w))"

definition total_label :: "note_panel \<Rightarrow> string" where
  "total_label w =
     (if length (ordered w) = 1 then ''1 note'' else nat_to_string (length (ordered w)) @ '' notes'')"

definition remaining :: "string \<Rightarrow> int" where
  "remaining txt = int MAX_NOTE_LENGTH - int (length txt)"

definition valid_note :: "string \<Rightarrow> bool" where
  "valid_note txt \<longleftrightarrow> length (trim txt) > 0 \<and> remaining txt \<ge> 0"

definition isMine :: "string option \<Rightarrow> player_note \<Rightarrow> bool" where
  "isMine me note \<longleftrightarrow> me = Some (n_author note)"

definition deleteTitle :: "string option \<Rightarrow> note_panel \<Rightarrow> string" where
  "deleteTitle me w =
     (case pending_delete w of
        None \<Rightarrow> ''Delete your note?''
      | Some note \<Rightarrow> if isMine me note then ''Delete your note?'' else ''Remove this note?'')"

definition deleteMessage :: "string option \<Rightarrow> note_panel \<Rightarrow> string" where
  "deleteMessage me w =
     (case pending_delete w of
        None \<Rightarrow> []
      | Some note \<Rightarrow>
          if \<not> isMine me note
          then (if n_name note = [] then ''This member'' else n_name note)
            @ '''s note will be removed. This cannot be undone.''
          else ''Your note will be removed from this player. You can write a new one afterwards.'')"

definition startEdit :: "player_note \<Rightarrow> note_panel \<Rightarrow> note_panel" where
  "startEdit note w = w\<lparr>edit_draft := n_body note, editing_id := Some (n_id note), n_error := None\<rparr>"

definition cancelEdit :: "note_panel \<Rightarrow> note_panel" where
  "cancelEdit w = w\<lparr>editing_id := None, edit_draft := []\<rparr>"

definition refresh_notes :: "note_panel \<Rightarrow> note_panel" where
  "refresh_notes w = w\<lparr>reloads := reloads w + 1\<rparr>"

text \<open>\<open>post\<close> and \<open>saveEdit\<close>: up to the request, with the text it carries, and after its answer.\<close>

definition begin_write :: "string \<Rightarrow> note_panel \<Rightarrow> note_panel \<times> string option" where
  "begin_write txt w =
     (if n_busy w \<or> \<not> valid_note txt then (w, None) else (w\<lparr>n_busy := True, n_error := None\<rparr>, Some txt))"

definition post :: "note_panel \<Rightarrow> note_panel \<times> string option" where
  "post w = begin_write (draft w) w"

definition post_settled :: "save_answer \<Rightarrow> note_panel \<Rightarrow> note_panel" where
  "post_settled a w =
     (case a of
        Saved \<Rightarrow> (refresh_notes (w\<lparr>draft := []\<rparr>))\<lparr>n_busy := False\<rparr>
      | Refused error \<Rightarrow> w\<lparr>n_error := Some (messageFor error ''Could not post your note.''), n_busy := False\<rparr>)"

definition saveEdit :: "note_panel \<Rightarrow> note_panel \<times> string option" where
  "saveEdit w = begin_write (edit_draft w) w"

definition edit_settled :: "save_answer \<Rightarrow> note_panel \<Rightarrow> note_panel" where
  "edit_settled a w =
     (case a of
        Saved \<Rightarrow> (refresh_notes (cancelEdit w))\<lparr>n_busy := False\<rparr>
      | Refused error \<Rightarrow> w\<lparr>n_error := Some (messageFor error ''Could not save your note.''), n_busy := False\<rparr>)"

definition askDelete :: "player_note \<Rightarrow> note_panel \<Rightarrow> note_panel" where
  "askDelete note w = w\<lparr>pending_delete := Some note, confirming_delete := True\<rparr>"

text \<open>\<open>confirmDelete\<close>: the note it asks the service to remove, and what its answer does.\<close>

definition confirmDelete :: "note_panel \<Rightarrow> note_panel \<times> player_note option" where
  "confirmDelete w =
     (case pending_delete w of None \<Rightarrow> (w, None) | Some note \<Rightarrow> (w\<lparr>n_error := None\<rparr>, Some note))"

definition delete_settled :: "string option \<Rightarrow> player_note \<Rightarrow> save_answer \<Rightarrow> note_panel \<Rightarrow> note_panel" where
  "delete_settled me note a w =
     (case a of
        Saved \<Rightarrow> refresh_notes (cancelEdit (if isMine me note then w\<lparr>draft := []\<rparr> else w))
      | Refused error \<Rightarrow> w\<lparr>n_error := Some (messageFor error ''Could not delete that note.'')\<rparr>)
     \<lparr>pending_delete := None\<rparr>"

text \<open>
  The list shows every note once, your own first: with ids that differ, no id appears twice, nothing listed is left
  out, and the own note leads wherever the page put it.
\<close>
theorem own_note_leads:
  assumes "distinct (map n_id (listed w))"
  shows "distinct (map n_id (ordered w))
    \<and> n_id ` set (ordered w) = n_id ` set (listed w) \<union> n_id ` set_option (own w)
    \<and> (\<forall>mine. own w = Some mine \<longrightarrow> hd (ordered w) = mine)"
  using assms by (cases "own w") (auto simp: ordered_def distinct_map_filter)

definition note_of :: "string \<Rightarrow> string \<Rightarrow> nat \<Rightarrow> player_note" where
  "note_of i author k =
     \<lparr>n_id = i, n_player = ''saka'', n_author = author, n_name = author, n_body = ''Quick.'', n_created = k, n_updated = k\<rparr>"

definition empty_notes :: note_panel where
  "empty_notes = \<lparr>draft = [], edit_draft = [], editing_id = None, n_busy = False, n_error = None,
     confirming_delete = False, pending_delete = None, listed = [], own = None, reloads = 0\<rparr>"

theorem own_note_leads_witness:
  "map n_id (ordered (empty_notes\<lparr>listed := [note_of ''b'' ''ann'' 2, note_of ''a'' ''me'' 1], own := Some (note_of ''a'' ''me'' 1)\<rparr>))
     = [''a'', ''b'']
   \<and> distinct (map n_id (ordered (empty_notes\<lparr>listed := [note_of ''b'' ''ann'' 2, note_of ''a'' ''me'' 1],
        own := Some (note_of ''a'' ''me'' 1)\<rparr>)))"
  using own_note_leads [of "empty_notes\<lparr>listed := [note_of ''b'' ''ann'' 2, note_of ''a'' ''me'' 1],
        own := Some (note_of ''a'' ''me'' 1)\<rparr>"]
  by (simp add: ordered_def note_of_def empty_notes_def)

section \<open>The service\<close>

text \<open>
  \<open>write_note\<close>, \<open>edit_note\<close> and \<open>delete_note\<close> are \<open>Write\<close>, \<open>Edit\<close> and \<open>Delete\<close> over the rows of the table, with the
  unique constraint on player and author; \<open>caller\<close> is the user and whether it is an administrator.
\<close>

datatype note_refusal = EmptyNote | LongNote | AlreadyWritten | NoSuchNote | NotAllowed

record caller =
  c_user :: string
  c_name :: string
  c_admin :: bool

definition validateNoteBody :: "string \<Rightarrow> note_refusal + string" where
  "validateNoteBody body =
     (if trim body = [] then Inl EmptyNote
      else if length (trim body) > 4000 then Inl LongNote else Inr (trim body))"

definition write_note :: "caller \<Rightarrow> string \<Rightarrow> string \<Rightarrow> string \<Rightarrow> nat \<Rightarrow> player_note list \<Rightarrow> note_refusal + player_note list" where
  "write_note c pid body fresh now rows =
     (case validateNoteBody body of
        Inl e \<Rightarrow> Inl e
      | Inr txt \<Rightarrow>
          if list_ex (\<lambda>row. n_player row = pid \<and> n_author row = c_user c) rows then Inl AlreadyWritten
          else Inr (rows @ [\<lparr>n_id = fresh, n_player = pid, n_author = c_user c, n_name = c_name c, n_body = txt,
                             n_created = now, n_updated = now\<rparr>]))"

definition may_touch :: "caller \<Rightarrow> player_note \<Rightarrow> bool" where
  "may_touch c row \<longleftrightarrow> c_user c = n_author row \<or> c_admin c"

definition edit_note :: "caller \<Rightarrow> string \<Rightarrow> string \<Rightarrow> nat \<Rightarrow> player_note list \<Rightarrow> note_refusal + player_note list" where
  "edit_note c i body now rows =
     (case find (\<lambda>row. n_id row = i) rows of
        None \<Rightarrow> Inl NoSuchNote
      | Some row \<Rightarrow>
          if \<not> may_touch c row then Inl NotAllowed
          else case validateNoteBody body of
            Inl e \<Rightarrow> Inl e
          | Inr txt \<Rightarrow> Inr (map (\<lambda>r. if n_id r = i then r\<lparr>n_body := txt, n_updated := now\<rparr> else r) rows))"

definition delete_note :: "caller \<Rightarrow> string \<Rightarrow> player_note list \<Rightarrow> note_refusal + player_note list" where
  "delete_note c i rows =
     (case find (\<lambda>row. n_id row = i) rows of
        None \<Rightarrow> Inl NoSuchNote
      | Some row \<Rightarrow> if \<not> may_touch c row then Inl NotAllowed else Inr (filter (\<lambda>r. n_id r \<noteq> i) rows))"

text \<open>One request to the service, by anyone, at any time; ids are fresh.\<close>

inductive note_step :: "caller \<Rightarrow> player_note list \<Rightarrow> player_note list \<Rightarrow> bool" where
  wrote: "fresh \<notin> n_id ` set rows \<Longrightarrow> write_note c pid body fresh now rows = Inr rows' \<Longrightarrow> note_step c rows rows'"
| edited: "edit_note c i body now rows = Inr rows' \<Longrightarrow> note_step c rows rows'"
| deleted: "delete_note c i rows = Inr rows' \<Longrightarrow> note_step c rows rows'"

inductive notes_reachable :: "player_note list \<Rightarrow> bool" where
  none_yet: "notes_reachable []"
| after: "notes_reachable rows \<Longrightarrow> note_step c rows rows' \<Longrightarrow> notes_reachable rows'"

definition notes_inv :: "player_note list \<Rightarrow> bool" where
  "notes_inv rows \<longleftrightarrow> distinct (map n_id rows) \<and> distinct (map (\<lambda>r. (n_player r, n_author r)) rows)
     \<and> list_all (\<lambda>r. n_body r \<noteq> [] \<and> trim (n_body r) = n_body r \<and> length (n_body r) \<le> MAX_NOTE_LENGTH) rows"

lemma validateNoteBody_Inr:
  "validateNoteBody body = Inr txt \<longleftrightarrow> txt = trim body \<and> trim body \<noteq> [] \<and> length (trim body) \<le> MAX_NOTE_LENGTH"
  by (auto simp: validateNoteBody_def MAX_NOTE_LENGTH_def)

lemma note_body_cases:
  obtains (good) "validateNoteBody body = Inr (trim body)" | (bad) e where "validateNoteBody body = Inl e"
  unfolding validateNoteBody_def by (cases "trim body = []"; cases "length (trim body) > 4000") auto

lemma write_note_Inr:
  "write_note c pid body fresh now rows = Inr rows' \<longleftrightarrow>
     validateNoteBody body = Inr (trim body) \<and> (\<forall>r\<in>set rows. \<not> (n_player r = pid \<and> n_author r = c_user c))
     \<and> rows' = rows @ [\<lparr>n_id = fresh, n_player = pid, n_author = c_user c, n_name = c_name c, n_body = trim body,
                        n_created = now, n_updated = now\<rparr>]"
  by (cases body rule: note_body_cases) (auto simp: write_note_def list_ex_iff split: if_splits)

lemma edit_note_Inr:
  "edit_note c i body now rows = Inr rows' \<longleftrightarrow>
     (\<exists>row. find (\<lambda>r. n_id r = i) rows = Some row \<and> may_touch c row) \<and> validateNoteBody body = Inr (trim body)
     \<and> rows' = map (\<lambda>r. if n_id r = i then r\<lparr>n_body := trim body, n_updated := now\<rparr> else r) rows"
  by (cases body rule: note_body_cases) (auto simp: edit_note_def split: option.split if_splits)

lemma delete_note_Inr:
  "delete_note c i rows = Inr rows' \<longleftrightarrow>
     (\<exists>row. find (\<lambda>r. n_id r = i) rows = Some row \<and> may_touch c row) \<and> rows' = filter (\<lambda>r. n_id r \<noteq> i) rows"
  by (auto simp: delete_note_def split: option.split if_splits)

lemma notes_inv_step: "note_step c rows rows' \<Longrightarrow> notes_inv rows \<Longrightarrow> notes_inv rows'"
proof (induction rule: note_step.induct)
  case (wrote fresh rows c pid body now rows')
  then show ?case by (auto simp: write_note_Inr notes_inv_def validateNoteBody_Inr)
next
  case (edited c i body now rows rows')
  then have r: "rows' = map (\<lambda>r. if n_id r = i then r\<lparr>n_body := trim body, n_updated := now\<rparr> else r) rows"
    and v: "validateNoteBody body = Inr (trim body)" by (simp_all add: edit_note_Inr)
  have keys: "map n_id rows' = map n_id rows"
    "map (\<lambda>r. (n_player r, n_author r)) rows' = map (\<lambda>r. (n_player r, n_author r)) rows"
    by (simp_all add: r)
  have "list_all (\<lambda>r. n_body r \<noteq> [] \<and> trim (n_body r) = n_body r \<and> length (n_body r) \<le> MAX_NOTE_LENGTH) rows'"
    using edited(2) v by (auto simp: notes_inv_def r list_all_iff validateNoteBody_Inr)
  with edited(2) show ?case unfolding notes_inv_def keys by blast
next
  case (deleted c i rows rows')
  then have r: "rows' = filter (\<lambda>r. n_id r \<noteq> i) rows" by (simp add: delete_note_Inr)
  with deleted(2) show ?case by (auto simp: notes_inv_def distinct_map_filter list_all_iff)
qed

text \<open>
  Each member has at most one note on a player, whatever was written, edited and deleted by anyone; and every stored
  note is trimmed, not empty and within the limit.
\<close>
theorem one_note_each:
  assumes "notes_reachable rows"
  shows "distinct (map (\<lambda>r. (n_player r, n_author r)) rows) \<and> distinct (map n_id rows)
    \<and> list_all (\<lambda>r. n_body r \<noteq> [] \<and> trim (n_body r) = n_body r \<and> length (n_body r) \<le> MAX_NOTE_LENGTH) rows"
proof -
  from assms have "notes_inv rows"
  proof (induction rule: notes_reachable.induct)
    case none_yet
    show ?case by (simp add: notes_inv_def)
  qed (rule notes_inv_step)
  then show ?thesis by (simp add: notes_inv_def)
qed

lemma one_row: "notes_reachable [\<lparr>n_id = ''a'', n_player = ''saka'', n_author = ''u1'', n_name = ''ann'', n_body = ''Quick.'',
    n_created = 1, n_updated = 1\<rparr>]"
proof (rule notes_reachable.after [OF notes_reachable.none_yet note_step.wrote])
  show "''a'' \<notin> n_id ` set []" by simp
  show "write_note \<lparr>c_user = ''u1'', c_name = ''ann'', c_admin = False\<rparr> ''saka'' ''Quick.'' ''a'' 1 [] =
      Inr [\<lparr>n_id = ''a'', n_player = ''saka'', n_author = ''u1'', n_name = ''ann'', n_body = ''Quick.'',
        n_created = 1, n_updated = 1\<rparr>]"
    by (simp add: write_note_Inr validateNoteBody_def trim_def is_ws_def)
qed

theorem one_note_each_witness:
  "list_all (\<lambda>r. n_body r \<noteq> []) [\<lparr>n_id = ''a'', n_player = ''saka'', n_author = ''u1'', n_name = ''ann'', n_body = ''Quick.'',
    n_created = 1, n_updated = 1\<rparr>]"
  using one_note_each [OF one_row] by simp

lemma found_row:
  "find (\<lambda>r. n_id r = i) rows = Some row \<Longrightarrow> distinct (map n_id rows) \<Longrightarrow> r \<in> set rows \<Longrightarrow> n_id r = i \<Longrightarrow> r = row"
  by (auto simp: find_Some_iff distinct_conv_nth in_set_conv_nth)

lemma filter_map_others:
  "(\<And>x. x \<in> set xs \<Longrightarrow> f x = x \<or> \<not> P x \<and> \<not> P (f x)) \<Longrightarrow> filter P (map f xs) = filter P xs"
proof (induction xs)
  case (Cons x xs)
  from Cons.IH Cons.prems have "filter P (map f xs) = filter P xs" by simp
  with Cons.prems [of x] show ?case by auto
qed simp

text \<open>
  C19. Nobody but its author or an administrator changes a note: one request of anyone else leaves the notes of all other
  members as they were, in order, and what it adds is its own.
\<close>
theorem others_keep_their_notes:
  assumes "distinct (map n_id rows)" "note_step c rows rows'" "\<not> c_admin c"
  shows "filter (\<lambda>r. n_author r \<noteq> c_user c) rows' = filter (\<lambda>r. n_author r \<noteq> c_user c) rows"
  using assms(2)
proof (cases rule: note_step.cases)
  case (wrote fresh pid body now)
  then show ?thesis by (auto simp: write_note_Inr)
next
  case (edited i body now)
  then obtain row where row: "find (\<lambda>r. n_id r = i) rows = Some row" "n_author row = c_user c"
      and r: "rows' = map (\<lambda>r. if n_id r = i then r\<lparr>n_body := trim body, n_updated := now\<rparr> else r) rows"
    using assms(3) by (auto simp: edit_note_Inr may_touch_def)
  have "n_author r = c_user c" if "r \<in> set rows" "n_id r = i" for r
    using found_row [OF row(1) assms(1) that] row(2) by simp
  then show ?thesis unfolding r by (intro filter_map_others) auto
next
  case (deleted i)
  then obtain row where row: "find (\<lambda>r. n_id r = i) rows = Some row" "n_author row = c_user c"
      and r: "rows' = filter (\<lambda>r. n_id r \<noteq> i) rows"
    using assms(3) by (auto simp: delete_note_Inr may_touch_def)
  have "n_id r \<noteq> i" if "r \<in> set rows" "n_author r \<noteq> c_user c" for r
    using found_row [OF row(1) assms(1) that(1)] row(2) that(2) by auto
  then show ?thesis unfolding r by (auto intro: filter_cong)
qed

theorem others_keep_their_notes_witness:
  "filter (\<lambda>r. n_author r \<noteq> ''me'') [note_of ''b'' ''ann'' 2] =
     filter (\<lambda>r. n_author r \<noteq> ''me'') [note_of ''b'' ''ann'' 2, note_of ''a'' ''me'' 1]"
proof -
  let ?c = "\<lparr>c_user = ''me'', c_name = ''me'', c_admin = False\<rparr>"
  have "delete_note ?c ''a'' [note_of ''b'' ''ann'' 2, note_of ''a'' ''me'' 1] = Inr [note_of ''b'' ''ann'' 2]"
    by (simp add: delete_note_def note_of_def may_touch_def)
  from others_keep_their_notes [OF _ note_step.deleted [OF this]] show ?thesis by (simp add: note_of_def)
qed

text \<open>
  What the composer lets out the service takes: a text the button allows is stored trimmed, unless the member already
  has a note; a refused post leaves the text in the box and says why, an accepted one empties it and asks for the list
  again.
\<close>
theorem composer_meets_the_service:
  assumes "post w = (w', Some txt)"
    and "messageFor e ''Could not post your note.'' \<noteq> []"
  shows "txt = draft w \<and> n_busy w'
    \<and> write_note c pid txt fresh now rows =
        (if \<exists>r\<in>set rows. n_player r = pid \<and> n_author r = c_user c then Inl AlreadyWritten
         else Inr (rows @ [\<lparr>n_id = fresh, n_player = pid, n_author = c_user c, n_name = c_name c, n_body = trim txt,
                             n_created = now, n_updated = now\<rparr>]))
    \<and> draft (post_settled (Refused e) w') = draft w \<and> (\<exists>m. n_error (post_settled (Refused e) w') = Some m \<and> m \<noteq> [])
    \<and> draft (post_settled Saved w') = [] \<and> reloads (post_settled Saved w') = reloads w + 1"
proof -
  have v: "valid_note txt" "txt = draft w" and w': "w' = w\<lparr>n_busy := True, n_error := None\<rparr>"
    using assms(1) by (auto simp: post_def begin_write_def split: if_split_asm)
  have "length (trim txt) \<le> length txt"
    unfolding trim_def by (metis (no_types) length_rev length_dropWhile_le le_trans)
  then have "validateNoteBody txt = Inr (trim txt)"
    using v(1) by (auto simp: validateNoteBody_Inr valid_note_def remaining_def)
  with v(2) w' assms(2) show ?thesis
    by (auto simp: write_note_def post_settled_def refresh_notes_def list_ex_iff)
qed

theorem composer_meets_the_service_witness:
  "write_note \<lparr>c_user = ''u1'', c_name = ''ann'', c_admin = False\<rparr> ''saka'' '' Quick. '' ''a'' 1 []
     = Inr [\<lparr>n_id = ''a'', n_player = ''saka'', n_author = ''u1'', n_name = ''ann'', n_body = ''Quick.'',
             n_created = 1, n_updated = 1\<rparr>]"
proof -
  have t: "trim '' Quick. '' = ''Quick.''" by (simp add: trim_def is_ws_def)
  obtain w' where "post (empty_notes\<lparr>draft := '' Quick. ''\<rparr>) = (w', Some '' Quick. '')"
    by (simp add: post_def begin_write_def empty_notes_def valid_note_def t remaining_def MAX_NOTE_LENGTH_def)
  from composer_meets_the_service [OF this, of CaughtOther "\<lparr>c_user = ''u1'', c_name = ''ann'', c_admin = False\<rparr>" _ _ _ "[]"]
  show ?thesis by (simp add: messageFor_def t)
qed

text \<open>
  An administrator who is rewriting the own note and removes somebody else's loses what was typed: the answer of the
  removal closes the open editor, whichever note it belongs to.
\<close>
theorem removal_closes_other_editor:
  "edit_draft (delete_settled me victim Saved (w\<lparr>editing_id := Some i, edit_draft := typed\<rparr>)) = []
   \<and> editing_id (delete_settled me victim Saved (w\<lparr>editing_id := Some i, edit_draft := typed\<rparr>)) = None"
  by (simp add: delete_settled_def cancelEdit_def refresh_notes_def)

end
