(* ===== verification/Admin_Forms.thy ===== *)
theory Admin_Forms
  imports Football_Forms
begin

text \<open>
  The other forms of the football data: clubs, competitions, coaches, appointments and season entries
  (\<open>features/clubs/club-form.ts\<close>, \<open>season-entry-form.ts\<close>, \<open>features/competitions/competition-form.ts\<close>,
  \<open>features/coaches/coach-form.ts\<close>, \<open>spell-form.ts\<close>) and the rules and updates of the service behind them.  What an edit
  form owes the stored row is the locale \<open>edit_form\<close>.
\<close>

section \<open>What an edit form promises\<close>

text \<open>
  A row the service stored, opened in its form and sent back untouched, is accepted and stored as it was.
\<close>

locale edit_form =
  fixes stored :: "'r \<Rightarrow> bool"
    and fill_form :: "'r \<Rightarrow> 'f"
    and build :: "'f \<Rightarrow> field_errors + 'b"
    and update :: "'b \<Rightarrow> 'r \<Rightarrow> string + 'r"
  assumes refilled: "stored r \<Longrightarrow> \<exists>b. build (fill_form r) = Inr b \<and> update b r = Inr r"
begin

lemma untouched:
  assumes "stored r" "\<not> busy s"
  shows "\<exists>s' b. begin_save (build (fill_form r)) s = (s', Some b) \<and> busy s' \<and> errors s' = [] \<and> update b r = Inr r"
  using refilled [OF assms(1)] assms(2) by (auto simp: begin_save_def)

text \<open>Opening and saving any number of times is as harmless as once.\<close>

definition resave :: "'r \<Rightarrow> 'r" where
  "resave r = (case build (fill_form r) of Inl _ \<Rightarrow> r | Inr b \<Rightarrow> (case update b r of Inl _ \<Rightarrow> r | Inr r' \<Rightarrow> r'))"

lemma resave_any_times: "stored r \<Longrightarrow> (resave ^^ n) r = r"
proof (induction n)
  case (Suc n)
  from refilled [OF Suc.prems] have "resave r = r" by (auto simp: resave_def)
  with Suc show ?case by simp
qed simp

end

section \<open>Clubs\<close>

record club_form =
  cf_name :: string
  cf_short :: string
  cf_league :: string
  cf_founded :: "real option"
  cf_stadium :: string
  cf_city :: string
  cf_country :: string
  cf_badge :: string

record club_body =
  cb_name :: string
  cb_short :: "string option"
  cb_league :: "string option"
  cb_founded :: "real option"
  cb_stadium :: "string option"
  cb_city :: "string option"
  cb_country :: "string option"
  cb_badge :: "string option"

record club_row =
  c_id :: string
  club :: club_body

definition club_errors :: "nat \<Rightarrow> club_form \<Rightarrow> field_errors" where
  "club_errors this_year f =
     err_if (trim (cf_name f) = []) ''name'' ''A name is required.''
     @ err_if (outside 1850 (real this_year) (cf_founded f)) ''founded_year''
         (''Between 1850 and '' @ nat_to_string this_year @ ''.'')"

definition club_payload :: "club_form \<Rightarrow> club_body" where
  "club_payload f =
     \<lparr>cb_name = trim (cf_name f), cb_short = blankToUndefined (cf_short f),
      cb_league = (if cf_league f = [] then None else Some (cf_league f)), cb_founded = cf_founded f,
      cb_stadium = blankToUndefined (cf_stadium f), cb_city = blankToUndefined (cf_city f),
      cb_country = blankToUndefined (cf_country f), cb_badge = blankToUndefined (cf_badge f)\<rparr>"

definition club_build :: "nat \<Rightarrow> club_form \<Rightarrow> field_errors + club_body" where
  "club_build this_year f =
     (if club_errors this_year f \<noteq> [] then Inl (club_errors this_year f) else Inr (club_payload f))"

definition club_fill :: "club_row \<Rightarrow> club_form" where
  "club_fill r =
     \<lparr>cf_name = cb_name (club r), cf_short = or_empty (cb_short (club r)), cf_league = or_empty (cb_league (club r)),
      cf_founded = cb_founded (club r), cf_stadium = or_empty (cb_stadium (club r)),
      cf_city = or_empty (cb_city (club r)), cf_country = or_empty (cb_country (club r)),
      cf_badge = or_empty (cb_badge (club r))\<rparr>"

definition club_save :: "nat \<Rightarrow> club_form \<Rightarrow> submit \<Rightarrow> submit \<times> club_body option" where
  "club_save this_year f s = begin_save (club_build this_year f) s"

definition club_cancel :: "string option \<Rightarrow> string" where
  "club_cancel cid = (if truthy cid then ''/clubs/'' @ or_empty cid else ''/clubs'')"

text \<open>\<open>validateTeam\<close> and \<open>UpdateTeam\<close>: only an administrator moves a club between competitions.\<close>

definition validateTeam :: "nat \<Rightarrow> club_body \<Rightarrow> string option" where
  "validateTeam this_year b =
     (if cb_name b = [] then Some ''name is required''
      else if outside 1850 (real this_year) (cb_founded b)
        then Some ''founded_year must be between 1850 and the current year''
      else None)"

definition updateTeam :: "nat \<Rightarrow> bool \<Rightarrow> club_body \<Rightarrow> club_row \<Rightarrow> string + club_row" where
  "updateTeam this_year is_admin b r =
     (case validateTeam this_year b of
        Some e \<Rightarrow> Inl e
      | None \<Rightarrow> Inr (r\<lparr>club := (if is_admin then b else b\<lparr>cb_league := cb_league (club r)\<rparr>)\<rparr>))"

definition stored_club :: "nat \<Rightarrow> club_row \<Rightarrow> bool" where
  "stored_club this_year r \<longleftrightarrow>
     tidy_text (Some (cb_name (club r))) \<and> tidy_text (cb_short (club r)) \<and> cb_league (club r) \<noteq> Some []
     \<and> tidy_text (cb_stadium (club r)) \<and> tidy_text (cb_city (club r)) \<and> tidy_text (cb_country (club r))
     \<and> tidy_text (cb_badge (club r)) \<and> validateTeam this_year (club r) = None"

lemma tidy_name: "tidy_text (Some s) \<Longrightarrow> trim s = s \<and> s \<noteq> []"
  by (simp add: tidy_text_def)

lemma club_refilled: "stored_club y r \<Longrightarrow> club_build y (club_fill r) = Inr (club r)"
proof -
  assume s: "stored_club y r"
  then have n: "trim (cb_name (club r)) = cb_name (club r)" "cb_name (club r) \<noteq> []"
    using tidy_name unfolding stored_club_def by blast+

  have oe: "or_empty None = []" "or_empty (Some l) = l" for l by (simp_all add: or_empty_def)
  have "club_errors y (club_fill r) = []"
    using s n by (simp add: club_errors_def club_fill_def stored_club_def validateTeam_def split: if_split_asm)
  moreover have "club_payload (club_fill r) = club r"
    using s by (cases "cb_league (club r)") (auto simp: club_payload_def club_fill_def stored_club_def text_back n oe)
  ultimately show ?thesis by (simp add: club_build_def)
qed

interpretation clubs: edit_form "stored_club y" club_fill "club_build y" "updateTeam y is_admin" for y is_admin
  by unfold_locales (auto simp: club_refilled updateTeam_def stored_club_def)

section \<open>Competitions\<close>

datatype competition_type = LeagueType | DomesticCup | InternationalCup | SuperCup

record competition_form =
  mf_name :: string
  mf_country :: string
  mf_type :: competition_type
  mf_tier :: "real option"

record competition_body =
  mb_name :: string
  mb_country :: string
  mb_type :: competition_type
  mb_tier :: "real option"

record competition_row =
  m_id :: string
  competition :: competition_body

definition below_one :: "real option \<Rightarrow> bool" where
  "below_one t = (case t of None \<Rightarrow> False | Some n \<Rightarrow> n < 1)"

definition competition_build :: "competition_form \<Rightarrow> field_errors + competition_body" where
  "competition_build f =
     (let errs = err_if (trim (mf_name f) = []) ''name'' ''A name is required.''
          @ err_if (trim (mf_country f) = []) ''country'' ''A country is required.''
          @ err_if (below_one (mf_tier f)) ''tier'' ''Must be 1 or greater.''
      in if errs \<noteq> [] then Inl errs
         else Inr \<lparr>mb_name = trim (mf_name f), mb_country = trim (mf_country f), mb_type = mf_type f,
                   mb_tier = (if mf_type f = LeagueType then mf_tier f else None)\<rparr>)"

definition competition_fill :: "competition_row \<Rightarrow> competition_form" where
  "competition_fill r =
     \<lparr>mf_name = mb_name (competition r), mf_country = mb_country (competition r), mf_type = mb_type (competition r),
      mf_tier = mb_tier (competition r)\<rparr>"

definition competition_save :: "competition_form \<Rightarrow> submit \<Rightarrow> submit \<times> competition_body option" where
  "competition_save f s = begin_save (competition_build f) s"

definition validateLeague :: "competition_body \<Rightarrow> string option" where
  "validateLeague b =
     (if mb_name b = [] \<or> mb_country b = [] then Some ''name and country are required''
      else if below_one (mb_tier b) then Some ''tier must be 1 or greater'' else None)"

definition updateLeague :: "competition_body \<Rightarrow> competition_row \<Rightarrow> string + competition_row" where
  "updateLeague b r = (case validateLeague b of Some e \<Rightarrow> Inl e | None \<Rightarrow> Inr (r\<lparr>competition := b\<rparr>))"

definition stored_competition :: "competition_row \<Rightarrow> bool" where
  "stored_competition r \<longleftrightarrow>
     tidy_text (Some (mb_name (competition r))) \<and> tidy_text (Some (mb_country (competition r)))
     \<and> \<not> below_one (mb_tier (competition r)) \<and> (mb_type (competition r) = LeagueType \<or> mb_tier (competition r) = None)"

lemma competition_refilled: "stored_competition r \<Longrightarrow> competition_build (competition_fill r) = Inr (competition r)"
  by (auto simp: competition_build_def competition_fill_def stored_competition_def tidy_text_def Let_def)

interpretation competitions: edit_form stored_competition competition_fill competition_build updateLeague
  by unfold_locales
    (auto simp: competition_refilled updateLeague_def validateLeague_def stored_competition_def tidy_text_def)

section \<open>Coaches\<close>

record coach_form =
  hf_name :: string
  hf_team :: "string option"
  hf_first :: string
  hf_last :: string
  hf_born :: string
  hf_nation :: string

record coach_body =
  hb_name :: string
  hb_first :: "string option"
  hb_last :: "string option"
  hb_born :: "string option"
  hb_nation :: "string option"
  hb_team :: "string option option"

text \<open>A stored coach has an end of contract, which the frontend does not know.\<close>

record coach_row =
  h_id :: string
  h_team :: "string option"
  h_name :: string
  h_first :: "string option"
  h_last :: "string option"
  h_born :: "string option"
  h_nation :: "string option"
  h_until :: "string option"

definition coach_build :: "bool \<Rightarrow> coach_form \<Rightarrow> field_errors + coach_body" where
  "coach_build is_edit f =
     (if trim (hf_name f) = [] then Inl [(''name'', ''A name is required.'')]
      else Inr \<lparr>hb_name = trim (hf_name f), hb_first = blankToUndefined (hf_first f),
                hb_last = blankToUndefined (hf_last f), hb_born = toApiDate (Some (hf_born f)),
                hb_nation = blankToUndefined (hf_nation f), hb_team = (if is_edit then None else Some (hf_team f))\<rparr>)"

definition coach_fill :: "coach_row \<Rightarrow> coach_form" where
  "coach_fill r =
     \<lparr>hf_name = h_name r, hf_team = None, hf_first = or_empty (h_first r), hf_last = or_empty (h_last r),
      hf_born = toDateInput (h_born r), hf_nation = or_empty (h_nation r)\<rparr>"

definition coach_save :: "bool \<Rightarrow> coach_form \<Rightarrow> submit \<Rightarrow> submit \<times> coach_body option" where
  "coach_save is_edit f s = begin_save (coach_build is_edit f) s"

text \<open>\<open>UpdateCoach\<close>: the club stays; every other column is written, the end of contract from a body that has none.\<close>

definition updateCoach :: "coach_body \<Rightarrow> coach_row \<Rightarrow> string + coach_row" where
  "updateCoach b r =
     (if hb_name b = [] then Inl ''name is required''
      else Inr (r\<lparr>h_name := hb_name b, h_first := hb_first b, h_last := hb_last b, h_born := hb_born b,
                  h_nation := hb_nation b, h_until := None\<rparr>))"

definition tidy_coach :: "coach_row \<Rightarrow> bool" where
  "tidy_coach r \<longleftrightarrow> tidy_text (Some (h_name r)) \<and> tidy_text (h_first r) \<and> tidy_text (h_last r) \<and> tidy_text (h_nation r)
     \<and> stored_day (h_born r)"

lemma coach_back:
  "tidy_coach r \<Longrightarrow> \<exists>b. coach_build True (coach_fill r) = Inr b \<and> updateCoach b r = Inr (r\<lparr>h_until := None\<rparr>)"
proof -
  assume r: "tidy_coach r"
  then have n: "trim (h_name r) = h_name r" "h_name r \<noteq> []" using tidy_name unfolding tidy_coach_def by blast+
  with r show ?thesis by (simp add: coach_build_def coach_fill_def updateCoach_def tidy_coach_def text_back day_back)
qed

interpretation coaches: edit_form "\<lambda>r. tidy_coach r \<and> h_until r = None" coach_fill "coach_build True" updateCoach
proof
  fix r :: coach_row
  assume r: "tidy_coach r \<and> h_until r = None"
  then have "r\<lparr>h_until := None\<rparr> = r" by simp
  with coach_back [of r] r show "\<exists>b. coach_build True (coach_fill r) = Inr b \<and> updateCoach b r = Inr r" by simp
qed

text \<open>
  Every edit of a coach erases the end of the contract: the service writes that column from the body, and the form,
  which does not know the field, never sends it.
\<close>
theorem coach_edit_drops_contract:
  assumes "begin_save (coach_build True f) s = (s', Some b)" "updateCoach b r = Inr r'"
  shows "h_until r' = None \<and> h_team r' = h_team r"
  using assms by (auto simp: updateCoach_def split: if_split_asm)

definition sample_coach :: coach_row where
  "sample_coach = \<lparr>h_id = ''c1'', h_team = Some ''arsenal'', h_name = ''Mikel Arteta'', h_first = None, h_last = None,
     h_born = Some ''1982-03-26T00:00:00Z'', h_nation = Some ''Spain'', h_until = Some ''2027-06-30T00:00:00Z''\<rparr>"

lemma sample_coach_tidy: "tidy_coach sample_coach"
  by (simp add: sample_coach_def tidy_coach_def tidy_text_def stored_day_def day_text_def is_digit_def trim_def is_ws_def)

theorem coach_edit_drops_contract_witness:
  "\<exists>s' b r'. begin_save (coach_build True (coach_fill sample_coach)) idle = (s', Some b)
     \<and> updateCoach b sample_coach = Inr r' \<and> h_until r' = None \<and> h_until sample_coach \<noteq> None"
proof -
  from coach_back [OF sample_coach_tidy] obtain b where b: "coach_build True (coach_fill sample_coach) = Inr b"
    "updateCoach b sample_coach = Inr (sample_coach\<lparr>h_until := None\<rparr>)" by blast
  obtain s' where s: "begin_save (coach_build True (coach_fill sample_coach)) idle = (s', Some b)"
    by (simp add: b(1) begin_save_def idle_def)
  from coach_edit_drops_contract [OF s b(2)] s b(2) show ?thesis by (auto simp: sample_coach_def)
qed

section \<open>Players, as an edit form\<close>

definition accepted_player :: "string \<Rightarrow> player_row \<Rightarrow> bool" where
  "accepted_player today p \<longleftrightarrow> stored_player p \<and> validatePlayer today (body_of p) = None"

interpretation players: edit_form "accepted_player today" "\<lambda>p. player_fill p f" "player_build today True"
    "updatePlayer today" for today f
  by unfold_locales (auto simp: accepted_player_def intro: untouched_player)


definition sample_club :: club_row where
  "sample_club = \<lparr>c_id = ''t1'', club = \<lparr>cb_name = ''Arsenal'', cb_short = Some ''ARS'', cb_league = Some ''epl'',
     cb_founded = Some 1886, cb_stadium = None, cb_city = Some ''London'', cb_country = None, cb_badge = None\<rparr>\<rparr>"


text \<open>A competition that is a cup and has a tier loses it on the way, untouched as it is.\<close>
theorem cup_loses_its_tier:
  assumes "tidy_text (Some (mb_name (competition r)))" "tidy_text (Some (mb_country (competition r)))"
    and "mb_type (competition r) \<noteq> LeagueType" "mb_tier (competition r) = Some n" "1 \<le> n"
  shows "\<exists>b. competition_build (competition_fill r) = Inr b
    \<and> updateLeague b r = Inr (r\<lparr>competition := (competition r)\<lparr>mb_tier := None\<rparr>\<rparr>)"
  using assms
  by (auto simp: competition_build_def competition_fill_def tidy_text_def Let_def updateLeague_def validateLeague_def
      below_one_def)

theorem cup_loses_its_tier_witness:
  "\<exists>b. competition_build (competition_fill \<lparr>m_id = ''m'', competition =
       \<lparr>mb_name = ''Cup'', mb_country = ''England'', mb_type = DomesticCup, mb_tier = Some 1\<rparr>\<rparr>) = Inr b \<and> mb_tier b = None"
  using cup_loses_its_tier [of "\<lparr>m_id = ''m'', competition =
       \<lparr>mb_name = ''Cup'', mb_country = ''England'', mb_type = DomesticCup, mb_tier = Some 1\<rparr>\<rparr>" 1]
  by (auto simp: tidy_text_def trim_def is_ws_def updateLeague_def validateLeague_def below_one_def split: if_split_asm)

section \<open>Appointments and season entries\<close>

datatype spell_role = HeadCoach | AssistantCoach | InterimCoach | Caretaker | DirectorOfFootball | YouthCoach

record spell_form =
  sf_team :: "string option"
  sf_role :: spell_role
  sf_start :: string
  sf_end :: string

record spell_body =
  sb_coach :: string
  sb_team :: "string option"
  sb_role :: spell_role
  sb_start :: "string option"
  sb_end :: "string option"

definition spell_errors :: "string \<Rightarrow> spell_form \<Rightarrow> field_errors" where
  "spell_errors latest f =
     (if sf_start f = [] then [(''start_date'', ''A start date is required.'')]
      else err_if (\<not> str_le (sf_start f) latest) ''start_date'' ''No more than a year ahead.'')
     @ err_if (sf_end f \<noteq> [] \<and> \<not> str_le (sf_start f) (sf_end f)) ''end_date'' ''Must be on or after the start.''"

definition spell_payload :: "string \<Rightarrow> spell_form \<Rightarrow> spell_body" where
  "spell_payload cid f =
     \<lparr>sb_coach = cid, sb_team = sf_team f, sb_role = sf_role f, sb_start = toApiDate (Some (sf_start f)),
      sb_end = toApiDate (Some (sf_end f))\<rparr>"

definition spell_build :: "string \<Rightarrow> string \<Rightarrow> spell_form \<Rightarrow> field_errors + spell_body" where
  "spell_build latest cid f =
     (if spell_errors latest f \<noteq> [] then Inl (spell_errors latest f) else Inr (spell_payload cid f))"

definition spell_save :: "string \<Rightarrow> string \<Rightarrow> spell_form \<Rightarrow> submit \<Rightarrow> submit \<times> spell_body option" where
  "spell_save latest cid f s = begin_save (spell_build latest cid f) s"

text \<open>\<open>RecordSpell\<close>, with the last day it takes.\<close>

definition validateSpell :: "string \<Rightarrow> spell_body \<Rightarrow> string option" where
  "validateSpell limit_day b =
     (if sb_coach b = [] then Some ''coach_id is required''
      else case sb_start b of
        None \<Rightarrow> Some ''start_date is required''
      | Some st \<Rightarrow>
          if before_start (Some st) (sb_end b) then Some ''end_date must be on or after start_date''
          else if day_after (Some st) limit_day then Some ''start_date cannot be more than a year in the future''
          else None)"

text \<open>
  The appointment form sends exactly what \<open>RecordSpell\<close>, held to the same last day, accepts.
\<close>
theorem spell_form_mirrors_service:
  assumes "cid \<noteq> []" "blank_or_day (sf_start f)" "blank_or_day (sf_end f)"
  shows "(\<exists>b. spell_build latest cid f = Inr b) \<longleftrightarrow> validateSpell latest (spell_payload cid f) = None"
proof (cases "sf_start f = []")
  case True
  then show ?thesis
    using sent_day [OF assms(2)] assms(1)
    by (simp add: spell_build_def spell_errors_def validateSpell_def spell_payload_def)
next
  case False
  then have st: "toApiDate (Some (sf_start f)) = Some (sf_start f @ ''T00:00:00Z'')" using sent_day [OF assms(2)] by simp
  have "before_start (Some (sf_start f @ ''T00:00:00Z'')) (toApiDate (Some (sf_end f)))
      \<longleftrightarrow> sf_end f \<noteq> [] \<and> \<not> str_le (sf_start f) (sf_end f)"
    using before_start_sent [OF assms(2,3)] False st by simp
  moreover have "day_after (Some (sf_start f @ ''T00:00:00Z'')) latest \<longleftrightarrow> \<not> str_le (sf_start f) latest"
    using day_after_sent [OF assms(2), of latest] False st by simp
  ultimately show ?thesis
    using False assms(1) st by (auto simp: spell_build_def spell_errors_def validateSpell_def spell_payload_def)
qed

theorem spell_form_mirrors_service_witness:
  "\<not> (\<exists>b. spell_build ''2027-09-16'' ''c1'' \<lparr>sf_team = None, sf_role = Caretaker, sf_start = [], sf_end = []\<rparr> = Inr b)"
  using spell_form_mirrors_service [of "''c1''" "\<lparr>sf_team = None, sf_role = Caretaker, sf_start = [], sf_end = []\<rparr>"
      "''2027-09-16''"]
  by (simp add: blank_or_day_def validateSpell_def spell_payload_def toApiDate_def)

record entry_body =
  eb_team :: string
  eb_season :: string
  eb_league :: string

definition entry_build :: "string \<Rightarrow> string \<Rightarrow> string \<Rightarrow> field_errors + entry_body" where
  "entry_build tid season league =
     (let errs = err_if (season = []) ''season_id'' ''Choose a season.''
          @ err_if (league = []) ''league_id'' ''Choose a competition.''
      in if errs \<noteq> [] then Inl errs else Inr \<lparr>eb_team = tid, eb_season = season, eb_league = league\<rparr>)"

definition entry_save :: "string \<Rightarrow> string \<Rightarrow> string \<Rightarrow> submit \<Rightarrow> submit \<times> entry_body option" where
  "entry_save tid season league s = begin_save (entry_build tid season league) s"

end
