(* ===== verification/Api_Requests.thy ===== *)
theory Api_Requests
  imports Auth_Session "HOL-Library.Word"
begin

text \<open>
  The requests the repositories make (\<open>core/api/http\<close>, \<open>core/auth/auth-repository.ts\<close>,
  \<open>core/tokens/api-config.ts\<close>): how a URL is put together, which parameters a query keeps, and for every method
  of the contracts the request it sends.  A body is JSON; what the answer decodes to is not modelled, except where the
  code looks into it.
\<close>

section \<open>Addresses\<close>

text \<open>
  \<open>encodeURIComponent\<close>: letters, digits and \<open>-_.!~*'()\<close> stay, everything else becomes the bytes of its UTF-8, two of
  them from code unit 128 on.
\<close>

definition unreserved :: "char \<Rightarrow> bool" where
  "unreserved c \<longleftrightarrow>
     (let n = (of_char c :: nat) in
      48 \<le> n \<and> n \<le> 57 \<or> 65 \<le> n \<and> n \<le> 90 \<or> 97 \<le> n \<and> n \<le> 122)
     \<or> c \<in> {CHR ''-'', CHR ''_'', CHR ''.'', CHR ''!'', CHR ''~'', CHR ''*'', CHR 0x27, CHR ''('', CHR '')''}"

definition hex_digit :: "nat \<Rightarrow> char" where
  "hex_digit n = char_of (if n < 10 then n + 48 else n + 55)"

definition percent :: "nat \<Rightarrow> string" where
  "percent b = [CHR ''%'', hex_digit (b div 16), hex_digit (b mod 16)]"

definition utf8 :: "char \<Rightarrow> nat list" where
  "utf8 c = (let n = (of_char c :: nat) in if n < 128 then [n] else [192 + n div 64, 128 + n mod 64])"

definition encode_char :: "char \<Rightarrow> string" where
  "encode_char c = (if unreserved c then [c] else concat (map percent (utf8 c)))"

definition encodeURIComponent :: "string \<Rightarrow> string" where
  "encodeURIComponent s = concat (map encode_char s)"

definition url :: "string \<Rightarrow> string list \<Rightarrow> string" where
  "url base segments = base @ ''/api/v1/'' @ join ''/'' (map encodeURIComponent segments)"

lemma hex_digit_code: "n < 16 \<Longrightarrow> (of_char (hex_digit n) :: nat) = (if n < 10 then n + 48 else n + 55)"
  by (simp add: hex_digit_def)

lemma hex_digit_inj: "m < 16 \<Longrightarrow> n < 16 \<Longrightarrow> hex_digit m = hex_digit n \<longleftrightarrow> m = n"
proof -
  assume "m < 16" "n < 16"
  then have "(of_char (hex_digit m) :: nat) = of_char (hex_digit n) \<longleftrightarrow> m = n"
    by (simp only: hex_digit_code) (auto split: if_splits)
  then show ?thesis by (simp only: of_char_eq_iff)
qed

lemma hex_not_slash: "n < 16 \<Longrightarrow> hex_digit n \<notin> {CHR ''/'', CHR ''?'', CHR ''#'', CHR ''%''}"
proof
  assume n: "n < 16" and h: "hex_digit n \<in> {CHR ''/'', CHR ''?'', CHR ''#'', CHR ''%''}"
  from h have "(of_char (hex_digit n) :: nat) \<in> {47, 63, 35, 37}" by auto
  with hex_digit_code [OF n] n show False by (auto split: if_splits)
qed

lemma percent_inj: "a < 256 \<Longrightarrow> b < 256 \<Longrightarrow> percent a = percent b \<longleftrightarrow> a = b"
proof -
  assume "a < 256" "b < 256"
  then have "a div 16 < 16" "b div 16 < 16" by auto
  then have "percent a = percent b \<longleftrightarrow> a div 16 = b div 16 \<and> a mod 16 = b mod 16"
    by (simp add: percent_def hex_digit_inj)
  also have "\<dots> \<longleftrightarrow> a = b" by (metis div_mult_mod_eq)
  finally show ?thesis .
qed

lemma utf8_bytes: "b \<in> set (utf8 c) \<Longrightarrow> b < 256"
  using nat_of_char_less_256 [of c] less_mult_imp_div_less [of "of_char c" 4 64]
  by (auto simp: utf8_def Let_def split: if_splits)

lemma encoded_chars:
  "x \<in> set (encode_char c) \<Longrightarrow> x \<notin> {CHR ''/'', CHR ''?'', CHR ''#''}"
proof (cases "unreserved c")
  case True
  assume "x \<in> set (encode_char c)"
  with True show ?thesis by (auto simp: encode_char_def unreserved_def)
next
  case False
  assume "x \<in> set (encode_char c)"
  with False obtain b where b: "b \<in> set (utf8 c)" "x \<in> set (percent b)" by (auto simp: encode_char_def)
  have "b div 16 < 16" "b mod 16 < 16" using utf8_bytes [OF b(1)] by auto
  from hex_not_slash [OF this(1)] hex_not_slash [OF this(2)] b(2) show ?thesis by (auto simp: percent_def)
qed

text \<open>The encoding of a character is told from the rest of a text: by its first sign, or by its two or six signs.\<close>

lemma percent_cons: "a < 256 \<Longrightarrow> b < 256 \<Longrightarrow> percent a @ s = percent b @ t \<longleftrightarrow> a = b \<and> s = t"
  using percent_inj [of a b] by (auto simp: percent_def)

lemma encode_char_cons:
  assumes "encode_char c @ s = encode_char d @ t"
  shows "c = d \<and> s = t"
proof -
  have bytes: "\<not> unreserved e \<Longrightarrow> of_char e < (128 :: nat) \<Longrightarrow> encode_char e = percent (of_char e)"
    "\<not> unreserved e \<Longrightarrow> \<not> of_char e < (128 :: nat) \<Longrightarrow>
      encode_char e = percent (192 + of_char e div 64) @ percent (128 + of_char e mod 64)" for e
    by (simp_all add: encode_char_def utf8_def Let_def)
  have start: "hd (encode_char e) = CHR ''%'' \<and> encode_char e \<noteq> []" if "\<not> unreserved e" for e
    using bytes [OF that] by (cases "of_char e < (128 :: nat)") (simp_all add: percent_def)
  have plain: "encode_char e = [e] \<and> e \<noteq> CHR ''%''" if "unreserved e" for e
    using that by (auto simp: encode_char_def unreserved_def)
  have lt: "(of_char e :: nat) < 256" for e :: char by simp
  consider "unreserved c" "unreserved d" | "unreserved c \<noteq> unreserved d" | "\<not> unreserved c" "\<not> unreserved d" by blast
  then show ?thesis
  proof cases
    case 1
    with plain [of c] plain [of d] assms show ?thesis by simp
  next
    case 2
    then show ?thesis using plain [of c] plain [of d] start [of c] start [of d] assms
      by (metis append_Cons hd_append2 list.sel(1))
  next
    case 3
    have code: "(of_char c :: nat) = of_char d \<Longrightarrow> c = d" by (simp add: of_char_eq_iff)
    have hi: "192 + of_char e div 64 < (256 :: nat)" "128 + of_char e mod 64 < (256 :: nat)" for e :: char
      using lt [of e] less_mult_imp_div_less [of "of_char e" 4 64] by auto
    have no_mix: "(of_char e :: nat) \<noteq> 192 + of_char f div 64" if "(of_char e :: nat) < 128" for e f :: char
      using that by simp
    have join: "(of_char c :: nat) = of_char d"
      if "(of_char c :: nat) div 64 = of_char d div 64" "(of_char c :: nat) mod 64 = of_char d mod 64"
      using that by (metis div_mult_mod_eq)
    show ?thesis
      using assms bytes [OF 3(1)] bytes [OF 3(2)] hi [of c] hi [of d] lt [of c] lt [of d] code no_mix [of c d]
        no_mix [of d c] join
      by (cases "of_char c < (128 :: nat)"; cases "of_char d < (128 :: nat)") (auto simp: percent_cons)
  qed
qed

lemma encode_char_not_Nil: "encode_char c \<noteq> []"
  by (simp add: encode_char_def utf8_def Let_def percent_def)

lemma encode_inj: "encodeURIComponent s = encodeURIComponent t \<Longrightarrow> s = t"
proof (induction s arbitrary: t)
  case Nil
  then show ?case using encode_char_not_Nil by (cases t) (auto simp: encodeURIComponent_def)
next
  case (Cons c s)
  then obtain d u where t: "t = d # u" using encode_char_not_Nil by (cases t) (auto simp: encodeURIComponent_def)
  from Cons.prems have "encode_char c @ encodeURIComponent s = encode_char d @ encodeURIComponent u"
    by (simp add: encodeURIComponent_def t)
  from encode_char_cons [OF this] Cons.IH show ?case unfolding t by blast
qed

lemma encode_no_slash: "x \<in> set (encodeURIComponent s) \<Longrightarrow> x \<notin> {CHR ''/'', CHR ''?'', CHR ''#''}"
  using encoded_chars by (auto simp: encodeURIComponent_def)

text \<open>
  An id of any characters stays one segment: the path of a URL splits at its slashes into exactly the encoded
  segments, none of which holds a slash, a question mark or a hash, and two lists of segments with one URL are the same.
\<close>
theorem url_keeps_its_segments:
  assumes "segs \<noteq> []" "segs' \<noteq> []"
  shows "split_on (CHR ''/'') (join ''/'' (map encodeURIComponent segs)) = map encodeURIComponent segs
    \<and> (\<forall>s\<in>set segs. set (encodeURIComponent s) \<inter> {CHR ''/'', CHR ''?'', CHR ''#''} = {})
    \<and> (url base segs = url base segs' \<longrightarrow> segs = segs')"
proof -
  have plain: "\<forall>x\<in>set (map encodeURIComponent ss). CHR ''/'' \<notin> set x" for ss using encode_no_slash by force
  have split: "split_on (CHR ''/'') (join ''/'' (map encodeURIComponent ss)) = map encodeURIComponent ss" if "ss \<noteq> []" for ss
    using split_join [OF _ plain [of ss]] that by simp
  have "segs = segs'" if "url base segs = url base segs'"
  proof -
    have "join ''/'' (map encodeURIComponent segs) = join ''/'' (map encodeURIComponent segs')"
      using that by (simp add: url_def)
    then have "map encodeURIComponent segs = map encodeURIComponent segs'"
      using split [OF assms(1)] split [OF assms(2)] by metis
    moreover have "inj encodeURIComponent" using encode_inj by (rule injI)
    ultimately show ?thesis by simp
  qed
  moreover have "set (encodeURIComponent s) \<inter> {CHR ''/'', CHR ''?'', CHR ''#''} = {}" for s
    using encode_no_slash [of _ s] by blast
  ultimately show ?thesis using split [OF assms(1)] by blast
qed

theorem url_keeps_its_segments_witness:
  "url ''http://f'' [''players'', ''a/b'', ''notes''] \<noteq> url ''http://f'' [''players'', ''a'', ''b'', ''notes'']"
  using url_keeps_its_segments [of "[''players'', ''a/b'', ''notes'']" "[''players'', ''a'', ''b'', ''notes'']" "''http://f''"]
  by auto

section \<open>Queries\<close>

text \<open>The values a filter holds; \<open>text_of\<close> is \<open>String(value)\<close>, with the digits of a number as its argument.\<close>

datatype query_value = Unset | Null | Text string | Digits string | Flag bool | Items "string list"

fun text_of :: "query_value \<Rightarrow> string" where
  "text_of Unset = ''undefined''"
| "text_of Null = ''null''"
| "text_of (Text s) = s"
| "text_of (Digits s) = s"
| "text_of (Flag b) = (if b then ''true'' else ''false'')"
| "text_of (Items xs) = join '','' xs"

type_synonym query = "(string \<times> query_value) list"

definition dropped :: "query_value \<Rightarrow> bool" where
  "dropped v \<longleftrightarrow> v = Unset \<or> v = Null \<or> v = Text []"

definition query_params :: "query \<Rightarrow> (string \<times> string) list" where
  "query_params q = map (\<lambda>(k, v). (k, text_of v)) (filter (\<lambda>(k, v). \<not> dropped v) q)"

text \<open>\<open>{...query, key: value}\<close>.\<close>

fun with_key :: "string \<Rightarrow> 'v \<Rightarrow> (string \<times> 'v) list \<Rightarrow> (string \<times> 'v) list" where
  "with_key k v [] = [(k, v)]"
| "with_key k v ((j, w) # q) = (if j = k then (k, v) # q else (j, w) # with_key k v q)"

lemma with_key_keys: "fst ` set (with_key k v q) = insert k (fst ` set q)"
proof (induction q)
  case (Cons x q)
  then show ?case by (cases x) (auto simp: insert_commute)
qed simp

lemma with_key_distinct: "distinct (map fst q) \<Longrightarrow> distinct (map fst (with_key k v q))"
proof (induction q)
  case (Cons x q)
  then show ?case by (cases x) (auto simp: with_key_keys)
qed simp

lemma with_key_map_of: "map_of (with_key k v q) j = (if j = k then Some v else map_of q j)"
  by (induction q) auto

text \<open>
  A query says what was set and nothing else: of a filter whose keys differ, exactly the values that are set and not
  blank are sent, under their keys, and apart from an empty list no parameter is blank.
\<close>
theorem query_says_what_was_set:
  assumes "distinct (map fst q)" "\<And>k s. (k, Digits s) \<in> set q \<Longrightarrow> s \<noteq> []"
  shows "map_of (query_params q) k =
      (case map_of q k of None \<Rightarrow> None | Some v \<Rightarrow> if dropped v then None else Some (text_of v))
    \<and> (\<forall>t. (k, t) \<in> set (query_params q) \<and> t = [] \<longrightarrow> (\<exists>xs. (k, Items xs) \<in> set q))"
proof
  have filt: "map_of (map (\<lambda>(k, v). (k, text_of v)) (filter (\<lambda>(k, v). \<not> dropped v) q)) k =
      (case map_of q k of None \<Rightarrow> None | Some v \<Rightarrow> if dropped v then None else Some (text_of v))"
    if "distinct (map fst q)" for q
    using that
  proof (induction q)
    case (Cons x q)
    obtain j v where x: "x = (j, v)" by (cases x)
    have "map_of q j = None" using Cons.prems by (simp add: x map_of_eq_None_iff)
    with Cons show ?case by (auto simp: x)
  qed simp
  then show "map_of (query_params q) k =
      (case map_of q k of None \<Rightarrow> None | Some v \<Rightarrow> if dropped v then None else Some (text_of v))"
    using assms(1) by (simp add: query_params_def)
  have "\<exists>xs. v = Items xs" if "(k, v) \<in> set q" "\<not> dropped v" "text_of v = []" for v
    using that assms(2) by (cases v) (auto simp: dropped_def split: if_splits)
  then show "\<forall>t. (k, t) \<in> set (query_params q) \<and> t = [] \<longrightarrow> (\<exists>xs. (k, Items xs) \<in> set q)"
    by (fastforce simp: query_params_def)
qed

theorem query_says_what_was_set_witness:
  "map_of (query_params [(''team_id'', Text []), (''limit'', Digits ''50''), (''position'', Unset)]) ''limit'' = Some ''50''
   \<and> map_of (query_params [(''team_id'', Text []), (''limit'', Digits ''50''), (''position'', Unset)]) ''team_id'' = None"
  using query_says_what_was_set [of "[(''team_id'', Text []), (''limit'', Digits ''50''), (''position'', Unset)]" "''limit''"]
    query_says_what_was_set [of "[(''team_id'', Text []), (''limit'', Digits ''50''), (''position'', Unset)]" "''team_id''"]
  by (simp add: dropped_def)

text \<open>An empty list of ids is sent as a blank parameter, which the serialiser means to leave out.\<close>
theorem empty_list_is_sent_blank: "query_params [(''ids'', Items [])] = [(''ids'', [])]"
  by (simp add: query_params_def dropped_def)

section \<open>Requests\<close>

text \<open>Where the services are: behind a gateway, or each at its own address.\<close>

record api_config =
  football_base :: string
  identity_base :: string

definition no_trailing :: "string \<Rightarrow> string" where
  "no_trailing s = rev (dropWhile (\<lambda>c. c = CHR ''/'') (rev s))"

definition apiConfigFor :: "string \<Rightarrow> api_config" where
  "apiConfigFor gateway =
     \<lparr>football_base = no_trailing gateway @ ''/api/football'', identity_base = no_trailing gateway @ ''/api/identity''\<rparr>"

definition apiConfigOf :: "string \<Rightarrow> string \<Rightarrow> api_config" where
  "apiConfigOf f i = \<lparr>football_base = no_trailing f, identity_base = no_trailing i\<rparr>"

datatype verb = GET | POST | PUT | DELETE

record request =
  req_verb :: verb
  address :: string
  query_of :: "(string \<times> string) list"
  payload :: "json option"
  skips_auth :: bool
  headers :: "(string \<times> string) list"

definition getOne :: "string \<Rightarrow> query \<Rightarrow> request" where
  "getOne u q = \<lparr>req_verb = GET, address = u, query_of = query_params q, payload = None, skips_auth = False, headers = []\<rparr>"

definition getPage :: "string \<Rightarrow> query \<Rightarrow> request" where
  "getPage u q = getOne u q"

definition post_json :: "string \<Rightarrow> json \<Rightarrow> request" where
  "post_json u b = \<lparr>req_verb = POST, address = u, query_of = [], payload = Some b, skips_auth = False, headers = []\<rparr>"

definition put_json :: "string \<Rightarrow> json \<Rightarrow> request" where
  "put_json u b = (post_json u b)\<lparr>req_verb := PUT\<rparr>"

definition deleteAt :: "string \<Rightarrow> request" where
  "deleteAt u = \<lparr>req_verb = DELETE, address = u, query_of = [], payload = None, skips_auth = False, headers = []\<rparr>"

lemmas request_defs = getOne_def getPage_def post_json_def put_json_def deleteAt_def

text \<open>A body built from the fields given, and \<open>{...body, id}\<close>.\<close>

type_synonym fields = "string \<Rightarrow> json option"

definition fields_of :: "(string \<times> json) list \<Rightarrow> json" where
  "fields_of ps = JObj (map_of ps)"

definition with_id :: "string \<Rightarrow> fields \<Rightarrow> json" where
  "with_id i b = JObj (b(''id'' \<mapsto> JStr i))"

section \<open>The repositories of the football service\<close>

datatype player_call =
    ListPlayers query | PlayerById string | PlayerTransfers string query | MarketValues string query | PlayerStats string
  | CreatePlayer fields | UpdatePlayer string fields | RemovePlayer string
  | RecordValue string fields | RemoveValue string string
  | Notes string query | MyNote string | WriteNote string string | EditNote string string string | RemoveNote string string

fun player_request :: "string \<Rightarrow> player_call \<Rightarrow> request" where
  "player_request b (ListPlayers f) = getPage (url b [''players'']) f"
| "player_request b (PlayerById i) = getOne (url b [''players'', i]) []"
| "player_request b (PlayerTransfers i q) = getPage (url b [''players'', i, ''transfers'']) q"
| "player_request b (MarketValues i q) = getPage (url b [''players'', i, ''market-values'']) q"
| "player_request b (PlayerStats i) = getPage (url b [''players'', i, ''stats'']) []"
| "player_request b (CreatePlayer p) = post_json (url b [''players'']) (JObj p)"
| "player_request b (UpdatePlayer i p) = put_json (url b [''players'', i]) (with_id i p)"
| "player_request b (RemovePlayer i) = deleteAt (url b [''players'', i])"
| "player_request b (RecordValue i v) = post_json (url b [''players'', i, ''market-values'']) (JObj v)"
| "player_request b (RemoveValue i v) = deleteAt (url b [''players'', i, ''market-values'', v])"
| "player_request b (Notes i q) = getPage (url b [''players'', i, ''notes'']) q"
| "player_request b (MyNote i) = getOne (url b [''players'', i, ''notes'', ''mine'']) []"
| "player_request b (WriteNote i t) = post_json (url b [''players'', i, ''notes'']) (fields_of [(''body'', JStr t)])"
| "player_request b (EditNote i n t) = put_json (url b [''players'', i, ''notes'', n]) (fields_of [(''body'', JStr t)])"
| "player_request b (RemoveNote i n) = deleteAt (url b [''players'', i, ''notes'', n])"

text \<open>What \<open>myNote\<close> makes of the answer: not found is no note, any other failure stays one.\<close>

definition myNote_answer :: "failure + 'n \<Rightarrow> failure + 'n option" where
  "myNote_answer res =
     (case res of
        Inr n \<Rightarrow> Inr (Some n)
      | Inl (ApiFailure e) \<Rightarrow> if err_code e = NotFound then Inr None else Inl (ApiFailure e)
      | Inl f \<Rightarrow> Inl f)"

datatype team_call =
    ListTeams query | TeamById string | Squad string query | Staff string query | TeamSeasons string query
  | CreateTeam fields | UpdateTeam string fields | RemoveTeam string
  | EnterSeason string fields | WithdrawSeason string string

fun team_request :: "string \<Rightarrow> team_call \<Rightarrow> request" where
  "team_request b (ListTeams f) = getPage (url b [''teams'']) f"
| "team_request b (TeamById i) = getOne (url b [''teams'', i]) []"
| "team_request b (Squad i q) = getPage (url b [''players'']) (with_key ''team_id'' (Text i) q)"
| "team_request b (Staff i q) = getPage (url b [''teams'', i, ''coaches'']) q"
| "team_request b (TeamSeasons i q) = getPage (url b [''teams'', i, ''seasons'']) q"
| "team_request b (CreateTeam t) = post_json (url b [''teams'']) (JObj t)"
| "team_request b (UpdateTeam i t) = put_json (url b [''teams'', i]) (with_id i t)"
| "team_request b (RemoveTeam i) = deleteAt (url b [''teams'', i])"
| "team_request b (EnterSeason i e) = post_json (url b [''teams'', i, ''seasons'']) (JObj e)"
| "team_request b (WithdrawSeason i e) = deleteAt (url b [''teams'', i, ''seasons'', e])"

datatype league_call =
    ListLeagues query | LeagueById string | CreateLeague fields | UpdateLeague string fields | RemoveLeague string

fun league_request :: "string \<Rightarrow> league_call \<Rightarrow> request" where
  "league_request b (ListLeagues q) = getPage (url b [''leagues'']) q"
| "league_request b (LeagueById i) = getOne (url b [''leagues'', i]) []"
| "league_request b (CreateLeague l) = post_json (url b [''leagues'']) (JObj l)"
| "league_request b (UpdateLeague i l) = put_json (url b [''leagues'', i]) (with_id i l)"
| "league_request b (RemoveLeague i) = deleteAt (url b [''leagues'', i])"

datatype season_call =
    ListSeasons query | SeasonById string | CurrentSeason | SeasonTeams string query_value query
  | CreateSeason fields | UpdateSeason string fields | RemoveSeason string

fun season_request :: "string \<Rightarrow> season_call \<Rightarrow> request" where
  "season_request b (ListSeasons q) = getPage (url b [''seasons'']) q"
| "season_request b (SeasonById i) = getOne (url b [''seasons'', i]) []"
| "season_request b CurrentSeason = getOne (url b [''seasons'', ''current'']) []"
| "season_request b (SeasonTeams i l q) = getPage (url b [''seasons'', i, ''teams'']) (with_key ''league_id'' l q)"
| "season_request b (CreateSeason s) = post_json (url b [''seasons'']) (JObj s)"
| "season_request b (UpdateSeason i s) = put_json (url b [''seasons'', i]) (with_id i s)"
| "season_request b (RemoveSeason i) = deleteAt (url b [''seasons'', i])"

datatype coach_call =
    CoachById string | CoachByTeam string | Spells string query | CreateCoach fields | UpdateCoach string fields
  | RemoveCoach string | RecordSpell string fields | RemoveSpell string string

fun coach_request :: "string \<Rightarrow> coach_call \<Rightarrow> request" where
  "coach_request b (CoachById i) = getOne (url b [''coaches'', i]) []"
| "coach_request b (CoachByTeam t) = getOne (url b [''coaches'']) [(''team_id'', Text t)]"
| "coach_request b (Spells i q) = getPage (url b [''coaches'', i, ''spells'']) q"
| "coach_request b (CreateCoach c) = post_json (url b [''coaches'']) (JObj c)"
| "coach_request b (UpdateCoach i c) = put_json (url b [''coaches'', i]) (with_id i c)"
| "coach_request b (RemoveCoach i) = deleteAt (url b [''coaches'', i])"
| "coach_request b (RecordSpell i s) = post_json (url b [''coaches'', i, ''spells'']) (JObj s)"
| "coach_request b (RemoveSpell i s) = deleteAt (url b [''coaches'', i, ''spells'', s])"

datatype transfer_call =
    ListTransfers query | TransferById string | RecordTransfer fields | UpdateTransfer string fields | RemoveTransfer string

fun transfer_request :: "string \<Rightarrow> transfer_call \<Rightarrow> request" where
  "transfer_request b (ListTransfers f) = getPage (url b [''transfers'']) f"
| "transfer_request b (TransferById i) = getOne (url b [''transfers'', i]) []"
| "transfer_request b (RecordTransfer t) = post_json (url b [''transfers'']) (JObj t)"
| "transfer_request b (UpdateTransfer i t) = put_json (url b [''transfers'', i]) (with_id i t)"
| "transfer_request b (RemoveTransfer i) = deleteAt (url b [''transfers'', i])"

datatype editor_call = TeamsFor string | Editors string query | Grant string string | Revoke string string

fun editor_request :: "string \<Rightarrow> editor_call \<Rightarrow> request" where
  "editor_request b (TeamsFor u) = getOne (url b [''users'', u, ''teams'']) []"
| "editor_request b (Editors t q) = getPage (url b [''teams'', t, ''editors'']) q"
| "editor_request b (Grant t u) = post_json (url b [''teams'', t, ''editors'']) (fields_of [(''user_id'', JStr u)])"
| "editor_request b (Revoke t u) = deleteAt (url b [''teams'', t, ''editors'', u])"

text \<open>A list the answer may leave out: \<open>team_ids ?? []\<close>, \<open>providers ?? []\<close>, \<open>identities ?? []\<close>.\<close>

definition or_none :: "'a list option \<Rightarrow> 'a list" where
  "or_none answer = (case answer of None \<Rightarrow> [] | Some xs \<Rightarrow> xs)"

definition search_request :: "string \<Rightarrow> string \<Rightarrow> query_value \<Rightarrow> query \<Rightarrow> request" where
  "search_request b q kind pg = getPage (url b [''search'']) (with_key ''kind'' kind (with_key ''q'' (Text q) pg))"

datatype tactic_call =
    TacticBySlug string | ListTactics query | CreateTactic fields | UpdateTactic string fields | RemoveTactic string

fun tactic_request :: "string \<Rightarrow> tactic_call \<Rightarrow> request" where
  "tactic_request b (TacticBySlug s) = getOne (url b [''tactics'', s]) []"
| "tactic_request b (ListTactics f) = getPage (url b [''tactics'']) f"
| "tactic_request b (CreateTactic t) = post_json (url b [''tactics'']) (JObj t)"
| "tactic_request b (UpdateTactic s t) = put_json (url b [''tactics'', s]) (JObj t)"
| "tactic_request b (RemoveTactic s) = deleteAt (url b [''tactics'', s])"

datatype article_call =
    ArticleBySlug string | ListArticles query
  | DeskList query | DeskById string | DeskCreate fields | DeskUpdate string fields | DeskRemove string
  | DeskSubmit string "string option" | RequestChanges string string | Withdraw string

fun article_request :: "string \<Rightarrow> article_call \<Rightarrow> request" where
  "article_request b (ArticleBySlug s) = getOne (url b [''articles'', s]) []"
| "article_request b (ListArticles f) = getPage (url b [''articles'']) f"
| "article_request b (DeskList f) = getPage (url b [''desk'', ''articles'']) f"
| "article_request b (DeskById i) = getOne (url b [''desk'', ''articles'', i]) []"
| "article_request b (DeskCreate a) = post_json (url b [''desk'', ''articles'']) (JObj a)"
| "article_request b (DeskUpdate i a) = put_json (url b [''desk'', ''articles'', i]) (JObj a)"
| "article_request b (DeskRemove i) = deleteAt (url b [''desk'', ''articles'', i])"
| "article_request b (DeskSubmit i t) = post_json (url b [''desk'', ''articles'', i, ''submit''])
     (fields_of [(''publish_at'', case t of None \<Rightarrow> JNull | Some s \<Rightarrow> JStr s)])"
| "article_request b (RequestChanges i n) = post_json (url b [''desk'', ''articles'', i, ''request-changes''])
     (fields_of [(''note'', JStr n)])"
| "article_request b (Withdraw i) = post_json (url b [''desk'', ''articles'', i, ''withdraw'']) (fields_of [])"

definition games_request :: "string \<Rightarrow> request" where
  "games_request b = getOne (url b [''games'']) []"

definition dataset_request :: "string \<Rightarrow> request" where
  "dataset_request b = getOne (url b [''games'', ''played-for-both'', ''dataset'']) []"

section \<open>The identity service\<close>

datatype admin_call = ListUsers query | SetRole string role | RemoveUser string

fun role_name :: "role \<Rightarrow> string" where
  "role_name RUser = ''user''"
| "role_name REditor = ''editor''"
| "role_name RAdmin = ''admin''"

fun admin_request :: "string \<Rightarrow> admin_call \<Rightarrow> request" where
  "admin_request b (ListUsers f) = getPage (url b [''users'']) f"
| "admin_request b (SetRole u r) = put_json (url b [''users'', u, ''role'']) (fields_of [(''role'', JStr (role_name r))])"
| "admin_request b (RemoveUser u) = deleteAt (url b [''users'', u])"

text \<open>
  \<open>AuthRepository\<close> writes its paths out.  \<open>pathname\<close> is the path the URL parser finds in the base of the service; a
  call that issues, rotates or ends a session names it for the cookie.
\<close>

definition auth_url :: "string \<Rightarrow> string \<Rightarrow> string" where
  "auth_url b path = b @ ''/api/v1/'' @ path"

definition skipAuth :: "request \<Rightarrow> request" where
  "skipAuth r = r\<lparr>skips_auth := True\<rparr>"

definition sessionCall :: "(string \<Rightarrow> string) \<Rightarrow> string \<Rightarrow> request \<Rightarrow> request" where
  "sessionCall pathname b r =
     (skipAuth r)\<lparr>headers := (''X-Session-Cookie'', ''1'')
        # (if no_trailing (pathname b) = [] then [] else [(''X-Forwarded-Prefix'', no_trailing (pathname b))])\<rparr>"

definition legacy_body :: "string option \<Rightarrow> json" where
  "legacy_body t = (case t of None \<Rightarrow> fields_of [] | Some s \<Rightarrow>
     if s = [] then fields_of [] else fields_of [(''refresh_token'', JStr s)])"

datatype auth_call =
    Register fields | Login fields | Refresh "string option" | Logout "string option" | Me
  | ChangePassword string string | Providers | Exchange string | Identities | UnlinkIdentity string
  | AuthConfig | VerifyEmail string | ResendVerification string "string option"

fun auth_request :: "(string \<Rightarrow> string) \<Rightarrow> string \<Rightarrow> auth_call \<Rightarrow> request" where
  "auth_request p b (Register f) = skipAuth (post_json (auth_url b ''auth/register'') (JObj f))"
| "auth_request p b (Login f) = sessionCall p b (post_json (auth_url b ''auth/login'') (JObj f))"
| "auth_request p b (Refresh t) = sessionCall p b (post_json (auth_url b ''auth/refresh'') (legacy_body t))"
| "auth_request p b (Logout t) = sessionCall p b (post_json (auth_url b ''auth/logout'') (legacy_body t))"
| "auth_request p b Me = getOne (auth_url b ''users/me'') []"
| "auth_request p b (ChangePassword old new) = put_json (auth_url b ''users/me/password'')
     (fields_of [(''current_password'', JStr old), (''new_password'', JStr new)])"
| "auth_request p b Providers = skipAuth (getOne (auth_url b ''auth/providers'') [])"
| "auth_request p b (Exchange c) = sessionCall p b (post_json (auth_url b ''auth/exchange'') (fields_of [(''code'', JStr c)]))"
| "auth_request p b Identities = getOne (auth_url b ''users/me/identities'') []"
| "auth_request p b (UnlinkIdentity v) = deleteAt (auth_url b (''users/me/identities/'' @ v))"
| "auth_request p b AuthConfig = skipAuth (getOne (auth_url b ''auth/config'') [])"
| "auth_request p b (VerifyEmail t) = skipAuth (post_json (auth_url b ''auth/verify-email'') (fields_of [(''token'', JStr t)]))"
| "auth_request p b (ResendVerification e c) = skipAuth (post_json (auth_url b ''auth/resend-verification'')
     (fields_of ((''email'', JStr e) # (case c of None \<Rightarrow> [] | Some s \<Rightarrow> [(''captcha_token'', JStr s)]))))"

definition providerStartUrl :: "string \<Rightarrow> string \<Rightarrow> string" where
  "providerStartUrl b provider = auth_url b (''auth/'' @ provider)"

section \<open>The routes of the services\<close>

text \<open>
  \<open>RegisterRoutes\<close> of \<open>football-svc\<close> and \<open>main\<close> of \<open>identity-svc\<close>: a method, whether the route asks for a token, and a
  pattern of segments.  A wildcard stands for one segment, not a blank one or a dot segment, which the multiplexer
  cleans from the path.
\<close>

datatype piece = Lit string | Any

type_synonym route = "verb \<times> bool \<times> piece list"

fun fits :: "piece list \<Rightarrow> string list \<Rightarrow> bool" where
  "fits [] [] = True"
| "fits (Lit l # ps) (s # ss) = (l = s \<and> fits ps ss)"
| "fits (Any # ps) (s # ss) = (s \<notin> {[], ''.'', ''..''} \<and> fits ps ss)"
| "fits _ _ = False"

definition reference_routes :: "route list" where
  "reference_routes =
     [(GET, False, [Lit ''search'']), (GET, False, [Lit ''leagues'']), (GET, False, [Lit ''leagues'', Any]),
      (POST, True, [Lit ''leagues'']), (PUT, True, [Lit ''leagues'', Any]), (DELETE, True, [Lit ''leagues'', Any]),
      (GET, False, [Lit ''seasons'', Lit ''current'']), (GET, False, [Lit ''seasons'']), (GET, False, [Lit ''seasons'', Any]),
      (GET, False, [Lit ''seasons'', Any, Lit ''teams'']), (POST, True, [Lit ''seasons'']),
      (PUT, True, [Lit ''seasons'', Any]), (DELETE, True, [Lit ''seasons'', Any])]"

definition club_routes :: "route list" where
  "club_routes =
     [(GET, False, [Lit ''teams'']), (GET, False, [Lit ''teams'', Any]), (GET, False, [Lit ''teams'', Any, Lit ''coaches'']),
      (GET, False, [Lit ''teams'', Any, Lit ''seasons'']), (POST, True, [Lit ''teams'', Any, Lit ''seasons'']),
      (DELETE, True, [Lit ''teams'', Any, Lit ''seasons'', Any]), (POST, True, [Lit ''teams'']),
      (PUT, True, [Lit ''teams'', Any]), (DELETE, True, [Lit ''teams'', Any]),
      (GET, True, [Lit ''teams'', Any, Lit ''editors'']), (POST, True, [Lit ''teams'', Any, Lit ''editors'']),
      (DELETE, True, [Lit ''teams'', Any, Lit ''editors'', Any]), (GET, True, [Lit ''users'', Any, Lit ''teams'']),
      (GET, False, [Lit ''coaches'']), (GET, False, [Lit ''coaches'', Any]),
      (GET, False, [Lit ''coaches'', Any, Lit ''spells'']), (POST, True, [Lit ''coaches'']),
      (PUT, True, [Lit ''coaches'', Any]), (DELETE, True, [Lit ''coaches'', Any]),
      (POST, True, [Lit ''coaches'', Any, Lit ''spells'']), (DELETE, True, [Lit ''coaches'', Any, Lit ''spells'', Any])]"

definition player_routes :: "route list" where
  "player_routes =
     [(GET, False, [Lit ''players'']), (GET, False, [Lit ''players'', Any]),
      (GET, False, [Lit ''players'', Any, Lit ''transfers'']), (GET, False, [Lit ''players'', Any, Lit ''market-values'']),
      (GET, False, [Lit ''players'', Any, Lit ''stats'']), (POST, True, [Lit ''players'']),
      (PUT, True, [Lit ''players'', Any]), (DELETE, True, [Lit ''players'', Any]),
      (POST, True, [Lit ''players'', Any, Lit ''market-values'']),
      (DELETE, True, [Lit ''players'', Any, Lit ''market-values'', Any]),
      (GET, False, [Lit ''players'', Any, Lit ''notes'']), (GET, True, [Lit ''players'', Any, Lit ''notes'', Lit ''mine'']),
      (POST, True, [Lit ''players'', Any, Lit ''notes'']), (PUT, True, [Lit ''players'', Any, Lit ''notes'', Any]),
      (DELETE, True, [Lit ''players'', Any, Lit ''notes'', Any]),
      (GET, False, [Lit ''transfers'']), (GET, False, [Lit ''transfers'', Any]), (POST, True, [Lit ''transfers'']),
      (PUT, True, [Lit ''transfers'', Any]), (DELETE, True, [Lit ''transfers'', Any])]"

definition writing_routes :: "route list" where
  "writing_routes =
     [(GET, False, [Lit ''tactics'', Any]), (GET, True, [Lit ''tactics'']), (POST, True, [Lit ''tactics'']),
      (PUT, True, [Lit ''tactics'', Any]), (DELETE, True, [Lit ''tactics'', Any]),
      (GET, False, [Lit ''articles'']), (GET, False, [Lit ''articles'', Any]),
      (GET, True, [Lit ''desk'', Lit ''articles'']), (POST, True, [Lit ''desk'', Lit ''articles'']),
      (GET, True, [Lit ''desk'', Lit ''articles'', Any]), (PUT, True, [Lit ''desk'', Lit ''articles'', Any]),
      (DELETE, True, [Lit ''desk'', Lit ''articles'', Any]),
      (POST, True, [Lit ''desk'', Lit ''articles'', Any, Lit ''submit'']),
      (POST, True, [Lit ''desk'', Lit ''articles'', Any, Lit ''request-changes'']),
      (POST, True, [Lit ''desk'', Lit ''articles'', Any, Lit ''withdraw'']),
      (GET, False, [Lit ''games'']), (GET, False, [Lit ''games'', Lit ''played-for-both'', Lit ''dataset''])]"

definition football_routes :: "route list" where
  "football_routes = reference_routes @ club_routes @ player_routes @ writing_routes"

definition identity_routes :: "route list" where
  "identity_routes =
     [(POST, False, [Lit ''auth'', Lit ''register'']), (POST, False, [Lit ''auth'', Lit ''login'']),
      (POST, False, [Lit ''auth'', Lit ''refresh'']), (POST, False, [Lit ''auth'', Lit ''logout'']),
      (GET, False, [Lit ''auth'', Lit ''providers'']), (GET, False, [Lit ''auth'', Lit ''config'']),
      (GET, False, [Lit ''auth'', Any]), (GET, False, [Lit ''auth'', Any, Lit ''callback'']),
      (POST, False, [Lit ''auth'', Lit ''exchange'']), (POST, False, [Lit ''auth'', Lit ''verify-email'']),
      (POST, False, [Lit ''auth'', Lit ''resend-verification'']), (GET, True, [Lit ''users'', Lit ''me'', Lit ''identities'']),
      (DELETE, True, [Lit ''users'', Lit ''me'', Lit ''identities'', Any]), (GET, True, [Lit ''users'', Lit ''me'']),
      (PUT, True, [Lit ''users'', Lit ''me'', Lit ''password'']), (GET, True, [Lit ''users'']),
      (PUT, True, [Lit ''users'', Any, Lit ''role'']), (DELETE, True, [Lit ''users'', Any])]"

text \<open>The segments behind \<open>base/api/v1/\<close>, and the routes a request fits.\<close>

definition segments_of :: "string \<Rightarrow> request \<Rightarrow> string list" where
  "segments_of b r = split_on (CHR ''/'') (drop (length b + 8) (address r))"

definition fitting :: "route list \<Rightarrow> string \<Rightarrow> request \<Rightarrow> route list" where
  "fitting routes b r = filter (\<lambda>(v, pr, ps). v = req_verb r \<and> fits ps (segments_of b r)) routes"

section \<open>Every call has its route\<close>

datatype api_call =
    Players player_call | Teams team_call | Leagues league_call | Seasons season_call | Coaches coach_call
  | Transfers transfer_call | EditorGrants editor_call | Search string query_value query | Tactics tactic_call
  | Articles article_call | Games | Dataset | Admin admin_call | Account auth_call

fun request_for :: "(string \<Rightarrow> string) \<Rightarrow> api_config \<Rightarrow> api_call \<Rightarrow> request" where
  "request_for p cfg (Players c) = player_request (football_base cfg) c"
| "request_for p cfg (Teams c) = team_request (football_base cfg) c"
| "request_for p cfg (Leagues c) = league_request (football_base cfg) c"
| "request_for p cfg (Seasons c) = season_request (football_base cfg) c"
| "request_for p cfg (Coaches c) = coach_request (football_base cfg) c"
| "request_for p cfg (Transfers c) = transfer_request (football_base cfg) c"
| "request_for p cfg (EditorGrants c) = editor_request (football_base cfg) c"
| "request_for p cfg (Search q k pg) = search_request (football_base cfg) q k pg"
| "request_for p cfg (Tactics c) = tactic_request (football_base cfg) c"
| "request_for p cfg (Articles c) = article_request (football_base cfg) c"
| "request_for p cfg Games = games_request (football_base cfg)"
| "request_for p cfg Dataset = dataset_request (football_base cfg)"
| "request_for p cfg (Admin c) = admin_request (identity_base cfg) c"
| "request_for p cfg (Account c) = auth_request p (identity_base cfg) c"

fun to_identity :: "api_call \<Rightarrow> bool" where
  "to_identity (Admin _) = True"
| "to_identity (Account _) = True"
| "to_identity _ = False"

definition served_by :: "(string \<Rightarrow> string) \<Rightarrow> api_config \<Rightarrow> api_call \<Rightarrow> route list" where
  "served_by p cfg c =
     (if to_identity c then fitting identity_routes (identity_base cfg) (request_for p cfg c)
      else fitting football_routes (football_base cfg) (request_for p cfg c))"

definition called_segments :: "(string \<Rightarrow> string) \<Rightarrow> api_config \<Rightarrow> api_call \<Rightarrow> string list" where
  "called_segments p cfg c =
     segments_of (if to_identity c then identity_base cfg else football_base cfg) (request_for p cfg c)"

lemma encode_plain: "list_all unreserved s \<Longrightarrow> encodeURIComponent s = s"
  by (induction s) (simp_all add: encodeURIComponent_def encode_char_def)

named_theorems words_of_paths

lemma plain_words [words_of_paths]:
  "encodeURIComponent ''players'' = ''players''" "encodeURIComponent ''transfers'' = ''transfers''"
  "encodeURIComponent ''market-values'' = ''market-values''" "encodeURIComponent ''stats'' = ''stats''"
  "encodeURIComponent ''notes'' = ''notes''" "encodeURIComponent ''mine'' = ''mine''"
  "encodeURIComponent ''teams'' = ''teams''" "encodeURIComponent ''coaches'' = ''coaches''"
  "encodeURIComponent ''seasons'' = ''seasons''" "encodeURIComponent ''leagues'' = ''leagues''"
  "encodeURIComponent ''current'' = ''current''" "encodeURIComponent ''spells'' = ''spells''"
  "encodeURIComponent ''users'' = ''users''" "encodeURIComponent ''editors'' = ''editors''"
  "encodeURIComponent ''search'' = ''search''" "encodeURIComponent ''tactics'' = ''tactics''"
  "encodeURIComponent ''articles'' = ''articles''" "encodeURIComponent ''desk'' = ''desk''"
  "encodeURIComponent ''submit'' = ''submit''" "encodeURIComponent ''request-changes'' = ''request-changes''"
  "encodeURIComponent ''withdraw'' = ''withdraw''" "encodeURIComponent ''games'' = ''games''"
  "encodeURIComponent ''played-for-both'' = ''played-for-both''" "encodeURIComponent ''dataset'' = ''dataset''"
  "encodeURIComponent ''role'' = ''role''"
  by (rule encode_plain, simp add: unreserved_def)+

lemma address_segments:
  "segs \<noteq> [] \<Longrightarrow> split_on (CHR ''/'') (join ''/'' (map encodeURIComponent segs)) = map encodeURIComponent segs"
proof -
  assume "segs \<noteq> []"
  moreover have "\<forall>x\<in>set (map encodeURIComponent segs). CHR ''/'' \<notin> set x" using encode_no_slash by force
  ultimately show ?thesis using split_join by simp
qed

lemma segments_url: "segs \<noteq> [] \<Longrightarrow> address r = url b segs \<Longrightarrow> segments_of b r = map encodeURIComponent segs"
  by (simp add: segments_of_def url_def address_segments)

lemma segments_auth: "address r = auth_url b path \<Longrightarrow> segments_of b r = split_on (CHR ''/'') path"
  by (simp add: segments_of_def auth_url_def)

lemma request_segments [words_of_paths]:
  "segments_of b (getOne (url b (s # ss)) q) = map encodeURIComponent (s # ss)"
  "segments_of b (getPage (url b (s # ss)) q) = map encodeURIComponent (s # ss)"
  "segments_of b (post_json (url b (s # ss)) j) = map encodeURIComponent (s # ss)"
  "segments_of b (put_json (url b (s # ss)) j) = map encodeURIComponent (s # ss)"
  "segments_of b (deleteAt (url b (s # ss))) = map encodeURIComponent (s # ss)"
  by (rule segments_url, simp, simp add: request_defs)+

lemma request_verb [words_of_paths]:
  "req_verb (getOne u q) = GET" "req_verb (getPage u q) = GET" "req_verb (post_json u j) = POST" "req_verb (put_json u j) = PUT"
  "req_verb (deleteAt u) = DELETE" "\<not> skips_auth (getOne u q)" "\<not> skips_auth (getPage u q)"
  "\<not> skips_auth (post_json u j)" "\<not> skips_auth (put_json u j)" "\<not> skips_auth (deleteAt u)"
  by (simp_all add: request_defs)

lemma fitting_mem: "x \<in> set (fitting routes b r) \<longleftrightarrow> x \<in> set routes \<and> (case x of (v, pr, ps) \<Rightarrow> v = req_verb r \<and> fits ps (segments_of b r))"
  by (auto simp: fitting_def)

lemma writes_are_protected: "(v, pr, ps) \<in> set football_routes \<Longrightarrow> v \<noteq> GET \<Longrightarrow> pr"
  by (auto simp: football_routes_def reference_routes_def club_routes_def player_routes_def writing_routes_def)

definition sound_segments :: "string list \<Rightarrow> bool" where
  "sound_segments ss \<longleftrightarrow> (\<forall>s\<in>set ss. s \<notin> {[], ''.'', ''..''})"

definition finds :: "route list \<Rightarrow> request \<Rightarrow> string list \<Rightarrow> bool" where
  "finds routes r ss \<longleftrightarrow> (\<exists>x\<in>set routes. case x of (v, pr, ps) \<Rightarrow> v = req_verb r \<and> fits ps ss)"

lemma finds_fitting: "finds routes r (segments_of b r) \<Longrightarrow> set routes \<subseteq> set all \<Longrightarrow> fitting all b r \<noteq> []"
  by (auto simp: finds_def fitting_def filter_empty_conv)

lemma player_served: "sound_segments (segments_of b (player_request b c)) \<Longrightarrow>
    finds player_routes (player_request b c) (segments_of b (player_request b c))"
  by (cases c) (simp_all add: words_of_paths finds_def player_routes_def sound_segments_def)

lemma team_served: "sound_segments (segments_of b (team_request b c)) \<Longrightarrow>
    finds (club_routes @ player_routes) (team_request b c) (segments_of b (team_request b c))"
  by (cases c) (simp_all add: words_of_paths finds_def club_routes_def player_routes_def sound_segments_def)

lemma league_served: "sound_segments (segments_of b (league_request b c)) \<Longrightarrow>
    finds reference_routes (league_request b c) (segments_of b (league_request b c))"
  by (cases c) (simp_all add: words_of_paths finds_def reference_routes_def sound_segments_def)

lemma season_served: "sound_segments (segments_of b (season_request b c)) \<Longrightarrow>
    finds reference_routes (season_request b c) (segments_of b (season_request b c))"
  by (cases c) (simp_all add: words_of_paths finds_def reference_routes_def sound_segments_def)

lemma coach_served: "sound_segments (segments_of b (coach_request b c)) \<Longrightarrow>
    finds club_routes (coach_request b c) (segments_of b (coach_request b c))"
  by (cases c) (simp_all add: words_of_paths finds_def club_routes_def sound_segments_def)

lemma transfer_served: "sound_segments (segments_of b (transfer_request b c)) \<Longrightarrow>
    finds player_routes (transfer_request b c) (segments_of b (transfer_request b c))"
  by (cases c) (simp_all add: words_of_paths finds_def player_routes_def sound_segments_def)

lemma editor_served: "sound_segments (segments_of b (editor_request b c)) \<Longrightarrow>
    finds club_routes (editor_request b c) (segments_of b (editor_request b c))"
  by (cases c) (simp_all add: words_of_paths finds_def club_routes_def sound_segments_def)

lemma tactic_served: "sound_segments (segments_of b (tactic_request b c)) \<Longrightarrow>
    finds writing_routes (tactic_request b c) (segments_of b (tactic_request b c))"
  by (cases c) (simp_all add: words_of_paths finds_def writing_routes_def sound_segments_def)

lemma article_served: "sound_segments (segments_of b (article_request b c)) \<Longrightarrow>
    finds writing_routes (article_request b c) (segments_of b (article_request b c))"
  by (cases c) (simp_all add: words_of_paths finds_def writing_routes_def sound_segments_def)

lemma plain_served:
  "finds writing_routes (games_request b) (segments_of b (games_request b))"
  "finds writing_routes (dataset_request b) (segments_of b (dataset_request b))"
  "finds reference_routes (search_request b q k pg) (segments_of b (search_request b q k pg))"
  by (simp_all add: words_of_paths games_request_def dataset_request_def search_request_def finds_def
      writing_routes_def reference_routes_def)

lemma football_open: "\<not> to_identity c \<Longrightarrow> \<not> skips_auth (request_for p cfg c)"
proof (cases c)
  case (Players x) then show ?thesis by (cases x) (simp_all add: words_of_paths)
next
  case (Teams x) then show ?thesis by (cases x) (simp_all add: words_of_paths)
next
  case (Leagues x) then show ?thesis by (cases x) (simp_all add: words_of_paths)
next
  case (Seasons x) then show ?thesis by (cases x) (simp_all add: words_of_paths)
next
  case (Coaches x) then show ?thesis by (cases x) (simp_all add: words_of_paths)
next
  case (Transfers x) then show ?thesis by (cases x) (simp_all add: words_of_paths)
next
  case (EditorGrants x) then show ?thesis by (cases x) (simp_all add: words_of_paths)
next
  case (Tactics x) then show ?thesis by (cases x) (simp_all add: words_of_paths)
next
  case (Articles x) then show ?thesis by (cases x) (simp_all add: words_of_paths)
qed (simp_all add: words_of_paths search_request_def games_request_def dataset_request_def)

lemma football_served:
  assumes "\<not> to_identity c" "sound_segments (called_segments p cfg c)"
  shows "fitting football_routes (football_base cfg) (request_for p cfg c) \<noteq> []"
proof -
  have sub: "set reference_routes \<subseteq> set football_routes" "set club_routes \<subseteq> set football_routes"
    "set (club_routes @ player_routes) \<subseteq> set football_routes" "set player_routes \<subseteq> set football_routes"
    "set writing_routes \<subseteq> set football_routes" by (auto simp: football_routes_def)
  from assms show ?thesis unfolding called_segments_def
    by (cases c) (simp_all add: finds_fitting [OF player_served sub(4)] finds_fitting [OF team_served sub(3)]
        finds_fitting [OF league_served sub(1)] finds_fitting [OF season_served sub(1)] finds_fitting [OF coach_served sub(2)]
        finds_fitting [OF transfer_served sub(4)] finds_fitting [OF editor_served sub(2)]
        finds_fitting [OF tactic_served sub(5)] finds_fitting [OF article_served sub(5)]
        finds_fitting [OF plain_served(1) sub(5)] finds_fitting [OF plain_served(2) sub(5)]
        finds_fitting [OF plain_served(3) sub(1)])
qed

lemma auth_segments [words_of_paths]:
  "segments_of b (getOne (auth_url b path) q) = split_on (CHR ''/'') path"
  "segments_of b (post_json (auth_url b path) j) = split_on (CHR ''/'') path"
  "segments_of b (put_json (auth_url b path) j) = split_on (CHR ''/'') path"
  "segments_of b (deleteAt (auth_url b path)) = split_on (CHR ''/'') path"
  "segments_of b (skipAuth r) = segments_of b r" "segments_of b (sessionCall p e r) = segments_of b r"
  "req_verb (skipAuth r) = req_verb r" "req_verb (sessionCall p e r) = req_verb r"
  "skips_auth (skipAuth r)" "skips_auth (sessionCall p e r)"
  by (simp_all add: request_defs segments_of_def auth_url_def skipAuth_def sessionCall_def)

lemma admin_served: "sound_segments (segments_of b (admin_request b c)) \<Longrightarrow> fitting identity_routes b (admin_request b c) \<noteq> []"
  by (cases c) (simp_all add: words_of_paths fitting_def identity_routes_def sound_segments_def)

definition slashless :: "api_call \<Rightarrow> bool" where
  "slashless c = (case c of Account (UnlinkIdentity v) \<Rightarrow> CHR ''/'' \<notin> set v | _ \<Rightarrow> True)"

lemma unlink_segments: "CHR ''/'' \<notin> set v \<Longrightarrow>
    split_on (CHR ''/'') (''users/me/identities/'' @ v) = [''users'', ''me'', ''identities'', v]"
  by (simp add: split_on_plain)

lemma auth_served:
  "sound_segments (segments_of b (auth_request p b c)) \<Longrightarrow> slashless (Account c) \<Longrightarrow>
     fitting identity_routes b (auth_request p b c) \<noteq> []
     \<and> (skips_auth (auth_request p b c) \<longrightarrow> (\<forall>(v, pr, ps) \<in> set (fitting identity_routes b (auth_request p b c)). \<not> pr))"
  by (cases c)
    (simp_all add: words_of_paths fitting_def identity_routes_def sound_segments_def slashless_def unlink_segments
      del: append_Cons)



text \<open>An update names the row of its address, whatever the body says, and a squad is asked for by its own club.\<close>
theorem update_names_its_row:
  assumes "distinct (map fst q)" "i \<noteq> []"
  shows "(\<forall>c. c \<in> {Players (UpdatePlayer i b), Teams (UpdateTeam i b), Leagues (UpdateLeague i b), Seasons (UpdateSeason i b),
            Coaches (UpdateCoach i b), Transfers (UpdateTransfer i b)} \<longrightarrow>
          (\<exists>m. payload (request_for p cfg c) = Some (JObj m) \<and> m ''id'' = Some (JStr i) \<and> (\<forall>k. k \<noteq> ''id'' \<longrightarrow> m k = b k)))
    \<and> map_of (query_of (request_for p cfg (Teams (Squad i q)))) ''team_id'' = Some i"
proof -
  have params: "map_of (query_params r) k = Some t"
    if "distinct (map fst r)" "map_of r k = Some v" "\<not> dropped v" "text_of v = t" for r k v t
    using that
  proof (induction r)
    case (Cons x r)
    obtain j w where x: "x = (j, w)" by (cases x)
    with Cons show ?case by (auto simp: query_params_def map_of_eq_None_iff split: if_splits)
  qed simp
  have "map_of (query_of (request_for p cfg (Teams (Squad i q)))) ''team_id'' = Some i"
    using params [OF with_key_distinct [OF assms(1)], of "''team_id''" "Text i" "''team_id''" "Text i" i] assms(2)
    by (simp add: request_defs with_key_map_of dropped_def)
  then show ?thesis by (auto simp: request_defs with_id_def)
qed

theorem update_names_its_row_witness:
  "map_of (query_of (request_for (\<lambda>s. s) (apiConfigOf ''http://f'' ''http://i'')
     (Teams (Squad ''t1'' [(''limit'', Digits ''100''), (''team_id'', Text ''t2'')])))) ''team_id'' = Some ''t1''"
  using update_names_its_row [of "[(''limit'', Digits ''100''), (''team_id'', Text ''t2'')]" "''t1''" Map.empty]
  by simp

section \<open>The dataset of the game\<close>

text \<open>
  \<open>playedForBothDataset\<close> keeps the promise of its one download.  \<open>NotAsked\<close> is a null field, \<open>Underway\<close> a promise not yet
  settled, \<open>Kept\<close> one that holds the data; a failure puts the field back to null.  The event of a call carries nothing,
  that of an answer what came.
\<close>

datatype 'w download = NotAsked | Underway | Kept 'w

datatype 'w dataset_event = Ask | Came "failure + 'w"

fun download_step :: "'w download \<Rightarrow> 'w dataset_event \<Rightarrow> 'w download" where
  "download_step NotAsked Ask = Underway"
| "download_step Underway Ask = Underway"
| "download_step (Kept w) Ask = Kept w"
| "download_step Underway (Came res) = (case res of Inl _ \<Rightarrow> NotAsked | Inr w \<Rightarrow> Kept w)"
| "download_step d (Came _) = d"

fun sends :: "'w download \<Rightarrow> 'w dataset_event \<Rightarrow> bool" where
  "sends NotAsked Ask = True"
| "sends _ _ = False"

fun downloads :: "'w download \<Rightarrow> 'w dataset_event list \<Rightarrow> nat" where
  "downloads d [] = 0"
| "downloads d (e # es) = of_bool (sends d e) + downloads (download_step d e) es"

definition failures :: "'w dataset_event list \<Rightarrow> nat" where
  "failures es = length (filter (\<lambda>e. case e of Came (Inl _) \<Rightarrow> True | _ \<Rightarrow> False) es)"

lemma downloads_bound: "downloads d es \<le> failures es + of_bool (d = NotAsked)"
proof (induction es arbitrary: d)
  case (Cons e es)
  show ?case
    using Cons.IH [of "download_step d e"]
    by (cases d; cases e) (auto simp: failures_def split: sum.splits)
qed (simp add: failures_def)

lemma kept_for_good: "foldl download_step (Kept w) es = Kept w"
proof (induction es)
  case (Cons e es)
  then show ?case by (cases e) simp_all
qed simp

text \<open>
  However often the game is opened, the dataset is downloaded once and once more for every failure, and once it is there
  it stays.
\<close>
theorem dataset_downloaded_once:
  "downloads NotAsked es \<le> 1 + failures es
   \<and> (foldl download_step NotAsked es = Kept w \<longrightarrow> foldl download_step NotAsked (es @ rest) = Kept w)"
  using downloads_bound [of NotAsked es] by (auto simp: kept_for_good)

theorem dataset_downloaded_once_witness:
  "foldl download_step NotAsked ([Ask, Came (Inl OtherFailure), Ask, Came (Inr (7 :: nat))] @ [Ask, Ask]) = Kept 7"
  using dataset_downloaded_once [of "[Ask, Came (Inl OtherFailure), Ask, Came (Inr (7 :: nat))]" 7 "[Ask, Ask]"] by simp

end
