(* ===== verification/App_Routes.thy ===== *)
theory App_Routes
  imports Auth_Session
begin

text \<open>
  The routes of the application (\<open>app.routes.ts\<close>, \<open>features/games/games.routes.ts\<close>), how the server renders them
  (\<open>app.routes.server.ts\<close>) and the links the pages show.  The router matches top to bottom, as \<open>app.routes.ts\<close> says;
  the children of \<open>games\<close> stand in the table under their full path.
\<close>

section \<open>The table\<close>

datatype page_name =
    TransferFeed | SearchPage | TransferEdit | PlayerForm | PlayerPage | TransferForm | ValueForm | ClubList | ClubForm
  | ClubPage | SeasonEntryForm | CompetitionList | CompetitionForm | CompetitionPage | SeasonList | SeasonForm | CoachForm
  | CoachPage | SpellForm | LoginPage | RegisterPage | VerifyEmail | OAuthCallback | AccountPage | UserList | ClubEditors
  | TacticsList | TacticsEditor | ArticleList | ArticlePage | ArticleDesk | ArticleEditor | TacticsViewer | GamesHub
  | PlayedForBothPage | NotFound

datatype path_part = Word string | Param

datatype path = Path "path_part list" | AnyPath

datatype guard = SignedIn | EditorsOnly | AdminsOnly

record page_route =
  r_path :: path
  r_page :: page_name
  r_guard :: "guard option"
  asks_to_leave :: bool

definition plain_route :: "path_part list \<Rightarrow> page_name \<Rightarrow> page_route" where
  "plain_route ps g = \<lparr>r_path = Path ps, r_page = g, r_guard = None, asks_to_leave = False\<rparr>"

definition guarded_route :: "guard \<Rightarrow> path_part list \<Rightarrow> page_name \<Rightarrow> page_route" where
  "guarded_route gd ps g = (plain_route ps g)\<lparr>r_guard := Some gd\<rparr>"

definition asking :: "page_route \<Rightarrow> page_route" where
  "asking r = r\<lparr>asks_to_leave := True\<rparr>"

definition player_pages :: "page_route list" where
  "player_pages =
     [plain_route [] TransferFeed, plain_route [Word ''transfers''] TransferFeed, plain_route [Word ''search''] SearchPage,
      guarded_route EditorsOnly [Word ''transfers'', Param, Word ''edit''] TransferEdit,
      guarded_route EditorsOnly [Word ''players'', Word ''new''] PlayerForm,
      plain_route [Word ''players'', Param] PlayerPage,
      guarded_route EditorsOnly [Word ''players'', Param, Word ''edit''] PlayerForm,
      guarded_route EditorsOnly [Word ''players'', Param, Word ''transfer''] TransferForm,
      guarded_route AdminsOnly [Word ''players'', Param, Word ''values'', Word ''new''] ValueForm]"

definition club_pages :: "page_route list" where
  "club_pages =
     [plain_route [Word ''clubs''] ClubList, guarded_route AdminsOnly [Word ''clubs'', Word ''new''] ClubForm,
      plain_route [Word ''clubs'', Param] ClubPage, guarded_route AdminsOnly [Word ''clubs'', Param, Word ''edit''] ClubForm,
      guarded_route EditorsOnly [Word ''clubs'', Param, Word ''seasons'', Word ''new''] SeasonEntryForm,
      plain_route [Word ''competitions''] CompetitionList,
      guarded_route AdminsOnly [Word ''competitions'', Word ''new''] CompetitionForm,
      plain_route [Word ''competitions'', Param] CompetitionPage,
      guarded_route AdminsOnly [Word ''competitions'', Param, Word ''edit''] CompetitionForm,
      plain_route [Word ''seasons''] SeasonList, guarded_route AdminsOnly [Word ''seasons'', Word ''new''] SeasonForm,
      guarded_route AdminsOnly [Word ''seasons'', Param, Word ''edit''] SeasonForm,
      guarded_route EditorsOnly [Word ''coaches'', Word ''new''] CoachForm, plain_route [Word ''coaches'', Param] CoachPage,
      guarded_route EditorsOnly [Word ''coaches'', Param, Word ''edit''] CoachForm,
      guarded_route EditorsOnly [Word ''coaches'', Param, Word ''spells'', Word ''new''] SpellForm]"

definition account_pages :: "page_route list" where
  "account_pages =
     [plain_route [Word ''login''] LoginPage, plain_route [Word ''register''] RegisterPage,
      plain_route [Word ''verify-email''] VerifyEmail, plain_route [Word ''auth'', Word ''callback''] OAuthCallback,
      guarded_route SignedIn [Word ''account''] AccountPage, guarded_route AdminsOnly [Word ''admin'', Word ''users''] UserList,
      guarded_route AdminsOnly [Word ''admin'', Word ''clubs'', Param, Word ''editors''] ClubEditors]"

definition writing_pages :: "page_route list" where
  "writing_pages =
     [guarded_route SignedIn [Word ''tactics''] TacticsList,
      asking (plain_route [Word ''tactics'', Word ''new''] TacticsEditor),
      asking (guarded_route SignedIn [Word ''tactics'', Param, Word ''edit''] TacticsEditor),
      plain_route [Word ''articles''] ArticleList, plain_route [Word ''articles'', Param] ArticlePage,
      guarded_route EditorsOnly [Word ''desk''] ArticleDesk,
      asking (guarded_route EditorsOnly [Word ''desk'', Word ''new''] ArticleEditor),
      asking (guarded_route EditorsOnly [Word ''desk'', Param] ArticleEditor),
      plain_route [Word ''tactics'', Param] TacticsViewer]"

definition games_pages :: "page_route list" where
  "games_pages =
     [plain_route [Word ''games''] GamesHub, plain_route [Word ''games'', Word ''played-for-both''] PlayedForBothPage]"

definition not_found_route :: page_route where
  "not_found_route = \<lparr>r_path = AnyPath, r_page = NotFound, r_guard = None, asks_to_leave = False\<rparr>"

definition app_routes :: "page_route list" where
  "app_routes = player_pages @ club_pages @ account_pages @ writing_pages @ games_pages @ [not_found_route]"

fun meets :: "path_part list \<Rightarrow> string list \<Rightarrow> bool" where
  "meets [] [] = True"
| "meets (Word w # ps) (s # ss) = (w = s \<and> meets ps ss)"
| "meets (Param # ps) (s # ss) = meets ps ss"
| "meets _ _ = False"

fun matched :: "path \<Rightarrow> string list \<Rightarrow> bool" where
  "matched (Path ps) ss = meets ps ss"
| "matched AnyPath ss = True"

definition route_for :: "string list \<Rightarrow> page_route" where
  "route_for ss = (case find (\<lambda>r. matched (r_path r) ss) app_routes of Some r \<Rightarrow> r | None \<Rightarrow> not_found_route)"

section \<open>No page is shadowed\<close>

text \<open>A way to fill a pattern in: its parameters are given values, none of them the word \<open>new\<close>.\<close>

fun filled :: "path_part list \<Rightarrow> string list \<Rightarrow> bool" where
  "filled [] [] = True"
| "filled (Word w # ps) (s # ss) = (w = s \<and> filled ps ss)"
| "filled (Param # ps) (s # ss) = (s \<noteq> ''new'' \<and> filled ps ss)"
| "filled _ _ = False"

text \<open>Whether a filling of the second pattern is met by the first, and a table in which no route takes a page of a later one.\<close>

fun covers :: "path_part list \<Rightarrow> path_part list \<Rightarrow> bool" where
  "covers [] [] = True"
| "covers (Word w # ps) (Word v # qs) = (w = v \<and> covers ps qs)"
| "covers (Word w # ps) (Param # qs) = (w \<noteq> ''new'' \<and> covers ps qs)"
| "covers (Param # ps) (_ # qs) = covers ps qs"
| "covers _ _ = False"

fun takes :: "path \<Rightarrow> path \<Rightarrow> bool" where
  "takes (Path ps) (Path qs) = covers ps qs"
| "takes AnyPath _ = True"
| "takes (Path _) AnyPath = False"

fun in_order :: "path list \<Rightarrow> bool" where
  "in_order [] = True"
| "in_order (p # ps) = (list_all (\<lambda>q. \<not> takes p q) ps \<and> in_order ps)"

lemma covers_filled: "filled qs ss \<Longrightarrow> meets ps ss \<Longrightarrow> covers ps qs"
  by (induction qs ss arbitrary: ps rule: filled.induct) (auto elim: meets.elims)

lemma filled_meets: "filled ps ss \<Longrightarrow> meets ps ss"
  by (induction ps ss rule: filled.induct) auto

lemma first_in_order:
  "in_order (map r_path rs) \<Longrightarrow> r \<in> set rs \<Longrightarrow> r_path r = Path ps \<Longrightarrow> filled ps ss
    \<Longrightarrow> find (\<lambda>q. matched (r_path q) ss) rs = Some r"
proof (induction rs)
  case (Cons q rs)
  show ?case
  proof (cases "q = r")
    case True
    then show ?thesis using Cons.prems(3) filled_meets [OF Cons.prems(4)] by simp
  next
    case False
    with Cons.prems have "r \<in> set rs" by simp
    moreover from this Cons.prems(1,3) have "\<not> takes (r_path q) (Path ps)" by (auto simp: list_all_iff)
    then have "\<not> matched (r_path q) ss" using covers_filled [OF Cons.prems(4)] by (cases "r_path q") auto
    ultimately show ?thesis using Cons by simp
  qed
qed simp

lemmas table_defs = app_routes_def player_pages_def club_pages_def account_pages_def writing_pages_def games_pages_def
  plain_route_def guarded_route_def asking_def not_found_route_def

lemma app_in_order: "in_order (map r_path app_routes)"
  by (simp add: table_defs)

text \<open>
  No page is shadowed: every route of the table is the one taken for its own address, whatever stands for its
  parameters, except the word \<open>new\<close>.
\<close>
theorem no_page_is_shadowed:
  assumes "r \<in> set app_routes" "r_path r = Path ps" "filled ps ss"
  shows "route_for ss = r"
  using first_in_order [OF app_in_order assms] by (simp add: route_for_def)

theorem no_page_is_shadowed_witness: "r_page (route_for [''clubs'', ''42'', ''seasons'', ''new'']) = SeasonEntryForm"
  using no_page_is_shadowed [of "guarded_route EditorsOnly [Word ''clubs'', Param, Word ''seasons'', Word ''new''] SeasonEntryForm"
      "[Word ''clubs'', Param, Word ''seasons'', Word ''new'']" "[''clubs'', ''42'', ''seasons'', ''new'']"]
  by (simp add: app_routes_def club_pages_def guarded_route_def plain_route_def)

section \<open>Rendering on the server\<close>

datatype render_mode = OnServer | InBrowser

record server_route =
  s_path :: path
  s_mode :: render_mode
  s_status :: "nat option"

definition on_server :: "path_part list \<Rightarrow> server_route" where
  "on_server ps = \<lparr>s_path = Path ps, s_mode = OnServer, s_status = None\<rparr>"

definition in_browser :: "path_part list \<Rightarrow> server_route" where
  "in_browser ps = \<lparr>s_path = Path ps, s_mode = InBrowser, s_status = None\<rparr>"

definition server_public :: "server_route list" where
  "server_public =
     [on_server [], on_server [Word ''transfers''], on_server [Word ''players'', Param], on_server [Word ''clubs''],
      on_server [Word ''competitions''], on_server [Word ''coaches'', Param], on_server [Word ''seasons''],
      on_server [Word ''search'']]"

definition server_forms :: "server_route list" where
  "server_forms =
     [in_browser [Word ''players'', Word ''new''], in_browser [Word ''players'', Param, Word ''edit''],
      in_browser [Word ''players'', Param, Word ''transfer''],
      in_browser [Word ''players'', Param, Word ''values'', Word ''new''], in_browser [Word ''transfers'', Param, Word ''edit''],
      in_browser [Word ''clubs'', Word ''new''], in_browser [Word ''clubs'', Param, Word ''edit''],
      in_browser [Word ''clubs'', Param, Word ''seasons'', Word ''new''], in_browser [Word ''competitions'', Word ''new''],
      in_browser [Word ''competitions'', Param, Word ''edit''], in_browser [Word ''seasons'', Word ''new''],
      in_browser [Word ''seasons'', Param, Word ''edit''], in_browser [Word ''coaches'', Word ''new''],
      in_browser [Word ''coaches'', Param, Word ''edit''], in_browser [Word ''coaches'', Param, Word ''spells'', Word ''new''],
      on_server [Word ''clubs'', Param], on_server [Word ''competitions'', Param]]"

definition server_private :: "server_route list" where
  "server_private =
     [in_browser [Word ''login''], in_browser [Word ''register''], in_browser [Word ''auth'', Word ''callback''],
      in_browser [Word ''verify-email''], in_browser [Word ''account''], in_browser [Word ''admin'', Word ''users''],
      in_browser [Word ''admin'', Word ''clubs'', Param, Word ''editors''], in_browser [Word ''tactics''],
      in_browser [Word ''tactics'', Word ''new''], in_browser [Word ''tactics'', Param, Word ''edit''],
      on_server [Word ''tactics'', Param], on_server [Word ''articles''], on_server [Word ''articles'', Param],
      in_browser [Word ''desk''], in_browser [Word ''desk'', Word ''new''], in_browser [Word ''desk'', Param],
      on_server [Word ''games''], on_server [Word ''games'', Word ''played-for-both'']]"

definition serverRoutes :: "server_route list" where
  "serverRoutes = server_public @ server_forms @ server_private
     @ [\<lparr>s_path = AnyPath, s_mode = OnServer, s_status = Some 404\<rparr>]"

lemmas server_defs = serverRoutes_def server_public_def server_forms_def server_private_def on_server_def in_browser_def

text \<open>
  Both tables list the same addresses, each once; a page behind a guard is never rendered by the server, which has no
  session to decide the guard with; and the one address that answers 404 is the one of no page.
\<close>

definition rendered_well :: "page_route \<Rightarrow> bool" where
  "rendered_well r \<longleftrightarrow>
     (case find (\<lambda>sr. s_path sr = r_path r) serverRoutes of
        None \<Rightarrow> False
      | Some sr \<Rightarrow> (r_guard r \<noteq> None \<longrightarrow> s_mode sr = InBrowser) \<and> (s_status sr = Some 404 \<longleftrightarrow> r_page r = NotFound))"

lemma listed_once: "distinct (map s_path serverRoutes)" "distinct (map r_path app_routes)"
  by (simp_all add: server_defs table_defs)

lemma all_rendered_well: "list_all rendered_well app_routes"
  by code_simp

lemma rendered_wellD:
  "r \<in> set app_routes \<Longrightarrow> \<exists>sr\<in>set serverRoutes. s_path sr = r_path r
    \<and> (r_guard r \<noteq> None \<longrightarrow> s_mode sr = InBrowser) \<and> (s_status sr = Some 404 \<longleftrightarrow> r_page r = NotFound)"
proof -
  assume "r \<in> set app_routes"
  with all_rendered_well have "rendered_well r" by (simp only: list_all_iff)
  then obtain sr where f: "find (\<lambda>sr. s_path sr = r_path r) serverRoutes = Some sr"
      and ok: "(r_guard r \<noteq> None \<longrightarrow> s_mode sr = InBrowser) \<and> (s_status sr = Some 404 \<longleftrightarrow> r_page r = NotFound)"
    unfolding rendered_well_def by (cases "find (\<lambda>sr. s_path sr = r_path r) serverRoutes") (simp_all only: option.case, blast)
  from f have "sr \<in> set serverRoutes \<and> s_path sr = r_path r"
    unfolding find_Some_iff by (metis nth_mem)
  with ok show ?thesis by blast
qed

lemma as_many: "length serverRoutes = length app_routes"
  by (simp add: server_defs table_defs)

lemma same_addresses: "s_path ` set serverRoutes = r_path ` set app_routes"
proof -
  have sub: "r_path ` set app_routes \<subseteq> s_path ` set serverRoutes"
    using rendered_wellD by force
  have "card (set (map r_path app_routes)) = card (set (map s_path serverRoutes))"
    using listed_once as_many by (simp only: distinct_card length_map)
  with card_subset_eq [OF _ sub] show ?thesis by simp
qed

theorem guarded_pages_render_in_browser:
  "distinct (map s_path serverRoutes) \<and> distinct (map r_path app_routes)
   \<and> s_path ` set serverRoutes = r_path ` set app_routes
   \<and> (\<forall>r\<in>set app_routes. \<forall>sr\<in>set serverRoutes. s_path sr = r_path r \<longrightarrow>
        (r_guard r \<noteq> None \<longrightarrow> s_mode sr = InBrowser) \<and> (s_status sr = Some 404 \<longleftrightarrow> r_page r = NotFound))"
proof -
  have one: "sr = sr'" if "sr \<in> set serverRoutes" "sr' \<in> set serverRoutes" "s_path sr = s_path sr'" for sr sr'
    using listed_once(1) that by (metis distinct_map inj_on_def)
  have "(r_guard r \<noteq> None \<longrightarrow> s_mode sr = InBrowser) \<and> (s_status sr = Some 404 \<longleftrightarrow> r_page r = NotFound)"
    if "r \<in> set app_routes" "sr \<in> set serverRoutes" "s_path sr = r_path r" for r sr
    using rendered_wellD [OF that(1)] one that(2,3) by metis
  with listed_once same_addresses show ?thesis by blast
qed

theorem guarded_pages_render_in_browser_witness:
  "s_mode (hd (filter (\<lambda>sr. s_path sr = Path [Word ''account'']) serverRoutes)) = InBrowser"
proof -
  let ?r = "guarded_route SignedIn [Word ''account''] AccountPage" and ?sr = "in_browser [Word ''account'']"
  have "?r \<in> set app_routes" "?sr \<in> set serverRoutes" by (simp_all add: app_routes_def account_pages_def serverRoutes_def server_private_def)
  with guarded_pages_render_in_browser have "s_mode ?sr = InBrowser"
    by (metis (no_types, lifting) guarded_route_def in_browser_def option.distinct(1) plain_route_def page_route.select_convs(1,3)
        page_route.update_convs(3) server_route.select_convs(1))
  then show ?thesis by (simp add: server_defs)
qed

text \<open>
  Top to bottom, as the comment of the table has it, the server takes \<open>players/new\<close> and \<open>coaches/new\<close> for a player and
  a coach: their literal routes come after the parameter.
\<close>
theorem server_order_shadows_new:
  "find (\<lambda>sr. matched (s_path sr) [''players'', ''new'']) serverRoutes = Some (on_server [Word ''players'', Param])
   \<and> find (\<lambda>sr. matched (s_path sr) [''coaches'', ''new'']) serverRoutes = Some (on_server [Word ''coaches'', Param])
   \<and> find (\<lambda>sr. matched (s_path sr) [''clubs'', ''new'']) serverRoutes = Some (in_browser [Word ''clubs'', Word ''new''])"
  by (simp add: server_defs)

section \<open>Visits\<close>

text \<open>An address the visitor asks for, with the guard of its route; the router's own splitting of an address.\<close>

datatype outcome = Shown page_name | SignInFirst string | SentHome

definition address_of :: "string list \<Rightarrow> string" where
  "address_of ss = ''/'' @ join ''/'' ss"

definition segments_at :: "string \<Rightarrow> string list" where
  "segments_at u = (if tl u = [] then [] else split_on (CHR ''/'') (tl u))"

fun run_guard :: "guard \<Rightarrow> session \<Rightarrow> string \<Rightarrow> guard_result" where
  "run_guard SignedIn s u = authGuard s u"
| "run_guard EditorsOnly s u = editorGuard s u"
| "run_guard AdminsOnly s u = adminGuard s u"

definition visit :: "session \<Rightarrow> string list \<Rightarrow> outcome" where
  "visit s ss =
     (let r = route_for ss in
      case r_guard r of
        None \<Rightarrow> Shown (r_page r)
      | Some g \<Rightarrow>
          (case run_guard g s (address_of ss) of
             Allow \<Rightarrow> Shown (r_page r) | ToLogin u \<Rightarrow> SignInFirst u | ToHome \<Rightarrow> SentHome))"

text \<open>Where signing in leads: \<open>returnTo ?? '/'\<close>.\<close>

definition after_login :: "string option \<Rightarrow> string" where
  "after_login returnTo = (case returnTo of None \<Rightarrow> ''/'' | Some u \<Rightarrow> u)"

fun may :: "session \<Rightarrow> guard \<Rightarrow> bool" where
  "may s SignedIn = isAuthenticated s"
| "may s EditorsOnly = (isAuthenticated s \<and> isEditor s)"
| "may s AdminsOnly = (isAuthenticated s \<and> isAdmin s)"

lemma segments_back:
  "\<forall>x\<in>set ss. x \<noteq> [] \<and> CHR ''/'' \<notin> set x \<Longrightarrow> segments_at (address_of ss) = ss"
proof (cases ss)
  case (Cons x xs)
  assume ss: "\<forall>x\<in>set ss. x \<noteq> [] \<and> CHR ''/'' \<notin> set x"
  then have "split_on (CHR ''/'') (join ''/'' ss) = ss" using split_join [of ss "CHR ''/''"] Cons by simp
  moreover have "join ''/'' ss \<noteq> []" using Cons ss by (cases xs) auto
  ultimately show ?thesis by (simp add: segments_at_def address_of_def)
qed (simp add: segments_at_def address_of_def)

text \<open>
  Signing in leads back: a page behind a guard sends a visitor who is not signed in to the sign-in page with the
  address asked for, and from there to that page if the account may see it and home if it may not.
\<close>
theorem sign_in_leads_back:
  assumes "r_guard (route_for ss) = Some g" "\<not> isAuthenticated s" "isAuthenticated s'"
    and "\<forall>x\<in>set ss. x \<noteq> [] \<and> CHR ''/'' \<notin> set x"
  shows "\<exists>u. visit s ss = SignInFirst u
    \<and> visit s' (segments_at (after_login (Some u))) = (if may s' g then Shown (r_page (route_for ss)) else SentHome)"
proof -
  have "visit s ss = SignInFirst (address_of ss)"
    using assms(1,2) by (cases g) (simp_all add: visit_def authGuard_def adminGuard_def editorGuard_def)
  moreover have "visit s' ss = (if may s' g then Shown (r_page (route_for ss)) else SentHome)"
    using assms(1,3) by (cases g) (simp_all add: visit_def authGuard_def adminGuard_def editorGuard_def)
  ultimately show ?thesis by (simp add: after_login_def segments_back [OF assms(4)])
qed

theorem sign_in_leads_back_witness:
  "\<exists>u. visit (new_session empty_storage) [''desk'', ''7''] = SignInFirst u
     \<and> visit ((new_session empty_storage)\<lparr>status := Authenticated, cur_user := Some (some_user ''a'' REditor)\<rparr>)
         (segments_at (after_login (Some u))) = Shown ArticleEditor"
proof -
  have r: "route_for [''desk'', ''7''] = asking (guarded_route EditorsOnly [Word ''desk'', Param] ArticleEditor)"
    by (simp add: route_for_def table_defs)
  from sign_in_leads_back [of "[''desk'', ''7'']" EditorsOnly "new_session empty_storage"
      "(new_session empty_storage)\<lparr>status := Authenticated, cur_user := Some (some_user ''a'' REditor)\<rparr>"]
  show ?thesis
    by (simp add: r asking_def guarded_route_def plain_route_def isAuthenticated_def new_session_def isEditor_def
        role_of_def some_user_def)
qed

section \<open>Links\<close>

text \<open>When a link is shown: the condition the template puts around it, for the clubs it is about.\<close>

datatype shown_when = Always | WhenSignedIn | WhenSignedOut | WhenEditor | WhenAdmin | WhenClubEditor | WhenEitherClub

fun shown_to :: "session \<Rightarrow> permissions \<Rightarrow> string option \<Rightarrow> string option \<Rightarrow> shown_when \<Rightarrow> bool" where
  "shown_to s p c d Always = True"
| "shown_to s p c d WhenSignedIn = isAuthenticated s"
| "shown_to s p c d WhenSignedOut = (\<not> isAuthenticated s)"
| "shown_to s p c d WhenEditor = isEditor s"
| "shown_to s p c d WhenAdmin = canAdminister s"
| "shown_to s p c d WhenClubEditor = canEditTeam s p c"
| "shown_to s p c d WhenEitherClub = canMoveBetween s p c d"

type_synonym link = "shown_when \<times> path_part list"

definition header_links :: "link list" where
  "header_links =
     [(Always, []), (Always, [Word ''transfers'']), (Always, [Word ''clubs'']), (Always, [Word ''competitions'']),
      (Always, [Word ''articles'']), (Always, [Word ''games'']), (WhenSignedIn, [Word ''tactics'']),
      (WhenSignedOut, [Word ''tactics'', Word ''new''])]"

definition account_links :: "link list" where
  "account_links =
     [(WhenEditor, [Word ''desk'']), (WhenAdmin, [Word ''admin'', Word ''users'']), (WhenSignedIn, [Word ''account'']),
      (WhenSignedOut, [Word ''login''])]"

definition club_actions :: "link list" where
  "club_actions =
     [(WhenAdmin, [Word ''clubs'', Param, Word ''edit'']), (WhenAdmin, [Word ''admin'', Word ''clubs'', Param, Word ''editors'']),
      (WhenClubEditor, [Word ''players'', Word ''new'']), (WhenClubEditor, [Word ''clubs'', Param, Word ''seasons'', Word ''new''])]"

definition player_actions :: "link list" where
  "player_actions =
     [(WhenClubEditor, [Word ''players'', Param, Word ''edit'']), (WhenClubEditor, [Word ''players'', Param, Word ''transfer'']),
      (WhenAdmin, [Word ''players'', Param, Word ''values'', Word ''new''])]"

definition transfer_actions :: "link list" where
  "transfer_actions = [(WhenEitherClub, [Word ''transfers'', Param, Word ''edit''])]"

definition coach_actions :: "link list" where
  "coach_actions =
     [(WhenClubEditor, [Word ''coaches'', Param, Word ''edit'']),
      (WhenClubEditor, [Word ''coaches'', Param, Word ''spells'', Word ''new''])]"

definition admin_actions :: "link list" where
  "admin_actions =
     [(WhenAdmin, [Word ''clubs'', Word ''new'']), (WhenAdmin, [Word ''competitions'', Word ''new'']),
      (WhenAdmin, [Word ''competitions'', Param, Word ''edit'']), (WhenAdmin, [Word ''seasons'', Word ''new'']),
      (WhenAdmin, [Word ''seasons'', Param, Word ''edit''])]"

definition desk_links :: "link list" where
  "desk_links = [(WhenEditor, [Word ''desk'']), (WhenEditor, [Word ''desk'', Word ''new''])]"

text \<open>What a search result opens.\<close>

datatype search_kind = PlayerHit | TeamHit | CoachHit | LeagueHit

fun linkFor :: "search_kind \<Rightarrow> path_part list" where
  "linkFor PlayerHit = [Word ''players'', Param]"
| "linkFor TeamHit = [Word ''clubs'', Param]"
| "linkFor CoachHit = [Word ''coaches'', Param]"
| "linkFor LeagueHit = [Word ''competitions'', Param]"

text \<open>Names in tables and the pages a form returns to, which everybody may open.\<close>

definition record_links :: "link list" where
  "record_links =
     map (\<lambda>k. (Always, linkFor k)) [PlayerHit, TeamHit, CoachHit, LeagueHit]
     @ [(Always, [Word ''articles'', Param]), (Always, [Word ''tactics'', Param]), (Always, [Word ''seasons'']),
        (Always, [Word ''search'']), (Always, [Word ''login'']), (Always, [Word ''register'']), (Always, [Word ''verify-email''])]"

definition site_links :: "link list" where
  "site_links = header_links @ account_links @ club_actions @ player_actions @ transfer_actions @ coach_actions
     @ admin_actions @ desk_links @ record_links"

fun lets :: "shown_when \<Rightarrow> guard option \<Rightarrow> bool" where
  "lets w None = True"
| "lets WhenAdmin (Some g) = True"
| "lets WhenSignedIn (Some g) = (g = SignedIn)"
| "lets w (Some g) = (w \<in> {WhenEditor, WhenClubEditor, WhenEitherClub} \<and> g \<noteq> AdminsOnly)"

lemma links_open:
  "list_all (\<lambda>(w, ps). \<exists>r\<in>set app_routes. r_path r = Path ps \<and> r_page r \<noteq> NotFound \<and> lets w (r_guard r)) site_links"
  by (simp add: site_links_def header_links_def account_links_def club_actions_def player_actions_def transfer_actions_def
      coach_actions_def admin_actions_def desk_links_def record_links_def table_defs)

lemma shown_may:
  "shown_to s p c d w \<Longrightarrow> lets w (Some g) \<Longrightarrow> (cur_user s \<noteq> None \<longrightarrow> isAuthenticated s) \<Longrightarrow> run_guard g s u = Allow"
  by (cases w; cases g)
    (auto simp: authGuard_def adminGuard_def editorGuard_def canAdminister_def canEditTeam_def canMoveBetween_def
      isAdmin_def isEditor_def role_of_def split: if_splits)



text \<open>
  A user may outlive the session: the profile that arrives after signing out is set all the same, and the links for
  administrators are shown to nobody signed in, who is sent to the sign-in page by each of them.
\<close>
theorem late_profile_outlives_session:
  "let s = setUser (some_user ''a'' RAdmin) (clear_session (start t None (new_session st)))
   in \<not> isAuthenticated s \<and> shown_to s p c d WhenAdmin \<and> visit s [''admin'', ''users''] = SignInFirst ''/admin/users''"
proof -
  have "route_for [''admin'', ''users''] = guarded_route AdminsOnly [Word ''admin'', Word ''users''] UserList"
    by (simp add: route_for_def table_defs)
  then show ?thesis
    by (simp add: Let_def setUser_def clear_session_def start_def isAuthenticated_def canAdminister_def isAdmin_def
        role_of_def some_user_def visit_def guarded_route_def plain_route_def adminGuard_def address_of_def)
qed

end
