(* ===== verification/Account_Pages.thy ===== *)
theory Account_Pages
  imports Auth_Flow Shared_Forms
begin

text \<open>
  The pages about accounts: \<open>features/auth/login.ts\<close>, \<open>register.ts\<close>, \<open>verify-email.ts\<close>, \<open>oauth-callback.ts\<close>,
  \<open>features/account/account-page.ts\<close>, \<open>features/admin/user-list.ts\<close>, \<open>club-editors.ts\<close>, the captcha of the forms
  (\<open>shared/forms/captcha.ts\<close>) and what the header does (\<open>layout/shell.ts\<close>).  A handler that waits for the API is two
  definitions: what it does before the call, with the request if it makes one, and what it does with the answer.
\<close>

section \<open>Signing in\<close>

record credentials =
  cr_identifier :: string
  cr_password :: string
  cr_captcha :: "string option"

record login_page =
  li_identifier :: string
  li_password :: string
  li_captcha :: string
  li_busy :: bool
  li_error :: "string option"
  li_needs_verification :: bool

text \<open>\<open>token || undefined\<close>.\<close>

definition some_text :: "string \<Rightarrow> string option" where
  "some_text t = (if t = [] then None else Some t)"

definition login_submit :: "login_page \<Rightarrow> login_page \<times> credentials option" where
  "login_submit p =
     (if li_busy p then (p, None)
      else (p\<lparr>li_busy := True, li_error := None\<rparr>,
            Some \<lparr>cr_identifier = li_identifier p, cr_password = li_password p, cr_captcha = some_text (li_captcha p)\<rparr>))"

definition api_message :: "string \<Rightarrow> failure \<Rightarrow> string" where
  "api_message fallback e = (case e of ApiFailure a \<Rightarrow> err_message a | _ \<Rightarrow> fallback)"

text \<open>With what \<open>facade.login\<close> came to and the \<open>returnTo\<close> of the address; the second result is where it leads.\<close>

definition login_settled :: "string option \<Rightarrow> failure option \<Rightarrow> login_page \<Rightarrow> login_page \<times> string option" where
  "login_settled returnTo res p =
     (case res of
        None \<Rightarrow> (p\<lparr>li_busy := False\<rparr>, Some (case returnTo of None \<Rightarrow> ''/'' | Some u \<Rightarrow> u))
      | Some e \<Rightarrow>
          (p\<lparr>li_error := Some (api_message ''Could not sign in. Please try again.'' e),
             li_needs_verification := (case e of ApiFailure a \<Rightarrow> err_code a = Forbidden | _ \<Rightarrow> False),
             li_captcha := [], li_busy := False\<rparr>, None))"

section \<open>Signing up\<close>

definition MIN_PASSWORD_LENGTH :: nat where
  "MIN_PASSWORD_LENGTH = 8"

record registration =
  rg_username :: string
  rg_email :: string
  rg_password :: string
  rg_captcha :: "string option"

record register_page =
  re_username :: string
  re_email :: string
  re_password :: string
  re_confirm :: string
  re_captcha :: string
  re_busy :: bool
  re_error :: "string option"
  re_pending :: bool

definition mismatch :: "register_page \<Rightarrow> bool" where
  "mismatch p \<longleftrightarrow> length (re_confirm p) > 0 \<and> re_confirm p \<noteq> re_password p"

definition register_submit :: "register_page \<Rightarrow> register_page \<times> registration option" where
  "register_submit p =
     (if re_busy p then (p, None)
      else if length (re_password p) < MIN_PASSWORD_LENGTH
        then (p\<lparr>re_error := Some (''Password must be at least '' @ nat_to_string MIN_PASSWORD_LENGTH @ '' characters.'')\<rparr>, None)
      else if re_password p \<noteq> re_confirm p then (p\<lparr>re_error := Some ''The two passwords do not match.''\<rparr>, None)
      else (p\<lparr>re_busy := True, re_error := None\<rparr>,
            Some \<lparr>rg_username = re_username p, rg_email = re_email p, rg_password = re_password p,
                  rg_captcha = some_text (re_captcha p)\<rparr>))"

definition register_settled :: "failure + bool \<Rightarrow> register_page \<Rightarrow> register_page \<times> string option" where
  "register_settled res p =
     (case res of
        Inr True \<Rightarrow> (p\<lparr>re_pending := True, re_busy := False\<rparr>, None)
      | Inr False \<Rightarrow> (p\<lparr>re_busy := False\<rparr>, Some ''/'')
      | Inl e \<Rightarrow>
          (p\<lparr>re_error := Some (api_message ''Could not create the account.'' e), re_captcha := [], re_busy := False\<rparr>, None))"

text \<open>
  The service: what it answers to a registration, to a sign-in and to the request for the profile.  The facade signs a
  new account in with its name and password and nothing else.
\<close>

record service =
  on_register :: "registration \<Rightarrow> failure + bool"
  on_login :: "credentials \<Rightarrow> failure + token_pair"
  on_me :: "failure + user"

definition sign_up :: "service \<Rightarrow> registration \<Rightarrow> session \<Rightarrow> session \<times> (failure + bool)" where
  "sign_up api d s =
     register (on_register api d)
       (on_login api \<lparr>cr_identifier = rg_username d, cr_password = rg_password d, cr_captcha = None\<rparr>) (on_me api) s"

definition sign_in :: "service \<Rightarrow> credentials \<Rightarrow> session \<Rightarrow> session \<times> failure option" where
  "sign_in api c s = login (on_login api c) (on_me api) s"

text \<open>One press of the button, to the end.\<close>

definition press_login :: "service \<Rightarrow> string option \<Rightarrow> login_page \<times> session \<Rightarrow> (login_page \<times> session) \<times> string option" where
  "press_login api returnTo = (\<lambda>(p, s).
     (case login_submit p of
        (p', None) \<Rightarrow> ((p', s), None)
      | (p', Some c) \<Rightarrow>
          (case sign_in api c s of (s', res) \<Rightarrow>
             (case login_settled returnTo res p' of (q, target) \<Rightarrow> ((q, s'), target)))))"

definition press_register :: "service \<Rightarrow> register_page \<times> session \<Rightarrow> (register_page \<times> session) \<times> string option" where
  "press_register api = (\<lambda>(p, s).
     (case register_submit p of
        (p', None) \<Rightarrow> ((p', s), None)
      | (p', Some d) \<Rightarrow>
          (case sign_up api d s of (s', res) \<Rightarrow>
             (case register_settled res p' of (q, target) \<Rightarrow> ((q, s'), target)))))"

text \<open>
  The sign-in page leaves only with a session, and a refusal leaves the session as it was: it navigates exactly when
  the service issued tokens, to the address asked for, and otherwise says why, keeps what was typed and drops the
  challenge, which is good for one attempt.
\<close>
theorem sign_in_page_decides:
  assumes "\<not> li_busy p" "press_login api returnTo (p, s) = ((q, s'), target)"
  defines "c \<equiv> \<lparr>cr_identifier = li_identifier p, cr_password = li_password p, cr_captcha = some_text (li_captcha p)\<rparr>"
  shows "\<not> li_busy q \<and> li_identifier q = li_identifier p \<and> li_password q = li_password p
    \<and> (case on_login api c of
         Inr t \<Rightarrow> target = Some (case returnTo of None \<Rightarrow> ''/'' | Some u \<Rightarrow> u) \<and> s' = loadProfile (on_me api) (start t None s)
       | Inl e \<Rightarrow> target = None \<and> s' = s \<and> li_captcha q = [] \<and> li_error q \<noteq> None
           \<and> (li_needs_verification q \<longleftrightarrow> (\<exists>a. e = ApiFailure a \<and> err_code a = Forbidden)))"
  using assms
  by (auto simp: press_login_def login_submit_def sign_in_def login_def login_settled_def c_def
      split: prod.splits sum.splits failure.splits)

lemma register_submit_idle: "\<not> re_busy p \<Longrightarrow> snd (register_submit p) = Some d \<longleftrightarrow>
    MIN_PASSWORD_LENGTH \<le> length (re_password p) \<and> re_password p = re_confirm p
    \<and> d = \<lparr>rg_username = re_username p, rg_email = re_email p, rg_password = re_password p, rg_captcha = some_text (re_captcha p)\<rparr>"
  by (auto simp: register_submit_def)

text \<open>
  An account is asked for only with a password of eight characters that was typed twice, and the page leaves only when
  the new account is signed in; when it has to be confirmed first, the page says so and the session is as it was.
\<close>
theorem sign_up_page_decides:
  assumes "\<not> re_busy p" "press_register api (p, s) = ((q, s'), target)"
  shows "(target \<noteq> None \<longrightarrow> 8 \<le> length (re_password p) \<and> re_password p = re_confirm p
        \<and> (\<exists>t. s' = loadProfile (on_me api) (start t None s)))
    \<and> (re_pending q \<and> \<not> re_pending p \<longrightarrow> s' = s \<and> target = None) \<and> \<not> re_busy q
    \<and> (target = None \<and> \<not> re_pending q \<longrightarrow> re_error q \<noteq> None \<and> re_password q = re_password p)"
  using assms
  by (auto simp: press_register_def register_submit_def sign_up_def register_def login_def register_settled_def
      MIN_PASSWORD_LENGTH_def split: prod.splits sum.splits bool.splits if_splits)

text \<open>
  A challenge breaks signing up: where the service asks for a challenge at every sign-in and an account needs no
  confirmation, the account is made and the page then reports a failure, because the facade signs in without a token.
\<close>
theorem challenge_breaks_sign_up:
  assumes "\<not> re_busy p" "8 \<le> length (re_password p)" "re_password p = re_confirm p"
    and "\<And>d. on_register api d = Inr False" "\<And>c. cr_captcha c = None \<Longrightarrow> \<exists>e. on_login api c = Inl e"
  shows "\<exists>q. press_register api (p, s) = ((q, s), None) \<and> re_error q \<noteq> None"
proof -
  let ?c = "\<lparr>cr_identifier = re_username p, cr_password = re_password p, cr_captcha = None\<rparr>"
  obtain e where "on_login api ?c = Inl e" using assms(5) [of ?c] by auto
  with assms(1,2,3,4) show ?thesis
    by (auto simp: press_register_def register_submit_def sign_up_def register_def login_def register_settled_def
        MIN_PASSWORD_LENGTH_def)
qed

definition some_tokens :: token_pair where
  "some_tokens = \<lparr>access_token = ''t'', refresh_token = None, expires_in = 900\<rparr>"

text \<open>A service that signs everybody in who passed a challenge.\<close>

definition guarded_service :: service where
  "guarded_service =
     \<lparr>on_register = (\<lambda>d. Inr False),
      on_login = (\<lambda>c. if cr_captcha c = None then Inl (ApiFailure (fromHttp 400 None)) else Inr some_tokens),
      on_me = Inr (some_user ''a'' RUser)\<rparr>"

definition sign_up_form :: register_page where
  "sign_up_form = \<lparr>re_username = ''ann'', re_email = ''a@b.c'', re_password = ''correct horse'', re_confirm = ''correct horse'',
     re_captcha = ''tok'', re_busy = False, re_error = None, re_pending = False\<rparr>"

definition sign_in_form :: login_page where
  "sign_in_form = \<lparr>li_identifier = ''ann'', li_password = ''correct horse'', li_captcha = ''tok'', li_busy = False,
     li_error = None, li_needs_verification = False\<rparr>"

theorem sign_in_page_decides_witness:
  "snd (press_login guarded_service (Some ''/desk'') (sign_in_form, new_session empty_storage)) = Some ''/desk''"
proof -
  obtain q s' target where r: "press_login guarded_service (Some ''/desk'') (sign_in_form, new_session empty_storage) = ((q, s'), target)"
    by (cases "press_login guarded_service (Some ''/desk'') (sign_in_form, new_session empty_storage)") auto
  from sign_in_page_decides [OF _ r] have "target = Some ''/desk''"
    by (simp add: sign_in_form_def guarded_service_def some_text_def)
  with r show ?thesis by simp
qed

theorem sign_up_page_decides_witness:
  "snd (press_register (guarded_service\<lparr>on_login := \<lambda>c. Inr some_tokens\<rparr>) (sign_up_form, new_session empty_storage)) = Some ''/''
   \<and> 8 \<le> length (re_password sign_up_form)"
proof -
  let ?api = "guarded_service\<lparr>on_login := \<lambda>c. Inr some_tokens\<rparr>" and ?s = "new_session empty_storage"
  obtain q s' target where r: "press_register ?api (sign_up_form, ?s) = ((q, s'), target)"
    by (cases "press_register ?api (sign_up_form, ?s)") auto
  then have "target = Some ''/''"
    by (auto simp: press_register_def register_submit_def sign_up_def register_def login_def register_settled_def
        sign_up_form_def guarded_service_def MIN_PASSWORD_LENGTH_def)
  with sign_up_page_decides [OF _ r] r show ?thesis by (simp add: sign_up_form_def)
qed

theorem challenge_breaks_sign_up_witness:
  "\<exists>q. press_register guarded_service (sign_up_form, new_session empty_storage) = ((q, new_session empty_storage), None)
     \<and> re_error q \<noteq> None"
  using challenge_breaks_sign_up [of sign_up_form guarded_service "new_session empty_storage"]
  by (auto simp: sign_up_form_def guarded_service_def)

section \<open>Confirming an address and coming back from a provider\<close>

record verify_page =
  ve_email :: string
  ve_sending :: bool
  ve_sent :: bool

definition resend :: "verify_page \<Rightarrow> verify_page \<times> string option" where
  "resend p = (if ve_sending p then (p, None) else (p\<lparr>ve_sending := True\<rparr>, Some (ve_email p)))"

definition resend_settled :: "failure option \<Rightarrow> verify_page \<Rightarrow> verify_page" where
  "resend_settled res p = p\<lparr>ve_sending := False, ve_sent := True\<rparr>"

definition redeems :: "string \<Rightarrow> string option" where
  "redeems tok = (if tok = [] then None else Some tok)"

definition describe_reason :: "string \<Rightarrow> string" where
  "describe_reason reason =
     (if reason = ''email_taken'' then ''An account already uses that email address. Sign in with your password, ''
           @ ''then link the provider from your account settings.''
      else if reason = ''access_denied'' then ''You declined to share your details with ScoutPulse.''
      else if reason = ''unknown_provider'' \<or> reason = ''not_enabled'' then ''That sign-in method is not available.''
      else ''Something went wrong signing you in. Please try again.'')"

text \<open>The callback, from its two parameters: a message, or the code to exchange.\<close>

definition callback_start :: "string option \<Rightarrow> string option \<Rightarrow> string + string" where
  "callback_start failed given =
     (if or_empty failed \<noteq> [] then Inl (describe_reason (or_empty failed))
      else if or_empty given = [] then Inl ''That sign-in link is missing its code. Please try again.''
      else Inr (or_empty given))"

definition callback :: "(string \<Rightarrow> failure + token_pair) \<Rightarrow> failure + user \<Rightarrow> string option \<Rightarrow> string option \<Rightarrow> session
    \<Rightarrow> session \<times> (string + string)" where
  "callback exchange me failed given s =
     (case callback_start failed given of
        Inl m \<Rightarrow> (s, Inl m)
      | Inr c \<Rightarrow>
          (case completeOAuth (exchange c) me s of
             (s', None) \<Rightarrow> (s', Inr ''/'')
           | (s', Some e) \<Rightarrow> (s', Inl ''That sign-in link has expired or was already used. Please try again.'')))"

text \<open>
  Nothing but an exchanged code signs in on the way back: without a code, with a refusal, or when the code is not
  accepted the session is as it was and the page says why.
\<close>
theorem callback_signs_in_by_code_only:
  "case callback exchange me failed given s of
     (s', Inl m) \<Rightarrow> s' = s \<and> m \<noteq> []
   | (s', Inr target) \<Rightarrow> target = ''/'' \<and> (failed = None \<or> failed = Some [])
       \<and> (\<exists>c t. given = Some c \<and> c \<noteq> [] \<and> exchange c = Inr t \<and> s' = loadProfile me (start t None s))"
  by (cases failed; cases given)
    (auto simp: callback_def callback_start_def describe_reason_def completeOAuth_def or_empty_def
      split: sum.splits prod.splits if_splits)

section \<open>The account page\<close>

record account_page =
  ac_current :: string
  ac_new :: string
  ac_changing :: bool
  ac_error :: "string option"
  ac_field_error :: "string option"
  ac_done :: bool
  ac_unlinking :: "string option"
  ac_unlink_error :: "string option"
  ac_reloads :: nat

definition grantSummary :: "nat \<Rightarrow> string" where
  "grantSummary n =
     (if n = 0 then ''No clubs assigned yet.'' else if n = 1 then ''Editor of 1 club.''
      else ''Editor of '' @ nat_to_string n @ '' clubs.'')"

definition change_password :: "account_page \<Rightarrow> account_page \<times> (string \<times> string) option" where
  "change_password p =
     (if ac_changing p then (p, None)
      else (let q = p\<lparr>ac_done := False, ac_error := None\<rparr> in
            if length (ac_new p) < MIN_PASSWORD_LENGTH
              then (q\<lparr>ac_field_error := Some (''At least '' @ nat_to_string MIN_PASSWORD_LENGTH @ '' characters.'')\<rparr>, None)
            else if ac_new p = ac_current p
              then (q\<lparr>ac_field_error := Some ''Must differ from the current password.''\<rparr>, None)
            else (q\<lparr>ac_field_error := None, ac_changing := True\<rparr>, Some (ac_current p, ac_new p))))"

definition password_settled :: "caught option \<Rightarrow> account_page \<Rightarrow> account_page" where
  "password_settled res p =
     (case res of
        None \<Rightarrow> p\<lparr>ac_current := [], ac_new := [], ac_done := True, ac_changing := False\<rparr>
      | Some e \<Rightarrow> p\<lparr>ac_error := Some (messageFor e ''Could not change the password.''), ac_changing := False\<rparr>)"

definition unlink :: "string \<Rightarrow> account_page \<Rightarrow> account_page \<times> string option" where
  "unlink provider p =
     (if or_empty (ac_unlinking p) \<noteq> [] then (p, None)
      else (p\<lparr>ac_unlinking := Some provider, ac_unlink_error := None\<rparr>, Some provider))"

definition unlink_settled :: "caught option \<Rightarrow> account_page \<Rightarrow> account_page" where
  "unlink_settled res p =
     (case res of
        None \<Rightarrow> p\<lparr>ac_reloads := Suc (ac_reloads p), ac_unlinking := None\<rparr>
      | Some e \<Rightarrow> p\<lparr>ac_unlink_error := Some (messageFor e ''Could not unlink that provider.''), ac_unlinking := None\<rparr>)"

text \<open>What may happen on the page: the fields are typed into, the buttons are pressed, answers arrive.\<close>

datatype account_event =
    TypeCurrent string | TypeNew string | PressChange | PasswordAnswer "caught option" | PressUnlink string
  | UnlinkAnswer "caught option"

fun account_step :: "account_event \<Rightarrow> account_page \<times> (string \<times> string) list \<Rightarrow> account_page \<times> (string \<times> string) list" where
  "account_step (TypeCurrent t) (p, out) = (p\<lparr>ac_current := t\<rparr>, out)"
| "account_step (TypeNew t) (p, out) = (p\<lparr>ac_new := t\<rparr>, out)"
| "account_step PressChange (p, out) =
     (case change_password p of (q, None) \<Rightarrow> (q, out) | (q, Some c) \<Rightarrow> (q, out @ [c]))"
| "account_step (PasswordAnswer res) (p, out) = (if out = [] then (p, out) else (password_settled res p, tl out))"
| "account_step (PressUnlink v) (p, out) = (fst (unlink v p), out)"
| "account_step (UnlinkAnswer res) (p, out) = (if ac_unlinking p = None then (p, out) else (unlink_settled res p, out))"

definition new_account :: account_page where
  "new_account = \<lparr>ac_current = [], ac_new = [], ac_changing = False, ac_error = None, ac_field_error = None, ac_done = False,
     ac_unlinking = None, ac_unlink_error = None, ac_reloads = 0\<rparr>"

definition account_inv :: "account_page \<times> (string \<times> string) list \<Rightarrow> bool" where
  "account_inv st \<longleftrightarrow> (case st of (p, out) \<Rightarrow>
     (if ac_changing p
      then \<not> ac_done p \<and> ac_error p = None \<and> (\<exists>old new. out = [(old, new)] \<and> 8 \<le> length new \<and> new \<noteq> old)
      else out = [] \<and> (ac_done p \<longrightarrow> ac_error p = None)))"

lemma account_inv_step: "account_inv st \<Longrightarrow> account_inv (account_step e st)"
  by (cases st; cases e)
    (auto simp: account_inv_def change_password_def password_settled_def unlink_def unlink_settled_def Let_def
      MIN_PASSWORD_LENGTH_def split: option.splits if_splits)

text \<open>
  Whatever is typed, pressed and answered on the account page, at most one change of password is on its way, never to a
  password of fewer than eight characters or to the current one, and the page says that it is done only when no change
  is under way and none has failed since.
\<close>
theorem one_password_change_at_a_time:
  "case fold account_step es (new_account, []) of (p, out) \<Rightarrow>
     length out \<le> 1 \<and> list_all (\<lambda>(old, new). 8 \<le> length new \<and> new \<noteq> old) out
     \<and> (ac_done p \<longrightarrow> out = [] \<and> ac_error p = None)"
proof -
  have "account_inv (fold account_step es (new_account, []))"
  proof (induction es rule: rev_induct)
    case Nil
    show ?case by (simp add: account_inv_def new_account_def)
  next
    case (snoc e es)
    then show ?case using account_inv_step by simp
  qed
  then show ?thesis by (auto simp: account_inv_def split: prod.splits if_splits)
qed

theorem one_password_change_at_a_time_witness:
  "length (snd (fold account_step [TypeNew ''correct horse'', PressChange, PressChange] (new_account, []))) \<le> 1"
  using one_password_change_at_a_time [of "[TypeNew ''correct horse'', PressChange, PressChange]"]
  by (simp split: prod.splits)

text \<open>
  A wrong current password reads as an expired session: the service answers it with 401, and the message the page means
  to show is replaced by the one for a lost session.
\<close>
theorem wrong_password_reads_as_expired:
  "ac_error (password_settled (Some (CaughtApi (fromHttp 401 (Some (JObj [''error'' \<mapsto> JStr ''current password is incorrect''])))))  p)
     = Some ''Your session has expired. Sign in and try again.''"
  by (simp add: password_settled_def messageFor_def fromHttp_def codeForStatus_def body_field_def isApiErrorCode_def
      str_field_def)

section \<open>Administration of accounts\<close>

record users_page =
  us_query :: string
  us_active :: string
  us_page :: "nat \<times> nat"
  us_busy :: "string option"
  us_error :: "string option"
  us_reloads :: nat

definition PAGE_START :: "nat \<times> nat" where
  "PAGE_START = (25, 0)"

text \<open>What \<open>list\<close> is asked: limit, offset and \<open>q || undefined\<close>.\<close>

definition users_query :: "users_page \<Rightarrow> (nat \<times> nat) \<times> string option" where
  "users_query p = (us_page p, some_text (us_active p))"

definition isSelf :: "user \<Rightarrow> session \<Rightarrow> bool" where
  "isSelf u s \<longleftrightarrow> (case cur_user s of None \<Rightarrow> False | Some me \<Rightarrow> user_id u = user_id me)"

definition users_search :: "users_page \<Rightarrow> users_page" where
  "users_search p = p\<lparr>us_page := PAGE_START, us_active := trim (us_query p)\<rparr>"

definition clearSearch :: "users_page \<Rightarrow> users_page" where
  "clearSearch p = users_search (p\<lparr>us_query := []\<rparr>)"

definition users_goTo :: "nat \<times> nat \<Rightarrow> users_page \<Rightarrow> users_page" where
  "users_goTo q p = p\<lparr>us_page := q\<rparr>"

text \<open>The question before a change of role, and the change: the second result is what the control then shows.\<close>

definition role_question :: "user \<Rightarrow> role \<Rightarrow> session \<Rightarrow> (role \<Rightarrow> string) \<Rightarrow> string" where
  "role_question u r s role_name =
     ''Change '' @ username u @ '' from '' @ role_name (user_role u) @ '' to '' @ role_name r @ ''?''
     @ (if isSelf u s
        then [CHR 0x0A, CHR 0x0A] @ ''This is your own account. You will be signed out immediately, and you may not be able to undo it.''
        else [CHR 0x0A, CHR 0x0A] @ username u
          @ '' will be signed out of every device and will have to sign in again.'')"

definition change_role :: "user \<Rightarrow> role \<Rightarrow> bool \<Rightarrow> users_page \<Rightarrow> users_page \<times> role \<times> (string \<times> role) option" where
  "change_role u r confirmed p =
     (if r = user_role u then (p, r, None)
      else if \<not> confirmed then (p, user_role u, None)
      else (p\<lparr>us_busy := Some (user_id u), us_error := None\<rparr>, r, Some (user_id u, r)))"

definition role_settled :: "user \<Rightarrow> role \<Rightarrow> caught option \<Rightarrow> users_page \<Rightarrow> users_page \<times> role" where
  "role_settled u r res p =
     (case res of
        None \<Rightarrow> (p\<lparr>us_reloads := Suc (us_reloads p), us_busy := None\<rparr>, r)
      | Some e \<Rightarrow> (p\<lparr>us_error := Some (messageFor e ''Could not change the role.''), us_busy := None\<rparr>, user_role u))"

definition remove_user :: "user \<Rightarrow> bool \<Rightarrow> users_page \<Rightarrow> users_page \<times> string option" where
  "remove_user u confirmed p =
     (if \<not> confirmed then (p, None) else (p\<lparr>us_busy := Some (user_id u), us_error := None\<rparr>, Some (user_id u)))"

definition remove_settled :: "caught option \<Rightarrow> users_page \<Rightarrow> users_page" where
  "remove_settled res p =
     (case res of
        None \<Rightarrow> p\<lparr>us_reloads := Suc (us_reloads p), us_busy := None\<rparr>
      | Some e \<Rightarrow> p\<lparr>us_error := Some (messageFor e ''Could not delete the account.''), us_busy := None\<rparr>)"

text \<open>The controls of a row.\<close>

definition row_disabled :: "users_page \<Rightarrow> user \<Rightarrow> bool" where
  "row_disabled p u \<longleftrightarrow> us_busy p = Some (user_id u)"

definition offers_delete :: "user \<Rightarrow> session \<Rightarrow> bool" where
  "offers_delete u s \<longleftrightarrow> \<not> isSelf u s"

text \<open>
  The role control tells the truth: a request is sent only for another role and after the question, and when the change
  is over the control shows the role the account has, the new one after success and the old one after a refusal or a no.
\<close>
theorem role_control_tells_the_truth:
  assumes "change_role u r confirmed p = (p', shown, sent)"
  shows "case sent of
      None \<Rightarrow> p' = p \<and> shown = user_role u
    | Some (i, r') \<Rightarrow> i = user_id u \<and> r' = r \<and> r \<noteq> user_role u \<and> confirmed \<and> row_disabled p' u
        \<and> (\<forall>res. snd (role_settled u r res p') = (if res = None then r else user_role u)
             \<and> \<not> row_disabled (fst (role_settled u r res p')) u)"
  using assms by (auto simp: change_role_def role_settled_def row_disabled_def split: if_splits option.splits)

theorem role_control_tells_the_truth_witness:
  "\<exists>p' shown. change_role (some_user ''b'' RUser) RAdmin True
      \<lparr>us_query = [], us_active = [], us_page = PAGE_START, us_busy = None, us_error = None, us_reloads = 0\<rparr>
        = (p', shown, Some (''b'', RAdmin)) \<and> row_disabled p' (some_user ''b'' RUser)"
proof -
  let ?p = "\<lparr>us_query = [], us_active = [], us_page = PAGE_START, us_busy = None, us_error = None, us_reloads = 0\<rparr>"
  obtain p' shown sent where r: "change_role (some_user ''b'' RUser) RAdmin True ?p = (p', shown, sent)"
    by (cases "change_role (some_user ''b'' RUser) RAdmin True ?p") auto
  then have "sent = Some (''b'', RAdmin)" by (auto simp: change_role_def some_user_def)
  with role_control_tells_the_truth [OF r] r show ?thesis by auto
qed

text \<open>
  One slot for the busy row is not enough: a second row takes it over, so the first row's button works again while its
  own request is still on its way, and the answer of either frees both.
\<close>
theorem second_row_frees_the_first:
  assumes "user_id u \<noteq> user_id v"
  shows "row_disabled (fst (remove_user u True p)) u
    \<and> \<not> row_disabled (fst (remove_user v True (fst (remove_user u True p)))) u
    \<and> \<not> row_disabled (remove_settled res (fst (remove_user v True (fst (remove_user u True p))))) v"
  using assms by (auto simp: row_disabled_def remove_user_def remove_settled_def split: option.splits)

theorem second_row_frees_the_first_witness:
  "\<not> row_disabled (fst (remove_user (some_user ''b'' RUser) True (fst (remove_user (some_user ''a'' RUser) True
      \<lparr>us_query = [], us_active = [], us_page = PAGE_START, us_busy = None, us_error = None, us_reloads = 0\<rparr>))))
      (some_user ''a'' RUser)"
  using second_row_frees_the_first [of "some_user ''a'' RUser" "some_user ''b'' RUser"
      "\<lparr>us_query = [], us_active = [], us_page = PAGE_START, us_busy = None, us_error = None, us_reloads = 0\<rparr>" None]
  by (simp add: some_user_def)

section \<open>Editors of a club\<close>

record editors_page =
  ed_query :: string
  ed_active :: string
  ed_busy :: "string option"
  ed_error :: "string option"
  ed_grants :: "string list option"
  ed_directory :: "user list option"

definition namesById :: "session \<Rightarrow> editors_page \<Rightarrow> (string \<rightharpoonup> string)" where
  "namesById s p =
     (let m = map_of (rev (map (\<lambda>u. (user_id u, username u)) (case ed_directory p of None \<Rightarrow> [] | Some us \<Rightarrow> us))) in
      case cur_user s of None \<Rightarrow> m | Some me \<Rightarrow> m(user_id me \<mapsto> username me))"

definition nameFor :: "session \<Rightarrow> editors_page \<Rightarrow> string \<Rightarrow> string" where
  "nameFor s p i = (case namesById s p i of None \<Rightarrow> i | Some n \<Rightarrow> n)"

definition alreadyGranted :: "editors_page \<Rightarrow> string \<Rightarrow> bool" where
  "alreadyGranted p i \<longleftrightarrow> i \<in> set (case ed_grants p of None \<Rightarrow> [] | Some gs \<Rightarrow> gs)"

definition editors_search :: "editors_page \<Rightarrow> editors_page" where
  "editors_search p = p\<lparr>ed_active := trim (ed_query p)\<rparr>"

definition candidates_query :: "editors_page \<Rightarrow> string option" where
  "candidates_query p = some_text (ed_active p)"

definition grant :: "string \<Rightarrow> editors_page \<Rightarrow> editors_page" where
  "grant i p = p\<lparr>ed_busy := Some i, ed_error := None\<rparr>"

definition grant_settled :: "caught option \<Rightarrow> editors_page \<Rightarrow> editors_page" where
  "grant_settled res p =
     (case res of None \<Rightarrow> p\<lparr>ed_busy := None\<rparr>
      | Some e \<Rightarrow> p\<lparr>ed_error := Some (messageFor e ''Could not grant access.''), ed_busy := None\<rparr>)"

definition revoke_question :: "session \<Rightarrow> editors_page \<Rightarrow> string \<Rightarrow> string" where
  "revoke_question s p i = ''Revoke '' @ nameFor s p i @ [CHR 0x27] @ ''s access to this club? It applies immediately.''"

definition revoke :: "string \<Rightarrow> bool \<Rightarrow> editors_page \<Rightarrow> editors_page \<times> string option" where
  "revoke i confirmed p = (if \<not> confirmed then (p, None) else (p\<lparr>ed_busy := Some i, ed_error := None\<rparr>, Some i))"

definition revoke_settled :: "caught option \<Rightarrow> editors_page \<Rightarrow> editors_page" where
  "revoke_settled res p =
     (case res of None \<Rightarrow> p\<lparr>ed_busy := None\<rparr>
      | Some e \<Rightarrow> p\<lparr>ed_error := Some (messageFor e ''Could not revoke access.''), ed_busy := None\<rparr>)"

text \<open>
  A grant is never shown without a name to read: an account of the directory under its username, the administrator
  under the own one whatever page of accounts was loaded, and anybody else under the id.
\<close>
theorem every_grant_is_named:
  assumes "distinct (map user_id us)" "ed_directory p = Some us"
  shows "nameFor s p i =
    (if cur_user s \<noteq> None \<and> user_id (the (cur_user s)) = i then username (the (cur_user s))
     else case find (\<lambda>u. user_id u = i) us of Some u \<Rightarrow> username u | None \<Rightarrow> i)"
proof -
  have "map_of (rev (map (\<lambda>u. (user_id u, username u)) us)) i = map_option username (find (\<lambda>u. user_id u = i) us)"
    using assms(1)
  proof (induction us)
    case (Cons u us)
    have "find (\<lambda>v. user_id v = i) us = None" if "user_id u = i"
      using Cons.prems that by (simp add: find_None_iff) (metis imageI)
    with Cons show ?case by (auto simp: map_add_def split: option.splits)
  qed simp
  then show ?thesis
    using assms(2) by (auto simp: nameFor_def namesById_def Let_def split: option.splits)
qed

theorem every_grant_is_named_witness:
  "nameFor (new_session empty_storage)
     \<lparr>ed_query = [], ed_active = [], ed_busy = None, ed_error = None, ed_grants = Some [''b''],
      ed_directory = Some [some_user ''b'' RUser]\<rparr> ''b'' = ''u''"
  using every_grant_is_named [of "[some_user ''b'' RUser]"
      "\<lparr>ed_query = [], ed_active = [], ed_busy = None, ed_error = None, ed_grants = Some [''b''],
        ed_directory = Some [some_user ''b'' RUser]\<rparr>" "new_session empty_storage" "''b''"]
  by (simp add: some_user_def new_session_def)

section \<open>The challenge\<close>

text \<open>
  The scripts of the two providers on the page: a tag is loading, loaded or failed, and a script that loads installs its
  global.  \<open>loadScript\<close> resolves at once, waits for the tag's events, or waits for events that are over.
\<close>

datatype script_state = Loading | Loaded | Failed

record scripts =
  globals :: "string list"
  tags :: "(string \<times> script_state) list"

datatype wait = Ready | Pending | Forever

record script_config =
  src :: string
  global_name :: string

definition SCRIPTS :: "string \<Rightarrow> script_config option" where
  "SCRIPTS provider =
     (if provider = ''turnstile''
      then Some \<lparr>src = ''https://challenges.cloudflare.com/turnstile/v0/api.js?render=explicit'', global_name = ''turnstile''\<rparr>
      else if provider = ''recaptcha''
      then Some \<lparr>src = ''https://www.google.com/recaptcha/api.js?render=explicit'', global_name = ''grecaptcha''\<rparr>
      else None)"

definition loadScript :: "script_config \<Rightarrow> scripts \<Rightarrow> scripts \<times> wait" where
  "loadScript c e =
     (if global_name c \<in> set (globals e) then (e, Ready)
      else (case map_of (tags e) (src c) of
              Some Loading \<Rightarrow> (e, Pending)
            | Some _ \<Rightarrow> (e, Forever)
            | None \<Rightarrow> (e\<lparr>tags := tags e @ [(src c, Loading)]\<rparr>, Pending)))"

definition render_captcha :: "bool \<Rightarrow> string \<Rightarrow> string \<Rightarrow> scripts \<Rightarrow> scripts \<times> wait option" where
  "render_captcha in_browser site_key provider e =
     (if \<not> in_browser \<or> site_key = [] then (e, None)
      else (case SCRIPTS provider of None \<Rightarrow> (e, None) | Some c \<Rightarrow> (case loadScript c e of (e', w) \<Rightarrow> (e', Some w))))"

datatype captcha_event = Rendered bool string string | ScriptLoads script_config | ScriptFails script_config

fun captcha_step :: "captcha_event \<Rightarrow> scripts \<Rightarrow> scripts" where
  "captcha_step (Rendered b k v) e = fst (render_captcha b k v e)"
| "captcha_step (ScriptLoads c) e =
     (if map_of (tags e) (src c) = Some Loading
      then e\<lparr>tags := map (\<lambda>(s, st). (s, if s = src c then Loaded else st)) (tags e), globals := global_name c # globals e\<rparr>
      else e)"
| "captcha_step (ScriptFails c) e =
     (if map_of (tags e) (src c) = Some Loading
      then e\<lparr>tags := map (\<lambda>(s, st). (s, if s = src c then Failed else st)) (tags e)\<rparr> else e)"

text \<open>The token of the form: what the widget hands over, dropped when it expires or fails.\<close>

datatype widget_event = Passed string | Expired | Broken

fun token_after :: "widget_event \<Rightarrow> string \<Rightarrow> string" where
  "token_after (Passed t) _ = t"
| "token_after Expired _ = []"
| "token_after Broken _ = []"

lemma retagged [simp]: "fst \<circ> (\<lambda>(s, st). (s, f s st)) = fst"
  by auto

text \<open>The script of a provider is put into a page once, however often forms with a challenge are opened.\<close>
theorem script_added_once:
  "distinct (map fst (tags (fold captcha_step es \<lparr>globals = [], tags = []\<rparr>)))"
proof (induction es rule: rev_induct)
  case (snoc e es)
  then show ?case
    by (cases e)
      (auto simp: render_captcha_def loadScript_def map_of_eq_None_iff
        split: option.splits script_state.splits)
qed simp

text \<open>
  A script that failed to load once is neither loaded again nor given up: the second form waits for the events of a tag
  that has had them.
\<close>
theorem failed_script_is_awaited_forever:
  assumes "SCRIPTS provider = Some c" "site_key \<noteq> []"
  shows "snd (render_captcha True site_key provider
      (fold captcha_step [Rendered True site_key provider, ScriptFails c] \<lparr>globals = [], tags = []\<rparr>)) = Some Forever"
  using assms by (simp add: render_captcha_def loadScript_def)

theorem failed_script_is_awaited_forever_witness:
  "\<exists>c. snd (render_captcha True ''key'' ''turnstile''
      (fold captcha_step [Rendered True ''key'' ''turnstile'', ScriptFails c] \<lparr>globals = [], tags = []\<rparr>)) = Some Forever"
proof -
  obtain c where "SCRIPTS ''turnstile'' = Some c" by (simp add: SCRIPTS_def)
  from failed_script_is_awaited_forever [OF this, of "''key''"] show ?thesis by blast
qed

section \<open>The header\<close>

text \<open>The search box: the query it navigates with, and signing out, which leads home.\<close>

definition header_search :: "string \<Rightarrow> string option" where
  "header_search q = (if length (trim q) < 2 then None else Some (trim q))"

definition signOut :: "failure option \<Rightarrow> session \<Rightarrow> session \<times> string" where
  "signOut answer s = (logout answer s, ''/'')"

text \<open>The link a provider's button follows, with its label; \<open>title_case\<close> is Angular's pipe.\<close>

definition provider_label :: "(string \<Rightarrow> string) \<Rightarrow> string \<Rightarrow> string" where
  "provider_label title_case provider = (if provider = ''google'' then ''Gmail'' else title_case provider)"

end
