(* ===== verification/Server_Policy.thy ===== *)
theory Server_Policy
  imports Prelude
begin

text \<open>
  The Content-Security-Policy of the rendering server (\<open>src/server.ts\<close>): which inline scripts of a page are found, which
  of them the policy names, and the headers of every answer.  The hash of a script, with its quotes, is an argument.
\<close>

section \<open>Inline scripts\<close>

definition word_char :: "char \<Rightarrow> bool" where
  "word_char c \<longleftrightarrow> (let n = (of_char c :: nat) in
     48 \<le> n \<and> n \<le> 57 \<or> 65 \<le> n \<and> n \<le> 90 \<or> 97 \<le> n \<and> n \<le> 122 \<or> n = 95)"

text \<open>Whether a text begins with a word, upper and lower case taken for one, and what comes behind it.\<close>

fun after_word :: "string \<Rightarrow> string \<Rightarrow> string option" where
  "after_word [] s = Some s"
| "after_word (w # ws) [] = None"
| "after_word (w # ws) (c # s) = (if lower c = w then after_word ws s else None)"

lemma after_word_length: "after_word w s = Some r \<Longrightarrow> length r = length s - length w \<and> length w \<le> length s"
  by (induction w s rule: after_word.induct) (auto split: if_splits)

text \<open>The lazy group: everything up to the first closing tag, and what comes behind that.\<close>

fun until_close :: "string \<Rightarrow> (string \<times> string) option" where
  "until_close [] = None"
| "until_close (c # s) =
     (case after_word ''</script>'' (c # s) of
        Some r \<Rightarrow> Some ([], r)
      | None \<Rightarrow> map_option (\<lambda>(b, r). (c # b, r)) (until_close s))"

lemma until_close_length: "until_close s = Some (b, r) \<Longrightarrow> length r < length s"
proof (induction s arbitrary: b)
  case (Cons c s)
  show ?case
  proof (cases "after_word ''</script>'' (c # s)")
    case None
    with Cons show ?thesis by (auto simp del: after_word.simps)
  next
    case (Some r')
    with Cons.prems after_word_length [OF Some] show ?thesis by (auto simp del: after_word.simps)
  qed
qed simp

text \<open>A script element at the head of a text: \<open><script\b([^>]*)>\<close>, its body, and the rest.\<close>

definition script_here :: "string \<Rightarrow> (string \<times> string \<times> string) option" where
  "script_here s =
     (case after_word ''<script'' s of
        None \<Rightarrow> None
      | Some t \<Rightarrow>
          if t \<noteq> [] \<and> word_char (hd t) then None
          else (case dropWhile (\<lambda>c. c \<noteq> CHR ''>'') t of
                  [] \<Rightarrow> None
                | _ # u \<Rightarrow> map_option (\<lambda>(b, r). (takeWhile (\<lambda>c. c \<noteq> CHR ''>'') t, b, r)) (until_close u)))"

lemma script_here_shorter: "script_here s = Some (a, b, r) \<Longrightarrow> length r < length s"
proof -
  assume h: "script_here s = Some (a, b, r)"
  then obtain t where t: "after_word ''<script'' s = Some t"
    by (auto simp: script_here_def simp del: after_word.simps split: option.splits)
  with h obtain c u where u: "dropWhile (\<lambda>c. c \<noteq> CHR ''>'') t = c # u" "until_close u = Some (b, r)"
    by (auto simp: script_here_def simp del: after_word.simps split: if_splits list.splits)
  have "length (c # u) \<le> length t" using length_dropWhile_le [of "\<lambda>c. c \<noteq> CHR ''>''" t] u(1) by simp
  with after_word_length [OF t] until_close_length [OF u(2)] show ?thesis by simp
qed

text \<open>\<open>matchAll\<close>: the matches from left to right, each search going on behind the last one.\<close>

function all_scripts :: "string \<Rightarrow> (string \<times> string) list" where
  "all_scripts s =
     (if s = [] then []
      else (case script_here s of
              Some (a, b, r) \<Rightarrow> (a, b) # all_scripts r
            | None \<Rightarrow> all_scripts (tl s)))"
  by pat_completeness auto
termination
  by (relation "measure length") (auto dest: script_here_shorter)

declare all_scripts.simps [simp del]

text \<open>The tests on the attributes: \<open>/\bsrc\s*=/i\<close>, with whether the character before is of a word, and the type of JSON blocks.\<close>

fun has_src :: "bool \<Rightarrow> string \<Rightarrow> bool" where
  "has_src before [] = False"
| "has_src before (c # s) =
     (\<not> before \<and> (case after_word ''src'' (c # s) of
                     Some t \<Rightarrow> (case dropWhile is_ws t of e # _ \<Rightarrow> e = CHR ''='' | [] \<Rightarrow> False)
                   | None \<Rightarrow> False)
      \<or> has_src (word_char c) s)"

definition json_here :: "string \<Rightarrow> bool" where
  "json_here s =
     (case after_word ''type'' s of
        None \<Rightarrow> False
      | Some t \<Rightarrow>
          (case dropWhile is_ws t of
             [] \<Rightarrow> False
           | e # u \<Rightarrow> e = CHR ''='' \<and>
               (let v = dropWhile is_ws u;
                    w = (if v \<noteq> [] \<and> (hd v = CHR 0x22 \<or> hd v = CHR 0x27) then tl v else v)
                in case after_word ''application/'' w of
                     None \<Rightarrow> False
                   | Some x \<Rightarrow> after_word ''ld+json'' x \<noteq> None \<or> after_word ''json'' x \<noteq> None)))"

fun has_json_type :: "string \<Rightarrow> bool" where
  "has_json_type [] = False"
| "has_json_type (c # s) = (json_here (c # s) \<or> has_json_type s)"

definition inlineScripts :: "string \<Rightarrow> string list" where
  "inlineScripts html =
     map snd (filter (\<lambda>(a, b). \<not> has_src False a \<and> \<not> has_json_type a \<and> trim b \<noteq> []) (all_scripts html))"

section \<open>The bootstrap of event replay\<close>

definition is_lower :: "char \<Rightarrow> bool" where
  "is_lower c \<longleftrightarrow> (let n = (of_char c :: nat) in 97 \<le> n \<and> n \<le> 122)"

definition event_name :: "string \<Rightarrow> bool" where
  "event_name s \<longleftrightarrow> s \<noteq> [] \<and> list_all is_lower s"

definition quoted :: "string \<Rightarrow> string" where
  "quoted s = [CHR 0x22] @ s @ [CHR 0x22]"

definition BOOT_OPEN :: string where
  "BOOT_OPEN = ''window.__jsaction_bootstrap(document.body,'' @ quoted ''ng'' @ '',[''"

definition bootstrap :: "string list \<Rightarrow> string list \<Rightarrow> string" where
  "bootstrap xs ys = BOOT_OPEN @ join '','' (map quoted xs) @ ''],['' @ join '','' (map quoted ys) @ '']);''"

text \<open>The matcher: a literal, one name in quotes, and a list of them that may be empty.\<close>

fun literal :: "string \<Rightarrow> string \<Rightarrow> string option" where
  "literal [] s = Some s"
| "literal (w # ws) [] = None"
| "literal (w # ws) (c # s) = (if c = w then literal ws s else None)"

definition a_name :: "string \<Rightarrow> (string \<times> string) option" where
  "a_name s =
     (case s of
        [] \<Rightarrow> None
      | q # t \<Rightarrow>
          (let n = takeWhile is_lower t; r = dropWhile is_lower t in
           if q = CHR 0x22 \<and> n \<noteq> [] \<and> r \<noteq> [] \<and> hd r = CHR 0x22 then Some (n, tl r) else None))"

lemma a_name_Some:
  "a_name s = Some (n, r) \<longleftrightarrow> event_name n \<and> s = quoted n @ r"
proof
  assume "a_name s = Some (n, r)"
  then obtain q t where s: "s = q # t" and q: "q = CHR 0x22" and n: "n = takeWhile is_lower t" "n \<noteq> []"
      and h: "dropWhile is_lower t \<noteq> []" "hd (dropWhile is_lower t) = CHR 0x22" "r = tl (dropWhile is_lower t)"
    by (auto simp: a_name_def Let_def split: list.splits if_splits)
  have "dropWhile is_lower t = CHR 0x22 # r" using h by (cases "dropWhile is_lower t") simp_all
  then have "t = n @ CHR 0x22 # r" using n(1) by (metis takeWhile_dropWhile_id)
  moreover have "list_all is_lower n" using n(1) by (auto simp: list_all_iff dest: set_takeWhileD)
  ultimately show "event_name n \<and> s = quoted n @ r" using n(2) s q by (simp add: event_name_def quoted_def)
next
  assume e: "event_name n \<and> s = quoted n @ r"
  then have "list_all is_lower n" "n \<noteq> []" by (simp_all add: event_name_def)
  moreover have "\<not> is_lower CHR 0x22" by (simp add: is_lower_def)
  ultimately show "a_name s = Some (n, r)"
    using e by (simp add: a_name_def quoted_def Let_def list_all_iff takeWhile_append dropWhile_append)
qed

lemma a_name_shorter: "a_name s = Some (n, r) \<Longrightarrow> length r < length s"
  by (simp add: a_name_Some quoted_def)

text \<open>\<open>("[a-z]+"(,"[a-z]+")*)?\<close>: as many names as there are, commas between them.\<close>

function more_names :: "string \<Rightarrow> string list \<times> string" where
  "more_names s =
     (case s of
        [] \<Rightarrow> ([], s)
      | c # t \<Rightarrow>
          if c = CHR '','' then
            (case a_name t of
               Some (n, r) \<Rightarrow> (case more_names r of (ns, u) \<Rightarrow> (n # ns, u))
             | None \<Rightarrow> ([], s))
          else ([], s))"
  by pat_completeness auto
termination
  by (relation "measure length") (auto dest: a_name_shorter)

declare more_names.simps [simp del]

definition names :: "string \<Rightarrow> string list \<times> string" where
  "names s = (case a_name s of None \<Rightarrow> ([], s) | Some (n, r) \<Rightarrow> (case more_names r of (ns, u) \<Rightarrow> (n # ns, u)))"

definition is_bootstrap :: "string \<Rightarrow> bool" where
  "is_bootstrap s =
     (case literal BOOT_OPEN s of
        None \<Rightarrow> False
      | Some t \<Rightarrow>
          (case literal ''],['' (snd (names t)) of
             None \<Rightarrow> False
           | Some u \<Rightarrow> literal '']);'' (snd (names u)) = Some []))"

lemma literal_Some: "literal w s = Some r \<longleftrightarrow> s = w @ r"
  by (induction w s rule: literal.induct) auto

lemma more_names_sound: "more_names s = (ns, u) \<Longrightarrow> list_all event_name ns \<and> s = concat (map (\<lambda>n. '','' @ quoted n) ns) @ u"
proof (induction s arbitrary: ns rule: more_names.induct)
  case (1 s)
  show ?case
  proof (cases s)
    case Nil
    with "1.prems" show ?thesis by (simp add: more_names.simps)
  next
    case (Cons c t)
    show ?thesis
    proof (cases "c = CHR '','' \<and> a_name t \<noteq> None")
      case True
      then obtain n r where a: "a_name t = Some (n, r)" by auto
      obtain ms v where m: "more_names r = (ms, v)" by (cases "more_names r") auto
      with a True "1.prems" Cons have ns: "ns = n # ms" "u = v" by (simp_all add: more_names.simps [of "CHR '','' # t"])
      have "c = CHR '','' " using True by simp
      moreover have "more_names r = (ms, u)" using m ns(2) by simp
      ultimately have "list_all event_name ms \<and> r = concat (map (\<lambda>n. '','' @ quoted n) ms) @ u"
        using "1.IH" [OF Cons _ a refl] by blast
      with a \<open>c = CHR '',''\<close> show ?thesis by (simp add: ns Cons a_name_Some)
    next
      case False
      with "1.prems" Cons show ?thesis by (auto simp: more_names.simps [of "c # t"] split: if_splits option.splits)
    qed
  qed
qed

lemma join_tail: "join '','' (x # xs) = x @ concat (map (\<lambda>n. '','' @ n) xs)"
  by (induction xs arbitrary: x) simp_all

lemma names_sound: "names s = (ns, u) \<Longrightarrow> list_all event_name ns \<and> s = join '','' (map quoted ns) @ u"
proof (cases "a_name s")
  case None
  assume "names s = (ns, u)"
  with None show ?thesis by (simp add: names_def)
next
  case (Some nr)
  obtain n r where nr: "nr = (n, r)" by (cases nr)
  obtain ms v where m: "more_names r = (ms, v)" by (cases "more_names r") auto
  assume "names s = (ns, u)"
  with Some nr m have ns: "ns = n # ms" "u = v" by (simp_all add: names_def)
  from more_names_sound [OF m] Some nr show ?thesis
    by (simp add: ns a_name_Some join_tail comp_def del: join.simps)
qed

lemma more_names_complete:
  "list_all event_name ns \<Longrightarrow> u = [] \<or> hd u \<noteq> CHR '','' \<Longrightarrow>
     more_names (concat (map (\<lambda>n. '','' @ quoted n) ns) @ u) = (ns, u)"
proof (induction ns)
  case Nil
  then show ?case by (cases u) (simp_all add: more_names.simps)
next
  case (Cons n ns)
  have "a_name (quoted n @ concat (map (\<lambda>n. '','' @ quoted n) ns) @ u)
      = Some (n, concat (map (\<lambda>n. '','' @ quoted n) ns) @ u)"
    using Cons.prems(1) by (simp only: a_name_Some) simp
  with Cons show ?case by (simp add: more_names.simps [of "CHR '','' # x" for x])
qed

lemma names_complete:
  "list_all event_name ns \<Longrightarrow> u \<noteq> [] \<Longrightarrow> hd u = CHR '']'' \<Longrightarrow> names (join '','' (map quoted ns) @ u) = (ns, u)"
proof (cases ns)
  case Nil
  assume "u \<noteq> []" "hd u = CHR '']''"
  then have "a_name u = None" by (cases u) (simp_all add: a_name_def Let_def)
  with Nil show ?thesis by (simp add: names_def)
next
  case (Cons n ms)
  assume ns: "list_all event_name ns" "u \<noteq> []" "hd u = CHR '']''"
  let ?r = "concat (map (\<lambda>n. '','' @ quoted n) ms) @ u"
  have s: "join '','' (map quoted ns) @ u = quoted n @ ?r" by (simp add: Cons join_tail comp_def del: join.simps)
  have "a_name (quoted n @ ?r) = Some (n, ?r)" using ns(1) Cons by (simp only: a_name_Some) simp
  moreover have "more_names ?r = (ms, u)" using more_names_complete [of ms u] ns Cons by simp
  ultimately show ?thesis unfolding s by (simp add: names_def Cons)
qed

text \<open>
  The expression is exact: it matches a script if and only if the script is the bootstrap call with two lists of event
  names in lower case, so nothing else can pass as one.
\<close>
lemma bootstrap_iff: "is_bootstrap s \<longleftrightarrow> (\<exists>xs ys. list_all event_name xs \<and> list_all event_name ys \<and> s = bootstrap xs ys)"
proof
  assume "is_bootstrap s"
  then obtain t u where t: "literal BOOT_OPEN s = Some t" and u: "literal ''],['' (snd (names t)) = Some u"
      and e: "literal '']);'' (snd (names u)) = Some []" by (auto simp: is_bootstrap_def split: option.splits)
  obtain xs r where x: "names t = (xs, r)" by (cases "names t")
  obtain ys v where y: "names u = (ys, v)" by (cases "names u")
  from names_sound [OF x] names_sound [OF y] t u e x y
  have "list_all event_name xs \<and> list_all event_name ys \<and> s = bootstrap xs ys"
    by (simp add: literal_Some bootstrap_def)
  then show "\<exists>xs ys. list_all event_name xs \<and> list_all event_name ys \<and> s = bootstrap xs ys" by blast
next
  assume "\<exists>xs ys. list_all event_name xs \<and> list_all event_name ys \<and> s = bootstrap xs ys"
  then obtain xs ys where l: "list_all event_name xs" "list_all event_name ys" and s: "s = bootstrap xs ys" by blast
  let ?u = "join '','' (map quoted ys) @ '']);''"
  have "literal BOOT_OPEN s = Some (join '','' (map quoted xs) @ ''],['' @ ?u)"
    by (simp add: literal_Some s bootstrap_def)
  moreover have "names (join '','' (map quoted xs) @ ''],['' @ ?u) = (xs, ''],['' @ ?u)" by (rule names_complete [OF l(1)]) simp_all
  moreover have "names ?u = (ys, '']);'')" by (rule names_complete [OF l(2)]) simp_all
  ultimately show "is_bootstrap s" by (simp add: is_bootstrap_def)
qed

section \<open>The scripts of a page are found\<close>

text \<open>A text in which a word never begins, upper and lower case taken for one.\<close>

definition free_of :: "string \<Rightarrow> string \<Rightarrow> bool" where
  "free_of w s \<longleftrightarrow> (\<forall>k. after_word w (drop k s) = None)"

definition element :: "string \<times> string \<Rightarrow> string" where
  "element = (\<lambda>(a, b). ''<script'' @ a @ ''>'' @ b @ ''</script>'')"

definition page_of :: "(string \<times> string \<times> string) list \<Rightarrow> string \<Rightarrow> string" where
  "page_of ps rest = concat (map (\<lambda>(pre, a, b). pre @ element (a, b)) ps) @ rest"

definition well_written :: "string \<times> string \<times> string \<Rightarrow> bool" where
  "well_written = (\<lambda>(pre, a, b). free_of ''<script'' pre \<and> CHR ''>'' \<notin> set a \<and> (a = [] \<or> \<not> word_char (hd a))
     \<and> free_of ''</script>'' b)"

lemma lower_lt: "lower c = CHR ''<'' \<longleftrightarrow> c = CHR ''<''"
proof
  assume l: "lower c = CHR ''<''"
  show "c = CHR ''<''"
  proof (cases "65 \<le> (of_char c :: nat) \<and> (of_char c :: nat) \<le> 90")
    case True
    then have "(of_char (lower c) :: nat) = of_char c + 32" by (simp add: lower_def Let_def)
    with l True show ?thesis by simp
  next
    case False
    with l show ?thesis by (auto simp: lower_def Let_def)
  qed
qed (simp add: lower_def)

lemma after_word_stop: "after_word w p = None \<Longrightarrow> lower c \<notin> set w \<Longrightarrow> after_word w (p @ c # r) = None"
  by (induction w p rule: after_word.induct) auto

lemma free_step: "free_of (CHR ''<'' # w) (x # p) \<Longrightarrow> CHR ''<'' \<notin> set w \<Longrightarrow>
    after_word (CHR ''<'' # w) (x # p @ CHR ''<'' # r) = None"
proof -
  assume f: "free_of (CHR ''<'' # w) (x # p)" and w: "CHR ''<'' \<notin> set w"
  from f have "after_word (CHR ''<'' # w) (drop 0 (x # p)) = None" unfolding free_of_def by blast
  with after_word_stop [of w p "CHR ''<''" r] w show ?thesis
    by (auto simp: lower_def split: if_splits)
qed

lemma free_tl: "free_of w (x # p) \<Longrightarrow> free_of w p"
  unfolding free_of_def by (metis drop_Suc_Cons)

lemma after_word_self: "(\<forall>c\<in>set w. lower c = c) \<Longrightarrow> after_word w (w @ r) = Some r"
  by (induction w) auto

lemma close_word: "after_word ''</script>'' (''</script>'' @ r) = Some r"
  by (rule after_word_self) (simp add: lower_def)

lemma open_word: "after_word ''<script'' (''<script'' @ r) = Some r"
  by (rule after_word_self) (simp add: lower_def)

lemma until_close_step:
  "after_word ''</script>'' (x # y) = None \<Longrightarrow> until_close (x # y) = map_option (\<lambda>(b, r). (x # b, r)) (until_close y)"
  by (simp del: after_word.simps)

lemma until_close_body: "free_of ''</script>'' b \<Longrightarrow> until_close (b @ ''</script>'' @ r) = Some (b, r)"
proof (induction b)
  case Nil
  have "until_close (CHR ''<'' # ''/script>'' @ r) = Some ([], r)"
    unfolding until_close.simps using close_word [of r] by (simp del: after_word.simps)
  then show ?case by simp
next
  case (Cons x b)
  have "after_word (CHR ''<'' # ''/script>'') (x # b @ CHR ''<'' # (''/script>'' @ r)) = None"
    by (rule free_step) (use Cons.prems in simp_all)
  then have n: "after_word ''</script>'' (x # (b @ ''</script>'' @ r)) = None" by simp
  from Cons.IH [OF free_tl [OF Cons.prems]] until_close_step [OF n] show ?case
    by (simp del: until_close.simps after_word.simps)
qed

lemma script_here_element:
  "well_written (pre, a, b) \<Longrightarrow> script_here (element (a, b) @ r) = Some (a, b, r)"
proof -
  assume w: "well_written (pre, a, b)"
  let ?t = "a @ ''>'' @ b @ ''</script>'' @ r"
  have s: "element (a, b) @ r = ''<script'' @ ?t" by (simp add: element_def)
  have a: "CHR ''>'' \<notin> set a" "a = [] \<or> \<not> word_char (hd a)" "free_of ''</script>'' b"
    using w by (simp_all add: well_written_def)
  have "\<not> (?t \<noteq> [] \<and> word_char (hd ?t))" using a(2) by (cases a) (auto simp: word_char_def)
  moreover have "takeWhile (\<lambda>c. c \<noteq> CHR ''>'') ?t = a" using a(1) by (simp add: takeWhile_append)
  moreover have "dropWhile (\<lambda>c. c \<noteq> CHR ''>'') ?t = CHR ''>'' # (b @ ''</script>'' @ r)"
    using a(1) by (simp add: dropWhile_append)
  ultimately show ?thesis
    unfolding s script_here_def open_word using until_close_body [OF a(3), of r] by simp
qed

lemma all_scripts_quiet: "free_of ''<script'' p \<Longrightarrow> all_scripts p = []"
proof (induction p)
  case (Cons x p)
  have "after_word ''<script'' (drop 0 (x # p)) = None" using Cons.prems unfolding free_of_def by blast
  then have "script_here (x # p) = None" by (simp add: script_here_def del: after_word.simps)
  with Cons.IH [OF free_tl [OF Cons.prems]] show ?case by (simp add: all_scripts.simps [of "x # p"])
qed (simp add: all_scripts.simps)

lemma all_scripts_skip:
  "free_of ''<script'' p \<Longrightarrow> all_scripts (p @ CHR ''<'' # r) = all_scripts (CHR ''<'' # r)"
proof (induction p)
  case (Cons x p)
  have "after_word (CHR ''<'' # ''script'') (x # p @ CHR ''<'' # r) = None"
    by (rule free_step) (use Cons.prems in simp_all)
  then have "script_here (x # p @ CHR ''<'' # r) = None" by (simp add: script_here_def del: after_word.simps)
  with Cons.IH [OF free_tl [OF Cons.prems]] show ?case by (simp add: all_scripts.simps [of "x # p @ CHR ''<'' # r"])
qed simp

text \<open>
  Every script is found: on a page written as texts in which no script begins and script elements between them, the
  scan finds exactly the elements, each with its attributes and its body, in order.
\<close>
theorem every_script_is_found:
  assumes "list_all well_written ps" "free_of ''<script'' rest"
  shows "all_scripts (page_of ps rest) = map snd ps"
  using assms(1)
proof (induction ps)
  case Nil
  then show ?case using all_scripts_quiet [OF assms(2)] by (simp add: page_of_def)
next
  case (Cons x ps)
  obtain pre a b where x: "x = (pre, a, b)" by (cases x)
  have w: "well_written (pre, a, b)" using Cons.prems x by simp
  then have p: "free_of ''<script'' pre" by (simp add: well_written_def)
  let ?r = "page_of ps rest"
  obtain e where e: "element (a, b) = CHR ''<'' # e" by (simp add: element_def)
  have "all_scripts (page_of (x # ps) rest) = all_scripts (element (a, b) @ ?r)"
    using all_scripts_skip [OF p, of "e @ ?r"] by (simp add: page_of_def x e)
  also have "\<dots> = (a, b) # all_scripts ?r"
    using script_here_element [OF w, of ?r] by (subst all_scripts.simps) (simp add: e)
  finally show ?case using Cons x by simp
qed

section \<open>The policy\<close>

text \<open>The elements of a \<open>Set\<close>, in the order they were added.\<close>

definition as_set :: "'a list \<Rightarrow> 'a list" where
  "as_set xs = foldl (\<lambda>acc x. if x \<in> set acc then acc else acc @ [x]) [] xs"

lemma as_set_set [simp]: "set (as_set xs) = set xs"
  by (induction xs rule: rev_induct) (auto simp: as_set_def)

definition apo :: "string \<Rightarrow> string" where
  "apo s = [CHR 0x27] @ s @ [CHR 0x27]"

definition STYLESHEET_ONLOAD :: string where
  "STYLESHEET_ONLOAD = ''this.media='' @ apo ''all''"

definition CAPTCHA_SCRIPT_ORIGINS :: "string list" where
  "CAPTCHA_SCRIPT_ORIGINS =
     [''https://challenges.cloudflare.com'', ''https://www.google.com/recaptcha/'', ''https://www.gstatic.com/recaptcha/'']"

text \<open>The hashes of the scripts of the built templates that exist.\<close>

definition templateScriptHashes :: "(string \<Rightarrow> string) \<Rightarrow> string option list \<Rightarrow> string list" where
  "templateScriptHashes sha files =
     as_set (concat (map (\<lambda>f. case f of None \<Rightarrow> [] | Some html \<Rightarrow> map sha (inlineScripts html)) files))"

definition named_scripts :: "(string \<Rightarrow> string) \<Rightarrow> string list \<Rightarrow> string option \<Rightarrow> string list" where
  "named_scripts sha templates html =
     as_set (templates @ map sha (filter (\<lambda>b. is_bootstrap (trim b))
       (case html of None \<Rightarrow> [] | Some h \<Rightarrow> if h = [] then [] else inlineScripts h)))"

definition contentSecurityPolicy :: "(string \<Rightarrow> string) \<Rightarrow> string list \<Rightarrow> string option \<Rightarrow> string" where
  "contentSecurityPolicy sha templates html =
     join ''; ''
       [''script-src '' @ apo ''self'' @ '' '' @ join '' '' (named_scripts sha templates html) @ '' '' @ apo ''unsafe-hashes''
          @ '' '' @ sha STYLESHEET_ONLOAD @ '' '' @ join '' '' CAPTCHA_SCRIPT_ORIGINS,
        ''object-src '' @ apo ''none'', ''base-uri '' @ apo ''self'', ''form-action '' @ apo ''self'',
        ''frame-ancestors '' @ apo ''none'']"


lemma bootstrap_trim: "trim (bootstrap xs ys) = bootstrap xs ys"
proof -
  have h: "bootstrap xs ys = CHR ''w'' # tl (bootstrap xs ys)" by (simp add: bootstrap_def BOOT_OPEN_def)
  have l: "rev (bootstrap xs ys) = CHR '';'' # tl (rev (bootstrap xs ys))" by (simp add: bootstrap_def)
  have "dropWhile is_ws (bootstrap xs ys) = bootstrap xs ys" by (subst h, subst (2) h) (simp add: is_ws_def)
  moreover have "dropWhile is_ws (rev (bootstrap xs ys)) = rev (bootstrap xs ys)"
    by (subst l, subst (2) l) (simp add: is_ws_def)
  ultimately show ?thesis by (simp add: trim_def)
qed

text \<open>
  The bootstrap is let run: on any page whose scripts are written as elements, the policy of the page names it wherever
  it stands among the others.
\<close>
theorem bootstrap_is_named:
  assumes "list_all well_written ps" "free_of ''<script'' rest" "page_of ps rest \<noteq> []"
    and "(pre, [], bootstrap xs ys) \<in> set ps" "list_all event_name xs" "list_all event_name ys"
  shows "sha (bootstrap xs ys) \<in> set (named_scripts sha templates (Some (page_of ps rest)))"
proof -
  let ?b = "bootstrap xs ys"
  have "([], ?b) \<in> set (all_scripts (page_of ps rest))"
    using every_script_is_found [OF assms(1,2)] assms(4) by force
  moreover have "?b \<noteq> []" by (simp add: bootstrap_def)
  ultimately have "?b \<in> set (inlineScripts (page_of ps rest))"
    by (force simp: inlineScripts_def bootstrap_trim)
  moreover have "is_bootstrap (trim ?b)" using assms(5,6) by (auto simp: bootstrap_trim bootstrap_iff)
  ultimately show ?thesis using assms(3) by (auto simp: named_scripts_def)
qed

lemma split_semi: "CHR '';'' \<notin> set a \<Longrightarrow> split_on (CHR '';'') (a @ CHR '';'' # r) = a # split_on (CHR '';'') r"
  by (rule split_on_first)

lemma join_no_semi: "(\<And>x. x \<in> set xs \<Longrightarrow> CHR '';'' \<notin> set x) \<Longrightarrow> CHR '';'' \<notin> set (join '' '' xs)"
  by (induction "'' ''" xs rule: join.induct) auto

text \<open>
  A page cannot add a directive: split at its semicolons, the policy of every page is the same five directives, of
  which only the list of scripts depends on the page.
\<close>
theorem policy_has_five_directives:
  assumes "\<And>x. CHR '';'' \<notin> set (sha x)" "\<And>t. t \<in> set templates \<Longrightarrow> CHR '';'' \<notin> set t"
  shows "\<exists>first. split_on (CHR '';'') (contentSecurityPolicy sha templates html)
    = [first, '' object-src '' @ apo ''none'', '' base-uri '' @ apo ''self'', '' form-action '' @ apo ''self'',
       '' frame-ancestors '' @ apo ''none'']"
proof -
  let ?f = "''script-src '' @ apo ''self'' @ '' '' @ join '' '' (named_scripts sha templates html) @ '' '' @ apo ''unsafe-hashes''
          @ '' '' @ sha STYLESHEET_ONLOAD @ '' '' @ join '' '' CAPTCHA_SCRIPT_ORIGINS"
  have "CHR '';'' \<notin> set (join '' '' (named_scripts sha templates html))"
    by (rule join_no_semi) (use assms in \<open>auto simp: named_scripts_def split: option.splits if_splits\<close>)
  moreover have "CHR '';'' \<notin> set (join '' '' CAPTCHA_SCRIPT_ORIGINS)" by (simp add: CAPTCHA_SCRIPT_ORIGINS_def)
  ultimately have f: "CHR '';'' \<notin> set ?f" using assms(1) by (simp add: apo_def)
  have p: "contentSecurityPolicy sha templates html = ?f @ CHR '';'' # ('' object-src '' @ apo ''none'' @ CHR '';''
      # ('' base-uri '' @ apo ''self'' @ CHR '';'' # ('' form-action '' @ apo ''self'' @ CHR '';''
      # ('' frame-ancestors '' @ apo ''none''))))"
    unfolding contentSecurityPolicy_def by (simp only: join.simps) simp
  have "split_on (CHR '';'') (contentSecurityPolicy sha templates html)
      = ?f # split_on (CHR '';'') ('' object-src '' @ apo ''none'' @ CHR '';''
      # ('' base-uri '' @ apo ''self'' @ CHR '';'' # ('' form-action '' @ apo ''self'' @ CHR '';''
      # ('' frame-ancestors '' @ apo ''none''))))"
    unfolding p by (rule split_semi [OF f])
  then show ?thesis by (simp add: apo_def)
qed

definition sample_page :: "(string \<times> string \<times> string) list" where
  "sample_page = [(''<html>'', '' id=x'', ''let a = 1''), (''<p>'', [], bootstrap [''click'', ''input''] [])]"

lemma free_plain: "CHR ''<'' \<notin> set s \<Longrightarrow> hd w = CHR ''<'' \<Longrightarrow> w \<noteq> [] \<Longrightarrow> free_of w s"
proof -
  assume s: "CHR ''<'' \<notin> set s" and w: "hd w = CHR ''<''" "w \<noteq> []"
  have "after_word w (drop k s) = None" for k
  proof (cases "drop k s")
    case Nil
    with w show ?thesis by (cases w) simp_all
  next
    case (Cons c r)
    then have "c \<in> set s" by (metis in_set_dropD list.set_intros(1))
    with s have "lower c \<noteq> CHR ''<''" by (auto simp: lower_lt)
    with w Cons show ?thesis by (cases w) auto
  qed
  then show ?thesis by (simp add: free_of_def)
qed

lemma free_tag: "CHR ''<'' \<notin> set s \<Longrightarrow> s \<noteq> [] \<Longrightarrow> lower (hd s) \<noteq> CHR ''s'' \<Longrightarrow> free_of ''<script'' (CHR ''<'' # s)"
proof -
  assume s: "CHR ''<'' \<notin> set s" "s \<noteq> []" "lower (hd s) \<noteq> CHR ''s''"
  have "after_word ''<script'' (drop k (CHR ''<'' # s)) = None" for k
  proof (cases k)
    case 0
    with s(2,3) show ?thesis by (cases s) simp_all
  next
    case (Suc j)
    with free_plain [OF s(1), of "''<script''"] show ?thesis unfolding free_of_def by (simp del: after_word.simps)
  qed
  then show ?thesis by (simp add: free_of_def)
qed

lemma sample_page_written: "list_all well_written sample_page" "free_of ''<script'' []"
proof -
  have "free_of ''</script>'' (bootstrap [''click'', ''input''] [])" "free_of ''</script>'' ''let a = 1''"
    by (rule free_plain; simp add: bootstrap_def BOOT_OPEN_def quoted_def)+
  moreover have "free_of ''<script'' ''<html>''" "free_of ''<script'' ''<p>''"
    by (rule free_tag; simp add: lower_def)+
  ultimately show "list_all well_written sample_page" by (simp add: sample_page_def well_written_def word_char_def)
  show "free_of ''<script'' []" by (rule free_plain) simp_all
qed

lemma sample_names: "list_all event_name [''click'', ''input'']"
  by (simp add: event_name_def is_lower_def)

theorem every_script_is_found_witness:
  "map fst (all_scripts (page_of sample_page [])) = ['' id=x'', []]"
  using every_script_is_found [OF sample_page_written] by (simp add: sample_page_def)

theorem bootstrap_is_named_witness:
  "bootstrap [''click'', ''input''] [] \<in> set (named_scripts (\<lambda>s. s) [] (Some (page_of sample_page [])))"
  by (rule bootstrap_is_named [OF sample_page_written, where pre = "''<p>''" and sha = "\<lambda>s. s"])
    (simp_all add: sample_page_def page_of_def event_name_def is_lower_def)


theorem policy_has_five_directives_witness:
  "length (split_on (CHR '';'') (contentSecurityPolicy (\<lambda>s. ''h'') [''h''] None)) = 5"
  using policy_has_five_directives [of "\<lambda>s. ''h''" "[''h'']" None] by auto

section \<open>The answers\<close>

text \<open>\<open>NG_ALLOWED_HOSTS\<close> and \<open>TRUST_PROXY_HEADERS\<close>.\<close>

definition allowedHosts :: "string option \<Rightarrow> string list" where
  "allowedHosts env =
     filter (\<lambda>h. h \<noteq> []) (map trim (split_on (CHR '','')
       (case env of None \<Rightarrow> ''localhost,127.0.0.1,frontend'' | Some s \<Rightarrow> s)))"

definition trustProxyHeaders :: "string option \<Rightarrow> bool" where
  "trustProxyHeaders env \<longleftrightarrow> env = Some ''true''"

type_synonym header_map = "string \<rightharpoonup> string"

definition securityHeaders :: "(string \<Rightarrow> string) \<Rightarrow> string list \<Rightarrow> header_map" where
  "securityHeaders sha templates =
     [''content-security-policy'' \<mapsto> contentSecurityPolicy sha templates None, ''x-frame-options'' \<mapsto> ''DENY'',
      ''x-content-type-options'' \<mapsto> ''nosniff'', ''referrer-policy'' \<mapsto> ''strict-origin-when-cross-origin'',
      ''permissions-policy'' \<mapsto> ''camera=(), microphone=(), geolocation=(), payment=(), usb=()'']"

text \<open>
  What the renderer answers: a status, its headers under their names in small letters, and a body.  It is written onto
  an answer that has the security headers already; a page gets the policy of its own scripts.
\<close>

record rendered =
  rd_status :: nat
  rd_headers :: header_map
  rd_body :: string

definition has_text :: "string \<Rightarrow> string \<Rightarrow> bool" where
  "has_text w s \<longleftrightarrow> (\<exists>k\<in>set [0..<Suc (length s)]. literal w (drop k s) \<noteq> None)"

definition render_answer :: "(string \<Rightarrow> string) \<Rightarrow> string list \<Rightarrow> rendered \<Rightarrow> rendered" where
  "render_answer sha templates r =
     (if \<not> (case rd_headers r ''content-type'' of None \<Rightarrow> False | Some t \<Rightarrow> has_text ''text/html'' t)
      then r\<lparr>rd_headers := securityHeaders sha templates ++ rd_headers r\<rparr>
      else r\<lparr>rd_headers := securityHeaders sha templates
              ++ (rd_headers r)(''content-security-policy'' \<mapsto> contentSecurityPolicy sha templates (Some (rd_body r)))\<rparr>)"

text \<open>
  Every answer of the renderer carries a policy and cannot be framed, and a page's policy is that of the scripts it was
  sent with; the status and the body are the renderer's.
\<close>
theorem every_answer_has_a_policy:
  assumes "rd_headers r ''x-frame-options'' = None"
  shows "rd_headers (render_answer sha templates r) ''x-frame-options'' = Some ''DENY''
    \<and> (rd_headers r ''content-security-policy'' = None \<longrightarrow>
        rd_headers (render_answer sha templates r) ''content-security-policy''
          = Some (contentSecurityPolicy sha templates
              (case rd_headers r ''content-type'' of
                 None \<Rightarrow> None | Some t \<Rightarrow> if has_text ''text/html'' t then Some (rd_body r) else None)))
    \<and> rd_status (render_answer sha templates r) = rd_status r \<and> rd_body (render_answer sha templates r) = rd_body r"
  using assms by (simp add: render_answer_def securityHeaders_def map_add_def split: option.splits)

theorem every_answer_has_a_policy_witness:
  "rd_headers (render_answer (\<lambda>s. ''h'') [] \<lparr>rd_status = 200, rd_headers = Map.empty, rd_body = ''x''\<rparr>) ''x-frame-options''
     = Some ''DENY''"
  using every_answer_has_a_policy [of "\<lparr>rd_status = 200, rd_headers = Map.empty, rd_body = ''x''\<rparr>" "\<lambda>s. ''h''" "[]"] by simp

end
