(* ===== verification/Record_Pages.thy ===== *)
theory Record_Pages
  imports Admin_Forms Api_Lists
begin

text \<open>
  The public pages of the football data: the valuation chart (\<open>features/players/value-chart.ts\<close>), the player, club, coach,
  competition and season pages, the transfer feed and the search page.  What a page shows is a function of what its
  resources loaded; names and dates come from \<open>LookupStore\<close> and \<open>Date\<close>, which are arguments.
\<close>

section \<open>The valuation chart\<close>

record market_value =
  mv_amount :: int
  mv_on :: string

record chart_point =
  px :: real
  py :: real
  pvalue :: market_value

definition chart_width :: real where "chart_width = 600"
definition chart_height :: real where "chart_height = 160"

text \<open>Newest first in, oldest first out, scaled into the box; \<open>max - min || 1\<close> is one for a flat series.\<close>

definition points :: "market_value list \<Rightarrow> chart_point list" where
  "points values =
     (let series = rev values in
      if series = [] then []
      else
        (let amounts = map mv_amount series;
             lo = Min (set amounts);
             hi = Max (set amounts);
             span = (if hi - lo \<noteq> 0 then hi - lo else 1);
             padding = 8;
             usable = chart_height - padding * 2
         in map (\<lambda>(i, v).
              \<lparr>px = (if length series = 1 then chart_width / 2 else real i / real (length series - 1) * chart_width),
               py = padding + (1 - real_of_int (mv_amount v - lo) / real_of_int span) * usable,
               pvalue = v\<rparr>) (enumerate 0 series)))"

datatype path_cmd = MoveTo real real | LineTo real real | ClosePath

definition linePath :: "chart_point list \<Rightarrow> path_cmd list" where
  "linePath ps = map (\<lambda>(i, p). if i = 0 then MoveTo (px p) (py p) else LineTo (px p) (py p)) (enumerate 0 ps)"

definition areaPath :: "chart_point list \<Rightarrow> path_cmd list" where
  "areaPath ps =
     (if length ps < 2 then []
      else linePath ps @ [LineTo (px (last ps)) chart_height, LineTo (px (hd ps)) chart_height, ClosePath])"

definition chart_summary :: "(string \<Rightarrow> string) \<Rightarrow> market_value list \<Rightarrow> string" where
  "chart_summary year values =
     (let ps = points values in
      if length ps < 2 then ''Market value history''
      else
        (let first = real_of_int (mv_amount (pvalue (hd ps))) / 100;
             latest = real_of_int (mv_amount (pvalue (last ps))) / 100;
             direction = (if latest > first then ''risen'' else if latest < first then ''fallen'' else ''held steady'')
         in ''Market value has '' @ direction @ '' between '' @ year (mv_on (pvalue (hd ps)))
              @ '' and '' @ year (mv_on (pvalue (last ps)))))"

definition chart_labels :: "(string \<Rightarrow> string) \<Rightarrow> market_value list \<Rightarrow> string \<times> string" where
  "chart_labels year values =
     (let ps = points values in
      if ps = [] then ([], []) else (year (mv_on (pvalue (hd ps))), year (mv_on (pvalue (last ps)))))"

lemma points_length [simp]: "length (points vs) = length vs"
  by (simp add: points_def Let_def)

lemma points_Nil [simp]: "points vs = [] \<longleftrightarrow> vs = []"
  using points_length [of vs] by (metis length_0_conv)

definition chart_span :: "market_value list \<Rightarrow> int" where
  "chart_span vs = Max (mv_amount ` set vs) - Min (mv_amount ` set vs)"

lemma points_nth:
  assumes "i < length vs"
  shows "px (points vs ! i) = (if length vs = 1 then 300 else real i / real (length vs - 1) * 600)"
    and "py (points vs ! i) = 8 + (1 - real_of_int (mv_amount (rev vs ! i) - Min (mv_amount ` set vs))
           / real_of_int (if chart_span vs \<noteq> 0 then chart_span vs else 1)) * 144"
    and "pvalue (points vs ! i) = rev vs ! i"
  using assms by (auto simp: points_def Let_def nth_enumerate_eq chart_width_def chart_height_def chart_span_def)

lemma points_values [simp]: "map pvalue (points vs) = rev vs"
  by (rule nth_equalityI) (simp_all add: points_nth(3))

lemma amounts_between:
  assumes "v \<in> set vs"
  shows "Min (mv_amount ` set vs) \<le> mv_amount v" "mv_amount v \<le> Max (mv_amount ` set vs)"
  using assms by (simp_all add: Min_le Max_ge)

lemma span_nonneg: "vs \<noteq> [] \<Longrightarrow> 0 \<le> chart_span vs"
proof -
  assume "vs \<noteq> []"
  then obtain v where "v \<in> set vs" by (cases vs) auto
  from amounts_between [OF this] show ?thesis by (simp add: chart_span_def)
qed

lemma share_bounds:
  assumes "v \<in> set vs"
  defines "q \<equiv> real_of_int (mv_amount v - Min (mv_amount ` set vs)) / real_of_int (if chart_span vs \<noteq> 0 then chart_span vs else 1)"
  shows "0 \<le> q" "q \<le> 1"
proof -
  have ne: "vs \<noteq> []" using assms(1) by auto
  have lo: "0 \<le> mv_amount v - Min (mv_amount ` set vs)" and hi: "mv_amount v - Min (mv_amount ` set vs) \<le> chart_span vs"
    using amounts_between [OF assms(1)] by (simp_all add: chart_span_def)
  let ?d = "if chart_span vs \<noteq> 0 then chart_span vs else 1"
  have d: "0 < ?d" "mv_amount v - Min (mv_amount ` set vs) \<le> ?d" using span_nonneg [OF ne] hi lo by auto
  show "0 \<le> q" unfolding q_def using lo d(1) by (intro divide_nonneg_pos) (simp_all only: of_int_0_le_iff of_int_0_less_iff)
  show "q \<le> 1" unfolding q_def using d by (simp only: divide_le_eq_1 of_int_le_iff of_int_0_less_iff) simp
qed

lemma higher_is_higher:
  assumes "v \<in> set vs" "w \<in> set vs"
  defines "y \<equiv> \<lambda>v. 8 + (1 - real_of_int (mv_amount v - Min (mv_amount ` set vs))
      / real_of_int (if chart_span vs \<noteq> 0 then chart_span vs else 1)) * 144"
  shows "y v < y w \<longleftrightarrow> mv_amount w < mv_amount v"
proof -
  let ?d = "real_of_int (if chart_span vs \<noteq> 0 then chart_span vs else 1)"
  have "0 \<le> chart_span vs" using assms(1) by (intro span_nonneg) auto
  then have d: "0 < ?d" by simp
  have flip: "8 + (1 - a) * 144 < 8 + (1 - b) * 144 \<longleftrightarrow> b < a" for a b :: real by auto
  have "y v < y w \<longleftrightarrow> real_of_int (mv_amount w - Min (mv_amount ` set vs)) / ?d < real_of_int (mv_amount v - Min (mv_amount ` set vs)) / ?d"
    unfolding y_def by (rule flip)
  also have "\<dots> \<longleftrightarrow> mv_amount w < mv_amount v" using d by (simp only: divide_less_cancel) simp
  finally show ?thesis .
qed

text \<open>
  The chart shows the history: one point for each value from the oldest to the newest, further to the right the newer
  it is, within the box and its padding, and a point stands higher exactly when its value is higher.
\<close>
theorem chart_shows_history:
  assumes "i < length vs" "j < length vs"
  shows "pvalue (points vs ! i) = rev vs ! i
    \<and> 0 \<le> px (points vs ! i) \<and> px (points vs ! i) \<le> chart_width
    \<and> 8 \<le> py (points vs ! i) \<and> py (points vs ! i) \<le> chart_height - 8
    \<and> (px (points vs ! i) < px (points vs ! j) \<longleftrightarrow> i < j)
    \<and> (py (points vs ! i) < py (points vs ! j) \<longleftrightarrow> mv_amount (rev vs ! j) < mv_amount (rev vs ! i))"
proof -
  let ?p = "points vs ! i" and ?q = "points vs ! j"
  have vi: "rev vs ! i \<in> set vs" and vj: "rev vs ! j \<in> set vs"
    using assms by (metis nth_mem length_rev set_rev)+
  have x: "0 \<le> px ?p" "px ?p \<le> 600"
    using assms(1) unfolding points_nth(1) [OF assms(1)] by (auto simp: divide_simps)
  have box: "0 \<le> a \<Longrightarrow> a \<le> 1 \<Longrightarrow> 8 \<le> 8 + (1 - a) * 144 \<and> 8 + (1 - a) * 144 \<le> 152" for a :: real by simp
  have y: "8 \<le> py ?p \<and> py ?p \<le> 152"
    unfolding points_nth(2) [OF assms(1)] by (rule box) (rule share_bounds [OF vi])+
  have "px ?p < px ?q \<longleftrightarrow> i < j"
    unfolding points_nth(1) [OF assms(1)] points_nth(1) [OF assms(2)]
    using assms by (cases "length vs = 1") (auto simp: divide_simps)
  moreover have "py ?p < py ?q \<longleftrightarrow> mv_amount (rev vs ! j) < mv_amount (rev vs ! i)"
    unfolding points_nth(2) [OF assms(1)] points_nth(2) [OF assms(2)] by (rule higher_is_higher [OF vi vj])
  ultimately show ?thesis
    using x y points_nth(3) [OF assms(1)] by (simp add: chart_width_def chart_height_def)
qed

definition three_values :: "market_value list" where
  "three_values = [\<lparr>mv_amount = 900, mv_on = ''2025-06-01''\<rparr>, \<lparr>mv_amount = 300, mv_on = ''2024-06-01''\<rparr>,
     \<lparr>mv_amount = 500, mv_on = ''2023-06-01''\<rparr>]"

theorem chart_shows_history_witness:
  "pvalue (points three_values ! 2) = \<lparr>mv_amount = 900, mv_on = ''2025-06-01''\<rparr>
    \<and> py (points three_values ! 2) < py (points three_values ! 1)"
  using chart_shows_history [of 2 three_values 1] by (simp add: three_values_def)

text \<open>
  The comment promises mid-height for a flat series; it lies on the bottom of the box.
\<close>
theorem flat_series_at_bottom:
  assumes "\<forall>v\<in>set vs. mv_amount v = a" "i < length vs"
  shows "py (points vs ! i) = chart_height - 8"
proof -
  have vi: "rev vs ! i \<in> set vs" using assms(2) by (metis nth_mem length_rev set_rev)
  have "mv_amount ` set vs = {a}" using assms(1) vi by auto
  moreover have "mv_amount (rev vs ! i) = a" using assms(1) vi by blast
  ultimately show ?thesis unfolding points_nth(2) [OF assms(2)] by (simp add: chart_span_def chart_height_def)
qed

theorem flat_series_at_bottom_witness:
  "py (points (replicate 2 \<lparr>mv_amount = 500, mv_on = ''2023-06-01''\<rparr>) ! 0) = chart_height - 8"
  by (rule flat_series_at_bottom [where a = 500]) simp_all

text \<open>What is read out agrees with what is drawn: the direction is that of the line from its first to its last point.\<close>

theorem summary_agrees_with_line:
  assumes "2 \<le> length vs"
  shows "chart_summary year vs =
    ''Market value has '' @ (let a = py (hd (points vs)); b = py (last (points vs))
       in if b < a then ''risen'' else if a < b then ''fallen'' else ''held steady'')
      @ '' between '' @ fst (chart_labels year vs) @ '' and '' @ snd (chart_labels year vs)"
proof -
  let ?n = "length vs - 1"
  have ne: "points vs \<noteq> []" and i: "0 < length vs" "?n < length vs" using assms by auto
  have hd: "hd (points vs) = points vs ! 0" "last (points vs) = points vs ! ?n"
    using ne by (simp_all add: hd_conv_nth last_conv_nth)
  have "py (last (points vs)) < py (hd (points vs)) \<longleftrightarrow> mv_amount (pvalue (hd (points vs))) < mv_amount (pvalue (last (points vs)))"
    "py (hd (points vs)) < py (last (points vs)) \<longleftrightarrow> mv_amount (pvalue (last (points vs))) < mv_amount (pvalue (hd (points vs)))"
    unfolding hd using chart_shows_history [OF i(2,1)] chart_shows_history [OF i] by simp_all
  with ne assms show ?thesis by (simp add: chart_summary_def chart_labels_def Let_def divide_less_cancel)
qed

theorem summary_agrees_with_line_witness:
  "chart_summary (take 4) three_values = ''Market value has risen between 2023 and 2025''"
  using summary_agrees_with_line [of three_values "take 4"] chart_shows_history [of 2 three_values 0]
  by (simp add: three_values_def points_def chart_labels_def Let_def)

section \<open>A player: seasons and percentages\<close>

record totals =
  appearances :: nat
  minutes :: nat
  goals :: nat
  assists :: nat
  yellow_cards :: nat
  red_cards :: nat

record stat_line =
  sl_id :: string
  sl_season :: string
  sl_league :: string
  sl_team :: "string option"
  sl_counts :: totals

record season_group =
  sg_season :: string
  sg_label :: string
  sg_lines :: "stat_line list"
  sg_total :: totals

definition no_totals :: totals where
  "no_totals = \<lparr>appearances = 0, minutes = 0, goals = 0, assists = 0, yellow_cards = 0, red_cards = 0\<rparr>"

definition add_totals :: "totals \<Rightarrow> totals \<Rightarrow> totals" where
  "add_totals t l =
     \<lparr>appearances = appearances t + appearances l, minutes = minutes t + minutes l, goals = goals t + goals l,
      assists = assists t + assists l, yellow_cards = yellow_cards t + yellow_cards l,
      red_cards = red_cards t + red_cards l\<rparr>"

text \<open>One turn of the loop: the line goes into the last group, or into a new one when that is of another season.\<close>

definition add_line :: "(string \<Rightarrow> string) \<Rightarrow> season_group list \<Rightarrow> stat_line \<Rightarrow> season_group list" where
  "add_line label groups line =
     (let gs = (if groups \<noteq> [] \<and> sg_season (last groups) = sl_season line then groups
                else groups @ [\<lparr>sg_season = sl_season line, sg_label = label (sl_season line), sg_lines = [],
                               sg_total = no_totals\<rparr>]);
          g = last gs
      in butlast gs @ [g\<lparr>sg_lines := sg_lines g @ [line], sg_total := add_totals (sg_total g) (sl_counts line)\<rparr>])"

definition seasons :: "(string \<Rightarrow> string) \<Rightarrow> stat_line list option \<Rightarrow> season_group list" where
  "seasons label items = foldl (add_line label) [] (case items of None \<Rightarrow> [] | Some xs \<Rightarrow> xs)"

definition total_keys :: "(totals \<Rightarrow> nat) list" where
  "total_keys = [appearances, minutes, goals, assists, yellow_cards, red_cards]"

definition group_ok :: "(string \<Rightarrow> string) \<Rightarrow> season_group \<Rightarrow> bool" where
  "group_ok label g \<longleftrightarrow> sg_lines g \<noteq> [] \<and> (\<forall>l\<in>set (sg_lines g). sl_season l = sg_season g) \<and> sg_label g = label (sg_season g)
     \<and> (\<forall>k\<in>set total_keys. k (sg_total g) = sum_list (map (\<lambda>l. k (sl_counts l)) (sg_lines g)))"

lemma add_line_new:
  "groups = [] \<or> sg_season (last groups) \<noteq> sl_season line \<Longrightarrow>
   add_line label groups line = groups @ [\<lparr>sg_season = sl_season line, sg_label = label (sl_season line), sg_lines = [line],
     sg_total = add_totals no_totals (sl_counts line)\<rparr>]"
  by (auto simp: add_line_def Let_def)

lemma add_line_same:
  "sg_season g = sl_season line \<Longrightarrow>
   add_line label (gs @ [g]) line =
     gs @ [g\<lparr>sg_lines := sg_lines g @ [line], sg_total := add_totals (sg_total g) (sl_counts line)\<rparr>]"
  by (simp add: add_line_def Let_def)

lemma add_line_ok:
  assumes "list_all (group_ok label) gs" "distinct_adj (map sg_season gs)"
  shows "list_all (group_ok label) (add_line label gs l) \<and> distinct_adj (map sg_season (add_line label gs l))
    \<and> concat (map sg_lines (add_line label gs l)) = concat (map sg_lines gs) @ [l]
    \<and> set (map sg_season (add_line label gs l)) = insert (sl_season l) (set (map sg_season gs))"
proof (cases "gs = [] \<or> sg_season (last gs) \<noteq> sl_season l")
  case True
  then have "gs = [] \<or> last (map sg_season gs) \<noteq> sl_season l" by (auto simp: last_map)
  with assms True show ?thesis
    by (auto simp: add_line_new group_ok_def total_keys_def add_totals_def no_totals_def distinct_adj_append_iff)
next
  case False
  then obtain hs g where gs: "gs = hs @ [g]" and g: "sg_season g = sl_season l" by (cases gs rule: rev_cases) auto
  let ?g = "g\<lparr>sg_lines := sg_lines g @ [l], sg_total := add_totals (sg_total g) (sl_counts l)\<rparr>"
  have a: "add_line label gs l = hs @ [?g]" unfolding gs by (rule add_line_same [OF g])
  have "group_ok label g" using assms(1) gs by simp
  then have "group_ok label ?g" using g by (simp add: group_ok_def total_keys_def add_totals_def)
  moreover have "map sg_season (hs @ [?g]) = map sg_season gs" by (simp add: gs)
  moreover have "sl_season l \<in> set (map sg_season gs)" using g by (simp add: gs)
  ultimately show ?thesis using assms unfolding a by (simp add: gs insert_absorb)
qed

lemma seasons_invariant:
  "list_all (group_ok label) (foldl (add_line label) [] xs) \<and> distinct_adj (map sg_season (foldl (add_line label) [] xs))
    \<and> concat (map sg_lines (foldl (add_line label) [] xs)) = xs
    \<and> set (map sg_season (foldl (add_line label) [] xs)) = sl_season ` set xs"
proof (induction xs rule: rev_induct)
  case (snoc l xs)
  let ?gs = "foldl (add_line label) [] xs"
  have f: "foldl (add_line label) [] (xs @ [l]) = add_line label ?gs l" by simp
  from snoc add_line_ok [of label ?gs l] show ?case unfolding f by auto
qed simp

text \<open>
  The table of performances loses and invents nothing: its lines are the API's, in the API's order; every block is of one
  season and headed by its name and the exact sums of its lines; and two blocks that follow each other are of different
  seasons.
\<close>
theorem seasons_add_up:
  "concat (map sg_lines (seasons label (Some xs))) = xs \<and> list_all (group_ok label) (seasons label (Some xs))
    \<and> distinct_adj (map sg_season (seasons label (Some xs)))"
  using seasons_invariant [of label xs] by (simp add: seasons_def)

text \<open>With lines in the API's order, by the start of the season, no season has two blocks.\<close>

lemma distinct_by_rank:
  "distinct_adj xs \<Longrightarrow> sorted_wrt (\<lambda>a b. (r b :: int) \<le> r a) xs \<Longrightarrow> inj_on r (set xs) \<Longrightarrow> distinct xs"
proof (induction xs rule: induct_list012)
  case (3 x y zs)
  have xy: "x \<noteq> y" "r y \<le> r x" using "3.prems"(1,2) by simp_all
  have "inj_on r (set (y # zs))" by (rule inj_on_subset [OF "3.prems"(3)]) (rule set_subset_Cons)
  then have d: "distinct (y # zs)" using "3.IH"(2) "3.prems"(1,2) by simp
  have "r y \<noteq> r x" using inj_onD [OF "3.prems"(3), of y x] xy(1) by auto
  then have "r y < r x" using xy(2) by simp
  moreover have "r z \<le> r y" if "z \<in> set zs" for z using "3.prems"(2) that by simp
  ultimately have "x \<notin> set zs" by force
  with xy(1) d show ?case by simp
qed simp_all

lemma groups_sorted:
  assumes "concat (map sg_lines gs) = xs" "\<forall>g\<in>set gs. sg_lines g \<noteq> [] \<and> (\<forall>l\<in>set (sg_lines g). sl_season l = sg_season g)"
    and "sorted_wrt (\<lambda>a b. (r (sl_season b) :: int) \<le> r (sl_season a)) xs"
  shows "sorted_wrt (\<lambda>a b. r b \<le> r a) (map sg_season gs)"
  using assms
proof (induction gs arbitrary: xs)
  case (Cons g gs)
  from Cons.prems(2) obtain l where l: "l \<in> set (sg_lines g)" "sl_season l = sg_season g" by (cases "sg_lines g") auto
  have s: "sorted_wrt (\<lambda>a b. r (sl_season b) \<le> r (sl_season a)) (sg_lines g @ concat (map sg_lines gs))"
    using Cons.prems(1,3) by simp
  have "sorted_wrt (\<lambda>a b. r b \<le> r a) (map sg_season gs)"
    by (rule Cons.IH [OF refl]) (use Cons.prems(2) s in \<open>simp_all add: sorted_wrt_append\<close>)
  moreover have "r (sg_season h) \<le> r (sg_season g)" if h: "h \<in> set gs" for h
  proof -
    from Cons.prems(2) h obtain m where m: "m \<in> set (sg_lines h)" "sl_season m = sg_season h" by (cases "sg_lines h") auto
    then have "m \<in> set (concat (map sg_lines gs))" using h by auto
    with s l(1) have "r (sl_season m) \<le> r (sl_season l)" unfolding sorted_wrt_append by blast
    with l m show ?thesis by simp
  qed
  ultimately show ?case by simp
qed simp

theorem each_season_once:
  assumes "sorted_wrt (\<lambda>a b. (start_of (sl_season b) :: int) \<le> start_of (sl_season a)) xs"
    and "inj_on start_of (sl_season ` set xs)"
  shows "distinct (map sg_season (seasons label (Some xs)))
    \<and> set (map sg_season (seasons label (Some xs))) = sl_season ` set xs"
proof -
  let ?gs = "foldl (add_line label) [] xs"
  note inv = seasons_invariant [of label xs]
  have "sorted_wrt (\<lambda>a b. start_of b \<le> start_of a) (map sg_season ?gs)"
    by (rule groups_sorted [OF _ _ assms(1)]) (use inv in \<open>auto simp: list_all_iff group_ok_def\<close>)
  moreover have "inj_on start_of (set (map sg_season ?gs))" using inv assms(2) by simp
  ultimately have "distinct (map sg_season ?gs)" using inv by (intro distinct_by_rank) auto
  with inv show ?thesis by (simp add: seasons_def)
qed

definition sample_lines :: "stat_line list" where
  "sample_lines =
     (let l = (\<lambda>i s n. \<lparr>sl_id = i, sl_season = s, sl_league = ''epl'', sl_team = None, sl_counts = no_totals\<lparr>goals := n\<rparr>\<rparr>)
      in [l ''1'' ''25'' 4, l ''2'' ''25'' 3, l ''3'' ''24'' 9])"

theorem each_season_once_witness:
  "map (\<lambda>g. goals (sg_total g)) (seasons (\<lambda>s. s) (Some sample_lines)) = [7, 9]
    \<and> distinct (map sg_season (seasons (\<lambda>s. s) (Some sample_lines)))"
proof
  show "map (\<lambda>g. goals (sg_total g)) (seasons (\<lambda>s. s) (Some sample_lines)) = [7, 9]"
    by (simp add: seasons_def sample_lines_def add_line_def add_totals_def no_totals_def Let_def)
  have "distinct (map sg_season (seasons (\<lambda>s. s) (Some sample_lines)))
      \<and> set (map sg_season (seasons (\<lambda>s. s) (Some sample_lines))) = sl_season ` set sample_lines"
    by (rule each_season_once [where start_of = "\<lambda>s. if s = ''25'' then 2025 else 2024"])
      (simp_all add: sample_lines_def Let_def inj_on_def)
  then show "distinct (map sg_season (seasons (\<lambda>s. s) (Some sample_lines)))" by simp
qed

text \<open>\<open>percentages\<close>: those that were entered, to one decimal; \<open>Math.round\<close> rounds halves up.\<close>

record match_numbers =
  duels_won_pct :: "real option"
  pass_completion_pct :: "real option"
  shots_on_target_pct :: "real option"
  aerial_duels_won_pct :: "real option"

definition metrics :: "match_numbers \<Rightarrow> (string \<times> real option) list" where
  "metrics p =
     [(''Duels won'', duels_won_pct p), (''Passes completed'', pass_completion_pct p),
      (''Shots on target'', shots_on_target_pct p), (''Headers won'', aerial_duels_won_pct p)]"

definition season_percentages :: "match_numbers \<Rightarrow> (string \<times> real) list" where
  "season_percentages p =
     map (\<lambda>(l, v). (l, real_of_int \<lfloor>the v * 10 + 1 / 2\<rfloor> / 10)) (filter (\<lambda>(l, v). v \<noteq> None) (metrics p))"

text \<open>
  A number is shown exactly when it was entered, a zero included, under its own label and in the fixed order; it is off
  by a twentieth at most and stays a percentage.
\<close>
theorem percentages_are_honest:
  "map fst (season_percentages p) = map fst (filter (\<lambda>(l, v). v \<noteq> None) (metrics p))
    \<and> (\<forall>(l, w)\<in>set (season_percentages p). \<exists>v. (l, Some v) \<in> set (metrics p) \<and> \<bar>w - v\<bar> \<le> 1 / 20
          \<and> (0 \<le> v \<and> v \<le> 100 \<longrightarrow> 0 \<le> w \<and> w \<le> 100))"
proof -
  have "\<exists>v. (l, Some v) \<in> set (metrics p) \<and> \<bar>w - v\<bar> \<le> 1 / 20 \<and> (0 \<le> v \<and> v \<le> 100 \<longrightarrow> 0 \<le> w \<and> w \<le> 100)"
    if lw: "(l, w) \<in> set (season_percentages p)" for l w
  proof -
    from lw obtain v where v: "(l, Some v) \<in> set (metrics p)" and w: "w = real_of_int \<lfloor>v * 10 + 1 / 2\<rfloor> / 10"
      by (auto simp: season_percentages_def)
    have "\<bar>w - v\<bar> \<le> 1 / 20" unfolding w by linarith
    moreover have "0 \<le> w \<and> w \<le> 100" if "0 \<le> v \<and> v \<le> 100" using that unfolding w by (simp add: le_floor_iff)
    ultimately show ?thesis using v by blast
  qed
  moreover have "map fst (season_percentages p) = map fst (filter (\<lambda>(l, v). v \<noteq> None) (metrics p))"
    by (simp add: season_percentages_def case_prod_beta comp_def)
  ultimately show ?thesis by blast
qed

theorem percentages_are_honest_witness:
  "map fst (season_percentages \<lparr>duels_won_pct = Some 0, pass_completion_pct = None, shots_on_target_pct = Some 50,
     aerial_duels_won_pct = None\<rparr>) = [''Duels won'', ''Shots on target'']"
  using percentages_are_honest [of "\<lparr>duels_won_pct = Some 0, pass_completion_pct = None, shots_on_target_pct = Some 50,
     aerial_duels_won_pct = None\<rparr>"] by (simp add: metrics_def)

section \<open>What a page shows of what it loaded\<close>

text \<open>A resource: whether its loader runs, how it failed, what it holds.\<close>

record 'v page_state =
  is_fetching :: bool
  fetch_error :: "caught option"
  fetched_value :: "'v option"

definition page_error :: "(string option) \<Rightarrow> string \<Rightarrow> caught option \<Rightarrow> string" where
  "page_error missing fallback e =
     (case e of
        Some (CaughtApi a) \<Rightarrow> (case missing of Some m \<Rightarrow> if err_code a = NotFound then m else err_message a
                                             | None \<Rightarrow> err_message a)
      | Some (CaughtError m) \<Rightarrow> m
      | _ \<Rightarrow> fallback)"

definition page_request_id :: "caught option \<Rightarrow> string option" where
  "page_request_id e = (case e of Some (CaughtApi a) \<Rightarrow> err_request a | _ \<Rightarrow> None)"

datatype 'a view = Skeleton | Failure string | Note string | Showing 'a

text \<open>A page of one record, and a page or a section that is a list.\<close>

definition record_view :: "string \<Rightarrow> string \<Rightarrow> 'v page_state \<Rightarrow> 'v view" where
  "record_view missing fallback r =
     (case fetched_value r of
        Some v \<Rightarrow> Showing v
      | None \<Rightarrow> if is_fetching r then Skeleton
                else if fetch_error r \<noteq> None then Failure (page_error (Some missing) fallback (fetch_error r))
                else Note [])"

definition list_view :: "(caught option \<Rightarrow> string) \<Rightarrow> string \<Rightarrow> 'a list_page page_state \<Rightarrow> 'a list view" where
  "list_view message nothing r =
     (if is_fetching r \<and> fetched_value r = None then Skeleton
      else if fetch_error r \<noteq> None \<and> fetched_value r = None then Failure (message (fetch_error r))
      else (case fetched_value r of
              None \<Rightarrow> Note nothing
            | Some p \<Rightarrow> if page_items p = [] then Note nothing else Showing (page_items p)))"

text \<open>The lists inside a page have no branch for a failure, and some have none for the wait.\<close>

definition waiting_section :: "string \<Rightarrow> 'a list_page page_state \<Rightarrow> 'a list view" where
  "waiting_section nothing r =
     (if is_fetching r \<and> fetched_value r = None then Skeleton
      else (case fetched_value r of
              None \<Rightarrow> Note nothing
            | Some p \<Rightarrow> if page_items p = [] then Note nothing else Showing (page_items p)))"

definition plain_section :: "string \<Rightarrow> 'a list_page page_state \<Rightarrow> 'a list view" where
  "plain_section nothing r =
     (case fetched_value r of
        None \<Rightarrow> Note nothing
      | Some p \<Rightarrow> if page_items p = [] then Note nothing else Showing (page_items p))"

text \<open>
  A page that loads a list says so, and says when it failed and why: the note that there is nothing stands only for a
  list that arrived and is empty.  A missing record is named as missing, and whatever went wrong a message stands there.
\<close>
theorem list_page_tells_the_truth:
  assumes "fetched_value r \<noteq> None \<or> is_fetching r \<or> fetch_error r \<noteq> None"
  shows "(list_view message nothing r = Note nothing \<longleftrightarrow> (\<exists>p. fetched_value r = Some p \<and> page_items p = []))
    \<and> (list_view message nothing r = Skeleton \<longleftrightarrow> is_fetching r \<and> fetched_value r = None)
    \<and> (\<forall>p. fetched_value r = Some p \<and> page_items p \<noteq> [] \<longrightarrow> list_view message nothing r = Showing (page_items p))"
  using assms by (auto simp: list_view_def split: option.splits)

theorem list_page_tells_the_truth_witness:
  "list_view (page_error None ''Could not load clubs.'') ''No clubs yet.''
     \<lparr>is_fetching = False, fetch_error = None, fetched_value = Some (emptyPage 25 :: nat list_page)\<rparr> = Note ''No clubs yet.''"
proof -
  let ?r = "\<lparr>is_fetching = False, fetch_error = None, fetched_value = Some (emptyPage 25 :: nat list_page)\<rparr>"
  have "fetched_value ?r \<noteq> None \<or> is_fetching ?r \<or> fetch_error ?r \<noteq> None" by simp
  from list_page_tells_the_truth [OF this, of "page_error None ''Could not load clubs.''" "''No clubs yet.''"]
  show ?thesis by (simp add: emptyPage_def)
qed

theorem missing_record_is_named:
  assumes "fetch_error r = Some (CaughtApi (fromHttp st body))" "err_code (fromHttp st body) = NotFound"
    and "\<not> is_fetching r" "fetched_value r = None"
  shows "record_view missing fallback r = Failure missing"
  using assms by (simp add: record_view_def page_error_def)

theorem missing_record_is_named_witness:
  "record_view ''No club with that id.'' ''Could not load the club.''
     \<lparr>is_fetching = False, fetch_error = Some (CaughtApi (fromHttp 404 None)), fetched_value = None :: nat option\<rparr>
     = Failure ''No club with that id.''"
  by (rule missing_record_is_named [where st = 404 and body = None])
    (simp_all add: fromHttp_def body_field_def isApiErrorCode_def codeForStatus_def)

text \<open>
  A section that failed to load reads as one that has nothing: the squad of a club and the moves of a player also
  while they are still on their way, the clubs of a competition once the request failed.
\<close>
theorem failed_section_reads_empty:
  assumes "fetched_value r = None"
  shows "plain_section nothing r = Note nothing \<and> (\<not> is_fetching r \<longrightarrow> waiting_section nothing r = Note nothing)"
  using assms by (simp add: plain_section_def waiting_section_def)

theorem failed_section_reads_empty_witness:
  "plain_section ''No players recorded at this club.''
     \<lparr>is_fetching = True, fetch_error = None, fetched_value = None :: nat list_page option\<rparr>
     = Note ''No players recorded at this club.''"
  using failed_section_reads_empty [of "\<lparr>is_fetching = True, fetch_error = None, fetched_value = None :: nat list_page option\<rparr>"]
  by simp

section \<open>A club: the squad and its entries\<close>

definition POSITIONS :: "string list" where
  "POSITIONS = [''Goalkeeper'', ''Centre-Back'', ''Left-Back'', ''Right-Back'', ''Defensive Midfield'', ''Central Midfield'',
     ''Attacking Midfield'', ''Left Winger'', ''Right Winger'', ''Second Striker'', ''Centre-Forward'']"

definition lineOf :: "string \<Rightarrow> int" where
  "lineOf position =
     (let p = map lower position in
      if sublist ''goalkeeper'' p then 0
      else if sublist ''back'' p \<or> sublist ''defen'' p then 1
      else if sublist ''midfield'' p then 2
      else if sublist ''wing'' p \<or> sublist ''forward'' p \<or> sublist ''striker'' p \<or> sublist ''attack'' p then 3
      else 4)"

record squad_row =
  sq_id :: string
  sq_name :: string
  sq_position :: string
  sq_value :: int

definition squad_order :: "(string \<Rightarrow> string \<Rightarrow> int) \<Rightarrow> squad_row \<Rightarrow> squad_row \<Rightarrow> int" where
  "squad_order loc a b =
     (let d = lineOf (sq_position a) - lineOf (sq_position b) in
      if d \<noteq> 0 then d
      else (let v = sq_value b - sq_value a in if v \<noteq> 0 then v else loc (sq_name a) (sq_name b)))"

definition orderedSquad :: "(string \<Rightarrow> string \<Rightarrow> int) \<Rightarrow> squad_row list_page option \<Rightarrow> squad_row list" where
  "orderedSquad loc page = js_sort (squad_order loc) (case page of None \<Rightarrow> [] | Some p \<Rightarrow> page_items p)"

text \<open>
  The squad is read from back to front: it is the players of the API, each once, the lines in order, within a line the
  dearest first, and players of one line and one value by name.
\<close>
theorem squad_from_back_to_front:
  assumes loc: "\<And>x y. loc x y \<le> 0 \<or> loc y x \<le> 0" "\<And>x y z. loc x y \<le> 0 \<Longrightarrow> loc y z \<le> 0 \<Longrightarrow> loc x z \<le> 0"
  shows "mset (orderedSquad loc (Some p)) = mset (page_items p)
    \<and> sorted_wrt (\<lambda>a b. lineOf (sq_position a) < lineOf (sq_position b)
        \<or> lineOf (sq_position a) = lineOf (sq_position b)
            \<and> (sq_value b < sq_value a \<or> sq_value a = sq_value b \<and> loc (sq_name a) (sq_name b) \<le> 0))
        (orderedSquad loc (Some p))"
proof -
  have le: "squad_order loc a b \<le> 0 \<longleftrightarrow> lineOf (sq_position a) < lineOf (sq_position b)
      \<or> lineOf (sq_position a) = lineOf (sq_position b)
            \<and> (sq_value b < sq_value a \<or> sq_value a = sq_value b \<and> loc (sq_name a) (sq_name b) \<le> 0)" for a b
    by (auto simp: squad_order_def Let_def)
  have "sorted_wrt (\<lambda>a b. squad_order loc a b \<le> 0) (js_sort (squad_order loc) (page_items p))"
  proof (rule js_sort_sorted)
    show "squad_order loc x y \<le> 0 \<or> squad_order loc y x \<le> 0" for x y unfolding le using loc(1) by force
    show "squad_order loc x y \<le> 0 \<Longrightarrow> squad_order loc y z \<le> 0 \<Longrightarrow> squad_order loc x z \<le> 0" for x y z
      unfolding le using loc(2) by force
  qed
  then show ?thesis unfolding le orderedSquad_def by (simp add: mset_js_sort)
qed

definition by_code :: "string \<Rightarrow> string \<Rightarrow> int" where
  "by_code a b = (if a = b then 0 else if str_le a b then - 1 else 1)"

theorem squad_from_back_to_front_witness:
  "mset (orderedSquad by_code (Some (emptyPage 100\<lparr>page_items :=
     [\<lparr>sq_id = ''9'', sq_name = ''Saka'', sq_position = ''Right Winger'', sq_value = 12\<rparr>,
      \<lparr>sq_id = ''1'', sq_name = ''Raya'', sq_position = ''Goalkeeper'', sq_value = 3\<rparr>]\<rparr>)))
   = {# \<lparr>sq_id = ''9'', sq_name = ''Saka'', sq_position = ''Right Winger'', sq_value = 12\<rparr>,
        \<lparr>sq_id = ''1'', sq_name = ''Raya'', sq_position = ''Goalkeeper'', sq_value = 3\<rparr> #}"
proof -
  have "by_code x y \<le> 0 \<or> by_code y x \<le> 0" for x y using str_le_total [of x y] by (auto simp: by_code_def)
  moreover have "by_code x y \<le> 0 \<Longrightarrow> by_code y z \<le> 0 \<Longrightarrow> by_code x z \<le> 0" for x y z
    using str_le_trans [of x y z] by (auto simp: by_code_def split: if_splits)
  ultimately show ?thesis
    by (subst conjunct1 [OF squad_from_back_to_front [of by_code]]) simp_all
qed

text \<open>
  Every position the player form offers has a line; the defensive midfielder is put among the defenders, because the
  word for defenders is looked for first.
\<close>
theorem defensive_midfield_is_a_defender:
  "map lineOf POSITIONS = [0, 1, 1, 1, 1, 2, 2, 3, 3, 3, 3]"
  by code_simp

text \<open>Withdrawing an entry: a second one waits for the first.\<close>

record entries_state =
  withdrawing :: "string option"
  withdrawError :: "string option"
  withdrawals :: "string list"
  entry_reloads :: nat

definition withdraw :: "bool \<Rightarrow> string \<Rightarrow> entries_state \<Rightarrow> entries_state" where
  "withdraw confirmed entry s =
     (if truthy (withdrawing s) then s
      else if \<not> confirmed then s
      else s\<lparr>withdrawing := Some entry, withdrawError := None, withdrawals := withdrawals s @ [entry]\<rparr>)"

definition withdraw_settled :: "caught option \<Rightarrow> entries_state \<Rightarrow> entries_state" where
  "withdraw_settled failure s =
     (case failure of
        None \<Rightarrow> s\<lparr>entry_reloads := entry_reloads s + 1, withdrawing := None\<rparr>
      | Some e \<Rightarrow> s\<lparr>withdrawError := Some (messageFor e ''Could not remove the entry.''), withdrawing := None\<rparr>)"

text \<open>The requests of a page over time, and how many of them were answered.\<close>

inductive withdrew :: "entries_state \<Rightarrow> nat \<Rightarrow> bool" where
  withdrew_none: "withdrew \<lparr>withdrawing = None, withdrawError = None, withdrawals = [], entry_reloads = 0\<rparr> 0"
| withdrew_ask: "withdrew s n \<Longrightarrow> entry \<noteq> [] \<Longrightarrow> withdrew (withdraw confirmed entry s) n"
| withdrew_done: "withdrew s n \<Longrightarrow> withdrawing s \<noteq> None \<Longrightarrow> withdrew (withdraw_settled failure s) (n + 1)"

lemma withdrew_inv:
  "withdrew s n \<Longrightarrow> length (withdrawals s) = n + (if withdrawing s = None then 0 else 1) \<and> withdrawing s \<noteq> Some []"
  by (induction rule: withdrew.induct) (auto simp: withdraw_def withdraw_settled_def truthy_def split: option.splits)

text \<open>However often the button is pressed, at most one request is unanswered, and none is sent without a confirmation.\<close>

theorem one_withdrawal_at_a_time:
  assumes "withdrew s n"
  shows "length (withdrawals s) \<le> n + 1 \<and> withdraw False entry s = s
    \<and> (withdrawing s \<noteq> None \<longrightarrow> withdraw confirmed entry s = s)"
  using withdrew_inv [OF assms] by (auto simp: withdraw_def truthy_def)

theorem one_withdrawal_at_a_time_witness:
  "let s = withdraw True ''e1'' \<lparr>withdrawing = None, withdrawError = None, withdrawals = [], entry_reloads = 0\<rparr>
   in withdraw True ''e2'' s = s"
  using one_withdrawal_at_a_time [OF withdrew_ask [OF withdrew_none, of "''e1''" True], of "''e2''" True]
  by (simp add: withdraw_def truthy_def)

text \<open>The role of a spell: \<open>replace('_', ' ')\<close> replaces the first underscore only.\<close>

fun replace_first :: "char \<Rightarrow> char \<Rightarrow> string \<Rightarrow> string" where
  "replace_first a b [] = []"
| "replace_first a b (c # s) = (if c = a then b # s else c # replace_first a b s)"

definition role_label :: "string \<Rightarrow> string" where
  "role_label role = replace_first (CHR ''_'') (CHR '' '') role"

definition spell_roles :: "string list" where
  "spell_roles = [''head_coach'', ''assistant_coach'', ''interim_coach'', ''caretaker'', ''director_of_football'', ''youth_coach'']"

theorem director_keeps_an_underscore:
  "filter (\<lambda>r. CHR ''_'' \<in> set (role_label r)) spell_roles = [''director_of_football'']"
  by (simp add: spell_roles_def role_label_def)

section \<open>Seasons\<close>

record season_form =
  zf_label :: string
  zf_start :: string
  zf_end :: string

record season_body =
  zb_label :: string
  zb_start :: "string option"
  zb_end :: "string option"

record season_row =
  z_id :: string
  z_label :: string
  z_start :: string
  z_end :: string

definition season_build :: "season_form \<Rightarrow> field_errors + season_body" where
  "season_build f =
     (let lbl = trim (zf_label f);
          errs = err_if (lbl = []) ''label'' ''A label is required.''
            @ err_if (zf_start f = []) ''start_date'' ''A start date is required.''
            @ (if zf_start f \<noteq> [] \<and> zf_end f \<noteq> [] \<and> str_le (zf_end f) (zf_start f)
               then [(''end_date'', ''Must be after the start.'')]
               else err_if (zf_end f = []) ''end_date'' ''An end date is required.'')
      in if errs \<noteq> [] then Inl errs
         else Inr \<lparr>zb_label = lbl, zb_start = toApiDate (Some (zf_start f)), zb_end = toApiDate (Some (zf_end f))\<rparr>)"

definition season_save :: "season_form \<Rightarrow> submit \<Rightarrow> submit \<times> season_body option" where
  "season_save f s = begin_save (season_build f) s"

definition season_fill :: "season_row \<Rightarrow> season_form" where
  "season_fill r = \<lparr>zf_label = z_label r, zf_start = toDateInput (Some (z_start r)), zf_end = toDateInput (Some (z_end r))\<rparr>"

text \<open>
  The rules of the service (\<open>season_service.go\<close>): \<open>validateSeason\<close>, the season whose days run into the given ones,
  and the two writes.  Days are the first ten characters of the stamps.
\<close>

definition day_of :: "string \<Rightarrow> string" where
  "day_of stamp = take 10 stamp"

definition validateSeason :: "season_body \<Rightarrow> string option" where
  "validateSeason b =
     (if zb_label b = [] then Some ''label is required''
      else (case zb_start b of
              None \<Rightarrow> Some ''start_date and end_date are required''
            | Some st \<Rightarrow>
                (case zb_end b of
                   None \<Rightarrow> Some ''start_date and end_date are required''
                 | Some en \<Rightarrow> if str_le (day_of en) (day_of st) then Some ''end_date must be after start_date'' else None)))"

definition runs_into :: "string \<Rightarrow> string \<Rightarrow> season_row \<Rightarrow> bool" where
  "runs_into st en r \<longleftrightarrow> str_le (day_of (z_start r)) (day_of en) \<and> str_le (day_of st) (day_of (z_end r))"

definition overlapping :: "string \<Rightarrow> string \<Rightarrow> season_row list \<Rightarrow> season_row option" where
  "overlapping st en others =
     (case js_sort (\<lambda>a b. by_code (day_of (z_start a)) (day_of (z_start b))) (filter (runs_into st en) others) of
        [] \<Rightarrow> None | r # _ \<Rightarrow> Some r)"

definition checked_season :: "season_row list \<Rightarrow> season_body \<Rightarrow> string + (string \<times> string)" where
  "checked_season others b =
     (case validateSeason b of
        Some e \<Rightarrow> Inl e
      | None \<Rightarrow> (case overlapping (the (zb_start b)) (the (zb_end b)) others of
                   Some r \<Rightarrow> Inl (''these dates overlap season '' @ z_label r)
                 | None \<Rightarrow> Inr (the (zb_start b), the (zb_end b))))"

definition update_row :: "season_row list \<Rightarrow> season_body \<Rightarrow> season_row \<Rightarrow> string + season_row" where
  "update_row others b r =
     (case checked_season others b of
        Inl e \<Rightarrow> Inl e
      | Inr (st, en) \<Rightarrow> Inr (r\<lparr>z_label := zb_label b, z_start := st, z_end := en\<rparr>))"

definition createSeason :: "string \<Rightarrow> season_body \<Rightarrow> season_row list \<Rightarrow> string + season_row list" where
  "createSeason i b rows =
     (case checked_season rows b of
        Inl e \<Rightarrow> Inl e
      | Inr (st, en) \<Rightarrow> Inr (rows @ [\<lparr>z_id = i, z_label = zb_label b, z_start = st, z_end = en\<rparr>]))"

definition updateSeason :: "string \<Rightarrow> season_body \<Rightarrow> season_row list \<Rightarrow> string + season_row list" where
  "updateSeason i b rows =
     (case checked_season (filter (\<lambda>r. z_id r \<noteq> i) rows) b of
        Inl e \<Rightarrow> Inl e
      | Inr (st, en) \<Rightarrow>
          if i \<notin> set (map z_id rows) then Inl ''season not found''
          else Inr (map (\<lambda>r. if z_id r = i then r\<lparr>z_label := zb_label b, z_start := st, z_end := en\<rparr> else r) rows))"

lemma overlapping_None: "overlapping st en others = None \<longleftrightarrow> (\<forall>r\<in>set others. \<not> runs_into st en r)"
proof -
  let ?c = "\<lambda>a b. by_code (day_of (z_start a)) (day_of (z_start b))"
  have "overlapping st en others = None \<longleftrightarrow> js_sort ?c (filter (runs_into st en) others) = []"
    unfolding overlapping_def by (simp split: list.split del: js_sort_Nil)
  also have "\<dots> \<longleftrightarrow> filter (runs_into st en) others = []" by (rule js_sort_Nil)
  finally show ?thesis by (simp add: filter_empty_conv)
qed

text \<open>
  The season form sends exactly what the rules of the service accept, the overlap with other seasons apart, which the
  comment leaves to the service.
\<close>
theorem season_form_mirrors_service:
  assumes "blank_or_day (zf_start f)" "blank_or_day (zf_end f)"
  shows "(\<exists>b. season_build f = Inr b) \<longleftrightarrow>
    validateSeason \<lparr>zb_label = trim (zf_label f), zb_start = toApiDate (Some (zf_start f)),
      zb_end = toApiDate (Some (zf_end f))\<rparr> = None"
proof -
  have d: "day_of (d @ ''T00:00:00Z'') = d" if "blank_or_day d" "d \<noteq> []" for d
    using that by (simp add: blank_or_day_def day_text_def day_of_def)
  have "toApiDate (Some []) = None" by (simp add: toApiDate_def trim_def)
  then show ?thesis
    using d [OF assms(1)] d [OF assms(2)]
    by (cases "zf_start f = []"; cases "zf_end f = []")
      (simp_all add: season_build_def validateSeason_def sent_day [OF assms(1)] sent_day [OF assms(2)] Let_def err_if_def)
qed

theorem season_form_mirrors_service_witness:
  "(\<exists>b. season_build \<lparr>zf_label = ''2026/27'', zf_start = ''2026-07-01'', zf_end = ''2026-07-01''\<rparr> = Inr b) \<longleftrightarrow> False"
  using season_form_mirrors_service [of "\<lparr>zf_label = ''2026/27'', zf_start = ''2026-07-01'', zf_end = ''2026-07-01''\<rparr>"]
  by (simp add: blank_or_day_def day_text_def is_digit_def validateSeason_def toApiDate_def trim_def is_ws_def day_of_def)

definition stored_season :: "season_row list \<Rightarrow> season_row \<Rightarrow> bool" where
  "stored_season others r \<longleftrightarrow>
     tidy_text (Some (z_label r)) \<and> stored_day (Some (z_start r)) \<and> stored_day (Some (z_end r))
     \<and> \<not> str_le (day_of (z_end r)) (day_of (z_start r)) \<and> (\<forall>w\<in>set others. \<not> runs_into (z_start r) (z_end r) w)"

lemma season_refilled:
  assumes "stored_season others r"
  shows "\<exists>b. season_build (season_fill r) = Inr b \<and> update_row others b r = Inr r"
proof -
  let ?b = "\<lparr>zb_label = z_label r, zb_start = Some (z_start r), zb_end = Some (z_end r)\<rparr>"
  have s: "toApiDate (Some (toDateInput (Some (z_start r)))) = Some (z_start r)"
    and e: "toApiDate (Some (toDateInput (Some (z_end r)))) = Some (z_end r)"
    using assms day_back unfolding stored_season_def by blast+
  have n: "trim (z_label r) = z_label r" "z_label r \<noteq> []" using assms tidy_name unfolding stored_season_def by blast+
  have day: "toDateInput (Some (z_start r)) = day_of (z_start r)" "toDateInput (Some (z_end r)) = day_of (z_end r)"
    by (simp_all add: toDateInput_def day_of_def)
  have "day_of (z_start r) \<noteq> []" "day_of (z_end r) \<noteq> []"
    using s e unfolding day by (auto simp: toApiDate_def trim_def)
  then have "season_build (season_fill r) = Inr ?b"
    using assms n s e unfolding season_build_def season_fill_def
    by (simp add: day stored_season_def Let_def err_if_def)
  moreover have "validateSeason ?b = None" using n assms by (simp add: validateSeason_def stored_season_def)
  then have "update_row others ?b r = Inr r"
    using assms by (simp add: update_row_def checked_season_def stored_season_def overlapping_None [symmetric])
  ultimately show ?thesis by blast
qed

interpretation season_edits: edit_form "stored_season others" season_fill season_build "update_row others" for others
  by unfold_locales (rule season_refilled)

text \<open>Opening the form of a stored season and saving it untouched, any number of times, leaves the season as it was.\<close>

theorem untouched_season_stays:
  assumes "stored_season others r" "\<not> busy s"
  shows "\<exists>s' b. season_save (season_fill r) s = (s', Some b) \<and> update_row others b r = Inr r"
  using season_edits.untouched [OF assms] by (auto simp: season_save_def)

theorem untouched_season_stays_witness:
  "\<exists>s' b. season_save (season_fill \<lparr>z_id = ''z1'', z_label = ''2026/27'', z_start = ''2026-07-01T00:00:00Z'',
     z_end = ''2027-06-30T00:00:00Z''\<rparr>) idle = (s', Some b)"
  using untouched_season_stays [of "[]" "\<lparr>z_id = ''z1'', z_label = ''2026/27'', z_start = ''2026-07-01T00:00:00Z'',
     z_end = ''2027-06-30T00:00:00Z''\<rparr>" idle]
  by (auto simp: stored_season_def tidy_text_def stored_day_def day_text_def is_digit_def trim_def is_ws_def day_of_def idle_def)

text \<open>Tables of seasons the service can reach.\<close>

inductive season_table :: "season_row list \<Rightarrow> bool" where
  no_seasons: "season_table []"
| season_created: "season_table rows \<Longrightarrow> i \<notin> set (map z_id rows) \<Longrightarrow> createSeason i b rows = Inr rows' \<Longrightarrow> season_table rows'"
| season_updated: "season_table rows \<Longrightarrow> updateSeason i b rows = Inr rows' \<Longrightarrow> season_table rows'"
| season_deleted: "season_table rows \<Longrightarrow> season_table (filter (\<lambda>r. z_id r \<noteq> i) rows)"

definition season_covers :: "season_row \<Rightarrow> string \<Rightarrow> bool" where
  "season_covers r day \<longleftrightarrow> str_le (day_of (z_start r)) day \<and> str_le day (day_of (z_end r))"

definition apart :: "season_row list \<Rightarrow> bool" where
  "apart rows \<longleftrightarrow> distinct (map z_id rows) \<and> (\<forall>a\<in>set rows. \<forall>b\<in>set rows. z_id a \<noteq> z_id b \<longrightarrow> \<not> runs_into (z_start a) (z_end a) b)"

lemma runs_into_sym: "runs_into (z_start a) (z_end a) b \<longleftrightarrow> runs_into (z_start b) (z_end b) a"
  by (auto simp: runs_into_def)

lemma checked_season_free:
  "checked_season others b = Inr (st, en) \<Longrightarrow> \<forall>w\<in>set others. \<not> runs_into st en w"
  by (auto simp: checked_season_def overlapping_None split: option.splits)

lemma season_table_apart: "season_table rows \<Longrightarrow> apart rows"
proof (induction rule: season_table.induct)
  case (season_created rows i b rows')
  then obtain st en where c: "checked_season rows b = Inr (st, en)"
    and r: "rows' = rows @ [\<lparr>z_id = i, z_label = zb_label b, z_start = st, z_end = en\<rparr>]"
    by (auto simp: createSeason_def split: sum.splits)
  let ?n = "\<lparr>z_id = i, z_label = zb_label b, z_start = st, z_end = en\<rparr>"
  have "\<forall>w\<in>set rows. \<not> runs_into (z_start ?n) (z_end ?n) w" using checked_season_free [OF c] by simp
  then have "\<forall>w\<in>set rows. \<not> runs_into (z_start w) (z_end w) ?n" using runs_into_sym [of ?n] by blast
  with season_created.IH season_created.hyps(2) checked_season_free [OF c] show ?case by (auto simp: r apart_def)
next
  case (season_updated rows i b rows')
  then obtain st en where c: "checked_season (filter (\<lambda>r. z_id r \<noteq> i) rows) b = Inr (st, en)"
    and r: "rows' = map (\<lambda>r. if z_id r = i then r\<lparr>z_label := zb_label b, z_start := st, z_end := en\<rparr> else r) rows"
    by (auto simp: updateSeason_def split: sum.splits if_splits)
  have free: "\<not> runs_into st en w" if "w \<in> set rows" "z_id w \<noteq> i" for w
    using checked_season_free [OF c] that by auto
  have free': "\<not> runs_into (z_start w) (z_end w) (q\<lparr>z_label := l, z_start := st, z_end := en\<rparr>)"
    if "w \<in> set rows" "z_id w \<noteq> i" for w q l
    using free [OF that] runs_into_sym [of w "q\<lparr>z_label := l, z_start := st, z_end := en\<rparr>"] by simp
  have "map z_id rows' = map z_id rows" by (simp add: r)
  moreover have "\<not> runs_into (z_start a) (z_end a) b" if "a \<in> set rows'" "b \<in> set rows'" "z_id a \<noteq> z_id b" for a b
    using that season_updated.IH free free' unfolding r apart_def by (auto split: if_splits)
  ultimately show ?case using season_updated.IH unfolding apart_def by metis
next
  case (season_deleted rows i)
  then show ?case by (auto simp: apart_def distinct_map intro: inj_on_subset)
qed (simp add: apart_def)


definition two_seasons :: "season_row list" where
  "two_seasons =
     [\<lparr>z_id = ''a'', z_label = ''25/26'', z_start = ''2025-07-01T00:00:00Z'', z_end = ''2026-06-30T00:00:00Z''\<rparr>,
      \<lparr>z_id = ''b'', z_label = ''26/27'', z_start = ''2026-07-01T00:00:00Z'', z_end = ''2027-06-30T00:00:00Z''\<rparr>]"

lemma two_seasons_reached: "season_table two_seasons"
proof -
  have "createSeason ''a'' \<lparr>zb_label = ''25/26'', zb_start = Some ''2025-07-01T00:00:00Z'',
      zb_end = Some ''2026-06-30T00:00:00Z''\<rparr> [] = Inr [two_seasons ! 0]"
    by (simp add: createSeason_def checked_season_def validateSeason_def overlapping_def js_sort_def day_of_def two_seasons_def)
  from season_created [OF no_seasons _ this] have one: "season_table [two_seasons ! 0]" by simp
  have "createSeason ''b'' \<lparr>zb_label = ''26/27'', zb_start = Some ''2026-07-01T00:00:00Z'',
      zb_end = Some ''2027-06-30T00:00:00Z''\<rparr> [two_seasons ! 0] = Inr two_seasons"
    by (simp add: createSeason_def checked_season_def validateSeason_def overlapping_def js_sort_def day_of_def
        two_seasons_def runs_into_def)
  from season_created [OF one _ this] show ?thesis by (simp add: two_seasons_def)
qed


section \<open>Lists page by page, and the feed\<close>

text \<open>
  The list pages keep one page query, which the paginator replaces; the feed also keeps a type of transfer, and a new
  type starts from the first page.
\<close>

definition first_page :: "nat \<times> nat" where
  "first_page = (25, 0)"

record feed =
  feed_type :: string
  feed_page :: "nat \<times> nat"

definition new_feed :: feed where
  "new_feed = \<lparr>feed_type = [], feed_page = first_page\<rparr>"

definition setType :: "string \<Rightarrow> feed \<Rightarrow> feed" where
  "setType t s = s\<lparr>feed_type := t, feed_page := first_page\<rparr>"

definition goTo :: "nat \<times> nat \<Rightarrow> feed \<Rightarrow> feed" where
  "goTo q s = s\<lparr>feed_page := q\<rparr>"

definition feed_query :: "feed \<Rightarrow> (nat \<times> nat) \<times> string option" where
  "feed_query s = (feed_page s, if feed_type s = [] then None else Some (feed_type s))"

definition TRANSFER_TYPES :: "(string \<times> string) list" where
  "TRANSFER_TYPES =
     [([], ''All moves''), (''permanent'', ''Permanent''), (''loan'', ''Loan''), (''loan_return'', ''Loan return''),
      (''free'', ''Free''), (''youth_promotion'', ''Youth''), (''released'', ''Released''), (''retired'', ''Retired'')]"

definition transfer_label :: "string \<Rightarrow> string" where
  "transfer_label t = (case map_of TRANSFER_TYPES t of Some l \<Rightarrow> l | None \<Rightarrow> t)"

definition TYPE_LABELS :: "(string \<times> string) list" where
  "TYPE_LABELS = [(''league'', ''League''), (''domestic_cup'', ''Domestic cup''),
     (''international_cup'', ''International cup''), (''super_cup'', ''Super cup'')]"

definition typeLabel :: "string \<Rightarrow> string" where
  "typeLabel t = (case map_of TYPE_LABELS t of Some l \<Rightarrow> l | None \<Rightarrow> t)"

text \<open>
  The states of the feed over lists the API serves, \<open>rows t\<close> the moves of a type: the buttons of the paginator work
  only where it offers them.
\<close>

inductive browsed :: "(string \<Rightarrow> 'a list) \<Rightarrow> feed \<Rightarrow> bool" for rows where
  feed_new: "browsed rows new_feed"
| feed_filter: "browsed rows s \<Longrightarrow> browsed rows (setType t s)"
| feed_next: "browsed rows s \<Longrightarrow> p = serve (rows (feed_type s)) (feed_page s) \<Longrightarrow> has_more p \<Longrightarrow> browsed rows (goTo (goNext p) s)"
| feed_back: "browsed rows s \<Longrightarrow> p = serve (rows (feed_type s)) (feed_page s) \<Longrightarrow> hasPrevious p \<Longrightarrow>
    browsed rows (goTo (goPrevious p) s)"

lemma browsed_inv:
  "browsed rows s \<Longrightarrow> fst (feed_page s) = 25 \<and> 25 dvd snd (feed_page s)
     \<and> (snd (feed_page s) = 0 \<or> snd (feed_page s) < length (rows (feed_type s)))"
proof (induction rule: browsed.induct)
  case (feed_next s p)
  then show ?case by (auto simp: serve_def Let_def goTo_def goNext_def MAX_PAGE_SIZE_def)
next
  case (feed_back s p)
  then show ?case by (auto simp: serve_def Let_def goTo_def goPrevious_def MAX_PAGE_SIZE_def dvd_diff_nat)
qed (simp_all add: new_feed_def first_page_def setType_def)

text \<open>
  However the feed is filtered and paged, it asks for a page that has rows unless no move of the type exists, and the
  page is the one the query says.
\<close>
theorem feed_page_is_never_empty:
  assumes "browsed rows s" "rows (feed_type s) \<noteq> []"
  shows "page_items (serve (rows (feed_type s)) (fst (feed_query s))) \<noteq> []
    \<and> fst (feed_query (setType t s)) = first_page \<and> snd (feed_query (setType t s)) \<noteq> Some []"
  using browsed_inv [OF assms(1)] assms(2)
  by (auto simp: feed_query_def serve_def Let_def MAX_PAGE_SIZE_def setType_def)

theorem feed_page_is_never_empty_witness:
  "page_items (serve [1..<31] (fst (feed_query (goTo (goNext (serve [1..<31] first_page)) new_feed)))) \<noteq> []"
proof -
  let ?p = "serve [1..<31] first_page"
  have "browsed (\<lambda>t. [1..<31]) (goTo (goNext ?p) new_feed)"
    by (rule feed_next [OF feed_new, of ?p]) (simp_all add: new_feed_def first_page_def serve_def MAX_PAGE_SIZE_def Let_def)
  from feed_page_is_never_empty [OF this] show ?thesis by simp
qed

text \<open>Every type of transfer and of competition the service stores has a name of its own.\<close>

definition stored_transfer_types :: "string list" where
  "stored_transfer_types = [''permanent'', ''loan'', ''loan_return'', ''free'', ''youth_promotion'', ''released'', ''retired'']"

definition stored_competition_types :: "string list" where
  "stored_competition_types = [''league'', ''domestic_cup'', ''international_cup'', ''super_cup'']"

theorem types_have_names:
  "distinct (map transfer_label stored_transfer_types) \<and> set (map transfer_label stored_transfer_types) \<inter> set stored_transfer_types = {}
    \<and> distinct (map typeLabel stored_competition_types)
    \<and> set (map typeLabel stored_competition_types) \<inter> set stored_competition_types = {}"
  by (simp add: transfer_label_def typeLabel_def TRANSFER_TYPES_def TYPE_LABELS_def stored_transfer_types_def
      stored_competition_types_def)

section \<open>Search, and who was in a competition\<close>

text \<open>A search of fewer than two characters asks nothing.\<close>

definition search_results :: "(string \<Rightarrow> string option \<Rightarrow> 'a list_page) \<Rightarrow> string \<Rightarrow> string option \<Rightarrow> 'a list_page" where
  "search_results ask q kind = (if length q < 2 then emptyPage 25 else ask q kind)"

definition search_view :: "string \<Rightarrow> 'a list_page page_state \<Rightarrow> 'a list view" where
  "search_view q r =
     (if length q < 2 then Note ''Type at least two characters to search.''
      else list_view (page_error None ''Search failed.'') (''Nothing matches '' @ q) r)"

definition kind_links :: "string \<Rightarrow> (string \<times> string option) list" where
  "kind_links q = map (\<lambda>k. (q, if k = [] then None else Some k)) [[], ''player'', ''team'', ''coach'', ''league'']"

definition active_kind :: "string option \<Rightarrow> string \<Rightarrow> bool" where
  "active_kind kind option_value \<longleftrightarrow> or_empty kind = option_value"

text \<open>A competition shows its clubs now, or its entrants once a season is picked; only then are these asked for.\<close>

definition entrants_query :: "string \<Rightarrow> string \<Rightarrow> (string \<times> string) option" where
  "entrants_query season league = (if season = [] then None else Some (season, league))"

datatype 'a competition_list = Entrants "'a list view" | ClubsNow "'a list view"

definition competition_clubs :: "string \<Rightarrow> string \<Rightarrow> 'a list_page page_state \<Rightarrow> 'a list_page page_state \<Rightarrow> 'a competition_list" where
  "competition_clubs season label entrants clubs =
     (if season \<noteq> []
      then Entrants (list_view (\<lambda>e. case e of None \<Rightarrow> ''Could not load the clubs for that season.''
                                            | Some c \<Rightarrow> messageFor c ''Could not load the clubs for that season.'')
             (''No clubs recorded in this competition for '' @ label @ ''.'') entrants)
      else ClubsNow (waiting_section ''No clubs in this competition yet.'' clubs))"

text \<open>The rows of the season that was asked for are what is shown, and without a season nothing is asked.\<close>

theorem season_picker_shows_its_season:
  "(\<exists>v. competition_clubs season label entrants clubs = Entrants v) \<longleftrightarrow> (\<exists>q. entrants_query season league = Some q)"
  by (simp add: competition_clubs_def entrants_query_def)

end
