(* ===== verification/Member_Lists.thy ===== *)
theory Member_Lists
  imports Article_Editor Shared_Forms Api_Lists
begin

text \<open>
  The lists a member works on: the tactics boards (\<open>features/tactics/list/tactics-list.ts\<close>) and the editorial desk
  (\<open>features/articles/desk/article-desk.ts\<close>), which load page after page and delete rows, and the public articles by tag
  (\<open>features/articles/list/article-list.ts\<close>).  What both lists do to their rows is one state with a key for the rows.
\<close>

section \<open>A list that grows and from which rows are deleted\<close>

record 'a grown =
  grown_rows :: "'a list"
  grown_busy :: bool
  grown_error :: "string option"
  grown_more :: bool
  to_delete :: "'a option"
  confirming :: bool

definition new_grown :: "'a grown" where
  "new_grown = \<lparr>grown_rows = [], grown_busy = True, grown_error = None, grown_more = False, to_delete = None,
     confirming = False\<rparr>"

definition load_begin :: "'a grown \<Rightarrow> 'a grown \<times> (nat \<times> nat)" where
  "load_begin s = (s\<lparr>grown_busy := True, grown_error := None\<rparr>, (MAX_PAGE_SIZE, length (grown_rows s)))"

definition rows_loaded :: "string \<Rightarrow> caught + 'a list_page \<Rightarrow> 'a grown \<Rightarrow> 'a grown" where
  "rows_loaded fallback res s =
     (case res of
        Inr p \<Rightarrow> s\<lparr>grown_rows := grown_rows s @ page_items p, grown_more := has_more p, grown_busy := False\<rparr>
      | Inl e \<Rightarrow> s\<lparr>grown_error := Some (messageFor e fallback), grown_busy := False\<rparr>)"

definition ask_delete :: "'a \<Rightarrow> 'a grown \<Rightarrow> 'a grown" where
  "ask_delete b s = s\<lparr>to_delete := Some b, confirming := True\<rparr>"

text \<open>
  The dialog closes and the row that is to go is read: that row is deleted.  The answer forgets whatever row stands
  there by then.
\<close>

definition confirm_delete :: "'a grown \<Rightarrow> 'a grown \<times> 'a option" where
  "confirm_delete s = (s\<lparr>confirming := False\<rparr>, to_delete s)"

definition delete_end :: "('a \<Rightarrow> string) \<Rightarrow> string \<Rightarrow> caught option \<Rightarrow> 'a \<Rightarrow> 'a grown \<Rightarrow> 'a grown" where
  "delete_end key fallback failure b s =
     (case failure of
        None \<Rightarrow> s\<lparr>grown_rows := filter (\<lambda>x. key x \<noteq> key b) (grown_rows s), to_delete := None\<rparr>
      | Some e \<Rightarrow> s\<lparr>grown_error := Some (messageFor e fallback), to_delete := None\<rparr>)"

text \<open>
  A calm life of the list: the rows \<open>table\<close> of the service change only by the deletions of this page, and a load and a
  deletion are never under way together.
\<close>

inductive calm_list :: "('a \<Rightarrow> string) \<Rightarrow> 'a list \<Rightarrow> 'a grown \<Rightarrow> bool" for key where
  calm_new: "distinct (map key table) \<Longrightarrow> calm_list key table new_grown"
| calm_load: "calm_list key table s \<Longrightarrow> load_begin s = (s', q) \<Longrightarrow> calm_list key table (rows_loaded f (Inr (serve table q)) s')"
| calm_load_fails: "calm_list key table s \<Longrightarrow> load_begin s = (s', q) \<Longrightarrow> calm_list key table (rows_loaded f (Inl e) s')"
| calm_ask: "calm_list key table s \<Longrightarrow> b \<in> set (grown_rows s) \<Longrightarrow> calm_list key table (ask_delete b s)"
| calm_delete: "calm_list key table s \<Longrightarrow> confirm_delete s = (s', Some b) \<Longrightarrow>
    calm_list key (filter (\<lambda>x. key x \<noteq> key b) table) (delete_end key f None b s')"
| calm_delete_fails: "calm_list key table s \<Longrightarrow> confirm_delete s = (s', Some b) \<Longrightarrow> calm_list key table (delete_end key f (Some e) b s')"

definition list_truth :: "('a \<Rightarrow> string) \<Rightarrow> 'a list \<Rightarrow> 'a grown \<Rightarrow> bool" where
  "list_truth key table s \<longleftrightarrow>
     distinct (map key table) \<and> prefix (grown_rows s) table
     \<and> (grown_rows s \<noteq> [] \<and> \<not> grown_more s \<longrightarrow> grown_rows s = table)"

lemma grown_prefix_load:
  assumes "list_truth key table s" "load_begin s = (s', q)"
  shows "list_truth key table (rows_loaded f (Inr (serve table q)) s')"
proof -
  obtain rest where t: "table = grown_rows s @ rest" using assms(1) by (auto simp: list_truth_def prefix_def)
  let ?m = "take MAX_PAGE_SIZE rest"
  have "table = (grown_rows s @ ?m) @ drop MAX_PAGE_SIZE rest" by (simp add: t)
  then have "prefix (grown_rows s @ ?m) table" by (metis prefixI)
  moreover have "serve table q = \<lparr>page_items = ?m, page_limit = MAX_PAGE_SIZE, page_offset = length (grown_rows s),
      has_more = MAX_PAGE_SIZE < length rest\<rparr>"
    using assms(2) by (auto simp: serve_def load_begin_def Let_def t)
  moreover have "?m = rest" if "\<not> MAX_PAGE_SIZE < length rest" using that by simp
  ultimately show ?thesis using assms by (auto simp: list_truth_def load_begin_def rows_loaded_def t)
qed

lemma calm_truth: "calm_list key table s \<Longrightarrow> list_truth key table s"
proof (induction rule: calm_list.induct)
  case (calm_load table s s' q f)
  then show ?case using grown_prefix_load [of key table s s' q f] by blast
next
  case (calm_delete table s s' b f)
  let ?p = "\<lambda>x. key x \<noteq> key b"
  from calm_delete obtain rest where t: "table = grown_rows s @ rest" "distinct (map key table)"
    "grown_rows s \<noteq> [] \<and> \<not> grown_more s \<longrightarrow> grown_rows s = table"
    by (auto simp: list_truth_def prefix_def)
  have "filter ?p table = filter ?p (grown_rows s) @ filter ?p rest" by (simp add: t(1))
  then have "prefix (filter ?p (grown_rows s)) (filter ?p table)" by (metis prefixI)
  moreover have "distinct (map key (filter ?p table))" using t(2) by (rule distinct_map_filter)
  moreover have "grown_rows s \<noteq> []" if "filter ?p (grown_rows s) \<noteq> []" using that by auto
  ultimately show ?case using t(3) calm_delete.hyps(2) by (auto simp: list_truth_def delete_end_def confirm_delete_def)
qed (auto simp: list_truth_def load_begin_def rows_loaded_def confirm_delete_def delete_end_def ask_delete_def new_grown_def)

text \<open>
  In a calm life the list is what it claims to be: the first rows of the service's list, each once and in its order, and
  all of them when nothing offers to show more.
\<close>
theorem list_is_a_prefix:
  assumes "calm_list key table s"
  shows "prefix (grown_rows s) table \<and> distinct (map key (grown_rows s))
    \<and> (grown_rows s \<noteq> [] \<and> \<not> grown_more s \<longrightarrow> grown_rows s = table)"
  using calm_truth [OF assms] by (auto simp: list_truth_def prefix_def)

theorem list_is_a_prefix_witness:
  "prefix (grown_rows (rows_loaded [] (Inr (serve [''a'', ''b''] (100, 0))) (fst (load_begin (new_grown :: string grown))))) [''a'', ''b'']"
proof -
  have "load_begin (new_grown :: string grown) = (fst (load_begin new_grown), (100, 0))"
    by (simp add: load_begin_def new_grown_def MAX_PAGE_SIZE_def)
  moreover have "distinct (map (\<lambda>x. x) [''a'', ''b''])" by simp
  ultimately have "calm_list (\<lambda>x. x) [''a'', ''b''] (rows_loaded [] (Inr (serve [''a'', ''b''] (100, 0))) (fst (load_begin new_grown)))"
    using calm_load [OF calm_new] by blast
  from list_is_a_prefix [OF this] show ?thesis by blast
qed

text \<open>
  A load that is under way while a row goes skips a row: it asks from the old length on, and behind the deletion the rows
  have moved up by one.
\<close>
theorem load_during_deletion_skips_a_row:
  assumes "table = grown_rows s @ x # rest" "distinct (map key table)" "b \<in> set (grown_rows s)"
    and "load_begin s = (s1, q)" "table' = filter (\<lambda>y. key y \<noteq> key b) table"
    and "s2 = rows_loaded f (Inr (serve table' q)) (delete_end key g None b s1)"
  shows "x \<in> set table' \<and> x \<notin> set (grown_rows s2)"
proof -
  let ?p = "\<lambda>y. key y \<noteq> key b" and ?r = "grown_rows s"
  have kb: "key b \<in> key ` set ?r" using assms(3) by simp
  have d: "key x \<notin> key ` set ?r" "key ` set ?r \<inter> key ` set rest = {}" using assms(1,2) by auto
  have "key b \<notin> key ` set rest" "key x \<noteq> key b" using kb d by auto
  then have out: "?p x" "filter ?p rest = rest" by (simp, simp add: filter_id_conv) (metis imageI)
  obtain us vs where r: "?r = us @ b # vs" using assms(3) by (auto dest: split_list)
  have "key b \<notin> key ` set us" "key b \<notin> key ` set vs" using assms(1,2) unfolding r by auto
  then have "filter ?p us = us" "filter ?p vs = vs" unfolding filter_id_conv by (metis imageI)+
  then have fr: "filter ?p ?r = us @ vs" by (simp add: r)
  have t': "table' = (us @ vs) @ x # rest" using assms(1,5) out fr by simp
  have "drop (length ?r) table' = rest" unfolding t' by (simp add: r)
  then have "grown_rows s2 = us @ vs @ take MAX_PAGE_SIZE rest"
    using assms(4,6) fr by (auto simp: load_begin_def rows_loaded_def delete_end_def serve_def Let_def)
  moreover have "x \<notin> set (us @ vs @ rest)" using assms(1,2) r by auto
  ultimately show ?thesis using t' by (auto dest: in_set_takeD)
qed

definition three_rows :: "string grown" where
  "three_rows = new_grown\<lparr>grown_rows := [''a'', ''b''], grown_busy := False, grown_more := True\<rparr>"

theorem load_during_deletion_skips_a_row_witness:
  "''c'' \<notin> set (grown_rows (rows_loaded [] (Inr (serve [''b'', ''c''] (100, 2)))
     (delete_end (\<lambda>x. x) [] None ''a'' (fst (load_begin three_rows)))))"
proof -
  have "''c'' \<in> set [''b'', ''c''] \<and> ''c'' \<notin> set (grown_rows (rows_loaded [] (Inr (serve [''b'', ''c''] (100, 2)))
     (delete_end (\<lambda>x. x) [] None ''a'' (fst (load_begin three_rows)))))"
    by (rule load_during_deletion_skips_a_row [where s = three_rows and x = "''c''" and rest = "[]" and key = "\<lambda>x. x"
          and b = "''a''" and ?s1.0 = "fst (load_begin three_rows)" and q = "(100, 2)" and table = "[''a'', ''b'', ''c'']"])
      (simp_all add: three_rows_def load_begin_def MAX_PAGE_SIZE_def)
  then show ?thesis by blast
qed

text \<open>
  The answer to a deletion forgets the row of the dialog that was opened meanwhile: confirming it then deletes nothing.
\<close>
theorem second_deletion_is_forgotten:
  "confirm_delete (delete_end key f failure b (ask_delete c s)) = (s', r) \<Longrightarrow> r = None \<and> confirming (delete_end key f failure b (ask_delete c s))"
  by (auto simp: confirm_delete_def delete_end_def ask_delete_def split: option.splits)

theorem second_deletion_is_forgotten_witness:
  "snd (confirm_delete (delete_end (\<lambda>x. x) [] None ''a'' (ask_delete ''b'' three_rows))) = None"
  using second_deletion_is_forgotten [OF prod.collapse [symmetric], of "\<lambda>x. x" "[]" None "''a''" "''b''" three_rows] by simp

section \<open>The tactics boards by author\<close>

record listed_board =
  br_slug :: string
  br_owner :: string
  br_owner_name :: string

record author_group =
  ag_owner :: string
  ag_name :: string
  ag_boards :: "listed_board list"
  ag_mine :: bool

text \<open>The loop over the boards: a \<open>Map\<close> from owners to groups, in the order the owners were met.\<close>

fun into_group :: "string option \<Rightarrow> listed_board \<Rightarrow> author_group list \<Rightarrow> author_group list" where
  "into_group me b [] =
     [\<lparr>ag_owner = br_owner b, ag_name = (if br_owner_name b = [] then ''A member'' else br_owner_name b), ag_boards = [b],
       ag_mine = (me = Some (br_owner b))\<rparr>]"
| "into_group me b (g # gs) =
     (if ag_owner g = br_owner b then g\<lparr>ag_boards := ag_boards g @ [b]\<rparr> # gs else g # into_group me b gs)"

definition by_owner :: "string option \<Rightarrow> bool \<Rightarrow> listed_board list \<Rightarrow> author_group list" where
  "by_owner me only_mine boards =
     foldl (\<lambda>gs b. if only_mine \<and> me \<noteq> Some (br_owner b) then gs else into_group me b gs) [] boards"

definition mine_first :: "author_group \<Rightarrow> author_group \<Rightarrow> int" where
  "mine_first a b = of_bool (ag_mine b) - of_bool (ag_mine a)"

definition board_groups :: "string option \<Rightarrow> bool \<Rightarrow> listed_board list \<Rightarrow> author_group list" where
  "board_groups me only_mine boards = js_sort mine_first (by_owner me only_mine boards)"

definition myCount :: "string option \<Rightarrow> listed_board list \<Rightarrow> nat" where
  "myCount me boards = length (filter (\<lambda>b. me = Some (br_owner b)) boards)"

definition shown_boards :: "string option \<Rightarrow> bool \<Rightarrow> listed_board list \<Rightarrow> listed_board list" where
  "shown_boards me only_mine boards = filter (\<lambda>b. only_mine \<longrightarrow> me = Some (br_owner b)) boards"

definition groups_ok :: "string option \<Rightarrow> listed_board list \<Rightarrow> author_group list \<Rightarrow> bool" where
  "groups_ok me bs gs \<longleftrightarrow> distinct (map ag_owner gs) \<and> ag_owner ` set gs = br_owner ` set bs
     \<and> (\<forall>g\<in>set gs. ag_boards g = filter (\<lambda>b. br_owner b = ag_owner g) bs \<and> (ag_mine g \<longleftrightarrow> me = Some (ag_owner g)))"

lemma into_group_owners:
  "map ag_owner (into_group me b gs) =
     (if br_owner b \<in> ag_owner ` set gs then map ag_owner gs else map ag_owner gs @ [br_owner b])"
  by (induction gs) auto

lemma into_group_set:
  "distinct (map ag_owner gs) \<Longrightarrow> g' \<in> set (into_group me b gs) \<Longrightarrow>
     (g' \<in> set gs \<and> ag_owner g' \<noteq> br_owner b)
     \<or> (\<exists>g\<in>set gs. ag_owner g = br_owner b \<and> g' = g\<lparr>ag_boards := ag_boards g @ [b]\<rparr>)
     \<or> (br_owner b \<notin> ag_owner ` set gs \<and> ag_owner g' = br_owner b \<and> ag_boards g' = [b] \<and> ag_mine g' = (me = Some (br_owner b)))"
proof (induction gs)
  case (Cons g gs)
  show ?case
  proof (cases "ag_owner g = br_owner b")
    case True
    then have "br_owner b \<notin> ag_owner ` set gs" using Cons.prems(1) by auto
    then have "g' \<in> set gs \<Longrightarrow> ag_owner g' \<noteq> br_owner b" by (metis imageI)
    with Cons.prems(2) True show ?thesis by auto
  next
    case False
    with Cons show ?thesis by auto
  qed
qed simp

lemma into_group_ok:
  assumes "groups_ok me bs gs"
  shows "groups_ok me (bs @ [b]) (into_group me b gs)"
proof -
  have d: "distinct (map ag_owner gs)" "ag_owner ` set gs = br_owner ` set bs" using assms by (auto simp: groups_ok_def)
  have "distinct (map ag_owner (into_group me b gs))" using d(1) by (simp add: into_group_owners)
  moreover have "ag_owner ` set (into_group me b gs) = insert (br_owner b) (br_owner ` set bs)"
    using arg_cong [OF into_group_owners [of me b gs], of set] d(2) by (auto split: if_splits)
  moreover have "ag_boards g = filter (\<lambda>c. br_owner c = ag_owner g) (bs @ [b]) \<and> (ag_mine g \<longleftrightarrow> me = Some (ag_owner g))"
    if g: "g \<in> set (into_group me b gs)" for g
  proof -
    have none: "filter (\<lambda>c. br_owner c = br_owner b) bs = []" if "br_owner b \<notin> ag_owner ` set gs"
      using that d(2) unfolding filter_empty_conv by (metis imageI)
    have old: "ag_boards h = filter (\<lambda>c. br_owner c = ag_owner h) bs \<and> (ag_mine h \<longleftrightarrow> me = Some (ag_owner h))"
      if "h \<in> set gs" for h using assms that unfolding groups_ok_def by blast
    from into_group_set [OF d(1) g] consider "g \<in> set gs" "ag_owner g \<noteq> br_owner b"
      | h where "h \<in> set gs" "ag_owner h = br_owner b" "g = h\<lparr>ag_boards := ag_boards h @ [b]\<rparr>"
      | "br_owner b \<notin> ag_owner ` set gs" "ag_owner g = br_owner b" "ag_boards g = [b]" "ag_mine g = (me = Some (br_owner b))"
      by blast
    then show ?thesis
    proof cases
      case 1
      with old [of g] show ?thesis by simp
    next
      case 2
      with old [of h] show ?thesis by simp
    next
      case 3
      with none show ?thesis by simp
    qed
  qed
  ultimately show ?thesis by (simp add: groups_ok_def)
qed

lemma by_owner_ok: "groups_ok me (shown_boards me only_mine bs) (by_owner me only_mine bs)"
proof (induction bs rule: rev_induct)
  case Nil
  show ?case by (simp add: groups_ok_def by_owner_def shown_boards_def)
next
  case (snoc b bs)
  then show ?case using into_group_ok [of me "shown_boards me only_mine bs" "by_owner me only_mine bs" b]
    by (auto simp: by_owner_def shown_boards_def)
qed

text \<open>
  The sections are the boards by author: every author of a board that is shown has one section, with exactly their
  boards in the order of the API, the member's own section stands first, and what the filter counts is what it shows.
\<close>
theorem boards_by_author:
  "groups_ok me (shown_boards me only_mine bs) (board_groups me only_mine bs)
    \<and> sorted_wrt (\<lambda>g h. ag_mine h \<longrightarrow> ag_mine g) (board_groups me only_mine bs)
    \<and> length (shown_boards me True bs) = myCount me bs"
proof -
  have "distinct (map ag_owner (board_groups me only_mine bs)) \<longleftrightarrow> distinct (map ag_owner (by_owner me only_mine bs))"
    unfolding board_groups_def by (rule mset_eq_imp_distinct_iff) (simp only: mset_map mset_js_sort)
  moreover have "set (board_groups me only_mine bs) = set (by_owner me only_mine bs)" by (simp add: board_groups_def)
  ultimately have ok: "groups_ok me (shown_boards me only_mine bs) (board_groups me only_mine bs)"
    using by_owner_ok [of me only_mine bs] by (simp add: groups_ok_def)
  have "sorted_wrt (\<lambda>g h. mine_first g h \<le> 0) (board_groups me only_mine bs)"
    unfolding board_groups_def by (rule js_sort_sorted) (auto simp: mine_first_def of_bool_def split: if_splits)
  then have "sorted_wrt (\<lambda>g h. ag_mine h \<longrightarrow> ag_mine g) (board_groups me only_mine bs)"
    by (rule sorted_wrt_mono_rel [rotated]) (auto simp: mine_first_def of_bool_def split: if_splits)
  with ok show ?thesis by (simp add: shown_boards_def myCount_def)
qed

section \<open>The editorial desk\<close>

record desk_row =
  dr_article :: article
  dr_author :: string

datatype desk_tab = AllTab | ToneTab tone

definition dr_tone :: "date_parser \<Rightarrow> real \<Rightarrow> desk_row \<Rightarrow> tone" where
  "dr_tone date now r = snd (statusLabel date now (dr_article r))"

definition signed_in_id :: "session \<Rightarrow> string option" where
  "signed_in_id s = map_option user_id (cur_user s)"

definition own_article :: "session \<Rightarrow> desk_row \<Rightarrow> bool" where
  "own_article s r \<longleftrightarrow> signed_in_id s = Some (dr_author r)"

definition review_queue :: "session \<Rightarrow> desk_row list \<Rightarrow> desk_row list" where
  "review_queue s rows =
     (if isAdmin s then filter (\<lambda>r. art_status (dr_article r) = In_Review \<and> \<not> own_article s r) rows else [])"

definition scoped :: "session \<Rightarrow> bool \<Rightarrow> desk_row list \<Rightarrow> desk_row list" where
  "scoped s only_mine rows = (if only_mine then filter (own_article s) rows else rows)"

text \<open>The loop of \<open>counts\<close>: every row counts for all, and for its own tab.\<close>

definition desk_counts :: "date_parser \<Rightarrow> real \<Rightarrow> desk_row list \<Rightarrow> desk_tab \<Rightarrow> nat" where
  "desk_counts date now rows =
     foldl (\<lambda>c r. let c' = c(AllTab := c AllTab + 1); t = ToneTab (dr_tone date now r) in c'(t := c' t + 1)) (\<lambda>_. 0) rows"

definition visible_rows :: "date_parser \<Rightarrow> real \<Rightarrow> desk_tab \<Rightarrow> desk_row list \<Rightarrow> desk_row list" where
  "visible_rows date now tab rows =
     (case tab of AllTab \<Rightarrow> rows | ToneTab t \<Rightarrow> filter (\<lambda>r. dr_tone date now r = t) rows)"

definition canDelete :: "session \<Rightarrow> desk_row \<Rightarrow> bool" where
  "canDelete s r \<longleftrightarrow> isAdmin s \<or> own_article s r \<and> art_status (dr_article r) \<noteq> Published"

text \<open>\<open>Delete\<close> of \<open>article_service.go\<close>, with \<open>writer\<close> and \<open>reachable\<close>.\<close>

definition deleteArticle :: "role \<Rightarrow> string \<Rightarrow> string \<Rightarrow> desk_row list \<Rightarrow> string + desk_row list" where
  "deleteArticle role uid i rows =
     (if role \<noteq> RAdmin \<and> role \<noteq> REditor then Inl ''only editors and administrators write articles''
      else case find (\<lambda>r. art_id (dr_article r) = i) rows of
        None \<Rightarrow> Inl ''article not found''
      | Some r \<Rightarrow>
          if role \<noteq> RAdmin \<and> dr_author r \<noteq> uid then Inl ''article not found''
          else if role \<noteq> RAdmin \<and> art_status (dr_article r) = Published
            then Inl ''withdraw a published article before deleting it''
          else Inr (filter (\<lambda>r. art_id (dr_article r) \<noteq> i) rows))"

text \<open>
  The number on a tab is the number of rows behind it, whatever the scope; every article is behind exactly one of the
  tabs; and the review queue is in the tab of reviews.
\<close>
theorem tabs_count_what_they_show:
  "desk_counts date now rows tab = length (visible_rows date now tab rows)
    \<and> desk_counts date now rows AllTab
        = (\<Sum>t\<leftarrow>[ToneDraft, ToneReview, ToneChanges, ToneScheduled, ToneLive]. desk_counts date now rows (ToneTab t))
    \<and> set (review_queue s rows) \<subseteq> set (visible_rows date now (ToneTab ToneReview) rows)"
proof -
  have c: "desk_counts date now rows tab = length (visible_rows date now tab rows)" for tab
  proof (induction rows rule: rev_induct)
    case (snoc r rows)
    have "desk_counts date now (rows @ [r]) tab
        = desk_counts date now rows tab + (if tab = AllTab \<or> tab = ToneTab (dr_tone date now r) then 1 else 0)"
      by (simp add: desk_counts_def Let_def)
    with snoc show ?case by (cases tab) (auto simp: visible_rows_def)
  qed (cases tab, simp_all add: desk_counts_def visible_rows_def)
  have "length (visible_rows date now AllTab rows)
      = (\<Sum>t\<leftarrow>[ToneDraft, ToneReview, ToneChanges, ToneScheduled, ToneLive]. length (visible_rows date now (ToneTab t) rows))"
  proof (induction rows)
    case (Cons r rows)
    then show ?case by (cases "dr_tone date now r") (simp_all add: visible_rows_def)
  qed (simp add: visible_rows_def)
  moreover have "set (review_queue s rows) \<subseteq> set (visible_rows date now (ToneTab ToneReview) rows)"
    by (auto simp: review_queue_def visible_rows_def dr_tone_def statusLabel_def)
  ultimately show ?thesis by (simp add: c)
qed

text \<open>
  The desk offers to delete an article exactly when the service would delete it.
\<close>
theorem desk_deletes_by_the_rule:
  assumes "cur_user s = Some u" "isEditor s" "distinct (map (\<lambda>r. art_id (dr_article r)) rows)" "r \<in> set rows"
  shows "canDelete s r \<longleftrightarrow> (\<exists>rows'. deleteArticle (user_role u) (user_id u) (art_id (dr_article r)) rows = Inr rows')"
proof -
  have f: "find (\<lambda>q. art_id (dr_article q) = art_id (dr_article r)) rows = Some r"
    using assms(3,4)
  proof (induction rows)
    case (Cons q rows)
    then show ?case by (cases "q = r") (auto simp: image_iff)
  qed simp
  have "user_role u = RAdmin \<or> user_role u = REditor" using assms(1,2) by (simp add: isEditor_def role_of_def)
  with assms(1) f show ?thesis
    by (auto simp: canDelete_def own_article_def signed_in_id_def isAdmin_def role_of_def deleteArticle_def)
qed

definition own_draft :: desk_row where
  "own_draft = \<lparr>dr_article = \<lparr>art_id = ''a1'', art_status = Draft, publish_at = None, art_content = blank_content\<rparr>,
     dr_author = ''u1''\<rparr>"

theorem desk_deletes_by_the_rule_witness:
  "\<exists>rows'. deleteArticle REditor ''u1'' ''a1'' [own_draft] = Inr rows'"
proof -
  let ?s = "(new_session empty_storage)\<lparr>cur_user := Some (some_user ''u1'' REditor)\<rparr>"
  have "canDelete ?s own_draft \<longleftrightarrow> (\<exists>rows'. deleteArticle (user_role (some_user ''u1'' REditor))
      (user_id (some_user ''u1'' REditor)) (art_id (dr_article own_draft)) [own_draft] = Inr rows')"
    by (rule desk_deletes_by_the_rule) (simp_all add: isEditor_def role_of_def some_user_def)
  moreover have "canDelete ?s own_draft" by (simp add: canDelete_def own_article_def signed_in_id_def some_user_def own_draft_def)
  ultimately show ?thesis by (simp add: some_user_def own_draft_def)
qed

section \<open>The public articles by tag\<close>

definition ARTICLE_PAGE :: nat where "ARTICLE_PAGE = 13"

record 'a article_list =
  al_tag :: "string option"
  al_first :: "'a list_page option"
  al_extra :: "'a list"
  al_extra_more :: "bool option"
  al_loading :: bool
  al_error :: "string option"

definition new_list :: "string option \<Rightarrow> 'a article_list" where
  "new_list t = \<lparr>al_tag = t, al_first = None, al_extra = [], al_extra_more = None, al_loading = False, al_error = None\<rparr>"

definition articles :: "'a article_list \<Rightarrow> 'a list" where
  "articles s = (case al_first s of None \<Rightarrow> [] | Some p \<Rightarrow> page_items p) @ al_extra s"

definition hasMore :: "'a article_list \<Rightarrow> bool" where
  "hasMore s = (case al_extra_more s of
     Some b \<Rightarrow> b | None \<Rightarrow> (case al_first s of Some p \<Rightarrow> has_more p | None \<Rightarrow> False))"

text \<open>A new tag: the resource starts over, and the effect drops the rows loaded behind it.\<close>

definition set_tag :: "string option \<Rightarrow> 'a article_list \<Rightarrow> 'a article_list" where
  "set_tag t s = (if t = al_tag s then s
     else s\<lparr>al_tag := t, al_first := None, al_extra := [], al_extra_more := None\<rparr>)"

definition first_loaded :: "'a list_page \<Rightarrow> 'a article_list \<Rightarrow> 'a article_list" where
  "first_loaded p s = s\<lparr>al_first := Some p\<rparr>"

definition more_begin :: "'a article_list \<Rightarrow> 'a article_list \<times> string option \<times> nat \<times> nat" where
  "more_begin s = (s\<lparr>al_loading := True, al_error := None\<rparr>, al_tag s, ARTICLE_PAGE, length (articles s))"

definition more_end :: "caught + 'a list_page \<Rightarrow> 'a article_list \<Rightarrow> 'a article_list" where
  "more_end res s =
     (case res of
        Inr p \<Rightarrow> s\<lparr>al_extra := al_extra s @ page_items p, al_extra_more := Some (has_more p), al_loading := False\<rparr>
      | Inl e \<Rightarrow> s\<lparr>al_error := Some (messageFor e ''Could not load more articles.''), al_loading := False\<rparr>)"

text \<open>Reading on: \<open>rows t\<close> the articles with a tag.  More are asked for once the first page is there.\<close>

inductive reading :: "(string option \<Rightarrow> 'a list) \<Rightarrow> 'a article_list \<Rightarrow> bool" for rows where
  reading_new: "reading rows (new_list t)"
| reading_tag: "reading rows s \<Longrightarrow> reading rows (set_tag t s)"
| reading_first: "reading rows s \<Longrightarrow> al_first s = None \<Longrightarrow>
    reading rows (first_loaded (serve (rows (al_tag s)) (ARTICLE_PAGE, 0)) s)"
| reading_more: "reading rows s \<Longrightarrow> al_first s \<noteq> None \<Longrightarrow> more_begin s = (s', t, q) \<Longrightarrow>
    reading rows (more_end (Inr (serve (rows t) q)) s')"
| reading_fails: "reading rows s \<Longrightarrow> more_begin s = (s', t, q) \<Longrightarrow> reading rows (more_end (Inl e) s')"

definition read_well :: "'a list \<Rightarrow> 'a article_list \<Rightarrow> bool" where
  "read_well xs s \<longleftrightarrow> prefix (articles s) xs \<and> (al_first s = None \<longrightarrow> al_extra s = [] \<and> al_extra_more s = None)
     \<and> (al_first s \<noteq> None \<longrightarrow> (hasMore s \<longleftrightarrow> articles s \<noteq> xs))"

lemma served_prefix:
  "prefix ys xs \<Longrightarrow> prefix (ys @ page_items (serve xs (ARTICLE_PAGE, length ys))) xs
    \<and> (has_more (serve xs (ARTICLE_PAGE, length ys)) \<longleftrightarrow> ys @ page_items (serve xs (ARTICLE_PAGE, length ys)) \<noteq> xs)"
proof -
  assume "prefix ys xs"
  then obtain zs where xs: "xs = ys @ zs" by (auto simp: prefix_def)
  have p: "page_items (serve xs (ARTICLE_PAGE, length ys)) = take 13 zs"
    "has_more (serve xs (ARTICLE_PAGE, length ys)) \<longleftrightarrow> 13 < length zs"
    by (simp_all add: serve_def ARTICLE_PAGE_def MAX_PAGE_SIZE_def Let_def xs)
  have "zs = take 13 zs @ drop 13 zs" by simp
  then have "prefix (take 13 zs) zs" by (metis prefixI)
  moreover have "13 < length zs \<longleftrightarrow> take 13 zs \<noteq> zs" by auto
  ultimately show ?thesis unfolding p by (simp add: xs)
qed

lemma more_failed:
  "more_begin s = (s', t, q) \<Longrightarrow> articles (more_end (Inl e) s') = articles s \<and> hasMore (more_end (Inl e) s') = hasMore s
    \<and> al_first (more_end (Inl e) s') = al_first s \<and> al_tag (more_end (Inl e) s') = al_tag s
    \<and> al_extra (more_end (Inl e) s') = al_extra s \<and> al_extra_more (more_end (Inl e) s') = al_extra_more s"
  by (auto simp: more_begin_def more_end_def articles_def hasMore_def split: option.split)

lemma reading_well: "reading rows s \<Longrightarrow> read_well (rows (al_tag s)) s"
proof (induction rule: reading.induct)
  case (reading_first s)
  then show ?case using served_prefix [of "[]" "rows (al_tag s)"]
    by (simp add: read_well_def first_loaded_def articles_def hasMore_def)
next
  case (reading_more s s' t q)
  then have t: "t = al_tag s" "q = (ARTICLE_PAGE, length (articles s))" "s' = s\<lparr>al_loading := True, al_error := None\<rparr>"
    by (auto simp: more_begin_def)
  let ?p = "serve (rows t) q"
  have "prefix (articles s) (rows t)" using reading_more.IH t by (simp add: read_well_def)
  from served_prefix [OF this] have p: "prefix (articles s @ page_items ?p) (rows t)"
    "has_more ?p \<longleftrightarrow> articles s @ page_items ?p \<noteq> rows t" unfolding t(2) by blast+
  have "articles (more_end (Inr ?p) s') = articles s @ page_items ?p" by (simp add: articles_def more_end_def t(3))
  with p reading_more.hyps(2) show ?case by (simp add: read_well_def hasMore_def more_end_def t)
next
  case (reading_fails s s' t q e)
  from reading_fails.IH more_failed [OF reading_fails.hyps(2), of e] show ?case by (simp add: read_well_def)
qed (auto simp: read_well_def set_tag_def articles_def new_list_def)

text \<open>
  While the tag does not change with a request on the wire, the articles shown are the first of the tag, in order, and
  more are offered exactly when there are more.
\<close>
theorem tag_page_is_a_prefix:
  assumes "reading rows s" "al_first s \<noteq> None"
  shows "prefix (articles s) (rows (al_tag s)) \<and> (hasMore s \<longleftrightarrow> articles s \<noteq> rows (al_tag s))"
  using reading_well [OF assms(1)] assms(2) by (simp add: read_well_def)

theorem tag_page_is_a_prefix_witness:
  "hasMore (first_loaded (serve [1..<31] (ARTICLE_PAGE, 0)) (new_list None))"
proof -
  have "reading (\<lambda>t. [1..<31]) (first_loaded (serve [1..<31] (ARTICLE_PAGE, 0)) (new_list None))"
    using reading_first [OF reading_new [of "\<lambda>t. [1..<31]" None]] by (simp add: new_list_def)
  moreover have "length [Suc 0..<14] \<noteq> length [Suc 0..<31]" by simp
  then have "[Suc 0..<14] \<noteq> [Suc 0..<31]" by metis
  ultimately show ?thesis using tag_page_is_a_prefix [of "\<lambda>t. [1..<31]"]
    by (simp add: first_loaded_def new_list_def articles_def serve_def ARTICLE_PAGE_def MAX_PAGE_SIZE_def)
qed

text \<open>
  A tag that changes while more articles are on their way gets them: the rows of the old tag are shown behind the first
  page of the new one.
\<close>
theorem late_page_joins_other_tag:
  assumes "more_begin s = (s1, old, q)" "t \<noteq> al_tag s"
  shows "articles (more_end (Inr (serve (rows old) q)) (first_loaded p (set_tag t s1)))
    = page_items p @ page_items (serve (rows (al_tag s)) q)"
  using assms by (auto simp: more_begin_def set_tag_def first_loaded_def more_end_def articles_def)

theorem late_page_joins_other_tag_witness:
  "articles (more_end (Inr (serve [''old''] (13, 0))) (first_loaded (serve [''new''] (13, 0))
     (set_tag (Some ''t'') (fst (more_begin (new_list None)))))) = [''new'', ''old'']"
  using late_page_joins_other_tag [of "new_list None" "fst (more_begin (new_list None))" None "(13, 0)" "Some ''t''"
      "\<lambda>x. [''old'']" "serve [''new''] (13, 0)"]
  by (simp add: more_begin_def new_list_def ARTICLE_PAGE_def articles_def serve_def MAX_PAGE_SIZE_def)

end
