(* ===== verification/Page_Head.thy ===== *)
theory Page_Head
  imports Record_Pages App_Routes Json
begin

text \<open>
  What a crawler reads of a page: the title, the tags and the structured data in the head (\<open>core/seo/seo.ts\<close>) and what
  every page puts there.  Tags are known by their attribute and its value, as \<open>Meta.updateTag\<close> and \<open>removeTag\<close> of the
  framework document it; dashes beyond Latin-1 are written as hyphens.  Names of clubs are an argument.
\<close>

section \<open>The head of the document\<close>

record page_description =
  pd_title :: string
  pd_description :: string
  pd_path :: string
  pd_type :: "string option"
  pd_noindex :: bool
  pd_image :: "string option"

datatype meta_key = MetaName string | MetaProperty string

record head =
  hd_title :: string
  hd_meta :: "meta_key \<rightharpoonup> string"
  hd_canonical :: "string option"
  hd_structured :: "json option"

definition empty_head :: head where
  "empty_head = \<lparr>hd_title = [], hd_meta = Map.empty, hd_canonical = None, hd_structured = None\<rparr>"

definition updateTag :: "meta_key \<Rightarrow> string \<Rightarrow> head \<Rightarrow> head" where
  "updateTag k v h = h\<lparr>hd_meta := (hd_meta h)(k \<mapsto> v)\<rparr>"

definition removeTag :: "meta_key \<Rightarrow> head \<Rightarrow> head" where
  "removeTag k h = h\<lparr>hd_meta := (hd_meta h)(k := None)\<rparr>"

definition SITE_NAME :: string where "SITE_NAME = ''ScoutPulse''"

definition fullTitle :: "page_description \<Rightarrow> string" where
  "fullTitle p = pd_title p @ [CHR '' '', CHR 0xB7, CHR '' ''] @ SITE_NAME"

definition setCanonical :: "string \<Rightarrow> head \<Rightarrow> head" where
  "setCanonical u h = h\<lparr>hd_canonical := Some u\<rparr>"

text \<open>An image that is the empty string counts as none.\<close>

definition describe :: "string \<Rightarrow> page_description \<Rightarrow> head \<Rightarrow> head" where
  "describe origin p h =
     (let u = origin @ pd_path p;
          h1 = h\<lparr>hd_title := fullTitle p\<rparr>;
          h2 = updateTag (MetaName ''description'') (pd_description p) h1;
          h3 = updateTag (MetaProperty ''og:title'') (fullTitle p) h2;
          h4 = updateTag (MetaProperty ''og:description'') (pd_description p) h3;
          h5 = updateTag (MetaProperty ''og:url'') u h4;
          h6 = updateTag (MetaProperty ''og:type'') (case pd_type p of None \<Rightarrow> ''website'' | Some t \<Rightarrow> t) h5;
          h7 = updateTag (MetaProperty ''og:site_name'') SITE_NAME h6;
          h8 = (if truthy (pd_image p)
                then updateTag (MetaName ''twitter:card'') ''summary_large_image''
                       (updateTag (MetaProperty ''og:image'') (or_empty (pd_image p)) h7)
                else updateTag (MetaName ''twitter:card'') ''summary'' (removeTag (MetaProperty ''og:image'') h7));
          h9 = (if pd_noindex p then updateTag (MetaName ''robots'') ''noindex, follow'' h8
                else removeTag (MetaName ''robots'') h8)
      in setCanonical u h9)"

definition structuredData :: "json option \<Rightarrow> head \<Rightarrow> head" where
  "structuredData data h = h\<lparr>hd_structured := data\<rparr>"

definition normaliseOrigin :: "string \<Rightarrow> string" where
  "normaliseOrigin origin = rev (dropWhile (\<lambda>c. c = CHR ''/'') (rev origin))"

definition managed_tags :: "meta_key set" where
  "managed_tags = {MetaName ''description'', MetaProperty ''og:title'', MetaProperty ''og:description'', MetaProperty ''og:url'',
     MetaProperty ''og:type'', MetaProperty ''og:site_name'', MetaProperty ''og:image'', MetaName ''twitter:card'',
     MetaName ''robots''}"

lemmas describe_defs = describe_def updateTag_def removeTag_def setCanonical_def

text \<open>The tags of a page as one list of assignments, and what such a list does to the tags that were there.\<close>

definition page_tags :: "string \<Rightarrow> page_description \<Rightarrow> (meta_key \<times> string option) list" where
  "page_tags origin p =
     [(MetaName ''description'', Some (pd_description p)), (MetaProperty ''og:title'', Some (fullTitle p)),
      (MetaProperty ''og:description'', Some (pd_description p)), (MetaProperty ''og:url'', Some (origin @ pd_path p)),
      (MetaProperty ''og:type'', Some (case pd_type p of None \<Rightarrow> ''website'' | Some t \<Rightarrow> t)),
      (MetaProperty ''og:site_name'', Some SITE_NAME),
      (MetaProperty ''og:image'', if truthy (pd_image p) then Some (or_empty (pd_image p)) else None),
      (MetaName ''twitter:card'', Some (if truthy (pd_image p) then ''summary_large_image'' else ''summary'')),
      (MetaName ''robots'', if pd_noindex p then Some ''noindex, follow'' else None)]"

lemma tag_meta:
  "hd_meta (updateTag k v h) = (hd_meta h)(k := Some v)" "hd_meta (removeTag k h) = (hd_meta h)(k := None)"
  "hd_meta (setCanonical u h) = hd_meta h" "hd_meta (h\<lparr>hd_title := t\<rparr>) = hd_meta h"
  by (simp_all add: updateTag_def removeTag_def setCanonical_def)

lemma described_meta: "hd_meta (describe origin p h) = fold (\<lambda>(k, v) m. m(k := v)) (page_tags origin p) (hd_meta h)"
  by (cases "truthy (pd_image p)"; cases "pd_noindex p")
    (simp_all only: describe_def page_tags_def Let_def fold_simps prod.case if_True if_False tag_meta)

lemma assigned_alike:
  "fold (\<lambda>(k, v) m. m(k := v)) kvs f k = (if k \<in> fst ` set kvs then fold (\<lambda>(k, v) m. m(k := v)) kvs g k else f k)"
proof (induction kvs arbitrary: f g)
  case (Cons kv kvs)
  obtain j v where kv: "kv = (j, v)" by (cases kv)
  note f = Cons.IH [of "f(j := v)" "g(j := v)"] and g = Cons.IH [of "g(j := v)" "f(j := v)"]
  show ?case
  proof (cases "k \<in> fst ` set kvs")
    case True
    with f show ?thesis by (simp add: kv del: fun_upd_apply)
  next
    case False
    with f g have "fold (\<lambda>(k, v) m. m(k := v)) kvs (f(j := v)) k = (f(j := v)) k"
      "fold (\<lambda>(k, v) m. m(k := v)) kvs (g(j := v)) k = (g(j := v)) k" by (simp_all only: if_False)
    with False show ?thesis by (cases "k = j") (simp_all add: kv del: fun_upd_apply, simp_all)
  qed
qed simp

lemma page_tags_keys: "fst ` set (page_tags origin p) = managed_tags"
  by (simp add: page_tags_def managed_tags_def)

text \<open>
  C34. A description forgets the page before: whatever the head held, its title, canonical address and the tags it manages are
  those of the new page alone, tags of others stay, a robots tag stands there exactly for a page kept out of the index and
  an image exactly for one that has it.
\<close>
theorem description_forgets_the_last_page:
  "hd_title (describe origin p h) = fullTitle p \<and> hd_canonical (describe origin p h) = Some (origin @ pd_path p)
    \<and> (\<forall>k. hd_meta (describe origin p h) k =
         (if k \<in> managed_tags then hd_meta (describe origin p h') k else hd_meta h k))
    \<and> hd_meta (describe origin p h) (MetaName ''robots'') = (if pd_noindex p then Some ''noindex, follow'' else None)
    \<and> hd_meta (describe origin p h) (MetaProperty ''og:image'') = (if truthy (pd_image p) then pd_image p else None)"
proof (intro conjI allI)
  show "hd_meta (describe origin p h) k = (if k \<in> managed_tags then hd_meta (describe origin p h') k else hd_meta h k)" for k
    unfolding described_meta page_tags_keys [of origin p, symmetric] by (rule assigned_alike)
  show "hd_meta (describe origin p h) (MetaName ''robots'') = (if pd_noindex p then Some ''noindex, follow'' else None)"
    unfolding described_meta by (simp add: page_tags_def)
  show "hd_meta (describe origin p h) (MetaProperty ''og:image'') = (if truthy (pd_image p) then pd_image p else None)"
    unfolding described_meta by (auto simp: page_tags_def truthy_def or_empty_def split: option.splits)
qed (simp_all add: describe_defs Let_def)

text \<open>
  Structured data is replaced by a page that has its own and stays with one that only describes itself, which is then
  published with the data of a page before it.
\<close>
theorem structured_data_outlives_its_page:
  "hd_structured (structuredData (Some d) h) = Some d
    \<and> hd_structured (describe origin p (structuredData (Some d) h)) = Some d"
  by (simp add: structuredData_def describe_defs Let_def)

text \<open>A canonical address never has a double slash behind the origin.\<close>

lemma normaliseOrigin_end: "normaliseOrigin origin = [] \<or> last (normaliseOrigin origin) \<noteq> CHR ''/''"
proof (cases "dropWhile (\<lambda>c. c = CHR ''/'') (rev origin)")
  case (Cons c cs)
  then have "c \<noteq> CHR ''/''" using hd_dropWhile [of "\<lambda>c. c = CHR ''/''" "rev origin"] by simp
  with Cons show ?thesis by (simp add: normaliseOrigin_def)
qed (simp add: normaliseOrigin_def)

section \<open>What each page says\<close>

definition plain_page :: "string \<Rightarrow> string \<Rightarrow> string \<Rightarrow> page_description" where
  "plain_page t d p = \<lparr>pd_title = t, pd_description = d, pd_path = p, pd_type = None, pd_noindex = False, pd_image = None\<rparr>"

definition hidden_page :: "string \<Rightarrow> string \<Rightarrow> string \<Rightarrow> page_description" where
  "hidden_page t d p = (plain_page t d p)\<lparr>pd_noindex := True\<rparr>"

definition feed_head :: page_description where
  "feed_head = plain_page ''Transfers''
     ''Every recorded move between clubs - fees, loans, free transfers and retirements, newest first.'' ''/''"

definition club_list_head :: page_description where
  "club_list_head = plain_page ''Clubs'' ''Every club on record, with squads, managerial history and transfers.'' ''/clubs''"

definition competition_list_head :: page_description where
  "competition_list_head = plain_page ''Competitions'' ''Every league and cup on record, by country and tier.'' ''/competitions''"

definition season_list_head :: page_description where
  "season_list_head = plain_page ''Seasons'' ''The seasons every transfer and competition entry is filed against.'' ''/seasons''"

definition search_head :: page_description where
  "search_head = hidden_page ''Search'' ''Search players, clubs, coaches and competitions.'' ''/search''"

definition boards_head :: page_description where
  "boards_head = hidden_page ''Tactics boards'' (''Members'' @ [CHR 0x27] @ '' animated drills and match analysis.'') ''/tactics''"

definition board_editor_head :: page_description where
  "board_editor_head = hidden_page ''Tactics board''
     ''Draw and animate drills, shapes and match analysis on a 3D pitch.'' ''/tactics/new''"

definition desk_head :: page_description where
  "desk_head = hidden_page ''Editorial desk'' ''Drafts, reviews and scheduled analysis.'' ''/desk''"

definition article_editor_head :: "string \<Rightarrow> page_description" where
  "article_editor_head t =
     hidden_page (if t \<noteq> [] then ''Editing: '' @ t else ''New article'') ''The ScoutPulse editorial desk.'' ''/desk''"

definition games_head :: page_description where
  "games_head = plain_page ''Games''
     ''Football trivia games to play with a friend, starting with Who Played For Both?'' ''/games''"

definition played_head :: page_description where
  "played_head = plain_page ''Who Played For Both?''
     ''A two-player football trivia game: name a footballer who played for both clubs, or for the club and the country.''
     ''/games/played-for-both''"

definition not_found_head :: page_description where
  "not_found_head = hidden_page ''Page not found'' ''That page does not exist.'' ''/404''"

definition article_list_head :: "string option \<Rightarrow> page_description" where
  "article_list_head tag =
     (if truthy tag
      then hidden_page (''#'' @ or_empty tag @ [CHR '' '', CHR 0xB7, CHR '' ''] @ ''Analysis'')
             (''Football analysis tagged '' @ or_empty tag @ '', from the ScoutPulse desk.'') ''/articles''
      else plain_page ''Analysis'' ''Tactics, scouting and the ideas behind the game, from the ScoutPulse desk.'' ''/articles'')"

text \<open>The pages of one record, with what they publish of it; \<open>present\<close> leaves out what is undefined, as JSON does.\<close>

definition present :: "(string \<times> json option) list \<Rightarrow> json" where
  "present xs = JObj (\<lambda>k. case map_of xs k of None \<Rightarrow> None | Some v \<Rightarrow> v)"

definition schema :: "string \<Rightarrow> (string \<times> json option) list \<Rightarrow> json" where
  "schema t xs = present ((''@context'', Some (JStr ''https://schema.org'')) # (''@type'', Some (JStr t)) # xs)"

definition meta_text :: "string option \<Rightarrow> json option" where
  "meta_text v = map_option JStr v"

definition sports_team :: "string \<Rightarrow> json" where
  "sports_team n = present [(''@type'', Some (JStr ''SportsTeam'')), (''name'', Some (JStr n))]"

definition first_of :: "string list \<Rightarrow> string option" where
  "first_of xs = (case xs of [] \<Rightarrow> None | x # _ \<Rightarrow> Some x)"

definition player_head :: "(string \<Rightarrow> string \<Rightarrow> string) \<Rightarrow> player_row \<Rightarrow> page_description" where
  "player_head teamName p =
     (plain_page (p_name p)
       (p_name p @ '' - '' @ p_position p
          @ (case first_of (p_nations p) of None \<Rightarrow> [] | Some n \<Rightarrow> '', '' @ n) @ ''. ''
          @ ''Career, transfers and market value history at ''
          @ (if truthy (p_team p) then teamName (or_empty (p_team p)) ''a club'' else ''a free agent'') @ ''.'')
       (''/players/'' @ p_id p))\<lparr>pd_type := Some ''profile''\<rparr>"

definition player_data :: "(string \<Rightarrow> string \<Rightarrow> string) \<Rightarrow> player_row \<Rightarrow> json" where
  "player_data teamName p =
     schema ''Person''
       [(''name'', Some (JStr (p_name p))), (''givenName'', meta_text (p_first p)), (''familyName'', meta_text (p_last p)),
        (''birthDate'', meta_text (map_option (take 10) (p_born p))), (''nationality'', meta_text (first_of (p_nations p))),
        (''jobTitle'', Some (JStr (p_position p))),
        (''memberOf'', if truthy (p_team p) then Some (sports_team (teamName (or_empty (p_team p)) ''Club'')) else None)]"

definition club_where :: "club_row \<Rightarrow> string" where
  "club_where c = join '', '' (filter (\<lambda>s. s \<noteq> []) [or_empty (cb_city (club c)), or_empty (cb_country (club c))])"

definition club_head :: "club_row \<Rightarrow> page_description" where
  "club_head c = plain_page (cb_name (club c))
     (cb_name (club c) @ (if club_where c \<noteq> [] then '' of '' @ club_where c else [])
        @ '' - squad, managerial history and transfers.'') (''/clubs/'' @ c_id c)"

definition club_data :: "(real \<Rightarrow> string) \<Rightarrow> club_row \<Rightarrow> json" where
  "club_data number c =
     schema ''SportsTeam''
       [(''name'', Some (JStr (cb_name (club c)))), (''alternateName'', meta_text (cb_short (club c))),
        (''sport'', Some (JStr ''Football'')),
        (''foundingDate'', case cb_founded (club c) of None \<Rightarrow> None | Some y \<Rightarrow> if y = 0 then None else Some (JStr (number y))),
        (''location'', if club_where c = [] then None else Some (JStr (club_where c))),
        (''logo'', meta_text (cb_badge (club c))),
        (''homeLocation'', if truthy (cb_stadium (club c))
           then Some (present [(''@type'', Some (JStr ''SportsActivityLocation'')),
                               (''name'', Some (JStr (or_empty (cb_stadium (club c)))))])
           else None)]"

definition coach_head :: "(string \<Rightarrow> string \<Rightarrow> string) \<Rightarrow> coach_row \<Rightarrow> page_description" where
  "coach_head teamName c =
     (plain_page (h_name c)
       (h_name c @ '' - coaching career and appointments. Currently ''
          @ (if truthy (h_team c) then teamName (or_empty (h_team c)) ''a club'' else ''unattached'') @ ''.'')
       (''/coaches/'' @ h_id c))\<lparr>pd_type := Some ''profile''\<rparr>"

definition coach_data :: "(string \<Rightarrow> string \<Rightarrow> string) \<Rightarrow> coach_row \<Rightarrow> json" where
  "coach_data teamName c =
     schema ''Person''
       [(''name'', Some (JStr (h_name c))), (''givenName'', meta_text (h_first c)), (''familyName'', meta_text (h_last c)),
        (''birthDate'', meta_text (map_option (take 10) (h_born c))), (''nationality'', meta_text (h_nation c)),
        (''jobTitle'', Some (JStr ''Football coach'')),
        (''worksFor'', if truthy (h_team c) then Some (sports_team (teamName (or_empty (h_team c)) ''Club'')) else None)]"

fun type_code :: "competition_type \<Rightarrow> string" where
  "type_code LeagueType = ''league''"
| "type_code DomesticCup = ''domestic_cup''"
| "type_code InternationalCup = ''international_cup''"
| "type_code SuperCup = ''super_cup''"

definition competition_head :: "(real \<Rightarrow> string) \<Rightarrow> competition_row \<Rightarrow> page_description" where
  "competition_head number m =
     plain_page (mb_name (competition m))
       (mb_name (competition m) @ '' - '' @ typeLabel (type_code (mb_type (competition m))) @ '' in '' @ mb_country (competition m)
          @ (case mb_tier (competition m) of None \<Rightarrow> [] | Some n \<Rightarrow> if n = 0 then [] else '', tier '' @ number n)
          @ ''. The clubs competing in it.'')
       (''/competitions/'' @ m_id m)"

definition competition_data :: "competition_row \<Rightarrow> json" where
  "competition_data m =
     schema ''SportsOrganization''
       [(''name'', Some (JStr (mb_name (competition m)))), (''sport'', Some (JStr ''Football'')),
        (''location'', Some (JStr (mb_country (competition m))))]"

record read_article =
  ra_slug :: string
  ra_title :: string
  ra_subtitle :: string
  ra_excerpt :: string
  ra_author_id :: string
  ra_author_name :: string
  ra_tags :: "string list"
  ra_publish :: "string option"
  ra_updated :: string

definition either_text :: "string \<Rightarrow> string \<Rightarrow> string" where
  "either_text a b = (if a \<noteq> [] then a else b)"

definition article_head :: "string \<Rightarrow> string option \<Rightarrow> read_article option \<Rightarrow> page_description" where
  "article_head slug cover a =
     \<lparr>pd_title = (case a of None \<Rightarrow> ''Analysis'' | Some x \<Rightarrow> ra_title x),
      pd_description = (case a of None \<Rightarrow> ''Football analysis on ScoutPulse.''
                                | Some x \<Rightarrow> either_text (ra_subtitle x) (ra_excerpt x)),
      pd_path = ''/articles/'' @ slug, pd_type = Some ''article'', pd_noindex = (a = None), pd_image = cover\<rparr>"

definition article_data :: "string \<Rightarrow> string \<Rightarrow> string option \<Rightarrow> read_article option \<Rightarrow> json option" where
  "article_data origin slug cover a =
     (case a of
        None \<Rightarrow> None
      | Some x \<Rightarrow> Some (schema ''Article''
          [(''headline'', Some (JStr (ra_title x))), (''description'', Some (JStr (either_text (ra_subtitle x) (ra_excerpt x)))),
           (''image'', if truthy cover then Some (JArr [JStr (or_empty cover)]) else None),
           (''datePublished'', Some (case ra_publish x of None \<Rightarrow> JNull | Some d \<Rightarrow> JStr d)),
           (''dateModified'', Some (JStr (ra_updated x))),
           (''author'', Some (present [(''@type'', Some (JStr ''Person'')), (''name'', Some (JStr (ra_author_name x)))])),
           (''keywords'', if join '', '' (ra_tags x) = [] then None else Some (JStr (join '', '' (ra_tags x)))),
           (''mainEntityOfPage'', Some (JStr (origin @ ''/articles/'' @ slug)))]))"

definition viewer_head :: "string \<Rightarrow> (string \<times> string \<times> string) option \<Rightarrow> page_description" where
  "viewer_head slug b =
     hidden_page (case b of None \<Rightarrow> ''Tactics board'' | Some (t, d, owner) \<Rightarrow> t)
       (case b of None \<Rightarrow> ''An animated tactics board on ScoutPulse.''
                | Some (t, d, owner) \<Rightarrow> either_text d (''An animated tactics board by '' @ owner @ ''.''))
       (''/tactics/'' @ slug)"

section \<open>Canonical addresses\<close>

text \<open>The pages that describe themselves, each with the address it names and the page that is meant to be there.\<close>

definition described_pages :: "(page_description \<times> path_part list \<times> page_name) list" where
  "described_pages =
     [(feed_head, [], TransferFeed), (club_list_head, [Word ''clubs''], ClubList),
      (competition_list_head, [Word ''competitions''], CompetitionList), (season_list_head, [Word ''seasons''], SeasonList),
      (search_head, [Word ''search''], SearchPage), (boards_head, [Word ''tactics''], TacticsList),
      (board_editor_head, [Word ''tactics'', Word ''new''], TacticsEditor), (desk_head, [Word ''desk''], ArticleDesk),
      (games_head, [Word ''games''], GamesHub), (played_head, [Word ''games'', Word ''played-for-both''], PlayedForBothPage),
      (article_list_head None, [Word ''articles''], ArticleList), (not_found_head, [Word ''404''], NotFound)]"

definition record_pages :: "(page_description \<times> string list \<times> page_name) list \<Rightarrow> bool" where
  "record_pages xs \<longleftrightarrow> (\<forall>(d, ss, g)\<in>set xs. pd_path d = address_of ss \<and> r_page (route_for ss) = g
     \<and> (r_guard (route_for ss) \<noteq> None \<longrightarrow> pd_noindex d))"

fun word_of :: "path_part \<Rightarrow> string" where
  "word_of (Word w) = w"
| "word_of Param = []"

lemma word_page:
  "r \<in> set app_routes \<Longrightarrow> r_path r = Path (map Word ws) \<Longrightarrow> route_for ws = r"
proof -
  have "filled (map Word ws) ws" by (induction ws) simp_all
  then show "r \<in> set app_routes \<Longrightarrow> r_path r = Path (map Word ws) \<Longrightarrow> route_for ws = r" by (rule no_page_is_shadowed [rotated -1])
qed

lemma plain_word_page:
  "plain_route (map Word ws) g \<in> set app_routes \<Longrightarrow> r_page (route_for ws) = g \<and> r_guard (route_for ws) = None"
proof -
  assume "plain_route (map Word ws) g \<in> set app_routes"
  then have "route_for ws = plain_route (map Word ws) g" by (rule word_page) (simp add: plain_route_def)
  then show ?thesis by (simp add: plain_route_def)
qed

lemma hidden_word_page:
  "r \<in> set app_routes \<Longrightarrow> r_path r = Path (map Word ws) \<Longrightarrow> r_page r = g \<Longrightarrow> r_page (route_for ws) = g"
  by (simp add: word_page)

lemma unknown_page: "r_page (route_for [''404'']) = NotFound \<and> r_guard (route_for [''404'']) = None"
  by (simp add: route_for_def table_defs)

lemma static_pages: "record_pages (map (\<lambda>(d, ps, g). (d, map word_of ps, g)) described_pages)"
proof -
  have plain: "list_all (\<lambda>(ws, g). plain_route (map Word ws) g \<in> set app_routes)
      [([], TransferFeed), ([''clubs''], ClubList), ([''competitions''], CompetitionList), ([''seasons''], SeasonList),
       ([''search''], SearchPage), ([''games''], GamesHub), ([''games'', ''played-for-both''], PlayedForBothPage),
       ([''articles''], ArticleList)]"
    by (simp add: app_routes_def player_pages_def club_pages_def writing_pages_def games_pages_def)
  have "guarded_route SignedIn (map Word [''tactics'']) TacticsList \<in> set app_routes"
    "asking (plain_route (map Word [''tactics'', ''new'']) TacticsEditor) \<in> set app_routes"
    "guarded_route EditorsOnly (map Word [''desk'']) ArticleDesk \<in> set app_routes"
    by (simp_all add: app_routes_def writing_pages_def)
  note hidden = this [THEN hidden_word_page, unfolded guarded_route_def asking_def plain_route_def, simplified]
  have "list_all (\<lambda>(ws, g). r_page (route_for ws) = g \<and> r_guard (route_for ws) = None)
      [([], TransferFeed), ([''clubs''], ClubList), ([''competitions''], CompetitionList), ([''seasons''], SeasonList),
       ([''search''], SearchPage), ([''games''], GamesHub), ([''games'', ''played-for-both''], PlayedForBothPage),
       ([''articles''], ArticleList)]"
    by (rule list.pred_mono_strong [OF plain]) (auto dest: plain_word_page)
  with hidden unknown_page show ?thesis
    by (simp add: record_pages_def described_pages_def address_of_def plain_page_def hidden_page_def
        feed_head_def club_list_head_def competition_list_head_def season_list_head_def search_head_def boards_head_def
        board_editor_head_def desk_head_def games_head_def played_head_def article_list_head_def not_found_head_def truthy_def)
qed

lemma param_page:
  assumes "plain_route [Word w, Param] g \<in> set app_routes" "i \<noteq> ''new''"
  shows "r_page (route_for [w, i]) = g \<and> r_guard (route_for [w, i]) = None"
proof -
  have "route_for [w, i] = plain_route [Word w, Param] g"
    by (rule no_page_is_shadowed [OF assms(1), where ps = "[Word w, Param]"]) (simp_all add: plain_route_def assms(2))
  then show ?thesis by (simp add: plain_route_def)
qed

text \<open>
  Canonical addresses lead back: the address a page names as its own is one the router takes to that page, for every
  player, club, coach, competition, article and board (an id is never the word \<open>new\<close>), and a page behind a guard is kept
  out of the index.
\<close>
theorem canonical_leads_back:
  assumes "p_id p \<noteq> ''new''" "c_id c \<noteq> ''new''" "h_id h \<noteq> ''new''" "m_id m \<noteq> ''new''" "slug \<noteq> ''new''"
  shows "record_pages
    (map (\<lambda>(d, ps, g). (d, map word_of ps, g)) described_pages
     @ [(player_head tn p, [''players'', p_id p], PlayerPage), (club_head c, [''clubs'', c_id c], ClubPage),
        (coach_head tn h, [''coaches'', h_id h], CoachPage), (competition_head num m, [''competitions'', m_id m], CompetitionPage),
        (article_head slug cover a, [''articles'', slug], ArticlePage), (viewer_head slug b, [''tactics'', slug], TacticsViewer)])"
proof -
  have at: "address_of [w, i] = CHR ''/'' # w @ ''/'' @ i" for w i by (simp add: address_of_def)
  have "plain_route [Word ''players'', Param] PlayerPage \<in> set app_routes"
    "plain_route [Word ''clubs'', Param] ClubPage \<in> set app_routes"
    "plain_route [Word ''coaches'', Param] CoachPage \<in> set app_routes"
    "plain_route [Word ''competitions'', Param] CompetitionPage \<in> set app_routes"
    "plain_route [Word ''articles'', Param] ArticlePage \<in> set app_routes"
    "plain_route [Word ''tactics'', Param] TacticsViewer \<in> set app_routes"
    by (simp_all add: app_routes_def player_pages_def club_pages_def writing_pages_def)
  note r = this [THEN param_page]
  from static_pages r(1) [OF assms(1)] r(2) [OF assms(2)] r(3) [OF assms(3)] r(4) [OF assms(4)] r(5) [OF assms(5)] r(6) [OF assms(5)]
  show ?thesis
    unfolding record_pages_def set_append ball_Un
    by (simp add: at player_head_def club_head_def coach_head_def competition_head_def article_head_def viewer_head_def
        plain_page_def hidden_page_def)
qed

theorem canonical_leads_back_witness:
  "pd_path (player_head (\<lambda>i f. f) sample_player) = ''/players/p1'' \<and> r_page (route_for [''players'', ''p1'']) = PlayerPage"
proof -
  let ?m = "\<lparr>m_id = ''m1'', competition = \<lparr>mb_name = ''Cup'', mb_country = ''England'', mb_type = DomesticCup, mb_tier = None\<rparr>\<rparr>"
  from canonical_leads_back [of sample_player sample_club sample_coach ?m "''a-slug''" "\<lambda>i f. f" "\<lambda>x. []" None None None]
  have "record_pages [(player_head (\<lambda>i f. f) sample_player, [''players'', p_id sample_player], PlayerPage)]"
    by (simp add: record_pages_def sample_player_def sample_club_def sample_coach_def)
  then show ?thesis by (simp add: record_pages_def sample_player_def address_of_def)
qed

end
