(* ===== verification/Publish_Panel.thy ===== *)
theory Publish_Panel
  imports Member_Lists Football_Forms
begin

text \<open>
  The side panel of the article editor (\<open>features/articles/editor/publish-panel.ts\<close>): what it offers of submitting,
  publishing, sending back, withdrawing and deleting, when an article goes live, and its tags, held against the rules of
  \<open>article_service.go\<close>.  Reading and writing the local time of a date input are arguments, as is \<open>Date.parse\<close>.
\<close>

section \<open>The panel\<close>

record panel =
  pn_article :: "desk_row option"
  pn_admin :: bool
  pn_me :: "string option"
  pn_tags :: "string list"
  pn_busy :: bool
  pn_later :: bool
  pn_at :: string
  pn_tag_draft :: string
  pn_reviewing :: bool
  pn_note :: string

definition pn_mine :: "panel \<Rightarrow> bool" where
  "pn_mine p = (case pn_article p of None \<Rightarrow> True | Some r \<Rightarrow> pn_me p = Some (dr_author r))"

definition pn_status :: "panel \<Rightarrow> article_status" where
  "pn_status p = (case pn_article p of None \<Rightarrow> Draft | Some r \<Rightarrow> art_status (dr_article r))"

definition pn_live :: "date_parser \<Rightarrow> real \<Rightarrow> panel \<Rightarrow> bool" where
  "pn_live date now p = (case pn_article p of None \<Rightarrow> False | Some r \<Rightarrow> isLive date now (dr_article r))"

definition pn_scheduled :: "date_parser \<Rightarrow> real \<Rightarrow> panel \<Rightarrow> bool" where
  "pn_scheduled date now p = (case pn_article p of None \<Rightarrow> False | Some r \<Rightarrow> isScheduled date now (dr_article r))"

definition reviewingOther :: "panel \<Rightarrow> bool" where
  "reviewingOther p \<longleftrightarrow> pn_admin p \<and> \<not> pn_mine p \<and> pn_status p = In_Review"

definition fromLocalInput :: "(string \<Rightarrow> string option) \<Rightarrow> string \<Rightarrow> string option" where
  "fromLocalInput iso_of v = (if v = [] then None else iso_of v)"

definition publishAt :: "(string \<Rightarrow> string option) \<Rightarrow> panel \<Rightarrow> string option" where
  "publishAt iso_of p = (if pn_later p then fromLocalInput iso_of (pn_at p) else None)"

definition atInvalid :: "date_parser \<Rightarrow> (string \<Rightarrow> string option) \<Rightarrow> real \<Rightarrow> panel \<Rightarrow> bool" where
  "atInvalid date iso_of now p \<longleftrightarrow>
     pn_later p \<and> (case publishAt iso_of p of
       None \<Rightarrow> True | Some s \<Rightarrow> s = [] \<or> (case date s of None \<Rightarrow> False | Some t \<Rightarrow> t \<le> now))"

definition panel_minutes :: "nat \<Rightarrow> int" where
  "panel_minutes n = max 1 \<lceil>real n / 230\<rceil>"

definition primaryLabel :: "date_parser \<Rightarrow> real \<Rightarrow> panel \<Rightarrow> string" where
  "primaryLabel date now p =
     (if \<not> pn_admin p then (if pn_later p then ''Submit with this date'' else ''Submit for review'')
      else if reviewingOther p then (if pn_later p then ''Approve and schedule'' else ''Approve and publish'')
      else if pn_scheduled date now p then (if pn_later p then ''Reschedule'' else ''Publish now'')
      else (if pn_later p then ''Schedule'' else ''Publish now''))"

text \<open>The effect on a new article: a time still ahead opens the picker on it.\<close>

definition article_shown :: "date_parser \<Rightarrow> (string \<Rightarrow> string) \<Rightarrow> real \<Rightarrow> panel \<Rightarrow> panel" where
  "article_shown date local_of now p =
     (case pn_article p of
        None \<Rightarrow> p
      | Some r \<Rightarrow>
          (case publish_at (dr_article r) of
             None \<Rightarrow> p
           | Some s \<Rightarrow>
               if s \<noteq> [] \<and> (case date s of None \<Rightarrow> False | Some t \<Rightarrow> t > now)
               then p\<lparr>pn_later := True, pn_at := local_of s\<rparr> else p))"

text \<open>\<open>go\<close> and \<open>sendBack\<close>: what is emitted.\<close>

definition go :: "date_parser \<Rightarrow> (string \<Rightarrow> string option) \<Rightarrow> real \<Rightarrow> panel \<Rightarrow> string option option" where
  "go date iso_of now p = (if atInvalid date iso_of now p then None else Some (publishAt iso_of p))"

definition sendBack :: "panel \<Rightarrow> panel \<times> string option" where
  "sendBack p =
     (let n = trim (pn_note p) in
      if n = [] then (p, None) else (p\<lparr>pn_reviewing := False, pn_note := []\<rparr>, Some n))"

text \<open>Which controls stand there.\<close>

definition offers_go :: "date_parser \<Rightarrow> real \<Rightarrow> panel \<Rightarrow> bool" where
  "offers_go date now p \<longleftrightarrow> pn_article p \<noteq> None \<and> \<not> pn_live date now p
     \<and> (pn_admin p \<or> pn_status p = Draft \<or> pn_status p = Changes_Requested)"

definition offers_withdraw :: "panel \<Rightarrow> bool" where
  "offers_withdraw p \<longleftrightarrow> pn_article p \<noteq> None \<and> (pn_status p = In_Review \<and> pn_mine p \<or> pn_status p = Published)"

definition offers_removal :: "panel \<Rightarrow> bool" where
  "offers_removal p \<longleftrightarrow> pn_article p \<noteq> None \<and> (pn_admin p \<or> pn_mine p \<and> pn_status p \<noteq> Published)"

section \<open>The rules of the service\<close>

text \<open>
  \<open>Submit\<close> with \<open>publish\<close>, \<open>RequestChanges\<close> and \<open>Withdraw\<close>, for a row that \<open>reachable\<close> finds.  \<open>fit\<close> is
  \<open>readyToSubmit\<close>; a time is in milliseconds, the stamp written for now is an argument.
\<close>

definition may_reach :: "role \<Rightarrow> string \<Rightarrow> desk_row \<Rightarrow> bool" where
  "may_reach role uid r \<longleftrightarrow> role = RAdmin \<or> role = REditor \<and> dr_author r = uid"

definition YEAR_AHEAD :: real where "YEAR_AHEAD = 366 * 24 * 3600 * 1000"

definition ahead :: "date_parser \<Rightarrow> real \<Rightarrow> string \<Rightarrow> bool" where
  "ahead date now s \<longleftrightarrow> (case date s of None \<Rightarrow> False | Some t \<Rightarrow> t > now)"

definition svc_publish :: "date_parser \<Rightarrow> real \<Rightarrow> string \<Rightarrow> string option \<Rightarrow> desk_row \<Rightarrow> string + desk_row" where
  "svc_publish date now stamp w r =
     (let a = dr_article r in
      if isLive date now a then Inl ''this article is already live; withdraw it first to schedule it again''
      else (let w' = (if w = None \<and> art_status a = In_Review
                          \<and> (case publish_at a of None \<Rightarrow> False | Some s \<Rightarrow> ahead date now s)
                       then publish_at a else w)
            in Inr (r\<lparr>dr_article := a\<lparr>art_status := Published,
                 publish_at := Some (case w' of None \<Rightarrow> stamp | Some s \<Rightarrow> s)\<rparr>\<rparr>)))"

definition svc_submit ::
  "date_parser \<Rightarrow> real \<Rightarrow> string \<Rightarrow> role \<Rightarrow> string \<Rightarrow> bool \<Rightarrow> string option \<Rightarrow> desk_row \<Rightarrow> string + desk_row" where
  "svc_submit date now stamp role uid fit w r =
     (if \<not> may_reach role uid r then Inl ''article not found''
      else if \<not> fit then Inl ''not fit''
      else if (case w of None \<Rightarrow> False | Some s \<Rightarrow> (case date s of None \<Rightarrow> False | Some t \<Rightarrow> t > now + YEAR_AHEAD))
        then Inl ''an article can be scheduled at most a year ahead''
      else (let w' = (case w of None \<Rightarrow> None | Some s \<Rightarrow> if ahead date now s then Some s else None) in
            if role = RAdmin then svc_publish date now stamp w' r
            else (case art_status (dr_article r) of
                    Draft \<Rightarrow> Inr (r\<lparr>dr_article := (dr_article r)\<lparr>art_status := In_Review, publish_at := w'\<rparr>\<rparr>)
                  | Changes_Requested \<Rightarrow> Inr (r\<lparr>dr_article := (dr_article r)\<lparr>art_status := In_Review, publish_at := w'\<rparr>\<rparr>)
                  | In_Review \<Rightarrow> Inl ''this article is already waiting for review''
                  | Published \<Rightarrow> Inl ''this article is already published'')))"

definition svc_request_changes :: "role \<Rightarrow> string \<Rightarrow> string \<Rightarrow> desk_row \<Rightarrow> string + desk_row" where
  "svc_request_changes role uid n r =
     (if role \<noteq> RAdmin then Inl ''only an administrator reviews articles''
      else if art_status (dr_article r) \<noteq> In_Review then Inl ''only an article waiting for review can be sent back''
      else if trim n = [] then Inl ''say what needs to change, so the writer knows what to do''
      else if length (trim n) > 2000 then Inl ''a review note can be at most 2000 characters''
      else Inr (r\<lparr>dr_article := (dr_article r)\<lparr>art_status := Changes_Requested\<rparr>\<rparr>))"

definition svc_withdraw :: "role \<Rightarrow> string \<Rightarrow> desk_row \<Rightarrow> string + desk_row" where
  "svc_withdraw role uid r =
     (if \<not> may_reach role uid r then Inl ''article not found''
      else if art_status (dr_article r) = In_Review \<or> art_status (dr_article r) = Published
        then Inr (r\<lparr>dr_article := (dr_article r)\<lparr>art_status := Draft, publish_at := None\<rparr>\<rparr>)
      else Inl ''this article is not in review or published'')"

definition accepted :: "string + 'a \<Rightarrow> bool" where
  "accepted res \<longleftrightarrow> (\<exists>x. res = Inr x)"

definition seen_by :: "panel \<Rightarrow> role \<Rightarrow> string \<Rightarrow> desk_row \<Rightarrow> bool" where
  "seen_by p role uid r \<longleftrightarrow> pn_article p = Some r \<and> pn_admin p = (role = RAdmin) \<and> pn_me p = Some uid \<and> may_reach role uid r"



definition submitted :: desk_row where
  "submitted = own_draft\<lparr>dr_article := (dr_article own_draft)\<lparr>art_status := In_Review\<rparr>\<rparr>"

definition reviewer :: panel where
  "reviewer = \<lparr>pn_article = Some submitted, pn_admin = True, pn_me = Some ''u9'', pn_tags = [], pn_busy = False, pn_later = False,
     pn_at = [], pn_tag_draft = [], pn_reviewing = True, pn_note = ''Shorten the opening.''\<rparr>"


text \<open>
  Approving now what its writer asked to have published later: the reviewer turns the picker to now, the button reads
  \<open>Approve and publish\<close>, no time is sent, and the service keeps the writer's time, so nothing is live.
\<close>
theorem approving_now_keeps_the_writers_time:
  assumes "seen_by p RAdmin uid r" "reviewingOther p" "publish_at (dr_article r) = Some s" "ahead date now s" "s \<noteq> []"
  shows "let q = (article_shown date local_of now p)\<lparr>pn_later := False\<rparr>;
             r' = r\<lparr>dr_article := (dr_article r)\<lparr>art_status := Published, publish_at := Some s\<rparr>\<rparr> in
         primaryLabel date now q = ''Approve and publish'' \<and> go date iso_of now q = Some None
         \<and> svc_submit date now stamp RAdmin uid True None r = Inr r' \<and> \<not> isLive date now (dr_article r')"
proof -
  have p: "pn_article p = Some r" "pn_admin p" "pn_me p = Some uid"
    using assms(1) by (simp_all add: seen_by_def)
  have st: "art_status (dr_article r) = In_Review" and other: "pn_me p \<noteq> Some (dr_author r)"
    using assms(2) by (simp_all add: reviewingOther_def pn_status_def pn_mine_def p)
  obtain t where t: "date s = Some t" "t > now" using assms(4) by (auto simp: ahead_def split: option.splits)
  have live: "\<not> isLive date now (dr_article r)" by (simp add: isLive_def publish_time_def st)
  have later: "\<not> isLive date now ((dr_article r)\<lparr>art_status := Published, publish_at := Some s\<rparr>)"
    using t by (simp add: isLive_def publish_time_def split: option.splits)
  show ?thesis
    using p st other t live later assms(3,5)
    by (simp add: Let_def article_shown_def primaryLabel_def reviewingOther_def pn_mine_def pn_status_def go_def atInvalid_def
        publishAt_def svc_submit_def svc_publish_def may_reach_def ahead_def)
qed

section \<open>Tags\<close>

definition MAX_TAGS :: nat where "MAX_TAGS = 8"

definition drop_hash :: "string \<Rightarrow> string" where
  "drop_hash s = (case s of c # t \<Rightarrow> if c = CHR ''#'' then t else s | [] \<Rightarrow> [])"

text \<open>Every run of white space becomes one blank.\<close>

fun one_blank :: "string \<Rightarrow> string" where
  "one_blank [] = []"
| "one_blank [c] = [if is_ws c then CHR '' '' else c]"
| "one_blank (c # d # s) =
     (if is_ws c then (if is_ws d then one_blank (d # s) else CHR '' '' # one_blank (d # s)) else c # one_blank (d # s))"

definition panel_tag :: "string \<Rightarrow> string" where
  "panel_tag x = take 32 (map lower (trim (one_blank (drop_hash x))))"

definition addTag :: "panel \<Rightarrow> panel" where
  "addTag p =
     (let t = panel_tag (pn_tag_draft p); q = p\<lparr>pn_tag_draft := []\<rparr> in
      if t = [] \<or> t \<in> set (pn_tags p) \<or> length (pn_tags p) \<ge> MAX_TAGS then q else q\<lparr>pn_tags := pn_tags p @ [t]\<rparr>)"

definition removeTag_named :: "string \<Rightarrow> panel \<Rightarrow> panel" where
  "removeTag_named t p = p\<lparr>pn_tags := filter (\<lambda>u. u \<noteq> t) (pn_tags p)\<rparr>"

definition onTagKey :: "string \<Rightarrow> panel \<Rightarrow> panel" where
  "onTagKey key p =
     (if key = ''Enter'' \<or> key = '','' then addTag p
      else if key = ''Backspace'' \<and> pn_tag_draft p = [] \<and> pn_tags p \<noteq> [] then p\<lparr>pn_tags := butlast (pn_tags p)\<rparr>
      else p)"

datatype tag_act = Tag_Typed string | Tag_Key string | Tag_Removed string

fun tag_event :: "panel \<Rightarrow> tag_act \<Rightarrow> panel" where
  "tag_event p (Tag_Typed s) = p\<lparr>pn_tag_draft := s\<rparr>"
| "tag_event p (Tag_Key k) = onTagKey k p"
| "tag_event p (Tag_Removed t) = removeTag_named t p"

text \<open>The service's own cleaning of a list of tags.\<close>

definition go_fields :: "string \<Rightarrow> string" where
  "go_fields s = trim (one_blank s)"

definition normaliseTag :: "string \<Rightarrow> string" where
  "normaliseTag raw = map lower (go_fields (drop_hash (trim raw)))"

fun collect_tags :: "string list \<Rightarrow> string list \<Rightarrow> string + string list" where
  "collect_tags out [] = Inr out"
| "collect_tags out (raw # ts) =
     (let t = normaliseTag raw in
      if t = [] \<or> t \<in> set out then collect_tags out ts
      else if length t > 32 then Inl ''a tag can be at most 32 characters''
      else collect_tags (out @ [t]) ts)"

definition normaliseTags :: "string list \<Rightarrow> string + string list" where
  "normaliseTags ts =
     (case collect_tags [] ts of
        Inl e \<Rightarrow> Inl e
      | Inr out \<Rightarrow> if length out > 8 then Inl ''an article can have at most 8 tags'' else Inr out)"

definition tags_ok :: "string list \<Rightarrow> bool" where
  "tags_ok ts \<longleftrightarrow> distinct ts \<and> length ts \<le> MAX_TAGS \<and> (\<forall>t \<in> set ts. t \<noteq> [] \<and> length t \<le> 32)"

lemma addTag_ok: "tags_ok (pn_tags p) \<Longrightarrow> tags_ok (pn_tags (addTag p))"
  by (auto simp: tags_ok_def addTag_def panel_tag_def Let_def MAX_TAGS_def)

lemma tag_event_ok: "tags_ok (pn_tags p) \<Longrightarrow> tags_ok (pn_tags (tag_event p ev))"
proof (cases ev)
  case (Tag_Key k)
  assume p: "tags_ok (pn_tags p)"
  have "tags_ok (butlast (pn_tags p))" using p by (auto simp: tags_ok_def distinct_butlast dest: in_set_butlastD)
  then show ?thesis using Tag_Key p addTag_ok by (simp add: onTagKey_def)
next
  case (Tag_Removed t)
  assume p: "tags_ok (pn_tags p)"
  have "length (filter (\<lambda>u. u \<noteq> t) (pn_tags p)) \<le> MAX_TAGS"
    using p length_filter_le [of "\<lambda>u. u \<noteq> t" "pn_tags p"] unfolding tags_ok_def by (meson order_trans)
  then show ?thesis using Tag_Removed p by (simp add: removeTag_named_def tags_ok_def)
qed simp

lemma length_one_blank: "length (one_blank s) \<le> length s"
  by (induction s rule: one_blank.induct) auto

lemma length_normaliseTag: "length (normaliseTag t) \<le> length t"
proof -
  have "length (drop_hash (trim t)) \<le> length t"
    using length_trim [of t] by (auto simp: drop_hash_def split: list.splits)
  moreover have "length (go_fields u) \<le> length u" for u
    using length_trim [of "one_blank u"] length_one_blank [of u] by (simp add: go_fields_def)
  ultimately show ?thesis by (metis length_map normaliseTag_def order_trans)
qed

lemma collect_tags_short:
  "\<forall>t \<in> set ts. length t \<le> 32 \<Longrightarrow> \<exists>out'. collect_tags out ts = Inr out' \<and> length out' \<le> length out + length ts"
proof (induction ts arbitrary: out)
  case (Cons t ts)
  have "length (normaliseTag t) \<le> 32" using Cons.prems length_normaliseTag [of t] by simp
  then show ?case using Cons.IH [of out] Cons.IH [of "out @ [normaliseTag t]"] Cons.prems by (fastforce simp: Let_def)
qed simp

text \<open>
  Whatever is typed, keyed and removed, the tags of the panel stay distinct, at most eight and none of them longer than 32
  characters, and the service never refuses them.
\<close>
theorem panel_tags_are_accepted:
  "let ts = pn_tags (foldl tag_event (p\<lparr>pn_tags := []\<rparr>) evs) in tags_ok ts \<and> accepted (normaliseTags ts)"
proof -
  have ok: "tags_ok (pn_tags q) \<Longrightarrow> tags_ok (pn_tags (foldl tag_event q evs))" for q
    by (induction evs arbitrary: q) (simp_all add: tag_event_ok)
  let ?ts = "pn_tags (foldl tag_event (p\<lparr>pn_tags := []\<rparr>) evs)"
  have ts: "tags_ok ?ts" by (rule ok) (simp add: tags_ok_def)
  then obtain out where "collect_tags [] ?ts = Inr out" "length out \<le> 8"
    using collect_tags_short [of ?ts "[]"] by (auto simp: tags_ok_def MAX_TAGS_def)
  then show ?thesis using ts by (simp add: normaliseTags_def accepted_def)
qed

text \<open>But it is not always the tag the writer saw that is kept: a hash after a blank stays in the panel and goes in the service.\<close>
theorem hash_after_a_blank:
  "panel_tag '' #derby'' = ''#derby'' \<and> normaliseTags [panel_tag '' #derby''] = Inr [''derby'']"
  by code_simp

end
