(* ===== verification/Article_Tools.thy ===== *)
theory Article_Tools
  imports Article_Body Article_Editor
begin

text \<open>
  What the article editor inserts: its one dialog (\<open>features/articles/editor/insert-dialog.ts\<close>), the three embeds with
  their HTML and the pasting of bare links (\<open>tiptap-setup.ts\<close>), the page's side of it (\<open>insert\<close>, \<open>ask\<close>, \<open>editCover\<close> of
  \<open>article-editor.ts\<close>), the toolbar's state, and the article page (\<open>reader/article-page.ts\<close>).  The Tiptap editor is
  not modelled: what it is asked to do is the result of the functions here, what it reports of the selection an argument.
\<close>

section \<open>The embeds\<close>

datatype embed = EFigure figure | EBoard string string string | EVideo provider string string

definition BLANK_FIGURE :: figure where
  "BLANK_FIGURE = \<lparr>fig_src = [], fig_alt = [], fig_caption = [], fig_credit = [], fig_wide = False\<rparr>"

fun provider_name :: "provider \<Rightarrow> string" where
  "provider_name Youtube = ''youtube''"
| "provider_name Vimeo = ''vimeo''"

definition size_name :: "bool \<Rightarrow> string" where
  "size_name wide = (if wide then ''wide'' else ''column'')"

definition embed_type :: "embed \<Rightarrow> string" where
  "embed_type e = (case e of EFigure f \<Rightarrow> ''figure'' | EBoard s t c \<Rightarrow> ''tacticBoard'' | EVideo p i c \<Rightarrow> ''video'')"

text \<open>The node \<open>insertEmbed\<close> puts into the document.\<close>

definition embed_node :: "embed \<Rightarrow> doc_node" where
  "embed_node e = Doc_Node (embed_type e)
     (case e of
        EFigure f \<Rightarrow> [(''src'', JStr (fig_src f)), (''alt'', JStr (fig_alt f)), (''caption'', JStr (fig_caption f)),
                     (''credit'', JStr (fig_credit f)), (''size'', JStr (size_name (fig_wide f)))]
      | EBoard s t c \<Rightarrow> [(''slug'', JStr s), (''title'', JStr t), (''caption'', JStr c)]
      | EVideo p i c \<Rightarrow> [(''provider'', JStr (provider_name p)), (''id'', JStr i), (''caption'', JStr c)]) [] [] []"

text \<open>What the reader makes of a node, and the check of \<open>bodyWalker.walk\<close>; \<open>image_ok\<close> is \<open>SafeImageURL\<close>.\<close>

definition read_embed :: "url_parser \<Rightarrow> doc_node \<Rightarrow> embed option" where
  "read_embed parse n =
     (if node_type n = ''figure'' then map_option EFigure (figure parse n)
      else if node_type n = ''tacticBoard'' then map_option (\<lambda>(s, t, c). EBoard s t c) (board_embed n)
      else if node_type n = ''video'' then map_option (\<lambda>(p, i, c). EVideo p i c) (video n)
      else None)"

definition embed_ok :: "(string \<Rightarrow> bool) \<Rightarrow> doc_node \<Rightarrow> bool" where
  "embed_ok image_ok n \<longleftrightarrow>
     (if node_type n = ''figure'' then image_ok (str_attr n ''src'')
      else if node_type n = ''tacticBoard'' then tactic_slug (str_attr n ''slug'')
      else if node_type n = ''video'' then
        (if str_attr n ''provider'' = ''youtube'' then youtube_id (str_attr n ''id'')
         else str_attr n ''provider'' = ''vimeo'' \<and> vimeo_id (str_attr n ''id''))
      else True)"

definition video_id :: "provider \<Rightarrow> string \<Rightarrow> bool" where
  "video_id p i = (case p of Youtube \<Rightarrow> youtube_id i | Vimeo \<Rightarrow> vimeo_id i)"

text \<open>An embed whose address every part of the program accepts.\<close>

fun sound_embed :: "url_parser \<Rightarrow> embed \<Rightarrow> bool" where
  "sound_embed parse (EFigure f) = (safeImage parse (Some (JStr (fig_src f))) = Some (fig_src f))"
| "sound_embed parse (EBoard s t c) = tactic_slug s"
| "sound_embed parse (EVideo p i c) = video_id p i"

lemma sound_embed_is_kept:
  assumes "sound_embed parse e" and "\<And>s. safeImage parse (Some (JStr s)) = Some s \<Longrightarrow> image_ok s"
  shows "read_embed parse (embed_node e) = Some e \<and> embed_ok image_ok (embed_node e)"
proof (cases e)
  case (EFigure f)
  then show ?thesis using assms
    by (simp add: read_embed_def embed_node_def embed_type_def figure_def str_attr_def embed_ok_def size_name_def)
next
  case (EBoard s t c)
  then show ?thesis using assms
    by (simp add: read_embed_def embed_node_def embed_type_def board_embed_def str_attr_def embed_ok_def)
next
  case (EVideo p i c)
  then show ?thesis using assms
    by (cases p) (simp_all add: read_embed_def embed_node_def embed_type_def video_def str_attr_def embed_ok_def video_id_def)
qed

section \<open>Copying and pasting an embed\<close>

text \<open>The elements \<open>renderHTML\<close> writes and \<open>parseHTML\<close> reads, by the attributes they use; \<open>None\<close> is an attribute or child absent.\<close>

datatype embed_element =
    Figure_El "string option" "string option" "string option" "string option" "string option"
  | Img_El "string option" "string option"
  | Board_El "string option" "string option" "string option"
  | Video_El "string option" "string option" "string option"

fun renderHTML :: "embed \<Rightarrow> embed_element" where
  "renderHTML (EFigure f) =
     Figure_El (Some (fig_src f)) (Some (fig_alt f)) (Some (fig_caption f)) (Some (fig_credit f)) (Some (size_name (fig_wide f)))"
| "renderHTML (EBoard s t c) = Board_El (Some s) (Some t) (Some c)"
| "renderHTML (EVideo p i c) = Video_El (Some (provider_name p)) (Some i) (Some c)"

definition parse_figure ::
  "url_parser \<Rightarrow> string option \<Rightarrow> string option \<Rightarrow> string option \<Rightarrow> string option \<Rightarrow> string option \<Rightarrow> embed option" where
  "parse_figure parse src alt cap cred sz =
     (case safeImage parse (map_option JStr src) of
        None \<Rightarrow> None
      | Some s \<Rightarrow> Some (EFigure \<lparr>fig_src = s, fig_alt = or_empty alt, fig_caption = or_empty cap,
                               fig_credit = or_empty cred, fig_wide = (sz = Some ''wide'')\<rparr>))"

definition parse_img :: "url_parser \<Rightarrow> string option \<Rightarrow> string option \<Rightarrow> embed option" where
  "parse_img parse src alt =
     (case safeImage parse (map_option JStr src) of
        None \<Rightarrow> None
      | Some s \<Rightarrow> Some (EFigure (BLANK_FIGURE\<lparr>fig_src := s, fig_alt := or_empty alt\<rparr>)))"

definition parse_board :: "string option \<Rightarrow> string option \<Rightarrow> string option \<Rightarrow> embed option" where
  "parse_board slug title cap =
     (case parseTacticSlug (or_empty slug) of
        None \<Rightarrow> None
      | Some s \<Rightarrow> Some (EBoard s (or_empty title) (or_empty cap)))"

definition parse_video :: "string option \<Rightarrow> string option \<Rightarrow> string option \<Rightarrow> embed option" where
  "parse_video p i cap =
     (if p = Some ''youtube'' then Some (EVideo Youtube (or_empty i) (or_empty cap))
      else if p = Some ''vimeo'' then Some (EVideo Vimeo (or_empty i) (or_empty cap))
      else None)"

fun parseHTML :: "url_parser \<Rightarrow> embed_element \<Rightarrow> embed option" where
  "parseHTML parse (Figure_El src alt cap cred sz) = parse_figure parse src alt cap cred sz"
| "parseHTML parse (Img_El src alt) = parse_img parse src alt"
| "parseHTML parse (Board_El slug title cap) = parse_board slug title cap"
| "parseHTML parse (Video_El p i cap) = parse_video p i cap"

lemmas parse_defs = parse_figure_def parse_img_def parse_board_def parse_video_def

text \<open>
  What the three embeds share: an embed is written as an element and read from one, put into the document and drawn from it.
\<close>

locale embed_kind =
  fixes make :: "'a \<Rightarrow> embed" and good :: "url_parser \<Rightarrow> 'a \<Rightarrow> bool"
  assumes sound: "good parse a \<Longrightarrow> sound_embed parse (make a)"
    and copied: "good parse a \<Longrightarrow> parseHTML parse (renderHTML (make a)) = Some (make a)"
begin

lemma copy_is_drawn:
  assumes "good parse a"
  shows "map_option (read_embed parse \<circ> embed_node) (parseHTML parse (renderHTML (make a))) = Some (Some (make a))"
  using copied [OF assms] sound_embed_is_kept [OF sound [OF assms], of "\<lambda>s. True"] by simp

end

lemma tactic_slug_parses: "tactic_slug s \<Longrightarrow> parseTacticSlug s = Some s"
proof -
  assume s: "tactic_slug s"
  then have "list_all (\<lambda>c. \<not> is_ws c) s"
    using is_letter_not_ws is_digit_not_ws by (auto simp: tactic_slug_def list_all_iff)
  with s show ?thesis by (simp add: parseTacticSlug_def Let_def)
qed

interpretation figure_kind: embed_kind EFigure "\<lambda>parse f. safeImage parse (Some (JStr (fig_src f))) = Some (fig_src f)"
  by unfold_locales (simp_all add: or_empty_def size_name_def parse_defs)

interpretation board_kind: embed_kind "\<lambda>(s, t, c). EBoard s t c" "\<lambda>parse (s, t, c). tactic_slug s"
  by unfold_locales (auto simp: or_empty_def tactic_slug_parses parse_defs)

interpretation video_kind: embed_kind "\<lambda>(p, i, c). EVideo p i c" "\<lambda>parse (p, i, c). video_id p i"
proof unfold_locales
  fix parse and a :: "provider \<times> string \<times> string"
  assume "case a of (p, i, c) \<Rightarrow> video_id p i"
  then show "sound_embed parse (case a of (p, i, c) \<Rightarrow> EVideo p i c)"
    and "parseHTML parse (renderHTML (case a of (p, i, c) \<Rightarrow> EVideo p i c)) = Some (case a of (p, i, c) \<Rightarrow> EVideo p i c)"
    by (cases a; cases "fst a"; simp add: or_empty_def parse_defs)+
qed

text \<open>
  Copying an embed whose address is sound and pasting it gives the same embed, and the reader draws it; the service takes it
  when it takes every image address the page does.
\<close>
theorem copied_embed_survives:
  assumes "sound_embed parse e" and "\<And>s. safeImage parse (Some (JStr s)) = Some s \<Longrightarrow> image_ok s"
  shows "parseHTML parse (renderHTML e) = Some e \<and> read_embed parse (embed_node e) = Some e
    \<and> embed_ok image_ok (embed_node e)"
proof -
  have "parseHTML parse (renderHTML e) = Some e"
  proof (cases e)
    case (EFigure f)
    then show ?thesis using assms(1) figure_kind.copied [where parse = parse and a = f] by simp
  next
    case (EBoard s t c)
    then show ?thesis using assms(1) board_kind.copied [where parse = parse and a = "(s, t, c)"] by simp
  next
    case (EVideo p i c)
    then show ?thesis using assms(1) video_kind.copied [where parse = parse and a = "(p, i, c)"] by simp
  qed
  then show ?thesis using sound_embed_is_kept [OF assms] by simp
qed

text \<open>
  A video pasted as HTML is the exception: its id is not looked at, so the document holds a video the service refuses to save.
\<close>
theorem pasted_video_is_unchecked:
  "parseHTML parse (Video_El (Some ''youtube'') (Some ''x'') None) = Some (EVideo Youtube ''x'' [])
    \<and> \<not> embed_ok image_ok (embed_node (EVideo Youtube ''x'' []))"
  by (simp add: or_empty_def parse_defs embed_ok_def embed_node_def embed_type_def str_attr_def youtube_id_def)

section \<open>Pasting a bare link\<close>

definition IMAGE_ENDINGS :: "string list" where
  "IMAGE_ENDINGS = [''.jpg'', ''.jpeg'', ''.png'', ''.gif'', ''.webp'', ''.avif'']"

definition image_path :: "url_parser \<Rightarrow> string \<Rightarrow> bool" where
  "image_path parse s =
     (case parse s of
        None \<Rightarrow> False
      | Some u \<Rightarrow> list_ex (\<lambda>e. suffix e (map lower (pathname u))) IMAGE_ENDINGS)"

text \<open>\<open>bare\<close>: the selection is empty, in a paragraph with nothing in it.\<close>

definition pasteAsEmbed :: "url_parser \<Rightarrow> bool \<Rightarrow> string option \<Rightarrow> embed option" where
  "pasteAsEmbed parse bare pasted =
     (let tx = trim (or_empty pasted) in
      if tx = [] \<or> list_ex is_ws tx \<or> \<not> bare then None
      else (case parseVideo parse tx of
        Some (p, i) \<Rightarrow> Some (EVideo p i [])
      | None \<Rightarrow>
          (case (if sublist ''/tactics/'' tx then parseTacticSlug tx else None) of
             Some s \<Rightarrow> Some (EBoard s [] [])
           | None \<Rightarrow>
               (case safeImage parse (Some (JStr tx)) of
                  Some src \<Rightarrow> if image_path parse src then Some (EFigure (BLANK_FIGURE\<lparr>fig_src := src\<rparr>)) else None
                | None \<Rightarrow> None))))"

lemma parseVideo_sound: "parseVideo parse x = Some (p, i) \<Longrightarrow> video_id p i"
  using parseVideo_id [of parse x p i] by (auto simp: video_id_def split: provider.splits)

lemma parseTacticSlug_sound: "parseTacticSlug x = Some s \<Longrightarrow> tactic_slug s"
  by (auto simp: parseTacticSlug_def Let_def split: if_splits option.splits)

lemma safeImage_same: "safeImage parse raw = Some s \<Longrightarrow> safeImage parse (Some (JStr s)) = Some s"
  using safeImage_Some [of parse raw s] by (cases raw) auto

text \<open>What a bare link becomes is always sound, and pasted anywhere but on an empty line it stays a link.\<close>
theorem pasted_link_is_sound:
  "(\<forall>e. pasteAsEmbed parse bare pasted = Some e \<longrightarrow> sound_embed parse e) \<and> pasteAsEmbed parse False pasted = None"
  by (auto simp: pasteAsEmbed_def Let_def parseVideo_sound parseTacticSlug_sound safeImage_same
      split: if_splits option.splits)

section \<open>Links\<close>

datatype link_command = Unset_Link | No_Command | Insert_Linked string string | Set_Link string

definition applyLink :: "url_parser \<Rightarrow> bool \<Rightarrow> string option \<Rightarrow> string \<Rightarrow> link_command" where
  "applyLink parse cursor href tx =
     (case href of
        None \<Rightarrow> Unset_Link
      | Some h \<Rightarrow>
          if h = [] then Unset_Link
          else (case normaliseLink parse h of
            None \<Rightarrow> No_Command
          | Some s \<Rightarrow> if cursor \<and> tx \<noteq> [] then Insert_Linked tx s else Set_Link s))"

section \<open>The card of an embed\<close>

definition join_caption :: "string \<Rightarrow> string \<Rightarrow> string" where
  "join_caption c d = (if c = [] then d else if d = [] then c else c @ [CHR '' '', CHR 0xB7, CHR '' ''] @ d)"

fun card_caption :: "embed \<Rightarrow> string" where
  "card_caption (EFigure f) = join_caption (fig_caption f) (fig_credit f)"
| "card_caption (EBoard s t c) = c"
| "card_caption (EVideo p i c) = c"

definition caption_shown :: "embed \<Rightarrow> string \<times> bool" where
  "caption_shown e = (let c = card_caption e in (if c = [] then ''No caption'' else c, c = []))"

fun card_actions :: "embed \<Rightarrow> (string \<times> string) list" where
  "card_actions (EFigure f) =
     [(''pen'', ''Edit image''),
      (if fig_wide f then (''narrow'', ''Fit the text column'') else (''wide'', ''Make it wide'')), (''trash'', ''Remove'')]"
| "card_actions (EBoard s t c) = [(''pen'', ''Change board or caption''), (''trash'', ''Remove'')]"
| "card_actions (EVideo p i c) = [(''pen'', ''Edit video''), (''trash'', ''Remove'')]"

definition toggle_size :: "figure \<Rightarrow> figure" where
  "toggle_size f = f\<lparr>fig_wide := \<not> fig_wide f\<rparr>"

section \<open>The dialog\<close>

datatype dialog_request =
    Ask_Link string bool
  | Ask_Image bool figure
  | Ask_Board string string string
  | Ask_Video provider string string

datatype dialog_answer =
    Got_Link "string option" string
  | Got_Image bool figure
  | Got_Board string string string
  | Got_Video provider string string

datatype preview = Idle | Loading | Ok_Image | Failed_Image

record dialog =
  dg_request :: "dialog_request option"
  dg_url :: string
  dg_text :: string
  dg_alt :: string
  dg_caption :: string
  dg_credit :: string
  dg_wide :: bool
  dg_filter :: string
  dg_slug :: string
  dg_title :: string
  dg_query :: string
  dg_preview :: preview
  dg_touched :: bool

text \<open>\<open>KIND_PATH\<close> and \<open>KIND_LABEL\<close>.\<close>

definition HIT_KINDS :: "(string \<times> string \<times> string) list" where
  "HIT_KINDS =
     [(''player'', ''/players/'', ''Player''), (''team'', ''/clubs/'', ''Club''),
      (''coach'', ''/coaches/'', ''Coach''), (''league'', ''/competitions/'', ''Competition'')]"

definition looksLikeAddress :: "string \<Rightarrow> bool" where
  "looksLikeAddress u \<longleftrightarrow> list_ex (\<lambda>c. c \<in> {CHR ''.'', CHR ''/'', CHR '':'', CHR ''@''}) (trim u)"

definition linkTarget :: "url_parser \<Rightarrow> dialog \<Rightarrow> string option" where
  "linkTarget parse d = normaliseLink parse (dg_url d)"

definition imageSrc :: "url_parser \<Rightarrow> dialog \<Rightarrow> string option" where
  "imageSrc parse d = safeImage parse (Some (JStr (trim (dg_url d))))"

definition hits_query :: "dialog \<Rightarrow> string option" where
  "hits_query d = (case dg_request d of
     Some (Ask_Link h a) \<Rightarrow> if length (dg_query d) \<ge> 2 then Some (dg_query d) else None | _ \<Rightarrow> None)"

definition filteredBoards :: "dialog \<Rightarrow> (string \<times> string) list \<Rightarrow> (string \<times> string) list" where
  "filteredBoards d bs =
     (let q = map lower (trim (dg_filter d)) in
      if q = [] then bs else filter (\<lambda>b. sublist q (map lower (snd b))) bs)"

definition dialog_error :: "url_parser \<Rightarrow> dialog \<Rightarrow> string option" where
  "dialog_error parse d =
     (let u = trim (dg_url d) in
      case dg_request d of
        None \<Rightarrow> None
      | Some (Ask_Link h a) \<Rightarrow>
          if u \<noteq> [] \<and> looksLikeAddress (dg_url d) \<and> linkTarget parse d = None
          then Some ''That is not an address an article can link to. Use a web address, an email, or a page on this site.''
          else None
      | Some (Ask_Image c f) \<Rightarrow>
          if u = [] then None
          else if imageSrc parse d = None then Some ''Images must come from an https:// address.''
          else if dg_preview d = Failed_Image then Some ''No image loaded from that address.'' else None
      | Some (Ask_Video p i c) \<Rightarrow>
          if u \<noteq> [] \<and> parseVideo parse (dg_url d) = None then Some ''Paste a YouTube or Vimeo link.'' else None
      | Some (Ask_Board s t c) \<Rightarrow>
          if dg_touched d \<and> dg_slug d = [] then Some (''Choose a board, or paste a board'' @ [CHR 0x27] @ ''s link.'') else None)"

definition canApply :: "url_parser \<Rightarrow> dialog \<Rightarrow> bool" where
  "canApply parse d =
     (case dg_request d of
        None \<Rightarrow> False
      | Some (Ask_Link h a) \<Rightarrow> linkTarget parse d \<noteq> None
      | Some (Ask_Image c f) \<Rightarrow> imageSrc parse d \<noteq> None \<and> dg_preview d \<noteq> Failed_Image
      | Some (Ask_Video p i c) \<Rightarrow> parseVideo parse (dg_url d) \<noteq> None
      | Some (Ask_Board s t c) \<Rightarrow> dg_slug d \<noteq> [])"

definition video_address :: "provider \<Rightarrow> string \<Rightarrow> string" where
  "video_address p i =
     (if i = [] then [] else (case p of Youtube \<Rightarrow> ''https://youtu.be/'' @ i | Vimeo \<Rightarrow> ''https://vimeo.com/'' @ i))"

definition dialog_reset :: "dialog_request \<Rightarrow> dialog \<Rightarrow> dialog" where
  "dialog_reset r d =
     (let q = d\<lparr>dg_request := Some r, dg_touched := False, dg_filter := [], dg_text := [], dg_alt := [], dg_credit := [],
                dg_wide := False, dg_slug := [], dg_title := [], dg_query := []\<rparr> in
      case r of
        Ask_Link h a \<Rightarrow> q\<lparr>dg_url := h, dg_caption := []\<rparr>
      | Ask_Image c f \<Rightarrow> q\<lparr>dg_url := fig_src f, dg_alt := fig_alt f, dg_caption := fig_caption f, dg_credit := fig_credit f,
                          dg_wide := fig_wide f, dg_preview := (if fig_src f = [] then Idle else Loading)\<rparr>
      | Ask_Board s t c \<Rightarrow> q\<lparr>dg_url := [], dg_slug := s, dg_title := t, dg_caption := c\<rparr>
      | Ask_Video p i c \<Rightarrow> q\<lparr>dg_url := video_address p i, dg_caption := c\<rparr>)"

definition onUrl :: "url_parser \<Rightarrow> (string \<times> string) list \<Rightarrow> string \<Rightarrow> dialog \<Rightarrow> dialog" where
  "onUrl parse boards v d =
     (let d' = d\<lparr>dg_url := v\<rparr> in
      case dg_request d of
        Some (Ask_Link h a) \<Rightarrow> d'\<lparr>dg_query := (if looksLikeAddress v then [] else trim v)\<rparr>
      | Some (Ask_Image c f) \<Rightarrow>
          d'\<lparr>dg_preview := (if safeImage parse (Some (JStr (trim v))) \<noteq> None then Loading else Idle)\<rparr>
      | Some (Ask_Board s t c) \<Rightarrow>
          (case parseTacticSlug v of
             None \<Rightarrow> d'
           | Some slug \<Rightarrow> d'\<lparr>dg_slug := slug, dg_title := (case map_of boards slug of None \<Rightarrow> [] | Some ti \<Rightarrow> ti)\<rparr>)
      | _ \<Rightarrow> d')"

definition pickHit :: "string \<Rightarrow> string \<Rightarrow> string \<Rightarrow> dialog \<Rightarrow> dialog" where
  "pickHit path i name d =
     d\<lparr>dg_url := path @ i, dg_query := [], dg_text := (if dg_text d = [] then name else dg_text d)\<rparr>"

definition pickBoard :: "string \<Rightarrow> string \<Rightarrow> dialog \<Rightarrow> dialog" where
  "pickBoard slug title d = d\<lparr>dg_slug := slug, dg_title := title\<rparr>"

definition dialog_apply :: "url_parser \<Rightarrow> dialog \<Rightarrow> dialog \<times> dialog_answer option" where
  "dialog_apply parse d =
     (let d' = d\<lparr>dg_touched := True\<rparr> in
      (d', if \<not> canApply parse d then None
           else (case dg_request d of
             None \<Rightarrow> None
           | Some (Ask_Link h a) \<Rightarrow>
               Some (Got_Link (linkTarget parse d)
                 (if trim (dg_text d) = [] then trim (dg_url d) else trim (dg_text d)))
           | Some (Ask_Image c f) \<Rightarrow>
               Some (Got_Image c \<lparr>fig_src = the (imageSrc parse d), fig_alt = trim (dg_alt d), fig_caption = trim (dg_caption d),
                                 fig_credit = trim (dg_credit d), fig_wide = dg_wide d\<rparr>)
           | Some (Ask_Board s t c) \<Rightarrow> Some (Got_Board (dg_slug d) (dg_title d) (trim (dg_caption d)))
           | Some (Ask_Video p i c) \<Rightarrow>
               (case parseVideo parse (dg_url d) of
                  None \<Rightarrow> None | Some (q, j) \<Rightarrow> Some (Got_Video q j (trim (dg_caption d)))))))"

definition removeLink :: dialog_answer where
  "removeLink = Got_Link None []"

datatype dialog_event =
    Type_Url string | Type_Text string | Type_Alt string | Type_Caption string | Type_Credit string | Type_Filter string
  | Tick_Wide bool | Hit_Picked string string string | Board_Picked string string
  | Image_Loaded | Image_Failed | Applied

fun dialog_step :: "url_parser \<Rightarrow> (string \<times> string) list \<Rightarrow> dialog \<Rightarrow> dialog_event \<Rightarrow> dialog" where
  "dialog_step parse bs d (Type_Url v) = onUrl parse bs v d"
| "dialog_step parse bs d (Type_Text v) = d\<lparr>dg_text := v\<rparr>"
| "dialog_step parse bs d (Type_Alt v) = d\<lparr>dg_alt := v\<rparr>"
| "dialog_step parse bs d (Type_Caption v) = d\<lparr>dg_caption := v\<rparr>"
| "dialog_step parse bs d (Type_Credit v) = d\<lparr>dg_credit := v\<rparr>"
| "dialog_step parse bs d (Type_Filter v) = onUrl parse bs v (d\<lparr>dg_filter := v\<rparr>)"
| "dialog_step parse bs d (Tick_Wide b) = d\<lparr>dg_wide := b\<rparr>"
| "dialog_step parse bs d (Hit_Picked path i name) = pickHit path i name d"
| "dialog_step parse bs d (Board_Picked slug title) =
     (if (slug, title) \<in> set bs then pickBoard slug title d else d)"
| "dialog_step parse bs d Image_Loaded = d\<lparr>dg_preview := Ok_Image\<rparr>"
| "dialog_step parse bs d Image_Failed = d\<lparr>dg_preview := Failed_Image\<rparr>"
| "dialog_step parse bs d Applied = fst (dialog_apply parse d)"

subsection \<open>What the page does with an answer\<close>

definition figureFrom :: "dialog_answer option \<Rightarrow> figure option" where
  "figureFrom r = (case r of Some (Got_Image c f) \<Rightarrow> Some f | _ \<Rightarrow> None)"

definition tacticFrom :: "dialog_answer option \<Rightarrow> (string \<times> string \<times> string) option" where
  "tacticFrom r = (case r of Some (Got_Board s t c) \<Rightarrow> Some (s, t, c) | _ \<Rightarrow> None)"

definition videoFrom :: "dialog_answer option \<Rightarrow> (provider \<times> string \<times> string) option" where
  "videoFrom r = (case r of Some (Got_Video p i c) \<Rightarrow> Some (p, i, c) | _ \<Rightarrow> None)"

datatype insert_kind = Insert_Link | Insert_Image | Insert_Board | Insert_Video

datatype editor_command = Do_Nothing | Do_Link link_command | Do_Insert embed

text \<open>\<open>insert\<close> before and after its \<open>await\<close>: \<open>href\<close> is the link at the cursor, \<open>cursor\<close> an empty selection.\<close>

definition insert_request :: "insert_kind \<Rightarrow> string \<Rightarrow> bool \<Rightarrow> bool \<Rightarrow> dialog_request" where
  "insert_request k href cursor linked =
     (case k of
        Insert_Link \<Rightarrow> Ask_Link href (cursor \<and> \<not> linked)
      | Insert_Image \<Rightarrow> Ask_Image False BLANK_FIGURE
      | Insert_Board \<Rightarrow> Ask_Board [] [] []
      | Insert_Video \<Rightarrow> Ask_Video Youtube [] [])"

definition insert_command :: "url_parser \<Rightarrow> insert_kind \<Rightarrow> bool \<Rightarrow> dialog_answer option \<Rightarrow> editor_command" where
  "insert_command parse k cursor r =
     (case k of
        Insert_Link \<Rightarrow> (case r of Some (Got_Link h tx) \<Rightarrow> Do_Link (applyLink parse cursor h tx) | _ \<Rightarrow> Do_Nothing)
      | Insert_Image \<Rightarrow> (case figureFrom r of Some f \<Rightarrow> Do_Insert (EFigure f) | None \<Rightarrow> Do_Nothing)
      | Insert_Board \<Rightarrow> (case tacticFrom r of Some (s, t, c) \<Rightarrow> Do_Insert (EBoard s t c) | None \<Rightarrow> Do_Nothing)
      | Insert_Video \<Rightarrow> (case videoFrom r of Some (p, i, c) \<Rightarrow> Do_Insert (EVideo p i c) | None \<Rightarrow> Do_Nothing))"

definition cover_request :: "string \<times> string \<Rightarrow> dialog_request" where
  "cover_request cov = Ask_Image True (BLANK_FIGURE\<lparr>fig_src := fst cov, fig_caption := snd cov\<rparr>)"

definition cover_from :: "dialog_answer option \<Rightarrow> string \<times> string \<Rightarrow> string \<times> string" where
  "cover_from r cov =
     (case figureFrom r of None \<Rightarrow> cov | Some f \<Rightarrow> (fig_src f, join_caption (fig_caption f) (fig_credit f)))"

section \<open>What the dialog answers\<close>

fun answer_sound :: "url_parser \<Rightarrow> dialog_answer \<Rightarrow> bool" where
  "answer_sound parse (Got_Link h tx) = (case h of None \<Rightarrow> True | Some x \<Rightarrow> may_follow parse x)"
| "answer_sound parse (Got_Image c f) = sound_embed parse (EFigure f)"
| "answer_sound parse (Got_Board s t c) = sound_embed parse (EBoard s t c)"
| "answer_sound parse (Got_Video p i c) = sound_embed parse (EVideo p i c)"

definition slug_inv :: "dialog \<Rightarrow> bool" where
  "slug_inv d \<longleftrightarrow> dg_slug d = [] \<or> tactic_slug (dg_slug d)"

definition request_ok :: "dialog_request \<Rightarrow> bool" where
  "request_ok r = (case r of Ask_Board s t c \<Rightarrow> s = [] \<or> tactic_slug s | _ \<Rightarrow> True)"

lemma reset_slug: "request_ok r \<Longrightarrow> slug_inv (dialog_reset r d)"
  by (auto simp: request_ok_def slug_inv_def dialog_reset_def Let_def split: dialog_request.splits)

lemma onUrl_slug: "slug_inv d \<Longrightarrow> slug_inv (onUrl parse bs v d)"
  by (auto simp: slug_inv_def onUrl_def Let_def parseTacticSlug_sound split: option.splits dialog_request.splits)

lemma dialog_step_slug: "\<forall>(s, t) \<in> set bs. tactic_slug s \<Longrightarrow> slug_inv d \<Longrightarrow> slug_inv (dialog_step parse bs d ev)"
proof (cases ev)
  case (Type_Filter v)
  assume "slug_inv d"
  then have "slug_inv (d\<lparr>dg_filter := v\<rparr>)" by (simp add: slug_inv_def)
  then show ?thesis using Type_Filter onUrl_slug by simp
next
  case (Type_Url v)
  assume "slug_inv d"
  then show ?thesis using Type_Url onUrl_slug by simp
qed (auto simp: pickHit_def pickBoard_def dialog_apply_def slug_inv_def Let_def)

lemma dialog_steps_slug:
  "\<forall>(s, t) \<in> set bs. tactic_slug s \<Longrightarrow> slug_inv d \<Longrightarrow> slug_inv (foldl (dialog_step parse bs) d evs)"
proof (induction evs arbitrary: d)
  case (Cons ev evs)
  then show ?case using dialog_step_slug [of bs d parse ev] by simp
qed simp

lemma linkTarget_sound: "linkTarget parse d = Some x \<Longrightarrow> may_follow parse x"
  by (auto simp: linkTarget_def normaliseLink_def Let_def safeLink_str split: if_splits)

lemma apply_sound: "slug_inv d \<Longrightarrow> snd (dialog_apply parse d) = Some a \<Longrightarrow> answer_sound parse a"
  by (auto simp: dialog_apply_def Let_def canApply_def slug_inv_def imageSrc_def linkTarget_sound parseVideo_sound
      safeImage_same split: if_splits option.splits dialog_request.splits)

text \<open>
  C14. Whatever is typed, picked and pressed in the dialog, what it answers is an address a reader may follow, an image the page
  may load, a board or a video that exists as one, so that the node made of it is drawn and saved.
\<close>
theorem dialog_answers_are_sound:
  assumes "request_ok r" and "\<forall>(s, t) \<in> set bs. tactic_slug s"
    and "snd (dialog_apply parse (foldl (dialog_step parse bs) (dialog_reset r d) evs)) = Some a"
  shows "answer_sound parse a"
  using assms by (intro apply_sound [OF dialog_steps_slug [OF assms(2) reset_slug [OF assms(1)]] assms(3)])

theorem dialog_answers_are_sound_witness:
  "answer_sound (\<lambda>s. None) (Got_Board ''abcDEF234567'' ''Low block'' ''The back four'')"
proof -
  let ?d = "\<lparr>dg_request = None, dg_url = [], dg_text = [], dg_alt = [], dg_caption = [], dg_credit = [], dg_wide = False,
     dg_filter = [], dg_slug = [], dg_title = [], dg_query = [], dg_preview = Idle, dg_touched = False\<rparr>"
  let ?bs = "[(''abcDEF234567'', ''Low block'')]"
  let ?evs = "[Board_Picked ''abcDEF234567'' ''Low block'', Type_Caption ''The back four'']"
  have "snd (dialog_apply (\<lambda>s. None) (foldl (dialog_step (\<lambda>s. None) ?bs) (dialog_reset (Ask_Board [] [] []) ?d) ?evs))
      = Some (Got_Board ''abcDEF234567'' ''Low block'' ''The back four'')"
    by (simp add: dialog_reset_def pickBoard_def dialog_apply_def canApply_def Let_def trim_def is_ws_def)
  then show ?thesis
    by (rule dialog_answers_are_sound [rotated -1])
      (simp_all add: request_ok_def tactic_slug_def is_letter_def is_digit_def code_in_def)
qed

text \<open>Opening the dialog on what it made: the request the card's hook sends.\<close>

fun ask_again :: "dialog_answer \<Rightarrow> dialog_request" where
  "ask_again (Got_Link h tx) = Ask_Link (or_empty h) False"
| "ask_again (Got_Image c f) = Ask_Image c f"
| "ask_again (Got_Board s t c) = Ask_Board s t c"
| "ask_again (Got_Video p i c) = Ask_Video p i c"

definition fields_trimmed :: "dialog_answer \<Rightarrow> bool" where
  "fields_trimmed a = (case a of
     Got_Image c f \<Rightarrow> trim (fig_alt f) = fig_alt f \<and> trim (fig_caption f) = fig_caption f \<and> trim (fig_credit f) = fig_credit f
   | Got_Board s t c \<Rightarrow> trim c = c | Got_Video p i c \<Rightarrow> trim c = c | Got_Link h tx \<Rightarrow> True)"

lemma may_load_trim: "may_load parse s \<Longrightarrow> trim s = s"
  by (simp add: may_load_def)

lemma safeImage_trim: "safeImage parse (Some (JStr s)) = Some s \<Longrightarrow> trim s = s"
  using may_load_trim safeImage_Some by blast

lemma video_address_parses:
  assumes i: "video_id p i"
    and parser: "\<exists>u. parse (video_address p i) = Some u \<and> pathname u = CHR ''/'' # i
      \<and> hostname u = (case p of Youtube \<Rightarrow> ''youtu.be'' | Vimeo \<Rightarrow> ''vimeo.com'')"
  shows "parseVideo parse (video_address p i) = Some (p, i)"
proof -
  have i': "i \<noteq> []" "safe_id i" using i id_chars by (auto simp: video_id_def youtube_id_def vimeo_id_def split: provider.splits)
  have ws: "list_all (\<lambda>c. \<not> is_ws c) (video_address p i)"
    using safe_id_no_ws [OF i'(2)] by (auto simp: video_address_def is_ws_def split: provider.splits)
  have "split_on CHR ''/'' (CHR ''/'' # i) = [[], i]"
    using split_on_app [of "CHR ''/''" "[]" i] split_on_none [OF id_no_slash [OF i'(2)]] by simp
  then have "path_parts (CHR ''/'' # i) = [i]" using i' by (simp add: path_parts_def)
  with i parser ws show ?thesis
    by (cases p) (auto simp: parseVideo_def Let_def bare_host_def prefixed_def part_def video_id_def)
qed

text \<open>
  Opening an embed's card shows what the dialog made: pressing the button again without a change answers the same image,
  board or video.  The URL parser is taken to report host and path of a short video address.
\<close>
theorem dialog_reopens_what_it_made:
  assumes sound: "answer_sound parse a" and fields: "fields_trimmed a" and embed: "\<And>h tx. a \<noteq> Got_Link h tx"
    and parser: "\<And>p i. video_id p i \<Longrightarrow> \<exists>u. parse (video_address p i) = Some u \<and> pathname u = CHR ''/'' # i
      \<and> hostname u = (case p of Youtube \<Rightarrow> ''youtu.be'' | Vimeo \<Rightarrow> ''vimeo.com'')"
  shows "snd (dialog_apply parse (dialog_reset (ask_again a) d)) = Some a"
proof (cases a)
  case (Got_Link h tx)
  then show ?thesis using embed by simp
next
  case (Got_Image c f)
  then have "safeImage parse (Some (JStr (fig_src f))) = Some (fig_src f)" "trim (fig_src f) = fig_src f"
    using sound safeImage_trim by simp_all
  with Got_Image fields show ?thesis
    by (simp add: dialog_apply_def dialog_reset_def canApply_def imageSrc_def fields_trimmed_def Let_def)
next
  case (Got_Board s t c)
  then have "s \<noteq> []" using sound by (auto simp: tactic_slug_def)
  with Got_Board fields show ?thesis
    by (simp add: dialog_apply_def dialog_reset_def canApply_def fields_trimmed_def Let_def)
next
  case (Got_Video p i c)
  then have i: "video_id p i" using sound by simp
  from video_address_parses [where parse = parse, OF i parser [OF i]] Got_Video fields show ?thesis
    by (simp add: dialog_apply_def dialog_reset_def canApply_def fields_trimmed_def Let_def)
qed

text \<open>
  A single word is searched for and called no address, and yet the button takes it: pressing Enter before picking a result
  links to a site of that name.
\<close>
theorem searched_word_becomes_a_site:
  assumes w: "w \<noteq> []" "2 \<le> length w" "length w \<le> 2000" "\<forall>c \<in> set w. is_letter c"
    and parser: "parse (''https://'' @ w) = Some u" "protocol u = ''https:''" "host u \<noteq> []"
  shows "let d = onUrl parse bs w (dialog_reset (Ask_Link [] True) d0) in
      \<not> looksLikeAddress w \<and> hits_query d = Some w \<and> dialog_error parse d = None
      \<and> snd (dialog_apply parse d) = Some (Got_Link (Some (''https://'' @ w)) w)"
proof -
  have ws: "list_all (\<lambda>c. \<not> is_ws c) w" using w(4) is_letter_not_ws by (auto simp: list_all_iff)
  then have t: "trim w = w" by simp
  have no: "\<not> is_letter (CHR ''.'')" "\<not> is_letter (CHR ''/'')" "\<not> is_letter (CHR '':'')" "\<not> is_letter (CHR ''@'')"
    by (simp_all add: is_letter_def code_in_def)
  then have out: "CHR ''.'' \<notin> set w" "CHR ''/'' \<notin> set w" "CHR '':'' \<notin> set w" "CHR ''@'' \<notin> set w" using w(4) by blast+
  then have l: "\<not> looksLikeAddress w" by (auto simp: looksLikeAddress_def t list_ex_iff)
  have slash: "\<not> prefixed ''/'' w" using out(2) w(1) by (cases w) (auto simp: prefixed_def)
  have scheme: "\<not> has_scheme w"
  proof -
    have "set (dropWhile scheme_char w) \<subseteq> set w" by (auto dest: set_dropWhileD)
    then show ?thesis using out(3) by (cases "dropWhile scheme_char w") (auto simp: has_scheme_def prefixed_def simp del: dropWhile_eq_Nil_conv)
  qed
  have mail: "\<not> is_email w" by (simp add: is_email_def split_on_none [OF out(4)])
  have "may_follow parse (''https://'' @ w)"
    using ws w(3) parser by (auto simp: may_follow_def MAX_URL_def is_ws_def web_address_def prefixed_def)
  then have n: "normaliseLink parse w = Some (''https://'' @ w)"
    using w(1) t slash scheme mail by (simp add: normaliseLink_def safeLink_str Let_def)
  show ?thesis using l n t w(1,2)
    by (simp add: Let_def onUrl_def dialog_reset_def hits_query_def dialog_error_def dialog_apply_def canApply_def linkTarget_def)
qed

definition one_site :: url_parser where
  "one_site s = (if s = ''https://messi''
     then Some \<lparr>protocol = ''https:'', host = ''messi'', hostname = ''messi'', pathname = ''/'', param_v = None\<rparr> else None)"

definition closed_dialog :: dialog where
  "closed_dialog = \<lparr>dg_request = None, dg_url = [], dg_text = [], dg_alt = [], dg_caption = [], dg_credit = [], dg_wide = False,
     dg_filter = [], dg_slug = [], dg_title = [], dg_query = [], dg_preview = Idle, dg_touched = False\<rparr>"

theorem searched_word_becomes_a_site_witness:
  "snd (dialog_apply one_site (onUrl one_site [] ''messi'' (dialog_reset (Ask_Link [] True) closed_dialog)))
     = Some (Got_Link (Some ''https://messi'') ''messi'')"
  using searched_word_becomes_a_site [of "''messi''" one_site "the (one_site ''https://messi'')" "[]" closed_dialog]
  by (simp add: one_site_def is_letter_def code_in_def Let_def)

text \<open>The cover: its caption and credit are kept as one line, and opening it again and pressing the button changes nothing.\<close>

lemma trim_join_caption: "trim (join_caption (trim a) (trim b)) = join_caption (trim a) (trim b)"
proof (cases "trim a = [] \<or> trim b = []")
  case False
  let ?m = "[CHR '' '', CHR 0xB7, CHR '' '']"
  have j: "join_caption (trim a) (trim b) = trim a @ ?m @ trim b" using False by (simp add: join_caption_def)
  have "\<not> is_ws (hd (trim a @ ?m @ trim b))" "\<not> is_ws (last (trim a @ ?m @ trim b))"
    using False trim_trimmed [of a] trim_trimmed [of b] by auto
  then show ?thesis unfolding j by (intro trim_ends) simp_all
qed (auto simp: join_caption_def)

theorem cover_stays_when_reopened:
  assumes "snd (dialog_apply parse d) = Some (Got_Image k f)"
  shows "let cov = cover_from (Some (Got_Image k f)) old in
    cov = (fig_src f, join_caption (fig_caption f) (fig_credit f))
    \<and> cover_from (snd (dialog_apply parse (dialog_reset (cover_request cov) d'))) cov = cov"
proof -
  let ?c = "join_caption (fig_caption f) (fig_credit f)"
  have "safeImage parse (Some (JStr (trim (dg_url d)))) = Some (fig_src f)"
      "fig_caption f = trim (dg_caption d)" "fig_credit f = trim (dg_credit d)"
    using assms by (auto simp: dialog_apply_def Let_def canApply_def imageSrc_def split: if_splits option.splits dialog_request.splits)
  then have "safeImage parse (Some (JStr (trim (fig_src f)))) = Some (fig_src f)" "trim ?c = ?c"
    using safeImage_same safeImage_trim by (metis, metis trim_join_caption)
  then show ?thesis
    by (simp add: dialog_apply_def dialog_reset_def canApply_def imageSrc_def cover_request_def cover_from_def
        figureFrom_def BLANK_FIGURE_def Let_def) (simp add: join_caption_def)
qed

text \<open>
  \<open>ask\<close> and \<open>onDialog\<close>: the page's one dialog is asked for by promises, numbered here in the order they are made; one that
  is pending when another asks is answered with nothing.
\<close>

record dialog_host =
  ht_request :: "dialog_request option"
  ht_waiting :: "nat option"
  ht_next :: nat
  ht_answered :: "(nat \<times> dialog_answer option) list"

definition new_host :: dialog_host where
  "new_host = \<lparr>ht_request = None, ht_waiting = None, ht_next = 0, ht_answered = []\<rparr>"

definition settle_ask :: "dialog_answer option \<Rightarrow> dialog_host \<Rightarrow> (nat \<times> dialog_answer option) list" where
  "settle_ask a h = (case ht_waiting h of None \<Rightarrow> ht_answered h | Some k \<Rightarrow> ht_answered h @ [(k, a)])"

definition ask :: "dialog_request \<Rightarrow> dialog_host \<Rightarrow> dialog_host" where
  "ask r h = h\<lparr>ht_answered := settle_ask None h, ht_request := Some r, ht_waiting := Some (ht_next h), ht_next := ht_next h + 1\<rparr>"

definition onDialog :: "dialog_answer option \<Rightarrow> dialog_host \<Rightarrow> dialog_host" where
  "onDialog a h = h\<lparr>ht_waiting := None, ht_request := None, ht_answered := settle_ask a h\<rparr>"

datatype host_event = Asked dialog_request | Answered "dialog_answer option"

fun host_step :: "dialog_host \<Rightarrow> host_event \<Rightarrow> dialog_host" where
  "host_step h (Asked r) = ask r h"
| "host_step h (Answered a) = onDialog a h"

definition host_inv :: "dialog_host \<Rightarrow> bool" where
  "host_inv h \<longleftrightarrow> map fst (ht_answered h) @ (case ht_waiting h of None \<Rightarrow> [] | Some k \<Rightarrow> [k]) = [0..<ht_next h]
     \<and> (ht_request h = None \<longleftrightarrow> ht_waiting h = None)"

lemma host_step_inv: "host_inv h \<Longrightarrow> host_inv (host_step h ev)"
  by (cases ev) (auto simp: host_inv_def ask_def onDialog_def settle_ask_def split: option.splits)

text \<open>Every promise is answered once, in the order they were made, but the last while its dialog is open.\<close>
theorem every_ask_is_answered_once:
  "let h = foldl host_step new_host evs in
     map fst (ht_answered h) = [0..<(if ht_request h = None then ht_next h else ht_next h - 1)]"
proof -
  have "host_inv h \<Longrightarrow> host_inv (foldl host_step h evs)" for h
    by (induction evs arbitrary: h) (simp_all add: host_step_inv)
  then have "host_inv (foldl host_step new_host evs)" by (simp add: host_inv_def new_host_def)
  then show ?thesis by (cases "ht_next (foldl host_step new_host evs)") (auto simp: host_inv_def Let_def split: option.splits)
qed

section \<open>The toolbar\<close>

text \<open>\<open>active\<close> is the editor's \<open>isActive\<close>, with the level of a heading; no editor is \<open>None\<close>.\<close>

record toolbar =
  tb_block :: string
  tb_marks :: "(string \<times> bool) list"
  tb_link :: bool
  tb_bullets :: bool
  tb_numbers :: bool
  tb_quote :: bool

definition MARKS :: "(string \<times> string) list" where
  "MARKS = [(''bold'', ''Bold (Ctrl+B)''), (''italic'', ''Italic (Ctrl+I)''), (''underline'', ''Underline (Ctrl+U)''),
     (''strike'', ''Strikethrough'')]"

definition toolbar_state :: "(string \<Rightarrow> nat option \<Rightarrow> bool) option \<Rightarrow> toolbar" where
  "toolbar_state e =
     (case e of
        None \<Rightarrow> \<lparr>tb_block = ''paragraph'', tb_marks = map (\<lambda>(m, l). (m, False)) MARKS, tb_link = False, tb_bullets = False,
                 tb_numbers = False, tb_quote = False\<rparr>
      | Some active \<Rightarrow>
          \<lparr>tb_block = (if active ''heading'' (Some 2) then ''h2'' else if active ''heading'' (Some 3) then ''h3''
                      else if active ''heading'' (Some 4) then ''h4'' else ''paragraph''),
           tb_marks = map (\<lambda>(m, l). (m, active m None)) MARKS, tb_link = active ''link'' None,
           tb_bullets = active ''bulletList'' None, tb_numbers = active ''orderedList'' None,
           tb_quote = active ''blockquote'' None\<rparr>)"

definition setBlock :: "string \<Rightarrow> nat option" where
  "setBlock b = (if b = ''paragraph'' then None else if b = ''h2'' then Some 2 else if b = ''h3'' then Some 3 else Some 4)"

section \<open>The article page\<close>

definition contents :: "unicode \<Rightarrow> (json \<Rightarrow> real option) \<Rightarrow> doc_node \<Rightarrow> outline_entry list" where
  "contents u num doc =
     (let es = filter (\<lambda>e. entry_level e = Some 2) (map snd (outline u num doc)) in if length es \<ge> 3 then es else [])"

definition more_articles :: "string \<Rightarrow> string list \<Rightarrow> string list" where
  "more_articles slug items = take 3 (filter (\<lambda>s. s \<noteq> slug) items)"

definition reader_may_edit :: "(string \<times> bool) option \<Rightarrow> string \<Rightarrow> bool" where
  "reader_may_edit me author = (case me of None \<Rightarrow> False | Some (i, admin) \<Rightarrow> admin \<or> author = i)"

definition updatedLater :: "(string \<Rightarrow> real option) \<Rightarrow> string \<Rightarrow> string option \<Rightarrow> bool" where
  "updatedLater date updated published =
     (case published of
        None \<Rightarrow> False
      | Some p \<Rightarrow> p \<noteq> [] \<and> (case (date updated, date p) of (Some t, Some t') \<Rightarrow> t - t' > 24 * 3600 * 1000 | _ \<Rightarrow> False))"

definition read_progress :: "real \<Rightarrow> real \<Rightarrow> real \<Rightarrow> real" where
  "read_progress height client off = (let m = height - client in if m > 0 then min 1 (off / m) else 0)"

lemma outline_drawn:
  assumes "(k, e) \<in> set (outline u num doc)"
  shows "\<exists>l hs. Heading l (Some (entry_id e)) hs \<in> set (article_body u parse num failed doc)"
proof -
  have pos: "map fst (outline u num doc) = filter (\<lambda>i. anchored (content doc ! i)) [0..<length (content doc)]"
    by (simp add: outline_def outline_positions)
  have "k \<in> set (map fst (outline u num doc))" using assms by force
  then have k: "k < length (content doc)" "anchored (content doc ! k)" unfolding pos by simp_all
  have "distinct (map fst (outline u num doc))" by (simp add: pos)
  then have "anchor_of (outline u num doc) k = Some (entry_id e)"
    using assms by (simp add: anchor_of_def)
  moreover obtain as ns ms tx where "content doc ! k = Doc_Node ''heading'' as ns ms tx"
    using k(2) by (cases "content doc ! k") (simp add: anchored_def)
  ultimately have "Heading (heading_level (content doc ! k)) (Some (entry_id e)) (inline parse (content (content doc ! k)))
      \<in> set (block parse num failed (anchor_of (outline u num doc) k) (content doc ! k))" by simp
  moreover have "(k, content doc ! k) \<in> set (enumerate 0 (content doc))" using k(1) by (simp add: in_set_enumerate_eq)
  ultimately show ?thesis unfolding article_body_def by fastforce
qed

text \<open>Every line of the contents list leads to a heading of the page, and a list shorter than three is not shown.\<close>
theorem contents_lead_to_headings:
  "(contents u num doc = [] \<or> length (contents u num doc) \<ge> 3)
    \<and> (\<forall>e \<in> set (contents u num doc). \<exists>l hs. Heading l (Some (entry_id e)) hs \<in> set (article_body u parse num failed doc))"
proof -
  have "\<exists>l hs. Heading l (Some (entry_id e)) hs \<in> set (article_body u parse num failed doc)"
    if "e \<in> set (contents u num doc)" for e
    using that outline_drawn [of _ e u num doc] by (auto simp: contents_def Let_def split: if_splits)
  moreover have "contents u num doc = [] \<or> length (contents u num doc) \<ge> 3" by (simp add: contents_def Let_def)
  ultimately show ?thesis by blast
qed

theorem contents_lead_to_headings_witness:
  "length (contents ascii (\<lambda>j. None) (Doc_Node ''doc'' []
     [mk_block ''heading'' ''One'', mk_block ''heading'' ''Two'', mk_block ''heading'' ''Three''] [] [])) = 3"
proof -
  let ?d = "Doc_Node ''doc'' [] [mk_block ''heading'' ''One'', mk_block ''heading'' ''Two'', mk_block ''heading'' ''Three''] [] []"
  have "contents ascii (\<lambda>j. None) ?d \<noteq> []" "length (contents ascii (\<lambda>j. None) ?d) \<le> 3" by code_simp+
  with contents_lead_to_headings [of ascii "\<lambda>j. None" ?d] show ?thesis by auto
qed

text \<open>The articles suggested below never name the one being read, and are three when the service sends its four.\<close>
theorem more_articles_are_others:
  assumes "distinct items"
  shows "slug \<notin> set (more_articles slug items) \<and> distinct (more_articles slug items)
    \<and> (length items = 4 \<longrightarrow> length (more_articles slug items) = 3)"
proof -
  have "filter (\<lambda>s. s \<noteq> slug) items = remove1 slug items"
    using assms by (simp add: distinct_remove1_removeAll removeAll_filter_not_eq) (metis)
  then have "length items = 4 \<longrightarrow> length (filter (\<lambda>s. s \<noteq> slug) items) \<ge> 3" by (simp add: length_remove1)
  then show ?thesis using assms by (auto simp: more_articles_def dest: in_set_takeD)
qed

end
