(* ===== verification/Board_Tools.thy ===== *)
theory Board_Tools
  imports Editor_Store "HOL-Library.Sublist"
begin

text \<open>
  The controls around a board: the tool palette (\<open>features/tactics/editor/tool-palette.ts\<close>), the inspector's view of the
  selection (\<open>inspector.ts\<close>), the playback bar (\<open>ui/playback-bar.ts\<close>) and the page that shows a board
  (\<open>viewer/tactics-viewer.ts\<close>) with \<open>recordVideo\<close> of \<open>player.ts\<close>.  Time passes in ticks, the waits of the recorder
  are the steps between which they come.
\<close>

section \<open>The tool palette\<close>

definition EQUIPMENT :: "(equipment_kind \<times> string) list" where
  "EQUIPMENT =
     [(Ball, ''Ball''), (Cone, ''Cone''), (Disc, ''Disc marker''), (Pole, ''Pole''), (Mannequin, ''Mannequin''),
      (Hurdle, ''Hurdle''), (Ladder, ''Speed ladder''), (Ring, ''Ring''), (Minigoal, ''Mini goal''), (Goal, ''Full-size goal''),
      (Popup, ''Pop-up goal''), (Flag, ''Flag'')]"

text \<open>What a button does, with the key it is lit by: \<open>player:team:gk\<close>, \<open>place:kind\<close>, \<open>arrow:style\<close> or \<open>draw:kind\<close>.\<close>

datatype tool_key = Key_Select | Key_Player team_id bool | Key_Place equipment_kind | Key_Arrow stroke_style | Key_Draw drawing_kind

definition active :: "editor \<Rightarrow> tool_key" where
  "active s =
     (case tool s of
        SelectTool \<Rightarrow> Key_Select
      | PlaceTool \<Rightarrow> (case placing s of PlacePlayer t k \<Rightarrow> Key_Player t (k = Some True) | PlaceEquip e \<Rightarrow> Key_Place e)
      | DrawTool k \<Rightarrow> if k = Arrow then Key_Arrow (pen_style (pen s)) else Key_Draw k)"

datatype pen_patch = Pen_Color string | Pen_Style stroke_style | Pen_Width real

fun patch_pen :: "pen_patch \<Rightarrow> pen \<Rightarrow> pen" where
  "patch_pen (Pen_Color c) p = p\<lparr>pen_color := c\<rparr>"
| "patch_pen (Pen_Style st) p = p\<lparr>pen_style := st\<rparr>"
| "patch_pen (Pen_Width w) p = p\<lparr>pen_width := w\<rparr>"

text \<open>A colour or a width is also meant for the drawing selected; the empty colour and no width are not.\<close>

fun restyles :: "pen_patch \<Rightarrow> drawing_patch option" where
  "restyles (Pen_Color c) = (if c = [] then None else Some (DColor (Some c)))"
| "restyles (Pen_Style st) = None"
| "restyles (Pen_Width w) = (if w = 0 then None else Some (DWidth (Some w)))"

definition setPen :: "pen_patch \<Rightarrow> editor \<Rightarrow> js_error + editor" where
  "setPen q s =
     (let s1 = s\<lparr>pen := patch_pen q (pen s)\<rparr> in
      case selectedDrawing s1 of
        Inl e \<Rightarrow> Inl e
      | Inr None \<Rightarrow> Inr s1
      | Inr (Some d) \<Rightarrow> (case restyles q of None \<Rightarrow> Inr s1 | Some dp \<Rightarrow> Inr (updateDrawing (drawing_id d) [dp] s1)))"

definition pick_select :: "editor \<Rightarrow> editor" where
  "pick_select s = s\<lparr>tool := SelectTool\<rparr>"

definition placeThing :: "placeable \<Rightarrow> editor \<Rightarrow> editor" where
  "placeThing p s = s\<lparr>placing := p, tool := PlaceTool, selection := None\<rparr>"

definition drawTool :: "drawing_kind \<Rightarrow> stroke_style option \<Rightarrow> editor \<Rightarrow> js_error + editor" where
  "drawTool k st s =
     (let set = (case st of Some x \<Rightarrow> setPen (Pen_Style x) s
                 | None \<Rightarrow> if k = Line \<or> k = Pen then setPen (Pen_Style SolidStroke) s else Inr s) in
      case set of Inl e \<Rightarrow> Inl e | Inr s1 \<Rightarrow> Inr (s1\<lparr>tool := DrawTool k, selection := None\<rparr>))"

text \<open>The players offered: three teams, and a goalkeeper for two of them.\<close>

definition team_buttons :: "tactic_doc \<Rightarrow> (tool_key \<times> string \<times> string \<times> string \<times> placeable) list" where
  "team_buttons doc =
     map (\<lambda>t. let k = teams doc t in
       (Key_Player t False, kit_name k @ '' player'', kit_name k, primary k, PlacePlayer t None)) [Home, Away, Third]
     @ map (\<lambda>t. let k = teams doc t in
       (Key_Player t True, kit_name k @ '' goalkeeper'', kit_name k @ '' GK'', kit_keeper k, PlacePlayer t (Some True))) [Home, Away]"

definition draw_buttons :: "(tool_key \<times> string \<times> drawing_kind \<times> stroke_style option) list" where
  "draw_buttons =
     [(Key_Arrow SolidStroke, ''Run (solid arrow)'', Arrow, Some SolidStroke),
      (Key_Arrow Dashed, ''Pass (dashed arrow)'', Arrow, Some Dashed),
      (Key_Arrow Wavy, ''Dribble (wavy arrow)'', Arrow, Some Wavy),
      (Key_Draw Line, ''Line'', Line, None), (Key_Draw Pen, ''Freehand pen'', Pen, None),
      (Key_Draw Rect, ''Rectangle zone'', Rect, None), (Key_Draw Ellipse, ''Circle zone'', Ellipse, None),
      (Key_Draw Polygon, ''Shape zone: click points, click the first again to close'', Polygon, None),
      (Key_Draw TextLabel, ''Text'', TextLabel, None)]"

text \<open>Every button of the palette: the key it is lit by and what its click does.\<close>

definition palette :: "tactic_doc \<Rightarrow> (tool_key \<times> (editor \<Rightarrow> js_error + editor)) list" where
  "palette doc =
     (Key_Select, \<lambda>s. Inr (pick_select s))
     # map (\<lambda>(k, l, sh, c, p). (k, \<lambda>s. Inr (placeThing p s))) (team_buttons doc)
     @ map (\<lambda>(e, l). (Key_Place e, \<lambda>s. Inr (placeThing (PlaceEquip e) s))) EQUIPMENT
     @ map (\<lambda>(k, l, d, st). (k, drawTool d st)) draw_buttons"

lemma setPen_style: "setPen (Pen_Style st) s = Inr s' \<Longrightarrow> s' = s\<lparr>pen := (pen s)\<lparr>pen_style := st\<rparr>\<rparr>"
  by (auto simp: setPen_def Let_def split: sum.splits option.splits)

text \<open>The keys differ, and a click lights its own button and, but for \<open>Select\<close>, drops the selection; nothing of the board changes.\<close>
theorem one_button_is_lit:
  "distinct (map fst (palette doc))
    \<and> (\<forall>(k, pick) \<in> set (palette doc). \<forall>s s'. pick s = Inr s' \<longrightarrow>
         active s' = k \<and> sdoc s' = sdoc s \<and> undoStack s' = undoStack s \<and> (selection s' = None \<or> k = Key_Select))"
proof
  show "distinct (map fst (palette doc))"
    by (simp add: palette_def team_buttons_def draw_buttons_def EQUIPMENT_def Let_def)
  have place: "active (placeThing p s) = (case p of PlacePlayer t k \<Rightarrow> Key_Player t (k = Some True) | PlaceEquip e \<Rightarrow> Key_Place e)"
      "sdoc (placeThing p s) = sdoc s" "undoStack (placeThing p s) = undoStack s" "selection (placeThing p s) = None" for p s
    by (simp_all add: placeThing_def active_def)
  have draw: "active s' = (if k = Arrow then Key_Arrow (case st of Some x \<Rightarrow> x | None \<Rightarrow> pen_style (pen s)) else Key_Draw k)
      \<and> sdoc s' = sdoc s \<and> undoStack s' = undoStack s \<and> selection s' = None" if "drawTool k st s = Inr s'" for k st s s'
    using that by (auto simp: drawTool_def Let_def active_def dest!: setPen_style split: option.splits sum.splits if_splits)
  show "\<forall>(k, pick) \<in> set (palette doc). \<forall>s s'. pick s = Inr s' \<longrightarrow>
      active s' = k \<and> sdoc s' = sdoc s \<and> undoStack s' = undoStack s \<and> (selection s' = None \<or> k = Key_Select)"
    unfolding palette_def team_buttons_def draw_buttons_def EQUIPMENT_def
    by (simp add: Let_def place) (auto simp: pick_select_def active_def dest!: draw)
qed

text \<open>Picking a colour or a width while a drawing is selected restyles that drawing and no other.\<close>
theorem pen_restyles_the_selection:
  assumes "selectedDrawing s = Inr (Some d)" "restyles q = Some dp" "nth_opt (steps (sdoc s)) (stepIndex s) = Some st"
  shows "\<exists>s'. setPen q s = Inr s' \<and> pen s' = patch_pen q (pen s)
    \<and> (\<exists>st'. nth_opt (steps (sdoc s')) (stepIndex s') = Some st'
        \<and> drawings st' = map (\<lambda>x. if drawing_id x = drawing_id d then clean_drawing (patch_drawing x dp) else x) (drawings st))"
proof -
  have "selectedDrawing (s\<lparr>pen := patch_pen q (pen s)\<rparr>) = Inr (Some d)"
    using assms(1) by (simp add: selectedDrawing_def cur_step_def cong: option.case_cong target.case_cong)
  then have s': "setPen q s = Inr (updateDrawing (drawing_id d) [dp] (s\<lparr>pen := patch_pen q (pen s)\<rparr>))"
    using assms(2) by (simp add: setPen_def Let_def)
  have k: "0 \<le> stepIndex s" "nat (stepIndex s) < length (steps (sdoc s))" "steps (sdoc s) ! nat (stepIndex s) = st"
    using assms(3) by (auto simp: nth_opt_def split: if_splits)
  show ?thesis
    unfolding s' using k
    by (simp add: updateDrawing_def apply_doc_def withCurrentStep_def withStep_def modify_at_def nth_opt_def)
qed

section \<open>The inspector\<close>

definition ROTATABLE :: "equipment_kind list" where
  "ROTATABLE = [Goal, Minigoal, Popup, Mannequin, Hurdle, Ladder, Flag]"

definition shown_look :: "editor \<Rightarrow> look option" where
  "shown_look s =
     (case selectedObject s of
        Some ob \<Rightarrow> if kind ob = PlayerKind then Some (playerLook (sdoc s) ob) else None | None \<Rightarrow> None)"

definition rotatable :: "editor \<Rightarrow> bool" where
  "rotatable s \<longleftrightarrow>
     (case selectedObject s of Some ob \<Rightarrow> (case kind ob of Equip e \<Rightarrow> e \<in> set ROTATABLE | PlayerKind \<Rightarrow> False) | None \<Rightarrow> False)"

text \<open>The flags of the step in hand read it as \<open>store.step()\<close> does, and raise where a board has no step.\<close>

definition flag_of :: "(step \<Rightarrow> ident \<Rightarrow> bool) \<Rightarrow> editor \<Rightarrow> js_error + bool" where
  "flag_of f s =
     (case selectedObject s of
        None \<Rightarrow> Inr False
      | Some ob \<Rightarrow> (case cur_step s of None \<Rightarrow> Inl TypeError | Some st \<Rightarrow> Inr (f st (obj_id ob))))"

definition inAir :: "editor \<Rightarrow> js_error + bool" where
  "inAir = flag_of (\<lambda>st i. includes_opt (air st) i)"

definition highlighted :: "editor \<Rightarrow> js_error + bool" where
  "highlighted = flag_of (\<lambda>st i. includes_opt (highlight st) i)"

definition bent :: "editor \<Rightarrow> js_error + bool" where
  "bent = flag_of (\<lambda>st i. lookup_opt (bend st) i \<noteq> None)"

definition isZone :: "drawing option \<Rightarrow> bool" where
  "isZone d \<longleftrightarrow> (case d of Some x \<Rightarrow> drawing_kind x \<in> {Rect, Ellipse, Polygon} | None \<Rightarrow> False)"

definition isLine :: "drawing option \<Rightarrow> bool" where
  "isLine d \<longleftrightarrow> (case d of Some x \<Rightarrow> drawing_kind x \<in> {Arrow, Line, Pen} | None \<Rightarrow> False)"

definition setPattern :: "kit_pattern option \<Rightarrow> editor \<Rightarrow> editor" where
  "setPattern v s = (case selectedObject s of Some ob \<Rightarrow> updateObject (obj_id ob) [PPattern v] s | None \<Rightarrow> s)"

text \<open>The effect that opens a fresh label: whether the field takes the focus, and the store after it.\<close>

definition focus_effect :: "bool \<Rightarrow> drawing option \<Rightarrow> editor \<Rightarrow> bool \<times> editor" where
  "focus_effect field d s =
     (case focusText s of
        None \<Rightarrow> (False, s)
      | Some i \<Rightarrow> if i \<noteq> [] \<and> field \<and> (case d of Some x \<Rightarrow> drawing_id x = i | None \<Rightarrow> False)
                  then (True, s\<lparr>focusText := None\<rparr>) else (False, s))"

text \<open>
  Toggling the spotlight or the loft of a selected piece turns exactly that flag around, as the inspector shows it, and
  straightening takes the bend away.
\<close>
theorem inspector_toggles:
  assumes "selectedObject s = Some ob" "nth_opt (steps (sdoc s)) (stepIndex s) = Some st"
  shows "highlighted (toggleIn HighlightList (obj_id ob) s) = map_sum id Not (highlighted s)
    \<and> inAir (toggleIn HighlightList (obj_id ob) s) = inAir s
    \<and> inAir (toggleIn AirList (obj_id ob) s) = map_sum id Not (inAir s)
    \<and> bent (straighten (obj_id ob) s) = Inr False"
proof -
  have k: "0 \<le> stepIndex s" "nat (stepIndex s) < length (steps (sdoc s))" "steps (sdoc s) ! nat (stepIndex s) = st"
    using assms(2) by (auto simp: nth_opt_def split: if_splits)
  have sel: "selectedObject s' = Some ob" if "selection s' = selection s" "objects (sdoc s') = objects (sdoc s)" for s'
    using assms(1) that by (simp add: selectedObject_def cong: option.case_cong target.case_cong)
  have now: "cur_step s = Some st" using assms(2) by (simp add: cur_step_def)
  let ?c = "\<lambda>f. apply_doc (withCurrentStep s f) Once s"
  have at: "selectedObject (?c f) = Some ob" "cur_step (?c f) = Some (f st)" for f
  proof -
    show "selectedObject (?c f) = Some ob"
      by (rule sel) (simp_all add: apply_doc_def withCurrentStep_def withStep_def)
    show "cur_step (?c f) = Some (f st)"
      using k by (auto simp: cur_step_def nth_opt_def apply_doc_def withCurrentStep_def withStep_def modify_at_def)
  qed
  have in_toggle: "includes_opt (toggle_id i l) i = (\<not> includes_opt l i)" for i l
    by (auto simp: includes_opt_def toggle_id_def list_or_empty_def Let_def split: option.splits)
  show ?thesis
    using at now assms(1) in_toggle
    by (simp add: highlighted_def inAir_def bent_def flag_of_def toggleIn_def straighten_def lookup_opt_def)
qed

section \<open>The playback bar\<close>

definition hasMotion :: "timeline \<Rightarrow> bool" where
  "hasMotion line \<longleftrightarrow> length (stepStarts line) > 1"

definition onStepStart :: "timeline \<Rightarrow> board_player \<Rightarrow> bool" where
  "onStepStart line b \<longleftrightarrow>
     (let i = stepAtTime line (ptime b); st = (if i < length (stepStarts line) then stepStarts line ! i else 0) in
      \<bar>ptime b - st\<bar> < 5 / 100)"

definition track_pct :: "timeline \<Rightarrow> real \<Rightarrow> real" where
  "track_pct line t = (if total line = 0 then 0 else t / total line * 100)"

definition press_prev :: "timeline \<Rightarrow> board_player \<Rightarrow> board_player" where
  "press_prev line b =
     seekStep line (int (stepAtTime line (ptime b)) - (if onStepStart line b then 1 else 0)) (pause b)"

definition press_next :: "timeline \<Rightarrow> board_player \<Rightarrow> board_player" where
  "press_next line b = seekStep line (int (stepAtTime line (ptime b)) + 1) (pause b)"

definition scrub :: "timeline \<Rightarrow> real \<Rightarrow> board_player \<Rightarrow> board_player" where
  "scrub line t b = seek line t (pause b)"

text \<open>
  The buttons of the bar: next goes to the step after, and stays on the last one; previous goes to the start of the step when
  the clock is inside it and to the step before when it is on its start; both leave the clock paused.
\<close>
theorem bar_moves_by_steps:
  fixes doc :: tactic_doc
  defines "line \<equiv> timeline doc"
  assumes "steps doc \<noteq> []" "stepAtTime line (ptime b) < length (steps doc)"
  shows "stepAtTime line (ptime (press_next line b)) = min (length (steps doc) - 1) (stepAtTime line (ptime b) + 1)
    \<and> stepAtTime line (ptime (press_prev line b)) = stepAtTime line (ptime b) - (if onStepStart line b then 1 else 0)
    \<and> \<not> playing (press_next line b) \<and> \<not> playing (press_prev line b)"
proof -
  have n: "length (stepStarts (timeline doc)) = length (steps doc)" by (simp add: timeline_closed)
  have clamp: "seekStep line i b' = seekStep line (int (nat (max 0 (min (int (length (steps doc)) - 1) i)))) b'" for i b'
    using assms(2) by (simp add: seekStep_def line_def n Let_def)
  have to: "stepAtTime line (ptime (seekStep line i b')) = nat (max 0 (min (int (length (steps doc)) - 1) i))" for i b'
  proof -
    have "nat (max 0 (min (int (length (steps doc)) - 1) i)) < length (steps doc)"
      using assms(2) by (cases "steps doc") auto
    then show ?thesis unfolding clamp [of i] using stepAtTime_seekStep line_def by blast
  qed
  have "\<not> playing (press_next line b)" "\<not> playing (press_prev line b)"
    by (simp_all add: press_next_def press_prev_def seekStep_def seek_def pause_def Let_def)
  then show ?thesis using assms(3) by (auto simp: press_next_def press_prev_def to)
qed

section \<open>The viewer\<close>

record viewer =
  vw_line :: timeline
  vw_clock :: board_player
  vw_started :: bool
  vw_flat :: bool
  vw_recording :: bool
  vw_loop_before :: bool
  vw_armed :: bool

definition new_viewer :: "timeline \<Rightarrow> viewer" where
  "new_viewer line = \<lparr>vw_line = line, vw_clock = new_player, vw_started = False, vw_flat = False, vw_recording = False,
     vw_loop_before = False, vw_armed = False\<rparr>"

definition isOwner :: "string option \<Rightarrow> string option \<Rightarrow> bool" where
  "isOwner owner me \<longleftrightarrow> owner \<noteq> None \<and> owner = me"

text \<open>The effect on a document: a fresh board starts on its first step; and the one that notes a start.\<close>

definition doc_shown :: "timeline \<Rightarrow> viewer \<Rightarrow> viewer" where
  "doc_shown line v = v\<lparr>vw_line := line, vw_clock := (pause (vw_clock v))\<lparr>ptime := 0\<rparr>\<rparr>"

definition started_effect :: "viewer \<Rightarrow> viewer" where
  "started_effect v = (if playing (vw_clock v) then v\<lparr>vw_started := True\<rparr> else v)"

definition viewer_start :: "viewer \<Rightarrow> viewer" where
  "viewer_start v = v\<lparr>vw_started := True, vw_clock := restart (vw_clock v)\<rparr>"

definition viewer_key :: "bool \<Rightarrow> string \<Rightarrow> viewer \<Rightarrow> viewer" where
  "viewer_key on_control key v =
     (if on_control then v
      else if key = '' '' then v\<lparr>vw_started := True, vw_clock := toggle (vw_line v) (vw_clock v)\<rparr>
      else if key = ''ArrowRight''
      then v\<lparr>vw_clock := seekStep (vw_line v) (int (stepAtTime (vw_line v) (ptime (vw_clock v))) + 1) (pause (vw_clock v))\<rparr>
      else if key = ''ArrowLeft''
      then v\<lparr>vw_clock := seekStep (vw_line v) (int (stepAtTime (vw_line v) (ptime (vw_clock v))) - 1) (pause (vw_clock v))\<rparr>
      else v)"

text \<open>
  \<open>recordVideo\<close> around its waits: the clock is set back and the lead-in begins; the recorder listens for the end and the
  board plays; the end of the play-through stops the recorder, and the loop is as it was.
\<close>

definition record_begin :: "viewer \<Rightarrow> viewer" where
  "record_begin v =
     (if vw_recording v then v
      else v\<lparr>vw_recording := True, vw_started := True, vw_loop_before := looping (vw_clock v),
             vw_clock := (vw_clock v)\<lparr>looping := False, ptime := 0\<rparr>\<rparr>)"

definition record_play :: "viewer \<Rightarrow> viewer" where
  "record_play v = v\<lparr>vw_armed := True, vw_clock := play (vw_line v) (vw_clock v)\<rparr>"

definition record_end :: "viewer \<Rightarrow> viewer" where
  "record_end v = v\<lparr>vw_armed := False, vw_recording := False, vw_clock := (vw_clock v)\<lparr>looping := vw_loop_before v\<rparr>\<rparr>"

text \<open>A tick; the recording ends with the play-through it listens to.\<close>

definition viewer_tick :: "real \<Rightarrow> viewer \<Rightarrow> viewer" where
  "viewer_tick dt v =
     (let b = tick (vw_line v) dt (vw_clock v); v' = v\<lparr>vw_clock := b\<rparr> in
      if vw_armed v \<and> playing (vw_clock v) \<and> \<not> playing b then record_end v' else v')"

definition videoExtension :: "string \<Rightarrow> string" where
  "videoExtension mime = (if sublist ''mp4'' mime then ''mp4'' else ''webm'')"

lemma viewer_paused: "\<not> playing (vw_clock v) \<Longrightarrow> (viewer_tick dt ^^ n) v = v"
  by (induction n) (simp_all add: viewer_tick_def tick_def)

text \<open>
  While a video is recording the bar is locked, but the keys are not: the space bar pauses the clock, and from then on the
  recording never ends by itself.
\<close>
theorem key_stops_the_recording:
  assumes "vw_recording v" "playing (vw_clock v)"
  shows "vw_recording ((viewer_tick dt ^^ n) (viewer_key False '' '' v)) \<and> \<not> playing (vw_clock ((viewer_tick dt ^^ n) (viewer_key False '' '' v)))"
proof -
  have "\<not> playing (vw_clock (viewer_key False '' '' v))" "vw_recording (viewer_key False '' '' v)"
    using assms by (simp_all add: viewer_key_def toggle_def pause_def)
  then show ?thesis by (simp add: viewer_paused)
qed

text \<open>
  The lead-in is there so that a video does not open mid-movement; a board that plays when the recording is asked for keeps
  playing through it, and the recorded play-through starts from where the lead-in has got to.
\<close>
theorem recording_opens_mid_movement:
  assumes "\<not> vw_recording v" "playing (vw_clock v)" "speed (vw_clock v) > 0" "4 / 10 * speed (vw_clock v) + 1 / 10 ^ 3 < total (vw_line v)"
  shows "ptime (vw_clock (record_play (viewer_tick (4 / 10) (record_begin v)))) = 4 / 10 * speed (vw_clock v)"
  using assms by (simp add: record_begin_def viewer_tick_def record_play_def tick_def play_def atEnd_def Let_def)

text \<open>C27. Left alone a recording ends: the play-through reaches the end of the board, the video is done and the loop is as it was.\<close>
theorem recording_ends:
  fixes v :: viewer and dt :: real
  defines "w \<equiv> record_play (record_begin v)"
  assumes v: "\<not> vw_recording v" "speed (vw_clock v) > 0" "dt > 0" "total (vw_line v) \<ge> 0" "\<not> vw_armed v"
  shows "\<exists>n. \<not> vw_recording ((viewer_tick dt ^^ n) w) \<and> looping (vw_clock ((viewer_tick dt ^^ n) w)) = looping (vw_clock v)
    \<and> ptime (vw_clock ((viewer_tick dt ^^ n) w)) = total (vw_line v)"
proof -
  let ?s = "dt * speed (vw_clock v)" and ?T = "total (vw_line v)"
  define u where "u k = v\<lparr>vw_recording := True, vw_started := True, vw_loop_before := looping (vw_clock v), vw_armed := True,
      vw_clock := (vw_clock v)\<lparr>looping := False, ptime := real k * ?s, playing := True\<rparr>\<rparr>" for k
  have w: "w = u 0"
    using v by (simp add: w_def record_play_def record_begin_def play_def u_def)
  have next_: "viewer_tick dt (u k) = u (Suc k)" if "real (Suc k) * ?s < ?T" for k
    using that by (simp add: u_def viewer_tick_def tick_def Let_def algebra_simps)
  have run: "(viewer_tick dt ^^ k) w = u k" if "real k * ?s < ?T \<or> k = 0" for k
    using that
  proof (induction k)
    case (Suc k)
    have "real k * ?s < ?T \<or> k = 0"
      using Suc.prems v by (auto simp: algebra_simps intro: le_less_trans [rotated] mult_pos_pos add_pos_nonneg)
    with Suc next_ [of k] show ?case by simp
  qed (simp add: w)
  have "?s > 0" using v by simp
  then obtain m where "?T < real m * ?s" using ex_less_of_nat_mult [of ?s ?T] by auto
  then have m: "real m * ?s \<ge> ?T" by (rule less_imp_le)
  define n where "n = (LEAST n. real (Suc n) * ?s \<ge> ?T)"
  have "real (Suc m) * ?s \<ge> ?T" using m \<open>?s > 0\<close> by (simp add: algebra_simps)
  then have n: "real (Suc n) * ?s \<ge> ?T" unfolding n_def by (rule LeastI)
  have "real n * ?s < ?T \<or> n = 0"
  proof (cases n)
    case (Suc k)
    then have "\<not> real (Suc k) * ?s \<ge> ?T" using not_less_Least [of k "\<lambda>n. real (Suc n) * ?s \<ge> ?T"] by (simp add: n_def)
    then show ?thesis using Suc by simp
  qed simp
  then have "(viewer_tick dt ^^ Suc n) w = viewer_tick dt (u n)" using run by simp
  also have "\<dots> = record_end ((u n)\<lparr>vw_clock := (vw_clock (u n))\<lparr>ptime := ?T, endedAt := ?T, playing := False\<rparr>\<rparr>)"
    using n by (simp add: u_def viewer_tick_def tick_def Let_def algebra_simps)
  finally show ?thesis by (intro exI [of _ "Suc n"]) (simp add: record_end_def u_def)
qed

theorem recording_ends_witness:
  "\<exists>n. \<not> vw_recording ((viewer_tick 1 ^^ n) (record_play (record_begin (new_viewer \<lparr>segments = [], total = 3, stepStarts = [0]\<rparr>))))"
proof -
  let ?v = "new_viewer \<lparr>segments = [], total = 3, stepStarts = [0]\<rparr>"
  have "\<not> vw_recording ?v" "speed (vw_clock ?v) > 0" "(1 :: real) > 0" "total (vw_line ?v) \<ge> 0" "\<not> vw_armed ?v"
    by (simp_all add: new_viewer_def new_player_def)
  from recording_ends [OF this] show ?thesis by blast
qed

theorem key_stops_the_recording_witness:
  "vw_recording ((viewer_tick 1 ^^ 9) (viewer_key False '' ''
     (record_play (record_begin (new_viewer \<lparr>segments = [], total = 3, stepStarts = [0]\<rparr>)))))"
  using key_stops_the_recording [of "record_play (record_begin (new_viewer \<lparr>segments = [], total = 3, stepStarts = [0]\<rparr>))" 9 1]
  by (simp add: record_play_def record_begin_def new_viewer_def new_player_def play_def atEnd_def)

end
