(* ===== verification/Shared_Ui.thy ===== *)
theory Shared_Ui
  imports Article_Tools Board_Tools Board_Scene
begin

text \<open>
  The small pieces of interface that keep state: the confirmation dialog (\<open>shared/ui/confirm-dialog.ts\<close>) as a transition
  system over the clicks, the Escape key and the queued \<open>close\<close> events of the browser; the skeleton of a loading list
  (\<open>shared/ui/states.ts\<close>); the two hosts that load a heavy module before they show anything
  (\<open>features/articles/editor/article-canvas.ts\<close> and \<open>features/tactics/board/board-view.ts\<close>); what an article embeds for
  its reader (\<open>articles/doc/video-embed.ts\<close>, \<open>tactic-embed.ts\<close>), the card of an article (\<open>articles/ui/article-card.ts\<close>)
  and the badge of a team (\<open>games/played-for-both/components/team-emblem.component.ts\<close>).
\<close>

section \<open>The confirmation dialog\<close>

text \<open>
  The model \<open>open\<close>, what the native element shows, the \<open>close\<close> events the browser still has to deliver, whether the
  effect has to run because \<open>open\<close> was changed, and how often \<open>confirmed\<close> was emitted.
\<close>

record confirm_dialog =
  cd_open :: bool
  cd_shown :: bool
  cd_closing :: nat
  cd_changed :: bool
  cd_confirmed :: nat

definition new_confirm :: confirm_dialog where
  "new_confirm = \<lparr>cd_open = False, cd_shown = False, cd_closing = 0, cd_changed = False, cd_confirmed = 0\<rparr>"

text \<open>\<open>this.open.set(v)\<close>: a signal wakes its effects only when its value changes.\<close>

definition set_open :: "bool \<Rightarrow> confirm_dialog \<Rightarrow> confirm_dialog" where
  "set_open v d = d\<lparr>cd_open := v, cd_changed := cd_changed d \<or> cd_open d \<noteq> v\<rparr>"

text \<open>\<open>showModal()\<close> raises on an open dialog; \<open>close()\<close> queues a \<open>close\<close> event.\<close>

definition showModal :: "confirm_dialog \<Rightarrow> confirm_dialog option" where
  "showModal d = (if cd_shown d then None else Some (d\<lparr>cd_shown := True\<rparr>))"

definition close_element :: "confirm_dialog \<Rightarrow> confirm_dialog" where
  "close_element d = d\<lparr>cd_shown := False, cd_closing := Suc (cd_closing d)\<rparr>"

definition open_effect :: "confirm_dialog \<Rightarrow> confirm_dialog option" where
  "open_effect d =
     (let d = d\<lparr>cd_changed := False\<rparr> in
      if cd_open d \<and> \<not> cd_shown d then showModal d
      else if \<not> cd_open d \<and> cd_shown d then Some (close_element d)
      else Some d)"

definition accept_pressed :: "confirm_dialog \<Rightarrow> confirm_dialog" where
  "accept_pressed d = (set_open False d)\<lparr>cd_confirmed := Suc (cd_confirmed d)\<rparr>"

definition cancel_pressed :: "confirm_dialog \<Rightarrow> confirm_dialog" where
  "cancel_pressed d = set_open False d"

definition dismiss :: "confirm_dialog \<Rightarrow> confirm_dialog" where
  "dismiss d = set_open False d"

text \<open>A click that reaches the dialog; its target is the dialog element itself only on the backdrop.\<close>

definition onBackdropClick :: "bool \<Rightarrow> confirm_dialog \<Rightarrow> confirm_dialog" where
  "onBackdropClick on_backdrop d = (if on_backdrop then cancel_pressed d else d)"

datatype confirm_event =
  Parent_sets bool | Accept_click | Cancel_click | Backdrop_click | Panel_click | Escape_key | Close_event | Effect_run

text \<open>
  One event.  The buttons, the backdrop and the Escape key reach a dialog only while it is shown; a click inside the panel
  is stopped there; Escape closes the element in the browser; the effect runs when \<open>open\<close> was changed.
\<close>

fun confirm_step :: "confirm_dialog \<Rightarrow> confirm_event \<Rightarrow> confirm_dialog option" where
  "confirm_step d (Parent_sets v) = Some (set_open v d)"
| "confirm_step d Accept_click = Some (if cd_shown d then accept_pressed d else d)"
| "confirm_step d Cancel_click = Some (if cd_shown d then cancel_pressed d else d)"
| "confirm_step d Backdrop_click = Some (if cd_shown d then onBackdropClick True d else d)"
| "confirm_step d Panel_click = Some d"
| "confirm_step d Escape_key = Some (if cd_shown d then close_element d else d)"
| "confirm_step d Close_event =
     Some (if cd_closing d = 0 then d else dismiss (d\<lparr>cd_closing := cd_closing d - 1\<rparr>))"
| "confirm_step d Effect_run = (if cd_changed d then open_effect d else Some d)"

fun confirm_run :: "confirm_dialog \<Rightarrow> confirm_event list \<Rightarrow> confirm_dialog option" where
  "confirm_run d [] = Some d"
| "confirm_run d (e # es) = Option.bind (confirm_step d e) (\<lambda>d'. confirm_run d' es)"

text \<open>What holds between any two events: a dialog whose effect has run agrees with its element, but for a close on its way.\<close>

definition confirm_sound :: "confirm_dialog \<Rightarrow> bool" where
  "confirm_sound d \<longleftrightarrow> cd_changed d \<or> (cd_shown d \<longrightarrow> cd_open d) \<and> (cd_open d \<and> \<not> cd_shown d \<longrightarrow> 0 < cd_closing d)"

lemmas confirm_defs = set_open_def showModal_def close_element_def open_effect_def accept_pressed_def cancel_pressed_def
  dismiss_def onBackdropClick_def confirm_sound_def

lemma confirm_step_sound:
  assumes "confirm_sound d"
  shows "\<exists>d'. confirm_step d e = Some d' \<and> confirm_sound d'"
  using assms by (cases e) (auto simp: confirm_defs Let_def)

lemma confirm_run_sound:
  "confirm_sound d \<Longrightarrow> \<exists>d'. confirm_run d es = Some d' \<and> confirm_sound d'"
proof (induction es arbitrary: d)
  case Nil
  then show ?case by simp
next
  case (Cons e es)
  obtain d' where d': "confirm_step d e = Some d'" "confirm_sound d'"
    using confirm_step_sound [OF Cons.prems] by blast
  with Cons.IH [of d'] show ?case by auto
qed

lemma new_confirm_sound: "confirm_sound new_confirm"
  by (simp add: confirm_sound_def new_confirm_def)

lemma confirm_run_append:
  "confirm_run d (es @ fs) = Option.bind (confirm_run d es) (\<lambda>d'. confirm_run d' fs)"
proof (induction es arbitrary: d)
  case (Cons e es)
  then show ?case by (cases "confirm_step d e") simp_all
qed simp

text \<open>
  The dialog never asks the browser for what it refuses, in any order of clicks, keys and late events; and when nothing is
  on its way any more, the element shows exactly what the model says, so asking again opens it.
\<close>
lemma quiet_dialog_agrees: "confirm_sound d \<Longrightarrow> \<not> cd_changed d \<Longrightarrow> cd_closing d = 0 \<Longrightarrow> cd_shown d = cd_open d"
  by (auto simp: confirm_sound_def)

lemma asking_opens:
  assumes "cd_shown d = cd_open d"
  shows "\<exists>d'. confirm_run d [Parent_sets True, Effect_run] = Some d' \<and> cd_shown d'"
  using assms by (cases "cd_open d"; cases "cd_changed d") (simp_all add: confirm_defs Let_def)

theorem dialog_can_be_opened_again:
  "\<exists>d. confirm_run new_confirm es = Some d
     \<and> (\<not> cd_changed d \<and> cd_closing d = 0 \<longrightarrow> cd_shown d = cd_open d
         \<and> (\<exists>d'. confirm_run d [Parent_sets True, Effect_run] = Some d' \<and> cd_shown d'))"
proof -
  obtain d where d: "confirm_run new_confirm es = Some d" "confirm_sound d"
    using confirm_run_sound [OF new_confirm_sound] by blast
  have "\<not> cd_changed d \<and> cd_closing d = 0 \<longrightarrow> cd_shown d = cd_open d
      \<and> (\<exists>d'. confirm_run d [Parent_sets True, Effect_run] = Some d' \<and> cd_shown d')"
  proof
    assume "\<not> cd_changed d \<and> cd_closing d = 0"
    then have "cd_shown d = cd_open d" by (elim conjE) (rule quiet_dialog_agrees [OF d(2)])
    with asking_opens [OF this] show "cd_shown d = cd_open d
      \<and> (\<exists>d'. confirm_run d [Parent_sets True, Effect_run] = Some d' \<and> cd_shown d')" by (intro conjI)
  qed
  with d(1) show ?thesis by (intro exI conjI)
qed

theorem dialog_can_be_opened_again_witness:
  "\<exists>d. confirm_run new_confirm [Parent_sets True, Effect_run, Escape_key, Close_event, Effect_run] = Some d \<and> cd_shown d = cd_open d"
proof -
  let ?es = "[Parent_sets True, Effect_run, Escape_key, Close_event, Effect_run]"
  obtain d where d: "confirm_run new_confirm ?es = Some d" "\<not> cd_changed d \<and> cd_closing d = 0 \<longrightarrow> cd_shown d = cd_open d"
    using dialog_can_be_opened_again [of ?es] by (elim exE conjE) (simp del: confirm_run.simps)
  have "\<not> cd_changed d \<and> cd_closing d = 0" using d(1) by (auto simp: confirm_defs new_confirm_def Let_def)
  with d show ?thesis by blast
qed

text \<open>Only the confirm button confirms: Escape, the backdrop, the cancel button and the parent never do.\<close>

lemma confirm_step_confirmed:
  "confirm_step d e = Some d' \<Longrightarrow>
   cd_confirmed d' = cd_confirmed d + (if e = Accept_click \<and> cd_shown d then 1 else 0)"
  by (cases e) (auto simp: confirm_defs Let_def split: if_splits)

theorem only_the_button_confirms:
  "Accept_click \<notin> set es \<Longrightarrow> confirm_run d es = Some d' \<Longrightarrow> cd_confirmed d' = cd_confirmed d"
proof (induction es arbitrary: d)
  case Nil
  then show ?case by simp
next
  case (Cons e es)
  then obtain d1 where d1: "confirm_step d e = Some d1" "confirm_run d1 es = Some d'"
    by (auto split: Option.bind_splits)
  with Cons confirm_step_confirmed [OF d1(1)] show ?case by auto
qed

theorem only_the_button_confirms_witness:
  "\<exists>d. confirm_run new_confirm [Parent_sets True, Effect_run, Escape_key, Close_event] = Some d \<and> cd_confirmed d = 0"
proof -
  obtain d where d: "confirm_run new_confirm [Parent_sets True, Effect_run, Escape_key, Close_event] = Some d"
    using confirm_run_sound [OF new_confirm_sound] by blast
  with only_the_button_confirms [of "[Parent_sets True, Effect_run, Escape_key, Close_event]" new_confirm d]
  show ?thesis by (auto simp: new_confirm_def)
qed

text \<open>
  A user's events, each followed by the effect it wakes: then one opening confirms at most once.
\<close>

fun settle :: "confirm_event list \<Rightarrow> confirm_event list" where
  "settle [] = []"
| "settle (e # es) = e # Effect_run # settle es"

definition opens :: "confirm_event list \<Rightarrow> nat" where
  "opens es = length (filter (\<lambda>e. e = Parent_sets True) es)"

definition confirm_budget :: "confirm_dialog \<Rightarrow> nat" where
  "confirm_budget d = cd_confirmed d + (if cd_shown d then 1 else 0)"

lemma settled_step_budget:
  assumes "confirm_sound d" "\<not> cd_changed d"
  shows "\<exists>d'. confirm_run d [e, Effect_run] = Some d' \<and> confirm_sound d' \<and> \<not> cd_changed d'
    \<and> confirm_budget d' \<le> confirm_budget d + (if e = Parent_sets True then 1 else 0)"
  using assms by (cases e) (auto simp: confirm_defs confirm_budget_def Let_def)

lemma settled_run_budget:
  "confirm_sound d \<Longrightarrow> \<not> cd_changed d \<Longrightarrow>
   \<exists>d'. confirm_run d (settle es) = Some d' \<and> confirm_budget d' \<le> confirm_budget d + opens es"
proof (induction es arbitrary: d)
  case Nil
  then show ?case by (simp add: opens_def)
next
  case (Cons e es)
  obtain d1 where d1: "confirm_run d [e, Effect_run] = Some d1" "confirm_sound d1" "\<not> cd_changed d1"
      "confirm_budget d1 \<le> confirm_budget d + (if e = Parent_sets True then 1 else 0)"
    using settled_step_budget [OF Cons.prems] by blast
  obtain d' where d': "confirm_run d1 (settle es) = Some d'" "confirm_budget d' \<le> confirm_budget d1 + opens es"
    using Cons.IH [OF d1(2,3)] by blast
  have "settle (e # es) = [e, Effect_run] @ settle es" by simp
  then have "confirm_run d (settle (e # es)) = Some d'"
    using d1(1) d'(1) by (simp only: confirm_run_append Option.bind.bind_lunit)
  with d1(4) d'(2) show ?case by (auto simp: opens_def)
qed

theorem one_confirmation_per_opening:
  "\<exists>d. confirm_run new_confirm (settle es) = Some d \<and> cd_confirmed d \<le> opens es"
proof -
  obtain d where "confirm_run new_confirm (settle es) = Some d" "confirm_budget d \<le> confirm_budget new_confirm + opens es"
    using settled_run_budget [of new_confirm es] by (auto simp: new_confirm_def confirm_sound_def)
  then show ?thesis by (auto simp: confirm_budget_def new_confirm_def)
qed

text \<open>Before the effect has closed the element a second click on the button confirms a second time.\<close>

lemma double_click_confirms_twice:
  "map_option cd_confirmed (confirm_run new_confirm [Parent_sets True, Effect_run, Accept_click, Accept_click]) = Some 2"
  by (simp add: confirm_defs new_confirm_def Let_def)

section \<open>The skeleton of a list\<close>

text \<open>\<open>Array.from({length: n})\<close> makes no entry for a negative length.\<close>

definition BAR_WIDTHS :: "nat list" where
  "BAR_WIDTHS = [100, 82, 91, 68, 95, 76]"

definition bars :: "int \<Rightarrow> nat list" where
  "bars lines = map (\<lambda>i. BAR_WIDTHS ! (i mod length BAR_WIDTHS)) [0..<nat lines]"

lemma bars_are_percentages:
  "length (bars n) = nat n \<and> (\<forall>w\<in>set (bars n). w \<in> set BAR_WIDTHS)"
  by (auto simp: bars_def BAR_WIDTHS_def intro!: nth_mem simp del: set_simps)

section \<open>Hosts that load before they show\<close>

text \<open>
  A host imports its module once after it is rendered, and may be destroyed before the import answers.  The contract: a
  destroyed host stays destroyed and starts nothing, and destroying frees what was started.
\<close>

locale lazy_host =
  fixes load :: "'o \<Rightarrow> 's \<Rightarrow> 's"
    and destroy :: "'s \<Rightarrow> 's"
    and gone :: "'s \<Rightarrow> bool"
    and alive :: "'s \<Rightarrow> nat"
    and ok :: "'s \<Rightarrow> bool"
  assumes load_ok: "ok s \<Longrightarrow> ok (load r s)"
    and destroy_ok: "ok s \<Longrightarrow> ok (destroy s)"
    and alive_one: "ok s \<Longrightarrow> alive s \<le> 1"
    and alive_gone: "ok s \<Longrightarrow> gone s \<Longrightarrow> alive s = 0"
    and load_gone: "gone (load r s) = gone s"
    and destroy_gone: "gone (destroy s)"
begin

definition lazy_step :: "'s \<Rightarrow> 'o option \<Rightarrow> 's" where
  "lazy_step s e = (case e of Some r \<Rightarrow> load r s | None \<Rightarrow> destroy s)"

lemma run_ok: "ok s \<Longrightarrow> ok (foldl lazy_step s es)"
  by (induction es arbitrary: s) (auto simp: lazy_step_def load_ok destroy_ok split: option.splits)

lemma run_gone: "gone s \<Longrightarrow> gone (foldl lazy_step s es)"
  by (induction es arbitrary: s) (auto simp: lazy_step_def load_gone destroy_gone split: option.splits)

lemma one_at_most: "ok s \<Longrightarrow> alive (foldl lazy_step s es) \<le> 1"
  by (intro alive_one run_ok)

lemma nothing_left_behind:
  assumes "ok s"
  shows "alive (foldl lazy_step s (es @ None # fs)) = 0"
proof -
  have "ok (foldl lazy_step s (es @ None # fs))" by (rule run_ok [OF assms])
  moreover have "gone (foldl lazy_step s (es @ None # fs))"
    by (simp add: lazy_step_def [of _ None]) (intro run_gone destroy_gone)
  ultimately show ?thesis by (rule alive_gone)
qed

end

text \<open>The canvas of the article editor: its editor with whether it is editable, and the input it mirrors.\<close>

record article_canvas =
  ac_loaded :: bool
  ac_gone :: bool
  ac_editor :: "bool option"
  ac_editable :: bool
  ac_version :: nat
  ac_made :: nat
  ac_freed :: nat

definition new_canvas :: "bool \<Rightarrow> article_canvas" where
  "new_canvas editable = \<lparr>ac_loaded = False, ac_gone = False, ac_editor = None, ac_editable = editable, ac_version = 0,
     ac_made = 0, ac_freed = 0\<rparr>"

definition canvas_load :: "unit \<Rightarrow> article_canvas \<Rightarrow> article_canvas" where
  "canvas_load u c =
     (if ac_loaded c then c
      else if ac_gone c then c\<lparr>ac_loaded := True\<rparr>
      else c\<lparr>ac_loaded := True, ac_editor := Some (ac_editable c), ac_made := Suc (ac_made c)\<rparr>)"

definition canvas_destroy :: "article_canvas \<Rightarrow> article_canvas" where
  "canvas_destroy c =
     (if ac_gone c then c
      else c\<lparr>ac_gone := True, ac_freed := ac_freed c + (if ac_editor c = None then 0 else 1)\<rparr>)"

definition canvas_effect :: "article_canvas \<Rightarrow> article_canvas" where
  "canvas_effect c =
     (case ac_editor c of
        Some e \<Rightarrow> if e \<noteq> ac_editable c then c\<lparr>ac_editor := Some (ac_editable c)\<rparr> else c
      | None \<Rightarrow> c)"

definition canvas_transaction :: "article_canvas \<Rightarrow> article_canvas" where
  "canvas_transaction c = c\<lparr>ac_version := ac_version c + 1\<rparr>"

definition canvas_booting :: "article_canvas \<Rightarrow> bool" where
  "canvas_booting c \<longleftrightarrow> ac_editor c = None"

definition canvas_alive :: "article_canvas \<Rightarrow> nat" where
  "canvas_alive c = ac_made c - ac_freed c"

definition canvas_ok :: "article_canvas \<Rightarrow> bool" where
  "canvas_ok c \<longleftrightarrow> ac_made c = ac_freed c + (if ac_editor c \<noteq> None \<and> \<not> ac_gone c then 1 else 0)
     \<and> (\<not> ac_loaded c \<longrightarrow> ac_editor c = None)"

interpretation canvas: lazy_host canvas_load canvas_destroy ac_gone canvas_alive canvas_ok
  by unfold_locales (auto simp: canvas_load_def canvas_destroy_def canvas_alive_def canvas_ok_def)

lemma canvas_mirrors_input: "ac_editor (canvas_effect c) \<noteq> None \<Longrightarrow> ac_editor (canvas_effect c) = Some (ac_editable c)"
  by (auto simp: canvas_effect_def split: option.splits if_splits)

text \<open>The host of a board: the module or the engine may fail.\<close>

datatype board_start = Import_Fails | Engine_Fails | Engine_Starts

record board_host =
  bh_loaded :: bool
  bh_gone :: bool
  bh_engine :: bool
  bh_ready :: bool
  bh_failed :: bool
  bh_made :: nat
  bh_freed :: nat

definition new_board_host :: board_host where
  "new_board_host = \<lparr>bh_loaded = False, bh_gone = False, bh_engine = False, bh_ready = False, bh_failed = False,
     bh_made = 0, bh_freed = 0\<rparr>"

definition board_load :: "board_start \<Rightarrow> board_host \<Rightarrow> board_host" where
  "board_load r h =
     (if bh_loaded h then h
      else let h = h\<lparr>bh_loaded := True\<rparr> in
        if r = Import_Fails then h\<lparr>bh_failed := True\<rparr>
        else if bh_gone h then h
        else if r = Engine_Fails then h\<lparr>bh_failed := True\<rparr>
        else h\<lparr>bh_engine := True, bh_ready := True, bh_made := Suc (bh_made h)\<rparr>)"

definition board_destroy :: "board_host \<Rightarrow> board_host" where
  "board_destroy h =
     (if bh_gone h then h
      else h\<lparr>bh_gone := True, bh_engine := False, bh_freed := bh_freed h + (if bh_engine h then 1 else 0)\<rparr>)"

datatype board_message = Needs_WebGL | Setting_Out

definition board_fallback :: "board_host \<Rightarrow> board_message option" where
  "board_fallback h = (if bh_failed h then Some Needs_WebGL else if \<not> bh_ready h then Some Setting_Out else None)"

definition board_alive :: "board_host \<Rightarrow> nat" where
  "board_alive h = bh_made h - bh_freed h"

definition board_ok :: "board_host \<Rightarrow> bool" where
  "board_ok h \<longleftrightarrow> bh_made h = bh_freed h + (if bh_engine h then 1 else 0) \<and> (bh_engine h \<longrightarrow> bh_ready h)
     \<and> (bh_gone h \<longrightarrow> \<not> bh_engine h) \<and> (bh_ready h \<longrightarrow> \<not> bh_failed h \<and> (bh_engine h \<or> bh_gone h))
     \<and> (\<not> bh_loaded h \<longrightarrow> \<not> bh_ready h \<and> \<not> bh_failed h)"

interpretation board_host: lazy_host board_load board_destroy bh_gone board_alive board_ok
  by unfold_locales (auto simp: board_load_def board_destroy_def board_alive_def board_ok_def Let_def)

text \<open>What becomes of a host: the import answers in one of its ways, or the page is left.\<close>

definition board_run :: "board_start option list \<Rightarrow> board_host" where
  "board_run es = foldl (\<lambda>h e. case e of Some r \<Rightarrow> board_load r h | None \<Rightarrow> board_destroy h) new_board_host es"

definition canvas_run :: "bool \<Rightarrow> unit option list \<Rightarrow> article_canvas" where
  "canvas_run editable es = foldl (\<lambda>c e. case e of Some u \<Rightarrow> canvas_load u c | None \<Rightarrow> canvas_destroy c) (new_canvas editable) es"

lemma board_run_steps: "board_run es = foldl board_host.lazy_step new_board_host es"
  by (simp add: board_run_def board_host.lazy_step_def [abs_def])

lemma canvas_run_steps: "canvas_run editable es = foldl canvas.lazy_step (new_canvas editable) es"
  by (simp add: canvas_run_def canvas.lazy_step_def [abs_def])

lemma new_board_ok: "board_ok new_board_host"
  by (simp add: board_ok_def new_board_host_def)

lemma board_run_ok: "board_ok (board_run es)"
  unfolding board_run_steps by (rule board_host.run_ok [OF new_board_ok])

text \<open>
  C39. However the import, the engine and the reader's leaving are ordered: at most one engine runs, none is left once the page is
  gone, and a page that stays shows a board exactly when its engine runs.
\<close>
theorem board_host_leaves_nothing:
  "board_alive (board_run (es @ None # fs)) = 0 \<and> board_alive (board_run es) \<le> 1
    \<and> (\<not> bh_gone (board_run es) \<longrightarrow> (board_fallback (board_run es) = None) = (board_alive (board_run es) = 1))"
proof -
  have "\<not> bh_gone (board_run es) \<longrightarrow> (board_fallback (board_run es) = None) = (board_alive (board_run es) = 1)"
    using board_run_ok [of es] by (auto simp: board_ok_def board_fallback_def board_alive_def)
  moreover have "board_alive (board_run (es @ None # fs)) = 0"
    unfolding board_run_steps by (rule board_host.nothing_left_behind [OF new_board_ok])
  moreover have "board_alive (board_run es) \<le> 1"
    unfolding board_run_steps by (rule board_host.one_at_most [OF new_board_ok])
  ultimately show ?thesis by blast
qed

theorem board_host_leaves_nothing_witness:
  "board_alive (board_run [Some Engine_Starts]) = 1 \<and> board_alive (board_run [Some Engine_Starts, None]) = 0"
  using board_host_leaves_nothing [of "[Some Engine_Starts]" "[]"]
  by (simp add: board_run_def board_load_def new_board_host_def board_fallback_def)

theorem canvas_leaves_nothing:
  "canvas_alive (canvas_run e (es @ None # fs)) = 0"
  unfolding canvas_run_steps by (rule canvas.nothing_left_behind) (simp add: canvas_ok_def new_canvas_def)

section \<open>What an article embeds\<close>

text \<open>A video: its poster until it is played, then the player, from the address rebuilt out of provider and id.\<close>

datatype video_shown = Player string string | Poster "string option" string string

definition video_frame :: "provider \<Rightarrow> string \<Rightarrow> string \<Rightarrow> bool \<Rightarrow> video_shown" where
  "video_frame p i cap started =
     (case videoEmbedUrl p i of
        Some src \<Rightarrow> if started then Player src (if cap = [] then ''Video'' else cap) else Poster (videoPoster p i)
          (''Play video'' @ (if cap = [] then [] else '': '' @ cap)) (if p = Youtube then ''YouTube'' else ''Vimeo'')
      | None \<Rightarrow> Poster (videoPoster p i)
          (''Play video'' @ (if cap = [] then [] else '': '' @ cap)) (if p = Youtube then ''YouTube'' else ''Vimeo''))"

text \<open>The addresses a frame makes the browser ask.\<close>

fun frame_loads :: "video_shown \<Rightarrow> string list" where
  "frame_loads (Player src t) = [src]"
| "frame_loads (Poster p l v) = (case p of Some src \<Rightarrow> [src] | None \<Rightarrow> [])"

lemma video_waits_for_a_press:
  "set (frame_loads (video_frame p i cap started)) \<subseteq>
     (if started then set_option (videoEmbedUrl p i) else set_option (videoPoster p i))"
  by (auto simp: video_frame_def videoEmbedUrl_def videoPoster_def split: option.splits if_splits)

text \<open>
  Nothing of a player is asked for before the press; what is asked for is one of three sites of the two providers, whatever
  was stored.
\<close>
theorem video_loads_from_its_provider:
  assumes "u \<in> set (frame_loads (video_frame p i cap started))"
  shows "prefix ''https://i.ytimg.com/vi/'' u \<and> \<not> started
    \<or> (prefix ''https://www.youtube-nocookie.com/embed/'' u \<or> prefix ''https://player.vimeo.com/video/'' u) \<and> started"
  using subsetD [OF video_waits_for_a_press assms]
  by (auto simp: videoEmbedUrl_def videoPoster_def split: if_splits)

theorem video_loads_from_its_provider_witness:
  "prefix ''https://i.ytimg.com/vi/'' ''https://i.ytimg.com/vi/abcdefghijk/hqdefault.jpg''"
  using video_loads_from_its_provider
    [of "''https://i.ytimg.com/vi/abcdefghijk/hqdefault.jpg''" Youtube "''abcdefghijk''" "[]" False]
  by (simp add: video_frame_def videoEmbedUrl_def videoPoster_def youtube_id_def is_letter_def code_in_def)

text \<open>A board: its clock, whether it was started, and the camera the reader picked.\<close>

record board_embed_state =
  be_clock :: board_player
  be_started :: bool
  be_flat :: bool
  be_view :: camera_view

definition new_embed :: board_embed_state where
  "new_embed = \<lparr>be_clock = new_player, be_started = False, be_flat = False, be_view = TacticalView\<rparr>"

definition EMBED_VIEWS :: "camera_view list" where
  "EMBED_VIEWS = [TopView, TacticalView, BroadcastView]"

definition embed_start :: "board_embed_state \<Rightarrow> board_embed_state" where
  "embed_start b = b\<lparr>be_started := True, be_clock := restart (be_clock b)\<rparr>"

definition embed_replay :: "board_embed_state \<Rightarrow> board_embed_state" where
  "embed_replay b = b\<lparr>be_clock := restart (be_clock b)\<rparr>"

definition embed_tick :: "timeline \<Rightarrow> real \<Rightarrow> board_embed_state \<Rightarrow> board_embed_state" where
  "embed_tick line dt b = b\<lparr>be_clock := tick line dt (be_clock b)\<rparr>"

definition embed_bar :: "(board_player \<Rightarrow> board_player) \<Rightarrow> board_embed_state \<Rightarrow> board_embed_state" where
  "embed_bar f b = b\<lparr>be_clock := f (be_clock b)\<rparr>"

definition pick_view :: "camera_view \<Rightarrow> board_embed_state \<Rightarrow> board_embed_state" where
  "pick_view v b = b\<lparr>be_view := v\<rparr>"

definition flip_flat :: "board_embed_state \<Rightarrow> board_embed_state" where
  "flip_flat b = b\<lparr>be_flat := \<not> be_flat b\<rparr>"

text \<open>The effect of the constructor, and the offers of the stage over a document of \<open>n\<close> steps.\<close>

definition embed_effect :: "board_embed_state \<Rightarrow> board_embed_state" where
  "embed_effect b = (if playing (be_clock b) then b\<lparr>be_started := True\<rparr> else b)"

definition big_play :: "nat \<Rightarrow> board_embed_state \<Rightarrow> bool" where
  "big_play n b \<longleftrightarrow> \<not> be_started b \<and> 1 < n"

definition watch_again :: "board_embed_state \<Rightarrow> bool" where
  "watch_again b \<longleftrightarrow> finished (be_clock b)"

definition view_buttons :: "board_embed_state \<Rightarrow> (camera_view \<times> bool) list" where
  "view_buttons b = (if be_flat b then [] else map (\<lambda>v. (v, be_view b = v)) EMBED_VIEWS)"

lemma one_view_is_lit:
  "be_view b \<in> set EMBED_VIEWS \<Longrightarrow> \<not> be_flat b \<Longrightarrow> map fst (filter snd (view_buttons b)) = [be_view b]"
  by (auto simp: view_buttons_def EMBED_VIEWS_def)

datatype embed_action = Big_Play | Replay | Advance real | Bar "board_player \<Rightarrow> board_player" | Pick camera_view | Flip

fun embed_act :: "timeline \<Rightarrow> board_embed_state \<Rightarrow> embed_action \<Rightarrow> board_embed_state" where
  "embed_act line b Big_Play = embed_effect (embed_start b)"
| "embed_act line b Replay = embed_effect (embed_replay b)"
| "embed_act line b (Advance dt) = embed_effect (embed_tick line dt b)"
| "embed_act line b (Bar f) = embed_effect (embed_bar f b)"
| "embed_act line b (Pick v) = pick_view v b"
| "embed_act line b Flip = flip_flat b"

lemmas embed_act_defs = embed_effect_def embed_start_def embed_replay_def embed_tick_def embed_bar_def pick_view_def flip_flat_def

text \<open>The big play button is an offer made once: after the first movement, whatever set it off, it does not come back.\<close>

lemma embed_act_started: "be_started b \<Longrightarrow> be_started (embed_act line b a)"
  by (cases a) (simp_all add: embed_act_defs)

theorem play_is_offered_once:
  assumes "playing (be_clock (foldl (embed_act line) new_embed es))"
  shows "\<not> big_play n (foldl (embed_act line) new_embed (es @ fs))"
proof -
  have seen: "playing (be_clock (foldl (embed_act line) b es)) \<Longrightarrow> (playing (be_clock b) \<Longrightarrow> be_started b) \<Longrightarrow>
      be_started (foldl (embed_act line) b es)" for b
  proof (induction es arbitrary: b)
    case (Cons a es)
    have "playing (be_clock (embed_act line b a)) \<Longrightarrow> be_started (embed_act line b a)"
      using Cons.prems(2) by (cases a) (auto simp: embed_act_defs)
    with Cons show ?case by simp
  qed simp
  have kept: "be_started b \<Longrightarrow> be_started (foldl (embed_act line) b fs)" for b
    by (induction fs arbitrary: b) (simp_all add: embed_act_started)
  have "be_started (foldl (embed_act line) new_embed es)"
    by (rule seen [OF assms]) (simp add: new_embed_def new_player_def)
  then show ?thesis by (simp add: big_play_def kept)
qed

theorem play_is_offered_once_witness:
  "\<not> big_play 2 (foldl (embed_act line) new_embed ([Big_Play] @ [Flip, Bar pause]))"
  by (rule play_is_offered_once) (simp add: embed_act_defs new_embed_def new_player_def restart_def)

section \<open>Cards and badges\<close>

text \<open>The card of an article: a cover that is safe and has not failed, the first tag, the first line that says something.\<close>

record article_card =
  cr_slug :: string
  cr_title :: string
  cr_subtitle :: string
  cr_excerpt :: string
  cr_cover :: string
  cr_tags :: "string list"

definition card_cover :: "url_parser \<Rightarrow> bool \<Rightarrow> article_card \<Rightarrow> string option" where
  "card_cover parse broken a = (if broken then None else safeImage parse (Some (JStr (cr_cover a))))"

definition card_kicker :: "article_card \<Rightarrow> string option" where
  "card_kicker a = (case cr_tags a of t # ts \<Rightarrow> if t = [] then None else Some t | [] \<Rightarrow> None)"

definition card_dek :: "article_card \<Rightarrow> string option" where
  "card_dek a =
     (if cr_subtitle a \<noteq> [] then Some (cr_subtitle a) else if cr_excerpt a \<noteq> [] then Some (cr_excerpt a) else None)"

definition card_link :: "article_card \<Rightarrow> string list" where
  "card_link a = [''/articles'', cr_slug a]"

lemma card_cover_is_safe: "card_cover parse broken a = Some s \<Longrightarrow> \<not> broken \<and> s = cr_cover a \<and> may_load parse s"
  by (auto simp: card_cover_def dest!: safeImage_Some split: if_splits)

text \<open>A badge: the code of a club in letters that fit its band, the flag of a nation, a question mark.\<close>

datatype emblem_side = Club_Side string | Nation_Side string

definition emblem_font :: "nat option \<Rightarrow> nat" where
  "emblem_font code = (let n = (case code of Some n \<Rightarrow> n | None \<Rightarrow> 3) in if 3 < n then 28 else if n = 3 then 36 else 42)"

datatype emblem_drawing = Shield string nat | Flag string | Question

definition emblem :: "emblem_side option \<Rightarrow> emblem_drawing" where
  "emblem side =
     (case side of
        Some (Club_Side code) \<Rightarrow> Shield code (emblem_font (Some (length code)))
      | Some (Nation_Side flag) \<Rightarrow> Flag (''flags/4x3/'' @ flag @ ''.svg'')
      | None \<Rightarrow> Question)"

text \<open>Longer codes are drawn smaller: one to four letters take at most 112 units of type.\<close>

lemma emblem_fits: "0 < n \<Longrightarrow> n \<le> 4 \<Longrightarrow> n * emblem_font (Some n) \<le> 112"
  by (cases "n = 1 \<or> n = 2 \<or> n = 3 \<or> n = 4") (auto simp: emblem_font_def Let_def)

section \<open>The names of downloads\<close>

text \<open>
  A recorded video is named after its board: each run of what is neither letter nor digit becomes a dash.  \<open>word\<close> is
  \<open>[\p{L}\p{N}]\<close>, \<open>low\<close> is the lower case of a letter; the editor also drops a dash at either end.
\<close>

fun dashed :: "(char \<Rightarrow> bool) \<Rightarrow> bool \<Rightarrow> string \<Rightarrow> string" where
  "dashed word inside [] = []"
| "dashed word inside (c # cs) =
     (if word c then c # dashed word False cs
      else if inside then dashed word True cs else CHR ''-'' # dashed word True cs)"

definition drop_end_dashes :: "string \<Rightarrow> string" where
  "drop_end_dashes s =
     (let t = (case s of c # cs \<Rightarrow> if c = CHR ''-'' then cs else s | [] \<Rightarrow> []) in
      if t \<noteq> [] \<and> last t = CHR ''-'' then butlast t else t)"

definition fileName :: "(char \<Rightarrow> bool) \<Rightarrow> (char \<Rightarrow> char) \<Rightarrow> string \<Rightarrow> string" where
  "fileName word low title =
     map low (drop_end_dashes (dashed word False (if trim title = [] then ''tactics-board'' else trim title)))"

definition viewer_file :: "(char \<Rightarrow> bool) \<Rightarrow> (char \<Rightarrow> char) \<Rightarrow> string option \<Rightarrow> string" where
  "viewer_file word low title =
     map low (dashed word False (case title of None \<Rightarrow> ''tactics-board'' | Some t \<Rightarrow> t))"

definition RECORDING_TYPES :: "string list" where
  "RECORDING_TYPES = [''video/mp4;codecs=avc1'', ''video/mp4'', ''video/webm;codecs=vp9'', ''video/webm'']"

definition recording_type :: "(string \<Rightarrow> bool) \<Rightarrow> string" where
  "recording_type supported = (case find supported RECORDING_TYPES of Some t \<Rightarrow> t | None \<Rightarrow> [])"

lemma dashed_letters: "filter word (dashed word b s) = filter word s" if "\<not> word (CHR ''-'')"
  using that by (induction s arbitrary: b) auto

lemma dashed_set: "set (dashed word b s) \<subseteq> {c. word c} \<union> {CHR ''-''}"
  by (induction s arbitrary: b) auto

lemma drop_end_dashes_set: "set (drop_end_dashes s) \<subseteq> set s"
proof -
  define t where "t = (case s of c # cs \<Rightarrow> if c = CHR ''-'' then cs else s | [] \<Rightarrow> [])"
  have "set t \<subseteq> set s" by (cases s) (auto simp: t_def)
  moreover have "drop_end_dashes s = (if t \<noteq> [] \<and> last t = CHR ''-'' then butlast t else t)"
    by (simp only: drop_end_dashes_def t_def Let_def)
  ultimately show ?thesis using in_set_butlastD [of _ t] by auto
qed

lemma drop_end_dashes_letters:
  assumes "\<not> word (CHR ''-'')"
  shows "filter word (drop_end_dashes s) = filter word s"
proof -
  have cut: "filter word (if t \<noteq> [] \<and> last t = CHR ''-'' then butlast t else t) = filter word t" for t
    using assms by (cases t rule: rev_cases) auto
  define t where "t = (case s of c # cs \<Rightarrow> if c = CHR ''-'' then cs else s | [] \<Rightarrow> [])"
  have "filter word t = filter word s" using assms by (cases s) (simp_all add: t_def)
  moreover have "drop_end_dashes s = (if t \<noteq> [] \<and> last t = CHR ''-'' then butlast t else t)"
    by (simp only: drop_end_dashes_def t_def Let_def)
  ultimately show ?thesis using cut [of t] by (simp only:)
qed

text \<open>
  The name of a download is made of letters, digits and dashes only, so it is no path; it keeps every letter and digit of the
  title in order.  A title without any leaves nothing before the dot.
\<close>
theorem download_names_are_plain:
  assumes "\<not> word (CHR ''-'')" "\<And>c. word c \<Longrightarrow> low c \<noteq> CHR ''/'' \<and> low c \<noteq> CHR ''.''" "low (CHR ''-'') = CHR ''-''" "trim title \<noteq> []"
  shows "CHR ''/'' \<notin> set (fileName word low title) \<and> CHR ''.'' \<notin> set (fileName word low title)
    \<and> (\<exists>stem. fileName word low title = map low stem \<and> filter word stem = filter word (trim title))
    \<and> (filter word title = [] \<longrightarrow> fileName word low title = [])"
proof -
  let ?d = "dashed word False (trim title)"
  have name: "fileName word low title = map low (drop_end_dashes ?d)" using assms(4) by (simp add: fileName_def)
  have only: "c \<in> set (drop_end_dashes ?d) \<Longrightarrow> word c \<or> c = CHR ''-''" for c
    using drop_end_dashes_set [of ?d] dashed_set [of word False "trim title"] by blast
  have "low c \<noteq> CHR ''/'' \<and> low c \<noteq> CHR ''.''" if "c \<in> set (drop_end_dashes ?d)" for c
    using only [OF that] assms(2,3) by auto
  then have plain: "CHR ''/'' \<notin> set (fileName word low title)" "CHR ''.'' \<notin> set (fileName word low title)"
    unfolding name by force+
  have kept: "filter word (drop_end_dashes ?d) = filter word (trim title)"
    using assms(1) by (simp add: drop_end_dashes_letters dashed_letters)
  have "fileName word low title = []" if none: "filter word title = []"
  proof -
    have all: "\<not> word c" if "c \<in> set title" for c using none that by (simp add: filter_empty_conv)
    have run: "dashed word True t = []" if "\<And>c. c \<in> set t \<Longrightarrow> \<not> word c" for t
      using that by (induction t) simp_all
    have sub: "set (trim title) \<subseteq> set title"
      unfolding trim_def by (auto dest!: set_dropWhileD)
    obtain c cs where cs: "trim title = c # cs" using assms(4) by (cases "trim title") auto
    have bare: "\<not> word x" if "x \<in> set (c # cs)" for x using all sub cs that by auto
    then have "?d = ''-''" using cs run [of cs] by simp
    then show ?thesis by (simp add: name drop_end_dashes_def)
  qed
  with plain kept name show ?thesis by blast
qed

theorem download_names_are_plain_witness:
  "fileName (\<lambda>c. c \<in> set ''abc'') id ''!?'' = []"
  using download_names_are_plain [of "\<lambda>c. c \<in> set ''abc''" id "''!?''"] by (auto simp: trim_def is_ws_def)

end
