(* ===== verification/Pitch_Scene.thy ===== *)
theory Pitch_Scene
  imports Board_Pieces Board_Strokes Board_Gestures
begin

text \<open>
  The world a tactics board stands in: what the kit and the grass paint (\<open>features/tactics/board/textures.ts\<close>), the
  ground, goals, lights and stands of \<open>buildWorld\<close> and \<open>stadium\<close>, which gestures move the camera and how a pointer and a
  window map to it (\<open>engine.ts\<close>), and the fading of a drawing (\<open>strokes.ts\<close>).  A painting is the list of its filled
  shapes, a colour the last one that covers a point; anti-aliasing, gradients and shading are left out.
\<close>

section \<open>Paintings\<close>

text \<open>\<open>fillRect(x, y, w, h)\<close>, and the fill of a convex outline.\<close>

datatype painted_shape = Rect real real real real | Outline "vec2 list"

type_synonym painting = "(string \<times> painted_shape) list"

definition cross_at :: "vec2 \<Rightarrow> vec2 \<Rightarrow> vec2 \<Rightarrow> real" where
  "cross_at a b p = (fst b - fst a) * (snd p - snd a) - (snd b - snd a) * (fst p - fst a)"

definition edges :: "vec2 list \<Rightarrow> (vec2 \<times> vec2) list" where
  "edges ps = zip ps (rotate1 ps)"

fun covers :: "painted_shape \<Rightarrow> vec2 \<Rightarrow> bool" where
  "covers (Rect x y w h) p \<longleftrightarrow> x \<le> fst p \<and> fst p < x + w \<and> y \<le> snd p \<and> snd p < y + h"
| "covers (Outline ps) p \<longleftrightarrow> list_all (\<lambda>(a, b). cross_at a b p \<le> 0) (edges ps) \<or> list_all (\<lambda>(a, b). 0 \<le> cross_at a b p) (edges ps)"

definition colour_at :: "painting \<Rightarrow> vec2 \<Rightarrow> string option" where
  "colour_at ops p = map_option fst (find (\<lambda>(c, s). covers s p) (rev ops))"

lemma colour_at_Nil [simp]: "colour_at [] p = None"
  by (simp add: colour_at_def)

lemma find_append: "find P (xs @ ys) = (case find P xs of None \<Rightarrow> find P ys | Some x \<Rightarrow> Some x)"
  by (induction xs) simp_all

lemma colour_at_append:
  "colour_at (xs @ ys) p = (case colour_at ys p of None \<Rightarrow> colour_at xs p | Some c \<Rightarrow> Some c)"
  by (simp add: colour_at_def find_append split: option.splits)

lemma colour_at_Cons:
  "colour_at ((c, s) # ys) p = (case colour_at ys p of None \<Rightarrow> (if covers s p then Some c else None) | Some d \<Rightarrow> Some d)"
  by (simp add: colour_at_def find_append split: option.splits)

text \<open>
  Bands painted one after the other, each a little wider than its share: where they overlap the later one wins, so the band
  of a point is the share it lies in.
\<close>

lemma colour_at_bands:
  assumes "0 < w" "0 \<le> x" "x < real n * w" "0 \<le> e" "e \<le> w"
    and band: "\<And>i p. covers (s i) p \<longleftrightarrow> real i * w \<le> f p \<and> f p < real i * w + w + e \<and> g p"
    and p: "f p = x" "g p"
  shows "colour_at (map (\<lambda>i. (c i, s i)) [0..<n]) p = Some (c (nat \<lfloor>x / w\<rfloor>))"
  using assms(3)
proof (induction n)
  case 0
  with assms(2) show ?case by simp
next
  case (Suc n)
  show ?case
  proof (cases "real n * w \<le> x")
    case True
    have "\<lfloor>x / w\<rfloor> = int n"
      using True Suc.prems assms(1) by (intro floor_unique) (simp_all add: field_simps)
    moreover have "covers (s n) p" using True Suc.prems assms(4) band p by (simp add: field_simps)
    ultimately show ?thesis by (simp add: colour_at_append colour_at_Cons)
  next
    case False
    then have "\<not> covers (s n) p" using band p by simp
    with Suc.IH False show ?thesis by (simp add: colour_at_append colour_at_Cons)
  qed
qed

section \<open>Shirts\<close>

definition KIT_SIZE :: real where "KIT_SIZE = 256"

definition sash_outline :: "real \<Rightarrow> vec2 list" where
  "sash_outline dx = [(dx + KIT_SIZE * (5 / 100), KIT_SIZE), (dx + KIT_SIZE * (30 / 100), KIT_SIZE),
     (dx + KIT_SIZE * (95 / 100), 0), (dx + KIT_SIZE * (70 / 100), 0)]"

definition kit_pattern_paint :: "string \<Rightarrow> kit_pattern \<Rightarrow> painting" where
  "kit_pattern_paint second p =
     (case p of
        Stripes \<Rightarrow> map (\<lambda>i. (second, Rect (i * KIT_SIZE / 10) 0 (KIT_SIZE / 10) KIT_SIZE)) [0, 2, 4, 6, 8]
      | Hoops \<Rightarrow> map (\<lambda>i. (second, Rect 0 (i * KIT_SIZE / 9) KIT_SIZE (KIT_SIZE / 9))) [1, 3, 5, 7]
      | Halves \<Rightarrow> [(second, Rect 0 0 (KIT_SIZE / 2) KIT_SIZE)]
      | Sash \<Rightarrow> map (\<lambda>dx. (second, Outline (sash_outline dx))) [0, - KIT_SIZE, KIT_SIZE]
      | Solid \<Rightarrow> [])"

definition kit_paint :: "string \<Rightarrow> string \<Rightarrow> kit_pattern \<Rightarrow> painting" where
  "kit_paint first second p =
     (first, Rect 0 0 KIT_SIZE KIT_SIZE) # kit_pattern_paint second p
     @ (if p = Halves then [] else [(second, Rect 0 (KIT_SIZE * (8 / 10)) KIT_SIZE (KIT_SIZE * (2 / 10)))])"

definition on_kit :: "vec2 \<Rightarrow> bool" where
  "on_kit p \<longleftrightarrow> 0 \<le> fst p \<and> fst p < KIT_SIZE \<and> 0 \<le> snd p \<and> snd p < KIT_SIZE"

text \<open>What the pattern means at a point, \<open>v\<close> growing towards the feet.\<close>

definition in_pattern :: "kit_pattern \<Rightarrow> vec2 \<Rightarrow> bool" where
  "in_pattern pat p \<longleftrightarrow>
     (case pat of
        Solid \<Rightarrow> False
      | Stripes \<Rightarrow> even \<lfloor>fst p * 10 / 256\<rfloor>
      | Hoops \<Rightarrow> odd \<lfloor>snd p * 9 / 256\<rfloor>
      | Halves \<Rightarrow> fst p < 128
      | Sash \<Rightarrow> 256 * (5 / 100) + (256 - snd p) * (65 / 100) \<le> fst p \<and> fst p \<le> 256 * (30 / 100) + (256 - snd p) * (65 / 100))"

definition in_shorts :: "kit_pattern \<Rightarrow> vec2 \<Rightarrow> bool" where
  "in_shorts pat p \<longleftrightarrow> pat \<noteq> Halves \<and> KIT_SIZE * (8 / 10) \<le> snd p"

lemma painted_second:
  assumes "\<And>c s. (c, s) \<in> set ops \<Longrightarrow> c = second"
  shows "colour_at ops p = (if list_ex (\<lambda>(c, s). covers s p) ops then Some second else None)"
  using assms
proof (induction ops)
  case (Cons op ops)
  obtain c s where op: "op = (c, s)" by (cases op)
  have "colour_at ops p = (if list_ex (\<lambda>(c, s). covers s p) ops then Some second else None)"
    using Cons.prems by (intro Cons.IH) auto
  then show ?case using Cons.prems [of c s] by (simp add: op colour_at_Cons)
qed simp

lemma stripes_even:
  assumes "0 \<le> x" "x < 256"
  shows "even \<lfloor>x * 10 / 256\<rfloor> \<longleftrightarrow> (\<exists>i\<in>{0, 2, 4, 6, 8::real}. i * 256 / 10 \<le> x \<and> x < i * 256 / 10 + 256 / 10)"
proof -
  define k where "k = \<lfloor>x * 10 / 256\<rfloor>"
  have k: "of_int k \<le> x * 10 / 256" "x * 10 / 256 < of_int k + 1" unfolding k_def by linarith+
  then have lo: "of_int k * 256 / 10 \<le> x" and hi: "x < of_int k * 256 / 10 + 256 / 10" by simp_all
  have "0 \<le> k" "k < 10" using assms lo hi by linarith+
  then have "k \<in> {0, 1, 2, 3, 4, 5, 6, 7, 8, 9}" by simp arith
  then show ?thesis unfolding k_def [symmetric] using lo hi by (elim insertE emptyE) auto
qed

lemma hoops_odd:
  assumes "0 \<le> y" "y < 256"
  shows "odd \<lfloor>y * 9 / 256\<rfloor> \<longleftrightarrow> (\<exists>i\<in>{1, 3, 5, 7::real}. i * 256 / 9 \<le> y \<and> y < i * 256 / 9 + 256 / 9)"
proof -
  define k where "k = \<lfloor>y * 9 / 256\<rfloor>"
  have k: "of_int k \<le> y * 9 / 256" "y * 9 / 256 < of_int k + 1" unfolding k_def by linarith+
  then have lo: "of_int k * 256 / 9 \<le> y" and hi: "y < of_int k * 256 / 9 + 256 / 9" by simp_all
  have "0 \<le> k" "k < 9" using assms lo hi by linarith+
  then have "k \<in> {0, 1, 2, 3, 4, 5, 6, 7, 8}" by simp arith
  then show ?thesis unfolding k_def [symmetric] using lo hi by (elim insertE emptyE) auto
qed

text \<open>The copies of the sash that are shifted by the width of the texture lie beside it.\<close>

lemma sash_covers:
  assumes "0 \<le> snd p" "snd p < 256"
  shows "covers (Outline (sash_outline dx)) p \<longleftrightarrow>
      dx + 256 * (5 / 100) + (256 - snd p) * (65 / 100) \<le> fst p \<and> fst p \<le> dx + 256 * (30 / 100) + (256 - snd p) * (65 / 100)"
proof -
  let ?b = "166 * (snd p - 256) + 4 / 10 * (snd p - 256) + 256 * (fst p - dx - 768 / 10)"
  let ?d = "- (1664 / 10 * snd p) - 256 * (fst p - dx - 1792 / 10)"
  have "covers (Outline (sash_outline dx)) p \<longleftrightarrow>
      64 * (snd p - 256) \<le> 0 \<and> ?b \<le> 0 \<and> - 64 * snd p \<le> 0 \<and> ?d \<le> 0
      \<or> 0 \<le> 64 * (snd p - 256) \<and> 0 \<le> ?b \<and> 0 \<le> - 64 * snd p \<and> 0 \<le> ?d"
    by (simp add: sash_outline_def edges_def cross_at_def KIT_SIZE_def algebra_simps) argo
  also have "\<dots> \<longleftrightarrow> ?b \<le> 0 \<and> ?d \<le> 0" using assms by auto
  also have "\<dots> \<longleftrightarrow> dx + 256 * (5 / 100) + (256 - snd p) * (65 / 100) \<le> fst p
      \<and> fst p \<le> dx + 256 * (30 / 100) + (256 - snd p) * (65 / 100)"
    by (intro iffI conjI; elim conjE; argo)
  finally show ?thesis .
qed

lemma pattern_is_painted:
  assumes "on_kit p"
  shows "list_ex (\<lambda>(c, s). covers s p) (kit_pattern_paint second pat) \<longleftrightarrow> in_pattern pat p"
proof -
  have p: "0 \<le> fst p" "fst p < 256" "0 \<le> snd p" "snd p < 256" using assms by (simp_all add: on_kit_def KIT_SIZE_def)
  show ?thesis
  proof (cases pat)
    case Stripes
    with p stripes_even [OF p(1,2)] show ?thesis by (simp add: kit_pattern_paint_def in_pattern_def KIT_SIZE_def)
  next
    case Hoops
    with p hoops_odd [OF p(3,4)] show ?thesis
      by (simp add: kit_pattern_paint_def in_pattern_def KIT_SIZE_def) (simp add: mult.commute)
  next
    case Sash
    have "\<not> covers (Outline (sash_outline (- 256))) p" "\<not> covers (Outline (sash_outline 256)) p"
      unfolding sash_covers [OF p(3,4)] using p by argo+
    with Sash show ?thesis using sash_covers [OF p(3,4), of 0]
      by (simp add: kit_pattern_paint_def in_pattern_def KIT_SIZE_def del: covers.simps)
  qed (use p in \<open>simp_all add: kit_pattern_paint_def in_pattern_def KIT_SIZE_def\<close>)
qed

text \<open>
  C31. Every point of a shirt gets the colour its pattern means: stripes alternate around the body and across the seam, hoops are
  odd ninths, and all but the halves wear shorts of the second colour.
\<close>
theorem kit_is_painted_as_meant:
  assumes "on_kit p"
  shows "colour_at (kit_paint first second pat) p = Some (if in_shorts pat p \<or> in_pattern pat p then second else first)"
proof -
  have "colour_at (kit_pattern_paint second pat) p = (if in_pattern pat p then Some second else None)"
    unfolding pattern_is_painted [OF assms, of second, symmetric]
    by (rule painted_second) (auto simp: kit_pattern_paint_def split: kit_pattern.splits)
  moreover have "covers (Rect 0 0 KIT_SIZE KIT_SIZE) p" using assms by (simp add: on_kit_def)
  moreover have "covers (Rect 0 (KIT_SIZE * (8 / 10)) KIT_SIZE (KIT_SIZE * (2 / 10))) p \<longleftrightarrow> KIT_SIZE * (8 / 10) \<le> snd p"
    using assms by (auto simp: on_kit_def KIT_SIZE_def)
  ultimately show ?thesis
    by (cases "pat = Halves") (auto simp add: kit_paint_def in_shorts_def colour_at_Cons colour_at_append simp del: covers.simps)
qed

theorem kit_is_painted_as_meant_witness:
  "colour_at (kit_paint ''red'' ''white'' Hoops) (10, 30) = Some ''white''"
  using kit_is_painted_as_meant [of "(10, 30)" "''red''" "''white''" Hoops]
  by (simp add: on_kit_def KIT_SIZE_def in_pattern_def in_shorts_def)

text \<open>
  The copies of the sash painted beside the texture put nothing on it: a shirt without them is the same shirt.
\<close>
theorem sash_copies_paint_nothing:
  assumes "on_kit p" "dx = KIT_SIZE \<or> dx = - KIT_SIZE"
  shows "\<not> covers (Outline (sash_outline dx)) p"
proof -
  have p: "0 \<le> fst p" "fst p < 256" "0 \<le> snd p" "snd p < 256" using assms by (simp_all add: on_kit_def KIT_SIZE_def)
  have "\<not> covers (Outline (sash_outline (- 256))) p" "\<not> covers (Outline (sash_outline 256)) p"
    unfolding sash_covers [OF p(3,4)] using p by argo+
  with assms(2) show ?thesis by (auto simp: KIT_SIZE_def)
qed

theorem sash_copies_paint_nothing_witness: "\<not> covers (Outline (sash_outline KIT_SIZE)) (10, 10)"
  by (rule sash_copies_paint_nothing) (simp_all add: on_kit_def KIT_SIZE_def)

section \<open>Grass\<close>

record grass_palette =
  odd_stripe :: string
  even_stripe :: string
  run_colour :: string
  grass_noise :: real

definition palette_of :: "pitch_style \<Rightarrow> grass_palette" where
  "palette_of sty =
     (case sty of
        Chalk \<Rightarrow> \<lparr>odd_stripe = ''#1f4d3a'', even_stripe = ''#1f4d3a'', run_colour = ''#1b4433'', grass_noise = 5 / 100\<rparr>
      | Night \<Rightarrow> \<lparr>odd_stripe = ''#2c7a3c'', even_stripe = ''#246b33'', run_colour = ''#1f5c2c'', grass_noise = 8 / 100\<rparr>
      | Day \<Rightarrow> \<lparr>odd_stripe = ''#3f9b4c'', even_stripe = ''#348a41'', run_colour = ''#2f7d3b'', grass_noise = 8 / 100\<rparr>)"

definition GRASS_WIDTH :: real where "GRASS_WIDTH = 2048"

definition total_length :: real where "total_length = (HALF_LENGTH + RUNOFF) * 2"
definition total_width :: real where "total_width = (HALF_WIDTH + RUNOFF) * 2"

definition px_per_m :: real where "px_per_m = GRASS_WIDTH / total_length"

definition grass_height :: int where "grass_height = js_round (GRASS_WIDTH * total_width / total_length)"

definition grass_stripes :: "grass_palette \<Rightarrow> painting" where
  "grass_stripes pal =
     (let x0 = RUNOFF * px_per_m; y0 = RUNOFF * px_per_m; pitchW = HALF_LENGTH * 2 * px_per_m; pitchH = HALF_WIDTH * 2 * px_per_m in
      map (\<lambda>i. (if odd i then odd_stripe pal else even_stripe pal, Rect (x0 + real i * pitchW / 18) y0 (pitchW / 18 + 1) pitchH))
        [0..<18])"

definition grass_bands :: "painting" where
  "grass_bands =
     (let x0 = RUNOFF * px_per_m; y0 = RUNOFF * px_per_m; pitchW = HALF_LENGTH * 2 * px_per_m; pitchH = HALF_WIDTH * 2 * px_per_m in
      map (\<lambda>i. (if odd i then ''rgba(255,255,255,0.025)'' else ''rgba(0,0,0,0.025)'',
                Rect x0 (y0 + real i * pitchH / 12) pitchW (pitchH / 12 + 1)))
        [0..<12])"

text \<open>The ground colours, and the translucent cross-cut over them, which a chalk board does not have.\<close>

definition grass_paint :: "pitch_style \<Rightarrow> painting" where
  "grass_paint sty =
     (run_colour (palette_of sty), Rect 0 0 GRASS_WIDTH (real_of_int grass_height)) # grass_stripes (palette_of sty)"

definition cross_cut :: "pitch_style \<Rightarrow> painting" where
  "cross_cut sty = (if sty = Chalk then [] else grass_bands)"

text \<open>Where a place of the pitch, in metres from the centre spot, lies on the texture.\<close>

definition on_texture :: "vec2 \<Rightarrow> vec2" where
  "on_texture p = ((fst p + HALF_LENGTH + RUNOFF) * px_per_m, (snd p + HALF_WIDTH + RUNOFF) * px_per_m)"

lemma px_per_m_pos: "0 < px_per_m"
  by (simp add: px_per_m_def GRASS_WIDTH_def total_length_def pitch_consts)

lemma grass_height_value: "grass_height = 1400"
  by (simp add: grass_height_def GRASS_WIDTH_def total_width_def total_length_def pitch_consts js_round_def floor_eq_iff)

lemma strip_lookup:
  assumes p: "0 \<le> u" "u < len" "0 < len" "0 < n" "real n \<le> len * px_per_m" "0 < px_per_m"
    and covers: "\<And>i q. covers (s i) q \<longleftrightarrow> off + real i * (len * px_per_m) / real n \<le> f q
      \<and> f q < off + real i * (len * px_per_m) / real n + (len * px_per_m / real n + 1) \<and> g q"
    and q: "f q = off + u * px_per_m" "g q"
  shows "colour_at (map (\<lambda>i. (c i, s i)) [0..<n]) q = Some (c (nat \<lfloor>u * real n / len\<rfloor>))"
proof -
  let ?w = "len * px_per_m / real n"
  have w: "0 < ?w" "1 \<le> ?w" using p by (simp_all add: field_simps)
  have scaled: "u * px_per_m / ?w = u * real n / len" using p by (simp add: field_simps)
  have "colour_at (map (\<lambda>i. (c i, s i)) [0..<n]) q = Some (c (nat \<lfloor>(u * px_per_m) / ?w\<rfloor>))"
  proof (rule colour_at_bands [where e = 1 and f = "\<lambda>q. f q - off" and g = g])
    show "u * px_per_m < real n * ?w" using p by simp
    show "\<And>i p. covers (s i) p \<longleftrightarrow> real i * ?w \<le> f p - off \<and> f p - off < real i * ?w + ?w + 1 \<and> g p"
      unfolding covers by (auto simp: algebra_simps)
  qed (use w p q in simp_all)
  then show ?thesis by (simp only: scaled)
qed

text \<open>
  On the grass: a place of the pitch lies in one of eighteen equal stripes along the length and in one of twelve bands across,
  odd and even ones in turn, although each is painted a pixel wider than its share.
\<close>
theorem pitch_is_mown_in_stripes:
  assumes "- HALF_LENGTH \<le> fst p" "fst p < HALF_LENGTH" "- HALF_WIDTH \<le> snd p" "snd p < HALF_WIDTH"
  shows "colour_at (grass_paint sty) (on_texture p)
      = Some (if even \<lfloor>(fst p + HALF_LENGTH) * 18 / PITCH_LENGTH\<rfloor> then even_stripe (palette_of sty) else odd_stripe (palette_of sty))
    \<and> colour_at (cross_cut sty) (on_texture p)
      = (if sty = Chalk then None
         else Some (if even \<lfloor>(snd p + HALF_WIDTH) * 12 / PITCH_WIDTH\<rfloor> then ''rgba(0,0,0,0.025)'' else ''rgba(255,255,255,0.025)''))"
proof -
  have px: "px_per_m = 2048 / 117" by (simp add: px_per_m_def GRASS_WIDTH_def total_length_def pitch_consts)
  have u: "0 \<le> fst p + HALF_LENGTH" "fst p + HALF_LENGTH < 105" and v: "0 \<le> snd p + HALF_WIDTH" "snd p + HALF_WIDTH < 68"
    using assms by (simp_all add: pitch_consts)
  have across: "RUNOFF * px_per_m \<le> snd (on_texture p)" "snd (on_texture p) < RUNOFF * px_per_m + HALF_WIDTH * 2 * px_per_m"
    using v by (simp_all add: on_texture_def px pitch_consts field_simps)
  have along: "RUNOFF * px_per_m \<le> fst (on_texture p)" "fst (on_texture p) < RUNOFF * px_per_m + HALF_LENGTH * 2 * px_per_m"
    using u by (simp_all add: on_texture_def px pitch_consts field_simps)
  have stripe: "colour_at (grass_stripes pal) (on_texture p)
      = Some (if odd (nat \<lfloor>(fst p + HALF_LENGTH) * real 18 / 105\<rfloor>) then odd_stripe pal else even_stripe pal)" for pal
    unfolding grass_stripes_def Let_def
    by (rule strip_lookup [where f = fst and off = "RUNOFF * px_per_m" and len = 105
          and g = "\<lambda>q. RUNOFF * px_per_m \<le> snd q \<and> snd q < RUNOFF * px_per_m + HALF_WIDTH * 2 * px_per_m"])
      (use u across in \<open>simp_all add: px pitch_consts on_texture_def field_simps\<close>)
  have band: "colour_at grass_bands (on_texture p)
      = Some (if odd (nat \<lfloor>(snd p + HALF_WIDTH) * real 12 / 68\<rfloor>) then ''rgba(255,255,255,0.025)'' else ''rgba(0,0,0,0.025)'')"
    unfolding grass_bands_def Let_def
    by (rule strip_lookup [where f = snd and off = "RUNOFF * px_per_m" and len = 68
          and g = "\<lambda>q. RUNOFF * px_per_m \<le> fst q \<and> fst q < RUNOFF * px_per_m + HALF_LENGTH * 2 * px_per_m"])
      (use v along in \<open>auto simp: px pitch_consts on_texture_def field_simps\<close>)
  have nat: "odd (nat \<lfloor>x\<rfloor>) \<longleftrightarrow> odd \<lfloor>x\<rfloor>" if "0 \<le> x" for x :: real using that by (simp add: even_nat_iff)
  show ?thesis
    using stripe [of "palette_of sty"] band u v
    by (simp add: grass_paint_def cross_cut_def colour_at_Cons nat PITCH_LENGTH_def PITCH_WIDTH_def)
qed

theorem pitch_is_mown_in_stripes_witness:
  "colour_at (grass_paint Day) (on_texture (0, 0)) = Some ''#3f9b4c'' \<and> colour_at (cross_cut Chalk) (on_texture (0, 0)) = None"
  using pitch_is_mown_in_stripes [of "(0, 0)" Day] pitch_is_mown_in_stripes [of "(0, 0)" Chalk]
  by (simp add: pitch_consts palette_of_def)

section \<open>Textures kept\<close>

text \<open>The cache of the page: what it holds by key, how many textures were painted, which were freed.\<close>

record textures =
  tx_known :: "(string \<times> nat) list"
  tx_made :: nat
  tx_freed :: "nat list"

definition cached :: "string \<Rightarrow> textures \<Rightarrow> nat \<times> textures" where
  "cached key c =
     (case map_of (tx_known c) key of
        Some t \<Rightarrow> (t, c)
      | None \<Rightarrow> (tx_made c, c\<lparr>tx_known := (key, tx_made c) # tx_known c, tx_made := Suc (tx_made c)\<rparr>))"

definition disposeTextures :: "textures \<Rightarrow> textures" where
  "disposeTextures c = c\<lparr>tx_known := [], tx_freed := map snd (tx_known c) @ tx_freed c\<rparr>"

definition kit_key :: "string \<Rightarrow> string \<Rightarrow> kit_pattern \<Rightarrow> string" where
  "kit_key first second pat = ''kit:'' @ first @ '':'' @ second @ '':'' @ pattern_name pat"

text \<open>Every texture painted is either still known, under one key, or freed once.\<close>

definition textures_ok :: "textures \<Rightarrow> bool" where
  "textures_ok c \<longleftrightarrow> distinct (map fst (tx_known c)) \<and> distinct (map snd (tx_known c) @ tx_freed c)
     \<and> (\<forall>t. t \<in> set (map snd (tx_known c) @ tx_freed c) \<longleftrightarrow> t < tx_made c)"

lemma cached_ok:
  assumes "textures_ok c" "cached key c = (t, c')"
  shows "textures_ok c' \<and> (key, t) \<in> set (tx_known c') \<and> t \<notin> set (tx_freed c') \<and> cached key c' = (t, c')"
proof (cases "map_of (tx_known c) key")
  case None
  then have key: "key \<notin> fst ` set (tx_known c)" by (simp add: map_of_eq_None_iff)
  have c': "t = tx_made c" "c' = c\<lparr>tx_known := (key, tx_made c) # tx_known c, tx_made := Suc (tx_made c)\<rparr>"
    using assms(2) None by (auto simp: cached_def)
  have ids: "t \<in> snd ` set (tx_known c) \<or> t \<in> set (tx_freed c) \<longleftrightarrow> t < tx_made c" for t
    using assms(1) by (simp add: textures_ok_def)
  have "tx_made c \<notin> snd ` set (tx_known c)" "tx_made c \<notin> set (tx_freed c)" using ids [of "tx_made c"] by simp_all
  with assms(1) key ids show ?thesis
    by (simp add: c' textures_ok_def cached_def less_Suc_eq) blast
next
  case (Some u)
  then have "(key, u) \<in> set (tx_known c)" by (rule map_of_SomeD)
  with assms Some show ?thesis by (force simp: cached_def textures_ok_def)
qed

lemma disposeTextures_ok: "textures_ok c \<Longrightarrow> textures_ok (disposeTextures c)"
  by (simp add: textures_ok_def disposeTextures_def)

definition texture_step :: "textures \<Rightarrow> string option \<Rightarrow> textures" where
  "texture_step c e = (case e of Some key \<Rightarrow> snd (cached key c) | None \<Rightarrow> disposeTextures c)"

text \<open>However textures are asked for and boards closed: each painted texture is known under one key or was freed once.\<close>
theorem textures_are_freed_once:
  "textures_ok (foldl texture_step \<lparr>tx_known = [], tx_made = 0, tx_freed = []\<rparr> es)"
proof -
  have "textures_ok c \<Longrightarrow> textures_ok (foldl texture_step c es)" for c
  proof (induction es arbitrary: c)
    case (Cons e es)
    have "textures_ok (texture_step c e)"
      using Cons.prems cached_ok [OF Cons.prems, of "the e" "fst (cached (the e) c)" "snd (cached (the e) c)"]
      by (cases e) (simp_all add: texture_step_def disposeTextures_ok)
    then show ?case using Cons.IH by simp
  qed simp
  then show ?thesis by (simp add: textures_ok_def)
qed

section \<open>The stadium\<close>

record stand_block =
  bl_at :: vec3
  bl_size :: vec3
  bl_tint :: string

definition TIERS :: nat where "TIERS = 7"

definition edgeL :: real where "edgeL = HALF_LENGTH + RUNOFF + 2"
definition edgeW :: real where "edgeW = HALF_WIDTH + RUNOFF + 2"

definition seat_tint :: "bool \<Rightarrow> nat \<Rightarrow> string" where
  "seat_tint night i =
     (if odd i then (if night then ''#1e3a5f'' else ''#1e40af'') else if night then ''#24476f'' else ''#2563eb'')"

text \<open>A stand along x or z, \<open>along_z\<close> being a depth axis of z: seven rising tiers and a wall behind them.\<close>

definition lay_block :: "bool \<Rightarrow> real \<Rightarrow> real \<Rightarrow> real \<Rightarrow> real \<Rightarrow> string \<Rightarrow> stand_block" where
  "lay_block depth_z len h deep out tint =
     (if depth_z then \<lparr>bl_at = (0, h / 2, out), bl_size = (len, h, deep), bl_tint = tint\<rparr>
      else \<lparr>bl_at = (out, h / 2, 0), bl_size = (deep, h, len), bl_tint = tint\<rparr>)"

definition tier_block :: "bool \<Rightarrow> bool \<Rightarrow> real \<Rightarrow> real \<Rightarrow> real \<Rightarrow> nat \<Rightarrow> stand_block" where
  "tier_block night depth_z sgn' len offset i =
     lay_block depth_z len (11 / 10 + real i * (125 / 100)) (22 / 10) (sgn' * (offset + 11 / 10 + real i * (22 / 10))) (seat_tint night i)"

definition back_wall :: "bool \<Rightarrow> bool \<Rightarrow> real \<Rightarrow> real \<Rightarrow> real \<Rightarrow> stand_block" where
  "back_wall night depth_z sgn' len offset =
     lay_block depth_z (len + 4) (12 / 10 + real TIERS * (125 / 100) + 25 / 10) 1
       (sgn' * (offset + 11 / 10 + real TIERS * (22 / 10) + 5 / 10)) (if night then ''#2a313a'' else ''#9aa5b1'')"

definition stand :: "bool \<Rightarrow> real \<Rightarrow> bool \<Rightarrow> real \<Rightarrow> real \<Rightarrow> stand_block list" where
  "stand night len depth_z sgn' offset =
     map (tier_block night depth_z sgn' len offset) [0..<TIERS] @ [back_wall night depth_z sgn' len offset]"

definition stand_depth :: real where
  "stand_depth = real TIERS * (22 / 10) + 11 / 10"

definition far_stand :: "bool \<Rightarrow> stand_block list" where
  "far_stand night = stand night ((edgeL + stand_depth) * 2) True (- 1) edgeW"

definition end_stand :: "bool \<Rightarrow> real \<Rightarrow> stand_block list" where
  "end_stand night sgn' = stand night (edgeW * 2) False sgn' edgeL"

definition ad_board :: "bool \<Rightarrow> stand_block" where
  "ad_board night = \<lparr>bl_at = (0, 45 / 100, - (HALF_WIDTH + 32 / 10)), bl_size = (HALF_LENGTH * (17 / 10), 9 / 10, 15 / 100),
     bl_tint = (if night then ''#0ea5e9'' else ''#0f766e'')\<rparr>"

definition stadium_blocks :: "bool \<Rightarrow> stand_block list" where
  "stadium_blocks night = far_stand night @ end_stand night 1 @ end_stand night (- 1) @ [ad_board night]"

text \<open>The masts of the floodlights, by their places.\<close>

definition masts :: "bool \<Rightarrow> vec2 list" where
  "masts night = (if night then concat (map (\<lambda>sx. map (\<lambda>sz. (sx * (edgeL + 14), sz * (edgeW + 14))) [- 1, 1]) [- 1, 1]) else [])"

text \<open>A block that keeps off the middle: beyond \<open>l\<close> along the pitch or beyond \<open>w\<close> across.\<close>

definition keeps_off :: "real \<Rightarrow> real \<Rightarrow> stand_block \<Rightarrow> bool" where
  "keeps_off l w b \<longleftrightarrow>
     (case (bl_at b, bl_size b) of ((x, y, z), (sx, sy, sz)) \<Rightarrow> l \<le> \<bar>x\<bar> - sx / 2 \<or> w \<le> \<bar>z\<bar> - sz / 2)"

definition near_edge :: "stand_block \<Rightarrow> real" where
  "near_edge b = (case (bl_at b, bl_size b) of ((x, y, z), (sx, sy, sz)) \<Rightarrow> z + sz / 2)"

lemmas stand_defs = stand_def lay_block_def tier_block_def back_wall_def keeps_off_def near_edge_def

lemma stand_keeps_off:
  assumes "b \<in> set (stand night len depth_z sgn' offset)" "sgn' = 1 \<or> sgn' = - 1" "0 \<le> offset"
  shows "if depth_z then offset \<le> \<bar>snd (snd (bl_at b))\<bar> - snd (snd (bl_size b)) / 2
    else offset \<le> \<bar>fst (bl_at b)\<bar> - fst (bl_size b) / 2"
  using assms by (auto simp: stand_defs abs_mult)

text \<open>
  Nothing of the stadium stands on the pitch, nothing but the boards on the run-off, and the near side is open but for the
  two metres by which the end walls pass the corner.
\<close>
theorem stands_keep_off_the_pitch:
  "\<forall>b\<in>set (stadium_blocks night).
     keeps_off HALF_LENGTH HALF_WIDTH b \<and> near_edge b \<le> edgeW + 2
     \<and> (b \<noteq> ad_board night \<longrightarrow> keeps_off (HALF_LENGTH + RUNOFF) (HALF_WIDTH + RUNOFF) b)"
proof
  fix b assume b: "b \<in> set (stadium_blocks night)"
  have pos: "0 \<le> edgeL" "0 \<le> edgeW" by (simp_all add: edgeL_def edgeW_def pitch_consts)
  consider "b \<in> set (far_stand night)" | s where "s = 1 \<or> s = - 1" "b \<in> set (end_stand night s)" | "b = ad_board night"
    using b by (auto simp: stadium_blocks_def)
  then show "keeps_off HALF_LENGTH HALF_WIDTH b \<and> near_edge b \<le> edgeW + 2
     \<and> (b \<noteq> ad_board night \<longrightarrow> keeps_off (HALF_LENGTH + RUNOFF) (HALF_WIDTH + RUNOFF) b)"
  proof cases
    case 1
    then have "edgeW \<le> \<bar>snd (snd (bl_at b))\<bar> - snd (snd (bl_size b)) / 2"
      using stand_keeps_off [of b night _ True "- 1" edgeW] pos by (auto simp: far_stand_def)
    moreover have "near_edge b \<le> 0" using 1 pos by (auto simp: far_stand_def stand_defs)
    ultimately show ?thesis using pos
      by (auto simp: keeps_off_def edgeW_def pitch_consts split: prod.splits)
  next
    case 2
    then have "edgeL \<le> \<bar>fst (bl_at b)\<bar> - fst (bl_size b) / 2"
      using stand_keeps_off [of b night _ False s edgeL] pos by (auto simp: end_stand_def)
    moreover have "near_edge b \<le> edgeW + 2" using 2 pos by (auto simp: end_stand_def stand_defs)
    ultimately show ?thesis
      by (auto simp: keeps_off_def edgeL_def pitch_consts split: prod.splits)
  next
    case 3
    then show ?thesis by (simp add: ad_board_def keeps_off_def near_edge_def edgeW_def pitch_consts)
  qed
qed

theorem stands_keep_off_the_pitch_witness: "keeps_off HALF_LENGTH HALF_WIDTH (ad_board True)"
  using stands_keep_off_the_pitch [of True] by (simp add: stadium_blocks_def)

text \<open>The far stand closes the corners: its tiers reach past the last tier of the end stands.\<close>

lemma far_stand_closes_corners:
  "edgeL + real TIERS * (22 / 10) < edgeL + stand_depth
   \<and> (\<forall>b\<in>set (far_stand night). edgeL + stand_depth \<le> fst (bl_size b) / 2)"
  by (auto simp: far_stand_def stand_defs stand_depth_def)

text \<open>
  The wall of a stand is put a half tier too far back: between the last tier and the wall lies a gap as wide as half a tier.
\<close>
theorem wall_stands_behind_a_gap:
  "(case (bl_at (back_wall night True (- 1) len offset), bl_size (back_wall night True (- 1) len offset)) of
      ((x, y, z), (sx, sy, sz)) \<Rightarrow> z + sz / 2)
   = (case (bl_at (tier_block night True (- 1) len offset 6), bl_size (tier_block night True (- 1) len offset 6)) of
      ((x, y, z), (sx, sy, sz)) \<Rightarrow> z - sz / 2) - 11 / 10"
  by (simp add: stand_defs TIERS_def)

section \<open>The world\<close>

text \<open>The stops of the sky's gradient, from the top down.\<close>

definition sky_stops :: "pitch_style \<Rightarrow> (real \<times> string) list" where
  "sky_stops sty =
     (case sty of
        Night \<Rightarrow> [(0, ''#02040a''), (6 / 10, ''#0b1430''), (1, ''#1b2747'')]
      | Chalk \<Rightarrow> [(0, ''#0f1f18''), (1, ''#183126'')]
      | Day \<Rightarrow> [(0, ''#5b9bd5''), (55 / 100, ''#a9cbe8''), (1, ''#e3edf5'')])"

record light =
  lt_colour :: string
  lt_ground :: string
  lt_power :: real
  lt_at :: vec3

definition hemi_light :: "pitch_style \<Rightarrow> light" where
  "hemi_light sty =
     \<lparr>lt_colour = (if sty = Night then ''#8fb3ff'' else ''#e0f2fe''),
      lt_ground = (if sty = Night then ''#0b1a10'' else ''#2c4a2a''),
      lt_power = (if sty = Night then 55 / 100 else if sty = Chalk then 16 / 10 else 95 / 100), lt_at = (0, 0, 0)\<rparr>"

definition sun_light :: "pitch_style \<Rightarrow> light" where
  "sun_light sty =
     \<lparr>lt_colour = (if sty = Night then ''#e8f0ff'' else ''#fff4e0''), lt_ground = [],
      lt_power = (if sty = Night then 2 else if sty = Chalk then 12 / 10 else 25 / 10),
      lt_at = (if sty = Night then 0 else - 35, 90, if sty = Night then 10 else 45)\<rparr>"

record placed_goal =
  pg_x :: real
  pg_turned :: bool
  pg_parts :: "piece_child list"

definition pitch_goal :: "real \<Rightarrow> placed_goal" where
  "pitch_goal sd = \<lparr>pg_x = sd * HALF_LENGTH, pg_turned = (sd < 0), pg_parts = goal_parts (732 / 100) (244 / 100) 2 ''#f8fafc'' (8 / 100)\<rparr>"

record world =
  wd_sky :: "(real \<times> string) list"
  wd_fog :: "(string \<times> real \<times> real) option"
  wd_hemi :: light
  wd_sun :: light
  wd_grass :: painting
  wd_apron :: string
  wd_markings :: "(vec2 list list \<times> real) list \<times> vec2 list"
  wd_line :: "string \<times> real"
  wd_goals :: "placed_goal list"
  wd_stands :: "stand_block list"

definition buildWorld :: "bool \<Rightarrow> pitch_settings \<Rightarrow> world" where
  "buildWorld flat p =
     (let sty = pitch_style p; night = (sty = Night); chalk = (sty = Chalk) in
      \<lparr>wd_sky = sky_stops sty,
       wd_fog = (if chalk \<or> flat then None else Some (if night then ''#070b16'' else ''#c9d8e6'', 160, 420)),
       wd_hemi = hemi_light sty,
       wd_sun = sun_light sty,
       wd_grass = grass_paint sty @ cross_cut sty,
       wd_apron = (if chalk then ''#14231c'' else if night then ''#10161c'' else ''#5b6670''),
       wd_markings = buildMarkings (markings p),
       wd_line = (if chalk then ''#f1f5f9'' else ''#ffffff'', if chalk then 75 / 100 else 92 / 100),
       wd_goals = (if markings p = Standard then map pitch_goal [- 1, 1] else []),
       wd_stands = (if stadium p \<and> \<not> chalk \<and> \<not> flat then stadium_blocks night else [])\<rparr>)"

lemma flat_board_is_bare: "wd_stands (buildWorld True p) = [] \<and> wd_fog (buildWorld True p) = None"
  by (simp add: buildWorld_def Let_def)

text \<open>Where a point of a goal stands on the pitch; \<open>rotation.y\<close> of half a turn negates x and z.\<close>

definition goal_point :: "placed_goal \<Rightarrow> vec3 \<Rightarrow> vec3" where
  "goal_point g p = (case p of (x, y, z) \<Rightarrow> if pg_turned g then (pg_x g - x, y, - z) else (pg_x g + x, y, z))"

definition back_net :: "placed_goal \<Rightarrow> vec3 list" where
  "back_net g = map (goal_point g) (back_corners (732 / 100) (244 / 100) 2)"

text \<open>
  The goals of the pitch are turned the wrong way: the net of each hangs two metres inside the pitch, its mouth away from the
  centre spot.
\<close>
theorem nets_hang_on_the_pitch:
  assumes "g \<in> set (wd_goals (buildWorld flat p))" "c \<in> set (back_net g)"
  shows "\<bar>fst c\<bar> = HALF_LENGTH - 2 \<and> \<bar>pg_x g\<bar> = HALF_LENGTH \<and> on_pitch (fst c, snd (snd c))"
  using assms
  by (auto simp: buildWorld_def Let_def pitch_goal_def back_net_def goal_point_def back_corners_def on_pitch_def pitch_consts
      split: if_splits)

theorem nets_hang_on_the_pitch_witness:
  "on_pitch (HALF_LENGTH - 2, - (366 / 100))"
  using nets_hang_on_the_pitch [of "pitch_goal 1" False "pitch (emptyDoc ''a'')" "(HALF_LENGTH - 2, 0, - (366 / 100))"]
  by (simp add: buildWorld_def Let_def pitch_goal_def back_net_def goal_point_def back_corners_def emptyDoc_def)

section \<open>Cameras and pointers\<close>

datatype camera_move = Pan | Rotate | Dolly | Dolly_Pan | Dolly_Rotate

record camera_gestures =
  cg_left :: "camera_move option"
  cg_middle :: "camera_move option"
  cg_right :: "camera_move option"
  cg_one :: "camera_move option"
  cg_two :: "camera_move option"

definition applyInteractivity :: "bool \<Rightarrow> bool \<Rightarrow> camera_gestures" where
  "applyInteractivity editor flat =
     (let look = (if flat then Pan else Rotate) in
      if editor
      then \<lparr>cg_left = None, cg_middle = Some Dolly, cg_right = Some look,
            cg_one = None, cg_two = Some (if flat then Dolly_Pan else Dolly_Rotate)\<rparr>
      else \<lparr>cg_left = Some look, cg_middle = Some Dolly, cg_right = Some Pan,
            cg_one = Some (if flat then Pan else Rotate), cg_two = Some Dolly_Pan\<rparr>)"

definition all_moves :: "camera_gestures \<Rightarrow> camera_move option set" where
  "all_moves c = {cg_left c, cg_middle c, cg_right c, cg_one c, cg_two c}"

lemma editor_keeps_the_first_pointer:
  "cg_left (applyInteractivity True flat) = None \<and> cg_one (applyInteractivity True flat) = None"
  by (simp add: applyInteractivity_def Let_def)

lemma flat_board_never_turns:
  "Some Rotate \<notin> all_moves (applyInteractivity e True) \<and> Some Dolly_Rotate \<notin> all_moves (applyInteractivity e True)"
  by (simp add: applyInteractivity_def all_moves_def Let_def)

text \<open>\<open>pointer\<close>: the place of an event on the canvas, whose box is left, top, width and height; and the window's \<open>fit\<close>.\<close>

definition pointer_at :: "real \<times> real \<times> real \<times> real \<Rightarrow> vec2 \<Rightarrow> vec2" where
  "pointer_at r e =
     (case r of (l, t, w, h) \<Rightarrow> ((fst e - l) / w * 2 - 1, - ((snd e - t) / h) * 2 + 1))"

definition fit_aspect :: "nat \<Rightarrow> nat \<Rightarrow> real" where
  "fit_aspect w h = real (max 1 w) / real (max 1 h)"

definition fitOrtho :: "real \<Rightarrow> real \<Rightarrow> real \<times> real \<times> real \<times> real" where
  "fitOrtho aspect0 half =
     (let aspect = (if aspect0 = 0 then 16 / 10 else aspect0) in (- half * aspect, half * aspect, half, - half))"

lemma fit_aspect_pos: "0 < fit_aspect w h"
  by (simp add: fit_aspect_def)

text \<open>A pointer on the canvas, edges included, is a point of the square the ray is cast through, and only such a pointer.\<close>

lemma pointer_in_square:
  assumes "0 < w" "0 < h"
  shows "(\<bar>fst (pointer_at (l, t, w, h) e)\<bar> \<le> 1 \<and> \<bar>snd (pointer_at (l, t, w, h) e)\<bar> \<le> 1)
    \<longleftrightarrow> l \<le> fst e \<and> fst e \<le> l + w \<and> t \<le> snd e \<and> snd e \<le> t + h"
  using assms by (auto simp: pointer_at_def abs_le_iff field_simps)

text \<open>
  Whatever the window's size, the flat board shows the whole of its layout, with a margin, inside the planes of its camera.
\<close>
theorem flat_view_shows_the_layout:
  assumes "bounds l = (x0, x1, y0, y1)" "frameFlat l (fit_aspect w h) = (mid, half)"
    and "x0 \<le> x" "x \<le> x1" "y0 \<le> y" "y \<le> y1"
  shows "case fitOrtho (fit_aspect w h) (snd half) of (le, ri, hi, lo) \<Rightarrow>
    le \<le> x - fst mid \<and> x - fst mid \<le> ri \<and> lo \<le> y - snd mid \<and> y - snd mid \<le> hi"
proof -
  let ?a = "fit_aspect w h"
  have a: "0 < ?a" by (rule fit_aspect_pos)
  let ?h = "max ((y1 - y0) / 2) ((x1 - x0) / 2 / ?a) * (104 / 100)"
  have out: "mid = ((x0 + x1) / 2, (y0 + y1) / 2)" "snd half = ?h"
    using assms(1,2) a by (auto simp: frameFlat_def Let_def)
  let ?m = "max ((y1 - y0) / 2) ((x1 - x0) / 2 / ?a)"
  have "(y1 - y0) / 2 \<le> ?m" "(x1 - x0) / 2 / ?a \<le> ?m" by (rule max.cobounded1 max.cobounded2)+
  moreover have "0 \<le> (y1 - y0) / 2" using assms(5,6) by simp
  ultimately have v: "(y1 - y0) / 2 \<le> ?h" and u: "(x1 - x0) / 2 / ?a \<le> ?h" by argo+
  define k where "k = ?h"
  have half: "snd half = k" "(y1 - y0) / 2 \<le> k" "(x1 - x0) / 2 \<le> k * ?a"
    using u v a out(2) by (simp_all only: k_def pos_divide_le_eq)
  have "x - (x0 + x1) / 2 \<le> (x1 - x0) / 2" "(x0 + x1) / 2 - x \<le> (x1 - x0) / 2"
      "y - (y0 + y1) / 2 \<le> (y1 - y0) / 2" "(y0 + y1) / 2 - y \<le> (y1 - y0) / 2"
    using assms(3-6) by (simp_all add: field_simps)
  with half have "x - (x0 + x1) / 2 \<le> k * ?a" "- k * ?a \<le> x - (x0 + x1) / 2"
      "y - (y0 + y1) / 2 \<le> k" "- k \<le> y - (y0 + y1) / 2"
    unfolding minus_mult_left [symmetric] by argo+
  then show ?thesis using a by (simp only: fitOrtho_def Let_def out(1) half(1) fst_conv snd_conv prod.case if_False less_irrefl
      order.strict_implies_not_eq [OF a, symmetric])
qed

theorem flat_view_shows_the_layout_witness:
  "case fitOrtho (fit_aspect 800 600) (snd (snd (frameFlat (Some Drill) (fit_aspect 800 600)))) of (le, ri, hi, lo) \<Rightarrow> 24 \<le> ri"
  using flat_view_shows_the_layout [of "Some Drill" "-24" 24 "-17" 17 800 600 "(0, 0)"
      "snd (frameFlat (Some Drill) (fit_aspect 800 600))" 24 17]
  by (simp add: bounds_def frameFlat_def Let_def fit_aspect_def fitOrtho_def)

definition ring_glow :: "real \<Rightarrow> real" where
  "ring_glow t = 6 / 10 + sin (t * 4) * (25 / 100)"

lemma ring_stays_visible: "35 / 100 \<le> ring_glow t \<and> ring_glow t \<le> 85 / 100"
  using sin_ge_minus_one [of "t * 4"] sin_le_one [of "t * 4"] unfolding ring_glow_def by argo

section \<open>Fading\<close>

text \<open>A material of a drawing: its opacity and, once it was faded, the one it was built with.\<close>

record faded =
  fd_opacity :: real
  fd_base :: "real option"

definition setOpacity :: "real \<Rightarrow> faded \<Rightarrow> faded" where
  "setOpacity o' m =
     (let base = (case fd_base m of None \<Rightarrow> fd_opacity m | Some b \<Rightarrow> b) in \<lparr>fd_opacity = base * o', fd_base = Some base\<rparr>)"

definition built :: "real \<Rightarrow> faded" where
  "built o' = \<lparr>fd_opacity = o', fd_base = None\<rparr>"

text \<open>However often a drawing is faded, only the last fade counts, in proportion to what it was built with.\<close>

theorem only_the_last_fade_counts:
  "fd_opacity (foldl (\<lambda>m o'. setOpacity o' m) (built b) (os @ [o'])) = b * o'"
proof -
  have "fd_base m = Some b \<or> m = built b \<Longrightarrow>
      fd_base (foldl (\<lambda>m o'. setOpacity o' m) m os) = Some b \<or> foldl (\<lambda>m o'. setOpacity o' m) m os = built b" for m
  proof (induction os arbitrary: m)
    case (Cons a os)
    have "fd_base (setOpacity a m) = Some b" using Cons.prems by (auto simp: setOpacity_def built_def)
    then show ?case using Cons.IH [of "setOpacity a m"] by simp
  qed simp
  from this [of "built b"] show ?thesis by (auto simp: setOpacity_def built_def)
qed

text \<open>What \<open>buildDrawing\<close> lays for a text, and how high each layer lies over the markings.\<close>

definition layer_lift :: "nat \<Rightarrow> real" where
  "layer_lift k = LIFT + real k * (2 / 1000)"

definition text_plane :: "drawing \<Rightarrow> real \<Rightarrow> nat \<Rightarrow> (real \<times> real \<times> vec3) option" where
  "text_plane d aspect k =
     (case (points d, drawing_text d) of
        (q # ps, Some t) \<Rightarrow> if t = [] then None
          else (let height = 24 / 10 * (width_of d / DEFAULT_STROKE) in
                Some (height * aspect, height, (fst q, layer_lift k + 1 / 100, snd q)))
      | _ \<Rightarrow> None)"

definition zone_lift :: "nat \<Rightarrow> real" where
  "zone_lift k = layer_lift k - 3 / 1000"

definition head_lift :: "nat \<Rightarrow> real" where
  "head_lift k = layer_lift k + 1 / 1000"

text \<open>A later stroke lies above an earlier one and its head; its zone lies below the stroke drawn just before.\<close>

lemma layers_rise:
  "i < k \<Longrightarrow> head_lift i < layer_lift k \<and> 14 / 1000 < zone_lift i \<and> zone_lift (Suc i) < layer_lift i"
  by (simp add: layer_lift_def head_lift_def zone_lift_def LIFT_def add_divide_distrib)

end
