(* ===== verification/Game_Words.thy ===== *)
theory Game_Words
  imports Game_Store
begin

text \<open>
  The three languages of the games (\<open>features/games/games-i18n.ts\<close>): the names of countries, clubs and nations, the
  dictionaries, the language's choice and its storage; and the short codes on the badges (\<open>shortCode\<close> of
  \<open>played-for-both.engine.ts\<close>).  A text is the list of its UTF-16 code units, \<open>asc\<close> those of an ASCII literal.
\<close>

section \<open>Texts\<close>

type_synonym words = "nat list"

definition asc :: "string \<Rightarrow> words" where
  "asc s = map of_char s"

lemma asc_Nil [simp]: "asc [] = []"
  by (simp add: asc_def)

lemma asc_Cons: "asc (c # s) = of_char c # asc s"
  by (simp add: asc_def)

lemma asc_eq_iff [simp]: "asc s = asc t \<longleftrightarrow> s = t"
proof (induction s arbitrary: t)
  case Nil
  show ?case by (cases t) (simp_all add: asc_Cons)
next
  case (Cons c s)
  then show ?case by (cases t) (simp_all add: asc_Cons)
qed

lemma asc_Nil_iff [simp]: "asc s = [] \<longleftrightarrow> s = []" "[] = asc s \<longleftrightarrow> s = []"
  by (simp_all add: asc_def)

lemma asc_differs [simp]:
  "s \<noteq> [] \<Longrightarrow> t \<noteq> [] \<Longrightarrow> hd s \<noteq> hd t \<Longrightarrow> asc s @ w \<noteq> asc t"
  by (cases s; cases t) (simp_all add: asc_Cons)

lemma asc_no_wide [simp]: "256 \<le> u \<Longrightarrow> u # w \<noteq> asc s"
  by (cases s) (auto simp: asc_Cons of_char_def)

text \<open>
  An entry of a dictionary: a text, a template over its arguments, or a name looked up in a table.  The arguments of
  \<open>note\<close> are the players, clubs, nations and leagues it counts, the first as the locale writes it.
\<close>

datatype word_piece = Lit words | Arg nat

datatype entry = Word words | Phrase "word_piece list" | Named "(string \<times> words) list"

fun filled :: "words list \<Rightarrow> word_piece \<Rightarrow> words" where
  "filled xs (Lit w) = w"
| "filled xs (Arg i) = xs ! i"

definition say :: "words list \<Rightarrow> word_piece list \<Rightarrow> words" where
  "say xs ps = concat (map (filled xs) ps)"

section \<open>Names\<close>

definition COUNTRY_TR :: "(string \<times> words) list" where
  "COUNTRY_TR =
    [(''England'', [304] @ asc ''ngiltere''), (''Spain'', [304] @ asc ''spanya''),
     (''Italy'', [304] @ asc ''talya''), (''Germany'', asc ''Almanya''), (''France'', asc ''Fransa''),
     (''Portugal'', asc ''Portekiz''), (''Netherlands'', asc ''Hollanda''),
     (''Turkey'', asc ''T'' @ [252] @ asc ''rkiye''), (''Belgium'', asc ''Bel'' @ [231] @ asc ''ika''),
     (''Scotland'', [304] @ asc ''sko'' @ [231] @ asc ''ya''), (''Brazil'', asc ''Brezilya''),
     (''Argentina'', asc ''Arjantin''), (''USA'', asc ''ABD''), (''Saudi Arabia'', asc ''Suudi Arabistan''),
     (''Russia'', asc ''Rusya''), (''Mexico'', asc ''Meksika''), (''Greece'', asc ''Yunanistan''),
     (''Austria'', asc ''Avusturya''), (''Switzerland'', [304] @ asc ''svi'' @ [231] @ asc ''re''),
     (''Ukraine'', asc ''Ukrayna'')]"

definition COUNTRY_DE :: "(string \<times> words) list" where
  "COUNTRY_DE =
    [(''England'', asc ''England''), (''Spain'', asc ''Spanien''), (''Italy'', asc ''Italien''),
     (''Germany'', asc ''Deutschland''), (''France'', asc ''Frankreich''), (''Portugal'', asc ''Portugal''),
     (''Netherlands'', asc ''Niederlande''), (''Turkey'', asc ''T'' @ [252] @ asc ''rkei''),
     (''Belgium'', asc ''Belgien''), (''Scotland'', asc ''Schottland''), (''Brazil'', asc ''Brasilien''),
     (''Argentina'', asc ''Argentinien''), (''USA'', asc ''USA''), (''Saudi Arabia'', asc ''Saudi-Arabien''),
     (''Russia'', asc ''Russland''), (''Mexico'', asc ''Mexiko''), (''Greece'', asc ''Griechenland''),
     (''Austria'', [214] @ asc ''sterreich''), (''Switzerland'', asc ''Schweiz''), (''Ukraine'', asc ''Ukraine'')]"

definition CLUB_TR :: "(string \<times> words) list" where
  "CLUB_TR =
    [(''bay'', asc ''Bayern M'' @ [252] @ asc ''nih''), (''int'', asc ''Inter''),
     (''m60'', asc ''1860 M'' @ [252] @ asc ''nih''), (''bsc'', asc ''Hertha BSC''),
     (''rso'', asc ''Real Sociedad'')]"

definition CLUB_DE :: "(string \<times> words) list" where
  "CLUB_DE =
    [(''bay'', asc ''Bayern M'' @ [252] @ asc ''nchen''), (''m60'', asc ''1860 M'' @ [252] @ asc ''nchen''),
     (''koe'', asc ''1. FC K'' @ [246] @ asc ''ln''), (''int'', asc ''Inter Mailand''),
     (''mil'', asc ''AC Mailand''), (''rom'', asc ''AS Rom''), (''nap'', asc ''SSC Neapel''),
     (''fio'', asc ''AC Florenz''), (''tor'', asc ''FC Turin''), (''gen'', asc ''CFC Genua''),
     (''bar'', asc ''FC Barcelona''), (''sev'', asc ''FC Sevilla''), (''val'', asc ''FC Valencia''),
     (''ben'', asc ''Benfica Lissabon''), (''spo'', asc ''Sporting Lissabon''),
     (''sta'', asc ''Standard L'' @ [252] @ asc ''ttich''), (''aek'', asc ''AEK Athen''),
     (''spm'', asc ''Spartak Moskau''), (''csk'', asc ''ZSKA Moskau''), (''lmo'', asc ''Lokomotive Moskau''),
     (''dmo'', asc ''Dynamo Moskau''), (''tmo'', asc ''Torpedo Moskau''), (''zen'', asc ''Zenit St. Petersburg''),
     (''dyn'', asc ''Dynamo Kiew''), (''sha2'', asc ''Schachtar Donezk''), (''mtl2'', asc ''Metalist Charkiw''),
     (''mdo'', asc ''Metalurh Donezk''), (''fcz'', asc ''FC Z'' @ [252] @ asc ''rich'')]"

definition NATION_DE :: "(string \<times> words) list" where
  "NATION_DE =
    [(''es'', asc ''Spanien''), (''fr'', asc ''Frankreich''), (''gb-eng'', asc ''England''),
     (''it'', asc ''Italien''), (''br'', asc ''Brasilien''), (''de'', asc ''Deutschland''),
     (''ar'', asc ''Argentinien''), (''nl'', asc ''Niederlande''), (''pt'', asc ''Portugal''),
     (''be'', asc ''Belgien''), (''dk'', asc ''D'' @ [228] @ asc ''nemark''), (''ng'', asc ''Nigeria''),
     (''sn'', asc ''Senegal''), (''hr'', asc ''Kroatien''), (''uy'', asc ''Uruguay''), (''ch'', asc ''Schweiz''),
     (''ci'', asc ''Elfenbeink'' @ [252] @ asc ''ste''), (''tr'', asc ''T'' @ [252] @ asc ''rkei''),
     (''us'', asc ''USA''), (''ie'', asc ''Irland''), (''rs'', asc ''Serbien''), (''gb-sct'', asc ''Schottland''),
     (''ma'', asc ''Marokko''), (''jp'', asc ''Japan''), (''mx'', asc ''Mexiko''), (''co'', asc ''Kolumbien''),
     (''cz'', asc ''Tschechien''), (''se'', asc ''Schweden''), (''gb-wls'', asc ''Wales''), (''pl'', asc ''Polen''),
     (''at'', [214] @ asc ''sterreich''), (''cm'', asc ''Kamerun''), (''gr'', asc ''Griechenland''),
     (''no'', asc ''Norwegen''), (''gb-nir'', asc ''Nordirland''), (''gh'', asc ''Ghana''),
     (''ru'', asc ''Russland''), (''dz'', asc ''Algerien''), (''au'', asc ''Australien''), (''hu'', asc ''Ungarn''),
     (''sk'', asc ''Slowakei''), (''ro'', asc ''Rum'' @ [228] @ asc ''nien''), (''cl'', asc ''Chile''),
     (''ca'', asc ''Kanada''), (''ml'', asc ''Mali''), (''is'', asc ''Island''), (''al'', asc ''Albanien''),
     (''si'', asc ''Slowenien''), (''py'', asc ''Paraguay''), (''ua'', asc ''Ukraine''),
     (''kr'', asc ''S'' @ [252] @ asc ''dkorea''), (''bg'', asc ''Bulgarien''), (''ec'', asc ''Ecuador''),
     (''tg'', asc ''Togo''), (''cr'', asc ''Costa Rica''), (''eg'', [196] @ asc ''gypten''),
     (''za'', asc ''S'' @ [252] @ asc ''dafrika''), (''ga'', asc ''Gabun''), (''ir'', asc ''Iran''),
     (''lr'', asc ''Liberia''), (''xk'', asc ''Kosovo'')]"

section \<open>Dictionaries\<close>

definition strings_en :: "(string \<times> entry) list" where
  "strings_en =
    [(''gamesTitle'', Word (asc ''Games'')),
     (''gamesLede'', Word (asc ''Football trivia to play with a friend on one screen.'')),
     (''playersTag'', Phrase [Arg 0, Lit (asc '' players'')]), (''play'', Word (asc ''Play'')),
     (''soon'', Word (asc ''Coming soon'')), (''backToGames'', Word (asc ''All games'')),
     (''hubError'', Word (asc ''The games could not be loaded.'')),
     (''datasetError'', Word (asc ''The game data could not be loaded.'')), (''retry'', Word (asc ''Retry'')),
     (''loading'', Word (asc ''Loading the game'' @ [8230])), (''language'', Word (asc ''Language'')),
     (''games.playedForBoth.title'', Word (asc ''Who Played For Both?'')),
     (''games.playedForBoth.description'', Word (asc ''Name a footballer who played for both teams. First right answer takes ''
       @ asc ''the point.'')), (''title'', Word (asc ''Who played for both?'')),
     (''sub'', Word (asc ''Name a footballer who played for the club on the left and the club or ''
       @ asc ''country on the right. First correct answer wins the point.'')),
     (''reveal'', Word (asc ''Reveal answer'')), (''next'', Word (asc ''Next pair'')),
     (''start'', Word (asc ''Start game'')), (''idle'', Word (asc ''Press Start for the first pair'')),
     (''mystery'', Word (asc ''Mystery team'')), (''space'', Word (asc ''Space'')),
     (''fit'', Word (asc ''Players who fit'')), (''settings'', Word (asc ''Game settings'')),
     (''optKnown'', Word (asc ''Only show pairs with at least one known answer. Turn off for fully random ''
       @ asc ''pairs, which can be impossible.'')),
     (''optNation'', Word (asc ''Allow countries (club vs country). Turn off for club vs club only.'')),
     (''optFamous'', Word (asc ''Build pairs from well-known players only. Turn off for a much harder game ''
       @ asc ''with lesser-known names.'')), (''leaguesLbl'', Word (asc ''Leagues in play'')),
     (''allL'', Word (asc ''All leagues'')), (''top5'', Word (asc ''Top 5 only'')),
     (''noneL'', Word (asc ''Clear'')), (''timer'', Word (asc ''Round timer'')), (''off'', Word (asc ''Off'')),
     (''s20'', Word (asc ''20 s'')), (''s30'', Word (asc ''30 s'')), (''s60'', Word (asc ''60 s'')),
     (''reset'', Word (asc ''Reset scores'')), (''scoreboard'', Word (asc ''Scoreboard'')),
     (''timeLeft'', Word (asc ''Time left'')), (''round'', Phrase [Lit (asc ''Round ''), Arg 0]),
     (''player'', Phrase [Lit (asc ''Player ''), Arg 0]),
     (''playerName'', Phrase [Lit (asc ''Player ''), Arg 0, Lit (asc '' name'')]),
     (''point'', Phrase [Lit (asc ''+1 ''), Arg 0]), (''club'', Word (asc ''Club'')),
     (''nation'', Word (asc ''National team'')), (''flagOf'', Phrase [Lit (asc ''Flag of ''), Arg 0]),
     (''badgeOf'', Phrase [Arg 0, Lit (asc '' badge'')]), (''country'', Named []),
     (''more'', Phrase [Lit (asc ''+''), Arg 0, Lit (asc '' more'')]),
     (''needLeague'', Word (asc ''Pick at least one league to play.'')),
     (''none'', Phrase [Lit (asc ''No player in this game'' @ [39]
       @ asc ''s list played for both ''), Arg 0, Lit (asc '' and ''), Arg 1, Lit (asc ''. If someone named a real one, give them the point.'')]),
     (''note'', Phrase [Lit (asc ''Country flags are real. Clubs are shown as badges in club colours rather ''
       @ asc ''than official crests, which are trademarks. The game knows ''), Arg 0, Lit (asc '' players across ''), Arg 1, Lit (asc '' clubs in ''), Arg 3, Lit (asc '' leagues and ''), Arg 2, Lit (asc '' national teams. Careers come from historic transfer records (1992''
       @ [8211] @ asc ''2022), big-five league squads (2010'' @ [8211]
       @ asc ''2026) and hand-checked legends, and include loan spells. The other player ''
       @ asc ''may still know a correct name that isn'' @ [39] @ asc ''t listed.'')]),
     (''sources'', Word (asc ''Sources: Transfermarkt transfer records 1992'' @ [8211]
       @ asc ''2022 (github.com/ewenme/transfers), Transfermarkt player profiles (github.com/salimt/football-datasets), ''
       @ asc ''FBref big-five league squads 2010'' @ [8211]
       @ asc ''2026 (worldfootballR_data), plus hand-checked legends. Flags: flag-icons '' @ asc ''(MIT).''))]"

definition strings_tr :: "(string \<times> entry) list" where
  "strings_tr =
    [(''gamesTitle'', Word (asc ''Oyunlar'')),
     (''gamesLede'', Word (asc ''Tek ekranda bir arkada'' @ [351, 305] @ asc ''nla oynayabilece'' @ [287]
       @ asc ''in futbol bilgi yar'' @ [305, 351] @ asc ''malar'' @ [305] @ asc ''.'')),
     (''playersTag'', Phrase [Arg 0, Lit (asc '' oyuncu'')]), (''play'', Word (asc ''Oyna'')),
     (''soon'', Word (asc ''Yak'' @ [305] @ asc ''nda'')),
     (''backToGames'', Word (asc ''T'' @ [252] @ asc ''m oyunlar'')),
     (''hubError'', Word (asc ''Oyunlar y'' @ [252] @ asc ''klenemedi.'')),
     (''datasetError'', Word (asc ''Oyun verileri y'' @ [252] @ asc ''klenemedi.'')),
     (''retry'', Word (asc ''Tekrar dene'')),
     (''loading'', Word (asc ''Oyun y'' @ [252] @ asc ''kleniyor'' @ [8230])), (''language'', Word (asc ''Dil'')),
     (''games.playedForBoth.title'', Word ([304] @ asc ''kisinde de kim oynad'' @ [305] @ asc ''?'')),
     (''games.playedForBoth.description'', Word ([304] @ asc ''ki tak'' @ [305] @ asc ''mda da oynam'' @ [305, 351]
       @ asc '' bir futbolcu s'' @ [246] @ asc ''yleyin. '' @ [304] @ asc ''lk do'' @ [287] @ asc ''ru cevab'' @ [305]
       @ asc '' veren puan'' @ [305] @ asc '' al'' @ [305] @ asc ''r.'')),
     (''title'', Word ([304] @ asc ''kisinde de kim oynad'' @ [305] @ asc ''?'')),
     (''sub'', Word (asc ''Soldaki kul'' @ [252] @ asc ''pte ve sa'' @ [287] @ asc ''daki kul'' @ [252]
       @ asc ''pte ya da milli tak'' @ [305] @ asc ''mda oynam'' @ [305, 351] @ asc '' bir futbolcu s'' @ [246]
       @ asc ''yleyin. '' @ [304] @ asc ''lk do'' @ [287] @ asc ''ru cevab'' @ [305] @ asc '' veren puan'' @ [305]
       @ asc '' al'' @ [305] @ asc ''r.'')),
     (''reveal'', Word (asc ''Cevab'' @ [305] @ asc '' g'' @ [246] @ asc ''ster'')),
     (''next'', Word (asc ''Sonraki e'' @ [351] @ asc ''le'' @ [351] @ asc ''me'')),
     (''start'', Word (asc ''Oyunu ba'' @ [351] @ asc ''lat'')),
     (''idle'', Word ([304] @ asc ''lk e'' @ [351] @ asc ''le'' @ [351] @ asc ''me i'' @ [231] @ asc ''in Ba'' @ [351]
       @ asc ''lat'' @ [39] @ asc ''a bas'' @ [305] @ asc ''n'')),
     (''mystery'', Word (asc ''Gizli tak'' @ [305] @ asc ''m'')),
     (''space'', Word (asc ''Bo'' @ [351] @ asc ''luk'')), (''fit'', Word (asc ''Uyan oyuncular'')),
     (''settings'', Word (asc ''Oyun ayarlar'' @ [305])),
     (''optKnown'', Word (asc ''Yaln'' @ [305] @ asc ''zca en az bir bilinen cevab'' @ [305] @ asc '' olan e'' @ [351]
       @ asc ''le'' @ [351] @ asc ''meleri g'' @ [246] @ asc ''ster. Kapat'' @ [305] @ asc ''rsan'' @ [305]
       @ asc ''z e'' @ [351] @ asc ''le'' @ [351] @ asc ''meler tamamen rastgele olur ve baz'' @ [305] @ asc ''lar''
       @ [305] @ asc ''n'' @ [305] @ asc ''n cevab'' @ [305] @ asc '' olmayabilir.'')),
     (''optNation'', Word ([220] @ asc ''lkelere izin ver (kul'' @ [252] @ asc ''p - milli tak'' @ [305]
       @ asc ''m). Kapat'' @ [305] @ asc ''rsan'' @ [305] @ asc ''z yaln'' @ [305] @ asc ''zca kul'' @ [252]
       @ asc ''p - kul'' @ [252] @ asc ''p e'' @ [351] @ asc ''le'' @ [351] @ asc ''meleri gelir.'')),
     (''optFamous'', Word (asc ''E'' @ [351] @ asc ''le'' @ [351] @ asc ''meleri yaln'' @ [305] @ asc ''zca tan''
       @ [305] @ asc ''nm'' @ [305, 351] @ asc '' oyunculardan olu'' @ [351] @ asc ''tur. Kapat'' @ [305]
       @ asc ''rsan'' @ [305] @ asc ''z daha az bilinen isimlerle '' @ [231] @ asc ''ok daha zor bir oyun olur.'')),
     (''leaguesLbl'', Word (asc ''Oyundaki ligler'')), (''allL'', Word (asc ''T'' @ [252] @ asc ''m ligler'')),
     (''top5'', Word (asc ''Sadece 5 b'' @ [252] @ asc ''y'' @ [252] @ asc ''k lig'')),
     (''noneL'', Word (asc ''Temizle'')), (''timer'', Word (asc ''Tur s'' @ [252] @ asc ''resi'')),
     (''off'', Word (asc ''Kapal'' @ [305])), (''s20'', Word (asc ''20 sn'')), (''s30'', Word (asc ''30 sn'')),
     (''s60'', Word (asc ''60 sn'')),
     (''reset'', Word (asc ''Skorlar'' @ [305] @ asc '' s'' @ [305] @ asc ''f'' @ [305] @ asc ''rla'')),
     (''scoreboard'', Word (asc ''Skor tabelas'' @ [305])),
     (''timeLeft'', Word (asc ''Kalan s'' @ [252] @ asc ''re'')), (''round'', Phrase [Lit (asc ''Tur ''), Arg 0]),
     (''player'', Phrase [Lit (asc ''Oyuncu ''), Arg 0]),
     (''playerName'', Phrase [Lit (asc ''Oyuncu ''), Arg 0, Lit (asc '' ad'' @ [305])]),
     (''point'', Phrase [Lit (asc ''+1 ''), Arg 0]), (''club'', Word (asc ''Kul'' @ [252] @ asc ''p'')),
     (''nation'', Word (asc ''Milli tak'' @ [305] @ asc ''m'')),
     (''flagOf'', Phrase [Arg 0, Lit (asc '' bayra'' @ [287, 305])]),
     (''badgeOf'', Phrase [Arg 0, Lit (asc '' rozeti'')]), (''country'', Named COUNTRY_TR),
     (''more'', Phrase [Lit (asc ''+''), Arg 0, Lit (asc '' oyuncu daha'')]),
     (''needLeague'', Word (asc ''Oynamak i'' @ [231] @ asc ''in en az bir lig se'' @ [231] @ asc ''in.'')),
     (''none'', Phrase [Lit (asc ''Bu oyunun listesinde hem ''), Arg 0, Lit (asc '' hem de ''), Arg 1, Lit (asc '' formas''
       @ [305] @ asc ''n'' @ [305] @ asc '' giymi'' @ [351] @ asc '' bir oyuncu yok. Ger'' @ [231]
       @ asc ''ek bir isim s'' @ [246] @ asc ''yleyen olursa puan'' @ [305] @ asc '' ona verin.'')]),
     (''note'', Phrase [Lit ([220] @ asc ''lke bayraklar'' @ [305] @ asc '' ger'' @ [231] @ asc ''ektir. Kul'' @ [252]
       @ asc ''pler, tescilli marka olan resmi armalar yerine kul'' @ [252] @ asc ''p renklerindeki rozetlerle g''
       @ [246] @ asc ''sterilir. Oyun ''), Arg 3, Lit (asc '' ligdeki ''), Arg 1, Lit (asc '' kul'' @ [252]
       @ asc ''p ve ''), Arg 2, Lit (asc '' milli tak'' @ [305] @ asc ''mdan ''), Arg 0, Lit (asc '' oyuncuyu tan''
       @ [305] @ asc ''r. Kariyerler 1992'' @ [8211] @ asc ''2022 transfer kay'' @ [305] @ asc ''tlar'' @ [305]
       @ asc ''ndan, 2010'' @ [8211] @ asc ''2026 be'' @ [351] @ asc '' b'' @ [252] @ asc ''y'' @ [252]
       @ asc ''k lig kadrolar'' @ [305] @ asc ''ndan ve elle kontrol edilmi'' @ [351]
       @ asc '' efsanelerden gelir; kiral'' @ [305] @ asc ''k d'' @ [246]
       @ asc ''nemler de dahildir. Rakibiniz listede olmayan do'' @ [287] @ asc ''ru bir isim de bilebilir.'')]),
     (''sources'', Word (asc ''Kaynaklar: Transfermarkt transfer kay'' @ [305] @ asc ''tlar'' @ [305] @ asc '' 1992''
       @ [8211]
       @ asc ''2022 (github.com/ewenme/transfers), Transfermarkt oyuncu profilleri (github.com/salimt/football-datasets), ''
       @ asc ''FBref be'' @ [351] @ asc '' b'' @ [252] @ asc ''y'' @ [252] @ asc ''k lig kadrolar'' @ [305]
       @ asc '' 2010'' @ [8211] @ asc ''2026 (worldfootballR_data) ve elle kontrol edilmi'' @ [351]
       @ asc '' efsaneler. Bayraklar: flag-icons (MIT).''))]"

definition strings_de :: "(string \<times> entry) list" where
  "strings_de =
    [(''gamesTitle'', Word (asc ''Spiele'')),
     (''gamesLede'', Word (asc ''Fu'' @ [223] @ asc ''ball-Quiz f'' @ [252] @ asc ''r zwei '' @ [8211]
       @ asc '' mit Freunden an einem Bildschirm.'')), (''playersTag'', Phrase [Arg 0, Lit (asc '' Spieler'')]),
     (''play'', Word (asc ''Spielen'')), (''soon'', Word (asc ''Demn'' @ [228] @ asc ''chst'')),
     (''backToGames'', Word (asc ''Alle Spiele'')),
     (''hubError'', Word (asc ''Die Spiele konnten nicht geladen werden.'')),
     (''datasetError'', Word (asc ''Die Spieldaten konnten nicht geladen werden.'')),
     (''retry'', Word (asc ''Erneut versuchen'')), (''loading'', Word (asc ''Spiel wird geladen'' @ [8230])),
     (''language'', Word (asc ''Sprache'')),
     (''games.playedForBoth.title'', Word (asc ''Wer spielte f'' @ [252] @ asc ''r beide?'')),
     (''games.playedForBoth.description'', Word (asc ''Nenne einen Fu'' @ [223] @ asc ''baller, der f'' @ [252]
       @ asc ''r beide Teams gespielt hat. Die erste richtige Antwort holt den Punkt.'')),
     (''title'', Word (asc ''Wer spielte f'' @ [252] @ asc ''r beide?'')),
     (''sub'', Word (asc ''Nenne einen Fu'' @ [223] @ asc ''baller, der f'' @ [252] @ asc ''r den Verein links und f''
       @ [252] @ asc ''r den Verein oder das Land rechts gespielt hat. Die erste richtige Antwort ''
       @ asc ''holt den Punkt.'')), (''reveal'', Word (asc ''Antwort zeigen'')),
     (''next'', Word (asc ''N'' @ [228] @ asc ''chstes Paar'')), (''start'', Word (asc ''Spiel starten'')),
     (''idle'', Word (asc ''Dr'' @ [252] @ asc ''cke '' @ [8222] @ asc ''Spiel starten'' @ [8220] @ asc '' f'' @ [252]
       @ asc ''r das erste Paar'')), (''mystery'', Word (asc ''Unbekanntes Team'')),
     (''space'', Word (asc ''Leertaste'')), (''fit'', Word (asc ''Passende Spieler'')),
     (''settings'', Word (asc ''Spieleinstellungen'')),
     (''optKnown'', Word (asc ''Nur Paare mit mindestens einer bekannten Antwort zeigen. Ausgeschaltet ''
       @ asc ''sind die Paare v'' @ [246] @ asc ''llig zuf'' @ [228] @ asc ''llig und manchmal unl'' @ [246]
       @ asc ''sbar.'')),
     (''optNation'', Word (asc ''L'' @ [228]
       @ asc ''nder erlauben (Verein gegen Land). Ausgeschaltet nur Verein gegen Verein.'')),
     (''optFamous'', Word (asc ''Paare nur aus bekannten Spielern bilden. Ausgeschaltet wird es mit weniger ''
       @ asc ''bekannten Namen deutlich schwerer.'')), (''leaguesLbl'', Word (asc ''Ligen im Spiel'')),
     (''allL'', Word (asc ''Alle Ligen'')), (''top5'', Word (asc ''Nur Top 5'')), (''noneL'', Word (asc ''Leeren'')),
     (''timer'', Word (asc ''Rundentimer'')), (''off'', Word (asc ''Aus'')), (''s20'', Word (asc ''20 s'')),
     (''s30'', Word (asc ''30 s'')), (''s60'', Word (asc ''60 s'')),
     (''reset'', Word (asc ''Punkte zur'' @ [252] @ asc ''cksetzen'')),
     (''scoreboard'', Word (asc ''Anzeigetafel'')), (''timeLeft'', Word (asc ''Verbleibende Zeit'')),
     (''round'', Phrase [Lit (asc ''Runde ''), Arg 0]), (''player'', Phrase [Lit (asc ''Spieler ''), Arg 0]),
     (''playerName'', Phrase [Lit (asc ''Name von Spieler ''), Arg 0]),
     (''point'', Phrase [Lit (asc ''+1 ''), Arg 0]), (''club'', Word (asc ''Verein'')),
     (''nation'', Word (asc ''Nationalmannschaft'')), (''flagOf'', Phrase [Lit (asc ''Flagge von ''), Arg 0]),
     (''badgeOf'', Phrase [Lit (asc ''Wappen von ''), Arg 0]), (''country'', Named COUNTRY_DE),
     (''more'', Phrase [Lit (asc ''+''), Arg 0, Lit (asc '' weitere'')]),
     (''needLeague'', Word (asc ''W'' @ [228] @ asc ''hle mindestens eine Liga aus.'')),
     (''none'', Phrase [Lit (asc ''Kein Spieler in der Liste dieses Spiels hat sowohl f'' @ [252]
       @ asc ''r ''), Arg 0, Lit (asc '' als auch f'' @ [252]
       @ asc ''r ''), Arg 1, Lit (asc '' gespielt. Wenn jemand einen echten genannt hat, gib ihm den Punkt.'')]),
     (''note'', Phrase [Lit (asc ''Die L'' @ [228]
       @ asc ''nderflaggen sind echt. Vereine werden als Abzeichen in den Vereinsfarben ''
       @ asc ''gezeigt statt mit offiziellen Wappen, die Markenzeichen sind. Das Spiel ''
       @ asc ''kennt ''), Arg 0, Lit (asc '' Spieler aus ''), Arg 1, Lit (asc '' Vereinen in ''), Arg 3, Lit (asc '' Ligen und ''), Arg 2, Lit (asc '' Nationalmannschaften. Die Karrieren stammen aus historischen Transferdaten ''
       @ asc ''(1992'' @ [8211] @ asc ''2022), Kadern der f'' @ [252] @ asc ''nf gro'' @ [223]
       @ asc ''en Ligen (2010'' @ [8211] @ asc ''2026) und von Hand gepr'' @ [252]
       @ asc ''ften Legenden, Leihen inklusive. Dein Gegner kennt vielleicht trotzdem ''
       @ asc ''einen richtigen Namen, der nicht aufgef'' @ [252] @ asc ''hrt ist.'')]),
     (''sources'', Word (asc ''Quellen: Transfermarkt-Transferdaten 1992'' @ [8211]
       @ asc ''2022 (github.com/ewenme/transfers), Transfermarkt-Spielerprofile (github.com/salimt/football-datasets), ''
       @ asc ''FBref-Kader der f'' @ [252] @ asc ''nf gro'' @ [223] @ asc ''en Ligen 2010'' @ [8211]
       @ asc ''2026 (worldfootballR_data) sowie von Hand gepr'' @ [252]
       @ asc ''fte Legenden. Flaggen: flag-icons (MIT).''))]"

definition strings :: "game_lang \<Rightarrow> (string \<times> entry) list" where
  "strings l = (case l of En \<Rightarrow> strings_en | Tr \<Rightarrow> strings_tr | De \<Rightarrow> strings_de)"

section \<open>Looking up\<close>

definition in_table :: "(string \<times> words) list \<Rightarrow> string \<Rightarrow> words \<Rightarrow> words" where
  "in_table t k fallback = (case map_of t k of Some w \<Rightarrow> w | None \<Rightarrow> fallback)"

definition clubName :: "game_lang \<Rightarrow> string \<Rightarrow> words \<Rightarrow> words" where
  "clubName l i name = in_table (case l of En \<Rightarrow> [] | Tr \<Rightarrow> CLUB_TR | De \<Rightarrow> CLUB_DE) i name"

definition nationName :: "game_lang \<Rightarrow> words \<Rightarrow> words \<Rightarrow> string \<Rightarrow> words" where
  "nationName l en tr fl = (case l of Tr \<Rightarrow> tr | De \<Rightarrow> in_table NATION_DE fl en | En \<Rightarrow> en)"

definition country_name :: "game_lang \<Rightarrow> string \<Rightarrow> words" where
  "country_name l c = in_table (case l of En \<Rightarrow> [] | Tr \<Rightarrow> COUNTRY_TR | De \<Rightarrow> COUNTRY_DE) c (asc c)"

text \<open>\<open>catalog\<close>: a text, or the key when the dictionary has none or has a function there.\<close>

definition catalog :: "game_lang \<Rightarrow> string \<Rightarrow> words" where
  "catalog l key = (case map_of (strings l) key of Some (Word w) \<Rightarrow> w | _ \<Rightarrow> asc key)"

section \<open>The choice of a language\<close>

definition lang_code :: "game_lang \<Rightarrow> string" where
  "lang_code l = (case l of En \<Rightarrow> ''en'' | Tr \<Rightarrow> ''tr'' | De \<Rightarrow> ''de'')"

definition isGameLang :: "string \<Rightarrow> game_lang option" where
  "isGameLang s = (if s = ''en'' then Some En else if s = ''tr'' then Some Tr else if s = ''de'' then Some De else None)"

text \<open>
  Where the page runs: on the server, or in a browser with its language and a storage, which may be blocked.
\<close>

record surroundings =
  in_browser :: bool
  storage_blocked :: bool
  stored_lang :: "string option"
  browser_language :: string

definition read_lang :: "surroundings \<Rightarrow> game_lang" where
  "read_lang w =
     (if \<not> in_browser w then En
      else case (if storage_blocked w then None else Option.bind (stored_lang w) isGameLang) of
        Some l \<Rightarrow> l
      | None \<Rightarrow> (case isGameLang (take 2 (browser_language w)) of Some l \<Rightarrow> l | None \<Rightarrow> En))"

definition set_lang :: "game_lang \<Rightarrow> surroundings \<Rightarrow> game_lang \<times> surroundings" where
  "set_lang l w =
     (l, if in_browser w \<and> \<not> storage_blocked w then w\<lparr>stored_lang := Some (lang_code l)\<rparr> else w)"

lemma isGameLang_code [simp]: "isGameLang (lang_code l) = Some l"
  by (cases l) (simp_all add: isGameLang_def lang_code_def)

text \<open>
  A language that was chosen is the language of the next visit, unless the storage is blocked; then the next visit is as
  if nothing had been chosen.
\<close>
theorem chosen_language_is_read:
  "in_browser w \<Longrightarrow> read_lang (snd (set_lang l w)) = (if storage_blocked w then read_lang w else l)"
  by (simp add: set_lang_def read_lang_def)

theorem chosen_language_is_read_witness:
  "read_lang (snd (set_lang Tr \<lparr>in_browser = True, storage_blocked = False, stored_lang = Some ''fr'', browser_language = ''de-AT''\<rparr>)) = Tr"
  using chosen_language_is_read
    [of "\<lparr>in_browser = True, storage_blocked = False, stored_lang = Some ''fr'', browser_language = ''de-AT''\<rparr>" Tr] by simp

section \<open>The dictionaries agree\<close>

text \<open>The type \<open>GameStrings\<close>: what kind of entry a key has; and which arguments a template uses.\<close>

fun entry_kind :: "entry \<Rightarrow> nat" where
  "entry_kind (Word w) = 0"
| "entry_kind (Phrase ps) = 1"
| "entry_kind (Named t) = 2"

fun piece_args :: "word_piece list \<Rightarrow> nat list" where
  "piece_args [] = []"
| "piece_args (Lit w # ps) = piece_args ps"
| "piece_args (Arg i # ps) = i # piece_args ps"

fun entry_args :: "entry \<Rightarrow> nat list" where
  "entry_args (Phrase ps) = sort (piece_args ps)"
| "entry_args e = []"

fun entry_said :: "entry \<Rightarrow> bool" where
  "entry_said (Word w) = (w \<noteq> [])"
| "entry_said (Phrase ps) = (ps \<noteq> [])"
| "entry_said (Named t) = True"

definition signature_of :: "game_lang \<Rightarrow> (string \<times> nat \<times> nat list) list" where
  "signature_of l = map (\<lambda>(k, e). (k, entry_kind e, entry_args e)) (strings l)"

lemmas string_tables = strings_en_def strings_tr_def strings_de_def

lemma signatures: "signature_of Tr = signature_of En" "signature_of De = signature_of En"
  by (simp_all add: signature_of_def strings_def string_tables)

lemma keys_distinct: "distinct (map fst (strings En))"
  by (simp add: strings_def string_tables)

lemma all_said: "list_all (\<lambda>(k, e). entry_said e) (strings l)"
  by (cases l) (simp_all add: strings_def string_tables)

text \<open>
  Every language has the same entries: the same keys, of the same kind, each template with the same arguments as often, and
  none of them empty.
\<close>
theorem languages_say_the_same:
  "signature_of l = signature_of En \<and> distinct (map fst (strings l)) \<and> list_all (\<lambda>(k, e). entry_said e) (strings l)"
proof -
  have "map fst (strings l) = map fst (signature_of l)" for l
    by (simp add: signature_of_def case_prod_beta comp_def)
  moreover have "signature_of l = signature_of En" by (cases l) (simp_all add: signatures)
  ultimately show ?thesis using keys_distinct all_said by metis
qed

text \<open>The cards the server describes have their words in every language.\<close>

definition CATALOG_KEYS :: "string list" where
  "CATALOG_KEYS = [''games.playedForBoth.title'', ''games.playedForBoth.description'']"

lemma catalog_words:
  "list_all (\<lambda>k. case map_of (strings l) k of Some (Word w) \<Rightarrow> w \<noteq> asc k | _ \<Rightarrow> False) CATALOG_KEYS"
  by (cases l) (simp_all add: CATALOG_KEYS_def strings_def string_tables)

theorem catalog_is_translated:
  assumes "key \<in> set CATALOG_KEYS"
  shows "map_of (strings l) key = Some (Word (catalog l key)) \<and> catalog l key \<noteq> asc key"
  using catalog_words [of l] assms
  by (auto simp: list_all_iff catalog_def split: option.splits entry.splits)

theorem catalog_is_translated_witness: "catalog De ''games.playedForBoth.title'' \<noteq> asc ''games.playedForBoth.title''"
  using catalog_is_translated [of "''games.playedForBoth.title''" De] by (simp add: CATALOG_KEYS_def)

lemma catalog_falls_back: "key \<notin> fst ` set (strings l) \<Longrightarrow> catalog l key = asc key"
  by (simp add: catalog_def map_of_eq_None_iff [symmetric])

text \<open>The default names of the players are those of the dictionary.\<close>

lemma default_names_are_words:
  "map_of (strings l) ''player'' = Some (Phrase ps) \<Longrightarrow> say [asc (nat_to_string n)] ps = asc (player_default l n)"
  by (cases l) (auto simp: strings_def string_tables player_default_def say_def asc_def)

text \<open>Countries: both tables translate the same ones, and no two get the same name.\<close>

lemma countries_keep_apart:
  "map fst COUNTRY_TR = map fst COUNTRY_DE \<and> distinct (map fst COUNTRY_DE) \<and> distinct (map snd COUNTRY_TR) \<and> distinct (map snd COUNTRY_DE)"
  by (simp add: COUNTRY_TR_def COUNTRY_DE_def asc_def)

lemma clubs_keep_apart:
  "distinct (map fst CLUB_DE) \<and> distinct (map snd CLUB_DE) \<and> distinct (map fst CLUB_TR) \<and> distinct (map snd CLUB_TR)"
  by (simp add: CLUB_TR_def CLUB_DE_def asc_def)

section \<open>The codes on the badges\<close>

definition SHORT :: "(string \<times> words) list" where
  "SHORT =
    [(''rma'', asc ''RMA''), (''bar'', asc ''FCB''), (''psg'', asc ''PSG''), (''mun'', asc ''MUN''),
     (''mci'', asc ''MCI''), (''liv'', asc ''LFC''), (''che'', asc ''CFC''), (''ars'', asc ''AFC''),
     (''tot'', asc ''THFC''), (''juv'', asc ''JUV''), (''mil'', asc ''ACM''), (''int'', asc ''INT''),
     (''bay'', asc ''FCB''), (''bvb'', asc ''BVB''), (''atm'', asc ''ATM''), (''gal'', asc ''GS''),
     (''fen'', asc ''FB''), (''bjk'', asc ''BJK''), (''ts'', asc ''TS''), (''fcp'', asc ''FCP''),
     (''ben'', asc ''SLB''), (''spo'', asc ''SCP''), (''ajx'', asc ''AJX''), (''psv'', asc ''PSV''),
     (''fey'', asc ''FEY''), (''nap'', asc ''SSCN''), (''rom'', asc ''ROMA''), (''laz'', asc ''SSL''),
     (''lyo'', asc ''OL''), (''mar'', asc ''OM''), (''mon'', asc ''ASM''), (''lev'', asc ''B04''),
     (''s04'', asc ''S04''), (''whu'', asc ''WHU''), (''new'', asc ''NUFC''), (''avl'', asc ''AVFC''),
     (''eve'', asc ''EFC''), (''lee'', asc ''LUFC''), (''wol'', asc ''WOL''), (''ibfk'', [304] @ asc ''BFK''),
     (''boc'', asc ''CABJ''), (''riv'', asc ''CARP''), (''mia'', asc ''MIA''), (''hil'', asc ''HIL''),
     (''nas'', asc ''NSR''), (''cel'', asc ''CEL''), (''ran'', asc ''RFC''), (''zen'', asc ''ZEN''),
     (''spm'', asc ''SPM''), (''csk'', asc ''CSKA''), (''dyn'', asc ''DYN''), (''sha2'', asc ''SHA''),
     (''and'', asc ''RSCA''), (''cbr'', asc ''CLB''), (''oly'', asc ''OLY''), (''pao'', asc ''PAO''),
     (''aek'', asc ''AEK''), (''paok'', asc ''PAOK''), (''rbs'', asc ''RBS''), (''fcb'', asc ''FCB''),
     (''yb'', asc ''YB''), (''lag'', asc ''LAG''), (''lafc'', asc ''LAFC''), (''nyc'', asc ''NYC''),
     (''nyrb'', asc ''RBNY'')]"

definition FILLER :: "string list" where
  "FILLER = [''fc'', ''cf'', ''ac'', ''as'', ''sc'', ''cd'', ''ud'', ''rc'', ''us'', ''sl'', ''afc'', ''club'', ''de'', ''la'',
     ''of'', ''the'', ''1.'', ''real'']"

text \<open>ASCII letters without their case, as the flag \<open>i\<close> has it; and the spaces of \<open>\s\<close>.\<close>

definition fold_case :: "nat \<Rightarrow> nat" where
  "fold_case u = (if 65 \<le> u \<and> u \<le> 90 then u + 32 else u)"

definition is_space :: "nat \<Rightarrow> bool" where
  "is_space u \<longleftrightarrow> 9 \<le> u \<and> u \<le> 13 \<or> u \<in> {32, 160, 5760, 8232, 8233, 8239, 8287, 12288, 65279} \<or> 8192 \<le> u \<and> u \<le> 8202"

definition is_filler :: "words \<Rightarrow> bool" where
  "is_filler w \<longleftrightarrow> map fold_case w \<in> asc ` set FILLER"

text \<open>\<open>split(/[\s-]+/)\<close> without its empty parts.\<close>

fun parts_of :: "words \<Rightarrow> words \<Rightarrow> words list" where
  "parts_of w [] = (if w = [] then [] else [rev w])"
| "parts_of w (u # us) =
     (if is_space u \<or> u = 45 then (if w = [] then parts_of [] us else rev w # parts_of [] us) else parts_of (u # w) us)"

definition name_words :: "words \<Rightarrow> words list" where
  "name_words name = filter (\<lambda>w. \<not> is_filler w) (parts_of [] (filter (\<lambda>u. u \<noteq> 46 \<and> u \<noteq> 39) name))"

definition shortCode :: "(words \<Rightarrow> words) \<Rightarrow> string \<Rightarrow> words \<Rightarrow> words" where
  "shortCode upper i name =
     (case map_of SHORT i of
        Some c \<Rightarrow> c
      | None \<Rightarrow>
          (let ws = name_words name in
           if 2 \<le> length ws then upper (map hd (take 3 ws))
           else upper (take 3 (case ws of w # _ \<Rightarrow> w | [] \<Rightarrow> name))))"

lemma parts_of_nonempty: "x \<in> set (parts_of w us) \<Longrightarrow> x \<noteq> []"
  by (induction w us rule: parts_of.induct) (auto split: if_splits)

lemma short_table: "(i, c) \<in> set SHORT \<Longrightarrow> 2 \<le> length c \<and> length c \<le> 4"
  by (auto simp: SHORT_def asc_def)

text \<open>
  A badge always has something to show, and little: a fixed code of two to four letters, or the capitals of one to three code
  units of the club's name.
\<close>
theorem badge_codes_are_short:
  assumes "name \<noteq> []"
  shows "(2 \<le> length (shortCode upper i name) \<and> length (shortCode upper i name) \<le> 4 \<and> map_of SHORT i = Some (shortCode upper i name))
    \<or> (\<exists>w. shortCode upper i name = upper w \<and> w \<noteq> [] \<and> length w \<le> 3 \<and> set w \<subseteq> set name)"
proof (cases "map_of SHORT i")
  case (Some c)
  then show ?thesis using short_table [OF map_of_SomeD [OF Some]] by (simp add: shortCode_def)
next
  case None
  let ?ws = "name_words name"
  have in_parts: "set x \<subseteq> set w \<union> set us" if "x \<in> set (parts_of w us)" for x w us
    using that by (induction w us rule: parts_of.induct) (auto split: if_splits)
  have ws: "x \<noteq> [] \<and> set x \<subseteq> set name" if "x \<in> set ?ws" for x
    using that parts_of_nonempty in_parts [of x "[]"] unfolding name_words_def by fastforce
  show ?thesis
  proof (cases "2 \<le> length ?ws")
    case True
    have "hd x \<in> set name" if "x \<in> set (take 3 ?ws)" for x
      using ws [OF in_set_takeD [OF that]] hd_in_set [of x] by blast
    then have "set (map hd (take 3 ?ws)) \<subseteq> set name" by auto
    with True None show ?thesis
      by (intro disjI2 exI [of _ "map hd (take 3 ?ws)"]) (auto simp: shortCode_def Let_def)
  next
    case False
    define w where "w = (case ?ws of w # _ \<Rightarrow> w | [] \<Rightarrow> name)"
    have "w \<noteq> [] \<and> set w \<subseteq> set name" using ws assms by (auto simp: w_def split: list.splits)
    with False None show ?thesis
      by (intro disjI2 exI [of _ "take 3 w"]) (auto simp: shortCode_def Let_def w_def dest: in_set_takeD)
  qed
qed

theorem badge_codes_are_short_witness:
  "shortCode (map (\<lambda>u. if 97 \<le> u \<and> u \<le> 122 then u - 32 else u)) ''xyz'' (asc ''Real Betis'') = asc ''BET''
   \<and> length (asc ''BET'') \<le> 4"
  using badge_codes_are_short [of "asc ''Real Betis''" "map (\<lambda>u. if 97 \<le> u \<and> u \<le> 122 then u - 32 else u)" "''xyz''"]
  by (simp add: shortCode_def SHORT_def name_words_def is_space_def is_filler_def FILLER_def fold_case_def asc_def Let_def)

text \<open>
  The dot goes before the fillers are looked for, so the filler \<open>1.\<close> never matches and such a club keeps its number as a
  word.
\<close>
theorem numbered_clubs_keep_the_number:
  "shortCode id ''fck'' (asc ''1. FC Koeln'') = asc ''1K'' \<and> \<not> list_ex is_filler (parts_of [] (filter (\<lambda>u. u \<noteq> 46 \<and> u \<noteq> 39) (asc ''1.'')))"
  by (simp add: shortCode_def SHORT_def name_words_def is_space_def is_filler_def FILLER_def fold_case_def asc_def Let_def)

section \<open>What is shown of a pair\<close>

text \<open>The label and the side of an entity; \<open>None\<close> is the error of reading what the index does not have.\<close>

definition entry_at :: "'a list \<Rightarrow> nat \<Rightarrow> 'a option" where
  "entry_at xs i = (if i < length xs then Some (xs ! i) else None)"

definition say_word :: "game_lang \<Rightarrow> string \<Rightarrow> words" where
  "say_word l k = (case map_of (strings l) k of Some (Word w) \<Rightarrow> w | _ \<Rightarrow> [])"

definition say_phrase :: "game_lang \<Rightarrow> string \<Rightarrow> words list \<Rightarrow> words" where
  "say_phrase l k xs = (case map_of (strings l) k of Some (Phrase ps) \<Rightarrow> say xs ps | _ \<Rightarrow> [])"

definition entity_label :: "game_lang \<Rightarrow> game_index \<Rightarrow> nat \<Rightarrow> words option" where
  "entity_label l ix e =
     (if isClub ix e
      then map_option (\<lambda>c. clubName l (club_id c) (asc (club_name c))) (entry_at (ix_clubs ix) e)
      else map_option (\<lambda>n. nationName l (asc (nameEN n)) (asc (nameTR n)) (flag n)) (entry_at (ix_nations ix) (e - clubCount ix)))"

record side_view =
  sv_club :: bool
  sv_label :: words
  sv_pill :: words
  sv_code :: words
  sv_colours :: "string \<times> string"
  sv_flag :: string
  sv_alt :: words

definition side :: "(words \<Rightarrow> words) \<Rightarrow> game_lang \<Rightarrow> game_index \<Rightarrow> nat \<Rightarrow> side_view option" where
  "side upper l ix e =
     Option.bind (entity_label l ix e) (\<lambda>label.
       if isClub ix e
       then Option.bind (entry_at (ix_clubs ix) e) (\<lambda>c. map_option (\<lambda>lg.
              \<lparr>sv_club = True, sv_label = label,
               sv_pill = say_word l ''club'' @ [32, 183, 32] @ country_name l (league_country lg),
               sv_code = shortCode upper (club_id c) (asc (club_name c)), sv_colours = (colour1 c, colour2 c), sv_flag = [],
               sv_alt = say_phrase l ''badgeOf'' [label]\<rparr>) (entry_at (ix_leagues ix) (club_league c)))
       else map_option (\<lambda>n.
              \<lparr>sv_club = False, sv_label = label, sv_pill = say_word l ''nation'', sv_code = [], sv_colours = ([], []),
               sv_flag = flag n, sv_alt = say_phrase l ''flagOf'' [label]\<rparr>) (entry_at (ix_nations ix) (e - clubCount ix)))"

text \<open>\<open>sides\<close>: nothing before the first pair, then both or the error of one.\<close>

definition sides :: "(words \<Rightarrow> words) \<Rightarrow> game \<Rightarrow> (side_view \<times> side_view) option option" where
  "sides upper g =
     (case (gindex g, pair g) of
        (Some ix, Some p) \<Rightarrow>
          map_option Some (Option.bind (side upper (lang g) ix (draw_left p)) (\<lambda>a.
            map_option (Pair a) (side upper (lang g) ix (draw_right p))))
      | _ \<Rightarrow> Some None)"

definition game_counts :: "game \<Rightarrow> nat \<times> nat \<times> nat \<times> nat" where
  "game_counts g =
     (case gindex g of
        None \<Rightarrow> (0, 0, 0, 0)
      | Some ix \<Rightarrow> (length (ix_players ix), length (ix_clubs ix), length (ix_nations ix), length (ix_leagues ix)))"

definition timer_percent :: "game \<Rightarrow> int" where
  "timer_percent g = js_round (timeLeft g * 100)"

text \<open>
  \<open>onKey\<close> of the page: the move a key stands for, on a loaded game, without modifiers or repetition and outside of controls.
\<close>

definition game_key :: "real \<Rightarrow> bool \<Rightarrow> bool \<Rightarrow> bool \<Rightarrow> string \<Rightarrow> game \<Rightarrow> game_event option" where
  "game_key now modified in_control space key g =
     (if loadState g \<noteq> Ready \<or> modified \<or> in_control then None
      else if space \<or> key = '' '' then Some (GPrimary now)
      else if key = ''r'' \<or> key = ''R'' then Some GReveal
      else if key = ''1'' then Some (GPoint now True)
      else if key = ''2'' then Some (GPoint now False)
      else None)"

lemma side_fields:
  assumes "clubCount ix = length (ix_clubs ix)" "e < length (ix_clubs ix) + length (ix_nations ix)"
    and "\<And>c. c \<in> set (ix_clubs ix) \<Longrightarrow> club_league c < length (ix_leagues ix)"
  shows "\<exists>v. side upper l ix e = Some v \<and> sv_club v = isClub ix e \<and> Some (sv_label v) = entity_label l ix e
    \<and> sv_code v = (if isClub ix e then shortCode upper (club_id (ix_clubs ix ! e)) (asc (club_name (ix_clubs ix ! e))) else [])
    \<and> sv_colours v = (if isClub ix e then (colour1 (ix_clubs ix ! e), colour2 (ix_clubs ix ! e)) else ([], []))
    \<and> sv_flag v = (if isClub ix e then [] else flag (ix_nations ix ! (e - clubCount ix)))"
proof (cases "isClub ix e")
  case True
  then have e: "e < length (ix_clubs ix)" using assms(1) by (simp add: isClub_def)
  then show ?thesis using True assms(3) [of "ix_clubs ix ! e"] by (simp add: side_def entity_label_def entry_at_def)
next
  case False
  then have "e - clubCount ix < length (ix_nations ix)" using assms(1,2) by (simp add: isClub_def)
  then show ?thesis using False by (simp add: side_def entity_label_def entry_at_def)
qed

text \<open>
  Of an index whose clubs name a league it has, every entity can be shown in every language, and another language changes
  the words only: the badge, its colours and the flag stay.
\<close>
theorem language_changes_words_only:
  assumes "clubCount ix = length (ix_clubs ix)" "e < length (ix_clubs ix) + length (ix_nations ix)"
    and "\<forall>c\<in>set (ix_clubs ix). club_league c < length (ix_leagues ix)"
  shows "\<exists>v w. side upper l ix e = Some v \<and> side upper l' ix e = Some w
    \<and> sv_club v = sv_club w \<and> sv_code v = sv_code w \<and> sv_colours v = sv_colours w \<and> sv_flag v = sv_flag w"
  using side_fields [OF assms(1,2), of upper l] side_fields [OF assms(1,2), of upper l'] assms(3) by auto

definition small_index :: game_index where
  "small_index = \<lparr>ix_leagues = [\<lparr>league_code = ''de1'', league_country = ''Germany'', league_name = ''Bundesliga''\<rparr>],
     ix_clubs = [\<lparr>club_id = ''koe'', club_name = ''Cologne'', colour1 = ''#f00'', colour2 = ''#fff'', club_league = 0\<rparr>],
     ix_nations = [], ix_players = [], clubCount = 1, byEntity = [[]], clubsPerLeague = [0 \<mapsto> Some 1]\<rparr>"

theorem language_changes_words_only_witness:
  "\<exists>v w. side id En small_index 0 = Some v \<and> side id De small_index 0 = Some w \<and> sv_code v = sv_code w"
  using language_changes_words_only [of small_index 0 id En De] by (auto simp: small_index_def)

end
