(* ===== verification/Editor_Cards.thy ===== *)
theory Editor_Cards
  imports Article_Tools
begin

text \<open>
  The rest of the article editor's page: the card an embed is in the text (\<open>embedView\<close> of \<open>articles/editor/tiptap-setup.ts\<close>)
  over a document that changes while its dialog is open, and the title, the cover, the history buttons and the keys of
  \<open>article-editor.ts\<close>.
\<close>

section \<open>The card in the text\<close>

text \<open>
  The blocks of the text in order, each with the identity the editor keeps while it moves; what is not an embed is prose of
  some length.  \<open>getPos\<close> answers with a place, or with nothing for a card that is gone.
\<close>

datatype text_block = Prose nat | Card embed

type_synonym text_body = "(nat \<times> text_block) list"

fun node_size :: "text_block \<Rightarrow> nat" where
  "node_size (Prose n) = n"
| "node_size (Card e) = 1"

fun getPos :: "nat \<Rightarrow> text_body \<Rightarrow> nat option" where
  "getPos i [] = None"
| "getPos i ((j, b) # bs) = (if i = j then Some 0 else map_option (\<lambda>p. node_size b + p) (getPos i bs))"

text \<open>\<open>setNodeMarkup\<close> and \<open>delete\<close> at a place: the block that starts there, with its own size.\<close>

fun mark_at :: "nat \<Rightarrow> embed \<Rightarrow> text_body \<Rightarrow> text_body" where
  "mark_at p e [] = []"
| "mark_at p e ((j, b) # bs) = (if p = 0 then (j, Card e) # bs else (j, b) # mark_at (p - node_size b) e bs)"

fun delete_at :: "nat \<Rightarrow> text_body \<Rightarrow> text_body" where
  "delete_at p [] = []"
| "delete_at p ((j, b) # bs) = (if p = 0 then bs else (j, b) # delete_at (p - node_size b) bs)"

definition card_update :: "nat \<Rightarrow> embed \<Rightarrow> text_body \<Rightarrow> text_body" where
  "card_update i e d = (case getPos i d of None \<Rightarrow> d | Some p \<Rightarrow> mark_at p e d)"

definition card_remove :: "nat \<Rightarrow> text_body \<Rightarrow> text_body" where
  "card_remove i d = (case getPos i d of None \<Rightarrow> d | Some p \<Rightarrow> delete_at p d)"

text \<open>A press on a card's button: the click runs only in an editor that may be edited.\<close>

definition card_press :: "bool \<Rightarrow> (text_body \<Rightarrow> text_body) \<Rightarrow> text_body \<Rightarrow> text_body" where
  "card_press editable act d = (if editable then act d else d)"

text \<open>The view takes over a new node of its own type and asks for a new view otherwise.\<close>

definition view_update :: "embed \<Rightarrow> embed \<Rightarrow> embed option" where
  "view_update old_one next_one = (if embed_type next_one = embed_type old_one then Some next_one else None)"

lemma getPos_None: "getPos i d = None \<longleftrightarrow> i \<notin> fst ` set d"
  by (induction i d rule: getPos.induct) auto

lemma absent_card:
  "i \<notin> fst ` set d \<Longrightarrow> map (\<lambda>(j, b). if j = i then (j, Card e) else (j, b)) d = d \<and> filter (\<lambda>(j, b). j \<noteq> i) d = d"
  by (induction d) auto

lemma update_here:
  "\<forall>b\<in>snd ` set d. 0 < node_size b \<Longrightarrow> getPos i d = Some p \<Longrightarrow>
   mark_at p e d = map (\<lambda>(j, b). if j = i then (j, Card e) else (j, b)) d \<or> \<not> distinct (map fst d)"
proof (induction i d arbitrary: p rule: getPos.induct)
  case (2 i j b bs)
  show ?case
  proof (cases "i = j")
    case True
    with 2(3) absent_card [of i bs e] show ?thesis by auto
  next
    case False
    then obtain q where q: "getPos i bs = Some q" "p = node_size b + q" using 2(3) by auto
    have "mark_at q e bs = map (\<lambda>(j, b). if j = i then (j, Card e) else (j, b)) bs \<or> \<not> distinct (map fst bs)"
      using 2(1) [OF False _ q(1)] 2(2) by simp
    with q(2) False 2(2) show ?thesis by auto
  qed
qed simp

lemma remove_here:
  "\<forall>b\<in>snd ` set d. 0 < node_size b \<Longrightarrow> getPos i d = Some p \<Longrightarrow>
   delete_at p d = filter (\<lambda>(j, b). j \<noteq> i) d \<or> \<not> distinct (map fst d)"
proof (induction i d arbitrary: p rule: getPos.induct)
  case (2 i j b bs)
  show ?case
  proof (cases "i = j")
    case True
    with 2(3) absent_card [of i bs] show ?thesis by auto
  next
    case False
    then obtain q where q: "getPos i bs = Some q" "p = node_size b + q" using 2(3) by auto
    have "delete_at q bs = filter (\<lambda>(j, b). j \<noteq> i) bs \<or> \<not> distinct (map fst bs)"
      using 2(1) [OF False _ q(1)] 2(2) by simp
    with q(2) False 2(2) show ?thesis by auto
  qed
qed simp

text \<open>
  Wherever its card stands by the time the dialog answers, the answer changes that card alone and removing takes that card
  alone; a card that is gone is left alone.
\<close>
theorem card_changes_itself_alone:
  assumes "distinct (map fst d)" "\<forall>b\<in>snd ` set d. 0 < node_size b"
  shows "card_update i e d = map (\<lambda>(j, b). if j = i then (j, Card e) else (j, b)) d
    \<and> card_remove i d = filter (\<lambda>(j, b). j \<noteq> i) d"
proof (cases "getPos i d")
  case None
  then have "i \<notin> fst ` set d" by (simp add: getPos_None)
  with None absent_card [of i d e] show ?thesis by (simp add: card_update_def card_remove_def)
next
  case (Some p)
  with update_here [OF assms(2) Some, of e] remove_here [OF assms(2) Some] assms(1)
  show ?thesis by (simp add: card_update_def card_remove_def)
qed

theorem card_changes_itself_alone_witness:
  "card_update 7 (EBoard ''abc'' [] []) [(1, Prose 4), (7, Card (EBoard [] [] [])), (2, Prose 2)]
     = [(1, Prose 4), (7, Card (EBoard ''abc'' [] [])), (2, Prose 2)]"
  using card_changes_itself_alone
    [of "[(1, Prose 4), (7, Card (EBoard [] [] [])), (2, Prose 2)]" 7 "EBoard ''abc'' [] []"] by simp

section \<open>The title\<close>

text \<open>\<open>value.replace(/\s*\n\s*/g, ' ')\<close>: a run of white space with a line break in it becomes one space.\<close>

definition newline :: char where "newline = CHR 0x0A"

function one_line_title :: "string \<Rightarrow> string" where
  "one_line_title s =
     (case s of
        [] \<Rightarrow> []
      | c # cs \<Rightarrow>
          if is_ws c
          then (let run = takeWhile is_ws (c # cs) in
                (if newline \<in> set run then '' '' else run) @ one_line_title (dropWhile is_ws cs))
          else c # one_line_title cs)"
  by pat_completeness auto

termination
  by (relation "measure length") (auto simp: le_imp_less_Suc length_dropWhile_le)

declare one_line_title.simps [simp del]

lemma one_line_title_simps [simp]:
  "one_line_title [] = []"
  "\<not> is_ws c \<Longrightarrow> one_line_title (c # cs) = c # one_line_title cs"
  "is_ws c \<Longrightarrow> one_line_title (c # cs) =
     (if newline \<in> set (takeWhile is_ws (c # cs)) then '' '' else takeWhile is_ws (c # cs)) @ one_line_title (dropWhile is_ws cs)"
  by (simp_all add: one_line_title.simps [of "c # cs"] one_line_title.simps [of "[]"] Let_def)

lemma is_ws_newline [simp]: "is_ws newline"
  by (simp add: is_ws_def newline_def)

lemma one_line_title_kept: "newline \<notin> set s \<Longrightarrow> one_line_title s = s"
proof (induction s rule: one_line_title.induct)
  case (1 s)
  show ?case
  proof (cases s)
    case (Cons c cs)
    show ?thesis
    proof (cases "is_ws c")
      case True
      have "newline \<notin> set (dropWhile is_ws cs)" using 1(3) Cons by (auto dest: set_dropWhileD)
      then have "one_line_title (dropWhile is_ws cs) = dropWhile is_ws cs"
        using 1(1) [OF Cons True refl] by simp
      moreover have "newline \<notin> set (takeWhile is_ws (c # cs))" using 1(3) Cons by (auto dest: set_takeWhileD split: if_splits)
      ultimately show ?thesis using Cons True by simp
    next
      case False
      then show ?thesis using 1(2) [OF Cons] 1(3) Cons by simp
    qed
  qed simp
qed

lemma one_line_title_has_none: "newline \<notin> set (one_line_title s)"
proof (induction s rule: one_line_title.induct)
  case (1 s)
  show ?case
  proof (cases s)
    case (Cons c cs)
    show ?thesis
    proof (cases "is_ws c")
      case True
      then show ?thesis using 1(1) [OF Cons True refl] Cons by (auto simp: newline_def split: if_splits)
    next
      case False
      then have "c \<noteq> newline" using is_ws_newline by blast
      with False show ?thesis using 1(2) [OF Cons False] Cons by auto
    qed
  qed simp
qed

lemma one_line_title_words: "filter (\<lambda>c. \<not> is_ws c) (one_line_title s) = filter (\<lambda>c. \<not> is_ws c) s"
proof (induction s rule: one_line_title.induct)
  case (1 s)
  have space: "filter (\<lambda>c. \<not> is_ws c) '' '' = []" by (simp add: is_ws_def)
  have split: "filter (\<lambda>c. \<not> is_ws c) (takeWhile is_ws t) = []"
      "filter (\<lambda>c. \<not> is_ws c) (dropWhile is_ws t) = filter (\<lambda>c. \<not> is_ws c) t" for t
    by (induction t) simp_all
  show ?case
  proof (cases s)
    case (Cons c cs)
    show ?thesis
    proof (cases "is_ws c")
      case True
      then show ?thesis using 1(1) [OF Cons True refl] Cons space split by (simp add: filter_append split del: if_split) auto
    qed (use 1(2) [OF Cons] Cons in simp)
  qed simp
qed

text \<open>
  The title is one line: no break is left, cleaning it again changes nothing, a title without breaks is kept as typed, and no
  letter is lost.
\<close>
theorem title_is_one_line:
  "newline \<notin> set (one_line_title s) \<and> one_line_title (one_line_title s) = one_line_title s
   \<and> (newline \<notin> set s \<longrightarrow> one_line_title s = s)
   \<and> filter (\<lambda>c. \<not> is_ws c) (one_line_title s) = filter (\<lambda>c. \<not> is_ws c) s"
  using one_line_title_has_none one_line_title_kept one_line_title_words by blast

theorem title_is_one_line_witness: "one_line_title ''A back four'' = ''A back four''"
  using title_is_one_line [of "''A back four''"] by (simp add: newline_def)

section \<open>The page\<close>

text \<open>The fields of \<open>input\<close>; the setters go through \<open>edited\<close> of the editor's state.\<close>

definition setTitle :: "string \<Rightarrow> content \<Rightarrow> content" where
  "setTitle v c = c\<lparr>c_title := one_line_title v\<rparr>"

definition type_title :: "string \<Rightarrow> desk \<Rightarrow> desk" where
  "type_title v s = edited (s\<lparr>work := setTitle v (work s)\<rparr>)"

definition onBody :: "doc_node \<Rightarrow> desk \<Rightarrow> desk" where
  "onBody d s = edited (s\<lparr>work := (work s)\<lparr>c_body := d\<rparr>\<rparr>)"

definition setTags :: "string list \<Rightarrow> desk \<Rightarrow> desk" where
  "setTags ts s = edited (s\<lparr>work := (work s)\<lparr>c_tags := ts\<rparr>\<rparr>)"

definition removeCover :: "desk \<Rightarrow> desk" where
  "removeCover s = edited (s\<lparr>work := (work s)\<lparr>c_cover_url := [], c_cover_caption := []\<rparr>\<rparr>)"

text \<open>The answer of the cover's dialog; no answer leaves the page as it is.\<close>

definition cover_answered :: "dialog_answer option \<Rightarrow> desk \<Rightarrow> desk" where
  "cover_answered r s =
     (if figureFrom r = None then s
      else (case cover_from r (c_cover_url (work s), c_cover_caption (work s)) of
        (u, c) \<Rightarrow> edited (s\<lparr>work := (work s)\<lparr>c_cover_url := u, c_cover_caption := c\<rparr>\<rparr>)))"

text \<open>The browser's question before a page with changes is left: whether it asks, and the page after.\<close>

definition onBeforeUnload :: "desk \<Rightarrow> bool \<times> desk" where
  "onBeforeUnload s = (if dirty s \<or> saving s then (True, save_call Nothing s) else (False, s))"

text \<open>The history buttons, over what the editor says of itself; and the keys with Ctrl or the command key.\<close>

definition history_buttons :: "(bool \<times> bool \<times> bool) option \<Rightarrow> bool \<times> bool" where
  "history_buttons e = (case e of None \<Rightarrow> (False, False) | Some (editable, can_undo, can_redo) \<Rightarrow> (editable \<and> can_undo, editable \<and> can_redo))"

datatype page_key = Key_Save | Key_Link | Key_None

definition page_key :: "bool \<Rightarrow> string \<Rightarrow> bool \<Rightarrow> bool \<Rightarrow> page_key" where
  "page_key modified key writing focused =
     (if \<not> modified then Key_None
      else if map lower key = ''s'' then Key_Save
      else if map lower key = ''k'' \<and> writing \<and> focused then Key_Link
      else Key_None)"

text \<open>
  The handlers of the page are steps of its transition system: whatever they change is an edit there, so it is saved, and
  the last question before leaving is the one of \<open>canLeave\<close>.
\<close>
theorem handlers_are_edits:
  assumes "\<not> gone s" "canEdit s" "\<not> loading s" "loadError s = None"
  shows "desk_step (Edit (setTitle v (work s))) s = Some (type_title v s)
    \<and> desk_step (Edit ((work s)\<lparr>c_body := d\<rparr>)) s = Some (onBody d s)
    \<and> desk_step (Edit ((work s)\<lparr>c_tags := ts\<rparr>)) s = Some (setTags ts s)
    \<and> desk_step (Edit ((work s)\<lparr>c_cover_url := [], c_cover_caption := []\<rparr>)) s = Some (removeCover s)
    \<and> (cover_answered r s = s \<or> (\<exists>c. desk_step (Edit c) s = Some (cover_answered r s)))
    \<and> desk_step Leave s = Some (snd (onBeforeUnload s)) \<and> fst (canLeave s) = (\<not> fst (onBeforeUnload s))"
proof -
  have "cover_answered r s = s \<or> (\<exists>c. desk_step (Edit c) s = Some (cover_answered r s))"
    using assms by (auto simp: cover_answered_def desk_step_def split: prod.splits)
  then show ?thesis using assms
    by (simp add: desk_step_def type_title_def onBody_def setTags_def removeCover_def onBeforeUnload_def canLeave_def)
qed

theorem handlers_are_edits_witness:
  "desk_step (Edit (setTitle ''A'' blank_content)) (new_desk True False) = Some (type_title ''A'' (new_desk True False))"
  using handlers_are_edits [of "new_desk True False" "''A''"] by (simp add: new_desk_def canEdit_def)

end
